(* ===== verification/Prelude.thy ===== *)
theory Prelude
  imports Complex_Main "HOL-Library.Code_Target_Nat"
begin

section \<open>Shared vocabulary of the development\<close>

text \<open>
  The generic layer under every component: the error monad (a thrown JavaScript
  exception is the \<open>Inl\<close> of a sum), slices of sequences as
  \<^verbatim>\<open>String.prototype.slice\<close> takes them for indices that are not
  negative, and association lists read in the order of \<^verbatim>\<open>Object.entries\<close>.
  The lemmas are declared for the simplifier or put into the collections below, so
  that component proofs name a collection and not its members.
\<close>

named_theorems result_simps "binding, inversion and mapping of results"
named_theorems slice_simps "arithmetic of slices"
named_theorems span_intros "how source spans compose"

subsection \<open>Results: a value or a thrown error\<close>

definition bind_result :: "'e + 'a \<Rightarrow> ('a \<Rightarrow> 'e + 'b) \<Rightarrow> 'e + 'b" where
  "bind_result m f = (case m of Inl e \<Rightarrow> Inl e | Inr x \<Rightarrow> f x)"

lemma bind_result_simps [simp]:
  "bind_result (Inl e) f = Inl e"
  "bind_result (Inr x) f = f x"
  by (simp_all add: bind_result_def)

lemma bind_result_Inr_iff [result_simps]:
  "bind_result m f = Inr y \<longleftrightarrow> (\<exists>x. m = Inr x \<and> f x = Inr y)"
  by (cases m) simp_all

lemma bind_result_Inl_iff [result_simps]:
  "bind_result m f = Inl e \<longleftrightarrow> m = Inl e \<or> (\<exists>x. m = Inr x \<and> f x = Inl e)"
  by (cases m) simp_all

lemma bind_result_cong [fundef_cong]:
  "m = m' \<Longrightarrow> (\<And>x. m' = Inr x \<Longrightarrow> f x = f' x) \<Longrightarrow> bind_result m f = bind_result m' f'"
  by (cases m') simp_all

lemma bind_result_assoc: "bind_result (bind_result m f) g = bind_result m (\<lambda>x. bind_result (f x) g)"
  by (cases m) simp_all

lemma map_sum_Inr_iff [result_simps]: "map_sum f id m = Inr x \<longleftrightarrow> m = Inr x"
  by (cases m) simp_all

fun is_ok :: "'e + 'a \<Rightarrow> bool" where
  "is_ok (Inl _) = False"
| "is_ok (Inr _) = True"

lemma is_ok_iff [result_simps]: "is_ok m \<longleftrightarrow> (\<exists>x. m = Inr x)"
  by (cases m) simp_all

fun fold_result :: "('a \<Rightarrow> 's \<Rightarrow> 'e + 's) \<Rightarrow> 'a list \<Rightarrow> 's \<Rightarrow> 'e + 's" where
  "fold_result f [] s = Inr s"
| "fold_result f (x # xs) s = bind_result (f x s) (fold_result f xs)"

lemma fold_result_append [simp]:
  "fold_result f (xs @ ys) s = bind_result (fold_result f xs s) (fold_result f ys)"
proof (induction xs arbitrary: s)
  case (Cons x xs)
  then show ?case by (cases "f x s") simp_all
qed simp

lemma fold_result_total:
  "(\<And>x s. x \<in> set xs \<Longrightarrow> f x s = Inr (g x s)) \<Longrightarrow> fold_result f xs s = Inr (fold g xs s)"
  by (induction xs arbitrary: s) simp_all

subsection \<open>Slices\<close>

definition slice :: "'a list \<Rightarrow> nat \<Rightarrow> nat \<Rightarrow> 'a list" where
  "slice xs i j = take (j - i) (drop i xs)"

lemma length_slice [simp]: "length (slice xs i j) = min (j - i) (length xs - i)"
  by (simp add: slice_def min.commute)

lemma slice_self [simp]: "slice xs i i = []"
  by (simp add: slice_def)

lemma slice_Nil [simp]: "slice [] i j = []"
  by (simp add: slice_def)

lemma slice_full: "length xs \<le> j \<Longrightarrow> slice xs 0 j = xs"
  by (simp add: slice_def)

lemma slice_to_end: "length xs \<le> j \<Longrightarrow> slice xs i j = drop i xs"
  by (simp add: slice_def)

lemma slice_append [slice_simps]:
  "i \<le> j \<Longrightarrow> j \<le> k \<Longrightarrow> slice xs i j @ slice xs j k = slice xs i k"
proof -
  assume "i \<le> j" and "j \<le> k"
  then have "k - i = (j - i) + (k - j)" and "drop j xs = drop (j - i) (drop i xs)" by simp_all
  then show ?thesis by (simp add: slice_def take_add)
qed

lemma take_slice [slice_simps]: "take n (slice xs i j) = slice xs i (min (i + n) j)"
  by (auto simp: slice_def min_def)

lemma drop_slice [slice_simps]: "drop n (slice xs i j) = slice xs (i + n) j"
  by (simp add: slice_def drop_take add.commute diff_diff_eq)

lemma slice_around [slice_simps]:
  "i \<le> j \<Longrightarrow> j \<le> length xs \<Longrightarrow> take i xs @ slice xs i j @ drop j xs = xs"
proof -
  assume "i \<le> j" and "j \<le> length xs"
  then have "take i xs @ slice xs i j = take j xs"
    using slice_append [of 0 i j xs] by (simp add: slice_def)
  then show ?thesis by (metis append.assoc append_take_drop_id)
qed

lemma slice_nth: "i + n < j \<Longrightarrow> j \<le> length xs \<Longrightarrow> slice xs i j ! n = xs ! (i + n)"
  by (simp add: slice_def)

subsection \<open>Objects as association lists in entry order\<close>

type_synonym ('k, 'v) entries = "('k \<times> 'v) list"

definition has_own :: "('k, 'v) entries \<Rightarrow> 'k \<Rightarrow> bool" where
  "has_own es k \<longleftrightarrow> map_of es k \<noteq> None"

lemma has_own_iff: "has_own es k \<longleftrightarrow> k \<in> fst ` set es"
  by (simp add: has_own_def map_of_eq_None_iff)

text \<open>Writing a property keeps its place when it exists and appends it otherwise.\<close>

fun set_own :: "'k \<Rightarrow> 'v \<Rightarrow> ('k, 'v) entries \<Rightarrow> ('k, 'v) entries" where
  "set_own k v [] = [(k, v)]"
| "set_own k v ((k', v') # es) = (if k = k' then (k, v) # es else (k', v') # set_own k v es)"

lemma map_of_set_own [simp]: "map_of (set_own k v es) = (map_of es)(k \<mapsto> v)"
  by (induction es) (auto simp: fun_eq_iff)

lemma fst_set_own: "fst ` set (set_own k v es) = insert k (fst ` set es)"
proof (induction es)
  case (Cons e es)
  then show ?case by (cases e) (auto simp: insert_commute)
qed simp

lemma distinct_set_own: "distinct (map fst es) \<Longrightarrow> distinct (map fst (set_own k v es))"
proof (induction es)
  case (Cons e es)
  obtain k' v' where e: "e = (k', v')" by fastforce
  have "set (map fst (set_own k v es)) = insert k (set (map fst es))"
    using fst_set_own [of k v es] by simp
  with Cons e show ?case by auto
qed simp

subsection \<open>Searching lists\<close>

fun find_index :: "('a \<Rightarrow> bool) \<Rightarrow> 'a list \<Rightarrow> nat option" where
  "find_index P [] = None"
| "find_index P (x # xs) = (if P x then Some 0 else map_option Suc (find_index P xs))"

lemma find_index_Some:
  "find_index P xs = Some i \<Longrightarrow> i < length xs \<and> P (xs ! i) \<and> (\<forall>j<i. \<not> P (xs ! j))"
  by (induction xs arbitrary: i) (auto split: if_splits simp: less_Suc_eq_0_disj)

lemma find_index_None: "find_index P xs = None \<longleftrightarrow> (\<forall>x\<in>set xs. \<not> P x)"
  by (induction xs) auto

fun map_option_list :: "('a \<Rightarrow> 'b option) \<Rightarrow> 'a list \<Rightarrow> 'b list option" where
  "map_option_list f [] = Some []"
| "map_option_list f (x # xs) =
     (case f x of None \<Rightarrow> None
      | Some y \<Rightarrow> (case map_option_list f xs of None \<Rightarrow> None | Some ys \<Rightarrow> Some (y # ys)))"

lemma map_option_list_Some:
  "map_option_list f xs = Some ys \<Longrightarrow> list_all2 (\<lambda>x y. f x = Some y) xs ys"
  by (induction xs arbitrary: ys) (auto split: option.splits)

lemma map_option_list_None:
  "map_option_list f xs = None \<longleftrightarrow> (\<exists>x\<in>set xs. f x = None)"
  by (induction xs) (auto split: option.splits)

lemma map_option_list_append:
  "map_option_list f (xs @ ys) =
     (case map_option_list f xs of None \<Rightarrow> None
      | Some us \<Rightarrow> map_option (\<lambda>vs. us @ vs) (map_option_list f ys))"
proof (induction xs)
  case Nil
  show ?case by (cases "map_option_list f ys") simp_all
next
  case (Cons x xs)
  then show ?case
    by (cases "f x"; cases "map_option_list f xs"; cases "map_option_list f ys") simp_all
qed

lemma map_option_list_cong [fundef_cong]:
  "xs = ys \<Longrightarrow> (\<And>x. x \<in> set ys \<Longrightarrow> f x = g x) \<Longrightarrow> map_option_list f xs = map_option_list g ys"
proof (induction ys arbitrary: xs)
  case (Cons y ys)
  then have "map_option_list f ys = map_option_list g ys" by simp
  with Cons.prems show ?case by (simp cong: option.case_cong)
qed simp

fun map_result :: "('a \<Rightarrow> 'e + 'b) \<Rightarrow> 'a list \<Rightarrow> 'e + 'b list" where
  "map_result f [] = Inr []"
| "map_result f (x # xs) = bind_result (f x) (\<lambda>y. bind_result (map_result f xs) (\<lambda>ys. Inr (y # ys)))"

lemma map_result_cong [fundef_cong]:
  "xs = ys \<Longrightarrow> (\<And>x. x \<in> set ys \<Longrightarrow> f x = g x) \<Longrightarrow> map_result f xs = map_result g ys"
proof (induction ys arbitrary: xs)
  case (Cons y ys)
  then have "map_result f ys = map_result g ys" by simp
  with Cons.prems show ?case by simp
qed simp

lemma map_result_Inr: "map_result f xs = Inr ys \<longleftrightarrow> list_all2 (\<lambda>x y. f x = Inr y) xs ys"
proof (induction xs arbitrary: ys)
  case (Cons x xs)
  then show ?case by (cases ys) (auto simp: result_simps)
qed auto

end
