(* ===== verification/Js_String.thy ===== *)
theory Js_String
  imports Prelude
begin

section \<open>JavaScript strings\<close>

text \<open>
  A JavaScript string is a sequence of UTF-16 code units. A code unit is the integer
  the language gives it (0 to 65535); \<open>js ''abc''\<close> is the string of an ASCII literal
  of the source. The operations are the ones the modelled files call: white space and
  \<^verbatim>\<open>trim\<close>, \<^verbatim>\<open>startsWith\<close>, \<^verbatim>\<open>includes\<close>, \<^verbatim>\<open>join\<close>, the character classes of
  their regular expressions, hexadecimal escapes and \<^verbatim>\<open>JSON.stringify\<close> of a string.
\<close>

type_synonym code_unit = int
type_synonym js_string = "code_unit list"

definition js :: "string \<Rightarrow> js_string" where
  "js s = map of_char s"

lemma inj_of_char_int: "inj (of_char :: char \<Rightarrow> int)"
  by (rule injI) simp

lemma js_eq_iff [simp]: "js s = js t \<longleftrightarrow> s = t"
  unfolding js_def by (rule inj_map_eq_map [OF inj_of_char_int])

lemma js_Nil [simp]: "js [] = []"
  by (simp add: js_def)

lemma js_eq_Nil_iff [simp]: "js s = [] \<longleftrightarrow> s = []" "[] = js s \<longleftrightarrow> s = []"
  by (auto simp: js_def)

lemma js_append: "js (s @ t) = js s @ js t"
  by (simp add: js_def)

subsection \<open>Character classes\<close>

text \<open>\<^verbatim>\<open>\s\<close> is WhiteSpace and LineTerminator of the language, and what \<^verbatim>\<open>trim\<close> removes.\<close>

definition is_space :: "code_unit \<Rightarrow> bool" where
  "is_space c \<longleftrightarrow>
     (9 \<le> c \<and> c \<le> 13) \<or> c = 32 \<or> c = 160 \<or> c = 5760 \<or> (8192 \<le> c \<and> c \<le> 8202) \<or>
     c = 8232 \<or> c = 8233 \<or> c = 8239 \<or> c = 8287 \<or> c = 12288 \<or> c = 65279"

definition is_digit :: "code_unit \<Rightarrow> bool" where
  "is_digit c \<longleftrightarrow> 48 \<le> c \<and> c \<le> 57"

definition is_letter :: "code_unit \<Rightarrow> bool" where
  "is_letter c \<longleftrightarrow> (65 \<le> c \<and> c \<le> 90) \<or> (97 \<le> c \<and> c \<le> 122)"

text \<open>\<^verbatim>\<open>[A-Za-z_]\<close> and \<^verbatim>\<open>\w\<close>.\<close>

definition is_name_start :: "code_unit \<Rightarrow> bool" where
  "is_name_start c \<longleftrightarrow> is_letter c \<or> c = 95"

definition is_word :: "code_unit \<Rightarrow> bool" where
  "is_word c \<longleftrightarrow> is_letter c \<or> is_digit c \<or> c = 95"

definition is_hex :: "code_unit \<Rightarrow> bool" where
  "is_hex c \<longleftrightarrow> is_digit c \<or> (65 \<le> c \<and> c \<le> 70) \<or> (97 \<le> c \<and> c \<le> 102)"

definition hex_value :: "code_unit \<Rightarrow> int" where
  "hex_value c = (if is_digit c then c - 48 else if c \<le> 70 then c - 55 else c - 87)"

definition parse_hex :: "js_string \<Rightarrow> int" where
  "parse_hex s = foldl (\<lambda>n c. 16 * n + hex_value c) 0 s"

lemma digit_not_space [simp]: "is_digit c \<Longrightarrow> \<not> is_space c"
  by (auto simp: is_digit_def is_space_def)

lemma word_not_space [simp]: "is_word c \<Longrightarrow> \<not> is_space c"
  by (auto simp: is_word_def is_letter_def is_digit_def is_space_def)

lemma name_start_not_digit: "is_name_start c \<Longrightarrow> \<not> is_digit c"
  by (auto simp: is_name_start_def is_letter_def is_digit_def)

lemma name_start_word: "is_name_start c \<Longrightarrow> is_word c"
  by (auto simp: is_name_start_def is_word_def)

lemma hex_value_bounds: "is_hex c \<Longrightarrow> 0 \<le> hex_value c \<and> hex_value c < 16"
  by (auto simp: is_hex_def hex_value_def is_digit_def)

subsection \<open>Trimming, searching and joining\<close>

definition trim_start :: "js_string \<Rightarrow> js_string" where
  "trim_start s = dropWhile is_space s"

definition trim :: "js_string \<Rightarrow> js_string" where
  "trim s = rev (dropWhile is_space (rev (dropWhile is_space s)))"

fun starts_with :: "js_string \<Rightarrow> js_string \<Rightarrow> bool" where
  "starts_with s [] = True"
| "starts_with [] (p # ps) = False"
| "starts_with (c # s) (p # ps) = (c = p \<and> starts_with s ps)"

lemma starts_with_iff: "starts_with s p \<longleftrightarrow> (\<exists>r. s = p @ r)"
  by (induction s p rule: starts_with.induct) auto

definition ends_with :: "js_string \<Rightarrow> js_string \<Rightarrow> bool" where
  "ends_with s p = starts_with (rev s) (rev p)"

lemma ends_with_iff: "ends_with s p \<longleftrightarrow> (\<exists>r. s = r @ p)"
proof
  assume "ends_with s p"
  then obtain r where "rev s = rev p @ r" by (auto simp: ends_with_def starts_with_iff)
  then have "s = rev r @ p" by (metis rev_append rev_rev_ident)
  then show "\<exists>r. s = r @ p" ..
next
  assume "\<exists>r. s = r @ p"
  then show "ends_with s p" by (auto simp: ends_with_def starts_with_iff)
qed

fun str_includes :: "js_string \<Rightarrow> js_string \<Rightarrow> bool" where
  "str_includes [] p = (p = [])"
| "str_includes (c # s) p = (starts_with (c # s) p \<or> str_includes s p)"

lemma str_includes_iff: "str_includes s p \<longleftrightarrow> (\<exists>l r. s = l @ p @ r)"
proof (induction s)
  case Nil
  show ?case by simp
next
  case (Cons c s)
  have "(\<exists>l r. c # s = l @ p @ r) \<longleftrightarrow> starts_with (c # s) p \<or> (\<exists>l r. s = l @ p @ r)"
  proof
    assume "\<exists>l r. c # s = l @ p @ r"
    then obtain l r where eq: "c # s = l @ p @ r" by blast
    show "starts_with (c # s) p \<or> (\<exists>l r. s = l @ p @ r)"
    proof (cases l)
      case Nil
      with eq show ?thesis by (auto simp: starts_with_iff)
    next
      case (Cons d l')
      with eq have "s = l' @ p @ r" by simp
      then show ?thesis by blast
    qed
  next
    assume "starts_with (c # s) p \<or> (\<exists>l r. s = l @ p @ r)"
    then show "\<exists>l r. c # s = l @ p @ r"
      by (metis append_Cons append_Nil starts_with_iff)
  qed
  with Cons.IH show ?case by simp
qed

fun join :: "js_string \<Rightarrow> js_string list \<Rightarrow> js_string" where
  "join sep [] = []"
| "join sep [s] = s"
| "join sep (s # t # ss) = s @ sep @ join sep (t # ss)"

lemma trim_no_leading: "trim s = c # r \<Longrightarrow> \<not> is_space c"
proof
  assume eq: "trim s = c # r" and sp: "is_space c"
  define t where "t = dropWhile is_space s"
  have "trim s = rev (dropWhile is_space (rev t))" by (simp add: trim_def t_def)
  moreover have "rev t = takeWhile is_space (rev t) @ dropWhile is_space (rev t)" by simp
  ultimately have "t = trim s @ rev (takeWhile is_space (rev t))"
    by (metis rev_append rev_rev_ident)
  with eq have "t = c # r @ rev (takeWhile is_space (rev t))" by simp
  then have "hd t = c" and "t \<noteq> []" by (metis list.sel(1), metis list.distinct(1))
  then have "\<not> is_space c" unfolding t_def using hd_dropWhile by blast
  with sp show False by blast
qed

lemma trim_no_trailing: "trim s = r @ [c] \<Longrightarrow> \<not> is_space c"
proof
  assume eq: "trim s = r @ [c]" and sp: "is_space c"
  from eq have "dropWhile is_space (rev (dropWhile is_space s)) = c # rev r"
    by (simp add: trim_def rev_swap)
  then have "\<not> is_space c" by (metis hd_dropWhile list.distinct(1) list.sel(1))
  with sp show False by blast
qed

lemma trim_id:
  assumes "s \<noteq> []" and "\<not> is_space (hd s)" and "\<not> is_space (last s)"
  shows "trim s = s"
proof -
  from assms(1,2) have "dropWhile is_space s = s" by (cases s) simp_all
  moreover from assms(1,3) have "dropWhile is_space (rev s) = rev s"
    by (cases s rule: rev_cases) simp_all
  ultimately show ?thesis by (simp add: trim_def)
qed

lemma trim_Nil [simp]: "trim [] = []"
  by (simp add: trim_def)

lemma trim_trim [simp]: "trim (trim s) = trim s"
proof (cases "trim s = []")
  case False
  obtain c r where "trim s = c # r" using False by (cases "trim s") auto
  then have "\<not> is_space (hd (trim s))" using trim_no_leading by simp
  moreover obtain c' r' where "trim s = r' @ [c']" using False by (cases "trim s" rule: rev_cases) auto
  then have "\<not> is_space (last (trim s))" using trim_no_trailing by simp
  moreover note False
  ultimately show ?thesis by (intro trim_id)
qed simp

subsection \<open>Case folding\<close>

text \<open>
  \<^verbatim>\<open>toLowerCase\<close> follows the Unicode tables, which are not part of the repository: on
  ASCII text the result is computed here, on any other text it is the parameter.
\<close>

definition ascii_lower :: "code_unit \<Rightarrow> code_unit" where
  "ascii_lower c = (if 65 \<le> c \<and> c \<le> 90 then c + 32 else c)"

definition to_lower_case :: "(js_string \<Rightarrow> js_string) \<Rightarrow> js_string \<Rightarrow> js_string" where
  "to_lower_case unicode s = (if list_all (\<lambda>c. c < 128) s then map ascii_lower s else unicode s)"

lemma to_lower_case_idem:
  assumes "list_all (\<lambda>c. c < 128) s"
  shows "to_lower_case u (to_lower_case u s) = to_lower_case u s"
proof -
  have "ascii_lower c < 128" if "c < 128" for c
    using that by (auto simp: ascii_lower_def)
  with assms have "list_all (\<lambda>c. c < 128) (map ascii_lower s)" by (auto simp: list_all_iff)
  moreover have "map ascii_lower (map ascii_lower s) = map ascii_lower s"
    by (simp add: ascii_lower_def)
  ultimately show ?thesis using assms by (simp add: to_lower_case_def)
qed

subsection \<open>JSON.stringify of a string\<close>

definition hex_digit :: "int \<Rightarrow> code_unit" where
  "hex_digit n = (if n < 10 then 48 + n else 87 + n)"

definition unicode_escape :: "code_unit \<Rightarrow> js_string" where
  "unicode_escape c =
     [92, 117, hex_digit (c div 4096 mod 16), hex_digit (c div 256 mod 16),
      hex_digit (c div 16 mod 16), hex_digit (c mod 16)]"

definition is_lead :: "code_unit \<Rightarrow> bool" where
  "is_lead c \<longleftrightarrow> 55296 \<le> c \<and> c \<le> 56319"

definition is_trail :: "code_unit \<Rightarrow> bool" where
  "is_trail c \<longleftrightarrow> 56320 \<le> c \<and> c \<le> 57343"

definition quote_unit :: "code_unit \<Rightarrow> js_string" where
  "quote_unit c =
     (if c = 34 then [92, 34] else if c = 92 then [92, 92]
      else if c = 8 then [92, 98] else if c = 12 then [92, 102]
      else if c = 10 then [92, 110] else if c = 13 then [92, 114]
      else if c = 9 then [92, 116] else if c < 32 then unicode_escape c else [c])"

fun quote_units :: "js_string \<Rightarrow> js_string" where
  "quote_units [] = []"
| "quote_units [c] = (if is_lead c \<or> is_trail c then unicode_escape c else quote_unit c)"
| "quote_units (c # d # s) =
     (if is_lead c \<and> is_trail d then c # d # quote_units s
      else if is_lead c \<or> is_trail c then unicode_escape c @ quote_units (d # s)
      else quote_unit c @ quote_units (d # s))"

definition json_string :: "js_string \<Rightarrow> js_string" where
  "json_string s = 34 # quote_units s @ [34]"

abbreviation code_units :: "js_string \<Rightarrow> bool" where
  "code_units s \<equiv> list_all (\<lambda>c. 0 \<le> c \<and> c < 65536) s"

lemma hex_digit_value: "0 \<le> n \<Longrightarrow> n < 16 \<Longrightarrow> is_hex (hex_digit n) \<and> hex_value (hex_digit n) = n"
  by (auto simp: hex_digit_def is_hex_def hex_value_def is_digit_def)

lemma parse_hex_escape:
  assumes "0 \<le> c" and "c < 65536"
  shows "parse_hex [hex_digit (c div 4096 mod 16), hex_digit (c div 256 mod 16),
      hex_digit (c div 16 mod 16), hex_digit (c mod 16)] = c"
proof -
  have hv: "hex_value (hex_digit (x mod 16)) = x mod 16" for x
    by (rule hex_digit_value [THEN conjunct2]) simp_all
  have eq: "16 * (16 * (16 * (c div 4096 mod 16) + c div 256 mod 16) + c div 16 mod 16) + c mod 16 = c"
  proof -
    define a where "a = c div 16"
    define b where "b = a div 16"
    define d where "d = b div 16"
    have b: "c div 256 = b" using zdiv_zmult2_eq [of 16 c 16] by (simp add: a_def b_def)
    have d: "c div 4096 = d" using zdiv_zmult2_eq [of 16 c 256] b by (simp add: d_def)
    have "d mod 16 = d" using assms d by auto
    then have "16 * (d mod 16) + b mod 16 = b" "16 * b + a mod 16 = a" "16 * a + c mod 16 = c"
      unfolding d_def b_def a_def by simp_all
    then show ?thesis unfolding b d a_def [symmetric] by (simp only:)
  qed
  show ?thesis
    unfolding parse_hex_def foldl.simps hv mult_zero_right add_0 by (rule eq)
qed

lemma length_unicode_escape [simp]: "length (unicode_escape c) = 6"
  by (simp add: unicode_escape_def)

end
