(* ===== verification/Expr_Structure.thy ===== *)
theory Expr_Structure
  imports Js_String
begin

section \<open>Structure without parsing (structure.ts)\<close>

text \<open>
  \<^verbatim>\<open>splitExpressionAtTopLevel\<close> cuts a source at an operator outside quotes and
  brackets, \<^verbatim>\<open>unwrapExpressionParens\<close> removes parentheses around a whole source. Neither
  parses. The loops run over positions; the state of the scan is the depth and the
  open quote. The lemmas show that cutting loses nothing (\<open>split_join\<close>) and that
  unwrapping ends with a source that has nothing left to unwrap (\<open>unwrap_idem\<close>).
\<close>

definition is_quote :: "code_unit \<Rightarrow> bool" where
  "is_quote c \<longleftrightarrow> c = 34 \<or> c = 39"

text \<open>
  The change of depth by a bracket. The first scan counts three kinds of brackets, the
  second parentheses only.
\<close>

definition bracket_step :: "code_unit \<Rightarrow> int" where
  "bracket_step c =
     (if c = 40 \<or> c = 91 \<or> c = 123 then 1 else if c = 41 \<or> c = 93 \<or> c = 125 then - 1 else 0)"

definition paren_step :: "code_unit \<Rightarrow> int" where
  "paren_step c = (if c = 40 then 1 else if c = 41 then - 1 else 0)"

subsection \<open>Cutting at an operator\<close>

text \<open>
  The loop of \<^verbatim>\<open>splitExpressionAtTopLevel\<close>: \<open>None\<close> when it meets a question mark at depth 0,
  otherwise the pieces of the source before they are trimmed. \<^verbatim>\<open>i += operator.length - 1\<close>
  and the \<^verbatim>\<open>i++\<close> of the loop advance by the length of the operator; every caller passes an
  operator that is not empty, and for an empty one the step is 1 here.
\<close>

function split_loop ::
  "js_string \<Rightarrow> js_string \<Rightarrow> nat \<Rightarrow> nat \<Rightarrow> int \<Rightarrow> code_unit option \<Rightarrow> js_string list \<Rightarrow> js_string list option" where
  "split_loop op src i start depth quote pieces =
     (if length src \<le> i then Some (pieces @ [drop start src])
      else
        (let c = src ! i in
         case quote of
           Some q \<Rightarrow>
             if c = 92 then split_loop op src (i + 2) start depth quote pieces
             else split_loop op src (i + 1) start depth (if c = q then None else quote) pieces
         | None \<Rightarrow>
             if is_quote c then split_loop op src (i + 1) start depth (Some c) pieces
             else
               (let depth' = depth + bracket_step c in
                if depth' \<noteq> 0 then split_loop op src (i + 1) start depth' None pieces
                else if c = 63 then None
                else if starts_with (drop i src) op
                then split_loop op src (i + max 1 (length op)) (i + length op) depth' None
                       (pieces @ [slice src start i])
                else split_loop op src (i + 1) start depth' None pieces)))"
  by pat_completeness auto
termination
  by (relation "measure (\<lambda>(op, src, i, start, depth, quote, pieces). length src - i)") auto

declare split_loop.simps [simp del]

definition splitExpressionAtTopLevel :: "js_string \<Rightarrow> js_string \<Rightarrow> js_string list" where
  "splitExpressionAtTopLevel source op =
     (case split_loop op source 0 0 0 None [] of
        None \<Rightarrow> [trim source]
      | Some pieces \<Rightarrow> filter (\<lambda>p. p \<noteq> []) (map trim pieces))"

subsection \<open>Unwrapping parentheses\<close>

text \<open>The inner loop: whether the first parenthesis closes at the last position.\<close>

function closes_at_end :: "js_string \<Rightarrow> nat \<Rightarrow> int \<Rightarrow> code_unit option \<Rightarrow> bool" where
  "closes_at_end e i depth quote =
     (if length e \<le> i then False
      else
        (let c = e ! i in
         case quote of
           Some q \<Rightarrow>
             if c = 92 then closes_at_end e (i + 2) depth quote
             else closes_at_end e (i + 1) depth (if c = q then None else quote)
         | None \<Rightarrow>
             if is_quote c then closes_at_end e (i + 1) depth (Some c)
             else
               (let depth' = depth + paren_step c in
                if depth' = 0 then i = length e - 1
                else closes_at_end e (i + 1) depth' None)))"
  by pat_completeness auto
termination
  by (relation "measure (\<lambda>(e, i, depth, quote). length e - i)") auto

declare closes_at_end.simps [simp del]

definition is_wrapped :: "js_string \<Rightarrow> bool" where
  "is_wrapped e \<longleftrightarrow> starts_with e (js ''('') \<and> ends_with e (js '')'') \<and> closes_at_end e 0 0 None"

lemma trim_length: "length (trim s) \<le> length s"
proof -
  have "length (dropWhile is_space (rev (dropWhile is_space s))) \<le> length (rev (dropWhile is_space s))"
    by (rule length_dropWhile_le)
  also have "\<dots> \<le> length s" using length_dropWhile_le by simp
  finally show ?thesis by (simp add: trim_def)
qed

lemma is_wrapped_length: "is_wrapped e \<Longrightarrow> 2 \<le> length e"
proof -
  assume "is_wrapped e"
  then obtain r r' where "e = js ''('' @ r" "e = r' @ js '')''"
    unfolding is_wrapped_def starts_with_iff ends_with_iff by blast
  then show "2 \<le> length e" by (cases r; cases r') (auto simp: js_def)
qed

function unwrap_loop :: "js_string \<Rightarrow> js_string" where
  "unwrap_loop e = (if is_wrapped e then unwrap_loop (trim (slice e 1 (length e - 1))) else e)"
  by pat_completeness auto
termination
proof (relation "measure length")
  fix e :: js_string
  assume "is_wrapped e"
  then have "2 \<le> length e" by (rule is_wrapped_length)
  then have "length (slice e 1 (length e - 1)) < length e" by simp
  with trim_length [of "slice e 1 (length e - 1)"]
  show "(trim (slice e 1 (length e - 1)), e) \<in> measure length" by simp
qed simp

declare unwrap_loop.simps [simp del]

definition unwrapExpressionParens :: "js_string \<Rightarrow> js_string" where
  "unwrapExpressionParens source = unwrap_loop (trim source)"

subsection \<open>Cutting loses nothing\<close>

fun glue :: "js_string \<Rightarrow> js_string list \<Rightarrow> js_string" where
  "glue op [] = []"
| "glue op [p] = p"
| "glue op (p # q # ps) = p @ op @ glue op (q # ps)"

lemma glue_snoc: "ps \<noteq> [] \<Longrightarrow> glue op (ps @ [p]) = glue op ps @ op @ p"
  by (induction op ps rule: glue.induct) auto

lemma glue_split: "glue op (ps @ [x @ op @ y]) = glue op (ps @ [x, y])"
  by (induction op ps rule: glue.induct) auto

lemma drop_at_operator:
  assumes "starts_with (drop i src) op" and "start \<le> i" and "i \<le> length src"
  shows "drop start src = slice src start i @ op @ drop (i + length op) src"
proof -
  obtain r where r: "drop i src = op @ r" using assms(1) by (auto simp: starts_with_iff)
  then have "drop (i + length op) src = r" by (metis add.commute append_eq_conv_conj drop_drop)
  moreover have "drop start src = slice src start i @ drop i src"
    using assms(2,3) by (metis append_take_drop_id drop_drop le_add_diff_inverse2 slice_def)
  ultimately show ?thesis using r by simp
qed

lemma split_loop_glue:
  assumes "op \<noteq> []"
  shows "split_loop op src i start depth quote pieces = Some ps \<Longrightarrow> start \<le> i \<Longrightarrow>
    glue op ps = glue op (pieces @ [drop start src])"
  using assms
proof (induction op src i start depth quote pieces rule: split_loop.induct)
  case (1 op src i start depth quote pieces)
  show ?case
  proof (cases "length src \<le> i")
    case True
    with "1.prems"(1) show ?thesis by (simp add: split_loop.simps [of op src i])
  next
    case False
    let ?c = "src ! i" and ?d = "depth + bracket_step (src ! i)"
    note step = "1.prems"(1) [unfolded split_loop.simps [of op src i] if_not_P [OF False] Let_def]
    show ?thesis
    proof (cases quote)
      case (Some q)
      then show ?thesis using "1.IH"(5,6) [OF False refl Some] "1.prems" step by (auto split: if_splits)
    next
      case None
      consider (quote) "is_quote ?c" | (inside) "\<not> is_quote ?c" "?d \<noteq> 0"
        | (cut) "\<not> is_quote ?c" "?d = 0" "?c \<noteq> 63" "starts_with (drop i src) op"
        | (plain) "\<not> is_quote ?c" "?d = 0" "?c \<noteq> 63" "\<not> starts_with (drop i src) op"
        using step None by (auto split: if_splits)
      then show ?thesis
      proof cases
        case quote
        then show ?thesis using "1.IH"(1) [OF False refl None quote] "1.prems" step None by simp
      next
        case inside
        then show ?thesis using "1.IH"(2) [OF False refl None inside(1) refl inside(2)] "1.prems" step None by simp
      next
        case cut
        have d: "\<not> ?d \<noteq> 0" using cut(2) by simp
        have "glue op ps = glue op ((pieces @ [slice src start i]) @ [drop (i + length op) src])"
          using "1.IH"(3) [OF False refl None cut(1) refl d cut(3,4)] "1.prems"(2,3) step None cut by simp
        also have "\<dots> = glue op (pieces @ [slice src start i @ op @ drop (i + length op) src])"
          by (simp only: glue_split append.assoc append_Cons append_Nil)
        also have "\<dots> = glue op (pieces @ [drop start src])"
          using drop_at_operator [OF cut(4) "1.prems"(2)] False by simp
        finally show ?thesis .
      next
        case plain
        have d: "\<not> ?d \<noteq> 0" using plain(2) by simp
        show ?thesis
          using "1.IH"(4) [OF False refl None plain(1) refl d plain(3,4)] "1.prems"(2,3) step None plain by simp
      qed
    qed
  qed
qed

theorem split_join:
  assumes "op \<noteq> []"
  shows "splitExpressionAtTopLevel src op = [trim src] \<or>
    (\<exists>pieces. glue op pieces = src \<and> splitExpressionAtTopLevel src op = filter (\<lambda>p. p \<noteq> []) (map trim pieces))"
proof (cases "split_loop op src 0 0 0 None []")
  case (Some pieces)
  from split_loop_glue [OF assms Some] Some show ?thesis
    by (auto simp: splitExpressionAtTopLevel_def)
qed (simp add: splitExpressionAtTopLevel_def)

subsection \<open>Unwrapping is complete\<close>

lemma unwrap_loop_not_wrapped: "\<not> is_wrapped (unwrap_loop e)"
proof (induction e rule: unwrap_loop.induct)
  case (1 e)
  then show ?case by (cases "is_wrapped e") (simp_all add: unwrap_loop.simps [of e])
qed

lemma unwrap_loop_trimmed: "trim e = e \<Longrightarrow> trim (unwrap_loop e) = unwrap_loop e"
proof (induction e rule: unwrap_loop.induct)
  case (1 e)
  then show ?case by (cases "is_wrapped e") (simp_all add: unwrap_loop.simps [of e])
qed

theorem unwrap_idem: "unwrapExpressionParens (unwrapExpressionParens s) = unwrapExpressionParens s"
proof -
  let ?u = "unwrap_loop (trim s)"
  have "trim ?u = ?u" by (rule unwrap_loop_trimmed) simp
  then show ?thesis
    by (simp add: unwrapExpressionParens_def unwrap_loop_not_wrapped unwrap_loop.simps [of ?u])
qed

end
