(* ===== verification/Js_Number.thy ===== *)
theory Js_Number
  imports Js_String "HOL-Library.Log_Nat"
begin

section \<open>JavaScript numbers\<close>

text \<open>
  A JavaScript number is an IEEE 754 double. \<open>Fin q\<close> is the finite double whose exact
  value is \<open>q\<close> (\<open>Fin 0\<close> is positive zero), and the other constructors are the values
  that are no rational. Every arithmetic operation computes the exact result and
  rounds it once with \<open>to_double\<close>, to nearest with ties to even, as the language
  prescribes. \<open>is_double\<close> says that a value is one of the doubles; every operation
  returns one.
\<close>

datatype js_num = NaN | PosInf | NegInf | NegZero | Fin rat

subsection \<open>Rounding\<close>

definition round_even :: "rat \<Rightarrow> int" where
  "round_even q =
     (let f = \<lfloor>q\<rfloor>; d = q - of_int f in
      if d < 1 / 2 then f else if 1 / 2 < d then f + 1 else if even f then f else f + 1)"

text \<open>\<open>ilog b q\<close> is the greatest \<open>k\<close> with \<open>b powi k \<le> q\<close>, for positive \<open>q\<close>.\<close>

definition ilog :: "nat \<Rightarrow> rat \<Rightarrow> int" where
  "ilog b q =
     (case quotient_of q of (n, d) \<Rightarrow>
        let k = int (floorlog b (nat n)) - int (floorlog b (nat d)) in
        if of_nat b powi k \<le> q then k else k - 1)"

definition double_exponent :: "rat \<Rightarrow> int" where
  "double_exponent q = max (ilog 2 \<bar>q\<bar> - 52) (- 1074)"

definition round_mantissa :: "rat \<Rightarrow> rat" where
  "round_mantissa q =
     (let e = double_exponent q in of_int (round_even (q / 2 powi e)) * 2 powi e)"

definition to_double :: "rat \<Rightarrow> js_num" where
  "to_double q =
     (if q = 0 then Fin 0
      else let r = round_mantissa q in
        if r = 0 then (if q < 0 then NegZero else Fin 0)
        else if 1024 \<le> ilog 2 \<bar>r\<bar> then (if 0 < r then PosInf else NegInf)
        else Fin r)"

fun is_double :: "js_num \<Rightarrow> bool" where
  "is_double (Fin q) \<longleftrightarrow> to_double q = Fin q"
| "is_double _ \<longleftrightarrow> True"

subsection \<open>Classification and comparison\<close>

fun num_value :: "js_num \<Rightarrow> rat" where
  "num_value (Fin q) = q"
| "num_value _ = 0"

fun is_finite :: "js_num \<Rightarrow> bool" where
  "is_finite (Fin _) = True"
| "is_finite NegZero = True"
| "is_finite _ = False"

fun is_negative :: "js_num \<Rightarrow> bool" where
  "is_negative (Fin q) = (q < 0)"
| "is_negative NegZero = True"
| "is_negative NegInf = True"
| "is_negative _ = False"

fun is_zero :: "js_num \<Rightarrow> bool" where
  "is_zero (Fin q) = (q = 0)"
| "is_zero NegZero = True"
| "is_zero _ = False"

definition is_integer :: "js_num \<Rightarrow> bool" where
  "is_integer x \<longleftrightarrow> is_finite x \<and> of_int \<lfloor>num_value x\<rfloor> = num_value x"

definition is_safe_integer :: "js_num \<Rightarrow> bool" where
  "is_safe_integer x \<longleftrightarrow> is_integer x \<and> \<bar>num_value x\<bar> \<le> 9007199254740991"

text \<open>The strict equality \<^verbatim>\<open>===\<close> and the order \<^verbatim>\<open><\<close> of numbers.\<close>

fun num_eq :: "js_num \<Rightarrow> js_num \<Rightarrow> bool" where
  "num_eq NaN _ = False"
| "num_eq _ NaN = False"
| "num_eq PosInf y = (y = PosInf)"
| "num_eq NegInf y = (y = NegInf)"
| "num_eq x y = (is_finite y \<and> num_value x = num_value y)"

fun num_lt :: "js_num \<Rightarrow> js_num \<Rightarrow> bool" where
  "num_lt NaN _ = False"
| "num_lt _ NaN = False"
| "num_lt PosInf _ = False"
| "num_lt _ NegInf = False"
| "num_lt NegInf _ = True"
| "num_lt _ PosInf = True"
| "num_lt x y = (num_value x < num_value y)"

definition num_le :: "js_num \<Rightarrow> js_num \<Rightarrow> bool" where
  "num_le x y \<longleftrightarrow> num_lt x y \<or> num_eq x y"

subsection \<open>Arithmetic\<close>

definition signed_zero :: "bool \<Rightarrow> js_num" where
  "signed_zero neg = (if neg then NegZero else Fin 0)"

definition signed_inf :: "bool \<Rightarrow> js_num" where
  "signed_inf neg = (if neg then NegInf else PosInf)"

fun num_neg :: "js_num \<Rightarrow> js_num" where
  "num_neg NaN = NaN"
| "num_neg PosInf = NegInf"
| "num_neg NegInf = PosInf"
| "num_neg NegZero = Fin 0"
| "num_neg (Fin q) = (if q = 0 then NegZero else Fin (- q))"

definition num_add :: "js_num \<Rightarrow> js_num \<Rightarrow> js_num" where
  "num_add x y =
     (if x = NaN \<or> y = NaN then NaN
      else if \<not> is_finite x then (if \<not> is_finite y \<and> x \<noteq> y then NaN else x)
      else if \<not> is_finite y then y
      else if x = NegZero \<and> y = NegZero then NegZero
      else to_double (num_value x + num_value y))"

definition num_sub :: "js_num \<Rightarrow> js_num \<Rightarrow> js_num" where
  "num_sub x y = num_add x (num_neg y)"

definition num_mul :: "js_num \<Rightarrow> js_num \<Rightarrow> js_num" where
  "num_mul x y =
     (if x = NaN \<or> y = NaN then NaN
      else let neg = (is_negative x \<noteq> is_negative y) in
        if \<not> is_finite x \<or> \<not> is_finite y
        then (if is_zero x \<or> is_zero y then NaN else signed_inf neg)
        else if is_zero x \<or> is_zero y then signed_zero neg
        else to_double (num_value x * num_value y))"

definition num_div :: "js_num \<Rightarrow> js_num \<Rightarrow> js_num" where
  "num_div x y =
     (if x = NaN \<or> y = NaN then NaN
      else let neg = (is_negative x \<noteq> is_negative y) in
        if \<not> is_finite x then (if \<not> is_finite y then NaN else signed_inf neg)
        else if \<not> is_finite y then signed_zero neg
        else if is_zero y then (if is_zero x then NaN else signed_inf neg)
        else if is_zero x then signed_zero neg
        else to_double (num_value x / num_value y))"

text \<open>\<^verbatim>\<open>%\<close> truncates towards zero and keeps the sign of the dividend; it never rounds.\<close>

definition num_rem :: "js_num \<Rightarrow> js_num \<Rightarrow> js_num" where
  "num_rem x y =
     (if \<not> is_finite x \<or> y = NaN \<or> is_zero y then NaN
      else if \<not> is_finite y then x
      else let a = \<bar>num_value x\<bar>; b = \<bar>num_value y\<bar>; r = a - b * of_int \<lfloor>a / b\<rfloor> in
        if r = 0 then signed_zero (is_negative x)
        else Fin (if is_negative x then - r else r))"

definition num_min :: "js_num \<Rightarrow> js_num \<Rightarrow> js_num" where
  "num_min x y =
     (if x = NaN \<or> y = NaN then NaN
      else if is_zero x \<and> is_zero y then signed_zero (is_negative x \<or> is_negative y)
      else if num_lt y x then y else x)"

definition num_max :: "js_num \<Rightarrow> js_num \<Rightarrow> js_num" where
  "num_max x y =
     (if x = NaN \<or> y = NaN then NaN
      else if is_zero x \<and> is_zero y then signed_zero (is_negative x \<and> is_negative y)
      else if num_lt x y then y else x)"

fun num_abs :: "js_num \<Rightarrow> js_num" where
  "num_abs NaN = NaN"
| "num_abs PosInf = PosInf"
| "num_abs NegInf = PosInf"
| "num_abs NegZero = Fin 0"
| "num_abs (Fin q) = Fin \<bar>q\<bar>"

fun num_floor :: "js_num \<Rightarrow> js_num" where
  "num_floor (Fin q) = Fin (of_int \<lfloor>q\<rfloor>)"
| "num_floor x = x"

fun num_ceil :: "js_num \<Rightarrow> js_num" where
  "num_ceil (Fin q) = (if q < 0 \<and> \<lceil>q\<rceil> = 0 then NegZero else Fin (of_int \<lceil>q\<rceil>))"
| "num_ceil x = x"

definition num_of_nat :: "nat \<Rightarrow> js_num" where
  "num_of_nat n = to_double (of_nat n)"

definition num_of_int :: "int \<Rightarrow> js_num" where
  "num_of_int n = to_double (of_int n)"

subsection \<open>Number of a string\<close>

definition digits_value :: "js_string \<Rightarrow> int" where
  "digits_value s = foldl (\<lambda>n c. 10 * n + (c - 48)) 0 s"

definition exponent_value :: "js_string \<Rightarrow> int option" where
  "exponent_value s =
     (case s of [] \<Rightarrow> Some 0
      | e # r \<Rightarrow>
          if e = 101 \<or> e = 69 then
            (let neg = (r \<noteq> [] \<and> hd r = 45);
                 ds = (if r \<noteq> [] \<and> (hd r = 45 \<or> hd r = 43) then tl r else r) in
             if ds \<noteq> [] \<and> list_all is_digit ds
             then Some (if neg then - digits_value ds else digits_value ds) else None)
          else None)"

text \<open>The exact value of \<^verbatim>\<open>\d+(\.\d*)?|\.\d+\<close> with an optional exponent, if the whole string is one.\<close>

definition decimal_value :: "js_string \<Rightarrow> rat option" where
  "decimal_value s =
     (let i = takeWhile is_digit s; r = dropWhile is_digit s;
          (f, r') = (if r \<noteq> [] \<and> hd r = 46
                     then (takeWhile is_digit (tl r), dropWhile is_digit (tl r)) else ([], r)) in
      if i = [] \<and> f = [] then None
      else map_option (\<lambda>x. of_int (digits_value (i @ f)) * 10 powi (x - int (length f)))
             (exponent_value r'))"

definition signed_decimal :: "js_string \<Rightarrow> js_num option" where
  "signed_decimal s =
     (let neg = (s \<noteq> [] \<and> hd s = 45);
          u = (if s \<noteq> [] \<and> (hd s = 45 \<or> hd s = 43) then tl s else s);
          m = (if u = js ''Infinity'' then Some PosInf
               else map_option to_double (decimal_value u)) in
      map_option (if neg then num_neg else id) m)"

definition radix_literal :: "js_string \<Rightarrow> js_num option" where
  "radix_literal s =
     (case s of z # x # d # ds \<Rightarrow>
        if z \<noteq> 48 then None
        else if x = 120 \<or> x = 88 then
          (if list_all is_hex (d # ds) then Some (to_double (of_int (parse_hex (d # ds)))) else None)
        else if x = 111 \<or> x = 79 then
          (if list_all (\<lambda>c. 48 \<le> c \<and> c \<le> 55) (d # ds)
           then Some (to_double (of_int (foldl (\<lambda>n c. 8 * n + (c - 48)) 0 (d # ds)))) else None)
        else if x = 98 \<or> x = 66 then
          (if list_all (\<lambda>c. 48 \<le> c \<and> c \<le> 49) (d # ds)
           then Some (to_double (of_int (foldl (\<lambda>n c. 2 * n + (c - 48)) 0 (d # ds)))) else None)
        else None
      | _ \<Rightarrow> None)"

text \<open>The function \<^verbatim>\<open>Number\<close> applied to a string.\<close>

definition number_of_string :: "js_string \<Rightarrow> js_num" where
  "number_of_string s =
     (let t = trim s in
      if t = [] then Fin 0
      else case signed_decimal t of Some x \<Rightarrow> x
      | None \<Rightarrow> (case radix_literal t of Some x \<Rightarrow> x | None \<Rightarrow> NaN))"

subsection \<open>String of a number\<close>

fun digits_of :: "nat \<Rightarrow> js_string" where
  "digits_of n = (if n < 10 then [48 + int n] else digits_of (n div 10) @ [48 + int (n mod 10)])"

declare digits_of.simps [simp del]

text \<open>
  The shortest decimal that rounds back: with \<open>10 powi (s - 1) \<le> q < 10 powi s\<close>, the
  candidate with \<open>k\<close> digits is the one of the two neighbours of \<open>q\<close> on the grid
  \<open>10 powi (s - k)\<close> that rounds to \<open>q\<close>, the closer one if both do, the even one on a tie.
\<close>

definition rounds_to :: "rat \<Rightarrow> int \<Rightarrow> int \<Rightarrow> bool" where
  "rounds_to q m e \<longleftrightarrow> to_double (of_int m * 10 powi e) = Fin q"

definition digit_candidate :: "rat \<Rightarrow> int \<Rightarrow> nat \<Rightarrow> int option" where
  "digit_candidate q s k =
     (let e = s - int k; x = q / 10 powi e; lo = \<lfloor>x\<rfloor>; hi = \<lceil>x\<rceil> in
      if rounds_to q lo e \<and> rounds_to q hi e
      then Some (if x - of_int lo < of_int hi - x then lo
                 else if of_int hi - x < x - of_int lo then hi
                 else if even lo then lo else hi)
      else if rounds_to q lo e then Some lo
      else if rounds_to q hi e then Some hi
      else None)"

definition shortest_digits :: "rat \<Rightarrow> int \<times> nat \<times> int" where
  "shortest_digits q =
     (let s = ilog 10 q + 1;
          k = (case List.find (\<lambda>k. digit_candidate q s k \<noteq> None) [1..<18] of
                 Some k \<Rightarrow> k | None \<Rightarrow> 17);
          m = (case digit_candidate q s k of Some m \<Rightarrow> m | None \<Rightarrow> \<lfloor>q / 10 powi (s - int k)\<rfloor>) in
      if m = 10 ^ k then (10 ^ (k - 1), k, s + 1) else (m, k, s))"

definition exponent_suffix :: "int \<Rightarrow> js_string" where
  "exponent_suffix e =
     101 # (if e < 0 then 45 else 43) # digits_of (nat \<bar>e\<bar>)"

definition format_decimal :: "js_string \<Rightarrow> int \<Rightarrow> js_string" where
  "format_decimal ds n =
     (let k = int (length ds) in
      if k \<le> n \<and> n \<le> 21 then ds @ replicate (nat (n - k)) 48
      else if 0 < n \<and> n \<le> 21 then take (nat n) ds @ [46] @ drop (nat n) ds
      else if - 6 < n \<and> n \<le> 0 then [48, 46] @ replicate (nat (- n)) 48 @ ds
      else if k = 1 then ds @ exponent_suffix (n - 1)
      else take 1 ds @ [46] @ drop 1 ds @ exponent_suffix (n - 1))"

definition string_of_positive :: "rat \<Rightarrow> js_string" where
  "string_of_positive q =
     (case shortest_digits q of (m, k, n) \<Rightarrow> format_decimal (digits_of (nat m)) n)"

fun string_of_number :: "js_num \<Rightarrow> js_string" where
  "string_of_number NaN = js ''NaN''"
| "string_of_number PosInf = js ''Infinity''"
| "string_of_number NegInf = 45 # js ''Infinity''"
| "string_of_number NegZero = [48]"
| "string_of_number (Fin q) =
     (if q = 0 then [48]
      else if q < 0 then 45 # string_of_positive (- q)
      else string_of_positive q)"

end
