(* ===== verification/Js_Value.thy ===== *)
theory Js_Value
  imports Js_Number
begin

section \<open>JavaScript values and the host\<close>

text \<open>
  The values a request body, a usage fact or an evaluated expression can hold:
  JSON data and \<^verbatim>\<open>undefined\<close>. An object is the list of its own properties in the
  order of \<^verbatim>\<open>Object.entries\<close>. A date is its time value, the number of milliseconds
  since 1970 in UTC, or \<open>None\<close> for an invalid date.
\<close>

datatype js_value =
    VUndefined
  | VNull
  | VBool bool
  | VNum js_num
  | VStr js_string
  | VArr "js_value list"
  | VObj "(js_string \<times> js_value) list"

type_synonym js_date = "int option"

text \<open>\<^verbatim>\<open>v == null\<close>, and \<^verbatim>\<open>typeof v === 'object'\<close> (true of null as well).\<close>

fun is_nullish :: "js_value \<Rightarrow> bool" where
  "is_nullish VUndefined = True"
| "is_nullish VNull = True"
| "is_nullish _ = False"

fun is_object :: "js_value \<Rightarrow> bool" where
  "is_object VNull = True"
| "is_object (VArr _) = True"
| "is_object (VObj _) = True"
| "is_object _ = False"

text \<open>
  Strict equality of two values neither of which is an array or an object (for those
  it compares identities, which the callers exclude first).
\<close>

fun strict_eq :: "js_value \<Rightarrow> js_value \<Rightarrow> bool" where
  "strict_eq (VNum x) (VNum y) = num_eq x y"
| "strict_eq (VNum _) _ = False"
| "strict_eq _ (VNum _) = False"
| "strict_eq x y = (x = y)"

text \<open>Lexicographic order of strings by code units, the \<^verbatim>\<open><\<close> of two strings.\<close>

fun str_lt :: "js_string \<Rightarrow> js_string \<Rightarrow> bool" where
  "str_lt _ [] = False"
| "str_lt [] (d # t) = True"
| "str_lt (c # s) (d # t) = (c < d \<or> (c = d \<and> str_lt s t))"

lemma str_lt_irrefl [simp]: "\<not> str_lt s s"
  by (induction s) auto

lemma str_lt_trans: "str_lt r s \<Longrightarrow> str_lt s t \<Longrightarrow> str_lt r t"
proof (induction r s arbitrary: t rule: str_lt.induct)
  case (2 d t')
  then show ?case by (cases t) auto
next
  case (3 c s d t')
  then show ?case by (cases t) auto
qed auto

lemma str_lt_linear: "str_lt s t \<or> s = t \<or> str_lt t s"
proof (induction s t rule: str_lt.induct)
  case (1 s)
  then show ?case by (cases s) simp_all
qed auto

subsection \<open>The host: what the browser supplies and no file of the repository defines\<close>

text \<open>
  \<^verbatim>\<open>Intl.DateTimeFormat\<close> carries the time zone database: for a zone name it fails
  (\<open>None\<close>) or gives the name it resolves the zone to and the fields of an instant in
  that zone, as the strings \<^verbatim>\<open>formatToParts\<close> produces. \<open>unicode_lower\<close> is
  \<^verbatim>\<open>toLowerCase\<close> outside ASCII and \<open>current_time\<close> the clock.
\<close>

record date_parts =
  part_hour :: js_string
  part_minute :: js_string
  part_weekday :: js_string
  part_month :: js_string
  part_day :: js_string

record js_host =
  intl_format :: "js_string \<Rightarrow> (js_string \<times> (int \<Rightarrow> date_parts)) option"
  unicode_lower :: "js_string \<Rightarrow> js_string"
  current_time :: int

subsection \<open>The UTC fields of a date\<close>

definition ms_per_day :: int where
  "ms_per_day = 86400000"

definition utc_hours :: "int \<Rightarrow> int" where
  "utc_hours t = t div 3600000 mod 24"

definition utc_minutes :: "int \<Rightarrow> int" where
  "utc_minutes t = t div 60000 mod 60"

definition utc_day :: "int \<Rightarrow> int" where
  "utc_day t = (t div ms_per_day + 4) mod 7"

text \<open>
  Month and day of month in the proleptic Gregorian calendar: the days are counted
  from 1 March of year 0, so that the leap day ends the 400-year era, the century,
  the four-year group and the year.
\<close>

definition civil_month_day :: "int \<Rightarrow> int \<times> int" where
  "civil_month_day days =
     (let z = days + 719468; doe = z mod 146097;
          yoe = (doe - doe div 1460 + doe div 36524 - doe div 146096) div 365;
          doy = doe - (365 * yoe + yoe div 4 - yoe div 100);
          mp = (5 * doy + 2) div 153;
          d = doy - (153 * mp + 2) div 5 + 1;
          m = (if mp < 10 then mp + 3 else mp - 9) in (m, d))"

definition utc_month :: "int \<Rightarrow> int" where
  "utc_month t = fst (civil_month_day (t div ms_per_day)) - 1"

definition utc_date :: "int \<Rightarrow> int" where
  "utc_date t = snd (civil_month_day (t div ms_per_day))"

lemma utc_hours_bounds: "0 \<le> utc_hours t \<and> utc_hours t \<le> 23"
  by (simp add: utc_hours_def)

lemma utc_minutes_bounds: "0 \<le> utc_minutes t \<and> utc_minutes t \<le> 59"
  by (simp add: utc_minutes_def)

lemma utc_day_bounds: "0 \<le> utc_day t \<and> utc_day t \<le> 6"
  by (simp add: utc_day_def)

end
