(* ===== verification/Expr_Types.thy ===== *)
theory Expr_Types
  imports Js_Value
begin

section \<open>Expression nodes, diagnostics and traversal (types.ts)\<close>

text \<open>
  The data of \<^verbatim>\<open>billing-expression/types.ts\<close>: the token variables, the functions with
  their arity, the syntax tree with its source spans, diagnostics, and
  \<^verbatim>\<open>visitExpression\<close>, the iterative post-order traversal with its depth bound, together
  with the recursive traversal it implements. Operators and function names are
  enumerations: the source keeps them as strings, and the parser only ever creates
  the ones of its two tables. The nodes of one tree differ in their spans, so the
  identity of node objects (\<^verbatim>\<open>===\<close>) is equality here.
\<close>

subsection \<open>Names\<close>

datatype token_variable = TV_p | TV_c | TV_len | TV_cr | TV_cc | TV_cc1h | TV_img | TV_img_o | TV_ai | TV_ao

definition TOKEN_VARIABLES :: "(js_string \<times> token_variable) list" where
  "TOKEN_VARIABLES =
     [(js ''p'', TV_p), (js ''c'', TV_c), (js ''len'', TV_len), (js ''cr'', TV_cr), (js ''cc'', TV_cc),
      (js ''cc1h'', TV_cc1h), (js ''img'', TV_img), (js ''img_o'', TV_img_o), (js ''ai'', TV_ai), (js ''ao'', TV_ao)]"

fun variable_text :: "token_variable \<Rightarrow> js_string" where
  "variable_text TV_p = js ''p''"
| "variable_text TV_c = js ''c''"
| "variable_text TV_len = js ''len''"
| "variable_text TV_cr = js ''cr''"
| "variable_text TV_cc = js ''cc''"
| "variable_text TV_cc1h = js ''cc1h''"
| "variable_text TV_img = js ''img''"
| "variable_text TV_img_o = js ''img_o''"
| "variable_text TV_ai = js ''ai''"
| "variable_text TV_ao = js ''ao''"

datatype time_function = T_hour | T_minute | T_weekday | T_month | T_day

definition TIME_FUNCTIONS :: "time_function list" where
  "TIME_FUNCTIONS = [T_hour, T_minute, T_weekday, T_month, T_day]"

datatype billing_function =
    F_tier | F_fixed | F_param | F_header | F_has | F_u | F_time time_function
  | F_min | F_max | F_abs | F_ceil | F_floor

fun time_function_text :: "time_function \<Rightarrow> js_string" where
  "time_function_text T_hour = js ''hour''"
| "time_function_text T_minute = js ''minute''"
| "time_function_text T_weekday = js ''weekday''"
| "time_function_text T_month = js ''month''"
| "time_function_text T_day = js ''day''"

fun function_text :: "billing_function \<Rightarrow> js_string" where
  "function_text F_tier = js ''tier''"
| "function_text F_fixed = js ''fixed''"
| "function_text F_param = js ''param''"
| "function_text F_header = js ''header''"
| "function_text F_has = js ''has''"
| "function_text F_u = js ''u''"
| "function_text (F_time f) = time_function_text f"
| "function_text F_min = js ''min''"
| "function_text F_max = js ''max''"
| "function_text F_abs = js ''abs''"
| "function_text F_ceil = js ''ceil''"
| "function_text F_floor = js ''floor''"

definition BILLING_FUNCTIONS :: "(billing_function \<times> nat) list" where
  "BILLING_FUNCTIONS =
     [(F_tier, 2), (F_fixed, 1), (F_param, 1), (F_header, 1), (F_has, 2), (F_u, 1), (F_time T_hour, 1),
      (F_time T_minute, 1), (F_time T_weekday, 1), (F_time T_month, 1), (F_time T_day, 1), (F_min, 2), (F_max, 2),
      (F_abs, 1), (F_ceil, 1), (F_floor, 1)]"

definition function_named :: "js_string \<Rightarrow> billing_function option" where
  "function_named s = map_option fst (List.find (\<lambda>(f, n). function_text f = s) BILLING_FUNCTIONS)"

definition arity :: "billing_function \<Rightarrow> nat" where
  "arity f = (case map_of BILLING_FUNCTIONS f of Some n \<Rightarrow> n | None \<Rightarrow> 0)"

fun is_time_function :: "billing_function \<Rightarrow> bool" where
  "is_time_function (F_time _) = True"
| "is_time_function _ = False"

lemma arity_simps [simp]:
  "arity F_tier = 2" "arity F_fixed = 1" "arity F_param = 1" "arity F_header = 1" "arity F_has = 2"
  "arity F_u = 1" "arity (F_time f) = 1" "arity F_min = 2" "arity F_max = 2" "arity F_abs = 1"
  "arity F_ceil = 1" "arity F_floor = 1"
  by (simp_all add: arity_def BILLING_FUNCTIONS_def) (cases f; simp)

lemma function_named_text: "function_named s = Some f \<Longrightarrow> function_text f = s"
  by (auto simp: function_named_def find_Some_iff)

datatype operator =
    OrOp | AndOp | EqOp | NeOp | LtOp | LeOp | GtOp | GeOp
  | AddOp | SubOp | MulOp | DivOp | ModOp

datatype unary_operator = NotOp | PlusOp | MinusOp

subsection \<open>Syntax trees\<close>

datatype literal_value = LNum js_num | LStr js_string | LBool bool | LNull

datatype expression_node =
    Literal literal_value bool nat nat
  | Variable token_variable nat nat
  | Call billing_function "expression_node list" nat nat
  | Unary unary_operator expression_node nat nat
  | Binary operator expression_node expression_node nat nat
  | Conditional expression_node expression_node expression_node nat nat

fun node_start :: "expression_node \<Rightarrow> nat" where
  "node_start (Literal _ _ s _) = s"
| "node_start (Variable _ s _) = s"
| "node_start (Call _ _ s _) = s"
| "node_start (Unary _ _ s _) = s"
| "node_start (Binary _ _ _ s _) = s"
| "node_start (Conditional _ _ _ s _) = s"

fun node_end :: "expression_node \<Rightarrow> nat" where
  "node_end (Literal _ _ _ e) = e"
| "node_end (Variable _ _ e) = e"
| "node_end (Call _ _ _ e) = e"
| "node_end (Unary _ _ _ e) = e"
| "node_end (Binary _ _ _ _ e) = e"
| "node_end (Conditional _ _ _ _ e) = e"

text \<open>\<^verbatim>\<open>{ ...expression, start, end }\<close>: the node with another span.\<close>

fun with_span :: "expression_node \<Rightarrow> nat \<Rightarrow> nat \<Rightarrow> expression_node" where
  "with_span (Literal v i _ _) s e = Literal v i s e"
| "with_span (Variable v _ _) s e = Variable v s e"
| "with_span (Call f args _ _) s e = Call f args s e"
| "with_span (Unary op a _ _) s e = Unary op a s e"
| "with_span (Binary op a b _ _) s e = Binary op a b s e"
| "with_span (Conditional c a b _ _) s e = Conditional c a b s e"

lemma with_span_span [simp]: "node_start (with_span n s e) = s" "node_end (with_span n s e) = e"
  by (cases n; simp)+

fun children :: "expression_node \<Rightarrow> expression_node list" where
  "children (Literal _ _ _ _) = []"
| "children (Variable _ _ _) = []"
| "children (Call _ args _ _) = args"
| "children (Unary _ a _ _) = [a]"
| "children (Binary _ a b _ _) = [a, b]"
| "children (Conditional c a b _ _) = [c, a, b]"

lemma children_with_span [simp]: "children (with_span n s e) = children n"
  by (cases n) simp_all

lemma children_smaller [termination_simp]: "m \<in> set (children n) \<Longrightarrow> size m < size n"
proof (cases n)
  case (Call f args s e)
  assume "m \<in> set (children n)"
  with Call show ?thesis by (simp add: less_Suc_eq_le trans_le_add1 size_list_estimation')
qed auto

subsection \<open>Diagnostics\<close>

datatype diagnostic_code = D_syntax | D_unsupported | D_missing_context | D_type | D_number | D_limit

record diagnostic =
  diag_code :: diagnostic_code
  diag_detail :: js_string
  diag_position :: "nat option"

abbreviation diag :: "diagnostic_code \<Rightarrow> js_string \<Rightarrow> diagnostic" where
  "diag c d \<equiv> \<lparr>diag_code = c, diag_detail = d, diag_position = None\<rparr>"

abbreviation diag_at :: "diagnostic_code \<Rightarrow> js_string \<Rightarrow> nat \<Rightarrow> diagnostic" where
  "diag_at c d p \<equiv> \<lparr>diag_code = c, diag_detail = d, diag_position = Some p\<rparr>"

datatype failure_status = StatusUnsupported | StatusInvalid | StatusMissingContext

record expression_failure =
  status :: failure_status
  failure_diagnostic :: diagnostic

text \<open>\<^verbatim>\<open>expressionFailure\<close>, applied to a \<^verbatim>\<open>BillingExpressionError\<close>.\<close>

definition expressionFailure :: "diagnostic \<Rightarrow> expression_failure" where
  "expressionFailure d =
     \<lparr>status = (if diag_code d = D_unsupported \<or> diag_code d = D_limit then StatusUnsupported
                else if diag_code d = D_missing_context then StatusMissingContext
                else StatusInvalid),
      failure_diagnostic = d\<rparr>"

type_synonym 'a result = "diagnostic + 'a"

subsection \<open>Traversal\<close>

text \<open>
  The stack machine of \<^verbatim>\<open>visitExpression\<close>. An entry is a node, whether its children
  were pushed already, and its depth. The weight of a stack bounds the loop.
\<close>

record stack_entry =
  entry_node :: expression_node
  entry_visited :: bool
  entry_depth :: nat

fun node_weight :: "expression_node \<Rightarrow> nat" where
  "node_weight n = 2 + sum_list (map node_weight (children n))"

declare node_weight.simps [simp del]

definition entry_weight :: "stack_entry \<Rightarrow> nat" where
  "entry_weight x = (if entry_visited x then 1 else node_weight (entry_node x))"

function visit_loop ::
  "(expression_node \<Rightarrow> 's \<Rightarrow> 's result) \<Rightarrow> stack_entry list \<Rightarrow> 's \<Rightarrow> 's result" where
  "visit_loop visitor [] s = Inr s"
| "visit_loop visitor (x # stack) s =
     (if 256 < entry_depth x then Inl (diag D_limit (js ''expression depth''))
      else if entry_visited x then
        (case visitor (entry_node x) s of Inl e \<Rightarrow> Inl e | Inr s' \<Rightarrow> visit_loop visitor stack s')
      else
        visit_loop visitor
          (map (\<lambda>child. \<lparr>entry_node = child, entry_visited = False, entry_depth = entry_depth x + 1\<rparr>)
             (children (entry_node x)) @ x\<lparr>entry_visited := True\<rparr> # stack) s)"
  by pat_completeness auto
termination
proof (relation "measure (\<lambda>(visitor, stack, s). sum_list (map entry_weight stack))", goal_cases)
  case 1
  then show ?case by simp
next
  case (2 visitor x stack s s')
  then show ?case by (simp add: entry_weight_def)
next
  case (3 visitor x stack s)
  have "sum_list (map (entry_weight \<circ> (\<lambda>child. \<lparr>entry_node = child, entry_visited = False,
            entry_depth = Suc (entry_depth x)\<rparr>)) (children (entry_node x)))
          = sum_list (map node_weight (children (entry_node x)))"
    by (simp add: entry_weight_def comp_def)
  with 3 show ?case
    by (simp add: entry_weight_def node_weight.simps [of "entry_node x"])
qed

definition visitExpression ::
  "expression_node \<Rightarrow> (expression_node \<Rightarrow> 's \<Rightarrow> 's result) \<Rightarrow> 's \<Rightarrow> 's result" where
  "visitExpression node visitor s =
     visit_loop visitor [\<lparr>entry_node = node, entry_visited = False, entry_depth = 0\<rparr>] s"

text \<open>\<^verbatim>\<open>expressionDependencies\<close>: the variables and the functions of a tree.\<close>

record dependencies =
  dep_variables :: "token_variable set"
  dep_functions :: "billing_function set"

definition add_dependency :: "expression_node \<Rightarrow> dependencies \<Rightarrow> dependencies result" where
  "add_dependency part deps =
     Inr (case part of
            Variable v _ _ \<Rightarrow> deps\<lparr>dep_variables := insert v (dep_variables deps)\<rparr>
          | Call f _ _ _ \<Rightarrow> deps\<lparr>dep_functions := insert f (dep_functions deps)\<rparr>
          | _ \<Rightarrow> deps)"

definition expressionDependencies :: "expression_node \<Rightarrow> dependencies result" where
  "expressionDependencies node =
     visitExpression node add_dependency \<lparr>dep_variables = {}, dep_functions = {}\<rparr>"

subsection \<open>The traversal computes the recursive post-order\<close>

fun postorder :: "expression_node \<Rightarrow> expression_node list" where
  "postorder n = concat (map postorder (children n)) @ [n]"

fun height :: "expression_node \<Rightarrow> nat" where
  "height n = fold max (map (\<lambda>m. Suc (height m)) (children n)) 0"

declare postorder.simps [simp del] height.simps [simp del]

lemma fold_max_ge: "(a :: nat) \<le> fold max xs a \<and> (\<forall>x\<in>set xs. x \<le> fold max xs a)"
proof (induction xs arbitrary: a)
  case (Cons x xs)
  from Cons.IH [of "max x a"] show ?case by auto
qed simp

lemma fold_max_in: "fold max xs (a :: nat) \<in> insert a (set xs)"
proof (induction xs arbitrary: a)
  case (Cons x xs)
  from Cons.IH [of "max x a"] show ?case by (auto simp: max_def split: if_splits)
qed simp

lemma height_child: "m \<in> set (children n) \<Longrightarrow> Suc (height m) \<le> height n"
  using fold_max_ge [of 0 "map (\<lambda>m. Suc (height m)) (children n)"]
  unfolding height.simps [of n] by simp

lemma postorder_self: "n \<in> set (postorder n)"
  unfolding postorder.simps [of n] by simp

lemma postorder_last: "\<exists>l. postorder n = l @ [n]"
  unfolding postorder.simps [of n] by blast

lemma postorder_trans: "m \<in> set (postorder n) \<Longrightarrow> k \<in> set (postorder m) \<Longrightarrow> k \<in> set (postorder n)"
proof (induction n arbitrary: m rule: measure_induct_rule [where f = size])
  case (less n)
  show ?case
  proof (cases "m = n")
    case False
    with less.prems(1) obtain c where c: "c \<in> set (children n)" "m \<in> set (postorder c)"
      by (auto simp: postorder.simps [of n])
    then have "k \<in> set (postorder c)" using less.IH children_smaller less.prems(2) by blast
    with c show ?thesis by (auto simp: postorder.simps [of n])
  qed (use less.prems in simp)
qed

lemma postorder_child: "m \<in> set (children n) \<Longrightarrow> m \<in> set (postorder n)"
  by (auto simp: postorder.simps [of n] intro: postorder_self)

lemma postorder_height: "m \<in> set (postorder n) \<Longrightarrow> height m \<le> height n"
proof (induction n rule: measure_induct_rule [where f = size])
  case (less n)
  show ?case
  proof (cases "m = n")
    case False
    with less.prems obtain c where c: "c \<in> set (children n)" "m \<in> set (postorder c)"
      by (auto simp: postorder.simps [of n])
    then have "height m \<le> height c" using less.IH children_smaller by blast
    also have "height c \<le> height n" using height_child [OF c(1)] by simp
    finally show ?thesis .
  qed simp
qed

abbreviation fresh_entry :: "nat \<Rightarrow> expression_node \<Rightarrow> stack_entry" where
  "fresh_entry d n \<equiv> \<lparr>entry_node = n, entry_visited = False, entry_depth = d\<rparr>"

declare visit_loop.simps(2) [simp del]

lemma visit_loop_siblings:
  assumes "\<And>m stack s. m \<in> set ms \<Longrightarrow>
     visit_loop v (fresh_entry d m # stack) s = bind_result (fold_result v (postorder m) s) (visit_loop v stack)"
  shows "visit_loop v (map (fresh_entry d) ms @ stack) s =
     bind_result (fold_result v (concat (map postorder ms)) s) (visit_loop v stack)"
  using assms
proof (induction ms arbitrary: s)
  case (Cons m ms)
  from Cons.prems [of m "map (fresh_entry d) ms @ stack" s]
  have "visit_loop v (map (fresh_entry d) (m # ms) @ stack) s =
      bind_result (fold_result v (postorder m) s) (visit_loop v (map (fresh_entry d) ms @ stack))"
    by simp
  also have "\<dots> = bind_result (fold_result v (postorder m) s)
      (\<lambda>s'. bind_result (fold_result v (concat (map postorder ms)) s') (visit_loop v stack))"
  proof (rule bind_result_cong [OF refl])
    show "visit_loop v (map (fresh_entry d) ms @ stack) s' =
        bind_result (fold_result v (concat (map postorder ms)) s') (visit_loop v stack)" for s'
      by (rule Cons.IH) (rule Cons.prems, simp)
  qed
  finally show ?case by (simp add: bind_result_assoc)
qed simp

lemma visit_loop_postorder:
  "d + height n \<le> 256 \<Longrightarrow>
   visit_loop v (fresh_entry d n # stack) s =
     bind_result (fold_result v (postorder n) s) (visit_loop v stack)"
proof (induction n arbitrary: d stack s rule: measure_induct_rule [where f = size])
  case (less n)
  let ?done = "\<lparr>entry_node = n, entry_visited = True, entry_depth = d\<rparr>"
  have kids: "visit_loop v (fresh_entry (Suc d) m # stack') s' =
      bind_result (fold_result v (postorder m) s') (visit_loop v stack')"
    if "m \<in> set (children n)" for m stack' s'
  proof (rule less.IH)
    show "size m < size n" using that by (rule children_smaller)
    show "Suc d + height m \<le> 256" using height_child [OF that] less.prems by simp
  qed
  have last: "visit_loop v (?done # stack) s' = bind_result (v n s') (visit_loop v stack)" for s'
    using less.prems by (cases "v n s'") (simp_all add: visit_loop.simps(2))
  have "visit_loop v (fresh_entry d n # stack) s =
      visit_loop v (map (fresh_entry (Suc d)) (children n) @ ?done # stack) s"
    using less.prems by (simp add: visit_loop.simps(2) [of v "fresh_entry d n"])
  also have "\<dots> = bind_result (fold_result v (concat (map postorder (children n))) s)
      (visit_loop v (?done # stack))"
    by (rule visit_loop_siblings) (rule kids)
  also have "\<dots> = bind_result (fold_result v (postorder n) s) (visit_loop v stack)"
    by (cases "fold_result v (concat (map postorder (children n))) s")
      (simp_all add: postorder.simps [of n] last bind_result_assoc)
  finally show ?case .
qed

lemma visitExpression_postorder:
  "height n \<le> 256 \<Longrightarrow> visitExpression n v s = fold_result v (postorder n) s"
  by (simp add: visitExpression_def visit_loop_postorder bind_result_def split: sum.split)

text \<open>A tree that is too deep is refused, whatever the visitor does that does not fail.\<close>

lemma visit_loop_siblings_deep:
  assumes "\<And>m s. \<exists>s'. v m s = Inr s'" and "m \<in> set ms"
    and "\<And>stack s. visit_loop v (fresh_entry d m # stack) s = Inl e"
    and "\<And>m stack s. m \<in> set ms \<Longrightarrow>
      visit_loop v (fresh_entry d m # stack) s = Inl e \<or>
      (\<exists>s'. visit_loop v (fresh_entry d m # stack) s = visit_loop v stack s')"
  shows "visit_loop v (map (fresh_entry d) ms @ stack) s = Inl e"
  using assms(2,4)
proof (induction ms arbitrary: s)
  case (Cons k ms)
  show ?case
  proof (cases "k = m")
    case True
    then show ?thesis using assms(3) by simp
  next
    case False
    with Cons.prems have m: "m \<in> set ms" by simp
    have IH: "visit_loop v (map (fresh_entry d) ms @ stack) s' = Inl e" for s'
      by (rule Cons.IH [OF m]) (rule Cons.prems, simp)
    from Cons.prems(2) [of k "map (fresh_entry d) ms @ stack" s] IH show ?thesis by auto
  qed
qed simp

lemma visit_loop_outcome:
  assumes total: "\<And>m s. \<exists>s'. v m s = Inr s'"
  shows "(256 < d + height n \<longrightarrow>
      (\<forall>stack s. visit_loop v (fresh_entry d n # stack) s = Inl (diag D_limit (js ''expression depth'')))) \<and>
    (d + height n \<le> 256 \<longrightarrow>
      (\<forall>stack s. \<exists>s'. visit_loop v (fresh_entry d n # stack) s = visit_loop v stack s'))"
proof (induction n arbitrary: d rule: measure_induct_rule [where f = size])
  case (less n)
  let ?e = "Inl (diag D_limit (js ''expression depth''))"
  have tot: "\<exists>s'. fold_result v ms s = Inr s'" for ms s
  proof (induction ms arbitrary: s)
    case (Cons m ms)
    obtain s' where "v m s = Inr s'" using total by blast
    with Cons.IH show ?case by simp
  qed simp
  have deep: "visit_loop v (fresh_entry d n # stack) s = ?e" if d: "256 < d + height n" for stack s
  proof (cases "256 < d")
    case True
    then show ?thesis by (simp add: visit_loop.simps(2))
  next
    case False
    with d have "height n \<noteq> 0" by simp
    then have "children n \<noteq> []" by (auto simp: height.simps [of n])
    have "\<exists>m\<in>set (children n). height n = Suc (height m)"
    proof -
      from fold_max_in [of "map (\<lambda>m. Suc (height m)) (children n)" 0] show ?thesis
        using \<open>height n \<noteq> 0\<close> by (auto simp: height.simps [of n])
    qed
    then obtain m where m: "m \<in> set (children n)" "height n = Suc (height m)" by blast
    have "visit_loop v (map (fresh_entry (Suc d)) (children n)
            @ (fresh_entry d n)\<lparr>entry_visited := True\<rparr> # stack) s = ?e"
    proof (rule visit_loop_siblings_deep [OF total m(1)])
      show "visit_loop v (fresh_entry (Suc d) m # stack) s = ?e" for stack s
        using less.IH [OF children_smaller [OF m(1)], of "Suc d"] m(2) d by simp
      show "visit_loop v (fresh_entry (Suc d) k # stack) s = ?e \<or>
          (\<exists>s'. visit_loop v (fresh_entry (Suc d) k # stack) s = visit_loop v stack s')"
        if "k \<in> set (children n)" for k stack s
        using less.IH [OF children_smaller [OF that], of "Suc d"]
        by (cases "256 < Suc d + height k") auto
    qed
    with False show ?thesis by (simp add: visit_loop.simps(2) [of v "fresh_entry d n"])
  qed
  have "\<exists>s'. visit_loop v (fresh_entry d n # stack) s = visit_loop v stack s'"
    if "d + height n \<le> 256" for stack s
    using visit_loop_postorder [OF that, of v stack s] tot [of "postorder n" s] by auto
  with deep show ?case by blast
qed

lemma visitExpression_deep:
  "(\<And>m s. \<exists>s'. v m s = Inr s') \<Longrightarrow> 256 < height n \<Longrightarrow>
   visitExpression n v s = Inl (diag D_limit (js ''expression depth''))"
  using visit_loop_outcome [of v 0 n] by (simp add: visitExpression_def)

subsection \<open>Dependencies\<close>

definition variables_of :: "expression_node \<Rightarrow> token_variable set" where
  "variables_of n = {v. \<exists>s e. Variable v s e \<in> set (postorder n)}"

definition functions_of :: "expression_node \<Rightarrow> billing_function set" where
  "functions_of n = {f. \<exists>args s e. Call f args s e \<in> set (postorder n)}"

lemma fold_add_dependency:
  "fold_result add_dependency ns deps =
     Inr \<lparr>dep_variables = dep_variables deps \<union> {v. \<exists>s e. Variable v s e \<in> set ns},
          dep_functions = dep_functions deps \<union> {f. \<exists>args s e. Call f args s e \<in> set ns}\<rparr>"
proof (induction ns arbitrary: deps)
  case (Cons n ns)
  let ?d = "projr (add_dependency n deps)"
  have "fold_result add_dependency (n # ns) deps = fold_result add_dependency ns ?d"
    by (simp add: add_dependency_def)
  also have "\<dots> = Inr \<lparr>dep_variables = dep_variables ?d \<union> {v. \<exists>s e. Variable v s e \<in> set ns},
      dep_functions = dep_functions ?d \<union> {f. \<exists>args s e. Call f args s e \<in> set ns}\<rparr>"
    by (rule Cons.IH)
  finally show ?case
    by (rule trans) (cases n; auto simp: add_dependency_def)
qed simp

lemma expressionDependencies_eq:
  "expressionDependencies n =
     (if height n \<le> 256 then Inr \<lparr>dep_variables = variables_of n, dep_functions = functions_of n\<rparr>
      else Inl (diag D_limit (js ''expression depth'')))"
proof (cases "height n \<le> 256")
  case True
  then show ?thesis
    by (simp add: expressionDependencies_def visitExpression_postorder fold_add_dependency
        variables_of_def functions_of_def)
next
  case False
  have "\<exists>s'. add_dependency m s = Inr s'" for m s by (simp add: add_dependency_def)
  with False show ?thesis
    by (simp add: expressionDependencies_def visitExpression_deep)
qed

end
