(* ===== verification/Number_Facts.thy ===== *)
theory Number_Facts
  imports Js_Number
begin

section \<open>Facts on numbers\<close>

text \<open>
  What the components use of \<open>Js_Number\<close>: a number text without a sign denotes an
  unsigned number, and arithmetic on unsigned numbers stays unsigned.
\<close>

fun is_unsigned :: "js_num \<Rightarrow> bool" where
  "is_unsigned (Fin q) \<longleftrightarrow> 0 \<le> q"
| "is_unsigned _ \<longleftrightarrow> False"

lemma is_unsigned_finite: "is_unsigned x \<Longrightarrow> is_finite x"
  by (cases x) auto

lemma is_unsigned_iff: "is_unsigned x \<longleftrightarrow> is_finite x \<and> x \<noteq> NegZero \<and> 0 \<le> num_value x"
  by (cases x) auto

lemma round_even_nonneg: "0 \<le> q \<Longrightarrow> 0 \<le> round_even q"
  by (simp add: round_even_def Let_def)

lemma round_mantissa_nonneg: "0 \<le> q \<Longrightarrow> 0 \<le> round_mantissa q"
  by (simp add: round_mantissa_def Let_def round_even_nonneg)

lemma to_double_unsigned: "0 \<le> q \<Longrightarrow> to_double q = PosInf \<or> is_unsigned (to_double q)"
  using round_mantissa_nonneg [of q] by (auto simp: to_double_def Let_def)

lemma fold_digits_nonneg:
  "(\<And>c. c \<in> set s \<Longrightarrow> 48 \<le> c) \<Longrightarrow> 0 \<le> b \<Longrightarrow> 0 \<le> n \<Longrightarrow> 0 \<le> foldl (\<lambda>n c. b * n + (c - 48)) n (s :: int list)"
  by (induction s arbitrary: n) auto

lemma digits_value_nonneg: "list_all is_digit s \<Longrightarrow> 0 \<le> digits_value s"
  unfolding digits_value_def by (rule fold_digits_nonneg) (auto simp: list_all_iff is_digit_def)

lemma parse_hex_nonneg: "list_all is_hex s \<Longrightarrow> 0 \<le> parse_hex s"
proof -
  have "0 \<le> foldl (\<lambda>n c. 16 * n + hex_value c) n s" if "list_all is_hex s" "0 \<le> n" for n
    using that
  proof (induction s arbitrary: n)
    case (Cons c s)
    then have "0 \<le> hex_value c" using hex_value_bounds by simp
    with Cons show ?case by simp
  qed simp
  then show "list_all is_hex s \<Longrightarrow> 0 \<le> parse_hex s" by (simp add: parse_hex_def)
qed

lemma takeWhile_all: "list_all P (takeWhile P xs)"
  by (induction xs) auto

lemma decimal_value_nonneg: "decimal_value s = Some q \<Longrightarrow> 0 \<le> q"
proof -
  assume d: "decimal_value s = Some q"
  have "list_all is_digit (takeWhile is_digit s @ takeWhile is_digit r)" for r
    by (simp add: takeWhile_all)
  note digits_value_nonneg [OF this]
  moreover note digits_value_nonneg [OF takeWhile_all, of s]
  ultimately show "0 \<le> q"
    using d by (auto simp: decimal_value_def Let_def split: if_splits prod.splits)
qed

definition unsigned_text :: "js_string \<Rightarrow> bool" where
  "unsigned_text s \<longleftrightarrow> trim s = [] \<or> hd (trim s) \<noteq> 45"

lemma signed_decimal_unsigned:
  assumes "s = [] \<or> hd s \<noteq> 45" and "signed_decimal s = Some x"
  shows "x = PosInf \<or> is_unsigned x"
proof -
  have "x = PosInf \<or> (\<exists>u q. decimal_value u = Some q \<and> x = to_double q)"
    using assms by (auto simp: signed_decimal_def Let_def split: if_splits)
  then show ?thesis using decimal_value_nonneg to_double_unsigned by blast
qed

lemma radix_literal_unsigned: "radix_literal s = Some x \<Longrightarrow> x = PosInf \<or> is_unsigned x"
proof -
  assume r: "radix_literal s = Some x"
  have "\<exists>n\<ge>0. x = to_double (of_int n)"
  proof -
    from r obtain d ds where "x = to_double (of_int (parse_hex (d # ds))) \<and> list_all is_hex (d # ds) \<or>
        (\<exists>b\<in>{8, 2}. x = to_double (of_int (foldl (\<lambda>n c. b * n + (c - 48)) 0 (d # ds))) \<and> list_all (\<lambda>c. 48 \<le> c) (d # ds))"
      by (auto simp: radix_literal_def list_all_iff split: list.splits if_splits)
    then show ?thesis
    proof
      assume "\<exists>b\<in>{8, 2}. x = to_double (of_int (foldl (\<lambda>n c. b * n + (c - 48)) 0 (d # ds))) \<and> list_all (\<lambda>c. 48 \<le> c) (d # ds)"
      then obtain b where b: "b \<in> {8, 2 :: int}" "list_all (\<lambda>c. 48 \<le> c) (d # ds)"
        "x = to_double (of_int (foldl (\<lambda>n c. b * n + (c - 48)) 0 (d # ds)))" by blast
      have "0 \<le> foldl (\<lambda>n c. b * n + (c - 48)) 0 (d # ds)"
        by (rule fold_digits_nonneg) (use b in \<open>auto simp: list_all_iff\<close>)
      with b(3) show ?thesis by blast
    qed (use parse_hex_nonneg in blast)
  qed
  then show ?thesis using to_double_unsigned by (metis of_int_0_le_iff)
qed

theorem number_of_string_unsigned:
  assumes "unsigned_text s" and "is_finite (number_of_string s)"
  shows "is_unsigned (number_of_string s)"
proof -
  have "number_of_string s = PosInf \<or> number_of_string s = NaN \<or> is_unsigned (number_of_string s)"
    using assms(1) signed_decimal_unsigned [of "trim s"] radix_literal_unsigned [of "trim s"]
    by (auto simp: number_of_string_def unsigned_text_def Let_def split: option.splits)
  with assms(2) show ?thesis by auto
qed

end
