(* ===== verification/Number_Roundtrip.thy ===== *)
theory Number_Roundtrip
  imports Number_Facts
begin

section \<open>A printed number reads back as itself\<close>

text \<open>
  \<^verbatim>\<open>Number(String(x)) === x\<close> for every finite double \<open>x\<close> that is not negative. The
  argument has two halves: a decimal within \<open>2\<^sup>-\<^sup>5\<^sup>4\<close> of a double, relative to it, rounds to
  that double, so that 17 digits always suffice; and the text that \<open>format_decimal\<close> lays out
  denotes the decimal it was given.
\<close>

subsection \<open>Logarithms\<close>

lemma floorlog_real_bounds:
  assumes "1 < b" and "0 < n"
  shows "of_nat b powi (int (floorlog b n) - 1) \<le> (of_nat n :: rat)" and "(of_nat n :: rat) < of_nat b powi int (floorlog b n)"
proof -
  have f: "b ^ (floorlog b n - 1) \<le> n" "n < b ^ floorlog b n"
    using floorlog_bounds [OF assms(2,1)] by auto
  have p: "0 < floorlog b n" using assms by (simp add: floorlog_def)
  have "(of_nat b :: rat) powi (int (floorlog b n) - 1) = of_nat b ^ (floorlog b n - 1)"
    using p by (simp add: power_int_def nat_diff_distrib)
  also have "\<dots> = of_nat (b ^ (floorlog b n - 1))" by simp
  also have "\<dots> \<le> of_nat n" using f(1) of_nat_le_iff by blast
  finally show "of_nat b powi (int (floorlog b n) - 1) \<le> (of_nat n :: rat)" .
  have "(of_nat n :: rat) < of_nat (b ^ floorlog b n)" using f(2) of_nat_less_iff by blast
  then show "(of_nat n :: rat) < of_nat b powi int (floorlog b n)" by (simp add: power_int_def)
qed

lemma ilog_bounds:
  assumes b: "1 < b" and q: "0 < q"
  shows "of_nat b powi ilog b q \<le> q" and "q < of_nat b powi (ilog b q + 1)"
proof -
  obtain n d where nd: "quotient_of q = (n, d)" by fastforce
  have d: "0 < d" using quotient_of_denom_pos [OF nd] .
  have qv: "q = of_int n / of_int d" using quotient_of_div [OF nd] .
  with q d have n: "0 < n" by (simp add: zero_less_divide_iff)
  define fn where "fn = int (floorlog b (nat n))"
  define fd where "fd = int (floorlog b (nat d))"
  define B :: rat where "B = of_nat b"
  have B: "1 < B" using b by (simp add: B_def)
  have rn: "(of_nat (nat n) :: rat) = of_int n" "(of_nat (nat d) :: rat) = of_int d" using n d by simp_all
  have N: "B powi (fn - 1) \<le> of_int n" "of_int n < B powi fn"
    using floorlog_real_bounds [OF b, of "nat n"] n rn by (simp_all add: fn_def B_def)
  have D: "B powi (fd - 1) \<le> of_int d" "of_int d < B powi fd"
    using floorlog_real_bounds [OF b, of "nat d"] d rn by (simp_all add: fd_def B_def)
  have pos: "0 < B powi k" for k using B by simp
  have up: "q < B powi (fn - fd + 1)"
  proof -
    have "q < B powi fn / of_int d" using N(2) d qv by (simp add: divide_strict_right_mono)
    also have "\<dots> \<le> B powi fn / B powi (fd - 1)"
      using D(1) pos [of fn] pos [of "fd - 1"] d by (intro divide_left_mono mult_pos_pos) auto
    also have "\<dots> = B powi (fn - fd + 1)" using B by (simp add: power_int_diff power_int_add)
    finally show ?thesis .
  qed
  have low: "B powi (fn - fd - 1) \<le> q"
  proof -
    have "B powi (fn - fd - 1) = B powi (fn - 1) / B powi fd" using B by (simp add: power_int_diff)
    also have "\<dots> \<le> B powi (fn - 1) / of_int d"
      using D(2) pos [of "fn - 1"] pos [of fd] d by (intro divide_left_mono mult_pos_pos) auto
    also have "\<dots> \<le> q" using N(1) d qv by (simp add: divide_right_mono)
    finally show ?thesis .
  qed
  have il: "ilog b q = (if B powi (fn - fd) \<le> q then fn - fd else fn - fd - 1)"
    by (simp add: ilog_def nd Let_def fn_def fd_def B_def)
  show "of_nat b powi ilog b q \<le> q" using low by (simp add: il flip: B_def)
  show "q < of_nat b powi (ilog b q + 1)" using up by (simp add: il flip: B_def)
qed

lemma powi_less_mono: "1 < (b :: rat) \<Longrightarrow> b powi m < b powi n \<Longrightarrow> m < n"
  by (metis linorder_not_le nle_le order_less_le order_less_trans power_int_increasing)

lemma ilog_unique:
  assumes "1 < b" and "of_nat b powi k \<le> q" and "q < of_nat b powi (k + 1)"
  shows "ilog b q = k"
proof -
  let ?B = "of_nat b :: rat"
  have B: "1 < ?B" using assms(1) by simp
  then have "0 < ?B powi k" by simp
  with assms(2) have q: "0 < q" by linarith
  note i = ilog_bounds [OF assms(1) q]
  have "?B powi k < ?B powi (ilog b q + 1)" using assms(2) i(2) by linarith
  then have "k < ilog b q + 1" using powi_less_mono [OF B] by blast
  moreover have "?B powi ilog b q < ?B powi (k + 1)" using assms(3) i(1) by linarith
  then have "ilog b q < k + 1" using powi_less_mono [OF B] by blast
  ultimately show ?thesis by simp
qed

subsection \<open>Rounding near a double\<close>

lemma round_even_near: "\<bar>x - of_int m\<bar> < 1 / 2 \<Longrightarrow> round_even x = m"
proof -
  assume near: "\<bar>x - of_int m\<bar> < 1 / 2"
  show ?thesis
  proof (cases "of_int m \<le> x")
    case True
    with near have "\<lfloor>x\<rfloor> = m" by (simp add: floor_eq_iff abs_less_iff)
    with True near show ?thesis by (simp add: round_even_def abs_less_iff)
  next
    case False
    with near have f: "\<lfloor>x\<rfloor> = m - 1" by (simp add: floor_eq_iff abs_less_iff)
    from near False have "1 / 2 < x - (of_int m - 1)" by (simp add: abs_less_iff)
    with f show ?thesis by (simp add: round_even_def)
  qed
qed

lemma round_even_of_int [simp]: "round_even (of_int m) = m"
  by (rule round_even_near) simp

lemma powi_pos [simp]: "0 < (2 :: rat) powi k"
  by simp

text \<open>A positive finite double as an integer multiple of its unit.\<close>

lemma double_cases:
  assumes "to_double q = Fin q" and "0 < q"
  obtains m where "q = of_int m * 2 powi double_exponent q" and "0 < m" and "m < 2 ^ 53"
    and "ilog 2 q < 1024" and "round_mantissa q = q"
proof -
  let ?e = "double_exponent q"
  have r: "round_mantissa q = q" "ilog 2 q < 1024"
    using assms by (auto simp: to_double_def Let_def split: if_splits)
  define m where "m = round_even (q / 2 powi ?e)"
  have q: "q = of_int m * 2 powi ?e" using r(1) by (simp add: round_mantissa_def m_def Let_def)
  have "0 < (of_int m :: rat)" using assms(2) q powi_pos [of ?e] by (metis zero_less_mult_pos2)
  moreover have "(of_int m :: rat) < 2 ^ 53"
  proof -
    have "(of_int m :: rat) * 2 powi ?e < 2 powi (ilog 2 q + 1)" using ilog_bounds(2) [of 2 q] assms(2) q by simp
    also have "\<dots> \<le> 2 powi (?e + 53)" using assms(2) by (intro power_int_increasing) (auto simp: double_exponent_def)
    also have "\<dots> = 2 ^ 53 * 2 powi ?e" by (simp add: power_int_add)
    finally show ?thesis by simp
  qed
  then have "m < 2 ^ 53" by (metis of_int_less_iff of_int_numeral of_int_power)
  ultimately show ?thesis using that q r by simp
qed

lemma near_half_unit:
  assumes "(q :: rat) = of_int m * u" and "0 < u" and "m < 2 ^ 53" and "\<bar>y - q\<bar> < q / 2 ^ 54"
  shows "\<bar>y / u - of_int m\<bar> < 1 / 2"
proof -
  have "y / u - of_int m = (y - q) / u" using assms(1,2) by (simp add: diff_divide_distrib)
  then have "\<bar>y / u - of_int m\<bar> = \<bar>y - q\<bar> / u" using assms(2) by (simp add: abs_divide)
  also have "\<dots> < (q / 2 ^ 54) / u" using assms(4,2) by (rule divide_strict_right_mono)
  also have "\<dots> = of_int m / 2 ^ 54" using assms(1,2) by simp
  also have "\<dots> < 1 / 2"
  proof -
    have "(of_int m :: rat) < 2 ^ 53" using assms(3) by (metis of_int_less_iff of_int_numeral of_int_power)
    then show ?thesis by simp
  qed
  finally show ?thesis .
qed

lemma int_mult_unit: "q = of_int m * u \<Longrightarrow> p = of_int k * u \<Longrightarrow> 0 < u \<Longrightarrow> q < p \<Longrightarrow> q + u \<le> (p :: rat)"
proof -
  assume q: "q = of_int m * u" and p: "p = of_int k * u" and u: "0 < u" and "q < p"
  then have "m < k" by simp
  then have "m + 1 \<le> k" by simp
  then have "of_int (m + 1) * u \<le> of_int k * u" using u by (intro mult_right_mono) (auto simp del: of_int_add)
  then show ?thesis by (simp add: q p algebra_simps)
qed

lemma powi_multiple: "e \<le> l \<Longrightarrow> \<exists>k. (2 :: rat) powi l = of_int k * 2 powi e"
proof -
  assume "e \<le> l"
  then have "(2 :: rat) powi l = 2 ^ nat (l - e) * 2 powi e"
    by (simp add: power_int_add [symmetric] flip: power_int_of_nat)
  also have "(2 :: rat) ^ nat (l - e) = of_int (2 ^ nat (l - e))" by simp
  finally show ?thesis by blast
qed

lemma small_distance:
  assumes "(q :: rat) = of_int m * u" and "0 < u" and "m < 2 ^ 53"
  shows "q / 2 ^ 54 < u / 2"
proof -
  have "(of_int m :: rat) < 2 ^ 53" using assms(3) by (metis of_int_less_iff of_int_numeral of_int_power)
  then have "of_int m * u < 2 ^ 53 * u" using assms(2) by (rule mult_strict_right_mono)
  then show ?thesis using assms(1) by (simp add: mult.commute)
qed

theorem near_double:
  assumes dbl: "to_double q = Fin q" and q: "0 < q" and near: "\<bar>y - q\<bar> < q / 2 ^ 54"
  shows "to_double y = Fin q"
  using dbl q
proof (rule double_cases)
  let ?e = "double_exponent q" and ?l = "ilog 2 q"
  let ?u = "(2 :: rat) powi double_exponent q"
  fix m
  assume m: "q = of_int m * ?u" "0 < m" "m < 2 ^ 53" and top: "?l < 1024"
  have small: "q / 2 ^ 54 < ?u / 2" by (rule small_distance [OF m(1) _ m(3)]) simp
  have e: "?e = max (?l - 52) (- 1074)" using q by (simp add: double_exponent_def)
  note L = ilog_bounds [of 2 q, OF _ q, simplified]
  have "q / 2 ^ 54 \<le> q / 2" using q by (intro divide_left_mono) auto
  moreover have "q - y < q / 2 ^ 54" using near unfolding abs_less_iff by (metis minus_diff_eq)
  ultimately have y: "q / 2 < y" by linarith
  have y0: "0 < y" using y q by linarith
  have el: "?e \<le> ?l"
  proof (rule ccontr)
    assume "\<not> ?e \<le> ?l"
    then have "?l + 1 \<le> ?e" by simp
    then have "(2 :: rat) powi (?l + 1) \<le> ?u" by (intro power_int_increasing) auto
    also have "?u \<le> of_int m * ?u" using m(2) by simp
    also have "\<dots> < 2 powi (?l + 1)" using L(2) m(1) by simp
    finally show False by simp
  qed
  have below: "y < 2 powi (?l + 1)"
  proof (rule ccontr)
    assume "\<not> ?thesis"
    moreover obtain k where "(2 :: rat) powi (?l + 1) = of_int k * ?u"
      using powi_multiple [of ?e "?l + 1"] el by auto
    then have "q + ?u \<le> 2 powi (?l + 1)" by (rule int_mult_unit [OF m(1) _ _ L(2)]) simp
    ultimately have "?u \<le> y - q" by simp
    with near small show False using powi_pos [of ?e] by linarith
  qed
  have above: "2 powi (?l - 1) \<le> y"
  proof -
    have "2 powi (?l - 1) = (2 :: rat) powi ?l / 2" by (simp add: power_int_diff)
    then show ?thesis using L(1) y by linarith
  qed
  have ey: "double_exponent y = max (ilog 2 y - 52) (- 1074)" using y0 by (simp add: double_exponent_def)
  have near_m: "\<bar>y / ?u - of_int m\<bar> < 1 / 2" by (rule near_half_unit [OF m(1) _ m(3) near]) simp
  have "round_mantissa y = q"
  proof (cases "double_exponent y = ?e")
    case True
    with near_m have "round_even (y / 2 powi double_exponent y) = m" by (simp add: round_even_near)
    with True m(1) show ?thesis by (simp add: round_mantissa_def Let_def)
  next
    case False
    have ily: "ilog 2 y = ?l - 1"
    proof (rule ccontr)
      assume n: "ilog 2 y \<noteq> ?l - 1"
      have "2 powi ?l \<le> y"
      proof (rule ccontr)
        assume "\<not> 2 powi ?l \<le> y"
        with above n show False using ilog_unique [of 2 "?l - 1" y] by simp
      qed
      then have "ilog 2 y = ?l" using below by (intro ilog_unique) auto
      with False ey e show False by simp
    qed
    with False ey e have n: "?e = ?l - 52" "double_exponent y = ?e - 1" by auto
    have yl: "y < 2 powi ?l"
      using ilog_bounds(2) [of 2 y] y0 ily by simp
    have ql: "q = 2 powi ?l"
    proof (rule ccontr)
      assume "q \<noteq> 2 powi ?l"
      with L(1) have "2 powi ?l < q" by simp
      moreover obtain k where "(2 :: rat) powi ?l = of_int k * ?u" using powi_multiple [OF el] by auto
      ultimately have "2 powi ?l + ?u \<le> q" using int_mult_unit [OF _ m(1)] by simp
      with yl near small show False using powi_pos [of ?e] by linarith
    qed
    have half: "(2 :: rat) powi (?e - 1) = ?u / 2" by (simp add: power_int_diff)
    have "?l = ?e + 52" using n(1) by simp
    then have "q = 2 ^ 52 * ?u" using ql by (simp add: power_int_add)
    then have qu: "q / ?u = 2 ^ 52" using powi_pos [of ?e] by (metis less_irrefl nonzero_mult_div_cancel_right)
    have qm: "q / ?u = of_int m"
      using m(1) powi_pos [of ?e] by (metis less_irrefl nonzero_mult_div_cancel_right)
    have "y / 2 powi (?e - 1) - of_int (2 * m) = 2 * ((y - q) / ?u)"
      unfolding half diff_divide_distrib qm by simp
    then have "\<bar>y / 2 powi (?e - 1) - of_int (2 * m)\<bar> = \<bar>2 * ((y - q) / ?u)\<bar>" by (rule arg_cong)
    also have "\<dots> = 2 * (\<bar>y - q\<bar> / ?u)"
      by (simp only: abs_mult abs_divide abs_numeral abs_of_pos [OF powi_pos])
    also have "\<dots> < 2 * ((q / 2 ^ 54) / ?u)"
      using divide_strict_right_mono [OF near powi_pos [of ?e]] by (rule mult_strict_left_mono) simp
    also have "\<dots> = 2 * ((q / ?u) / 2 ^ 54)" by simp
    also have "\<dots> = 1 / 2" unfolding qu by simp
    finally have "round_even (y / 2 powi (?e - 1)) = 2 * m" by (rule round_even_near)
    then show ?thesis using n(2) m(1) by (simp add: round_mantissa_def Let_def half)
  qed
  then show ?thesis using y0 q top by (simp add: to_double_def Let_def)
qed

subsection \<open>Seventeen digits\<close>

lemma grid_neighbour:
  assumes dbl: "to_double q = Fin q" and q: "0 < q" and e: "e = ilog 10 q + 1 - 17"
    and m: "\<bar>of_int m - q / 10 powi e\<bar> \<le> 1 / 2"
  shows "rounds_to q m e"
  unfolding rounds_to_def
proof (rule near_double [OF dbl q])
  let ?g = "(10 :: rat) powi e"
  have g: "0 < ?g" by simp
  have "10 powi (e + 16) \<le> q" using ilog_bounds(1) [of 10 q] q e by simp
  then have b: "10 ^ 16 * ?g \<le> q" by (simp add: power_int_add)
  have "of_int m * ?g - q = (of_int m - q / ?g) * ?g" using g by (simp add: left_diff_distrib)
  then have "\<bar>of_int m * ?g - q\<bar> = \<bar>of_int m - q / ?g\<bar> * ?g" using g by (simp add: abs_mult)
  also have "\<dots> \<le> 1 / 2 * ?g" using m g by (intro mult_right_mono) auto
  also have "\<dots> < q / 2 ^ 54"
  proof -
    have "9007199254740992 * ?g < 10000000000000000 * ?g" using g by (rule mult_strict_right_mono [rotated]) simp
    moreover have "10000000000000000 * ?g \<le> q" using b by simp
    ultimately have "9007199254740992 * ?g < q" by (rule order_less_le_trans)
    then show ?thesis by simp
  qed
  finally show "\<bar>of_int m * ?g - q\<bar> < q / 2 ^ 54" .
qed

lemma digit_candidate_17:
  assumes "to_double q = Fin q" and "0 < q"
  shows "digit_candidate q (ilog 10 q + 1) 17 \<noteq> None"
proof -
  let ?e = "ilog 10 q + 1 - 17"
  let ?x = "q / 10 powi ?e"
  have "\<bar>of_int \<lfloor>?x\<rfloor> - ?x\<bar> \<le> 1 / 2 \<or> \<bar>of_int \<lceil>?x\<rceil> - ?x\<bar> \<le> 1 / 2"
  proof (cases "?x - of_int \<lfloor>?x\<rfloor> \<le> 1 / 2")
    case True
    then show ?thesis using of_int_floor_le [of ?x] by (simp add: abs_le_iff)
  next
    case False
    have "of_int \<lceil>?x\<rceil> \<le> (of_int \<lfloor>?x\<rfloor> + 1 :: rat)"
      using ceiling_diff_floor_le_1 [of ?x] by linarith
    with False show ?thesis using le_of_int_ceiling [of ?x] by (simp add: abs_le_iff)
  qed
  then have "rounds_to q \<lfloor>?x\<rfloor> ?e \<or> rounds_to q \<lceil>?x\<rceil> ?e"
    using grid_neighbour [OF assms refl] by blast
  then show ?thesis unfolding digit_candidate_def Let_def by auto
qed

lemma digit_candidate_Some:
  assumes "digit_candidate q s k = Some m"
  shows "rounds_to q m (s - int k) \<and> (m = \<lfloor>q / 10 powi (s - int k)\<rfloor> \<or> m = \<lceil>q / 10 powi (s - int k)\<rceil>)"
  using assms by (auto simp: digit_candidate_def Let_def split: if_splits)

lemma candidate_bounds:
  assumes q: "0 < q" and k: "0 < k" and s: "s = ilog 10 q + 1" and c: "digit_candidate q s k = Some m"
  shows "10 ^ (k - 1) \<le> m \<and> m \<le> 10 ^ k"
proof -
  let ?g = "(10 :: rat) powi (s - int k)"
  have g: "0 < ?g" by simp
  note L = ilog_bounds [of 10 q, OF _ q, simplified]
  have "(10 :: rat) ^ (k - 1) * ?g = 10 powi (s - 1)"
    using k by (simp add: power_int_add [symmetric] flip: power_int_of_nat)
  then have lo: "10 ^ (k - 1) \<le> q / ?g" using L(1) g s by (simp add: pos_le_divide_eq)
  have "(10 :: rat) ^ k * ?g = 10 powi s" by (simp add: power_int_add [symmetric] flip: power_int_of_nat)
  then have hi: "q / ?g < 10 ^ k" using L(2) g s by (simp add: pos_divide_less_eq)
  have "of_int (10 ^ (k - 1)) \<le> q / ?g" "q / ?g \<le> of_int (10 ^ k)" using lo hi by simp_all
  then have "10 ^ (k - 1) \<le> \<lfloor>q / ?g\<rfloor>" "\<lceil>q / ?g\<rceil> \<le> 10 ^ k" by (simp_all only: le_floor_iff ceiling_le_iff)
  moreover have "\<lfloor>q / ?g\<rfloor> \<le> \<lceil>q / ?g\<rceil>" by (rule floor_le_ceiling)
  ultimately show ?thesis using digit_candidate_Some [OF c] by linarith
qed

lemma shortest_digits_ok:
  assumes dbl: "to_double q = Fin q" and q: "0 < q" and sd: "shortest_digits q = (m, k, n)"
  shows "rounds_to q m (n - int k) \<and> 0 < k \<and> 10 ^ (k - 1) \<le> m \<and> m < 10 ^ k"
proof -
  let ?s = "ilog 10 q + 1"
  have "\<exists>i\<in>set [1..<18]. digit_candidate q ?s i \<noteq> None"
    using digit_candidate_17 [OF dbl q] by (intro bexI [of _ 17]) auto
  then obtain j where j: "List.find (\<lambda>k. digit_candidate q ?s k \<noteq> None) [1..<18] = Some j"
    by (cases "List.find (\<lambda>k. digit_candidate q ?s k \<noteq> None) [1..<18]") (auto simp: find_None_iff)
  then have j0: "0 < j" and cj: "digit_candidate q ?s j \<noteq> None" by (auto simp: find_Some_iff)
  from cj obtain c where c: "digit_candidate q ?s j = Some c" by blast
  note b = candidate_bounds [OF q j0 refl c] and r = digit_candidate_Some [OF c]
  have mkn: "(m, k, n) = (if c = 10 ^ j then (10 ^ (j - 1), j, ?s + 1) else (c, j, ?s))"
    using sd unfolding shortest_digits_def Let_def j option.case c by simp
  show ?thesis
  proof (cases "c = 10 ^ j")
    case True
    with mkn have eq: "m = 10 ^ (j - 1)" "k = j" "n = ?s + 1" by auto
    have "(of_int m :: rat) * 10 powi (n - int k) = of_int c * 10 powi (?s - int j)"
    proof -
      have "(10 :: rat) ^ j = 10 ^ (j - 1) * 10" using j0 by (metis Suc_pred power_Suc2 One_nat_def)
      moreover have "(10 :: rat) powi (?s + 1 - int j) = 10 * 10 powi (?s - int j)"
        by (simp add: power_int_add power_int_diff)
      ultimately show ?thesis using True eq by simp
    qed
    with r eq j0 show ?thesis by (simp add: rounds_to_def)
  next
    case False
    with mkn b r j0 show ?thesis by auto
  qed
qed

subsection \<open>Digits\<close>

lemma digits_of_digits: "list_all is_digit (digits_of n)"
proof (induction n rule: digits_of.induct)
  case (1 n)
  then show ?case by (cases "n < 10") (simp_all add: digits_of.simps [of n] is_digit_def)
qed

lemma digits_value_snoc: "digits_value (s @ [c]) = 10 * digits_value s + (c - 48)"
  by (simp add: digits_value_def)

lemma digits_value_of: "digits_value (digits_of n) = int n"
proof (induction n rule: digits_of.induct)
  case (1 n)
  show ?case
  proof (cases "n < 10")
    case True
    then show ?thesis by (simp add: digits_of.simps [of n] digits_value_def)
  next
    case False
    have "10 * int (n div 10) + int (n mod 10) = int n"
      by (metis div_mult_mod_eq mult.commute of_nat_add of_nat_mult of_nat_numeral)
    with 1 [OF False] False show ?thesis by (simp add: digits_of.simps [of n] digits_value_snoc)
  qed
qed

lemma length_digits_of: "0 < k \<Longrightarrow> 10 ^ (k - 1) \<le> n \<Longrightarrow> n < 10 ^ k \<Longrightarrow> length (digits_of n) = k"
proof (induction n arbitrary: k rule: digits_of.induct)
  case (1 n)
  show ?case
  proof (cases "n < 10")
    case True
    have "k = 1"
    proof (rule ccontr)
      assume "k \<noteq> 1"
      with "1.prems"(1) have "10 ^ 1 \<le> (10 :: nat) ^ (k - 1)" by (intro power_increasing) auto
      with True "1.prems"(2) show False by simp
    qed
    with True show ?thesis by (simp add: digits_of.simps [of n])
  next
    case False
    with "1.prems"(3) have k: "1 < k" by (cases "k = 1") (use "1.prems"(1) in auto)
    then obtain j where j: "k = Suc (Suc j)" by (metis One_nat_def less_imp_Suc_add plus_1_eq_Suc add_Suc)
    have "10 ^ j \<le> n div 10" "n div 10 < 10 ^ Suc j"
      using "1.prems"(2,3) j by (simp_all add: less_eq_div_iff_mult_less_eq div_less_iff_less_mult mult.commute)
    with "1.IH" [OF False, of "Suc j"] False j show ?thesis by (simp add: digits_of.simps [of n])
  qed
qed

lemma digits_value_append: "digits_value (s @ t) = digits_value s * 10 ^ length t + digits_value t"
proof (induction t rule: rev_induct)
  case (snoc c t)
  have "digits_value (s @ t @ [c]) = 10 * digits_value (s @ t) + (c - 48)"
    using digits_value_snoc [of "s @ t" c] by simp
  with snoc show ?case by (simp add: digits_value_snoc algebra_simps)
qed (simp add: digits_value_def)

lemma digits_value_zeros [simp]: "digits_value (replicate n 48) = 0"
  by (induction n) (simp_all add: digits_value_def)

subsection \<open>Reading the layout\<close>

lemma takeWhile_digits: "list_all P s \<Longrightarrow> (r = [] \<or> \<not> P (hd r)) \<Longrightarrow> takeWhile P (s @ r) = s \<and> dropWhile P (s @ r) = r"
  by (induction s) (cases r; auto)+

lemma not_digit_units: "\<not> is_digit 46" "\<not> is_digit 101" "is_digit 48"
  by (simp_all add: is_digit_def)

lemma decimal_value_plain:
  assumes "list_all is_digit i" and "i \<noteq> []"
  shows "decimal_value i = Some (of_int (digits_value i))"
proof -
  have "takeWhile is_digit i = i" "dropWhile is_digit i = []"
    using takeWhile_digits [OF assms(1), of "[]"] by simp_all
  note t = this
  show ?thesis unfolding decimal_value_def t Let_def using assms(2) by (simp add: exponent_value_def)
qed

lemma decimal_value_point:
  assumes "list_all is_digit i" and "list_all is_digit f" and "i \<noteq> []" and "r = [] \<or> \<not> is_digit (hd r)"
  shows "decimal_value (i @ 46 # f @ r) =
    map_option (\<lambda>x. of_int (digits_value (i @ f)) * 10 powi (x - int (length f))) (exponent_value r)"
  using takeWhile_digits [OF assms(1), of "46 # f @ r"] takeWhile_digits [OF assms(2,4)] assms(3)
  by (simp add: decimal_value_def not_digit_units)

lemma decimal_value_exponent:
  assumes "list_all is_digit i" and "i \<noteq> []" and "r \<noteq> []" and "\<not> is_digit (hd r)" and "hd r \<noteq> 46"
  shows "decimal_value (i @ r) = map_option (\<lambda>x. of_int (digits_value i) * 10 powi x) (exponent_value r)"
  using takeWhile_digits [OF assms(1), of r] assms(2-5) by (simp add: decimal_value_def)

lemma digits_of_nonempty: "digits_of n \<noteq> []"
  by (simp add: digits_of.simps [of n])

lemma exponent_value_suffix: "exponent_value (exponent_suffix e) = Some e"
  using digits_of_digits [of "nat \<bar>e\<bar>"] digits_of_nonempty [of "nat \<bar>e\<bar>"] digits_value_of [of "nat \<bar>e\<bar>"]
  by (auto simp: exponent_value_def exponent_suffix_def Let_def)

lemma exponent_suffix_head: "exponent_suffix e \<noteq> []" "hd (exponent_suffix e) = 101"
  by (simp_all add: exponent_suffix_def)

lemma format_decimal_value:
  assumes ds: "list_all is_digit ds" "ds \<noteq> []"
  shows "decimal_value (format_decimal ds n) = Some (of_int (digits_value ds) * 10 powi (n - int (length ds)))"
proof -
  let ?k = "int (length ds)"
  have part: "list_all is_digit (take j ds)" "list_all is_digit (drop j ds)" for j
    using ds(1) by (metis append_take_drop_id list_all_append)+
  have zeros: "list_all is_digit (replicate j 48)" for j by (simp add: list_all_iff is_digit_def)
  consider (whole) "?k \<le> n" "n \<le> 21" | (point) "n < ?k" "0 < n" "n \<le> 21" | (small) "- 6 < n" "n \<le> 0"
    | (one) "n \<le> - 6 \<or> 21 < n" "?k = 1" | (many) "n \<le> - 6 \<or> 21 < n" "?k \<noteq> 1" by linarith
  then show ?thesis
  proof cases
    case whole
    then have "format_decimal ds n = ds @ replicate (nat (n - ?k)) 48" by (simp add: format_decimal_def)
    moreover have "digits_value (ds @ replicate (nat (n - ?k)) 48) = digits_value ds * 10 ^ nat (n - ?k)"
      by (simp add: digits_value_append)
    ultimately show ?thesis
      using decimal_value_plain [of "ds @ replicate (nat (n - ?k)) 48"] ds zeros whole by (simp add: power_int_def)
  next
    case point
    then have "format_decimal ds n = take (nat n) ds @ 46 # drop (nat n) ds @ []" by (simp add: format_decimal_def)
    moreover have "take (nat n) ds \<noteq> []" using point ds by auto
    ultimately show ?thesis
      using decimal_value_point [OF part(1) [of "nat n"] part(2) [of "nat n"], of "[]"] point
      by (simp add: exponent_value_def of_nat_diff)
  next
    case small
    then have "format_decimal ds n = [48] @ 46 # (replicate (nat (- n)) 48 @ ds) @ []"
      using ds(2) by (cases ds) (simp_all add: format_decimal_def)
    moreover have "digits_value ([48] @ replicate (nat (- n)) 48 @ ds) = digits_value ds"
      using digits_value_append [of "replicate (Suc (nat (- n))) 48" ds] digits_value_zeros [of "Suc (nat (- n))"]
      by simp
    ultimately show ?thesis
      using decimal_value_point [of "[48]" "replicate (nat (- n)) 48 @ ds" "[]"] ds zeros small
      by (simp add: exponent_value_def not_digit_units add.commute)
  next
    case one
    then have "format_decimal ds n = ds @ exponent_suffix (n - 1)"
      by (auto simp: format_decimal_def Let_def)
    then show ?thesis
      using decimal_value_exponent [OF ds, of "exponent_suffix (n - 1)"] exponent_suffix_head [of "n - 1"] one
      by (simp add: exponent_value_suffix not_digit_units)
  next
    case many
    then have f: "format_decimal ds n = take 1 ds @ 46 # drop 1 ds @ exponent_suffix (n - 1)"
      using ds(2) by (auto simp: format_decimal_def Let_def)
    have "take 1 ds \<noteq> []" using ds(2) by simp
    with f show ?thesis
      using decimal_value_point [OF part(1) [of 1] part(2) [of 1], of "exponent_suffix (n - 1)"] exponent_suffix_head [of "n - 1"] ds(2)
      by (cases ds) (simp_all add: exponent_value_suffix not_digit_units diff_diff_eq)
  qed
qed

subsection \<open>The round trip\<close>

lemma format_decimal_text:
  assumes "list_all is_digit ds" and "ds \<noteq> []"
  shows "format_decimal ds n \<noteq> [] \<and> is_digit (hd (format_decimal ds n)) \<and> is_digit (last (format_decimal ds n))"
proof -
  have ds: "is_digit (hd ds)" "is_digit (last ds)" "\<And>j. j < length ds \<Longrightarrow> is_digit (ds ! j)"
    using assms by (auto simp: list_all_iff)
  have ex: "is_digit (last (exponent_suffix e))" for e
    using digits_of_digits [of "nat \<bar>e\<bar>"] digits_of_nonempty [of "nat \<bar>e\<bar>"]
    by (auto simp: exponent_suffix_def list_all_iff)
  have zeros: "is_digit (last (ds @ replicate j 48))" for j
    using ds(2) by (cases j) (auto simp: not_digit_units last_append simp flip: replicate_append_same)
  have cut: "take j ds \<noteq> [] \<and> hd (take j ds) = hd ds" if "0 < j" for j
    using assms(2) that by (cases ds; cases j) auto
  have end_: "drop j ds = [] \<or> is_digit (last (drop j ds))" for j
    using ds(2) by (cases "j < length ds") auto
  show ?thesis
    using assms(2) ds ex zeros cut end_
    by (auto simp: format_decimal_def Let_def not_digit_units exponent_suffix_head hd_append last_append
        nat_less_iff)
qed

lemma string_of_positive_value:
  assumes "to_double q = Fin q" and "0 < q"
  shows "\<exists>v. decimal_value (string_of_positive q) = Some v \<and> to_double v = Fin q"
proof -
  obtain m k n where sd: "shortest_digits q = (m, k, n)" by (cases "shortest_digits q")
  note ok = shortest_digits_ok [OF assms sd]
  then have m: "0 \<le> m" by (meson order_trans zero_le_numeral zero_le_power)
  let ?ds = "digits_of (nat m)"
  have "10 ^ (k - 1) \<le> nat m" "nat m < 10 ^ k" using ok m by (auto simp: le_nat_iff nat_less_iff)
  then have "length ?ds = k" using ok by (intro length_digits_of) auto
  then have "decimal_value (string_of_positive q) = Some (of_int m * 10 powi (n - int k))"
    using format_decimal_value [OF digits_of_digits digits_of_nonempty, of "nat m" n] m
    by (simp add: string_of_positive_def sd digits_value_of)
  with ok show ?thesis by (simp add: rounds_to_def)
qed

lemma string_of_positive_text:
  "string_of_positive q \<noteq> [] \<and> is_digit (hd (string_of_positive q)) \<and> is_digit (last (string_of_positive q))"
  using format_decimal_text [OF digits_of_digits digits_of_nonempty]
  by (simp add: string_of_positive_def split: prod.split)

lemma number_of_digit_text:
  assumes "s \<noteq> []" and "is_digit (hd s)" and "is_digit (last s)" and "decimal_value s = Some v"
  shows "number_of_string s = to_double v"
proof -
  have "trim s = s" using assms by (intro trim_id) auto
  moreover have "hd s \<noteq> 45" "hd s \<noteq> 43" "s \<noteq> js ''Infinity''"
    using assms(2) by (auto simp: is_digit_def js_def)
  ultimately show ?thesis using assms by (simp add: number_of_string_def signed_decimal_def Let_def)
qed

lemma to_double_0 [simp]: "to_double 0 = Fin 0"
  by (simp add: to_double_def)

theorem number_of_string_of_number:
  assumes "is_double x" and "is_unsigned x"
  shows "number_of_string (string_of_number x) = x"
proof -
  from assms obtain q where x: "x = Fin q" "0 \<le> q" "to_double q = Fin q" by (cases x) auto
  show ?thesis
  proof (cases "q = 0")
    case True
    have "number_of_string [48] = to_double (of_int (digits_value [48]))"
      using decimal_value_plain [of "[48]"] by (intro number_of_digit_text) (auto simp: not_digit_units)
    with True x show ?thesis by (simp add: digits_value_def)
  next
    case False
    with x have q: "0 < q" by simp
    from string_of_positive_value [OF x(3) q] number_of_digit_text [of "string_of_positive q"]
      string_of_positive_text [of q] q x(1)
    show ?thesis by auto
  qed
qed

subsection \<open>Every number read from a text is a double\<close>

lemma round_mantissa_multiple:
  "x = of_int k * 2 powi e \<Longrightarrow> double_exponent x \<le> e \<Longrightarrow> round_mantissa x = x"
proof -
  assume x: "x = of_int k * 2 powi e" and le: "double_exponent x \<le> e"
  define u :: rat where "u = 2 powi double_exponent x"
  have u: "u \<noteq> 0" by (simp add: u_def)
  obtain j where j: "(2 :: rat) powi e = of_int j * u" using powi_multiple [OF le] u_def by blast
  have "x = of_int (k * j) * u" using x unfolding j by simp
  then have q: "x / u = of_int (k * j)" using u by simp
  have "round_mantissa x = of_int (k * j) * u"
    unfolding round_mantissa_def Let_def u_def [symmetric] q round_even_of_int ..
  also have "\<dots> = x" using q u by (metis nonzero_eq_divide_eq)
  finally show "round_mantissa x = x" .
qed

lemma round_even_abs: "\<bar>x\<bar> < of_int n \<Longrightarrow> \<bar>round_even x\<bar> \<le> n"
proof -
  assume x: "\<bar>x\<bar> < of_int n"
  have "\<lfloor>x\<rfloor> < n" using x by (simp add: floor_less_iff)
  moreover have "- n \<le> \<lfloor>x\<rfloor>" using x by (simp add: le_floor_iff)
  moreover have "round_even x = \<lfloor>x\<rfloor> \<or> round_even x = \<lfloor>x\<rfloor> + 1" by (simp add: round_even_def Let_def)
  ultimately show ?thesis by linarith
qed

lemma ilog_less: "0 < q \<Longrightarrow> q < 2 powi k \<Longrightarrow> ilog 2 q < k"
  using ilog_bounds(1) [of 2 q] powi_less_mono [of 2 "ilog 2 q" k] by fastforce

lemma round_mantissa_idem:
  assumes "q \<noteq> 0" and "round_mantissa q \<noteq> 0"
  shows "round_mantissa (round_mantissa q) = round_mantissa q"
proof -
  let ?e = "double_exponent q" and ?r = "round_mantissa q"
  define m where "m = round_even (q / 2 powi ?e)"
  have r: "?r = of_int m * 2 powi ?e" by (simp add: round_mantissa_def m_def Let_def)
  have "\<bar>q\<bar> < 2 powi (ilog 2 \<bar>q\<bar> + 1)" using ilog_bounds(2) [of 2 "\<bar>q\<bar>"] assms(1) by simp
  also have "\<dots> \<le> 2 powi (?e + 53)" by (intro power_int_increasing) (auto simp: double_exponent_def)
  also have "\<dots> = 2 ^ 53 * 2 powi ?e" by (simp add: power_int_add)
  finally have "\<bar>q / 2 powi ?e\<bar> < of_int (2 ^ 53)" by (simp add: abs_divide divide_less_eq)
  then have m: "\<bar>m\<bar> \<le> 2 ^ 53" unfolding m_def by (rule round_even_abs)
  have ar: "\<bar>?r\<bar> = of_int \<bar>m\<bar> * 2 powi ?e" by (simp add: r abs_mult)
  show ?thesis
  proof (cases "\<bar>m\<bar> = 2 ^ 53")
    case False
    with m have "\<bar>m\<bar> < 2 ^ 53" by simp
    then have "(of_int \<bar>m\<bar> :: rat) < of_int (2 ^ 53)" using of_int_less_iff by blast
    then have "(of_int \<bar>m\<bar> :: rat) < 2 ^ 53" by simp
    then have "of_int \<bar>m\<bar> * 2 powi ?e < (2 :: rat) ^ 53 * 2 powi ?e" by (rule mult_strict_right_mono) simp
    then have "\<bar>?r\<bar> < 2 powi (?e + 53)" by (simp add: ar power_int_add mult.commute)
    then have "ilog 2 \<bar>?r\<bar> < ?e + 53" using assms(2) by (intro ilog_less) auto
    then have "double_exponent ?r \<le> ?e" by (simp add: double_exponent_def)
    with r show ?thesis by (rule round_mantissa_multiple)
  next
    case True
    have "\<bar>?r\<bar> = 2 powi (?e + 53)" unfolding ar True by (simp add: power_int_add)
    then have "\<bar>?r\<bar> < 2 powi (?e + 54)" by (simp add: power_int_add)
    then have "ilog 2 \<bar>?r\<bar> < ?e + 54" using assms(2) by (intro ilog_less) auto
    then have le: "double_exponent ?r \<le> ?e + 1" by (simp add: double_exponent_def)
    have "?r = of_int (m div 2) * 2 powi (?e + 1)"
    proof -
      have "even \<bar>m\<bar>" unfolding True by simp
      then have "m = m div 2 * 2" by simp
      then have "(of_int m :: rat) = of_int (m div 2) * 2" by (metis of_int_mult of_int_numeral)
      then show ?thesis unfolding r by (simp only: power_int_add_1 mult_ac) (simp add: power_int_add)
    qed
    with le show ?thesis by (intro round_mantissa_multiple)
  qed
qed

lemma to_double_double: "is_double (to_double q)"
proof (cases "\<exists>r. to_double q = Fin r \<and> r \<noteq> 0")
  case True
  then obtain r where r: "to_double q = Fin r" "r \<noteq> 0" by blast
  then have "round_mantissa q = r" "q \<noteq> 0" "ilog 2 \<bar>r\<bar> < 1024"
    by (auto simp: to_double_def Let_def split: if_splits)
  moreover from this r(2) have "round_mantissa r = r" using round_mantissa_idem [of q] by simp
  ultimately have "to_double r = Fin r" using r(2) by (simp add: to_double_def)
  with r(1) show ?thesis by simp
qed (cases "to_double q", auto)

lemma round_even_minus: "round_even (- x) = - round_even x"
proof (cases "of_int \<lfloor>x\<rfloor> = x")
  case True
  then show ?thesis by (metis of_int_minus round_even_of_int)
next
  case False
  have "of_int \<lfloor>x\<rfloor> < x" using False floor_correct [of x] by (simp add: less_le)
  moreover have "x < of_int \<lfloor>x\<rfloor> + 1" using floor_correct [of x] by simp
  ultimately have "\<lfloor>- x\<rfloor> = - \<lfloor>x\<rfloor> - 1" by (simp add: floor_eq_iff)
  then show ?thesis by (simp add: round_even_def Let_def)
qed

lemma to_double_fixed: "to_double q = Fin q \<Longrightarrow> q = 0 \<or> round_mantissa q = q \<and> ilog 2 \<bar>q\<bar> < 1024"
proof -
  assume d: "to_double q = Fin q"
  have "to_double q \<in> {NegZero, Fin 0, PosInf, NegInf} \<or>
      (to_double q = Fin (round_mantissa q) \<and> ilog 2 \<bar>round_mantissa q\<bar> < 1024)"
    by (auto simp: to_double_def Let_def)
  with d show ?thesis by auto
qed

lemma num_neg_double: "is_double x \<Longrightarrow> is_double (num_neg x)"
proof (cases x)
  case (Fin q)
  assume d: "is_double x"
  have "round_mantissa (- q) = - round_mantissa q"
    by (simp add: round_mantissa_def double_exponent_def Let_def round_even_minus)
  moreover from d Fin have "q = 0 \<or> round_mantissa q = q \<and> ilog 2 \<bar>q\<bar> < 1024"
    using to_double_fixed [of q] by simp
  ultimately show ?thesis
  proof (elim disjE conjE)
    assume r: "round_mantissa q = q" and l: "ilog 2 \<bar>q\<bar> < 1024" and "round_mantissa (- q) = - round_mantissa q"
    then have "round_mantissa (- q) = - q" by simp
    with l Fin show ?thesis by (cases "q = 0") (simp_all add: to_double_def)
  qed (simp add: Fin)
qed auto

lemma number_of_string_double [simp]: "is_double (number_of_string s)"
proof -
  have "signed_decimal t = Some x \<Longrightarrow> is_double x" for t x
    by (auto simp: signed_decimal_def Let_def to_double_double num_neg_double split: if_splits)
  moreover have "radix_literal t = Some x \<Longrightarrow> is_double x" for t x
    by (auto simp: radix_literal_def to_double_double split: list.splits if_splits)
  ultimately show ?thesis
    by (auto simp: number_of_string_def Let_def split: option.splits)
qed
end
