(* ===== verification/Expr_Lexer.thy ===== *)
theory Expr_Lexer
  imports Expr_Types Number_Roundtrip
begin

section \<open>The lexer of the billing parser (parser.ts, BillingParser.next)\<close>

text \<open>
  \<open>lex_at src i\<close> is the lexeme the parser reads from position \<open>i\<close>: white space is
  skipped, then the alternatives are tried in the order of the source (end, number,
  string, name, operator). In every alternative the cursor ends at the end of the
  lexeme, so \<open>next_lexeme\<close>, the method with its counter, is \<open>lex_at\<close> and a state
  update. The lemmas say that a lexeme is exactly the text of its span, that spans
  advance and that only white space is skipped.
\<close>

subsection \<open>Lexemes and the state of the parser object\<close>

datatype lexeme_kind = K_number js_num bool | K_string js_string | K_symbol | K_name | K_end

record lexeme =
  lx_kind :: lexeme_kind
  lx_text :: js_string
  lx_start :: nat
  lx_end :: nat

record parser_state =
  ps_cursor :: nat
  ps_count :: nat
  ps_depth :: nat
  ps_current :: lexeme

subsection \<open>The regular expressions\<close>

text \<open>\<^verbatim>\<open>/^(?:\d+(?:\.\d*)?|\.\d+)(?:[eE][+-]?\d+)?/\<close>\<close>

definition match_mantissa :: "js_string \<Rightarrow> js_string" where
  "match_mantissa rest =
     (let i = takeWhile is_digit rest; r = dropWhile is_digit rest in
      if r \<noteq> [] \<and> hd r = 46 \<and> (i \<noteq> [] \<or> takeWhile is_digit (tl r) \<noteq> [])
      then i @ [46] @ takeWhile is_digit (tl r) else i)"

definition match_exponent :: "js_string \<Rightarrow> js_string" where
  "match_exponent rest =
     (case rest of [] \<Rightarrow> []
      | e # r \<Rightarrow>
          let sgn = (if r \<noteq> [] \<and> (hd r = 43 \<or> hd r = 45) then [hd r] else []);
              ds = takeWhile is_digit (drop (length sgn) r) in
          if (e = 101 \<or> e = 69) \<and> ds \<noteq> [] then e # sgn @ ds else [])"

definition match_number :: "js_string \<Rightarrow> js_string" where
  "match_number rest =
     (let m = match_mantissa rest in
      if m = [] then [] else m @ match_exponent (drop (length m) rest))"

text \<open>\<^verbatim>\<open>!/[.eE]/.test(text)\<close>\<close>

definition is_integer_text :: "js_string \<Rightarrow> bool" where
  "is_integer_text s \<longleftrightarrow> list_all (\<lambda>c. c \<noteq> 46 \<and> c \<noteq> 101 \<and> c \<noteq> 69) s"

text \<open>\<^verbatim>\<open>/^[A-Za-z_][\w]*/\<close>\<close>

definition match_name :: "js_string \<Rightarrow> js_string" where
  "match_name rest = (if rest \<noteq> [] \<and> is_name_start (hd rest) then takeWhile is_word rest else [])"

text \<open>\<^verbatim>\<open>/^(?:&&|\|\||==|!=|<=|>=|[+\-*/%<>()!?:,])/\<close>\<close>

definition two_unit_operators :: "js_string list" where
  "two_unit_operators = [js ''&&'', js ''||'', js ''=='', js ''!='', js ''<='', js ''>='']"

definition one_unit_operators :: js_string where
  "one_unit_operators = js ''+-*/%<>()!?:,''"

definition match_operator :: "js_string \<Rightarrow> js_string" where
  "match_operator rest =
     (if take 2 rest \<in> set two_unit_operators then take 2 rest
      else if rest \<noteq> [] \<and> hd rest \<in> set one_unit_operators then [hd rest] else [])"

text \<open>\<^verbatim>\<open>/^\s*v(\d+):/\<close>: the matched text and its group.\<close>

definition match_version :: "js_string \<Rightarrow> (js_string \<times> js_string) option" where
  "match_version src =
     (let w = takeWhile is_space src; r = dropWhile is_space src;
          ds = takeWhile is_digit (tl r); r' = dropWhile is_digit (tl r) in
      if r \<noteq> [] \<and> hd r = 118 \<and> ds \<noteq> [] \<and> r' \<noteq> [] \<and> hd r' = 58
      then Some (w @ [118] @ ds @ [58], ds) else None)"

subsection \<open>String literals\<close>

definition simple_escape :: "code_unit \<Rightarrow> code_unit option" where
  "simple_escape c =
     (if c = 110 then Some 10 else if c = 114 then Some 13 else if c = 116 then Some 9
      else if c = 98 then Some 8 else if c = 102 then Some 12 else if c = 118 then Some 11
      else if c = 92 then Some 92 else if c = 34 then Some 34 else if c = 39 then Some 39
      else if c = 47 then Some 47 else None)"

text \<open>
  The loop after the opening quote: the value of the literal and the position after
  the closing quote. An escape at the end of the source reads \<^verbatim>\<open>undefined\<close>, which is
  no escape.
\<close>

function scan_string ::
  "js_string \<Rightarrow> code_unit \<Rightarrow> nat \<Rightarrow> nat \<Rightarrow> js_string \<Rightarrow> (js_string \<times> nat) result" where
  "scan_string src quote start i val =
     (if i < length src then
        (let c = src ! i in
         if c = quote then Inr (val, i + 1)
         else if c = 10 \<or> c = 13 then Inl (diag_at D_syntax (js ''unterminated string'') start)
         else if c \<noteq> 92 then scan_string src quote start (i + 1) (val @ [c])
         else if i + 1 < length src \<and> simple_escape (src ! (i + 1)) \<noteq> None
         then scan_string src quote start (i + 2) (val @ [the (simple_escape (src ! (i + 1)))])
         else if i + 1 < length src \<and> (src ! (i + 1) = 117 \<or> src ! (i + 1) = 120)
         then (let n = (if src ! (i + 1) = 117 then 4 else 2);
                   hex = slice src (i + 2) (i + 2 + n) in
               if length hex \<noteq> n \<or> \<not> list_all is_hex hex
               then Inl (diag_at D_syntax (js ''unterminated string'') start)
               else scan_string src quote start (i + 2 + n) (val @ [parse_hex hex]))
         else Inl (diag_at D_unsupported (js ''string escape'') (i + 1)))
      else Inl (diag_at D_syntax (js ''unterminated string'') start))"
  by pat_completeness auto
termination
  by (relation "measure (\<lambda>(src, quote, start, i, val). length src - i)") auto

declare scan_string.simps [simp del]

subsection \<open>One lexeme\<close>

definition skip_space :: "js_string \<Rightarrow> nat \<Rightarrow> nat" where
  "skip_space src i = i + length (takeWhile is_space (drop i src))"

definition lex_number :: "js_string \<Rightarrow> nat \<Rightarrow> lexeme result" where
  "lex_number txt start =
     (let val = number_of_string txt; int = is_integer_text txt in
      if \<not> is_finite val then Inl (diag_at D_number txt start)
      else if int \<and> \<not> is_safe_integer val
      then Inl (diag_at D_unsupported (js ''integer precision'') start)
      else Inr \<lparr>lx_kind = K_number val int, lx_text = txt, lx_start = start,
               lx_end = start + length txt\<rparr>)"

definition lex_at :: "js_string \<Rightarrow> nat \<Rightarrow> lexeme result" where
  "lex_at src i =
     (let start = skip_space src i; rest = drop start src in
      if rest = [] then Inr \<lparr>lx_kind = K_end, lx_text = [], lx_start = start, lx_end = start\<rparr>
      else if match_number rest \<noteq> [] then lex_number (match_number rest) start
      else if hd rest = 34 \<or> hd rest = 39 then
        (case scan_string src (hd rest) start (start + 1) [] of
           Inl e \<Rightarrow> Inl e
         | Inr (val, j) \<Rightarrow> Inr \<lparr>lx_kind = K_string val, lx_text = slice src start j,
                              lx_start = start, lx_end = j\<rparr>)
      else if match_name rest \<noteq> [] then
        Inr \<lparr>lx_kind = K_name, lx_text = match_name rest, lx_start = start,
             lx_end = start + length (match_name rest)\<rparr>
      else if match_operator rest \<noteq> [] then
        Inr \<lparr>lx_kind = K_symbol, lx_text = match_operator rest, lx_start = start,
             lx_end = start + length (match_operator rest)\<rparr>
      else Inl (diag_at D_unsupported [hd rest] start))"

definition next_lexeme :: "js_string \<Rightarrow> parser_state \<Rightarrow> (lexeme \<times> parser_state) result" where
  "next_lexeme src st =
     (let n = ps_count st + 1 in
      if 10000 < n then Inl (diag D_limit (js ''expression tokens''))
      else case lex_at src (ps_cursor st) of
             Inl e \<Rightarrow> Inl e
           | Inr lx \<Rightarrow> Inr (lx, st\<lparr>ps_count := n, ps_cursor := lx_end lx\<rparr>))"

subsection \<open>A lexeme is the text of its span\<close>

lemma takeWhile_prefix: "\<exists>r. s = takeWhile Q s @ r"
  by (metis takeWhile_dropWhile_id)

lemma match_mantissa_prefix: "\<exists>r. rest = match_mantissa rest @ r"
proof -
  let ?r = "dropWhile is_digit rest"
  show ?thesis
  proof (cases "?r \<noteq> [] \<and> hd ?r = 46 \<and> (takeWhile is_digit rest \<noteq> [] \<or> takeWhile is_digit (tl ?r) \<noteq> [])")
    case True
    then have "rest = takeWhile is_digit rest @ 46 # tl ?r"
      by (metis list.collapse takeWhile_dropWhile_id)
    moreover have "tl ?r = takeWhile is_digit (tl ?r) @ dropWhile is_digit (tl ?r)" by simp
    ultimately have "rest = (takeWhile is_digit rest @ [46] @ takeWhile is_digit (tl ?r))
        @ dropWhile is_digit (tl ?r)"
      by (metis append.assoc append_Cons append_Nil)
    moreover have "match_mantissa rest = takeWhile is_digit rest @ [46] @ takeWhile is_digit (tl ?r)"
      using True unfolding match_mantissa_def Let_def by (subst if_P) auto
    ultimately show ?thesis by metis
  next
    case False
    then have "match_mantissa rest = takeWhile is_digit rest" by (auto simp: match_mantissa_def Let_def)
    then show ?thesis using takeWhile_prefix by metis
  qed
qed

lemma match_exponent_prefix: "\<exists>r. rest = match_exponent rest @ r"
proof (cases rest)
  case (Cons e r)
  define sgn where "sgn = (if r \<noteq> [] \<and> (hd r = 43 \<or> hd r = 45) then [hd r] else [])"
  have r: "r = sgn @ drop (length sgn) r" by (cases r) (auto simp: sgn_def)
  obtain r' where "drop (length sgn) r = takeWhile is_digit (drop (length sgn) r) @ r'"
    using takeWhile_prefix by metis
  with r have "rest = (e # sgn @ takeWhile is_digit (drop (length sgn) r)) @ r'"
    using Cons by (metis append.assoc append_Cons)
  then show ?thesis using Cons by (auto simp: match_exponent_def Let_def sgn_def [symmetric])
qed (simp add: match_exponent_def)

lemma match_number_prefix: "\<exists>r. rest = match_number rest @ r"
proof -
  obtain r where r: "rest = match_mantissa rest @ r" using match_mantissa_prefix by blast
  then have "r = drop (length (match_mantissa rest)) rest" by (metis append_eq_conv_conj)
  moreover obtain r' where "r = match_exponent r @ r'" using match_exponent_prefix by blast
  ultimately have "rest = (match_mantissa rest @
      match_exponent (drop (length (match_mantissa rest)) rest)) @ r'"
    using r by (metis append.assoc)
  then show ?thesis by (auto simp: match_number_def Let_def)
qed

lemma match_name_prefix: "\<exists>r. rest = match_name rest @ r"
  using takeWhile_prefix [of rest is_word] by (auto simp: match_name_def)

lemma match_operator_prefix: "\<exists>r. rest = match_operator rest @ r"
proof (cases rest)
  case (Cons c r)
  then have "match_operator rest \<in> {take 2 rest, take 1 rest, take 0 rest}"
    by (simp add: match_operator_def)
  then show ?thesis by (metis append_take_drop_id insertE singletonD)
qed (simp add: match_operator_def two_unit_operators_def)

lemmas match_prefixes = match_number_prefix match_name_prefix match_operator_prefix

lemma scan_string_bounds:
  "scan_string src q start i val = Inr (s, j) \<Longrightarrow> i < j \<and> j \<le> length src"
proof (induction src q start i val rule: scan_string.induct)
  case (1 src q start i val)
  from "1.prems" have i: "i < length src" by (subst (asm) scan_string.simps) (simp split: if_splits)
  let ?c = "src ! i" and ?d = "src ! (i + 1)"
  let ?n = "if ?d = 117 then 4 else (2 :: nat)"
  let ?hex = "slice src (i + 2) (i + 2 + ?n)"
  consider (close) "?c = q" | (plain) "?c \<noteq> q" "?c \<noteq> 10" "?c \<noteq> 13" "?c \<noteq> 92"
    | (simple) "?c \<noteq> q" "?c = 92" "i + 1 < length src" "simple_escape ?d \<noteq> None"
    | (hex) "?c \<noteq> q" "?c = 92" "i + 1 < length src" "simple_escape ?d = None" "?d = 117 \<or> ?d = 120"
        "length ?hex = ?n" "list_all is_hex ?hex"
    using "1.prems" i by (subst (asm) scan_string.simps) (auto simp: Let_def split: if_splits)
  then show ?case
  proof cases
    case close
    with "1.prems" i show ?thesis by (subst (asm) scan_string.simps) simp
  next
    case plain
    with "1.prems" i have "scan_string src q start (i + 1) (val @ [?c]) = Inr (s, j)"
      by (subst (asm) scan_string.simps) (simp add: Let_def)
    with "1.IH"(1) [OF i refl] plain show ?thesis by simp
  next
    case simple
    with "1.prems" i have "scan_string src q start (i + 2) (val @ [the (simple_escape ?d)]) = Inr (s, j)"
      by (subst (asm) scan_string.simps) (simp add: Let_def)
    with "1.IH"(2) [OF i refl] simple show ?thesis by simp
  next
    case hex
    then have eq: "scan_string src q start i val =
        scan_string src q start (i + 2 + ?n) (val @ [parse_hex ?hex])"
      using i by (subst scan_string.simps) (simp add: Let_def)
    have "i + 2 + ?n < j \<and> j \<le> length src"
      by (rule "1.IH"(3) [OF i refl _ _ _ _ _ refl refl]) (use hex "1.prems" eq in auto)
    then show ?thesis by simp
  qed
qed

lemma skip_space_bounds: "i \<le> length src \<Longrightarrow> i \<le> skip_space src i \<and> skip_space src i \<le> length src"
  using length_takeWhile_le [of is_space "drop i src"] by (simp add: skip_space_def)

lemma skip_space_spaces: "list_all is_space (slice src i (skip_space src i))"
proof -
  let ?w = "takeWhile is_space (drop i src)"
  have "take (length ?w) (drop i src) = ?w" by (metis takeWhile_eq_take)
  then show ?thesis by (auto simp: skip_space_def slice_def list_all_iff dest: set_takeWhileD)
qed

lemma skip_space_head: "drop (skip_space src i) src = c # r \<Longrightarrow> \<not> is_space c"
proof -
  assume "drop (skip_space src i) src = c # r"
  then have "dropWhile is_space (drop i src) = c # r"
    by (simp add: skip_space_def dropWhile_eq_drop add.commute)
  then show ?thesis by (metis hd_dropWhile list.distinct(1) list.sel(1))
qed

lemma match_number_head: "match_number rest = c # r \<Longrightarrow> is_digit c \<or> c = 46"
proof -
  assume "match_number rest = c # r"
  then obtain m r' where m: "match_mantissa rest = m" "m \<noteq> []" "c # r = m @ r'"
    unfolding match_number_def Let_def by (metis list.distinct(1))
  then have "c = hd m" by (cases m) auto
  also have "is_digit (hd m) \<or> hd m = 46"
  proof (cases "takeWhile is_digit rest = []")
    case True
    with m(1,2) show ?thesis by (auto simp: match_mantissa_def Let_def split: if_splits)
  next
    case False
    then have "hd m = hd (takeWhile is_digit rest)" using m(1) by (auto simp: match_mantissa_def Let_def)
    moreover have "is_digit (hd (takeWhile is_digit rest))"
      using takeWhile_all [of is_digit rest] False by (metis list.pred_set list.set_sel(1))
    ultimately show ?thesis by simp
  qed
  finally show ?thesis .
qed

lemma hd_trim: "\<not> is_space c \<Longrightarrow> \<exists>r'. trim (c # r) = c # r'"
proof -
  assume "\<not> is_space c"
  then have "trim (c # r) = rev (dropWhile is_space (rev r @ [c]))" by (simp add: trim_def)
  also have "\<dots> = c # rev (dropWhile is_space (rev r))"
    using \<open>\<not> is_space c\<close> by (simp add: dropWhile_append dropWhile_eq_Nil_conv)
  finally show ?thesis by blast
qed

lemma match_number_unsigned: "match_number rest \<noteq> [] \<Longrightarrow> unsigned_text (match_number rest)"
proof -
  assume "match_number rest \<noteq> []"
  then obtain c r where m: "match_number rest = c # r" by (cases "match_number rest") auto
  then have c: "is_digit c \<or> c = 46" by (rule match_number_head)
  then have "\<not> is_space c" using digit_not_space by (auto simp: is_space_def [of 46])
  with hd_trim [OF this, of r] c show ?thesis by (auto simp: m unsigned_text_def is_digit_def)
qed

fun literal_ok :: "lexeme_kind \<Rightarrow> js_string \<Rightarrow> bool" where
  "literal_ok (K_number v whole) txt \<longleftrightarrow>
     v = number_of_string txt \<and> is_unsigned v \<and> whole = is_integer_text txt \<and>
     (whole \<longrightarrow> is_safe_integer v)"
| "literal_ok _ txt \<longleftrightarrow> True"

lemma lex_number_ok:
  "match_number rest \<noteq> [] \<Longrightarrow> lex_number (match_number rest) start = Inr lx \<Longrightarrow>
   \<exists>v whole. lx = \<lparr>lx_kind = K_number v whole, lx_text = match_number rest, lx_start = start,
     lx_end = start + length (match_number rest)\<rparr> \<and> literal_ok (K_number v whole) (match_number rest)"
  using number_of_string_unsigned [OF match_number_unsigned, of rest]
  by (auto simp: lex_number_def Let_def split: if_splits)

definition lexeme_ok :: "js_string \<Rightarrow> lexeme \<Rightarrow> bool" where
  "lexeme_ok src lx \<longleftrightarrow>
     lx_end lx \<le> length src \<and> lx_text lx = slice src (lx_start lx) (lx_end lx) \<and>
     literal_ok (lx_kind lx) (lx_text lx) \<and>
     (if lx_kind lx = K_end then lx_start lx = length src \<and> lx_end lx = length src
      else lx_start lx < lx_end lx)"

lemma lexeme_okI:
  assumes "drop start src = m @ r" and "m \<noteq> []" and "k \<noteq> K_end" and "literal_ok k m"
  shows "lexeme_ok src \<lparr>lx_kind = k, lx_text = m, lx_start = start, lx_end = start + length m\<rparr>"
proof -
  have "slice src start (start + length m) = m" using assms(1) by (simp add: slice_def)
  moreover have "start + length m \<le> length src"
    using assms(1,2) by (metis append_is_Nil_conv drop_all leI length_append length_drop
        less_or_eq_imp_le add_le_cancel_left le_add1 le_add_diff_inverse nat_le_linear)
  ultimately show ?thesis using assms(2-4) by (simp add: lexeme_ok_def)
qed

lemma lex_at_ok:
  assumes "lex_at src i = Inr lx" and "i \<le> length src"
  shows "lexeme_ok src lx \<and> lx_start lx = skip_space src i"
proof -
  let ?start = "skip_space src i"
  let ?rest = "drop ?start src"
  note b = skip_space_bounds [OF assms(2)]
  consider (end_of_input) "?rest = []"
    | (number) "?rest \<noteq> []" "match_number ?rest \<noteq> []"
    | (str) "?rest \<noteq> []" "match_number ?rest = []" "hd ?rest = 34 \<or> hd ?rest = 39"
    | (word) "?rest \<noteq> []" "match_number ?rest = []" "hd ?rest \<noteq> 34" "hd ?rest \<noteq> 39" "match_name ?rest \<noteq> []"
    | (sym) "?rest \<noteq> []" "match_number ?rest = []" "hd ?rest \<noteq> 34" "hd ?rest \<noteq> 39" "match_name ?rest = []"
        "match_operator ?rest \<noteq> []"
    using assms(1) by (auto simp: lex_at_def Let_def split: if_splits)
  then show ?thesis
  proof cases
    case end_of_input
    with assms(1) b show ?thesis by (auto simp: lex_at_def lexeme_ok_def Let_def)
  next
    case number
    obtain r where "?rest = match_number ?rest @ r" using match_number_prefix by blast
    moreover from number assms(1) have "lex_number (match_number ?rest) ?start = Inr lx"
      by (simp add: lex_at_def Let_def)
    ultimately show ?thesis using lex_number_ok [OF number(2)] number(2) lexeme_okI by fastforce
  next
    case str
    then obtain s j where j: "scan_string src (hd ?rest) ?start (?start + 1) [] = Inr (s, j)"
      and lx: "lx = \<lparr>lx_kind = K_string s, lx_text = slice src ?start j, lx_start = ?start, lx_end = j\<rparr>"
      using assms(1) by (auto simp: lex_at_def Let_def split: sum.splits if_splits)
    from scan_string_bounds [OF j] lx show ?thesis by (simp add: lexeme_ok_def)
  next
    case word
    obtain r where "?rest = match_name ?rest @ r" using match_name_prefix by blast
    with word assms(1) show ?thesis
      by (auto simp: lex_at_def Let_def intro!: lexeme_okI split: if_splits)
  next
    case sym
    obtain r where "?rest = match_operator ?rest @ r" using match_operator_prefix by blast
    with sym assms(1) show ?thesis
      by (auto simp: lex_at_def Let_def intro!: lexeme_okI split: if_splits)
  qed
qed

subsection \<open>A quoted string is read back\<close>

text \<open>
  Labels and time zones are written into expressions with \<^verbatim>\<open>JSON.stringify\<close>. The lexer reads
  every such literal back to the string it was written from, quotes, backslashes,
  control characters and lone surrogates included.
\<close>

lemma scan_string_plain:
  "i < length src \<Longrightarrow> src ! i \<noteq> q \<Longrightarrow> src ! i \<noteq> 10 \<Longrightarrow> src ! i \<noteq> 13 \<Longrightarrow> src ! i \<noteq> 92 \<Longrightarrow>
   scan_string src q start i val = scan_string src q start (i + 1) (val @ [src ! i])"
  by (subst scan_string.simps) simp

lemma scan_string_simple:
  "i + 1 < length src \<Longrightarrow> q \<noteq> 92 \<Longrightarrow> src ! i = 92 \<Longrightarrow> simple_escape (src ! (i + 1)) = Some c \<Longrightarrow>
   scan_string src q start i val = scan_string src q start (i + 2) (val @ [c])"
  by (subst scan_string.simps) simp

lemma scan_string_hex:
  "i + 1 < length src \<Longrightarrow> q \<noteq> 92 \<Longrightarrow> src ! i = 92 \<Longrightarrow> src ! (i + 1) = 117 \<Longrightarrow>
   length (slice src (i + 2) (i + 2 + 4)) = 4 \<Longrightarrow> list_all is_hex (slice src (i + 2) (i + 2 + 4)) \<Longrightarrow>
   scan_string src q start i val =
     scan_string src q start (i + 2 + 4) (val @ [parse_hex (slice src (i + 2) (i + 2 + 4))])"
  by (subst scan_string.simps) (simp add: simple_escape_def Let_def del: length_slice)

lemma scan_string_unicode:
  assumes "slice src i (i + 6) = unicode_escape c" and "0 \<le> c" and "c < 65536" and "q \<noteq> 92"
  shows "scan_string src q start i val = scan_string src q start (i + 6) (val @ [c])"
proof -
  let ?h = "[hex_digit (c div 4096 mod 16), hex_digit (c div 256 mod 16),
      hex_digit (c div 16 mod 16), hex_digit (c mod 16)]"
  have len: "i + 6 \<le> length src"
    using arg_cong [OF assms(1), of length] by (simp add: unicode_escape_def)
  have at: "src ! (i + k) = unicode_escape c ! k" if "k < 6" for k
    using slice_nth [of i k "i + 6" src] that len assms(1) by simp
  have 0: "src ! i = 92" and 1: "src ! (i + 1) = 117"
    using at [of 0] at [of 1] by (simp_all add: unicode_escape_def)
  have hex: "slice src (i + 2) (i + 2 + 4) = ?h"
    using drop_slice [of 2 src i "i + 6"] assms(1) by (simp add: unicode_escape_def add.commute)
  have "is_hex (hex_digit (x mod 16))" for x by (rule hex_digit_value [THEN conjunct1]) simp_all
  then have "list_all is_hex ?h" by simp
  then have "scan_string src q start i val =
      scan_string src q start (i + 2 + 4) (val @ [parse_hex (slice src (i + 2) (i + 2 + 4))])"
    using len assms(4) 0 1 hex by (intro scan_string_hex) (simp_all only: hex, simp_all)
  then show ?thesis unfolding hex parse_hex_escape [OF assms(2,3)] by (simp add: add.commute)
qed

lemma slice_middle: "slice (pre @ m @ post) (length pre) (length pre + length m) = m"
  by (simp add: slice_def)

lemma scan_unicode_escape:
  assumes "src = pre @ unicode_escape c @ post" and "0 \<le> c" and "c < 65536"
  shows "scan_string src 34 start (length pre) val =
    scan_string src 34 start (length (pre @ unicode_escape c)) (val @ [c])"
  using scan_string_unicode [of src "length pre" c 34 start val] assms
    slice_middle [of pre "unicode_escape c" post]
  by simp

lemma scan_plain_unit:
  assumes "src = pre @ c # post" and "c \<noteq> 34" and "c \<noteq> 10" and "c \<noteq> 13" and "c \<noteq> 92"
  shows "scan_string src 34 start (length pre) val =
    scan_string src 34 start (length (pre @ [c])) (val @ [c])"
  using scan_string_plain [of "length pre" src 34 start val] assms by (simp add: nth_append)

lemma scan_simple_escape:
  assumes "src = pre @ 92 # e # post" and "simple_escape e = Some c"
  shows "scan_string src 34 start (length pre) val =
    scan_string src 34 start (length (pre @ [92, e])) (val @ [c])"
  using scan_string_simple [of "length pre" src 34 c start val] assms by (simp add: nth_append)

lemma scan_quote_unit:
  assumes "src = pre @ quote_unit c @ post" and "0 \<le> c" and "c < 65536"
  shows "scan_string src 34 start (length pre) val =
    scan_string src 34 start (length (pre @ quote_unit c)) (val @ [c])"
proof (cases "\<exists>e. quote_unit c = [92, e] \<and> simple_escape e = Some c")
  case True
  then obtain e where e: "quote_unit c = [92, e]" "simple_escape e = Some c" by blast
  with scan_simple_escape [of src pre e post c start val] assms(1) show ?thesis by simp
next
  case False
  then have "c \<noteq> 34" "c \<noteq> 92" "c \<noteq> 8" "c \<noteq> 12" "c \<noteq> 10" "c \<noteq> 13" "c \<noteq> 9"
    by (auto simp: quote_unit_def simple_escape_def)
  then show ?thesis
    using scan_unicode_escape [of src pre c post start val] scan_plain_unit [of src pre c post start val] assms
    by (auto simp: quote_unit_def split: if_splits)
qed

lemma scan_quote_units:
  "src = pre @ quote_units s @ 34 # post \<Longrightarrow> code_units s \<Longrightarrow>
   scan_string src 34 start (length pre) val =
     Inr (val @ s, length pre + length (quote_units s) + 1)"
proof (induction s arbitrary: pre val rule: quote_units.induct)
  case 1
  then show ?case by (subst scan_string.simps) (simp add: nth_append)
next
  case (2 c)
  have close: "scan_string src 34 start (length (pre @ m)) (val @ [c]) = Inr (val @ [c], length pre + length m + 1)"
    if "src = pre @ m @ 34 # post" for m
    using that by (subst scan_string.simps) (simp add: nth_append)
  from 2 scan_unicode_escape [of src pre c "34 # post" start val]
    scan_quote_unit [of src pre c "34 # post" start val] close show ?case
    by (auto split: if_splits)
next
  case (3 c d s)
  show ?case
  proof (cases "is_lead c \<and> is_trail d")
    case True
    then have plain: "c \<noteq> 34" "c \<noteq> 10" "c \<noteq> 13" "c \<noteq> 92" "d \<noteq> 34" "d \<noteq> 10" "d \<noteq> 13" "d \<noteq> 92"
      by (auto simp: is_lead_def is_trail_def)
    from True "3.prems" have src: "src = (pre @ [c]) @ d # quote_units s @ 34 # post"
      and src': "src = (pre @ [c, d]) @ quote_units s @ 34 # post" by simp_all
    have "scan_string src 34 start (length pre) val = scan_string src 34 start (length (pre @ [c])) (val @ [c])"
      using src plain by (intro scan_plain_unit) simp_all
    also have "\<dots> = scan_string src 34 start (length ((pre @ [c]) @ [d])) ((val @ [c]) @ [d])"
      by (rule scan_plain_unit [OF src]) (use plain in simp_all)
    also have "\<dots> = Inr ((val @ [c, d]) @ s, length (pre @ [c, d]) + length (quote_units s) + 1)"
      using "3.IH"(1) [OF True src', of "val @ [c, d]"] "3.prems" by simp
    finally show ?thesis using True by simp
  next
    case False
    define m where "m = (if is_lead c \<or> is_trail c then unicode_escape c else quote_unit c)"
    have q: "quote_units (c # d # s) = m @ quote_units (d # s)" using False by (auto simp: m_def)
    with "3.prems" have src: "src = (pre @ m) @ quote_units (d # s) @ 34 # post" by simp
    have "scan_string src 34 start (length pre) val = scan_string src 34 start (length (pre @ m)) (val @ [c])"
      using scan_unicode_escape [of src pre c "quote_units (d # s) @ 34 # post" start val]
        scan_quote_unit [of src pre c "quote_units (d # s) @ 34 # post" start val] src "3.prems"
      by (simp add: m_def)
    also have "\<dots> = Inr ((val @ [c]) @ d # s, length (pre @ m) + length (quote_units (d # s)) + 1)"
      using "3.IH"(2) [OF False _ src, of "val @ [c]"] "3.IH"(3) [OF False _ src, of "val @ [c]"] "3.prems"
      by (cases "is_lead c \<or> is_trail c") simp_all
    finally show ?thesis using q by simp
  qed
qed

lemma lex_json_string:
  assumes "code_units s"
  shows "lex_at (pre @ json_string s @ post) (length pre) =
    Inr \<lparr>lx_kind = K_string s, lx_text = json_string s, lx_start = length pre,
         lx_end = length pre + length (json_string s)\<rparr>"
proof -
  let ?src = "pre @ json_string s @ post"
  have drop: "drop (length pre) ?src = 34 # quote_units s @ 34 # post" by (simp add: json_string_def)
  then have start: "skip_space ?src (length pre) = length pre"
    by (simp add: skip_space_def is_space_def)
  have num: "match_number (drop (length pre) ?src) = []"
    unfolding drop by (simp add: match_number_def match_mantissa_def is_digit_def)
  have scan: "scan_string ?src 34 (length pre) (length pre + 1) [] =
      Inr (s, length pre + length (quote_units s) + 2)"
    using scan_quote_units [of ?src "pre @ [34]" s post "length pre" "[]"] assms
    by (simp add: json_string_def)
  have "slice ?src (length pre) (length pre + length (quote_units s) + 2) = json_string s"
    using slice_middle [of pre "json_string s" post] by (simp add: json_string_def)
  with num scan start show ?thesis
    unfolding lex_at_def Let_def start drop by (simp add: json_string_def)
qed

end
