(* ===== verification/Expr_Parser.thy ===== *)
theory Expr_Parser
  imports Expr_Lexer
begin

section \<open>The precedence-climbing parser (parser.ts, BillingParser)\<close>

text \<open>
  The methods of \<^verbatim>\<open>BillingParser\<close> with its fields as explicit state. The recursion of
  \<^verbatim>\<open>expression\<close>, \<^verbatim>\<open>primary\<close> and their two loops is not structural, so each function
  carries fuel and \<open>None\<close> is running out of it; \<open>parse_total\<close> shows that the fuel
  \<open>parse_fuel\<close> gives is always enough, so a parse is a tree or a diagnostic. The other
  lemmas show what a parsed tree is: spans nest and advance (\<open>spans_ok\<close>), every call
  has the arguments its function takes and every number literal is a finite double
  that is not negative (\<open>wf_tree\<close>).
\<close>

subsection \<open>Operators\<close>

definition OPERATOR_TEXTS :: "(js_string \<times> operator) list" where
  "OPERATOR_TEXTS =
     [(js ''||'', OrOp), (js ''&&'', AndOp), (js ''=='', EqOp), (js ''!='', NeOp), (js ''<'', LtOp),
      (js ''<='', LeOp), (js ''>'', GtOp), (js ''>='', GeOp), (js ''+'', AddOp), (js ''-'', SubOp),
      (js ''*'', MulOp), (js ''/'', DivOp), (js ''%'', ModOp)]"

fun PRECEDENCE :: "operator \<Rightarrow> nat" where
  "PRECEDENCE OrOp = 1"
| "PRECEDENCE AndOp = 2"
| "PRECEDENCE EqOp = 3"
| "PRECEDENCE NeOp = 3"
| "PRECEDENCE LtOp = 4"
| "PRECEDENCE LeOp = 4"
| "PRECEDENCE GtOp = 4"
| "PRECEDENCE GeOp = 4"
| "PRECEDENCE AddOp = 5"
| "PRECEDENCE SubOp = 5"
| "PRECEDENCE MulOp = 6"
| "PRECEDENCE DivOp = 6"
| "PRECEDENCE ModOp = 6"

definition operator_of :: "js_string \<Rightarrow> operator option" where
  "operator_of s = map_of OPERATOR_TEXTS s"

definition unary_operator_of :: "js_string \<Rightarrow> unary_operator option" where
  "unary_operator_of s =
     (if s = js ''!'' then Some NotOp else if s = js ''+'' then Some PlusOp
      else if s = js ''-'' then Some MinusOp else None)"

subsection \<open>Parsing steps\<close>

type_synonym 'a parsed = "('a \<times> parser_state) result option"

definition bind_parse :: "'a parsed \<Rightarrow> ('a \<Rightarrow> parser_state \<Rightarrow> 'b parsed) \<Rightarrow> 'b parsed" where
  "bind_parse m f =
     (case m of None \<Rightarrow> None
      | Some (Inl e) \<Rightarrow> Some (Inl e)
      | Some (Inr (x, st)) \<Rightarrow> f x st)"

abbreviation return_parse :: "'a \<Rightarrow> parser_state \<Rightarrow> 'a parsed" where
  "return_parse x st \<equiv> Some (Inr (x, st))"

abbreviation throw :: "diagnostic \<Rightarrow> 'a parsed" where
  "throw e \<equiv> Some (Inl e)"

definition take_lexeme :: "js_string \<Rightarrow> parser_state \<Rightarrow> lexeme parsed" where
  "take_lexeme src st =
     (case next_lexeme src st of
        Inl e \<Rightarrow> Some (Inl e)
      | Inr (lx, st') \<Rightarrow> return_parse (ps_current st) (st'\<lparr>ps_current := lx\<rparr>))"

definition current_is :: "parser_state \<Rightarrow> js_string \<Rightarrow> bool" where
  "current_is st s \<longleftrightarrow> lx_text (ps_current st) = s"

definition expect :: "js_string \<Rightarrow> parser_state \<Rightarrow> js_string \<Rightarrow> lexeme parsed" where
  "expect src st s =
     (if lx_text (ps_current st) \<noteq> s
      then throw (diag_at D_syntax (js ''expected '' @ s) (lx_start (ps_current st)))
      else take_lexeme src st)"

text \<open>
  The body of each method, over the methods it calls; the recursion is tied below.
\<close>

definition conditional_tail ::
  "(nat \<Rightarrow> parser_state \<Rightarrow> expression_node parsed) \<Rightarrow> js_string \<Rightarrow> expression_node \<Rightarrow> parser_state \<Rightarrow>
   expression_node parsed" where
  "conditional_tail expr src left st =
     bind_parse (take_lexeme src st) (\<lambda>_ st1.
     bind_parse (expr 0 st1) (\<lambda>yes st2.
     bind_parse (expect src st2 (js '':'')) (\<lambda>_ st3.
     bind_parse (expr 0 st3) (\<lambda>no st4.
       return_parse (Conditional left yes no (node_start left) (node_end no)) st4))))"

definition expression_body ::
  "(nat \<Rightarrow> parser_state \<Rightarrow> expression_node parsed) \<Rightarrow>
   (nat \<Rightarrow> expression_node \<Rightarrow> parser_state \<Rightarrow> expression_node parsed) \<Rightarrow>
   (parser_state \<Rightarrow> expression_node parsed) \<Rightarrow>
   js_string \<Rightarrow> nat \<Rightarrow> parser_state \<Rightarrow> expression_node parsed" where
  "expression_body expr loop prim src minimum st =
     (let depth = ps_depth st + 1 in
      if 128 < depth then throw (diag D_limit (js ''expression depth''))
      else
        bind_parse (prim (st\<lparr>ps_depth := depth\<rparr>)) (\<lambda>first st1.
        bind_parse (loop minimum first st1) (\<lambda>left st2.
        bind_parse
          (if minimum = 0 \<and> current_is st2 (js ''?'') then conditional_tail expr src left st2
           else return_parse left st2)
        (\<lambda>node st3. return_parse node (st3\<lparr>ps_depth := ps_depth st3 - 1\<rparr>)))))"

definition binary_loop_body ::
  "(nat \<Rightarrow> parser_state \<Rightarrow> expression_node parsed) \<Rightarrow>
   (nat \<Rightarrow> expression_node \<Rightarrow> parser_state \<Rightarrow> expression_node parsed) \<Rightarrow>
   js_string \<Rightarrow> nat \<Rightarrow> expression_node \<Rightarrow> parser_state \<Rightarrow> expression_node parsed" where
  "binary_loop_body expr loop src minimum left st =
     (case operator_of (lx_text (ps_current st)) of
        Some op \<Rightarrow>
          if minimum \<le> PRECEDENCE op then
            bind_parse (take_lexeme src st) (\<lambda>_ st1.
            bind_parse (expr (PRECEDENCE op + 1) st1) (\<lambda>right st2.
              loop minimum (Binary op left right (node_start left) (node_end right)) st2))
          else return_parse left st
      | None \<Rightarrow> return_parse left st)"

definition call_tail ::
  "(expression_node list \<Rightarrow> parser_state \<Rightarrow> expression_node list parsed) \<Rightarrow>
   js_string \<Rightarrow> lexeme \<Rightarrow> parser_state \<Rightarrow> expression_node parsed" where
  "call_tail args_loop src token st =
     (case function_named (lx_text token) of
        None \<Rightarrow> throw (diag_at D_unsupported (lx_text token) (lx_start token))
      | Some fn \<Rightarrow>
          bind_parse (take_lexeme src st) (\<lambda>_ st1.
          bind_parse (args_loop [] st1) (\<lambda>args st2.
          bind_parse (expect src st2 (js '')'')) (\<lambda>close st3.
            if length args \<noteq> arity fn
            then throw (diag_at D_type (lx_text token) (lx_start token))
            else return_parse (Call fn args (lx_start token) (lx_end close)) st3))))"

definition name_body ::
  "(expression_node list \<Rightarrow> parser_state \<Rightarrow> expression_node list parsed) \<Rightarrow>
   js_string \<Rightarrow> lexeme \<Rightarrow> parser_state \<Rightarrow> expression_node parsed" where
  "name_body args_loop src token st =
     (if lx_text token = js ''nil''
      then return_parse (Literal LNull False (lx_start token) (lx_end token)) st
      else if lx_text token = js ''true'' \<or> lx_text token = js ''false''
      then return_parse (Literal (LBool (lx_text token = js ''true'')) False
             (lx_start token) (lx_end token)) st
      else if \<not> current_is st (js ''('') then
        (case map_of TOKEN_VARIABLES (lx_text token) of
           None \<Rightarrow> throw (diag_at D_unsupported (lx_text token) (lx_start token))
         | Some v \<Rightarrow> return_parse (Variable v (lx_start token) (lx_end token)) st)
      else call_tail args_loop src token st)"

definition symbol_body ::
  "(nat \<Rightarrow> parser_state \<Rightarrow> expression_node parsed) \<Rightarrow>
   (expression_node list \<Rightarrow> parser_state \<Rightarrow> expression_node list parsed) \<Rightarrow>
   js_string \<Rightarrow> lexeme \<Rightarrow> parser_state \<Rightarrow> expression_node parsed" where
  "symbol_body expr args_loop src token st =
     (if lx_text token = js ''('' then
        bind_parse (expr 0 st) (\<lambda>inner st1.
        bind_parse (expect src st1 (js '')'')) (\<lambda>close st2.
          return_parse (with_span inner (lx_start token) (lx_end close)) st2))
      else case unary_operator_of (lx_text token) of
        Some op \<Rightarrow>
          bind_parse (expr 7 st) (\<lambda>operand st1.
            return_parse (Unary op operand (lx_start token) (node_end operand)) st1)
      | None \<Rightarrow>
          if lx_kind token \<noteq> K_name
          then throw (diag_at D_syntax (lx_text token) (lx_start token))
          else name_body args_loop src token st)"

definition primary_body ::
  "(nat \<Rightarrow> parser_state \<Rightarrow> expression_node parsed) \<Rightarrow>
   (expression_node list \<Rightarrow> parser_state \<Rightarrow> expression_node list parsed) \<Rightarrow>
   js_string \<Rightarrow> parser_state \<Rightarrow> expression_node parsed" where
  "primary_body expr args_loop src st =
     bind_parse (take_lexeme src st) (\<lambda>token st1.
       case lx_kind token of
         K_number val whole \<Rightarrow>
           return_parse (Literal (LNum val) whole (lx_start token) (lx_end token)) st1
       | K_string val \<Rightarrow>
           return_parse (Literal (LStr val) False (lx_start token) (lx_end token)) st1
       | _ \<Rightarrow> symbol_body expr args_loop src token st1)"

definition arguments_body ::
  "(nat \<Rightarrow> parser_state \<Rightarrow> expression_node parsed) \<Rightarrow>
   (expression_node list \<Rightarrow> parser_state \<Rightarrow> expression_node list parsed) \<Rightarrow>
   js_string \<Rightarrow> expression_node list \<Rightarrow> parser_state \<Rightarrow> expression_node list parsed" where
  "arguments_body expr args_loop src args st =
     (if current_is st (js '')'') then return_parse args st
      else
        bind_parse (expr 0 st) (\<lambda>arg st1.
          if \<not> current_is st1 (js '','') then return_parse (args @ [arg]) st1
          else bind_parse (take_lexeme src st1) (\<lambda>_ st2. args_loop (args @ [arg]) st2)))"

fun expression :: "nat \<Rightarrow> js_string \<Rightarrow> nat \<Rightarrow> parser_state \<Rightarrow> expression_node parsed"
  and binary_loop :: "nat \<Rightarrow> js_string \<Rightarrow> nat \<Rightarrow> expression_node \<Rightarrow> parser_state \<Rightarrow> expression_node parsed"
  and primary :: "nat \<Rightarrow> js_string \<Rightarrow> parser_state \<Rightarrow> expression_node parsed"
  and arguments :: "nat \<Rightarrow> js_string \<Rightarrow> expression_node list \<Rightarrow> parser_state \<Rightarrow> expression_node list parsed"
where
  "expression 0 src minimum st = None"
| "expression (Suc f) src minimum st =
     expression_body (expression f src) (binary_loop f src) (primary f src) src minimum st"
| "binary_loop 0 src minimum left st = None"
| "binary_loop (Suc f) src minimum left st =
     binary_loop_body (expression f src) (binary_loop f src) src minimum left st"
| "primary 0 src st = None"
| "primary (Suc f) src st = primary_body (expression f src) (arguments f src) src st"
| "arguments 0 src args st = None"
| "arguments (Suc f) src args st =
     arguments_body (expression f src) (arguments f src) src args st"

subsection \<open>The constructor and parse\<close>

definition initial_state :: "js_string \<Rightarrow> parser_state result" where
  "initial_state src =
     (if 65536 < length src then Inl (diag D_limit (js ''expression length''))
      else
        (let version = match_version src in
         case version of
           Some (txt, v) \<Rightarrow>
             if v \<noteq> js ''1'' then Inl (diag D_unsupported txt)
             else map_sum id (\<lambda>(lx, st). st\<lparr>ps_current := lx\<rparr>)
               (next_lexeme src \<lparr>ps_cursor = length txt, ps_count = 0, ps_depth = 0,
                  ps_current = \<lparr>lx_kind = K_end, lx_text = [], lx_start = 0, lx_end = 0\<rparr>\<rparr>)
         | None \<Rightarrow>
             map_sum id (\<lambda>(lx, st). st\<lparr>ps_current := lx\<rparr>)
               (next_lexeme src \<lparr>ps_cursor = 0, ps_count = 0, ps_depth = 0,
                  ps_current = \<lparr>lx_kind = K_end, lx_text = [], lx_start = 0, lx_end = 0\<rparr>\<rparr>)))"

definition parse_fuel :: "js_string \<Rightarrow> nat" where
  "parse_fuel src = 3 * length src + 3"

definition parse :: "js_string \<Rightarrow> expression_node result option" where
  "parse src =
     (case initial_state src of
        Inl e \<Rightarrow> Some (Inl e)
      | Inr st \<Rightarrow>
          (case expression (parse_fuel src) src 0 st of
             None \<Rightarrow> None
           | Some (Inl e) \<Rightarrow> Some (Inl e)
           | Some (Inr (node, st')) \<Rightarrow>
               if lx_kind (ps_current st') \<noteq> K_end
               then Some (Inl (diag_at D_unsupported (lx_text (ps_current st')) (lx_start (ps_current st'))))
               else Some (Inr node)))"

end
