(* ===== verification/Parser_Correct.thy ===== *)
theory Parser_Correct
  imports Expr_Parser
begin

section \<open>Parsing is total and builds well-formed trees\<close>

text \<open>
  One induction over the fuel shows both halves of the correctness of the parser: with
  the fuel \<open>parse_fuel\<close> gives, no method runs out of it, and a tree a method returns
  is well formed (\<open>wf_tree\<close>): its spans nest and advance, every call has the arguments
  its function takes and every number literal is a finite double without a sign. The judgement \<open>parses\<close>
  carries both, with one rule per way of composing steps.
\<close>

subsection \<open>What a parsed tree is\<close>

text \<open>The nodes of a list lie one after the other between two positions.\<close>

fun spans_in :: "nat \<Rightarrow> expression_node list \<Rightarrow> nat \<Rightarrow> bool" where
  "spans_in lo [] hi \<longleftrightarrow> lo \<le> hi"
| "spans_in lo (n # ns) hi \<longleftrightarrow> lo \<le> node_start n \<and> spans_in (node_end n) ns hi"

fun node_ok :: "expression_node \<Rightarrow> bool" where
  "node_ok (Literal (LNum v) whole _ _) \<longleftrightarrow> is_double v \<and> is_unsigned v \<and> (whole \<longrightarrow> is_safe_integer v)"
| "node_ok (Call f args _ _) \<longleftrightarrow> length args = arity f"
| "node_ok _ \<longleftrightarrow> True"

fun wf_tree :: "expression_node \<Rightarrow> bool" where
  "wf_tree n \<longleftrightarrow> node_start n < node_end n \<and> spans_in (node_start n) (children n) (node_end n) \<and>
     node_ok n \<and> list_all wf_tree (children n)"

declare wf_tree.simps [simp del]

lemma wf_tree_child: "wf_tree n \<Longrightarrow> m \<in> set (children n) \<Longrightarrow> wf_tree m"
  by (simp add: wf_tree.simps [of n] list_all_iff)

lemma wf_tree_span: "wf_tree n \<Longrightarrow> node_start n < node_end n"
  by (simp add: wf_tree.simps [of n])

lemma spans_in_weaken: "spans_in lo ns hi \<Longrightarrow> lo' \<le> lo \<Longrightarrow> hi \<le> hi' \<Longrightarrow> spans_in lo' ns hi'"
  by (induction ns arbitrary: lo lo') auto

lemma spans_in_snoc:
  "spans_in lo ns hi \<Longrightarrow> hi \<le> node_start n \<Longrightarrow> spans_in lo (ns @ [n]) (node_end n)"
  by (induction ns arbitrary: lo) auto

lemma node_ok_with_span [simp]: "node_ok (with_span n s e) = node_ok n"
proof (cases n)
  case (Literal v i s' e')
  then show ?thesis by (cases v) simp_all
qed simp_all

lemma wf_with_span:
  "wf_tree n \<Longrightarrow> s \<le> node_start n \<Longrightarrow> node_end n \<le> e \<Longrightarrow> wf_tree (with_span n s e)"
  by (auto simp: wf_tree.simps elim: spans_in_weaken)

lemma spans_in_bounds:
  "spans_in lo ns hi \<Longrightarrow> (\<And>n. n \<in> set ns \<Longrightarrow> node_start n < node_end n) \<Longrightarrow> lo \<le> hi"
proof (induction ns arbitrary: lo)
  case (Cons m ns)
  then have "node_end m \<le> hi" by simp
  moreover have "node_start m < node_end m" using Cons.prems(2) by simp
  ultimately show ?case using Cons.prems(1) by simp
qed simp

lemma spans_in_member:
  assumes "spans_in lo ns hi" and "\<And>n. n \<in> set ns \<Longrightarrow> node_start n < node_end n" and "n \<in> set ns"
  shows "lo \<le> node_start n \<and> node_end n \<le> hi"
  using assms
proof (induction ns arbitrary: lo)
  case (Cons m ns)
  have m: "node_start m < node_end m" and hi: "node_end m \<le> hi"
    using Cons.prems(1,2) spans_in_bounds [of "node_end m" ns hi] by simp_all
  show ?case
  proof (cases "n = m")
    case False
    with Cons.prems Cons.IH [of "node_end m"] have "node_end m \<le> node_start n \<and> node_end n \<le> hi" by simp
    with m Cons.prems(1) show ?thesis by simp
  qed (use Cons.prems(1) hi in simp)
qed simp

subsection \<open>The judgement\<close>

definition state_ok :: "js_string \<Rightarrow> parser_state \<Rightarrow> bool" where
  "state_ok src st \<longleftrightarrow> lexeme_ok src (ps_current st) \<and> ps_cursor st = lx_end (ps_current st)"

abbreviation pos :: "parser_state \<Rightarrow> nat" where
  "pos st \<equiv> lx_start (ps_current st)"

definition parses ::
  "bool \<Rightarrow> js_string \<Rightarrow> nat \<Rightarrow> ('a \<Rightarrow> parser_state \<Rightarrow> bool) \<Rightarrow> 'a parsed \<Rightarrow> bool" where
  "parses enough src d Q m \<longleftrightarrow>
     (enough \<longrightarrow> m \<noteq> None) \<and>
     (\<forall>x st. m = Some (Inr (x, st)) \<longrightarrow> state_ok src st \<and> ps_depth st = d \<and> Q x st)"

lemma parses_None [simp]: "\<not> enough \<Longrightarrow> parses enough src d Q None"
  by (simp add: parses_def)

lemma parses_throw [simp]: "parses enough src d Q (throw e)"
  by (simp add: parses_def)

lemma parses_return:
  "state_ok src st \<Longrightarrow> ps_depth st = d \<Longrightarrow> Q x st \<Longrightarrow> parses enough src d Q (return_parse x st)"
  by (simp add: parses_def)

lemma parses_bind:
  assumes "parses enough src d R m"
    and "\<And>x st. state_ok src st \<Longrightarrow> ps_depth st = d \<Longrightarrow> R x st \<Longrightarrow> parses enough src d' Q (f x st)"
  shows "parses enough src d' Q (bind_parse m f)"
proof (cases m)
  case None
  with assms(1) show ?thesis by (simp add: parses_def bind_parse_def)
next
  case (Some r)
  show ?thesis
  proof (cases r)
    case (Inr y)
    then obtain x st where "m = Some (Inr (x, st))" using Some by (cases y) simp
    with assms(1) have "state_ok src st \<and> ps_depth st = d \<and> R x st \<and> bind_parse m f = f x st"
      by (simp add: parses_def bind_parse_def)
    then show ?thesis using assms(2) by simp
  qed (simp add: Some bind_parse_def)
qed

lemma parses_weaken:
  "parses enough' src d R m \<Longrightarrow> (enough \<Longrightarrow> enough') \<Longrightarrow> (\<And>x st. state_ok src st \<Longrightarrow> R x st \<Longrightarrow> Q x st) \<Longrightarrow>
   parses enough src d Q m"
  by (auto simp: parses_def)

lemma state_ok_pos: "state_ok src st \<Longrightarrow> pos st \<le> length src"
  by (auto simp: state_ok_def lexeme_ok_def split: if_splits)

lemma state_ok_depth [simp]: "state_ok src (st\<lparr>ps_depth := n\<rparr>) = state_ok src st"
  by (simp add: state_ok_def)

text \<open>Taking a lexeme.\<close>

definition taken :: "parser_state \<Rightarrow> lexeme \<Rightarrow> parser_state \<Rightarrow> bool" where
  "taken st token st' \<longleftrightarrow> token = ps_current st \<and> lx_end token \<le> pos st'"

lemma parses_take:
  assumes "state_ok src st"
  shows "parses enough src (ps_depth st) (taken st) (take_lexeme src st)"
proof (cases "next_lexeme src st")
  case (Inr r)
  then obtain lx where lx: "lex_at src (ps_cursor st) = Inr lx"
    and r: "r = (lx, st\<lparr>ps_count := ps_count st + 1, ps_cursor := lx_end lx\<rparr>)"
    by (auto simp: next_lexeme_def Let_def split: if_splits sum.splits)
  have le: "ps_cursor st \<le> length src" using assms by (auto simp: state_ok_def lexeme_ok_def)
  from lex_at_ok [OF lx le] skip_space_bounds [OF le] assms Inr r show ?thesis
    by (simp add: take_lexeme_def parses_def taken_def state_ok_def)
qed (simp add: take_lexeme_def)

lemma parses_expect:
  "state_ok src st \<Longrightarrow>
   parses enough src (ps_depth st) (\<lambda>tok st'. taken st tok st' \<and> lx_text tok = s) (expect src st s)"
  using parses_take [of src st enough] by (auto simp: expect_def parses_def taken_def)

lemma state_ok_text: "state_ok src st \<Longrightarrow> lx_text (ps_current st) \<noteq> [] \<Longrightarrow> pos st < lx_end (ps_current st)"
  by (auto simp: state_ok_def lexeme_ok_def split: if_splits)

subsection \<open>The methods\<close>

text \<open>
  What each method promises, over the fuel that is enough for it: the fuel depends on
  the text that is left after the current lexeme starts.
\<close>

definition expression_spec ::
  "js_string \<Rightarrow> nat \<Rightarrow> (nat \<Rightarrow> parser_state \<Rightarrow> expression_node parsed) \<Rightarrow> bool" where
  "expression_spec src f expr \<longleftrightarrow>
     (\<forall>minimum st. state_ok src st \<longrightarrow>
        parses (3 * (length src - pos st) + 3 \<le> f) src (ps_depth st)
          (\<lambda>n st'. wf_tree n \<and> node_start n = pos st \<and> node_end n \<le> pos st') (expr minimum st))"

definition loop_spec ::
  "js_string \<Rightarrow> nat \<Rightarrow> (nat \<Rightarrow> expression_node \<Rightarrow> parser_state \<Rightarrow> expression_node parsed) \<Rightarrow> bool" where
  "loop_spec src f loop \<longleftrightarrow>
     (\<forall>minimum left st. state_ok src st \<and> wf_tree left \<and> node_end left \<le> pos st \<longrightarrow>
        parses (3 * (length src - pos st) + 3 \<le> f) src (ps_depth st)
          (\<lambda>n st'. wf_tree n \<and> node_start n = node_start left \<and> node_end n \<le> pos st')
          (loop minimum left st))"

definition primary_spec :: "js_string \<Rightarrow> nat \<Rightarrow> (parser_state \<Rightarrow> expression_node parsed) \<Rightarrow> bool" where
  "primary_spec src f prim \<longleftrightarrow>
     (\<forall>st. state_ok src st \<longrightarrow>
        parses (3 * (length src - pos st) + 2 \<le> f) src (ps_depth st)
          (\<lambda>n st'. wf_tree n \<and> node_start n = pos st \<and> node_end n \<le> pos st') (prim st))"

definition arguments_spec ::
  "js_string \<Rightarrow> nat \<Rightarrow> (expression_node list \<Rightarrow> parser_state \<Rightarrow> expression_node list parsed) \<Rightarrow> bool" where
  "arguments_spec src f args_loop \<longleftrightarrow>
     (\<forall>lo args st. state_ok src st \<and> list_all wf_tree args \<and> spans_in lo args (pos st) \<longrightarrow>
        parses (3 * (length src - pos st) + 4 \<le> f) src (ps_depth st)
          (\<lambda>ns st'. list_all wf_tree ns \<and> spans_in lo ns (pos st') \<and> pos st \<le> pos st')
          (args_loop args st))"

lemma expression_specD:
  assumes "expression_spec src f expr" and "state_ok src st"
    and "enough \<Longrightarrow> 3 * (length src - pos st) + 3 \<le> f" and "ps_depth st = d"
  shows "parses enough src d
    (\<lambda>n st'. wf_tree n \<and> node_start n = pos st \<and> node_end n \<le> pos st') (expr minimum st)"
  using assms by (auto simp: expression_spec_def intro: parses_weaken)

lemma loop_specD:
  assumes "loop_spec src f loop" and "state_ok src st" and "wf_tree left" and "node_end left \<le> pos st"
    and "enough \<Longrightarrow> 3 * (length src - pos st) + 3 \<le> f" and "ps_depth st = d"
  shows "parses enough src d
    (\<lambda>n st'. wf_tree n \<and> node_start n = node_start left \<and> node_end n \<le> pos st') (loop minimum left st)"
  using assms by (auto simp: loop_spec_def intro: parses_weaken)

lemma arguments_specD:
  assumes "arguments_spec src f args_loop" and "state_ok src st" and "list_all wf_tree args"
    and "spans_in lo args (pos st)"
    and "enough \<Longrightarrow> 3 * (length src - pos st) + 4 \<le> f" and "ps_depth st = d"
  shows "parses enough src d
    (\<lambda>ns st'. list_all wf_tree ns \<and> spans_in lo ns (pos st') \<and> pos st \<le> pos st') (args_loop args st)"
  using assms by (auto simp: arguments_spec_def intro: parses_weaken)

lemma parses_takeD: "state_ok src st \<Longrightarrow> ps_depth st = d \<Longrightarrow> parses enough src d (taken st) (take_lexeme src st)"
  using parses_take by blast

lemma parses_expectD:
  "state_ok src st \<Longrightarrow> ps_depth st = d \<Longrightarrow>
   parses enough src d (\<lambda>tok st'. taken st tok st' \<and> lx_text tok = s) (expect src st s)"
  using parses_expect by blast

lemma conditional_tail_ok:
  assumes e: "expression_spec src f expr" and st: "state_ok src st" "ps_depth st = d"
    and left: "wf_tree left" "node_end left \<le> pos st"
    and enough: "enough \<Longrightarrow> 3 * (length src - pos st) + 3 \<le> f"
  shows "parses enough src d (\<lambda>n st'. wf_tree n \<and> node_start n = node_start left \<and> node_end n \<le> pos st')
    (conditional_tail expr src left st)"
  unfolding conditional_tail_def
proof (rule parses_bind [OF parses_takeD [OF st]])
  fix q st1
  assume st1: "state_ok src st1" "ps_depth st1 = d" and "taken st q st1"
  then have p1: "pos st \<le> pos st1"
    using st by (auto simp: taken_def state_ok_def lexeme_ok_def split: if_splits)
  show "parses enough src d (\<lambda>n st'. wf_tree n \<and> node_start n = node_start left \<and> node_end n \<le> pos st')
     (bind_parse (expr 0 st1) (\<lambda>yes st2. bind_parse (expect src st2 (js '':'')) (\<lambda>_ st3.
       bind_parse (expr 0 st3) (\<lambda>no st4.
         return_parse (Conditional left yes no (node_start left) (node_end no)) st4))))"
  proof (rule parses_bind [OF expression_specD [OF e st1(1) _ st1(2)]])
    show "enough \<Longrightarrow> 3 * (length src - pos st1) + 3 \<le> f" using enough p1 by fastforce
  next
    fix yes st2
    assume st2: "state_ok src st2" "ps_depth st2 = d"
      and yes: "wf_tree yes \<and> node_start yes = pos st1 \<and> node_end yes \<le> pos st2"
    show "parses enough src d (\<lambda>n st'. wf_tree n \<and> node_start n = node_start left \<and> node_end n \<le> pos st')
       (bind_parse (expect src st2 (js '':'')) (\<lambda>_ st3. bind_parse (expr 0 st3) (\<lambda>no st4.
         return_parse (Conditional left yes no (node_start left) (node_end no)) st4)))"
    proof (rule parses_bind [OF parses_expectD [OF st2]])
      fix c st3
      assume st3: "state_ok src st3" "ps_depth st3 = d" and c: "taken st2 c st3 \<and> lx_text c = js '':''"
      then have p3: "pos st2 < pos st3"
        using state_ok_text [OF st2(1)] by (auto simp: taken_def)
      show "parses enough src d (\<lambda>n st'. wf_tree n \<and> node_start n = node_start left \<and> node_end n \<le> pos st')
         (bind_parse (expr 0 st3) (\<lambda>no st4.
           return_parse (Conditional left yes no (node_start left) (node_end no)) st4))"
      proof (rule parses_bind [OF expression_specD [OF e st3(1) _ st3(2)]])
        show "enough \<Longrightarrow> 3 * (length src - pos st3) + 3 \<le> f"
          using enough p1 p3 yes wf_tree_span [of yes] by fastforce
      qed (use p1 p3 yes left in \<open>auto intro!: parses_return simp: wf_tree.simps [of left]
           wf_tree.simps [of yes] wf_tree.simps\<close>)
    qed
  qed
qed

lemma wf_binary:
  "wf_tree a \<Longrightarrow> wf_tree b \<Longrightarrow> node_end a \<le> node_start b \<Longrightarrow>
   wf_tree (Binary op a b (node_start a) (node_end b))"
  using wf_tree_span [of a] wf_tree_span [of b] by (simp add: wf_tree.simps [of "Binary _ _ _ _ _"])

lemma wf_unary:
  "wf_tree a \<Longrightarrow> s < node_start a \<Longrightarrow> wf_tree (Unary op a s (node_end a))"
  using wf_tree_span [of a] by (simp add: wf_tree.simps [of "Unary _ _ _ _"])

lemma binary_loop_ok:
  assumes e: "expression_spec src f expr" and l: "loop_spec src f loop"
  shows "loop_spec src (Suc f) (binary_loop_body expr loop src)"
  unfolding loop_spec_def
proof (intro allI impI, elim conjE)
  fix minimum left st
  assume st: "state_ok src st" and left: "wf_tree left" "node_end left \<le> pos st"
  let ?Q = "\<lambda>n st'. wf_tree n \<and> node_start n = node_start left \<and> node_end n \<le> pos st'"
  let ?t = "3 * (length src - pos st) + 3 \<le> Suc f"
  show "parses ?t src (ps_depth st) ?Q (binary_loop_body expr loop src minimum left st)"
  proof (cases "operator_of (lx_text (ps_current st))")
    case (Some op)
    have "lx_text (ps_current st) \<noteq> []"
      using Some by (auto simp: operator_of_def OPERATOR_TEXTS_def dest: map_of_SomeD)
    note p = state_ok_text [OF st this]
    have step: "parses ?t src (ps_depth st) ?Q (bind_parse (take_lexeme src st) (\<lambda>_ st1.
        bind_parse (expr (PRECEDENCE op + 1) st1) (\<lambda>right st2.
          loop minimum (Binary op left right (node_start left) (node_end right)) st2)))"
    proof (rule parses_bind [OF parses_takeD [OF st refl]])
      fix q st1
      assume st1: "state_ok src st1" "ps_depth st1 = ps_depth st" and "taken st q st1"
      with p have p1: "pos st < pos st1" by (auto simp: taken_def)
      show "parses ?t src (ps_depth st) ?Q (bind_parse (expr (PRECEDENCE op + 1) st1) (\<lambda>right st2.
          loop minimum (Binary op left right (node_start left) (node_end right)) st2))"
      proof (rule parses_bind [OF expression_specD [OF e st1(1) _ st1(2)]])
        show "?t \<Longrightarrow> 3 * (length src - pos st1) + 3 \<le> f"
          using p1 state_ok_pos [OF st1(1)] by linarith
        fix right st2
        assume st2: "state_ok src st2" "ps_depth st2 = ps_depth st"
          and right: "wf_tree right \<and> node_start right = pos st1 \<and> node_end right \<le> pos st2"
        have "node_start right < node_end right" using right wf_tree_span by blast
        moreover have "wf_tree (Binary op left right (node_start left) (node_end right))"
          using right left p1 by (intro wf_binary) auto
        moreover have "?t \<Longrightarrow> 3 * (length src - pos st2) + 3 \<le> f"
          using right p1 state_ok_pos [OF st2(1)] calculation(1) by linarith
        ultimately show "parses ?t src (ps_depth st) ?Q
            (loop minimum (Binary op left right (node_start left) (node_end right)) st2)"
          using loop_specD [OF l st2(1) _ _ _ st2(2), of "Binary op left right (node_start left) (node_end right)"
              ?t minimum] right by simp
      qed
    qed
    show ?thesis
    proof (cases "minimum \<le> PRECEDENCE op")
      case True
      with step Some show ?thesis by (simp add: binary_loop_body_def)
    next
      case False
      then have "binary_loop_body expr loop src minimum left st = return_parse left st"
        using Some by (simp add: binary_loop_body_def)
      then show ?thesis using st left by (simp add: parses_return)
    qed
  qed (use st left in \<open>simp add: binary_loop_body_def parses_return\<close>)
qed

lemma expression_ok:
  assumes e: "expression_spec src f expr" and l: "loop_spec src f loop" and p: "primary_spec src f prim"
  shows "expression_spec src (Suc f) (expression_body expr loop prim src)"
  unfolding expression_spec_def
proof (intro allI impI)
  fix minimum :: nat and st
  assume st: "state_ok src st"
  let ?t = "3 * (length src - pos st) + 3 \<le> Suc f"
  let ?Q = "\<lambda>n st'. wf_tree n \<and> node_start n = pos st \<and> node_end n \<le> pos st'"
  let ?d = "ps_depth st + 1"
  let ?st = "st\<lparr>ps_depth := ?d\<rparr>"
  let ?tail = "\<lambda>left st2. bind_parse
      (if minimum = 0 \<and> current_is st2 (js ''?'') then conditional_tail expr src left st2
       else return_parse left st2)
      (\<lambda>node st3. return_parse node (st3\<lparr>ps_depth := ps_depth st3 - 1\<rparr>))"
  have prim: "parses ?t src ?d ?Q (prim ?st)"
  proof (rule parses_weaken [where enough' = "3 * (length src - pos st) + 2 \<le> f"])
    have "parses (3 * (length src - pos ?st) + 2 \<le> f) src (ps_depth ?st)
       (\<lambda>n st'. wf_tree n \<and> node_start n = pos ?st \<and> node_end n \<le> pos st') (prim ?st)"
      by (rule p [unfolded primary_spec_def, rule_format]) (use st in simp)
    then show "parses (3 * (length src - pos st) + 2 \<le> f) src ?d ?Q (prim ?st)" by simp
  qed auto
  have body: "parses ?t src (ps_depth st) ?Q (bind_parse (prim ?st) (\<lambda>first st1.
      bind_parse (loop minimum first st1) ?tail))"
  proof (rule parses_bind [OF prim])
    fix n st1
    assume st1: "state_ok src st1" "ps_depth st1 = ?d"
      and n: "wf_tree n \<and> node_start n = pos st \<and> node_end n \<le> pos st1"
    then have p1: "pos st < pos st1" using wf_tree_span [of n] by simp
    show "parses ?t src (ps_depth st) ?Q (bind_parse (loop minimum n st1) ?tail)"
    proof (rule parses_bind [OF loop_specD [OF l st1(1) _ _ _ st1(2)]])
      show "?t \<Longrightarrow> 3 * (length src - pos st1) + 3 \<le> f"
        using p1 state_ok_pos [OF st1(1)] by linarith
      fix left st2
      assume st2: "state_ok src st2" "ps_depth st2 = ?d"
        and left: "wf_tree left \<and> node_start left = node_start n \<and> node_end left \<le> pos st2"
      then have p2: "pos st < pos st2" using wf_tree_span [of left] n by simp
      then have t2: "?t \<Longrightarrow> 3 * (length src - pos st2) + 3 \<le> f"
        using state_ok_pos [OF st2(1)] by linarith
      have "parses ?t src ?d ?Q (if minimum = 0 \<and> current_is st2 (js ''?'')
          then conditional_tail expr src left st2 else return_parse left st2)"
        using conditional_tail_ok [OF e st2 _ _ t2, of left] parses_return [OF st2, of ?Q left] left n
        by simp
      then show "parses ?t src (ps_depth st) ?Q (?tail left st2)"
        by (rule parses_bind) (auto intro: parses_return)
    qed (use n in auto)
  qed
  then show "parses ?t src (ps_depth st) ?Q (expression_body expr loop prim src minimum st)"
    by (simp add: expression_body_def Let_def)
qed

lemma arguments_ok:
  assumes e: "expression_spec src f expr" and a: "arguments_spec src f args_loop"
  shows "arguments_spec src (Suc f) (arguments_body expr args_loop src)"
  unfolding arguments_spec_def
proof (intro allI impI, elim conjE)
  fix lo args st
  assume st: "state_ok src st" and args: "list_all wf_tree args" "spans_in lo args (pos st)"
  let ?t = "3 * (length src - pos st) + 4 \<le> Suc f"
  let ?Q = "\<lambda>ns st'. list_all wf_tree ns \<and> spans_in lo ns (pos st') \<and> pos st \<le> pos st'"
  have step: "parses ?t src (ps_depth st) ?Q (bind_parse (expr 0 st) (\<lambda>arg st1.
      if \<not> current_is st1 (js '','') then return_parse (args @ [arg]) st1
      else bind_parse (take_lexeme src st1) (\<lambda>_ st2. args_loop (args @ [arg]) st2)))"
  proof (rule parses_bind [OF expression_specD [OF e st _ refl]])
    fix arg st1
    assume st1: "state_ok src st1" "ps_depth st1 = ps_depth st"
      and arg: "wf_tree arg \<and> node_start arg = pos st \<and> node_end arg \<le> pos st1"
    have lt: "pos st < pos st1" using arg wf_tree_span [of arg] by simp
    have ns: "list_all wf_tree (args @ [arg])" "spans_in lo (args @ [arg]) (pos st1)"
      using args arg spans_in_snoc [of lo args "pos st" arg] by (auto elim: spans_in_weaken)
    have "parses ?t src (ps_depth st) ?Q
        (bind_parse (take_lexeme src st1) (\<lambda>_ st2. args_loop (args @ [arg]) st2))"
      if comma: "current_is st1 (js '','')"
    proof (rule parses_bind [OF parses_takeD [OF st1]])
      fix c st2
      assume st2: "state_ok src st2" "ps_depth st2 = ps_depth st" and "taken st1 c st2"
      then have p: "pos st1 < pos st2"
        using state_ok_text [OF st1(1)] comma by (auto simp: taken_def current_is_def)
      show "parses ?t src (ps_depth st) ?Q (args_loop (args @ [arg]) st2)"
      proof (rule parses_weaken)
        show "parses ?t src (ps_depth st) (\<lambda>ns st'. list_all wf_tree ns \<and> spans_in lo ns (pos st') \<and>
            pos st2 \<le> pos st') (args_loop (args @ [arg]) st2)"
          by (rule arguments_specD [OF a st2(1) ns(1) _ _ st2(2)])
            (use ns(2) p lt state_ok_pos [OF st2(1)] in \<open>auto elim: spans_in_weaken\<close>)
      qed (use p lt in auto)
    qed
    then show "parses ?t src (ps_depth st) ?Q (if \<not> current_is st1 (js '','') then return_parse (args @ [arg]) st1
        else bind_parse (take_lexeme src st1) (\<lambda>_ st2. args_loop (args @ [arg]) st2))"
      using parses_return [OF st1, of ?Q "args @ [arg]"] ns lt by simp
  qed simp
  then show "parses ?t src (ps_depth st) ?Q (arguments_body expr args_loop src args st)"
    using st args by (simp add: arguments_body_def parses_return)
qed

text \<open>A lexeme that starts a primary and the state after it.\<close>

definition after_token :: "js_string \<Rightarrow> nat \<Rightarrow> lexeme \<Rightarrow> parser_state \<Rightarrow> bool" where
  "after_token src d token st \<longleftrightarrow>
     state_ok src st \<and> ps_depth st = d \<and> lexeme_ok src token \<and> lx_end token \<le> pos st"

abbreviation primary_post :: "lexeme \<Rightarrow> expression_node \<Rightarrow> parser_state \<Rightarrow> bool" where
  "primary_post token n st' \<equiv> wf_tree n \<and> node_start n = lx_start token \<and> node_end n \<le> pos st'"

lemma call_tail_ok:
  assumes a: "arguments_spec src f args_loop" and tok: "after_token src d token st" "lx_kind token \<noteq> K_end"
    and par: "current_is st (js ''('')"
    and enough: "enough \<Longrightarrow> 3 * (length src - pos st) + 1 \<le> f"
  shows "parses enough src d (primary_post token) (call_tail args_loop src token st)"
proof (cases "function_named (lx_text token)")
  case (Some fn)
  have st: "state_ok src st" "ps_depth st = d" and tk: "lx_start token < lx_end token" "lx_end token \<le> pos st"
    using tok by (auto simp: after_token_def lexeme_ok_def)
  have "parses enough src d (primary_post token) (bind_parse (take_lexeme src st) (\<lambda>_ st1.
      bind_parse (args_loop [] st1) (\<lambda>args st2. bind_parse (expect src st2 (js '')'')) (\<lambda>close st3.
        if length args \<noteq> arity fn then throw (diag_at D_type (lx_text token) (lx_start token))
        else return_parse (Call fn args (lx_start token) (lx_end close)) st3))))"
  proof (rule parses_bind [OF parses_takeD [OF st]])
    fix q st1
    assume st1: "state_ok src st1" "ps_depth st1 = d" and "taken st q st1"
    then have p1: "pos st < pos st1"
      using state_ok_text [OF st(1)] par by (auto simp: taken_def current_is_def)
    have "parses enough src d (\<lambda>ns st'. list_all wf_tree ns \<and> spans_in (lx_end token) ns (pos st') \<and>
        pos st1 \<le> pos st') (args_loop [] st1)"
      by (rule arguments_specD [OF a st1(1) _ _ _ st1(2)])
        (use tk p1 enough state_ok_pos [OF st1(1)] in force)+
    then show "parses enough src d (primary_post token) (bind_parse (args_loop [] st1) (\<lambda>args st2.
        bind_parse (expect src st2 (js '')'')) (\<lambda>close st3.
        if length args \<noteq> arity fn then throw (diag_at D_type (lx_text token) (lx_start token))
        else return_parse (Call fn args (lx_start token) (lx_end close)) st3)))"
    proof (rule parses_bind)
      fix args st2
      assume st2: "state_ok src st2" "ps_depth st2 = d"
        and args: "list_all wf_tree args \<and> spans_in (lx_end token) args (pos st2) \<and> pos st1 \<le> pos st2"
      have "wf_tree (Call fn args (lx_start token) (lx_end close))"
        if "taken st2 close st3" "lx_text close = js '')''" "length args = arity fn" for close st3
      proof -
        have "pos st2 < lx_end close"
          using that st2(1) state_ok_text [of src st2] by (auto simp: taken_def)
        with args tk p1 that(3) show ?thesis
          by (auto simp: wf_tree.simps [of "Call _ _ _ _"] elim!: spans_in_weaken)
      qed
      then show "parses enough src d (primary_post token) (bind_parse (expect src st2 (js '')'')) (\<lambda>close st3.
          if length args \<noteq> arity fn then throw (diag_at D_type (lx_text token) (lx_start token))
          else return_parse (Call fn args (lx_start token) (lx_end close)) st3))"
        by (intro parses_bind [OF parses_expectD [OF st2]]) (auto simp: taken_def intro!: parses_return)
    qed
  qed
  with Some show ?thesis by (simp add: call_tail_def)
qed (simp add: call_tail_def)

lemma leaf_ok:
  "after_token src d token st \<Longrightarrow> lx_kind token \<noteq> K_end \<Longrightarrow> children n = [] \<Longrightarrow> node_ok n \<Longrightarrow>
   node_start n = lx_start token \<Longrightarrow> node_end n = lx_end token \<Longrightarrow>
   parses enough src d (primary_post token) (return_parse n st)"
  by (auto simp: after_token_def lexeme_ok_def wf_tree.simps [of n] intro!: parses_return)

lemma name_body_ok:
  assumes a: "arguments_spec src f args_loop" and tok: "after_token src d token st" "lx_kind token \<noteq> K_end"
    and enough: "enough \<Longrightarrow> 3 * (length src - pos st) + 1 \<le> f"
  shows "parses enough src d (primary_post token) (name_body args_loop src token st)"
  using call_tail_ok [OF a tok _ enough] leaf_ok [OF tok]
  by (auto simp: name_body_def split: option.split)

lemma symbol_body_ok:
  assumes e: "expression_spec src f expr" and a: "arguments_spec src f args_loop"
    and tok: "after_token src d token st"
    and enough: "enough \<Longrightarrow> lx_kind token \<noteq> K_end \<Longrightarrow> 3 * (length src - pos st) + 3 \<le> f"
  shows "parses enough src d (primary_post token) (symbol_body expr args_loop src token st)"
proof (cases "lx_kind token = K_end")
  case True
  then have "lx_text token = []" using tok by (auto simp: after_token_def lexeme_ok_def)
  with True show ?thesis by (simp add: symbol_body_def unary_operator_of_def)
next
  case False
  have st: "state_ok src st" "ps_depth st = d" and tk: "lx_start token < lx_end token" "lx_end token \<le> pos st"
    using tok False by (auto simp: after_token_def lexeme_ok_def)
  have enough3: "enough \<Longrightarrow> 3 * (length src - pos st) + 3 \<le> f" using enough False by simp
  have "parses enough src d (primary_post token) (bind_parse (expr 0 st) (\<lambda>inner st1.
      bind_parse (expect src st1 (js '')'')) (\<lambda>close st2.
        return_parse (with_span inner (lx_start token) (lx_end close)) st2)))"
  proof (rule parses_bind [OF expression_specD [OF e st(1) enough3 st(2)]])
    fix n st1
    assume st1: "state_ok src st1" "ps_depth st1 = d"
      and n: "wf_tree n \<and> node_start n = pos st \<and> node_end n \<le> pos st1"
    have "pos st1 \<le> lx_end (ps_current st1)"
      using st1(1) by (auto simp: state_ok_def lexeme_ok_def split: if_splits)
    then show "parses enough src d (primary_post token) (bind_parse (expect src st1 (js '')'')) (\<lambda>close st2.
        return_parse (with_span n (lx_start token) (lx_end close)) st2))"
      using n tk by (intro parses_bind [OF parses_expectD [OF st1]])
        (auto simp: taken_def intro!: parses_return wf_with_span)
  qed
  moreover have "parses enough src d (primary_post token) (bind_parse (expr 7 st) (\<lambda>operand st1.
      return_parse (Unary op operand (lx_start token) (node_end operand)) st1))" for op
    by (rule parses_bind [OF expression_specD [OF e st(1) enough3 st(2)]])
      (use tk in \<open>auto intro!: parses_return wf_unary\<close>)
  moreover have "parses enough src d (primary_post token) (name_body args_loop src token st)"
    by (rule name_body_ok [OF a tok False]) (use enough3 in simp)
  ultimately show ?thesis by (simp add: symbol_body_def split: option.split)
qed

lemma primary_ok:
  assumes e: "expression_spec src f expr" and a: "arguments_spec src f args_loop"
  shows "primary_spec src (Suc f) (primary_body expr args_loop src)"
  unfolding primary_spec_def
proof (intro allI impI)
  fix st
  assume st: "state_ok src st"
  let ?t = "3 * (length src - pos st) + 2 \<le> Suc f"
  show "parses ?t src (ps_depth st) (\<lambda>n st'. wf_tree n \<and> node_start n = pos st \<and> node_end n \<le> pos st')
      (primary_body expr args_loop src st)"
    unfolding primary_body_def
  proof (rule parses_bind [OF parses_takeD [OF st refl]])
    fix token st1
    assume st1: "state_ok src st1" "ps_depth st1 = ps_depth st" and t: "taken st token st1"
    then have tok: "after_token src (ps_depth st) token st1" and eq: "lx_start token = pos st"
      using st by (auto simp: after_token_def taken_def state_ok_def)
    have literal: "literal_ok (lx_kind token) (lx_text token)"
      using tok unfolding after_token_def lexeme_ok_def by blast
    have enough: "?t \<Longrightarrow> lx_kind token \<noteq> K_end \<Longrightarrow> 3 * (length src - pos st1) + 3 \<le> f"
      using tok eq state_ok_pos [OF st1(1)] by (auto simp: after_token_def lexeme_ok_def)
    have "parses ?t src (ps_depth st) (primary_post token) (case lx_kind token of
         K_number val whole \<Rightarrow> return_parse (Literal (LNum val) whole (lx_start token) (lx_end token)) st1
       | K_string val \<Rightarrow> return_parse (Literal (LStr val) False (lx_start token) (lx_end token)) st1
       | _ \<Rightarrow> symbol_body expr args_loop src token st1)"
      using symbol_body_ok [OF e a tok enough] leaf_ok [OF tok] literal
      by (cases "lx_kind token") simp_all
    then show "parses ?t src (ps_depth st) (\<lambda>n st'. wf_tree n \<and> node_start n = pos st \<and> node_end n \<le> pos st')
      (case lx_kind token of
         K_number val whole \<Rightarrow> return_parse (Literal (LNum val) whole (lx_start token) (lx_end token)) st1
       | K_string val \<Rightarrow> return_parse (Literal (LStr val) False (lx_start token) (lx_end token)) st1
       | _ \<Rightarrow> symbol_body expr args_loop src token st1)"
      by (simp add: eq)
  qed
qed

subsection \<open>Parsing\<close>

lemma methods_ok:
  "expression_spec src f (expression f src) \<and> loop_spec src f (binary_loop f src) \<and>
   primary_spec src f (primary f src) \<and> arguments_spec src f (arguments f src)"
proof (induction f)
  case 0
  show ?case
    by (simp add: expression_spec_def loop_spec_def primary_spec_def arguments_spec_def)
next
  case (Suc f)
  note e = Suc.IH [THEN conjunct1] and r = Suc.IH [THEN conjunct2]
  note l = r [THEN conjunct1] and p = r [THEN conjunct2, THEN conjunct1] and a = r [THEN conjunct2, THEN conjunct2]
  have eta: "expression (Suc f) src = expression_body (expression f src) (binary_loop f src) (primary f src) src"
    "binary_loop (Suc f) src = binary_loop_body (expression f src) (binary_loop f src) src"
    "primary (Suc f) src = primary_body (expression f src) (arguments f src) src"
    "arguments (Suc f) src = arguments_body (expression f src) (arguments f src) src"
    by (intro ext; simp)+
  show ?case unfolding eta
    by (intro conjI expression_ok [OF e l p] binary_loop_ok [OF e l] primary_ok [OF e a] arguments_ok [OF e a])
qed

lemma length_span: "length xs = length (takeWhile Q xs) + length (dropWhile Q xs)"
  by (induction xs) simp_all

lemma match_version_length: "match_version src = Some (txt, v) \<Longrightarrow> length txt \<le> length src"
proof -
  define r where "r = dropWhile is_space src"
  assume "match_version src = Some (txt, v)"
  then have r: "r \<noteq> []" and d: "dropWhile is_digit (tl r) \<noteq> []"
    and tx: "txt = takeWhile is_space src @ [118] @ takeWhile is_digit (tl r) @ [58]"
    unfolding match_version_def Let_def r_def
    by (metis option.distinct(1) option.inject prod.inject)+
  have "length src = length (takeWhile is_space src) + length r" unfolding r_def by (rule length_span)
  moreover have "length r = Suc (length (tl r))" using r by (cases r) simp_all
  moreover note length_span [of "tl r" is_digit]
  moreover have "0 < length (dropWhile is_digit (tl r))" using d by blast
  moreover have "length txt = length (takeWhile is_space src) + length (takeWhile is_digit (tl r)) + 2"
    unfolding tx by simp
  ultimately show ?thesis by linarith
qed

lemma initial_state_ok: "initial_state src = Inr st \<Longrightarrow> state_ok src st \<and> ps_depth st = 0"
proof -
  assume ini: "initial_state src = Inr st"
  have *: "state_ok src st \<and> ps_depth st = 0"
    if "map_sum id (\<lambda>(lx, st). st\<lparr>ps_current := lx\<rparr>) (next_lexeme src s) = Inr st"
      "ps_cursor s \<le> length src" "ps_depth s = 0" for s
    using that lex_at_ok [of src "ps_cursor s"]
    by (auto simp: next_lexeme_def Let_def state_ok_def split: if_splits sum.splits)
  show ?thesis
  proof (cases "match_version src")
    case None
    with ini show ?thesis
      by (intro * [of "\<lparr>ps_cursor = 0, ps_count = 0, ps_depth = 0,
            ps_current = \<lparr>lx_kind = K_end, lx_text = [], lx_start = 0, lx_end = 0\<rparr>\<rparr>"])
        (simp_all add: initial_state_def split: if_splits)
  next
    case (Some r)
    with ini match_version_length [of src "fst r" "snd r"] show ?thesis
      by (intro * [of "\<lparr>ps_cursor = length (fst r), ps_count = 0, ps_depth = 0,
            ps_current = \<lparr>lx_kind = K_end, lx_text = [], lx_start = 0, lx_end = 0\<rparr>\<rparr>"])
        (simp_all add: initial_state_def split: if_splits prod.splits)
  qed
qed

theorem parse_total: "\<exists>r. parse src = Some r"
proof (cases "initial_state src")
  case (Inr st)
  note st = initial_state_ok [OF Inr]
  have "expression (parse_fuel src) src 0 st \<noteq> None"
    using methods_ok [of src "parse_fuel src"] st
    unfolding expression_spec_def parses_def parse_fuel_def
    by (metis add_le_cancel_right diff_le_self mult_le_mono2)
  with Inr show ?thesis by (auto simp: parse_def split: sum.splits option.splits)
qed (simp add: parse_def)

theorem parse_wf: "parse src = Some (Inr n) \<Longrightarrow> wf_tree n \<and> node_end n \<le> length src"
proof -
  assume "parse src = Some (Inr n)"
  then obtain st st' where st: "initial_state src = Inr st"
    and n: "expression (parse_fuel src) src 0 st = Some (Inr (n, st'))"
    by (auto simp: parse_def split: sum.splits option.splits if_splits)
  have "state_ok src st' \<and> wf_tree n \<and> node_end n \<le> pos st'"
    using methods_ok [of src "parse_fuel src"] initial_state_ok [OF st] n
    unfolding expression_spec_def parses_def by blast
  then show ?thesis using state_ok_pos by fastforce
qed

text \<open>
  Two nodes of a parsed tree that are equal are the same node: siblings have disjoint
  spans. So a map keyed by the identity of nodes is a map keyed by nodes.
\<close>

lemma descendant_span:
  "wf_tree n \<Longrightarrow> m \<in> set (postorder n) \<Longrightarrow>
   wf_tree m \<and> node_start n \<le> node_start m \<and> node_end m \<le> node_end n"
proof (induction n rule: measure_induct_rule [where f = size])
  case (less n)
  show ?case
  proof (cases "m = n")
    case False
    with less.prems(2) obtain c where c: "c \<in> set (children n)" "m \<in> set (postorder c)"
      by (auto simp: postorder.simps [of n])
    have "wf_tree c" using less.prems(1) c(1) by (rule wf_tree_child)
    moreover have "node_start n \<le> node_start c \<and> node_end c \<le> node_end n"
    proof (rule spans_in_member [OF _ _ c(1)])
      show "spans_in (node_start n) (children n) (node_end n)"
        using less.prems(1) by (simp add: wf_tree.simps [of n])
    qed (use less.prems(1) wf_tree_span wf_tree_child in blast)
    ultimately show ?thesis using less.IH [OF children_smaller [OF c(1)] _ c(2)] by auto
  qed (use less.prems in simp)
qed

lemma postorder_size: "m \<in> set (postorder n) \<Longrightarrow> m = n \<or> size m < size n"
proof (induction n rule: measure_induct_rule [where f = size])
  case (less n)
  show ?case
  proof (cases "m = n")
    case False
    with less.prems obtain c where c: "c \<in> set (children n)" "m \<in> set (postorder c)"
      by (auto simp: postorder.simps [of n])
    with less.IH [OF children_smaller [OF c(1)] c(2)] children_smaller [OF c(1)] show ?thesis by auto
  qed simp
qed

lemma distinct_siblings:
  assumes "spans_in lo ns hi" and "\<And>n. n \<in> set ns \<Longrightarrow> wf_tree n \<and> distinct (postorder n)"
  shows "distinct (concat (map postorder ns))"
  using assms
proof (induction ns arbitrary: lo)
  case (Cons n ns)
  have "set (postorder n) \<inter> set (postorder m) = {}" if m: "m \<in> set ns" for m
  proof -
    have "node_end n \<le> node_start m"
      using spans_in_member [of "node_end n" ns hi m] Cons.prems m wf_tree_span by auto
    then show ?thesis
      using descendant_span [of n] descendant_span [of m] Cons.prems(2) m wf_tree_span by fastforce
  qed
  then show ?case using Cons by auto
qed simp

lemma distinct_postorder: "wf_tree n \<Longrightarrow> distinct (postorder n)"
proof (induction n rule: measure_induct_rule [where f = size])
  case (less n)
  have "distinct (concat (map postorder (children n)))"
  proof (rule distinct_siblings)
    show "spans_in (node_start n) (children n) (node_end n)"
      using less.prems by (simp add: wf_tree.simps [of n])
    show "wf_tree c \<and> distinct (postorder c)" if "c \<in> set (children n)" for c
      using that less children_smaller wf_tree_child by blast
  qed
  moreover have "n \<notin> set (postorder c)" if "c \<in> set (children n)" for c
    using postorder_size [of n c] children_smaller [OF that] by auto
  ultimately show ?case by (auto simp: postorder.simps [of n])
qed

end
