(* ===== verification/Type_Check.thy ===== *)
theory Type_Check
  imports Parser_Correct
begin

section \<open>The type check (parser.ts, checkExpressionTypes)\<close>

text \<open>
  The check walks the tree with \<open>visitExpression\<close> and keeps the type of every node it
  has left in a map. The typing relation \<open>typed\<close> is the abstract specification: its
  rules are one per form of node. The check accepts a tree of at most 256 levels
  exactly when the tree has a type in the relation, and the type is unique
  (\<open>check_iff_typed\<close>, \<open>typed_unique\<close>).
\<close>

datatype expression_type = Ty_number | Ty_string | Ty_boolean | Ty_nil | Ty_dynamic

text \<open>
  The information order of types: a node of dynamic type is accepted wherever a type is
  expected, any other node only where its own type is.
\<close>

instantiation expression_type :: order
begin

definition less_eq_expression_type :: "expression_type \<Rightarrow> expression_type \<Rightarrow> bool" where
  "t \<le> t' \<longleftrightarrow> t = t' \<or> t' = Ty_dynamic"

definition less_expression_type :: "expression_type \<Rightarrow> expression_type \<Rightarrow> bool" where
  "t < t' \<longleftrightarrow> t \<noteq> t' \<and> t' = Ty_dynamic"

instance
  by standard (auto simp: less_eq_expression_type_def less_expression_type_def)

end

lemma type_le_simps [simp]:
  "t \<le> Ty_dynamic" "Ty_number \<le> t \<longleftrightarrow> t = Ty_number \<or> t = Ty_dynamic"
  "Ty_string \<le> t \<longleftrightarrow> t = Ty_string \<or> t = Ty_dynamic"
  "Ty_boolean \<le> t \<longleftrightarrow> t = Ty_boolean \<or> t = Ty_dynamic"
  by (auto simp: less_eq_expression_type_def)

fun type_text :: "expression_type \<Rightarrow> js_string" where
  "type_text Ty_number = js ''number''"
| "type_text Ty_string = js ''string''"
| "type_text Ty_boolean = js ''boolean''"
| "type_text Ty_nil = js ''nil''"
| "type_text Ty_dynamic = js ''dynamic''"

subsection \<open>The visitor\<close>

type_synonym type_map = "expression_node \<Rightarrow> expression_type option"

definition requireType :: "type_map \<Rightarrow> expression_node \<Rightarrow> expression_type \<Rightarrow> unit result" where
  "requireType types child expected =
     (let actual = types child in
      if actual \<noteq> Some expected \<and> actual \<noteq> Some Ty_dynamic
      then Inl (diag_at D_type (type_text expected @ js '' operand'') (node_start child))
      else Inr ())"

fun literal_type :: "literal_value \<Rightarrow> expression_type" where
  "literal_type LNull = Ty_nil"
| "literal_type (LNum _) = Ty_number"
| "literal_type (LStr _) = Ty_string"
| "literal_type (LBool _) = Ty_boolean"

definition require_all :: "type_map \<Rightarrow> expression_node list \<Rightarrow> expression_type \<Rightarrow> unit result" where
  "require_all types args expected = fold_result (\<lambda>arg _. requireType types arg expected) args ()"

fun takes_string :: "billing_function \<Rightarrow> bool" where
  "takes_string F_param = True"
| "takes_string F_header = True"
| "takes_string F_u = True"
| "takes_string (F_time _) = True"
| "takes_string _ = False"

fun is_logical :: "operator \<Rightarrow> bool" where
  "is_logical OrOp = True"
| "is_logical AndOp = True"
| "is_logical _ = False"

fun is_comparison :: "operator \<Rightarrow> bool" where
  "is_comparison EqOp = True"
| "is_comparison NeOp = True"
| "is_comparison LtOp = True"
| "is_comparison LeOp = True"
| "is_comparison GtOp = True"
| "is_comparison GeOp = True"
| "is_comparison _ = False"

definition call_result_type ::
  "type_map \<Rightarrow> billing_function \<Rightarrow> expression_node list \<Rightarrow> expression_type result" where
  "call_result_type types f args =
     (case f of
        F_header \<Rightarrow> Inr Ty_string
      | F_has \<Rightarrow> bind_result (requireType types (args ! 1) Ty_string) (\<lambda>_. Inr Ty_boolean)
      | F_tier \<Rightarrow>
          bind_result (requireType types (args ! 0) Ty_string) (\<lambda>_.
          bind_result (requireType types (args ! 1) Ty_number) (\<lambda>_. Inr Ty_number))
      | F_time _ \<Rightarrow> Inr Ty_number
      | F_param \<Rightarrow> Inr Ty_dynamic
      | F_u \<Rightarrow> Inr Ty_dynamic
      | _ \<Rightarrow> bind_result (require_all types args Ty_number) (\<lambda>_. Inr Ty_number))"

definition node_type :: "type_map \<Rightarrow> expression_node \<Rightarrow> expression_type result" where
  "node_type types node =
     (case node of
        Literal v _ _ _ \<Rightarrow> Inr (literal_type v)
      | Variable _ _ _ \<Rightarrow> Inr Ty_number
      | Unary op operand _ _ \<Rightarrow>
          (let t = (if op = NotOp then Ty_boolean else Ty_number) in
           bind_result (requireType types operand t) (\<lambda>_. Inr t))
      | Conditional c yes no _ _ \<Rightarrow>
          bind_result (requireType types c Ty_boolean) (\<lambda>_.
            if types yes = types no
            then Inr (case types yes of Some t \<Rightarrow> t | None \<Rightarrow> Ty_dynamic) else Inr Ty_dynamic)
      | Binary op left right _ _ \<Rightarrow>
          if is_logical op then
            bind_result (requireType types left Ty_boolean) (\<lambda>_.
            bind_result (requireType types right Ty_boolean) (\<lambda>_. Inr Ty_boolean))
          else if is_comparison op then Inr Ty_boolean
          else if op = AddOp \<and> types left = Some Ty_string \<and> types right = Some Ty_string
          then Inr Ty_string
          else
            bind_result (requireType types left Ty_number) (\<lambda>_.
            bind_result (requireType types right Ty_number) (\<lambda>_. Inr Ty_number))
      | Call f args _ _ \<Rightarrow>
          bind_result (if takes_string f then requireType types (args ! 0) Ty_string else Inr ())
            (\<lambda>_. call_result_type types f args))"

definition type_visitor :: "expression_node \<Rightarrow> type_map \<Rightarrow> type_map result" where
  "type_visitor node types = bind_result (node_type types node) (\<lambda>t. Inr (types(node \<mapsto> t)))"

definition checkExpressionTypes :: "expression_node \<Rightarrow> unit result" where
  "checkExpressionTypes ast =
     bind_result (visitExpression ast type_visitor (\<lambda>_. None)) (\<lambda>_. Inr ())"

subsection \<open>The typing relation\<close>

fun call_typed :: "billing_function \<Rightarrow> expression_type list \<Rightarrow> expression_type \<Rightarrow> bool" where
  "call_typed F_header [t] r \<longleftrightarrow> Ty_string \<le> t \<and> r = Ty_string"
| "call_typed F_param [t] r \<longleftrightarrow> Ty_string \<le> t \<and> r = Ty_dynamic"
| "call_typed F_u [t] r \<longleftrightarrow> Ty_string \<le> t \<and> r = Ty_dynamic"
| "call_typed (F_time _) [t] r \<longleftrightarrow> Ty_string \<le> t \<and> r = Ty_number"
| "call_typed F_has [_, t] r \<longleftrightarrow> Ty_string \<le> t \<and> r = Ty_boolean"
| "call_typed F_tier [t, t'] r \<longleftrightarrow> Ty_string \<le> t \<and> Ty_number \<le> t' \<and> r = Ty_number"
| "call_typed F_min [t, t'] r \<longleftrightarrow> Ty_number \<le> t \<and> Ty_number \<le> t' \<and> r = Ty_number"
| "call_typed F_max [t, t'] r \<longleftrightarrow> Ty_number \<le> t \<and> Ty_number \<le> t' \<and> r = Ty_number"
| "call_typed F_fixed [t] r \<longleftrightarrow> Ty_number \<le> t \<and> r = Ty_number"
| "call_typed F_abs [t] r \<longleftrightarrow> Ty_number \<le> t \<and> r = Ty_number"
| "call_typed F_ceil [t] r \<longleftrightarrow> Ty_number \<le> t \<and> r = Ty_number"
| "call_typed F_floor [t] r \<longleftrightarrow> Ty_number \<le> t \<and> r = Ty_number"
| "call_typed _ _ _ \<longleftrightarrow> False"

inductive typed :: "expression_node \<Rightarrow> expression_type \<Rightarrow> bool" where
  t_literal: "typed (Literal v i s e) (literal_type v)"
| t_variable: "typed (Variable v s e) Ty_number"
| t_not: "typed a t \<Longrightarrow> Ty_boolean \<le> t \<Longrightarrow> typed (Unary NotOp a s e) Ty_boolean"
| t_sign: "typed a t \<Longrightarrow> Ty_number \<le> t \<Longrightarrow> op \<noteq> NotOp \<Longrightarrow> typed (Unary op a s e) Ty_number"
| t_cond: "typed c tc \<Longrightarrow> Ty_boolean \<le> tc \<Longrightarrow> typed a ta \<Longrightarrow> typed b tb \<Longrightarrow>
    typed (Conditional c a b s e) (if ta = tb then ta else Ty_dynamic)"
| t_logical: "typed a ta \<Longrightarrow> typed b tb \<Longrightarrow> Ty_boolean \<le> ta \<Longrightarrow> Ty_boolean \<le> tb \<Longrightarrow> is_logical op \<Longrightarrow>
    typed (Binary op a b s e) Ty_boolean"
| t_comparison: "typed a ta \<Longrightarrow> typed b tb \<Longrightarrow> is_comparison op \<Longrightarrow> typed (Binary op a b s e) Ty_boolean"
| t_concat: "typed a Ty_string \<Longrightarrow> typed b Ty_string \<Longrightarrow> typed (Binary AddOp a b s e) Ty_string"
| t_arith: "typed a ta \<Longrightarrow> typed b tb \<Longrightarrow> Ty_number \<le> ta \<Longrightarrow> Ty_number \<le> tb \<Longrightarrow>
    \<not> is_logical op \<Longrightarrow> \<not> is_comparison op \<Longrightarrow> typed (Binary op a b s e) Ty_number"
| t_call: "list_all2 typed args ts \<Longrightarrow> call_typed f ts t \<Longrightarrow> typed (Call f args s e) t"
monos list_all2_mono

inductive_cases typed_literalE [elim!]: "typed (Literal v i s e) t"
inductive_cases typed_variableE [elim!]: "typed (Variable v s e) t"
inductive_cases typed_unaryE [elim]: "typed (Unary op a s e) t"
inductive_cases typed_binaryE [elim]: "typed (Binary op a b s e) t"
inductive_cases typed_condE [elim]: "typed (Conditional c a b s e) t"
inductive_cases typed_callE [elim]: "typed (Call f args s e) t"

lemma call_typed_unique: "call_typed f ts t \<Longrightarrow> call_typed f ts t' \<Longrightarrow> t = t'"
  by (cases "(f, ts, t)" rule: call_typed.cases) auto

lemma list_all2_unique:
  "list_all2 (\<lambda>x y. \<forall>y'. R x y' \<longrightarrow> y = y') xs ys \<Longrightarrow> list_all2 R xs ys' \<Longrightarrow> ys = ys'"
proof (induction xs ys arbitrary: ys' rule: list_all2_induct)
  case (Cons x xs y ys)
  then show ?case by (cases ys') auto
qed simp

lemma typed_unique: "typed n t \<Longrightarrow> typed n t' \<Longrightarrow> t = t'"
proof (induction n t arbitrary: t' rule: typed.induct)
  case (t_call args ts f t s e)
  from t_call.prems obtain ts' where ts': "list_all2 typed args ts'" "call_typed f ts' t'" by auto
  have "list_all2 (\<lambda>x y. \<forall>y'. typed x y' \<longrightarrow> y = y') args ts"
    using t_call.IH by (rule list_all2_mono) blast
  with ts'(1) have "ts = ts'" using list_all2_unique by blast
  with ts'(2) t_call.hyps show ?case using call_typed_unique by blast
next
  case (t_cond c tc a ta b tb s e)
  from t_cond.prems show ?case by (rule typed_condE) (use t_cond.IH in auto)
next
  case (t_logical a ta b tb op s e)
  from t_logical.prems show ?case by (rule typed_binaryE) (use t_logical in auto)
next
  case (t_concat a b s e)
  from t_concat.prems show ?case by (rule typed_binaryE) (use t_concat in auto)
next
  case (t_arith a ta b tb op s e)
  from t_arith.prems show ?case by (rule typed_binaryE) (use t_arith in auto)
next
  case (t_comparison a ta b tb op s e)
  from t_comparison.prems show ?case
    by (rule typed_binaryE) (use t_comparison in \<open>auto elim: is_logical.elims\<close>)
next
  case (t_not a t s e)
  from t_not.prems show ?case by (rule typed_unaryE) auto
next
  case (t_sign a t op s e)
  from t_sign.prems show ?case by (rule typed_unaryE) (use t_sign.hyps in auto)
next
  case (t_literal v i s e)
  then show ?case by blast
next
  case (t_variable v s e)
  then show ?case by blast
qed

subsection \<open>The check decides the relation\<close>

definition sound_map :: "type_map \<Rightarrow> bool" where
  "sound_map types \<longleftrightarrow> (\<forall>m t. types m = Some t \<longrightarrow> typed m t)"

lemma sound_mapD: "sound_map types \<Longrightarrow> types m = Some t \<Longrightarrow> typed m t"
  by (simp add: sound_map_def)

lemma requireType_Inr [simp]: "types c = Some t \<Longrightarrow> requireType types c x = Inr u \<longleftrightarrow> x \<le> t"
  by (auto simp: requireType_def Let_def less_eq_expression_type_def)

lemma require_all_simps [simp]:
  "require_all types [] x = Inr ()"
  "require_all types (a # args) x = bind_result (requireType types a x) (\<lambda>_. require_all types args x)"
  by (simp_all add: require_all_def)

lemma length_one: "length xs = Suc 0 \<longleftrightarrow> (\<exists>x. xs = [x])"
  by (auto simp: length_Suc_conv)

lemma length_two: "length xs = 2 \<longleftrightarrow> (\<exists>x y. xs = [x, y])"
  by (auto simp: length_Suc_conv numeral_2_eq_2)

lemma typed_call_iff:
  assumes "sound_map types" and "\<And>c. c \<in> set args \<Longrightarrow> types c = Some (\<tau> c)"
  shows "typed (Call f args s e) t \<longleftrightarrow> call_typed f (map \<tau> args) t"
proof -
  have c: "typed c (\<tau> c)" if "c \<in> set args" for c using assms that sound_mapD by blast
  then have "list_all2 typed args (map \<tau> args)" by (simp add: list_all2_conv_all_nth)
  moreover have "ts = map \<tau> args" if "list_all2 typed args ts" for ts
  proof (rule list_all2_unique [symmetric, OF _ that])
    show "list_all2 (\<lambda>x y. \<forall>y'. typed x y' \<longrightarrow> y = y') args (map \<tau> args)"
      using c typed_unique [OF c] by (auto simp: list_all2_map2 intro: list.rel_refl_strong)
  qed
  ultimately show ?thesis by (metis t_call typed_callE)
qed

lemma call_node_type:
  assumes "\<And>c. c \<in> set args \<Longrightarrow> types c = Some (\<tau> c)" and "length args = arity f"
  shows "node_type types (Call f args s e) = Inr t \<longleftrightarrow> call_typed f (map \<tau> args) t"
  using assms
  by (cases f) (auto simp: node_type_def call_result_type_def length_one length_two result_simps)

lemma node_type_typed:
  assumes sound: "sound_map types" and known: "\<And>c. c \<in> set (children n) \<Longrightarrow> \<exists>t. types c = Some t"
    and ok: "node_ok n"
  shows "node_type types n = Inr t \<longleftrightarrow> typed n t"
proof (cases n)
  case (Literal v i s e)
  then show ?thesis by (auto simp: node_type_def intro: t_literal)
next
  case (Variable v s e)
  then show ?thesis by (auto simp: node_type_def intro: t_variable)
next
  case (Call f args s e)
  define \<tau> where "\<tau> c = the (types c)" for c
  have \<tau>: "types c = Some (\<tau> c)" if "c \<in> set args" for c
    using known [of c] that Call by (auto simp: \<tau>_def)
  show ?thesis
    using typed_call_iff [where args = args and f = f and s = s and e = e and t = t, OF sound \<tau>]
      call_node_type [where args = args and f = f and s = s and e = e and t = t, OF \<tau>] ok Call by simp
next
  case (Unary op a s e)
  then obtain ta where a: "types a = Some ta" using known by auto
  then have d: "typed a ta" using sound sound_mapD by blast
  have u: "typed a x \<Longrightarrow> x = ta" for x using d typed_unique by blast
  have "typed n t \<longleftrightarrow>
     (if op = NotOp then Ty_boolean \<le> ta \<and> t = Ty_boolean else Ty_number \<le> ta \<and> t = Ty_number)" (is "_ = ?r")
  proof
    assume "typed n t"
    then have "typed (Unary op a s e) t" using Unary by simp
    then show ?r by (cases rule: typed_unaryE) (use u in auto)
  qed (use d Unary in \<open>auto intro: t_not t_sign split: if_splits\<close>)
  with a Unary show ?thesis by (auto simp: node_type_def result_simps)
next
  case (Conditional c a b s e)
  then obtain tc ta tb where ty: "types c = Some tc" "types a = Some ta" "types b = Some tb"
    using known by (metis children.simps(6) list.set_intros(1,2))
  then have d: "typed c tc" "typed a ta" "typed b tb" using sound sound_mapD by blast+
  have u: "typed c x \<Longrightarrow> x = tc" "typed a x \<Longrightarrow> x = ta" "typed b x \<Longrightarrow> x = tb" for x
    using d typed_unique by blast+
  have "typed n t \<longleftrightarrow> Ty_boolean \<le> tc \<and> t = (if ta = tb then ta else Ty_dynamic)" (is "_ = ?r")
  proof
    assume "typed n t"
    then have "typed (Conditional c a b s e) t" using Conditional by simp
    then obtain tc' ta' tb' where "typed c tc'" "Ty_boolean \<le> tc'" "typed a ta'" "typed b tb'"
      "t = (if ta' = tb' then ta' else Ty_dynamic)"
      by (cases rule: typed.cases) auto
    then show ?r using u(1) [of tc'] u(2) [of ta'] u(3) [of tb'] by simp
  qed (use d Conditional t_cond in blast)
  with ty Conditional show ?thesis by (auto simp: node_type_def result_simps)
next
  case (Binary op a b s e)
  then obtain ta tb where ty: "types a = Some ta" "types b = Some tb"
    using known by (metis children.simps(5) list.set_intros(1,2))
  then have d: "typed a ta" "typed b tb" using sound sound_mapD by blast+
  have u: "typed a x \<Longrightarrow> x = ta" "typed b x \<Longrightarrow> x = tb" for x using d typed_unique by blast+
  have "typed n t \<longleftrightarrow>
     (if is_logical op then Ty_boolean \<le> ta \<and> Ty_boolean \<le> tb \<and> t = Ty_boolean
      else if is_comparison op then t = Ty_boolean
      else if op = AddOp \<and> ta = Ty_string \<and> tb = Ty_string then t = Ty_string
      else Ty_number \<le> ta \<and> Ty_number \<le> tb \<and> t = Ty_number)" (is "_ = ?r")
  proof
    assume "typed n t"
    then have "typed (Binary op a b s e) t" using Binary by simp
    then show ?r by (cases rule: typed_binaryE) (use u in \<open>auto elim: is_logical.elims\<close>)
  next
    assume ?r
    then show "typed n t"
      using d Binary by (auto intro: t_logical t_comparison t_concat t_arith split: if_splits)
  qed
  with ty Binary show ?thesis by (auto simp: node_type_def result_simps)
qed

definition types_grow :: "type_map \<Rightarrow> type_map \<Rightarrow> bool" where
  "types_grow types types' \<longleftrightarrow> sound_map types' \<and> dom types \<subseteq> dom types'"

text \<open>
  Walking over nodes: a walk that ends leaves a sound map that knows every node it
  walked over, and it ends when every node has a type.
\<close>

definition walk_ok :: "expression_node list \<Rightarrow> expression_node list \<Rightarrow> bool" where
  "walk_ok ns visited \<longleftrightarrow>
     (\<forall>types. sound_map types \<longrightarrow>
        (\<forall>types'. fold_result type_visitor visited types = Inr types' \<longrightarrow>
           types_grow types types' \<and> set ns \<subseteq> dom types') \<and>
        ((\<forall>n\<in>set ns. \<exists>t. typed n t) \<longrightarrow> is_ok (fold_result type_visitor visited types)))"

lemma walk_ok_Nil: "walk_ok [] []"
  by (simp add: walk_ok_def types_grow_def)

lemma walk_ok_append:
  assumes "walk_ok ns vs" and "walk_ok ms ws"
  shows "walk_ok (ns @ ms) (vs @ ws)"
  unfolding walk_ok_def
proof (intro allI impI conjI)
  fix types types'
  assume s: "sound_map types" and "fold_result type_visitor (vs @ ws) types = Inr types'"
  then obtain tm where tm: "fold_result type_visitor vs types = Inr tm" "fold_result type_visitor ws tm = Inr types'"
    by (auto simp: result_simps)
  from assms(1) s tm(1) have 1: "types_grow types tm" "set ns \<subseteq> dom tm" by (auto simp: walk_ok_def)
  then have "sound_map tm" by (simp add: types_grow_def)
  with assms(2) tm(2) have 2: "types_grow tm types'" "set ms \<subseteq> dom types'" by (auto simp: walk_ok_def)
  show "types_grow types types'" using 1(1) 2(1) by (auto simp: types_grow_def)
  show "set (ns @ ms) \<subseteq> dom types'" using 1(2) 2 by (simp add: types_grow_def) blast
next
  fix types
  assume s: "sound_map types" and t: "\<forall>n\<in>set (ns @ ms). \<exists>t. typed n t"
  then obtain tm where tm: "fold_result type_visitor vs types = Inr tm"
    using assms(1) by (fastforce simp: walk_ok_def result_simps)
  with assms(1) s have "sound_map tm" by (auto simp: walk_ok_def types_grow_def)
  with t assms(2) tm show "is_ok (fold_result type_visitor (vs @ ws) types)" by (simp add: walk_ok_def)
qed

lemma typed_children:
  "typed n t \<Longrightarrow> \<forall>c\<in>set (children n). \<exists>t'. typed c t'"
proof (induction rule: typed.induct)
  case (t_call args ts f t s e)
  then show ?case by (fastforce simp: list_all2_conv_all_nth in_set_conv_nth)
qed auto

lemma walk_ok_postorder: "wf_tree n \<Longrightarrow> walk_ok [n] (postorder n)"
proof (induction n rule: measure_induct_rule [where f = size])
  case (less n)
  have "walk_ok cs (concat (map postorder cs))" if "set cs \<subseteq> set (children n)" for cs
    using that
  proof (induction cs)
    case (Cons c cs)
    have "walk_ok [c] (postorder c)"
      using Cons.prems less.prems wf_tree_child children_smaller by (auto intro: less.IH)
    from walk_ok_append [OF this Cons.IH] Cons.prems show ?case by simp
  qed (simp add: walk_ok_Nil)
  then have kids: "walk_ok (children n) (concat (map postorder (children n)))" by simp
  have last: "node_type types n = Inr t \<longleftrightarrow> typed n t"
    if "sound_map types" "set (children n) \<subseteq> dom types" for types t
    using that less.prems by (intro node_type_typed) (auto simp: wf_tree.simps [of n])
  show ?case
    unfolding walk_ok_def
  proof (intro allI impI conjI)
    fix types types'
    assume s: "sound_map types" and "fold_result type_visitor (postorder n) types = Inr types'"
    then obtain tm t where tm: "fold_result type_visitor (concat (map postorder (children n))) types = Inr tm"
      and t: "node_type tm n = Inr t" and "types' = tm(n \<mapsto> t)"
      by (auto simp: postorder.simps [of n] type_visitor_def result_simps)
    moreover from kids s tm have "types_grow types tm" "set (children n) \<subseteq> dom tm" by (auto simp: walk_ok_def)
    moreover from this t have "typed n t" using last by (simp add: types_grow_def)
    ultimately show "types_grow types types'" "set [n] \<subseteq> dom types'"
      by (auto simp: types_grow_def sound_map_def)
  next
    fix types
    assume s: "sound_map types" and "\<forall>m\<in>set [n]. \<exists>t. typed m t"
    then obtain t where t: "typed n t" by auto
    with kids s typed_children obtain tm
      where tm: "fold_result type_visitor (concat (map postorder (children n))) types = Inr tm"
      by (fastforce simp: walk_ok_def result_simps)
    with kids s have "sound_map tm" "set (children n) \<subseteq> dom tm" by (auto simp: walk_ok_def types_grow_def)
    with last t have "node_type tm n = Inr t" by blast
    with tm show "is_ok (fold_result type_visitor (postorder n) types)"
      by (simp add: postorder.simps [of n] type_visitor_def)
  qed
qed

lemma check_iff_typed:
  assumes "wf_tree n" and "height n \<le> 256"
  shows "checkExpressionTypes n = Inr () \<longleftrightarrow> (\<exists>t. typed n t)"
proof -
  have s: "sound_map (\<lambda>_. None)" by (simp add: sound_map_def)
  note w = walk_ok_postorder [OF assms(1), unfolded walk_ok_def, rule_format, OF s]
  have "checkExpressionTypes n = Inr () \<longleftrightarrow> is_ok (fold_result type_visitor (postorder n) (\<lambda>_. None))"
    using assms(2) by (auto simp: checkExpressionTypes_def visitExpression_postorder result_simps)
  also have "\<dots> \<longleftrightarrow> (\<exists>t. typed n t)"
    using w by (fastforce simp: is_ok_iff types_grow_def sound_map_def dom_def)
  finally show ?thesis .
qed

end
