(* ===== verification/Memo.thy ===== *)
theory Memo
  imports Prelude
begin

section \<open>Memoisation\<close>

text \<open>
  The interface of a table that remembers results: a lookup after an insertion finds the
  value, and an insertion may forget other keys but never changes what they hold. The
  client is the memoised call: it returns what the function returns, whatever the
  history of the table, and a function that fails leaves the table as it is. The
  bounded cache of compiled expressions and the per-zone time cache of the evaluator
  are the two tables of the program.
\<close>

locale memo_table =
  fixes get :: "'t \<Rightarrow> 'k \<Rightarrow> 'v option"
    and put :: "'k \<Rightarrow> 'v \<Rightarrow> 't \<Rightarrow> 't"
    and new :: "'t"
    and valid :: "'t \<Rightarrow> bool"
  assumes valid_new: "valid new"
    and get_new: "get new k = None"
    and valid_put: "valid t \<Longrightarrow> get t k = None \<Longrightarrow> valid (put k v t)"
    and get_put_same: "valid t \<Longrightarrow> get t k = None \<Longrightarrow> get (put k v t) k = Some v"
    and get_put_other: "valid t \<Longrightarrow> get t k = None \<Longrightarrow> k' \<noteq> k \<Longrightarrow> get (put k v t) k' = Some w \<Longrightarrow> get t k' = Some w"
begin

definition memo :: "('k \<Rightarrow> 'e + 'v) \<Rightarrow> 'k \<Rightarrow> 't \<Rightarrow> 'e + ('v \<times> 't)" where
  "memo f k t =
     (case get t k of
        Some v \<Rightarrow> Inr (v, t)
      | None \<Rightarrow> (case f k of Inl e \<Rightarrow> Inl e | Inr v \<Rightarrow> Inr (v, put k v t)))"

definition agrees :: "('k \<Rightarrow> 'e + 'v) \<Rightarrow> 't \<Rightarrow> bool" where
  "agrees f t \<longleftrightarrow> valid t \<and> (\<forall>k v. get t k = Some v \<longrightarrow> f k = Inr v)"

lemma agrees_new: "agrees f new"
  by (simp add: agrees_def valid_new get_new)

lemma agrees_put: "agrees f t \<Longrightarrow> get t k = None \<Longrightarrow> f k = Inr v \<Longrightarrow> agrees f (put k v t)"
  unfolding agrees_def by (metis get_put_other get_put_same option.inject valid_put)

lemma memo_value: "agrees f t \<Longrightarrow> map_sum id fst (memo f k t) = f k"
  by (auto simp: memo_def agrees_def split: option.split sum.split)

lemma memo_agrees: "agrees f t \<Longrightarrow> memo f k t = Inr (v, t') \<Longrightarrow> agrees f t'"
  by (auto simp: memo_def intro: agrees_put split: option.splits sum.splits)

lemma memo_found: "agrees f t \<Longrightarrow> memo f k t = Inr (v, t') \<Longrightarrow> get t' k = Some v"
  by (auto simp: memo_def agrees_def get_put_same split: option.splits sum.splits)

lemma memo_again: "agrees f t \<Longrightarrow> memo f k t = Inr (v, t') \<Longrightarrow> memo f k t' = Inr (v, t')"
  using memo_found by (fastforce simp: memo_def)

end

subsection \<open>An insertion-ordered map as a table\<close>

text \<open>A \<^verbatim>\<open>Map\<close> without a bound: the entries in insertion order.\<close>

definition entries_put :: "'k \<Rightarrow> 'v \<Rightarrow> ('k, 'v) entries \<Rightarrow> ('k, 'v) entries" where
  "entries_put k v es = set_own k v es"

interpretation unbounded: memo_table map_of entries_put "[]" "\<lambda>es. distinct (map fst es)"
  by unfold_locales (auto simp: entries_put_def distinct_set_own split: if_splits)

end
