(* ===== verification/Expr_Compile.thy ===== *)
theory Expr_Compile
  imports Type_Check Memo
begin

section \<open>Compiling an expression (parser.ts, compileBillingExpression)\<close>

text \<open>
  A compilation parses the source, checks its types, collects its dependencies and its
  request rules and, when the source uses \<^verbatim>\<open>fixed\<close>, validates the shape of the
  pricing tree. Every failure is a value (\<^verbatim>\<open>expressionFailure\<close>). The last 128 results are
  kept in a cache that drops the oldest entry; the cache is a table in the sense of
  \<open>memo_table\<close>, so that it is never visible in a result (\<open>compile_cached\<close>).
\<close>

subsection \<open>Request rules and pricing markers\<close>

record request_rule =
  rule_node :: expression_node
  rule_condition :: expression_node
  rule_multiplier :: js_num
  rule_cond :: js_string

definition containsPricingMarker :: "expression_node \<Rightarrow> bool result" where
  "containsPricingMarker node =
     bind_result (expressionDependencies node) (\<lambda>deps.
       Inr (F_tier \<in> dep_functions deps \<or> F_fixed \<in> dep_functions deps))"

fun is_request_function :: "billing_function \<Rightarrow> bool" where
  "is_request_function F_param = True"
| "is_request_function F_header = True"
| "is_request_function (F_time _) = True"
| "is_request_function _ = False"

definition rule_visitor ::
  "js_string \<Rightarrow> expression_node \<Rightarrow> request_rule list \<Rightarrow> request_rule list result" where
  "rule_visitor source node rules =
     (case node of
        Conditional c (Literal (LNum m) _ _ _) (Literal (LNum one) _ _ _) _ _ \<Rightarrow>
          if \<not> num_eq one (Fin 1) then Inr rules
          else
            bind_result (expressionDependencies c) (\<lambda>deps.
              if \<not> (\<exists>f\<in>dep_functions deps. is_request_function f) then Inr rules
              else Inr (rules @
                [\<lparr>rule_node = node, rule_condition = c, rule_multiplier = m,
                  rule_cond = slice source (node_start c) (node_end c)\<rparr>]))
      | _ \<Rightarrow> Inr rules)"

subsection \<open>Fixed prices\<close>

definition fixed_tree_error :: "expression_node \<Rightarrow> diagnostic" where
  "fixed_tree_error node =
     diag_at D_type (js ''Use tier(name, fixed(amount)) with a finite, non-negative numeric literal; combine pricing branches only with conditions and request multipliers.'')
       (node_start node)"

text \<open>Whether a factor is a request rule that may multiply a fixed price.\<close>

definition is_multiplier :: "request_rule list \<Rightarrow> expression_node \<Rightarrow> bool result" where
  "is_multiplier rules factor =
     (case List.find (\<lambda>candidate. rule_node candidate = factor) rules of
        None \<Rightarrow> Inr False
      | Some rule \<Rightarrow>
          if num_le (Fin 0) (rule_multiplier rule)
          then map_sum id Not (containsPricingMarker (rule_condition rule))
          else Inr False)"

definition is_fixed_amount :: "expression_node \<Rightarrow> bool" where
  "is_fixed_amount amount =
     (case amount of
        Literal (LNum v) _ _ _ \<Rightarrow> num_le (Fin 0) v \<and> is_finite (num_mul v (Fin 1000000))
      | _ \<Rightarrow> False)"

definition tier_price_ok :: "expression_node \<Rightarrow> bool result" where
  "tier_price_ok price =
     (case price of
        Call F_fixed args _ _ \<Rightarrow> Inr (is_fixed_amount (args ! 0))
      | _ \<Rightarrow> map_sum id Not (containsPricingMarker price))"

fun validateFixedPricingTree :: "request_rule list \<Rightarrow> expression_node \<Rightarrow> unit result" where
  "validateFixedPricingTree rules (Conditional c yes no s e) =
     bind_result (containsPricingMarker c) (\<lambda>marked.
       if \<not> marked then
         bind_result (validateFixedPricingTree rules yes) (\<lambda>_. validateFixedPricingTree rules no)
       else Inl (fixed_tree_error (Conditional c yes no s e)))"
| "validateFixedPricingTree rules (Binary op left right s e) =
     (if op \<noteq> MulOp then Inl (fixed_tree_error (Binary op left right s e))
      else
        bind_result (is_multiplier rules right) (\<lambda>b.
          if b then validateFixedPricingTree rules left
          else
            bind_result (is_multiplier rules left) (\<lambda>b'.
              if b' then validateFixedPricingTree rules right
              else Inl (fixed_tree_error (Binary op left right s e)))))"
| "validateFixedPricingTree rules (Call f args s e) =
     (if f \<noteq> F_tier then Inl (fixed_tree_error (Call f args s e))
      else
        bind_result (containsPricingMarker (args ! 0)) (\<lambda>marked.
          if marked then Inl (fixed_tree_error (Call f args s e))
          else
            bind_result (tier_price_ok (args ! 1)) (\<lambda>ok.
              if ok then Inr () else Inl (fixed_tree_error (Call f args s e)))))"
| "validateFixedPricingTree rules node = Inl (fixed_tree_error node)"

subsection \<open>Compilation\<close>

record compiled_expression =
  comp_source :: js_string
  comp_version :: nat
  comp_ast :: expression_node
  comp_variables :: "token_variable set"
  comp_functions :: "billing_function set"
  comp_rules :: "request_rule list"

type_synonym compilation_result = "expression_failure + compiled_expression"

text \<open>
  The fuel of \<open>parse\<close> is always enough (\<open>parse_total\<close>), so the diagnostic of the last
  branch never occurs.
\<close>

definition parse_source :: "js_string \<Rightarrow> expression_node result" where
  "parse_source source =
     (case parse source of Some r \<Rightarrow> r | None \<Rightarrow> Inl (diag D_limit (js ''expression depth'')))"

definition compile_steps :: "js_string \<Rightarrow> compiled_expression result" where
  "compile_steps source =
     bind_result (parse_source source) (\<lambda>ast.
     bind_result (checkExpressionTypes ast) (\<lambda>_.
     bind_result (expressionDependencies ast) (\<lambda>deps.
     bind_result (visitExpression ast (rule_visitor source) []) (\<lambda>rules.
     bind_result
       (if F_fixed \<in> dep_functions deps then validateFixedPricingTree rules ast else Inr ()) (\<lambda>_.
       Inr \<lparr>comp_source = source, comp_version = 1, comp_ast = ast,
            comp_variables = dep_variables deps, comp_functions = dep_functions deps,
            comp_rules = rules\<rparr>)))))"

definition compile_uncached :: "js_string \<Rightarrow> compilation_result" where
  "compile_uncached source = map_sum expressionFailure id (compile_steps source)"

text \<open>The cache: a \<^verbatim>\<open>Map\<close> in insertion order that holds at most 128 results.\<close>

type_synonym compile_cache = "(js_string, compilation_result) entries"

definition CACHE_SIZE :: nat where
  "CACHE_SIZE = 128"

definition cache_put :: "js_string \<Rightarrow> compilation_result \<Rightarrow> compile_cache \<Rightarrow> compile_cache" where
  "cache_put source result cache =
     set_own source result (if CACHE_SIZE \<le> length cache then tl cache else cache)"

definition compileBillingExpression ::
  "js_string \<Rightarrow> compile_cache \<Rightarrow> compilation_result \<times> compile_cache" where
  "compileBillingExpression source cache =
     (case map_of cache source of
        Some result \<Rightarrow> (result, cache)
      | None \<Rightarrow>
          (let result = compile_uncached source in (result, cache_put source result cache)))"

subsection \<open>The cache is a memo table\<close>

definition cache_valid :: "compile_cache \<Rightarrow> bool" where
  "cache_valid cache \<longleftrightarrow> distinct (map fst cache) \<and> length cache \<le> CACHE_SIZE"

lemma length_set_own: "length (set_own k v es) = (if has_own es k then length es else Suc (length es))"
  by (induction es) (auto simp: has_own_def split: option.splits)

lemma map_of_tl_Some: "distinct (map fst es) \<Longrightarrow> map_of (tl es) k = Some v \<Longrightarrow> map_of es k = Some v"
  by (cases es) (auto split: if_splits dest: map_of_SomeD intro: rev_image_eqI)

lemma map_of_tl_None: "map_of es k = None \<Longrightarrow> map_of (tl es) k = None"
  by (cases es) (auto split: if_splits)

interpretation cache: memo_table map_of cache_put "[]" cache_valid
proof unfold_locales
  fix t :: compile_cache and k v
  assume t: "cache_valid t" and k: "map_of t k = None"
  let ?u = "if CACHE_SIZE \<le> length t then tl t else t"
  have u: "distinct (map fst ?u)" "map_of ?u k = None"
    using t k by (auto simp: cache_valid_def map_tl distinct_tl map_of_tl_None)
  then have "\<not> has_own ?u k" by (auto simp: has_own_iff map_of_eq_None_iff)
  then have "length (cache_put k v t) = Suc (length ?u)" by (simp add: cache_put_def length_set_own)
  also have "\<dots> \<le> CACHE_SIZE" using t by (auto simp: cache_valid_def CACHE_SIZE_def)
  finally show "cache_valid (cache_put k v t)"
    using u distinct_set_own [OF u(1)] by (simp add: cache_valid_def cache_put_def)
  show "map_of (cache_put k v t) k = Some v" by (simp add: cache_put_def)
  show "map_of (cache_put k v t) k' = Some w \<Longrightarrow> map_of t k' = Some w" if "k' \<noteq> k" for k' w
    using that t map_of_tl_Some [of t k' w] by (simp add: cache_put_def cache_valid_def split: if_splits)
qed (simp_all add: cache_valid_def)

lemma compile_is_memo:
  "cache.memo (\<lambda>s. Inr (compile_uncached s) :: unit + compilation_result) source cache =
     Inr (compileBillingExpression source cache)"
  by (simp add: cache.memo_def compileBillingExpression_def Let_def split: option.split)

fun compile_all :: "js_string list \<Rightarrow> compile_cache \<Rightarrow> compilation_result list \<times> compile_cache" where
  "compile_all [] cache = ([], cache)"
| "compile_all (s # ss) cache =
     (let (r, cache1) = compileBillingExpression s cache; (rs, cache2) = compile_all ss cache1
      in (r # rs, cache2))"

abbreviation cache_agrees :: "compile_cache \<Rightarrow> bool" where
  "cache_agrees \<equiv> cache.agrees (\<lambda>s. Inr (compile_uncached s) :: unit + compilation_result)"

lemma compile_step:
  assumes "cache_agrees cache"
  shows "fst (compileBillingExpression source cache) = compile_uncached source"
    and "cache_agrees (snd (compileBillingExpression source cache))"
  using cache.memo_value [OF assms, of source]
    cache.memo_agrees [OF assms, of source "fst (compileBillingExpression source cache)"
      "snd (compileBillingExpression source cache)"]
  by (simp_all add: compile_is_memo prod_eq_iff)

lemma compile_all_agrees:
  "cache_agrees cache \<Longrightarrow>
   fst (compile_all ss cache) = map compile_uncached ss \<and> cache_agrees (snd (compile_all ss cache))"
proof (induction ss arbitrary: cache)
  case (Cons s ss)
  from Cons.IH [OF compile_step(2) [OF Cons.prems, of s]] compile_step(1) [OF Cons.prems, of s]
  show ?case by (simp add: Let_def split: prod.split) (metis fst_conv snd_conv)
qed simp

lemma compile_all_results:
  "fst (compile_all ss []) = map compile_uncached ss \<and> length (snd (compile_all ss [])) \<le> 128"
  using compile_all_agrees [OF cache.agrees_new]
  by (simp add: cache.agrees_def cache_valid_def CACHE_SIZE_def)

subsection \<open>What a compiled expression holds\<close>

definition rules_at :: "js_string \<Rightarrow> expression_node \<Rightarrow> request_rule list" where
  "rules_at source node =
     (case node of
        Conditional c (Literal (LNum m) _ _ _) (Literal (LNum one) _ _ _) _ _ \<Rightarrow>
          if num_eq one (Fin 1) \<and> (\<exists>f\<in>functions_of c. is_request_function f)
          then [\<lparr>rule_node = node, rule_condition = c, rule_multiplier = m,
                 rule_cond = slice source (node_start c) (node_end c)\<rparr>]
          else []
      | _ \<Rightarrow> [])"

lemma rule_visitor_eq:
  assumes "height node \<le> 256"
  shows "rule_visitor source node rules = Inr (rules @ rules_at source node)"
proof -
  have "expressionDependencies c = Inr \<lparr>dep_variables = variables_of c, dep_functions = functions_of c\<rparr>"
    if "c \<in> set (children node)" for c
    using height_child [OF that] assms by (simp add: expressionDependencies_eq)
  then show ?thesis
    by (auto simp: rule_visitor_def rules_at_def split: expression_node.split literal_value.split)
qed

lemma fold_rule_visitor:
  "(\<And>n. n \<in> set ns \<Longrightarrow> height n \<le> 256) \<Longrightarrow>
   fold_result (rule_visitor source) ns rules = Inr (rules @ concat (map (rules_at source) ns))"
  by (induction ns arbitrary: rules) (simp_all add: rule_visitor_eq)

lemma dependencies_height: "expressionDependencies n = Inr deps \<Longrightarrow> height n \<le> 256"
  by (simp add: expressionDependencies_eq split: if_splits)

theorem compile_ready:
  assumes "compile_uncached source = Inr c"
  shows "parse source = Some (Inr (comp_ast c)) \<and> wf_tree (comp_ast c) \<and> height (comp_ast c) \<le> 256 \<and>
     (\<exists>t. typed (comp_ast c) t) \<and> comp_source c = source \<and>
     comp_variables c = variables_of (comp_ast c) \<and> comp_functions c = functions_of (comp_ast c) \<and>
     comp_rules c = concat (map (rules_at source) (postorder (comp_ast c))) \<and>
     (F_fixed \<in> comp_functions c \<longrightarrow> validateFixedPricingTree (comp_rules c) (comp_ast c) = Inr ())"
proof -
  from assms have "compile_steps source = Inr c"
    by (cases "compile_steps source") (simp_all add: compile_uncached_def)
  then obtain ast deps rules where ast: "parse_source source = Inr ast" "checkExpressionTypes ast = Inr ()"
    and deps: "expressionDependencies ast = Inr deps"
    and rules: "visitExpression ast (rule_visitor source) [] = Inr rules"
    and fixed: "F_fixed \<in> dep_functions deps \<Longrightarrow> validateFixedPricingTree rules ast = Inr ()"
    and c: "c = \<lparr>comp_source = source, comp_version = 1, comp_ast = ast,
            comp_variables = dep_variables deps, comp_functions = dep_functions deps,
            comp_rules = rules\<rparr>"
    by (auto simp: compile_steps_def result_simps split: if_splits)
  have p: "parse source = Some (Inr ast)"
    using ast(1) parse_total [of source] by (auto simp: parse_source_def)
  note wf = parse_wf [OF p, THEN conjunct1] and h = dependencies_height [OF deps]
  have "height n \<le> 256" if "n \<in> set (postorder ast)" for n
    using postorder_height [OF that] h by simp
  then have "rules = concat (map (rules_at source) (postorder ast))"
    using rules h by (simp add: visitExpression_postorder fold_rule_visitor)
  moreover have "\<exists>t. typed ast t" using ast(2) check_iff_typed [OF wf h] by simp
  ultimately show ?thesis
    using p wf h deps fixed c by (auto simp: expressionDependencies_eq split: if_splits)
qed

subsection \<open>The shape of a fixed-price tree\<close>

text \<open>
  The grammar of the trees that may use \<^verbatim>\<open>fixed\<close>: branches on conditions without prices,
  products with request rules, and tiers whose price is a literal amount or an
  expression without prices.
\<close>

definition marked :: "expression_node \<Rightarrow> bool" where
  "marked n \<longleftrightarrow> F_tier \<in> functions_of n \<or> F_fixed \<in> functions_of n"

definition multiplier_rule :: "request_rule list \<Rightarrow> expression_node \<Rightarrow> bool" where
  "multiplier_rule rules factor \<longleftrightarrow>
     (\<exists>rule. List.find (\<lambda>r. rule_node r = factor) rules = Some rule \<and>
        num_le (Fin 0) (rule_multiplier rule) \<and> \<not> marked (rule_condition rule))"

inductive pricing_tree :: "request_rule list \<Rightarrow> expression_node \<Rightarrow> bool" for rules where
  branch: "\<not> marked c \<Longrightarrow> pricing_tree rules yes \<Longrightarrow> pricing_tree rules no \<Longrightarrow>
    pricing_tree rules (Conditional c yes no s e)"
| times_rule: "multiplier_rule rules right \<Longrightarrow> pricing_tree rules left \<Longrightarrow>
    pricing_tree rules (Binary MulOp left right s e)"
| rule_times: "\<not> multiplier_rule rules right \<Longrightarrow> multiplier_rule rules left \<Longrightarrow> pricing_tree rules right \<Longrightarrow>
    pricing_tree rules (Binary MulOp left right s e)"
| fixed_tier: "\<not> marked label \<Longrightarrow> is_fixed_amount (args ! 0) \<Longrightarrow>
    pricing_tree rules (Call F_tier [label, Call F_fixed args s' e'] s e)"
| plain_tier: "\<not> marked label \<Longrightarrow> \<not> marked price \<Longrightarrow> pricing_tree rules (Call F_tier [label, price] s e)"

inductive_simps pricing_tree_simps:
  "pricing_tree rules (Conditional c yes no s e)"
  "pricing_tree rules (Binary op left right s e)"
  "pricing_tree rules (Call f args s e)"
  "pricing_tree rules (Unary op a s e)"
  "pricing_tree rules (Literal v i s e)"
  "pricing_tree rules (Variable v s e)"

lemma containsPricingMarker_eq: "height n \<le> 256 \<Longrightarrow> containsPricingMarker n = Inr (marked n)"
  by (simp add: containsPricingMarker_def expressionDependencies_eq marked_def)

lemma marked_fixed [simp]: "marked (Call F_fixed args s e)"
  using postorder_self [of "Call F_fixed args s e"] by (auto simp: marked_def functions_of_def)

lemma is_multiplier_eq:
  assumes "\<And>r. r \<in> set rules \<Longrightarrow> height (rule_condition r) \<le> 256"
  shows "is_multiplier rules n = Inr (multiplier_rule rules n)"
proof (cases "List.find (\<lambda>r. rule_node r = n) rules")
  case (Some rule)
  then have "rule \<in> set rules" by (auto simp: find_Some_iff)
  with Some assms show ?thesis by (simp add: is_multiplier_def multiplier_rule_def containsPricingMarker_eq)
qed (simp add: is_multiplier_def multiplier_rule_def)

lemma tier_price_ok_eq:
  assumes "height price \<le> 256"
  shows "tier_price_ok price = Inr (case price of Call F_fixed args _ _ \<Rightarrow> is_fixed_amount (args ! 0) | _ \<Rightarrow> \<not> marked price)"
proof (cases price)
  case (Call f args s e)
  with containsPricingMarker_eq [OF assms] show ?thesis by (cases f) (simp_all add: tier_price_ok_def)
qed (use containsPricingMarker_eq [OF assms] in \<open>simp_all add: tier_price_ok_def\<close>)

theorem validateFixedPricingTree_iff:
  assumes "\<And>r. r \<in> set rules \<Longrightarrow> height (rule_condition r) \<le> 256"
  shows "wf_tree n \<Longrightarrow> height n \<le> 256 \<Longrightarrow>
    validateFixedPricingTree rules n = Inr () \<longleftrightarrow> pricing_tree rules n"
proof (induction n rule: measure_induct_rule [where f = size])
  case (less n)
  have kid: "wf_tree c \<and> height c \<le> 256 \<and>
      (validateFixedPricingTree rules c = Inr () \<longleftrightarrow> pricing_tree rules c)" if "c \<in> set (children n)" for c
    using that less children_smaller [OF that] wf_tree_child height_child [OF that]
    by (metis Suc_leD le_trans)
  note [simp] = is_multiplier_eq [OF assms]
  show ?case
  proof (cases n)
    case (Conditional c yes no s e)
    with kid [of c] kid [of yes] kid [of no] show ?thesis
      by (auto simp: pricing_tree_simps containsPricingMarker_eq result_simps)
  next
    case (Binary op l r s e)
    with kid [of l] kid [of r] show ?thesis by (auto simp: pricing_tree_simps)
  next
    case (Call f args s e)
    show ?thesis
    proof (cases "f = F_tier")
      case True
      with less.prems(1) Call obtain a b where args: "args = [a, b]"
        using length_two [of args] by (auto simp: wf_tree.simps [of "Call _ _ _ _"])
      with kid [of a] kid [of b] Call have h: "height a \<le> 256" "height b \<le> 256" by auto
      show ?thesis
        using True Call args containsPricingMarker_eq [OF h(1)] tier_price_ok_eq [OF h(2)]
        by (auto simp: pricing_tree_simps split: expression_node.splits billing_function.splits)
    qed (use Call in \<open>simp add: pricing_tree_simps\<close>)
  qed (simp_all add: pricing_tree_simps)
qed

end
