(* ===== verification/Runtime_Values.thy ===== *)
theory Runtime_Values
  imports Expr_Compile
begin

section \<open>Request paths, printed values and time zones (runtime.ts)\<close>

text \<open>
  The three helpers of the evaluator that work on values: \<^verbatim>\<open>readRequestPath\<close> reads a
  dotted path in a request body, \<^verbatim>\<open>billingString\<close> prints a value the way the backend does
  and \<^verbatim>\<open>timeInBillingZone\<close> gives the fields of an instant in a time zone. The zone
  database, the case tables and the clock are the host \<open>js_host\<close>.
\<close>

subsection \<open>readRequestPath\<close>

definition path_error :: "js_string \<Rightarrow> diagnostic" where
  "path_error path = diag D_unsupported path"

definition is_path_operator :: "code_unit \<Rightarrow> bool" where
  "is_path_operator c \<longleftrightarrow> c \<in> set (js ''*?[]()|@!'')"

text \<open>The loop that splits a path; the first argument is the whole path, for errors.\<close>

fun split_path :: "js_string \<Rightarrow> js_string \<Rightarrow> js_string \<Rightarrow> js_string list result" where
  "split_path path [] part = Inr [part]"
| "split_path path (c # rest) part =
     (if c = 92 then
        (case rest of
           [] \<Rightarrow> Inl (path_error path)
         | d # rest' \<Rightarrow> split_path path rest' (part @ [d]))
      else if c = 46 then
        bind_result (split_path path rest []) (\<lambda>parts. Inr (part # parts))
      else if is_path_operator c then Inl (path_error path)
      else split_path path rest (part @ [c]))"

definition array_element :: "js_value list \<Rightarrow> js_string \<Rightarrow> js_value" where
  "array_element xs key =
     (let index = number_of_string key in
      if is_safe_integer index
      then (if num_value index < of_nat (length xs) then xs ! nat \<lfloor>num_value index\<rfloor> else VUndefined)
      else VUndefined)"

fun walk_path :: "js_string \<Rightarrow> js_string list \<Rightarrow> js_value \<Rightarrow> js_value result" where
  "walk_path path [] val = Inr (if is_nullish val then VNull else val)"
| "walk_path path (key # keys) val =
     (case val of
        VArr xs \<Rightarrow>
          if key = js ''#'' \<and> keys = [] then Inr (VNum (num_of_nat (length xs)))
          else if key = js ''#'' then Inl (path_error path)
          else if key = [] \<or> \<not> list_all is_digit key then Inr VNull
          else walk_path path keys (array_element xs key)
      | VObj es \<Rightarrow>
          (case map_of es key of
             Some v \<Rightarrow> walk_path path keys v
           | None \<Rightarrow> Inr VNull)
      | _ \<Rightarrow> Inr VNull)"

definition readRequestPath :: "js_value \<Rightarrow> js_string \<Rightarrow> js_value result" where
  "readRequestPath body rawPath =
     (let path = trim rawPath in
      if path = [] then Inr VNull
      else bind_result (split_path path path []) (\<lambda>parts. walk_path path parts body))"

subsection \<open>billingString\<close>

text \<open>\<^verbatim>\<open>toExponential\<close>, split at the e: the mantissa and the exponent.\<close>

definition positive_exponential :: "rat \<Rightarrow> js_string \<times> int" where
  "positive_exponential q =
     (case shortest_digits q of (m, k, n) \<Rightarrow>
        let ds = digits_of (nat m) in
        (if length ds = 1 then ds else take 1 ds @ [46] @ drop 1 ds, n - 1))"

definition exponential_parts :: "rat \<Rightarrow> js_string \<times> int" where
  "exponential_parts q =
     (if q = 0 then ([48], 0)
      else if q < 0 then (case positive_exponential (- q) of (m, e) \<Rightarrow> (45 # m, e))
      else positive_exponential q)"

definition pad_two :: "js_string \<Rightarrow> js_string" where
  "pad_two s = replicate (2 - length s) 48 @ s"

definition number_billing_string :: "js_num \<Rightarrow> js_string result" where
  "number_billing_string x =
     (if \<not> is_finite x then Inl (diag D_number (js ''request number''))
      else if x = NegZero then Inr (js ''-0'')
      else
        (case exponential_parts (num_value x) of (mantissa, e) \<Rightarrow>
           if 6 \<le> e \<or> e < - 4
           then Inr (mantissa @ [101, if e < 0 then 45 else 43] @ pad_two (digits_of (nat \<bar>e\<bar>)))
           else Inr (string_of_number x)))"

text \<open>The stable sort of the entries of an object by their keys.\<close>

fun insert_entry :: "js_string \<times> 'v \<Rightarrow> (js_string \<times> 'v) list \<Rightarrow> (js_string \<times> 'v) list" where
  "insert_entry e [] = [e]"
| "insert_entry e (d # ds) = (if str_lt (fst d) (fst e) then d # insert_entry e ds else e # d # ds)"

fun sort_entries :: "(js_string \<times> 'v) list \<Rightarrow> (js_string \<times> 'v) list" where
  "sort_entries [] = []"
| "sort_entries (e # es) = insert_entry e (sort_entries es)"

lemma set_insert_entry [simp]: "set (insert_entry e es) = insert e (set es)"
  by (induction es) auto

lemma set_sort_entries [simp]: "set (sort_entries es) = set es"
  by (induction es) auto

lemma entry_smaller [termination_simp]: "(k, v) \<in> set es \<Longrightarrow> size v < Suc (size_list (size_prod (\<lambda>x. 0) size) es)"
  by (induction es) auto

function billingString :: "js_value \<Rightarrow> nat \<Rightarrow> js_string result" where
  "billingString val depth =
     (if 128 < depth then Inl (diag D_limit (js ''request value depth''))
      else case val of
        VUndefined \<Rightarrow> Inr (js ''<nil>'')
      | VNull \<Rightarrow> Inr (js ''<nil>'')
      | VArr xs \<Rightarrow>
          bind_result (map_result (\<lambda>item. billingString item (depth + 1)) xs) (\<lambda>ss.
            Inr (js ''['' @ join (js '' '') ss @ js '']''))
      | VObj es \<Rightarrow>
          bind_result (map_result (\<lambda>(key, item).
              bind_result (billingString item (depth + 1)) (\<lambda>s. Inr (key @ js '':'' @ s))) (sort_entries es)) (\<lambda>ss.
            Inr (js ''map['' @ join (js '' '') ss @ js '']''))
      | VNum x \<Rightarrow> number_billing_string x
      | VBool b \<Rightarrow> Inr (if b then js ''true'' else js ''false'')
      | VStr s \<Rightarrow> Inr s)"
  by pat_completeness auto
termination
  by (relation "measure (\<lambda>(v, d). 129 - d)") auto

declare billingString.simps [simp del]

subsection \<open>timeInBillingZone\<close>

record time_values =
  tv_hour :: js_num
  tv_minute :: js_num
  tv_weekday :: js_num
  tv_month :: js_num
  tv_day :: js_num

fun time_value :: "time_function \<Rightarrow> time_values \<Rightarrow> js_num" where
  "time_value T_hour = tv_hour"
| "time_value T_minute = tv_minute"
| "time_value T_weekday = tv_weekday"
| "time_value T_month = tv_month"
| "time_value T_day = tv_day"

text \<open>\<^verbatim>\<open>/^[A-Z][A-Za-z0-9_+-]*(?:\/[A-Z][A-Za-z0-9_+-]*)*$/\<close>\<close>

definition is_upper :: "code_unit \<Rightarrow> bool" where
  "is_upper c \<longleftrightarrow> 65 \<le> c \<and> c \<le> 90"

definition is_zone_unit :: "code_unit \<Rightarrow> bool" where
  "is_zone_unit c \<longleftrightarrow> is_letter c \<or> is_digit c \<or> c = 95 \<or> c = 43 \<or> c = 45"

fun zone_rest :: "js_string \<Rightarrow> bool" where
  "zone_rest [] = True"
| "zone_rest (c # rest) =
     (if c = 47 then (case rest of [] \<Rightarrow> False | d # rest' \<Rightarrow> is_upper d \<and> zone_rest rest')
      else is_zone_unit c \<and> zone_rest rest)"

definition is_zone_name :: "js_string \<Rightarrow> bool" where
  "is_zone_name zone = (case zone of [] \<Rightarrow> False | c # rest \<Rightarrow> is_upper c \<and> zone_rest rest)"

definition utc_values :: "int \<Rightarrow> time_values" where
  "utc_values t =
     \<lparr>tv_hour = num_of_int (utc_hours t), tv_minute = num_of_int (utc_minutes t),
      tv_weekday = num_of_int (utc_day t), tv_month = num_of_int (utc_month t + 1),
      tv_day = num_of_int (utc_date t)\<rparr>"

definition WEEKDAYS :: "js_string list" where
  "WEEKDAYS = [js ''Sun'', js ''Mon'', js ''Tue'', js ''Wed'', js ''Thu'', js ''Fri'', js ''Sat'']"

definition weekday_index :: "js_string \<Rightarrow> js_num" where
  "weekday_index s = (case find_index (\<lambda>d. d = s) WEEKDAYS of Some i \<Rightarrow> num_of_nat i | None \<Rightarrow> Fin (- 1))"

definition zone_formatter :: "js_host \<Rightarrow> js_string \<Rightarrow> (int \<Rightarrow> date_parts) option" where
  "zone_formatter host timezone =
     (if \<not> is_zone_name timezone then None
      else case intl_format host timezone of
        None \<Rightarrow> None
      | Some (resolved, fmt) \<Rightarrow>
          if to_lower_case (unicode_lower host) resolved = to_lower_case (unicode_lower host) timezone
             \<and> resolved \<noteq> timezone
          then None else Some fmt)"

definition timeInBillingZone :: "js_host \<Rightarrow> js_date \<Rightarrow> js_string \<Rightarrow> time_values result" where
  "timeInBillingZone host now zone =
     (case now of
        None \<Rightarrow> Inl (diag D_type (js ''simulation time''))
      | Some t \<Rightarrow>
          (let timezone = (if trim zone = [] then js ''UTC'' else trim zone) in
           if timezone = js ''Local'' then Inl (diag D_unsupported (js ''server Local timezone''))
           else case zone_formatter host timezone of
             None \<Rightarrow> Inr (utc_values t)
           | Some fmt \<Rightarrow>
               (let parts = fmt t in
                Inr \<lparr>tv_hour = number_of_string (part_hour parts),
                     tv_minute = number_of_string (part_minute parts),
                     tv_weekday = weekday_index (part_weekday parts),
                     tv_month = number_of_string (part_month parts),
                     tv_day = number_of_string (part_day parts)\<rparr>)))"

end
