(* ===== verification/Expr_Runtime.thy ===== *)
theory Expr_Runtime
  imports Runtime_Values
begin

section \<open>The evaluator (runtime.ts, BillingRuntime)\<close>

text \<open>
  The methods of \<^verbatim>\<open>BillingRuntime\<close> with its fields as explicit state. The counter
  \<^verbatim>\<open>depth\<close> is the number of calls of \<^verbatim>\<open>evaluate\<close> on the stack: it is incremented on entry
  and decremented in a \<^verbatim>\<open>finally\<close>. The model passes the levels that are left, so that
  \<open>evaluate_at 0\<close> is the call that finds the counter above 256 and the recursion is
  structural. An exception drops the state, as the callers of \<^verbatim>\<open>evaluate\<close> do.
\<close>

subsection \<open>Values, context and state\<close>

record runtime_value =
  rv_value :: js_value
  rv_integer :: bool

abbreviation plain :: "js_value \<Rightarrow> runtime_value" where
  "plain v \<equiv> \<lparr>rv_value = v, rv_integer = False\<rparr>"

record simulation_request =
  req_body :: js_value
  req_headers :: "(js_string, js_value) entries option"

record simulation_context =
  ctx_tokens :: "(js_string, js_value) entries option"
  ctx_request :: "simulation_request option"
  ctx_usage :: "(js_string, js_value) entries option"
  ctx_now :: "js_date option"

datatype billing_unit = UnitToken | UnitRequest

record billing_request_rule =
  brr_cond :: js_string
  brr_multiplier :: js_num
  brr_matched :: bool

text \<open>What the constructor fixes (the environment) and what evaluation changes (the state).\<close>

record runtime_env =
  env_host :: js_host
  env_compiled :: compiled_expression
  env_context :: simulation_context
  env_now :: js_date
  env_headers :: "(js_string, js_string) entries"

record runtime_state =
  rt_rules :: "billing_request_rule list"
  rt_tier :: js_string
  rt_unit :: billing_unit
  rt_fixed :: "js_num option"
  rt_times :: "(js_string, time_values) entries"

subsection \<open>The constructor\<close>

definition add_header ::
  "js_host \<Rightarrow> js_string \<times> js_value \<Rightarrow> (js_string, js_string) entries \<Rightarrow>
   (js_string, js_string) entries result" where
  "add_header host entry headers =
     (case entry of (name, rawValue) \<Rightarrow>
        (case rawValue of
           VStr s \<Rightarrow>
             (let key = to_lower_case (unicode_lower host) (trim name); val = trim s in
              if key \<noteq> [] \<and> val \<noteq> [] then Inr (set_own key val headers) else Inr headers)
         | _ \<Rightarrow> Inl (diag D_type (js ''request header''))))"

definition context_headers :: "simulation_context \<Rightarrow> (js_string, js_value) entries" where
  "context_headers ctx =
     (case ctx_request ctx of
        None \<Rightarrow> []
      | Some req \<Rightarrow> (case req_headers req of None \<Rightarrow> [] | Some hs \<Rightarrow> hs))"

definition new_runtime ::
  "js_host \<Rightarrow> compiled_expression \<Rightarrow> simulation_context \<Rightarrow> (runtime_env \<times> runtime_state) result" where
  "new_runtime host compiled ctx =
     bind_result (fold_result (add_header host) (context_headers ctx) []) (\<lambda>headers.
       Inr (\<lparr>env_host = host, env_compiled = compiled, env_context = ctx,
             env_now = (case ctx_now ctx of Some d \<Rightarrow> d | None \<Rightarrow> Some (current_time host)),
             env_headers = headers\<rparr>,
            \<lparr>rt_rules = map (\<lambda>rule. \<lparr>brr_cond = rule_cond rule, brr_multiplier = rule_multiplier rule,
                                     brr_matched = False\<rparr>) (comp_rules compiled),
             rt_tier = [], rt_unit = UnitToken, rt_fixed = None, rt_times = []\<rparr>))"

subsection \<open>Typed operands\<close>

type_synonym evaluator = "expression_node \<Rightarrow> runtime_state \<Rightarrow> (runtime_value \<times> runtime_state) result"

definition eval_boolean :: "evaluator \<Rightarrow> expression_node \<Rightarrow> runtime_state \<Rightarrow> (bool \<times> runtime_state) result" where
  "eval_boolean ev node st =
     bind_result (ev node st) (\<lambda>(v, st').
       case rv_value v of
         VBool b \<Rightarrow> Inr (b, st')
       | _ \<Rightarrow> Inl (diag_at D_type (js ''boolean condition'') (node_start node)))"

definition eval_numeric ::
  "evaluator \<Rightarrow> expression_node \<Rightarrow> runtime_state \<Rightarrow> ((js_num \<times> bool) \<times> runtime_state) result" where
  "eval_numeric ev node st =
     bind_result (ev node st) (\<lambda>(v, st').
       case rv_value v of
         VNum x \<Rightarrow> Inr ((x, rv_integer v), st')
       | _ \<Rightarrow> Inl (diag_at D_type (js ''numeric operand'') (node_start node)))"

definition eval_string :: "evaluator \<Rightarrow> expression_node \<Rightarrow> runtime_state \<Rightarrow> (js_string \<times> runtime_state) result" where
  "eval_string ev node st =
     bind_result (ev node st) (\<lambda>(v, st').
       case rv_value v of
         VStr s \<Rightarrow> Inr (s, st')
       | _ \<Rightarrow> Inl (diag_at D_type (js ''string argument'') (node_start node)))"

subsection \<open>Binary operators\<close>

fun operator_text :: "operator \<Rightarrow> js_string" where
  "operator_text OrOp = js ''||''"
| "operator_text AndOp = js ''&&''"
| "operator_text EqOp = js ''==''"
| "operator_text NeOp = js ''!=''"
| "operator_text LtOp = js ''<''"
| "operator_text LeOp = js ''<=''"
| "operator_text GtOp = js ''>''"
| "operator_text GeOp = js ''>=''"
| "operator_text AddOp = js ''+''"
| "operator_text SubOp = js ''-''"
| "operator_text MulOp = js ''*''"
| "operator_text DivOp = js ''/''"
| "operator_text ModOp = js ''%''"

fun compare_numbers :: "operator \<Rightarrow> js_num \<Rightarrow> js_num \<Rightarrow> bool option" where
  "compare_numbers LtOp a b = Some (num_lt a b)"
| "compare_numbers LeOp a b = Some (num_le a b)"
| "compare_numbers GtOp a b = Some (num_lt b a)"
| "compare_numbers GeOp a b = Some (num_le b a)"
| "compare_numbers _ a b = None"

fun compare_strings :: "operator \<Rightarrow> js_string \<Rightarrow> js_string \<Rightarrow> bool option" where
  "compare_strings LtOp a b = Some (str_lt a b)"
| "compare_strings LeOp a b = Some (\<not> str_lt b a)"
| "compare_strings GtOp a b = Some (str_lt b a)"
| "compare_strings GeOp a b = Some (\<not> str_lt a b)"
| "compare_strings _ a b = None"

definition equality :: "expression_node \<Rightarrow> operator \<Rightarrow> js_value \<Rightarrow> js_value \<Rightarrow> runtime_value result" where
  "equality node op a b =
     (if a \<noteq> VNull \<and> b \<noteq> VNull \<and> (is_object a \<or> is_object b)
      then Inl (diag_at D_unsupported (js ''object comparison'') (node_start node))
      else Inr (plain (VBool (if op = EqOp then strict_eq a b else \<not> strict_eq a b))))"

definition arithmetic ::
  "expression_node \<Rightarrow> operator \<Rightarrow> js_num \<Rightarrow> js_num \<Rightarrow> bool \<Rightarrow> runtime_value result" where
  "arithmetic node op a b whole =
     (case op of
        AddOp \<Rightarrow> Inr \<lparr>rv_value = VNum (num_add a b), rv_integer = whole\<rparr>
      | SubOp \<Rightarrow> Inr \<lparr>rv_value = VNum (num_sub a b), rv_integer = whole\<rparr>
      | MulOp \<Rightarrow> Inr \<lparr>rv_value = VNum (num_mul a b), rv_integer = whole\<rparr>
      | DivOp \<Rightarrow> Inr (plain (VNum (num_div a b)))
      | ModOp \<Rightarrow>
          if \<not> whole then Inl (diag_at D_type (js ''integer modulo'') (node_start node))
          else Inr \<lparr>rv_value = VNum (num_rem a b), rv_integer = True\<rparr>
      | _ \<Rightarrow> Inl (diag_at D_unsupported (operator_text op) (node_start node)))"

definition apply_operator ::
  "expression_node \<Rightarrow> operator \<Rightarrow> runtime_value \<Rightarrow> runtime_value \<Rightarrow> runtime_value result" where
  "apply_operator node op left right =
     (let mismatch = Inl (diag_at D_type (operator_text op) (node_start node)) in
      if op = EqOp \<or> op = NeOp then equality node op (rv_value left) (rv_value right)
      else
        (case (rv_value left, rv_value right) of
           (VStr a, VStr b) \<Rightarrow>
             if op = AddOp then Inr (plain (VStr (a @ b)))
             else (case compare_strings op a b of Some r \<Rightarrow> Inr (plain (VBool r)) | None \<Rightarrow> mismatch)
         | (VNum a, VNum b) \<Rightarrow>
             (case compare_numbers op a b of
                Some r \<Rightarrow> Inr (plain (VBool r))
              | None \<Rightarrow> arithmetic node op a b (rv_integer left \<and> rv_integer right))
         | _ \<Rightarrow> mismatch))"

definition eval_binary ::
  "evaluator \<Rightarrow> expression_node \<Rightarrow> operator \<Rightarrow> expression_node \<Rightarrow> expression_node \<Rightarrow> runtime_state \<Rightarrow>
   (runtime_value \<times> runtime_state) result" where
  "eval_binary ev node op left right st =
     (if op = AndOp then
        bind_result (eval_boolean ev left st) (\<lambda>(a, st1).
          if a then bind_result (eval_boolean ev right st1) (\<lambda>(b, st2). Inr (plain (VBool b), st2))
          else Inr (plain (VBool False), st1))
      else if op = OrOp then
        bind_result (eval_boolean ev left st) (\<lambda>(a, st1).
          if a then Inr (plain (VBool True), st1)
          else bind_result (eval_boolean ev right st1) (\<lambda>(b, st2). Inr (plain (VBool b), st2)))
      else
        bind_result (ev left st) (\<lambda>(a, st1).
        bind_result (ev right st1) (\<lambda>(b, st2).
        bind_result (apply_operator node op a b) (\<lambda>v. Inr (v, st2)))))"

subsection \<open>Calls\<close>

definition eval_unary_math ::
  "evaluator \<Rightarrow> (js_num \<Rightarrow> js_num) \<Rightarrow> expression_node list \<Rightarrow> runtime_state \<Rightarrow>
   (runtime_value \<times> runtime_state) result" where
  "eval_unary_math ev f args st =
     bind_result (eval_numeric ev (args ! 0) st) (\<lambda>((x, _), st'). Inr (plain (VNum (f x)), st'))"

definition eval_binary_math ::
  "evaluator \<Rightarrow> (js_num \<Rightarrow> js_num \<Rightarrow> js_num) \<Rightarrow> expression_node list \<Rightarrow> runtime_state \<Rightarrow>
   (runtime_value \<times> runtime_state) result" where
  "eval_binary_math ev f args st =
     bind_result (eval_numeric ev (args ! 0) st) (\<lambda>((x, _), st1).
     bind_result (eval_numeric ev (args ! 1) st1) (\<lambda>((y, _), st2). Inr (plain (VNum (f x y)), st2)))"

definition eval_fixed ::
  "evaluator \<Rightarrow> expression_node list \<Rightarrow> runtime_state \<Rightarrow> (runtime_value \<times> runtime_state) result" where
  "eval_fixed ev args st =
     bind_result (eval_numeric ev (args ! 0) st) (\<lambda>((amount, _), st').
       Inr (plain (VNum (num_mul amount (Fin 1000000))),
            st'\<lparr>rt_unit := UnitRequest, rt_fixed := Some amount\<rparr>))"

definition eval_tier ::
  "evaluator \<Rightarrow> expression_node list \<Rightarrow> runtime_state \<Rightarrow> (runtime_value \<times> runtime_state) result" where
  "eval_tier ev args st =
     bind_result (eval_string ev (args ! 0) st) (\<lambda>(name, st1).
     bind_result (eval_numeric ev (args ! 1) st1) (\<lambda>((x, _), st2).
       Inr (plain (VNum x), st2\<lparr>rt_tier := name\<rparr>)))"

definition eval_param ::
  "evaluator \<Rightarrow> runtime_env \<Rightarrow> expression_node \<Rightarrow> expression_node list \<Rightarrow> runtime_state \<Rightarrow>
   (runtime_value \<times> runtime_state) result" where
  "eval_param ev env node args st =
     bind_result (eval_string ev (args ! 0) st) (\<lambda>(path, st').
       case ctx_request (env_context env) of
         None \<Rightarrow> Inl (diag_at D_missing_context (js ''request body'') (node_start node))
       | Some req \<Rightarrow> bind_result (readRequestPath (req_body req) path) (\<lambda>v. Inr (plain v, st')))"

definition eval_header ::
  "evaluator \<Rightarrow> runtime_env \<Rightarrow> expression_node \<Rightarrow> expression_node list \<Rightarrow> runtime_state \<Rightarrow>
   (runtime_value \<times> runtime_state) result" where
  "eval_header ev env node args st =
     bind_result (eval_string ev (args ! 0) st) (\<lambda>(s, st').
       let name = to_lower_case (unicode_lower (env_host env)) (trim s) in
       case ctx_request (env_context env) of
         None \<Rightarrow> Inl (diag_at D_missing_context (js ''request headers'') (node_start node))
       | Some req \<Rightarrow>
           Inr (plain (VStr (case map_of (env_headers env) name of Some h \<Rightarrow> h | None \<Rightarrow> [])), st'))"

definition eval_u ::
  "evaluator \<Rightarrow> runtime_env \<Rightarrow> expression_node \<Rightarrow> expression_node list \<Rightarrow> runtime_state \<Rightarrow>
   (runtime_value \<times> runtime_state) result" where
  "eval_u ev env node args st =
     bind_result (eval_string ev (args ! 0) st) (\<lambda>(name, st').
       case ctx_usage (env_context env) of
         None \<Rightarrow> Inl (diag_at D_missing_context (js ''task usage'') (node_start node))
       | Some usage \<Rightarrow>
           Inr (plain (case map_of usage name of Some v \<Rightarrow> v | None \<Rightarrow> VNull), st'))"

definition eval_has ::
  "evaluator \<Rightarrow> expression_node list \<Rightarrow> runtime_state \<Rightarrow> (runtime_value \<times> runtime_state) result" where
  "eval_has ev args st =
     bind_result (ev (args ! 0) st) (\<lambda>(source, st1).
     bind_result (eval_string ev (args ! 1) st1) (\<lambda>(substring, st2).
       if is_nullish (rv_value source) \<or> substring = [] then Inr (plain (VBool False), st2)
       else bind_result (billingString (rv_value source) 0) (\<lambda>s.
         Inr (plain (VBool (str_includes s substring)), st2))))"

definition eval_time ::
  "evaluator \<Rightarrow> runtime_env \<Rightarrow> time_function \<Rightarrow> expression_node list \<Rightarrow> runtime_state \<Rightarrow>
   (runtime_value \<times> runtime_state) result" where
  "eval_time ev env f args st =
     bind_result (eval_string ev (args ! 0) st) (\<lambda>(s, st').
       let zone = trim s in
       case map_of (rt_times st') zone of
         Some values \<Rightarrow> Inr (\<lparr>rv_value = VNum (time_value f values), rv_integer = True\<rparr>, st')
       | None \<Rightarrow>
           bind_result (timeInBillingZone (env_host env) (env_now env) zone) (\<lambda>values.
             Inr (\<lparr>rv_value = VNum (time_value f values), rv_integer = True\<rparr>,
                  st'\<lparr>rt_times := entries_put zone values (rt_times st')\<rparr>)))"

definition eval_call ::
  "evaluator \<Rightarrow> runtime_env \<Rightarrow> expression_node \<Rightarrow> billing_function \<Rightarrow> expression_node list \<Rightarrow> runtime_state \<Rightarrow>
   (runtime_value \<times> runtime_state) result" where
  "eval_call ev env node f args st =
     (case f of
        F_fixed \<Rightarrow> eval_fixed ev args st
      | F_tier \<Rightarrow> eval_tier ev args st
      | F_param \<Rightarrow> eval_param ev env node args st
      | F_header \<Rightarrow> eval_header ev env node args st
      | F_u \<Rightarrow> eval_u ev env node args st
      | F_has \<Rightarrow> eval_has ev args st
      | F_min \<Rightarrow> eval_binary_math ev num_min args st
      | F_max \<Rightarrow> eval_binary_math ev num_max args st
      | F_abs \<Rightarrow> eval_unary_math ev num_abs args st
      | F_floor \<Rightarrow> eval_unary_math ev num_floor args st
      | F_ceil \<Rightarrow> eval_unary_math ev num_ceil args st
      | F_time t \<Rightarrow> eval_time ev env t args st)"

subsection \<open>Nodes\<close>

fun literal_js :: "literal_value \<Rightarrow> js_value" where
  "literal_js (LNum x) = VNum x"
| "literal_js (LStr s) = VStr s"
| "literal_js (LBool b) = VBool b"
| "literal_js LNull = VNull"

definition eval_variable :: "runtime_env \<Rightarrow> expression_node \<Rightarrow> token_variable \<Rightarrow> runtime_value result" where
  "eval_variable env node v =
     (case Option.bind (ctx_tokens (env_context env)) (\<lambda>tokens. map_of tokens (variable_text v)) of
        None \<Rightarrow> Inl (diag_at D_missing_context (variable_text v) (node_start node))
      | Some VUndefined \<Rightarrow> Inl (diag_at D_missing_context (variable_text v) (node_start node))
      | Some (VNum x) \<Rightarrow>
          if num_lt x (Fin 0) then Inl (diag_at D_number (variable_text v) (node_start node))
          else Inr (plain (VNum x))
      | Some _ \<Rightarrow> Inl (diag_at D_number (variable_text v) (node_start node)))"

definition mark_rule :: "runtime_env \<Rightarrow> expression_node \<Rightarrow> runtime_state \<Rightarrow> runtime_state" where
  "mark_rule env node st =
     (case find_index (\<lambda>rule. rule_node rule = node) (comp_rules (env_compiled env)) of
        None \<Rightarrow> st
      | Some i \<Rightarrow> st\<lparr>rt_rules := (rt_rules st)[i := (rt_rules st ! i)\<lparr>brr_matched := True\<rparr>]\<rparr>)"

definition eval_unary ::
  "evaluator \<Rightarrow> unary_operator \<Rightarrow> expression_node \<Rightarrow> runtime_state \<Rightarrow> (runtime_value \<times> runtime_state) result" where
  "eval_unary ev op operand st =
     (if op = NotOp
      then bind_result (eval_boolean ev operand st) (\<lambda>(b, st'). Inr (plain (VBool (\<not> b)), st'))
      else bind_result (eval_numeric ev operand st) (\<lambda>((x, whole), st').
             Inr (\<lparr>rv_value = VNum (if op = MinusOp then num_neg x else x), rv_integer = whole\<rparr>, st')))"

definition evaluate_node :: "evaluator \<Rightarrow> runtime_env \<Rightarrow> evaluator" where
  "evaluate_node ev env node st =
     (case node of
        Literal v whole _ _ \<Rightarrow> Inr (\<lparr>rv_value = literal_js v, rv_integer = whole\<rparr>, st)
      | Variable v _ _ \<Rightarrow> bind_result (eval_variable env node v) (\<lambda>r. Inr (r, st))
      | Conditional c yes no _ _ \<Rightarrow>
          bind_result (eval_boolean ev c st) (\<lambda>(b, st').
            ev (if b then yes else no) (if b then mark_rule env node st' else st'))
      | Unary op operand _ _ \<Rightarrow> eval_unary ev op operand st
      | Binary op left right _ _ \<Rightarrow> eval_binary ev node op left right st
      | Call f args _ _ \<Rightarrow> eval_call ev env node f args st)"

definition check_value :: "expression_node \<Rightarrow> runtime_value \<Rightarrow> runtime_value result" where
  "check_value node v =
     (case rv_value v of
        VNum x \<Rightarrow>
          if \<not> is_finite x then Inl (diag_at D_number (js ''non-finite result'') (node_start node))
          else if rv_integer v \<and> \<not> is_safe_integer x
          then Inl (diag_at D_unsupported (js ''integer precision'') (node_start node))
          else Inr v
      | _ \<Rightarrow> Inr v)"

primrec evaluate_at :: "nat \<Rightarrow> runtime_env \<Rightarrow> evaluator" where
  "evaluate_at 0 env = (\<lambda>node st. Inl (diag D_limit (js ''evaluation depth'')))"
| "evaluate_at (Suc k) env = (\<lambda>node st.
     bind_result (evaluate_node (evaluate_at k env) env node st) (\<lambda>(v, st').
     bind_result (check_value node v) (\<lambda>v'. Inr (v', st'))))"

definition evaluate :: "runtime_env \<Rightarrow> evaluator" where
  "evaluate env = evaluate_at 256 env"

subsection \<open>The two entry points\<close>

definition evaluateBillingCondition ::
  "js_host \<Rightarrow> compiled_expression \<Rightarrow> expression_node \<Rightarrow> js_date \<Rightarrow> bool option" where
  "evaluateBillingCondition host compiled node now =
     (case bind_result
         (new_runtime host compiled \<lparr>ctx_tokens = None, ctx_request = None, ctx_usage = None, ctx_now = Some now\<rparr>)
         (\<lambda>(env, st). evaluate env node st) of
        Inr (v, _) \<Rightarrow> (case rv_value v of VBool b \<Rightarrow> Some b | _ \<Rightarrow> None)
      | Inl _ \<Rightarrow> None)"

record billing_success =
  cost :: js_num
  billingUnit :: billing_unit
  fixedPrice :: "js_num option"
  matchedTier :: js_string
  requestRules :: "billing_request_rule list"

type_synonym evaluation_result = "expression_failure + billing_success"

definition check_token :: "js_string \<times> js_value \<Rightarrow> unit \<Rightarrow> unit result" where
  "check_token entry u =
     (case entry of (name, val) \<Rightarrow>
        (case val of
           VNum x \<Rightarrow> if \<not> is_finite x \<or> num_lt x (Fin 0) then Inl (diag D_number name) else Inr ()
         | _ \<Rightarrow> Inl (diag D_number name)))"

definition evaluate_steps ::
  "js_host \<Rightarrow> compiled_expression \<Rightarrow> simulation_context \<Rightarrow> billing_success result" where
  "evaluate_steps host compiled ctx =
     bind_result (fold_result check_token (case ctx_tokens ctx of Some ts \<Rightarrow> ts | None \<Rightarrow> []) ()) (\<lambda>_.
     bind_result (new_runtime host compiled ctx) (\<lambda>(env, st).
     bind_result (evaluate env (comp_ast compiled) st) (\<lambda>(v, st').
       case rv_value v of
         VNum x \<Rightarrow>
           if \<not> is_finite x \<or> num_lt x (Fin 0) then Inl (diag D_number (js ''billing result''))
           else Inr \<lparr>cost = x, billingUnit = rt_unit st', fixedPrice = rt_fixed st',
                     matchedTier = rt_tier st', requestRules = rt_rules st'\<rparr>
       | _ \<Rightarrow> Inl (diag D_number (js ''billing result'')))))"

definition evaluate_compiled ::
  "js_host \<Rightarrow> compilation_result \<Rightarrow> simulation_context \<Rightarrow> evaluation_result" where
  "evaluate_compiled host compilation ctx =
     (case compilation of
        Inl failure \<Rightarrow> Inl failure
      | Inr compiled \<Rightarrow> map_sum expressionFailure id (evaluate_steps host compiled ctx))"

text \<open>The argument is a source, which is compiled through the cache, or a compiled expression.\<close>

definition evaluateBillingExpression ::
  "js_host \<Rightarrow> js_string + compiled_expression \<Rightarrow> simulation_context \<Rightarrow> compile_cache \<Rightarrow>
   evaluation_result \<times> compile_cache" where
  "evaluateBillingExpression host expr ctx cache =
     (case expr of
        Inl source \<Rightarrow>
          (case compileBillingExpression source cache of (compilation, cache') \<Rightarrow>
             (evaluate_compiled host compilation ctx, cache'))
      | Inr compiled \<Rightarrow> (evaluate_compiled host (Inr compiled) ctx, cache))"

end
