(* ===== verification/Runtime_Correct.thy ===== *)
theory Runtime_Correct
  imports Expr_Runtime
begin

section \<open>What evaluation does to its state and what its values are\<close>

text \<open>
  Every evaluation is a sequence of four state changes: a request rule is marked, a tier
  is recorded, a fixed price is recorded, a zone is remembered. The locale
  \<open>state_relation\<close> is the interface of this argument: a reflexive and transitive relation
  of states that contains the four changes contains every evaluation. It is interpreted
  for each invariant of the state below.
\<close>

lemma bind_pair_Inr [result_simps]:
  "bind_result m (\<lambda>(a, s). f a s) = Inr r \<longleftrightarrow> (\<exists>a s. m = Inr (a, s) \<and> f a s = Inr r)"
  by (cases m) auto

lemma bind_triple_Inr [result_simps]:
  "bind_result m (\<lambda>((a, b), s). f a b s) = Inr r \<longleftrightarrow> (\<exists>a b s. m = Inr ((a, b), s) \<and> f a b s = Inr r)"
  by (cases m) auto

subsection \<open>Checked values\<close>

definition checked :: "runtime_value \<Rightarrow> bool" where
  "checked v \<longleftrightarrow>
     (\<forall>x. rv_value v = VNum x \<longrightarrow> is_finite x \<and> (rv_integer v \<longrightarrow> is_safe_integer x))"

lemma check_value_Inr [result_simps]: "check_value n v = Inr v' \<longleftrightarrow> v' = v \<and> checked v"
  by (auto simp: check_value_def checked_def split: js_value.splits)

lemma evaluate_at_Suc_Inr:
  "evaluate_at (Suc k) env n s = Inr (v, s') \<longleftrightarrow>
   evaluate_node (evaluate_at k env) env n s = Inr (v, s') \<and> checked v"
  by (auto simp: result_simps)

lemma evaluate_at_checked: "evaluate_at k env n s = Inr (v, s') \<Longrightarrow> checked v"
  by (cases k) (auto simp: result_simps)

declare evaluate_at.simps [simp del]

lemma evaluate_at_0 [simp]: "evaluate_at 0 env n s = Inl (diag D_limit (js ''evaluation depth''))"
  by (simp add: evaluate_at.simps)

lemma eval_numeric_Inr:
  "eval_numeric ev n s = Inr ((x, w), s') \<longleftrightarrow> (\<exists>v. ev n s = Inr (v, s') \<and> rv_value v = VNum x \<and> rv_integer v = w)"
  by (cases "ev n s") (auto simp: eval_numeric_def split: js_value.splits)

lemma eval_boolean_Inr:
  "eval_boolean ev n s = Inr (b, s') \<longleftrightarrow> (\<exists>v. ev n s = Inr (v, s') \<and> rv_value v = VBool b)"
  by (cases "ev n s") (auto simp: eval_boolean_def split: js_value.splits)

lemma eval_string_Inr:
  "eval_string ev n s = Inr (x, s') \<longleftrightarrow> (\<exists>v. ev n s = Inr (v, s') \<and> rv_value v = VStr x)"
  by (cases "ev n s") (auto simp: eval_string_def split: js_value.splits)

lemmas operand_simps = eval_numeric_Inr eval_boolean_Inr eval_string_Inr result_simps

subsection \<open>State changes\<close>

lemma functions_of_child: "c \<in> set (children n) \<Longrightarrow> functions_of c \<subseteq> functions_of n"
  using postorder_trans [OF postorder_child] unfolding functions_of_def by blast

lemma functions_of_self: "f \<in> functions_of (Call f args a b)"
  using postorder_self unfolding functions_of_def by blast

lemma call_arg: "wf_tree (Call f args a b) \<Longrightarrow> i < arity f \<Longrightarrow> args ! i \<in> set (children (Call f args a b))"
  by (simp add: wf_tree.simps [of "Call f args a b"])

locale state_relation =
  fixes env :: runtime_env and funs :: "billing_function set"
    and rel :: "runtime_state \<Rightarrow> runtime_state \<Rightarrow> bool"
  assumes rel_refl: "rel s s"
    and rel_trans: "rel s t \<Longrightarrow> rel t u \<Longrightarrow> rel s u"
    and rel_mark: "rel s (mark_rule env n s)"
    and rel_tier: "F_tier \<in> funs \<Longrightarrow> rel s (s\<lparr>rt_tier := name\<rparr>)"
    and rel_fixed: "F_fixed \<in> funs \<Longrightarrow> is_finite amount \<Longrightarrow>
      rel s (s\<lparr>rt_unit := UnitRequest, rt_fixed := Some amount\<rparr>)"
    and rel_time: "map_of (rt_times s) zone = None \<Longrightarrow>
      timeInBillingZone (env_host env) (env_now env) zone = Inr tv \<Longrightarrow>
      rel s (s\<lparr>rt_times := entries_put zone tv (rt_times s)\<rparr>)"
begin

text \<open>The nodes whose evaluation only calls the functions of the set.\<close>

definition allowed :: "expression_node \<Rightarrow> bool" where
  "allowed n \<longleftrightarrow> funs = UNIV \<or> (wf_tree n \<and> functions_of n \<subseteq> funs)"

lemma allowed_child: "allowed n \<Longrightarrow> c \<in> set (children n) \<Longrightarrow> allowed c"
  using wf_tree_child functions_of_child unfolding allowed_def by blast

lemma allowed_arg: "allowed (Call f args a b) \<Longrightarrow> i < arity f \<Longrightarrow> allowed (args ! i)"
  using allowed_child call_arg unfolding allowed_def by blast

lemma allowed_function: "allowed (Call f args a b) \<Longrightarrow> f \<in> funs"
  using functions_of_self unfolding allowed_def by blast

definition keeps :: "evaluator \<Rightarrow> bool" where
  "keeps ev \<longleftrightarrow> (\<forall>n s v s'. allowed n \<longrightarrow> ev n s = Inr (v, s') \<longrightarrow> rel s s' \<and> checked v)"

lemma keepsD: "keeps ev \<Longrightarrow> allowed n \<Longrightarrow> ev n s = Inr (v, s') \<Longrightarrow> rel s s'"
  by (auto simp: keeps_def)

lemma numeric_finite:
  "keeps ev \<Longrightarrow> allowed n \<Longrightarrow> ev n s = Inr (v, s') \<Longrightarrow> rv_value v = VNum x \<Longrightarrow> is_finite x"
  unfolding keeps_def checked_def by blast

lemma keeps2D: "keeps ev \<Longrightarrow> allowed n \<Longrightarrow> allowed m \<Longrightarrow> ev n s = Inr (v, t) \<Longrightarrow> ev m t = Inr (w, u) \<Longrightarrow> rel s u"
  using keepsD rel_trans by blast

lemma rel_fixedD:
  "F_fixed \<in> funs \<Longrightarrow> rel s t \<Longrightarrow> is_finite a \<Longrightarrow> rel s (t\<lparr>rt_unit := UnitRequest, rt_fixed := Some a\<rparr>)"
  using rel_fixed rel_trans by blast

lemma rel_tierD: "F_tier \<in> funs \<Longrightarrow> rel s t \<Longrightarrow> rel s (t\<lparr>rt_tier := name\<rparr>)"
  using rel_tier rel_trans by blast

lemma call_rel:
  assumes ev: "keeps ev" and al: "allowed (Call f args a b)" and eq: "eval_call ev env n f args s = Inr (v, s')"
  shows "rel s s'"
proof -
  note one = keepsD [OF ev allowed_arg [OF al]]
  have two: "ev (args ! 0) u = Inr (w, t) \<Longrightarrow> ev (args ! 1) t = Inr (w', u') \<Longrightarrow> rel u u'" if "arity f = 2" for u w t w' u'
    by (rule keeps2D [OF ev allowed_arg [OF al] allowed_arg [OF al]]) (use that in simp_all)
  show ?thesis
  proof (cases f)
    case F_fixed
    with eq obtain w t x where "ev (args ! 0) s = Inr (w, t)" "rv_value w = VNum x"
      "s' = t\<lparr>rt_unit := UnitRequest, rt_fixed := Some x\<rparr>"
      by (auto simp: eval_call_def eval_fixed_def operand_simps)
    moreover from this have "rel s t" "is_finite x"
      using one numeric_finite [OF ev allowed_arg [OF al]] F_fixed by auto
    ultimately show ?thesis using rel_fixedD allowed_function [OF al] F_fixed by simp
  next
    case F_tier
    with eq two show ?thesis
      by (auto simp: eval_call_def eval_tier_def operand_simps intro!: rel_tierD [OF allowed_function [OF al, unfolded F_tier]])
  next
    case (F_time tf)
    from eq obtain x s1 where s1: "eval_string ev (args ! 0) s = Inr (x, s1)"
      by (auto simp: F_time eval_call_def eval_time_def result_simps)
    then have r: "rel s s1" using one F_time by (auto simp: eval_string_Inr)
    show ?thesis
    proof (cases "map_of (rt_times s1) (trim x)")
      case None
      with eq s1 obtain tv where "timeInBillingZone (env_host env) (env_now env) (trim x) = Inr tv"
        and "s' = s1\<lparr>rt_times := entries_put (trim x) tv (rt_times s1)\<rparr>"
        by (auto simp: F_time eval_call_def eval_time_def Let_def result_simps)
      with r None show ?thesis using rel_time rel_trans by blast
    next
      case (Some tv)
      with eq s1 r show ?thesis by (simp add: F_time eval_call_def eval_time_def Let_def)
    qed
  next
    case F_param
    with eq one show ?thesis
      by (cases "ctx_request (env_context env)") (auto simp: eval_call_def eval_param_def operand_simps)
  next
    case F_header
    with eq one show ?thesis
      by (cases "ctx_request (env_context env)") (auto simp: eval_call_def eval_header_def operand_simps Let_def)
  next
    case F_u
    with eq one show ?thesis
      by (cases "ctx_usage (env_context env)") (auto simp: eval_call_def eval_u_def operand_simps)
  next
    case F_has
    with eq two show ?thesis
      by (auto simp: eval_call_def eval_has_def operand_simps split: if_splits)
  qed (use eq one two in \<open>auto simp: eval_call_def eval_unary_math_def eval_binary_math_def operand_simps\<close>)
qed

lemma node_rel:
  assumes ev: "keeps ev" and al: "allowed n" and eq: "evaluate_node ev env n s = Inr (v, s')"
  shows "rel s s'"
proof (cases n)
  case (Call f args a b)
  with eq al call_rel [OF ev] show ?thesis by (simp add: evaluate_node_def)
next
  case (Conditional c yes no a b)
  then have sub: "allowed c" "allowed yes" "allowed no" using allowed_child [OF al] by simp_all
  from Conditional eq obtain w t d where c: "ev c s = Inr (w, t)"
    and d: "ev (if d then yes else no) (if d then mark_rule env n t else t) = Inr (v, s')"
    by (auto simp: evaluate_node_def operand_simps)
  have "rel t (if d then mark_rule env n t else t)" by (simp add: rel_mark rel_refl)
  moreover have "allowed (if d then yes else no)" using sub by simp
  ultimately show ?thesis using keepsD [OF ev sub(1) c] keepsD [OF ev _ d] rel_trans by blast
next
  case (Binary op l r a b)
  then have sub: "allowed l" "allowed r" using allowed_child [OF al] by simp_all
  from Binary eq keepsD [OF ev sub(1)] keeps2D [OF ev sub] show ?thesis
    by (auto simp: evaluate_node_def eval_binary_def operand_simps split: if_splits)
next
  case (Unary op x a b)
  with eq show ?thesis
    using keepsD [OF ev allowed_child [OF al, of x]]
    by (auto simp: evaluate_node_def eval_unary_def operand_simps split: if_splits)
qed (use eq rel_refl in \<open>auto simp: evaluate_node_def result_simps\<close>)

lemma keeps_evaluate_at: "keeps (evaluate_at k env)"
proof (induction k)
  case (Suc k)
  show ?case
    unfolding keeps_def evaluate_at_Suc_Inr using node_rel [OF Suc.IH] by blast
qed (simp add: keeps_def)

lemma evaluate_rel: "allowed n \<Longrightarrow> evaluate_at k env n s = Inr (v, s') \<Longrightarrow> rel s s'"
  using keeps_evaluate_at keepsD by blast

end

subsection \<open>The invariants of the state\<close>

text \<open>The request rules keep their texts and multipliers, and a rule that matched stays matched.\<close>

definition rules_extend :: "runtime_state \<Rightarrow> runtime_state \<Rightarrow> bool" where
  "rules_extend s s' \<longleftrightarrow>
     list_all2 (\<lambda>r r'. brr_cond r' = brr_cond r \<and> brr_multiplier r' = brr_multiplier r \<and>
       (brr_matched r \<longrightarrow> brr_matched r')) (rt_rules s) (rt_rules s')"

text \<open>A fixed price is recorded exactly when the unit is a request, and it is finite.\<close>

definition fixed_consistent :: "runtime_state \<Rightarrow> bool" where
  "fixed_consistent s \<longleftrightarrow>
     (rt_unit s = UnitRequest \<longleftrightarrow> rt_fixed s \<noteq> None) \<and> (\<forall>a. rt_fixed s = Some a \<longrightarrow> is_finite a)"

text \<open>The remembered zones hold the values of the instant of the simulation.\<close>

definition zone_values :: "runtime_env \<Rightarrow> js_string \<Rightarrow> time_values result" where
  "zone_values env zone = timeInBillingZone (env_host env) (env_now env) zone"

definition times_agree :: "runtime_env \<Rightarrow> runtime_state \<Rightarrow> bool" where
  "times_agree env s \<longleftrightarrow> unbounded.agrees (zone_values env) (rt_times s)"

lemma list_all2_update:
  "(\<And>x. R x x) \<Longrightarrow> (i < length xs \<Longrightarrow> R (xs ! i) y) \<Longrightarrow> list_all2 R xs (xs[i := y])"
  by (cases "i < length xs") (auto simp: list_all2_conv_all_nth nth_list_update)

lemma mark_rule_simps [simp]:
  "rt_tier (mark_rule env n s) = rt_tier s" "rt_unit (mark_rule env n s) = rt_unit s"
  "rt_fixed (mark_rule env n s) = rt_fixed s" "rt_times (mark_rule env n s) = rt_times s"
  by (auto simp: mark_rule_def split: option.split)

interpretation rules: state_relation env UNIV rules_extend for env
proof unfold_locales
  show "rules_extend s (mark_rule env n s)" for n s
    by (auto simp: rules_extend_def mark_rule_def list.rel_refl intro!: list_all2_update split: option.split)
  show "rules_extend s u" if "rules_extend s t" "rules_extend t u" for s t u
    using that unfolding rules_extend_def by (rule list_all2_trans [rotated]) auto
qed (auto simp: rules_extend_def list.rel_refl)

interpretation fixed: state_relation env UNIV "\<lambda>s s'. fixed_consistent s \<longrightarrow> fixed_consistent s'" for env
proof unfold_locales
  show "fixed_consistent s \<longrightarrow> fixed_consistent u"
    if "fixed_consistent s \<longrightarrow> fixed_consistent t" "fixed_consistent t \<longrightarrow> fixed_consistent u" for s t u
    using that by blast
qed (simp_all add: fixed_consistent_def)

interpretation times: state_relation env UNIV "\<lambda>s s'. times_agree env s \<longrightarrow> times_agree env s'" for env
proof unfold_locales
  show "times_agree env s \<longrightarrow> times_agree env (s\<lparr>rt_times := entries_put zone tv (rt_times s)\<rparr>)"
    if "map_of (rt_times s) zone = None" "timeInBillingZone (env_host env) (env_now env) zone = Inr tv"
    for s zone tv
    using that unbounded.agrees_put [of "zone_values env" "rt_times s" zone tv]
    by (simp add: times_agree_def zone_values_def)
qed (auto simp: times_agree_def)

text \<open>What a successful evaluation returns.\<close>

definition rule_for :: "request_rule \<Rightarrow> billing_request_rule \<Rightarrow> bool" where
  "rule_for rule r \<longleftrightarrow> brr_cond r = rule_cond rule \<and> brr_multiplier r = rule_multiplier rule"

lemma new_runtime_state:
  assumes "new_runtime host compiled ctx = Inr (env, st)"
  shows "fixed_consistent st \<and> times_agree env st \<and> env_compiled env = compiled \<and>
     env_context env = ctx \<and> env_host env = host \<and>
     rt_rules st = map (\<lambda>rule. \<lparr>brr_cond = rule_cond rule, brr_multiplier = rule_multiplier rule,
       brr_matched = False\<rparr>) (comp_rules compiled) \<and> rt_tier st = [] \<and> rt_unit st = UnitToken"
  using assms
  by (auto simp: new_runtime_def result_simps fixed_consistent_def times_agree_def unbounded.agrees_new)

lemma evaluate_steps_cases:
  assumes "evaluate_steps host compiled ctx = Inr r"
  obtains env st v st' x where "new_runtime host compiled ctx = Inr (env, st)"
    and "evaluate_at 256 env (comp_ast compiled) st = Inr (v, st')" and "rv_value v = VNum x"
    and "is_finite x" and "\<not> num_lt x (Fin 0)"
    and "r = \<lparr>cost = x, billingUnit = rt_unit st', fixedPrice = rt_fixed st',
              matchedTier = rt_tier st', requestRules = rt_rules st'\<rparr>"
proof -
  from assms obtain env st v st' where new: "new_runtime host compiled ctx = Inr (env, st)"
    and ev: "evaluate_at 256 env (comp_ast compiled) st = Inr (v, st')"
    and res: "(case rv_value v of
         VNum x \<Rightarrow>
           if \<not> is_finite x \<or> num_lt x (Fin 0) then Inl (diag D_number (js ''billing result''))
           else Inr \<lparr>cost = x, billingUnit = rt_unit st', fixedPrice = rt_fixed st',
                     matchedTier = rt_tier st', requestRules = rt_rules st'\<rparr>
       | _ \<Rightarrow> Inl (diag D_number (js ''billing result''))) = Inr r"
    unfolding evaluate_steps_def evaluate_def result_simps by (clarsimp simp: bind_pair_Inr)
  then show ?thesis
    by (cases "rv_value v") (auto split: if_splits intro: that)
qed

theorem evaluate_steps_success:
  assumes "evaluate_steps host compiled ctx = Inr r"
  shows "is_finite (cost r) \<and> \<not> num_lt (cost r) (Fin 0) \<and>
     (billingUnit r = UnitRequest \<longleftrightarrow> fixedPrice r \<noteq> None) \<and>
     (\<forall>a. fixedPrice r = Some a \<longrightarrow> is_finite a) \<and>
     list_all2 rule_for (comp_rules compiled) (requestRules r)"
  using assms
proof (rule evaluate_steps_cases)
  fix env st v st' x
  assume new: "new_runtime host compiled ctx = Inr (env, st)"
    and ev: "evaluate_at 256 env (comp_ast compiled) st = Inr (v, st')"
    and fin: "is_finite x" "\<not> num_lt x (Fin 0)"
    and r: "r = \<lparr>cost = x, billingUnit = rt_unit st', fixedPrice = rt_fixed st',
              matchedTier = rt_tier st', requestRules = rt_rules st'\<rparr>"
  note st = new_runtime_state [OF new]
  have "fixed_consistent st'" using fixed.evaluate_rel [OF _ ev] st by (simp add: fixed.allowed_def)
  moreover have "list_all2 rule_for (comp_rules compiled) (rt_rules st')"
    using rules.evaluate_rel [OF _ ev] st
    by (auto simp: rules.allowed_def rules_extend_def rule_for_def list_all2_conv_all_nth)
  ultimately show ?thesis using fin r by (auto simp: fixed_consistent_def)
qed

subsection \<open>The value of a node does not depend on the state\<close>

definition same :: "runtime_env \<Rightarrow> ('a \<times> runtime_state) result \<Rightarrow> ('a \<times> runtime_state) result \<Rightarrow> bool" where
  "same env m m' \<longleftrightarrow>
     (case (m, m') of
        (Inl e, Inl e') \<Rightarrow> e = e'
      | (Inr (a, s), Inr (b, t)) \<Rightarrow> a = b \<and> times_agree env s \<and> times_agree env t
      | _ \<Rightarrow> False)"

lemma same_return [simp]: "times_agree env s \<Longrightarrow> times_agree env t \<Longrightarrow> same env (Inr (a, s)) (Inr (a, t))"
  by (simp add: same_def)

lemma same_throw [simp]: "same env (Inl e) (Inl e)"
  by (simp add: same_def)

lemma same_cases:
  assumes "same env m m'"
  obtains (throws) e where "m = Inl e" "m' = Inl e"
    | (returns) a s t where "m = Inr (a, s)" "m' = Inr (a, t)" "times_agree env s" "times_agree env t"
  using assms by (cases m; cases m') (auto simp: same_def)

lemma same_bind:
  assumes "same env m m'"
    and "\<And>a s t. times_agree env s \<Longrightarrow> times_agree env t \<Longrightarrow> same env (f a s) (f a t)"
  shows "same env (bind_result m (\<lambda>(a, s). f a s)) (bind_result m' (\<lambda>(a, s). f a s))"
  using assms(1) by (rule same_cases) (use assms(2) in simp_all)

lemma same_bind2:
  assumes "same env m m'"
    and "\<And>a b s t. times_agree env s \<Longrightarrow> times_agree env t \<Longrightarrow> same env (f a b s) (f a b t)"
  shows "same env (bind_result m (\<lambda>((a, b), s). f a b s)) (bind_result m' (\<lambda>((a, b), s). f a b s))"
  using assms(1) by (rule same_cases) (use assms(2) in \<open>auto split: prod.split\<close>)

lemma same_value:
  "(\<And>a. same env (f a s) (f a t)) \<Longrightarrow>
   same env (bind_result m (\<lambda>a. f a s)) (bind_result m (\<lambda>a. f a t))"
  by (cases m) simp_all

definition stable :: "runtime_env \<Rightarrow> evaluator \<Rightarrow> bool" where
  "stable env ev \<longleftrightarrow> (\<forall>n s t. times_agree env s \<longrightarrow> times_agree env t \<longrightarrow> same env (ev n s) (ev n t))"

lemma stableD: "stable env ev \<Longrightarrow> times_agree env s \<Longrightarrow> times_agree env t \<Longrightarrow> same env (ev n s) (ev n t)"
  by (simp add: stable_def)

lemma same_boolean:
  "stable env ev \<Longrightarrow> times_agree env s \<Longrightarrow> times_agree env t \<Longrightarrow>
   same env (eval_boolean ev n s) (eval_boolean ev n t)"
  unfolding eval_boolean_def by (rule same_bind [OF stableD]) (auto split: js_value.split)

lemma same_numeric:
  "stable env ev \<Longrightarrow> times_agree env s \<Longrightarrow> times_agree env t \<Longrightarrow>
   same env (eval_numeric ev n s) (eval_numeric ev n t)"
  unfolding eval_numeric_def by (rule same_bind [OF stableD]) (auto split: js_value.split)

lemma same_string:
  "stable env ev \<Longrightarrow> times_agree env s \<Longrightarrow> times_agree env t \<Longrightarrow>
   same env (eval_string ev n s) (eval_string ev n t)"
  unfolding eval_string_def by (rule same_bind [OF stableD]) (auto split: js_value.split)

lemma times_agree_simps [simp]:
  "times_agree env (s\<lparr>rt_tier := name\<rparr>) = times_agree env s"
  "times_agree env (s\<lparr>rt_unit := u, rt_fixed := a\<rparr>) = times_agree env s"
  "times_agree env (mark_rule env n s) = times_agree env s"
  by (simp_all add: times_agree_def)

lemma same_time:
  assumes "stable env ev" and "times_agree env s" and "times_agree env t"
  shows "same env (eval_time ev env f args s) (eval_time ev env f args t)"
  unfolding eval_time_def Let_def
proof (rule same_bind [OF same_string [OF assms]])
  fix x s t
  assume st: "times_agree env s" "times_agree env t"
  let ?run = "\<lambda>u. case map_of (rt_times u) (trim x) of
       Some values \<Rightarrow> Inr (\<lparr>rv_value = VNum (time_value f values), rv_integer = True\<rparr>, u)
     | None \<Rightarrow> bind_result (timeInBillingZone (env_host env) (env_now env) (trim x)) (\<lambda>values.
           Inr (\<lparr>rv_value = VNum (time_value f values), rv_integer = True\<rparr>,
                u\<lparr>rt_times := entries_put (trim x) values (rt_times u)\<rparr>))"
  have run: "(case zone_values env (trim x) of
       Inl e \<Rightarrow> ?run u = Inl e
     | Inr tv \<Rightarrow> \<exists>u'. ?run u = Inr (\<lparr>rv_value = VNum (time_value f tv), rv_integer = True\<rparr>, u') \<and> times_agree env u')"
    if u: "times_agree env u" for u
  proof (cases "map_of (rt_times u) (trim x)")
    case None
    with u times.rel_time [of u "trim x" env] show ?thesis
      by (auto simp: zone_values_def split: sum.split)
  next
    case (Some tv)
    with u have "zone_values env (trim x) = Inr tv" by (auto simp: times_agree_def unbounded.agrees_def)
    with Some u show ?thesis by simp
  qed
  show "same env (?run s) (?run t)"
    using run [OF st(1)] run [OF st(2)] by (cases "zone_values env (trim x)") auto
qed

lemma same_call:
  assumes ev: "stable env ev" and st: "times_agree env s" "times_agree env t"
  shows "same env (eval_call ev env n f args s) (eval_call ev env n f args t)"
proof -
  note rules = same_bind [OF same_string [OF ev]] same_bind2 [OF same_numeric [OF ev]] same_bind [OF stableD [OF ev]] same_value
  show ?thesis
  proof (cases f)
    case (F_time tf)
    with same_time [OF assms] show ?thesis by (simp add: eval_call_def)
  next
    case F_has
    then show ?thesis
      by (simp add: eval_call_def eval_has_def) (intro rules st conjI impI | simp)+
  qed (use st in \<open>auto simp: eval_call_def eval_fixed_def eval_tier_def eval_param_def eval_header_def eval_u_def
      eval_unary_math_def eval_binary_math_def Let_def split: option.split intro!: rules\<close>)
qed

lemma same_node:
  assumes ev: "stable env ev" and st: "times_agree env s" "times_agree env t"
  shows "same env (evaluate_node ev env n s) (evaluate_node ev env n t)"
proof (cases n)
  case (Call f args a b)
  with same_call [OF assms] show ?thesis by (simp add: evaluate_node_def)
next
  case (Conditional c yes no a b)
  then show ?thesis
    using st by (auto simp: evaluate_node_def intro!: same_bind [OF same_boolean [OF ev]] stableD [OF ev])
next
  case (Unary op x a b)
  then show ?thesis
    using st by (auto simp: evaluate_node_def eval_unary_def
        intro!: same_bind [OF same_boolean [OF ev]] same_bind2 [OF same_numeric [OF ev]])
next
  case (Binary op l r a b)
  then show ?thesis
    using st by (auto simp: evaluate_node_def eval_binary_def
        intro!: same_bind [OF same_boolean [OF ev]] same_bind [OF stableD [OF ev]] same_value)
qed (use st in \<open>auto simp: evaluate_node_def intro: same_value\<close>)

lemma stable_evaluate_at: "stable env (evaluate_at k env)"
proof (induction k)
  case (Suc k)
  show ?case
    unfolding stable_def evaluate_at.simps
    by (intro allI impI same_bind [OF same_node [OF Suc.IH]] same_value) auto
qed (simp add: stable_def)

theorem value_independent:
  assumes "times_agree env s" and "times_agree env t"
  shows "map_sum id fst (evaluate_at k env n s) = map_sum id fst (evaluate_at k env n t)"
  using stableD [OF stable_evaluate_at assms, of k n] by (rule same_cases) simp_all

subsection \<open>The depth bound\<close>

lemma eval_call_cong:
  assumes "\<And>m s. m \<in> set args \<Longrightarrow> ev m s = ev' m s" and "length args = arity f"
  shows "eval_call ev env n f args s = eval_call ev' env n f args s"
  using assms
  by (cases f) (auto simp: length_one length_two eval_call_def eval_fixed_def eval_tier_def eval_param_def
      eval_header_def eval_u_def eval_has_def eval_time_def eval_unary_math_def eval_binary_math_def
      eval_string_def eval_numeric_def)

lemma evaluate_node_cong:
  assumes "\<And>m s. m \<in> set (children n) \<Longrightarrow> ev m s = ev' m s" and "node_ok n"
  shows "evaluate_node ev env n s = evaluate_node ev' env n s"
proof (cases n)
  case (Call f args a b)
  with assms eval_call_cong [of args ev ev' f] show ?thesis by (simp add: evaluate_node_def)
next
  case (Binary op l r a b)
  with assms have eq: "ev l = ev' l" "ev r = ev' r" "eval_boolean ev l = eval_boolean ev' l"
      "eval_boolean ev r = eval_boolean ev' r"
    by (auto simp: fun_eq_iff eval_boolean_def)
  show ?thesis unfolding Binary evaluate_node_def expression_node.case eval_binary_def eq ..
qed (use assms in \<open>simp_all add: evaluate_node_def eval_unary_def eval_binary_def eval_boolean_def eval_numeric_def\<close>)

theorem evaluate_at_level:
  "wf_tree n \<Longrightarrow> height n < k \<Longrightarrow> height n < k' \<Longrightarrow> evaluate_at k env n s = evaluate_at k' env n s"
proof (induction n arbitrary: k k' s rule: measure_induct_rule [where f = size])
  case (less n)
  then obtain j j' where k: "k = Suc j" "k' = Suc j'" by (metis less_imp_Suc_add)
  have "evaluate_node (evaluate_at j env) env n s = evaluate_node (evaluate_at j' env) env n s"
  proof (rule evaluate_node_cong)
    show "node_ok n" using less.prems(1) by (simp add: wf_tree.simps [of n])
    show "evaluate_at j env m s = evaluate_at j' env m s" if m: "m \<in> set (children n)" for m s
      using less.IH [OF children_smaller [OF m] wf_tree_child [OF less.prems(1) m], of j j']
        height_child [OF m] less.prems(2,3) k by simp
  qed
  then show ?case by (simp add: k evaluate_at.simps)
qed

subsection \<open>Values have the type of their node\<close>

fun has_type :: "js_value \<Rightarrow> expression_type \<Rightarrow> bool" where
  "has_type v Ty_number \<longleftrightarrow> (\<exists>x. v = VNum x)"
| "has_type v Ty_string \<longleftrightarrow> (\<exists>s. v = VStr s)"
| "has_type v Ty_boolean \<longleftrightarrow> (\<exists>b. v = VBool b)"
| "has_type v Ty_nil \<longleftrightarrow> v = VNull"
| "has_type v Ty_dynamic \<longleftrightarrow> True"

text \<open>No sum of the tree has two operands of dynamic type.\<close>

definition sums_typed :: "expression_node \<Rightarrow> bool" where
  "sums_typed n \<longleftrightarrow>
     (\<forall>a b s e. Binary AddOp a b s e \<in> set (postorder n) \<longrightarrow> \<not> (typed a Ty_dynamic \<and> typed b Ty_dynamic))"

lemma sums_typed_child: "sums_typed n \<Longrightarrow> c \<in> set (children n) \<Longrightarrow> sums_typed c"
  using postorder_trans [OF postorder_child] unfolding sums_typed_def by blast

lemma literal_has_type [simp]: "has_type (literal_js v) (literal_type v)"
  by (cases v) simp_all

lemma equality_boolean: "equality n op a b = Inr v \<Longrightarrow> has_type (rv_value v) Ty_boolean"
  by (auto simp: equality_def split: if_splits)

lemma apply_comparison:
  "is_comparison op \<Longrightarrow> apply_operator n op a b = Inr v \<Longrightarrow> has_type (rv_value v) Ty_boolean"
  by (cases op; cases "rv_value a"; cases "rv_value b")
    (auto simp: apply_operator_def Let_def dest: equality_boolean)

lemma apply_arithmetic:
  assumes "\<not> is_logical op" "\<not> is_comparison op" "apply_operator n op a b = Inr v"
    and "op = AddOp \<Longrightarrow> \<not> (\<exists>x y. rv_value a = VStr x \<and> rv_value b = VStr y)"
  shows "has_type (rv_value v) Ty_number"
  using assms
  by (cases op; cases "rv_value a"; cases "rv_value b")
    (auto simp: apply_operator_def arithmetic_def Let_def split: if_splits)

lemma apply_concat:
  "apply_operator n AddOp a b = Inr v \<Longrightarrow> has_type (rv_value a) Ty_string \<Longrightarrow> has_type (rv_value b) Ty_string \<Longrightarrow>
   has_type (rv_value v) Ty_string"
  by (auto simp: apply_operator_def Let_def)

lemma call_value_type:
  assumes "eval_call ev env n f args s = Inr (v, s')" and "call_typed f ts t"
  shows "has_type (rv_value v) t"
proof (cases f)
  case (F_time tf)
  with assms obtain x s1 where "eval_string ev (args ! 0) s = Inr (x, s1)"
    by (auto simp: eval_call_def eval_time_def result_simps)
  with assms F_time show ?thesis
    by (cases "map_of (rt_times s1) (trim x)"; cases ts)
      (auto simp: eval_call_def eval_time_def Let_def result_simps elim: call_typed.elims)
next
  case F_header
  with assms show ?thesis
    by (cases "ctx_request (env_context env)")
      (auto simp: eval_call_def eval_header_def Let_def result_simps elim: call_typed.elims)
next
  case F_has
  with assms show ?thesis
    by (auto simp: eval_call_def eval_has_def result_simps elim!: call_typed.elims split: if_splits)
qed (use assms in \<open>auto simp: eval_call_def eval_fixed_def eval_tier_def eval_unary_math_def eval_binary_math_def
    result_simps elim!: call_typed.elims\<close>)

lemma operand_not_string:
  "has_type v t \<Longrightarrow> Ty_number \<le> t \<Longrightarrow> t \<noteq> Ty_dynamic \<Longrightarrow> \<not> (\<exists>x. v = VStr x)"
  by auto

theorem typed_value:
  "typed n t \<Longrightarrow> wf_tree n \<Longrightarrow> sums_typed n \<Longrightarrow> evaluate_at k env n s = Inr (v, s') \<Longrightarrow> has_type (rv_value v) t"
proof (induction n arbitrary: t k s v s' rule: measure_induct_rule [where f = size])
  case (less n)
  from less.prems(4) obtain j where k: "k = Suc j" by (cases k) auto
  let ?ev = "evaluate_at j env"
  have ev: "evaluate_node ?ev env n s = Inr (v, s')"
    using less.prems(4) unfolding k evaluate_at_Suc_Inr by blast
  have kid: "has_type (rv_value w) tc"
    if "c \<in> set (children n)" "typed c tc" "?ev c u = Inr (w, u')" for c tc w u u'
    using less.IH [OF children_smaller [OF that(1)] that(2) wf_tree_child [OF less.prems(2) that(1)]
        sums_typed_child [OF less.prems(3) that(1)] that(3)] .
  show ?case
    using less.prems(1)
  proof (cases rule: typed.cases)
    case (t_cond c tc yes ta no tb a b)
    then show ?thesis
      using ev kid [of yes] kid [of no] by (auto simp: evaluate_node_def operand_simps split: if_splits)
  next
    case (t_logical l ta r tb op a b)
    then have "op = OrOp \<or> op = AndOp" by (cases op) auto
    with t_logical ev show ?thesis
      by (auto simp: evaluate_node_def eval_binary_def result_simps split: if_splits)
  next
    case (t_comparison l ta r tb op a b)
    then have "op \<noteq> OrOp" "op \<noteq> AndOp" by auto
    with t_comparison ev show ?thesis
      by (auto simp: evaluate_node_def eval_binary_def result_simps dest: apply_comparison)
  next
    case (t_concat l r a b)
    with ev obtain x y u u' where xy: "?ev l s = Inr (x, u)" "?ev r u = Inr (y, u')"
      and ap: "apply_operator n AddOp x y = Inr v"
      by (auto simp: evaluate_node_def eval_binary_def result_simps)
    have "has_type (rv_value x) Ty_string" by (rule kid [OF _ _ xy(1)]) (simp_all add: t_concat)
    moreover have "has_type (rv_value y) Ty_string" by (rule kid [OF _ _ xy(2)]) (simp_all add: t_concat)
    ultimately show ?thesis using apply_concat [OF ap] t_concat(2) by simp
  next
    case (t_arith l ta r tb op a b)
    then have "op \<noteq> OrOp" "op \<noteq> AndOp" by auto
    with t_arith ev obtain x y u u' where xy: "?ev l s = Inr (x, u)" "?ev r u = Inr (y, u')"
      and ap: "apply_operator n op x y = Inr v"
      by (auto simp: evaluate_node_def eval_binary_def result_simps)
    have tx: "has_type (rv_value x) ta" "has_type (rv_value y) tb"
      by (rule kid [OF _ _ xy(1)], simp_all add: t_arith) (rule kid [OF _ _ xy(2)], simp_all add: t_arith)
    have "ta \<noteq> Ty_dynamic \<or> tb \<noteq> Ty_dynamic" if "op = AddOp"
      using less.prems(3) postorder_self [of n] t_arith that unfolding sums_typed_def by blast
    then have "op = AddOp \<Longrightarrow> \<not> (\<exists>p q. rv_value x = VStr p \<and> rv_value y = VStr q)"
      using operand_not_string [OF tx(1)] operand_not_string [OF tx(2)] t_arith by blast
    with t_arith show ?thesis using apply_arithmetic [OF _ _ ap] by simp
  next
    case (t_call args ts f a b)
    with ev call_value_type show ?thesis by (simp add: evaluate_node_def)
  qed (use ev in \<open>auto simp: evaluate_node_def eval_unary_def eval_variable_def result_simps
        split: js_value.splits if_splits option.splits\<close>)
qed

subsection \<open>Fixed prices\<close>

text \<open>A node without pricing markers changes neither the tier nor the unit nor the fixed price.\<close>

definition prices_kept :: "runtime_state \<Rightarrow> runtime_state \<Rightarrow> bool" where
  "prices_kept s s' \<longleftrightarrow> rt_tier s' = rt_tier s \<and> rt_unit s' = rt_unit s \<and> rt_fixed s' = rt_fixed s"

interpretation unpriced: state_relation env "- {F_tier, F_fixed}" prices_kept for env
  by unfold_locales (auto simp: prices_kept_def)

lemma unmarked_kept:
  "wf_tree n \<Longrightarrow> \<not> marked n \<Longrightarrow> evaluate_at k env n s = Inr (v, s') \<Longrightarrow> prices_kept s s'"
  by (rule unpriced.evaluate_rel) (auto simp: unpriced.allowed_def marked_def)

definition rules_from_conditionals :: "request_rule list \<Rightarrow> bool" where
  "rules_from_conditionals rules \<longleftrightarrow>
     (\<forall>r\<in>set rules. \<exists>v i p q w j x y a b.
        rule_node r = Conditional (rule_condition r) (Literal v i p q) (Literal w j x y) a b)"

lemma functions_of_Conditional:
  "functions_of (Conditional c x y a b) = functions_of c \<union> functions_of x \<union> functions_of y"
  by (auto simp: functions_of_def postorder.simps [of "Conditional c x y a b"])

lemma functions_of_Literal [simp]: "functions_of (Literal v i a b) = {}"
  by (auto simp: functions_of_def postorder.simps [of "Literal v i a b"])

lemma multiplier_unmarked:
  "rules_from_conditionals rules \<Longrightarrow> multiplier_rule rules f \<Longrightarrow> \<not> marked f"
proof -
  assume "rules_from_conditionals rules" and "multiplier_rule rules f"
  then obtain r where "r \<in> set rules" and f: "f = rule_node r" and c: "\<not> marked (rule_condition r)"
    unfolding multiplier_rule_def find_Some_iff by (metis nth_mem)
  with \<open>rules_from_conditionals rules\<close> obtain v i p q w j x y a b
    where "rule_node r = Conditional (rule_condition r) (Literal v i p q) (Literal w j x y) a b"
    unfolding rules_from_conditionals_def by metis
  with c f show ?thesis by (simp add: marked_def functions_of_Conditional)
qed

text \<open>The tier that an evaluation chose, and the price it recorded.\<close>

definition tier_chosen ::
  "runtime_env \<Rightarrow> expression_node \<Rightarrow> runtime_state \<Rightarrow> runtime_state \<Rightarrow> bool" where
  "tier_chosen env n s s' \<longleftrightarrow>
     (\<exists>label price a b k u w u'. Call F_tier [label, price] a b \<in> set (postorder n) \<and>
        evaluate_at k env label u = Inr (w, u') \<and> rv_value w = VStr (rt_tier s') \<and>
        (if marked price
         then (\<exists>x i p q c d. price = Call F_fixed [Literal (LNum x) i p q] c d \<and> num_le (Fin 0) x \<and>
               rt_unit s' = UnitRequest \<and> rt_fixed s' = Some x)
         else rt_unit s' = rt_unit s \<and> rt_fixed s' = rt_fixed s))"

lemma tier_chosen_mono:
  assumes "tier_chosen env m t t'" and "m \<in> set (postorder n)" and "prices_kept s t" and "prices_kept t' s'"
  shows "tier_chosen env n s s'"
  using assms postorder_trans [OF assms(2)] unfolding tier_chosen_def prices_kept_def by (metis (no_types, lifting))

lemma fixed_tier_chosen:
  assumes wf: "wf_tree n" and n: "n = Call F_tier [label, Call F_fixed args c d] a b"
    and lab: "\<not> marked label" and amount: "is_fixed_amount (args ! 0)"
    and ev: "evaluate_at k env n s = Inr (v, s')"
  shows "tier_chosen env n s s'"
proof -
  from wf n have "wf_tree (Call F_fixed args c d)" by (simp add: wf_tree_child)
  then obtain l where args: "args = [l]" by (auto simp: wf_tree.simps length_one)
  with amount obtain x i p q where l: "l = Literal (LNum x) i p q" and x: "num_le (Fin 0) x"
    by (auto simp: is_fixed_amount_def split: expression_node.splits literal_value.splits)
  from ev obtain j where k: "k = Suc j" by (cases k) auto
  with ev n obtain w u w' u' nm where w: "evaluate_at j env label s = Inr (w, u)" "rv_value w = VStr nm"
    and w': "evaluate_at j env (Call F_fixed args c d) u = Inr (w', u')" and s': "s' = u'\<lparr>rt_tier := nm\<rparr>"
    by (auto simp: evaluate_at_Suc_Inr evaluate_node_def eval_call_def eval_tier_def operand_simps)
  from w' obtain i' where "j = Suc i'" by (cases j) auto
  with w' args l obtain u2 where u': "u' = u2\<lparr>rt_unit := UnitRequest, rt_fixed := Some x\<rparr>"
    by (cases i') (auto simp: evaluate_at_Suc_Inr evaluate_node_def eval_call_def eval_fixed_def operand_simps)
  have "rt_unit s' = UnitRequest" "rt_fixed s' = Some x" "rv_value w = VStr (rt_tier s')"
    using u' w(2) by (simp_all add: s')
  then show ?thesis
    unfolding tier_chosen_def using postorder_self [of n] n args l w x by fastforce
qed

lemma plain_tier_chosen:
  assumes wf: "wf_tree n" and n: "n = Call F_tier [label, price] a b"
    and lab: "\<not> marked label" and pr: "\<not> marked price"
    and ev: "evaluate_at k env n s = Inr (v, s')"
  shows "tier_chosen env n s s'"
proof -
  from ev obtain j where k: "k = Suc j" by (cases k) auto
  with ev n obtain w u w' u' nm where w: "evaluate_at j env label s = Inr (w, u)" "rv_value w = VStr nm"
    and w': "evaluate_at j env price u = Inr (w', u')" and s': "s' = u'\<lparr>rt_tier := nm\<rparr>"
    by (auto simp: evaluate_at_Suc_Inr evaluate_node_def eval_call_def eval_tier_def operand_simps)
  have "wf_tree label" "wf_tree price" using wf n by (simp_all add: wf_tree_child)
  with lab pr w w' have "prices_kept s u" "prices_kept u u'" using unmarked_kept by blast+
  then have "rt_unit s' = rt_unit s" "rt_fixed s' = rt_fixed s" "rv_value w = VStr (rt_tier s')"
    using w(2) by (simp_all add: prices_kept_def s')
  then show ?thesis
    unfolding tier_chosen_def using postorder_self [of n] n w pr by fastforce
qed

lemma factor_chosen:
  assumes wf: "wf_tree n" and n: "n = Binary MulOp l r a b" and ev: "evaluate_at k env n s = Inr (v, s')"
    and f: "f \<in> {l, r}" "m \<in> {l, r}" "\<not> marked f" "f \<noteq> m \<or> l = r"
    and m: "\<And>j t w t'. evaluate_at j env m t = Inr (w, t') \<Longrightarrow> tier_chosen env m t t'"
  shows "tier_chosen env n s s'"
proof -
  from ev obtain j where k: "k = Suc j" by (cases k) auto
  with ev n obtain w u w' where lr: "evaluate_at j env l s = Inr (w, u)" "evaluate_at j env r u = Inr (w', s')"
    by (auto simp: evaluate_at_Suc_Inr evaluate_node_def eval_binary_def operand_simps)
  have sub: "wf_tree l" "wf_tree r" "l \<in> set (postorder n)" "r \<in> set (postorder n)"
    using wf n by (auto simp: wf_tree_child intro: postorder_child)
  have refl: "prices_kept t t" for t by (simp add: prices_kept_def)
  from f(1,2,4) consider "m = l" "f = r" | "m = r" "f = l" by auto
  then show ?thesis
  proof cases
    case 1
    then show ?thesis
      using tier_chosen_mono [OF m, of j s w u n s s'] unmarked_kept [OF sub(2) _ lr(2)] f(3) lr sub refl by simp
  next
    case 2
    then show ?thesis
      using tier_chosen_mono [OF m, of j u w' s' n s s'] unmarked_kept [OF sub(1) _ lr(1)] f(3) lr sub refl by simp
  qed
qed

theorem pricing_tree_chosen:
  assumes rules: "rules_from_conditionals rules"
  shows "pricing_tree rules n \<Longrightarrow> wf_tree n \<Longrightarrow> evaluate_at k env n s = Inr (v, s') \<Longrightarrow> tier_chosen env n s s'"
proof (induction n arbitrary: k s v s' rule: pricing_tree.induct)
  case (branch c yes no a b)
  let ?n = "Conditional c yes no a b"
  from branch.prems(2) obtain j where k: "k = Suc j" by (cases k) auto
  with branch.prems(2) obtain w u d where c: "evaluate_at j env c s = Inr (w, u)"
    and d: "evaluate_at j env (if d then yes else no) (if d then mark_rule env ?n u else u) = Inr (v, s')"
    by (auto simp: evaluate_at_Suc_Inr evaluate_node_def operand_simps)
  have sub: "wf_tree c" "wf_tree yes" "wf_tree no" using branch.prems(1) by (simp_all add: wf_tree_child)
  have "prices_kept s (if d then mark_rule env ?n u else u)"
    using unmarked_kept [OF sub(1) branch.hyps(1) c] by (simp add: prices_kept_def)
  moreover have "tier_chosen env (if d then yes else no) (if d then mark_rule env ?n u else u) s'"
    using branch.IH d sub by (cases d) auto
  moreover have "(if d then yes else no) \<in> set (postorder ?n)" by (rule postorder_child) simp
  ultimately show ?case using tier_chosen_mono prices_kept_def by blast
next
  case (times_rule r l a b)
  then show ?case
    using multiplier_unmarked [OF rules] wf_tree_child [OF times_rule.prems(1)]
    by (intro factor_chosen [OF times_rule.prems(1) refl times_rule.prems(2), of r l]) auto
next
  case (rule_times r l a b)
  then show ?case
    using multiplier_unmarked [OF rules] wf_tree_child [OF rule_times.prems(1)]
    by (intro factor_chosen [OF rule_times.prems(1) refl rule_times.prems(2), of l r]) auto
next
  case (fixed_tier label args c d a b)
  then show ?case by (intro fixed_tier_chosen [OF _ refl]) auto
next
  case (plain_tier label price a b)
  then show ?case by (intro plain_tier_chosen [OF _ refl]) auto
qed

lemma rules_at_conditional: "r \<in> set (rules_at source n) \<Longrightarrow>
   \<exists>v i p q w j x y a b. rule_node r = n \<and>
     n = Conditional (rule_condition r) (Literal v i p q) (Literal w j x y) a b"
  by (auto simp: rules_at_def split: expression_node.splits literal_value.splits if_splits)

lemma compiled_rules:
  assumes "compile_uncached source = Inr c"
  shows "rules_from_conditionals (comp_rules c) \<and>
     (\<forall>r\<in>set (comp_rules c). rule_node r \<in> set (postorder (comp_ast c)) \<and> height (rule_condition r) \<le> 256)"
proof -
  note ready = compile_ready [OF assms]
  have node: "(\<exists>v i p q w j x y a b.
        rule_node r = Conditional (rule_condition r) (Literal v i p q) (Literal w j x y) a b) \<and>
      rule_node r \<in> set (postorder (comp_ast c))" if "r \<in> set (comp_rules c)" for r
  proof -
    from that ready obtain n where n: "n \<in> set (postorder (comp_ast c))" "r \<in> set (rules_at source n)" by auto
    from rules_at_conditional [OF n(2)] n(1) show ?thesis by auto
  qed
  have "height (rule_condition r) \<le> 256" if r: "r \<in> set (comp_rules c)" for r
  proof -
    have "rule_condition r \<in> set (children (rule_node r))" using node [OF r] by auto
    then show ?thesis
      using height_child [of "rule_condition r" "rule_node r"] postorder_height [of "rule_node r" "comp_ast c"]
        node [OF r] ready by auto
  qed
  with node show ?thesis unfolding rules_from_conditionals_def by blast
qed

theorem compiled_fixed_tree:
  assumes "compile_uncached source = Inr c" and "F_fixed \<in> comp_functions c"
  shows "pricing_tree (comp_rules c) (comp_ast c)"
  using validateFixedPricingTree_iff [of "comp_rules c" "comp_ast c"] compiled_rules [OF assms(1)]
    compile_ready [OF assms(1)] assms(2) by blast

theorem fixed_price_chosen:
  assumes c: "compile_uncached source = Inr c" and "F_fixed \<in> comp_functions c"
    and r: "evaluate_steps host c ctx = Inr r"
  obtains label price a b where "Call F_tier [label, price] a b \<in> set (postorder (comp_ast c))"
    and "if marked price
         then \<exists>x i p q s e. price = Call F_fixed [Literal (LNum x) i p q] s e \<and> num_le (Fin 0) x \<and>
                billingUnit r = UnitRequest \<and> fixedPrice r = Some x
         else billingUnit r = UnitToken \<and> fixedPrice r = None"
proof -
  from r obtain env st v st' where new: "new_runtime host c ctx = Inr (env, st)"
    and ev: "evaluate_at 256 env (comp_ast c) st = Inr (v, st')"
    and res: "billingUnit r = rt_unit st'" "fixedPrice r = rt_fixed st'"
    by (rule evaluate_steps_cases) auto
  have "tier_chosen env (comp_ast c) st st'"
    using pricing_tree_chosen [OF _ compiled_fixed_tree [OF assms(1,2)] _ ev] compiled_rules [OF c] compile_ready [OF c]
    by blast
  moreover have "rt_unit st = UnitToken \<and> rt_fixed st = None"
    using new_runtime_state [OF new] by (cases "rt_fixed st") (auto simp: fixed_consistent_def)
  ultimately show ?thesis
    using that res unfolding tier_chosen_def by (metis (no_types, lifting))
qed

end
