(* ===== verification/Fixed_Price.thy ===== *)
theory Fixed_Price
  imports Runtime_Correct
begin

section \<open>What a fixed price charges\<close>

text \<open>
  The compiler accepts \<^verbatim>\<open>fixed\<close> only in trees whose evaluation can be foreseen
  (\<^verbatim>\<open>validateFixedPricingTree\<close> in \<^verbatim>\<open>parser.ts\<close>). This theory says what that check is
  for, in terms of the evaluation: every fixed amount is a literal that is not negative
  and can be charged, and an evaluation that reports a fixed price costs that amount,
  multiplied only by the request rules that its trace marks as matched.
\<close>

lemma num_mul_commute: "num_mul x y = num_mul y x"
  by (cases x; cases y) (simp_all add: num_mul_def mult.commute)

subsection \<open>The amounts in the tree\<close>

definition chargeable :: "js_num \<Rightarrow> bool" where
  "chargeable x \<longleftrightarrow> is_finite x \<and> 0 \<le> num_value x \<and> is_finite (num_mul x (Fin 1000000))"

lemma is_fixed_amount_chargeable:
  assumes "is_fixed_amount n"
  obtains x i p q where "n = Literal (LNum x) i p q" and "chargeable x"
proof -
  from assms obtain x i p q where n: "n = Literal (LNum x) i p q" "num_le (Fin 0) x"
    "is_finite (num_mul x (Fin 1000000))"
    by (auto simp: is_fixed_amount_def split: expression_node.splits literal_value.splits)
  then have "chargeable x"
    by (cases x) (auto simp: chargeable_def num_le_def num_mul_def signed_inf_def)
  with n(1) that show ?thesis by blast
qed

definition fixed_args_ok :: "expression_node \<Rightarrow> bool" where
  "fixed_args_ok n \<longleftrightarrow> (\<forall>args a b. Call F_fixed args a b \<in> set (postorder n) \<longrightarrow>
     (\<exists>x i p q. args = [Literal (LNum x) i p q] \<and> chargeable x))"

lemma unmarked_fixed_args: "\<not> marked n \<Longrightarrow> fixed_args_ok n"
  by (auto simp: fixed_args_ok_def marked_def functions_of_def)

lemma fixed_args_children:
  assumes "list_all fixed_args_ok (children n)" and "\<And>args a b. n \<noteq> Call F_fixed args a b"
  shows "fixed_args_ok n"
  unfolding fixed_args_ok_def
proof (intro allI impI)
  fix args a b
  assume "Call F_fixed args a b \<in> set (postorder n)"
  then obtain c where "c \<in> set (children n)" "Call F_fixed args a b \<in> set (postorder c)"
    using assms(2) [of args a b] by (auto simp: postorder.simps [of n])
  then show "\<exists>x i p q. args = [Literal (LNum x) i p q] \<and> chargeable x"
    using assms(1) unfolding list_all_iff fixed_args_ok_def by blast
qed

lemma fixed_amount_args:
  assumes "wf_tree (Call F_fixed args a b)" and "is_fixed_amount (args ! 0)"
  shows "fixed_args_ok (Call F_fixed args a b)"
proof -
  from assms(1) obtain l where args: "args = [l]" by (auto simp: wf_tree.simps length_one)
  with assms(2) obtain x i p q where "l = Literal (LNum x) i p q" "chargeable x"
    by (auto elim: is_fixed_amount_chargeable)
  with args show ?thesis
    by (auto simp: fixed_args_ok_def postorder.simps [of "Call _ _ _ _"] postorder.simps [of "Literal _ _ _ _"])
qed

theorem pricing_tree_fixed_args:
  assumes rules: "rules_from_conditionals rules"
  shows "pricing_tree rules n \<Longrightarrow> wf_tree n \<Longrightarrow> fixed_args_ok n"
proof (induction n rule: pricing_tree.induct)
  case (branch c yes no a b)
  then show ?case
    using wf_tree_child [OF branch.prems] unmarked_fixed_args by (intro fixed_args_children) auto
next
  case (times_rule r l a b)
  then show ?case
    using wf_tree_child [OF times_rule.prems] multiplier_unmarked [OF rules] unmarked_fixed_args
    by (intro fixed_args_children) auto
next
  case (rule_times r l a b)
  then show ?case
    using wf_tree_child [OF rule_times.prems] multiplier_unmarked [OF rules] unmarked_fixed_args
    by (intro fixed_args_children) auto
next
  case (fixed_tier label args c d a b)
  then show ?case
    using wf_tree_child [OF fixed_tier.prems] unmarked_fixed_args fixed_amount_args by (intro fixed_args_children) auto
next
  case (plain_tier label price a b)
  then show ?case using unmarked_fixed_args by (intro fixed_args_children) auto
qed

theorem compiled_fixed_args:
  assumes "compile_uncached source = Inr c"
  shows "fixed_args_ok (comp_ast c)"
proof (cases "F_fixed \<in> comp_functions c")
  case True
  then show ?thesis
    using pricing_tree_fixed_args compiled_fixed_tree [OF assms] compiled_rules [OF assms] compile_ready [OF assms] by blast
next
  case False
  then have "F_fixed \<notin> functions_of (comp_ast c)" using compile_ready [OF assms] by simp
  then show ?thesis by (auto simp: fixed_args_ok_def functions_of_def)
qed

subsection \<open>The multipliers of the rules\<close>

text \<open>A factor was applied when it is one, or the multiplier of a rule marked as matched.\<close>

definition applied :: "runtime_state \<Rightarrow> js_num \<Rightarrow> bool" where
  "applied s f \<longleftrightarrow> f = Fin 1 \<or> (\<exists>t\<in>set (rt_rules s). brr_matched t \<and> brr_multiplier t = f)"

lemma applied_mono: "rules_extend s s' \<Longrightarrow> applied s f \<Longrightarrow> applied s' f"
  unfolding rules_extend_def applied_def list_all2_conv_all_nth by (metis in_set_conv_nth)

definition rules_shaped :: "request_rule list \<Rightarrow> bool" where
  "rules_shaped rules \<longleftrightarrow>
     (\<forall>r\<in>set rules. \<exists>i p q j x y a b. rule_node r =
        Conditional (rule_condition r) (Literal (LNum (rule_multiplier r)) i p q) (Literal (LNum (Fin 1)) j x y) a b)"

lemma num_eq_one: "num_eq x (Fin 1) \<longleftrightarrow> x = Fin 1"
  by (cases x) auto

lemma compiled_rules_shaped: "compile_uncached source = Inr c \<Longrightarrow> rules_shaped (comp_rules c)"
  using compile_ready [of source c]
  by (auto simp: rules_shaped_def rules_at_def num_eq_one split: expression_node.splits literal_value.splits if_splits)

definition rules_traced :: "runtime_env \<Rightarrow> runtime_state \<Rightarrow> bool" where
  "rules_traced env s \<longleftrightarrow> list_all2 rule_for (comp_rules (env_compiled env)) (rt_rules s)"

lemma rules_traced_mono: "rules_extend s s' \<Longrightarrow> rules_traced env s \<Longrightarrow> rules_traced env s'"
  by (auto simp: rules_extend_def rules_traced_def rule_for_def list_all2_conv_all_nth)

lemma evaluate_extends: "evaluate_at k env n s = Inr (v, s') \<Longrightarrow> rules_extend s s'"
  by (rule rules.evaluate_rel) (simp add: rules.allowed_def)

lemma evaluate_literal:
  "evaluate_at k env (Literal (LNum x) i p q) s = Inr (v, s') \<Longrightarrow> rv_value v = VNum x \<and> s' = s"
  by (cases k) (auto simp: evaluate_at_Suc_Inr evaluate_node_def)

lemma mark_rule_applies:
  assumes "rules_shaped rules" and rules: "rules = comp_rules (env_compiled env)" and r: "r \<in> set rules"
    and tr: "rules_traced env s"
  shows "applied (mark_rule env (rule_node r) s) (rule_multiplier r)"
proof (cases "find_index (\<lambda>rule. rule_node rule = rule_node r) rules")
  case None
  with r show ?thesis by (auto simp: find_index_None)
next
  case (Some i)
  then have i: "i < length rules" "rule_node (rules ! i) = rule_node r"
    using find_index_Some [OF Some] by auto
  have "rule_multiplier (rules ! i) = rule_multiplier r"
    using bspec [OF assms(1) [unfolded rules_shaped_def] r] bspec [OF assms(1) [unfolded rules_shaped_def] nth_mem [OF i(1)]] i(2)
    by auto
  moreover have "i < length (rt_rules s)" "brr_multiplier (rt_rules s ! i) = rule_multiplier (rules ! i)"
    using tr i(1) rules by (auto simp: rules_traced_def rule_for_def list_all2_conv_all_nth)
  ultimately have "brr_multiplier ((rt_rules s ! i)\<lparr>brr_matched := True\<rparr>) = rule_multiplier r" by simp
  moreover have "(rt_rules s ! i)\<lparr>brr_matched := True\<rparr> \<in> set (rt_rules (mark_rule env (rule_node r) s))"
    using Some \<open>i < length (rt_rules s)\<close> rules by (simp add: mark_rule_def set_update_memI)
  ultimately show ?thesis unfolding applied_def by fastforce
qed

lemma rule_factor:
  assumes shaped: "rules_shaped rules" and rules: "rules = comp_rules (env_compiled env)"
    and f: "multiplier_rule rules f" and tr: "rules_traced env s"
    and ev: "evaluate_at k env f s = Inr (v, s')"
  shows "\<exists>m. rv_value v = VNum m \<and> applied s' m"
proof -
  from f obtain r where r: "r \<in> set rules" and f: "f = rule_node r"
    unfolding multiplier_rule_def find_Some_iff by (metis nth_mem)
  with shaped obtain i p q j x y a b where n: "f =
      Conditional (rule_condition r) (Literal (LNum (rule_multiplier r)) i p q) (Literal (LNum (Fin 1)) j x y) a b"
    unfolding rules_shaped_def by metis
  from ev obtain k' where "k = Suc k'" by (cases k) auto
  with ev n obtain w u d where c: "evaluate_at k' env (rule_condition r) s = Inr (w, u)"
    and d: "evaluate_at k' env (if d then Literal (LNum (rule_multiplier r)) i p q else Literal (LNum (Fin 1)) j x y)
        (if d then mark_rule env f u else u) = Inr (v, s')"
    by (auto simp: evaluate_at_Suc_Inr evaluate_node_def operand_simps)
  have "rules_traced env u" using rules_traced_mono [OF evaluate_extends [OF c]] tr .
  then have "applied (mark_rule env f u) (rule_multiplier r)"
    using mark_rule_applies [OF shaped rules r] f by simp
  with d evaluate_literal show ?thesis
    by (cases d) (fastforce simp: applied_def)+
qed

subsection \<open>The price of an evaluation\<close>

definition fixed_charged :: "expression_node \<Rightarrow> runtime_value \<Rightarrow> runtime_state \<Rightarrow> bool" where
  "fixed_charged n v s' \<longleftrightarrow>
     (\<exists>label x i p q a b d e fs.
        Call F_tier [label, Call F_fixed [Literal (LNum x) i p q] a b] d e \<in> set (postorder n) \<and>
        (\<forall>t j g h. label = Literal (LStr t) j g h \<longrightarrow> rt_tier s' = t) \<and>
        rt_fixed s' = Some x \<and> rv_value v = VNum (foldr num_mul fs (num_mul x (Fin 1000000))) \<and>
        list_all (applied s') fs)"

definition priced :: "expression_node \<Rightarrow> runtime_state \<Rightarrow> runtime_value \<Rightarrow> runtime_state \<Rightarrow> bool" where
  "priced n s v s' \<longleftrightarrow> rt_fixed s' = rt_fixed s \<or> fixed_charged n v s'"

lemma fixed_charged_subtree: "fixed_charged m v s \<Longrightarrow> m \<in> set (postorder n) \<Longrightarrow> fixed_charged n v s"
  using postorder_trans unfolding fixed_charged_def by blast

lemma fixed_charged_later:
  "fixed_charged n v s \<Longrightarrow> prices_kept s s' \<Longrightarrow> rules_extend s s' \<Longrightarrow> fixed_charged n v s'"
  unfolding fixed_charged_def prices_kept_def by (metis (no_types, lifting) applied_mono list_all_iff)

lemma fixed_charged_times:
  assumes "fixed_charged n v s" and "rv_value v = VNum y" and "applied s f"
  shows "fixed_charged n (plain (VNum (num_mul f y))) s"
proof -
  from assms(1) obtain label x i p q a b d e fs where
    c: "Call F_tier [label, Call F_fixed [Literal (LNum x) i p q] a b] d e \<in> set (postorder n)"
      "\<forall>t j g h. label = Literal (LStr t) j g h \<longrightarrow> rt_tier s = t" "rt_fixed s = Some x"
      "rv_value v = VNum (foldr num_mul fs (num_mul x (Fin 1000000)))" "list_all (applied s) fs"
    unfolding fixed_charged_def by blast
  with assms(2,3) have "rv_value (plain (VNum (num_mul f y))) = VNum (foldr num_mul (f # fs) (num_mul x (Fin 1000000)))"
    "list_all (applied s) (f # fs)"
    by simp_all
  with c(1-3) show ?thesis unfolding fixed_charged_def by blast
qed

lemma fixed_charged_value: "fixed_charged n v s \<Longrightarrow> rv_value v = rv_value w \<Longrightarrow> fixed_charged n w s"
  by (simp add: fixed_charged_def)

lemma fixed_tier_priced:
  assumes wf: "wf_tree n" and n: "n = Call F_tier [label, Call F_fixed args c d] a b"
    and amount: "is_fixed_amount (args ! 0)" and ev: "evaluate_at k env n s = Inr (v, s')"
  shows "fixed_charged n v s'"
proof -
  from wf n have "wf_tree (Call F_fixed args c d)" by (simp add: wf_tree_child)
  then obtain l where args: "args = [l]" by (auto simp: wf_tree.simps length_one)
  with amount obtain x i p q where l: "l = Literal (LNum x) i p q" by (auto elim: is_fixed_amount_chargeable)
  from ev obtain j where k: "k = Suc j" by (cases k) auto
  with ev n obtain w u w' u' nm y where w: "evaluate_at j env label s = Inr (w, u)" "rv_value w = VStr nm"
    and w': "evaluate_at j env (Call F_fixed args c d) u = Inr (w', u')" "rv_value w' = VNum y"
    and s': "s' = u'\<lparr>rt_tier := nm\<rparr>" and v: "rv_value v = VNum y"
    by (auto simp: evaluate_at_Suc_Inr evaluate_node_def eval_call_def eval_tier_def operand_simps)
  from w'(1) obtain i' where "j = Suc i'" by (cases j) auto
  with w' args l have "y = num_mul x (Fin 1000000)" "rt_fixed u' = Some x"
    by (cases i'; auto simp: evaluate_at_Suc_Inr evaluate_node_def eval_call_def eval_fixed_def operand_simps)+
  moreover have "t = nm" if "label = Literal (LStr t) j' g h" for t j' g h
    using w that by (cases j) (auto simp: evaluate_at_Suc_Inr evaluate_node_def)
  ultimately have "rv_value v = VNum (foldr num_mul [] (num_mul x (Fin 1000000)))" "rt_fixed s' = Some x"
    "\<forall>t j' g h. label = Literal (LStr t) j' g h \<longrightarrow> rt_tier s' = t"
    "list_all (applied s') []"
    using v s' by auto
  moreover have "Call F_tier [label, Call F_fixed [Literal (LNum x) i p q] c d] a b \<in> set (postorder n)"
    using postorder_self [of n] n args l by simp
  ultimately show ?thesis unfolding fixed_charged_def by blast
qed

lemma apply_mul_Inr: "apply_operator n MulOp w w' = Inr v \<Longrightarrow>
    \<exists>x y. rv_value w = VNum x \<and> rv_value w' = VNum y \<and> rv_value v = VNum (num_mul x y)"
  by (cases "rv_value w"; cases "rv_value w'") (auto simp: apply_operator_def arithmetic_def Let_def)

lemma plain_tier_kept:
  assumes "wf_tree (Call F_tier [label, price] a b)" and "\<not> marked label" and "\<not> marked price"
    and ev: "evaluate_at k env (Call F_tier [label, price] a b) s = Inr (v, s')"
  shows "rt_fixed s' = rt_fixed s"
proof -
  from ev obtain j where k: "k = Suc j" by (cases k) auto
  with ev obtain w u w' u' nm where w: "evaluate_at j env label s = Inr (w, u)"
    and w': "evaluate_at j env price u = Inr (w', u')" and s': "s' = u'\<lparr>rt_tier := nm\<rparr>"
    by (auto simp: evaluate_at_Suc_Inr evaluate_node_def eval_call_def eval_tier_def operand_simps)
  have "wf_tree label" "wf_tree price" using assms(1) by (simp_all add: wf_tree_child)
  with assms(2,3) w w' have "prices_kept s u" "prices_kept u u'" using unmarked_kept by blast+
  then show ?thesis by (simp add: prices_kept_def s')
qed

lemma product_priced:
  assumes shaped: "rules_shaped rules" and rules: "rules = comp_rules (env_compiled env)"
    and wf: "wf_tree n" and n: "n = Binary MulOp l r a b" and ev: "evaluate_at k env n s = Inr (v, s')"
    and f: "multiplier_rule rules f" "\<not> marked f" "(f = l \<and> m = r) \<or> (f = r \<and> m = l)"
    and tr: "rules_traced env s"
    and m: "\<And>j t w t'. evaluate_at j env m t = Inr (w, t') \<Longrightarrow> rules_traced env t \<Longrightarrow> priced m t w t'"
  shows "priced n s v s'"
proof -
  from ev obtain j where k: "k = Suc j" by (cases k) auto
  with ev n obtain w u w' x y where lr: "evaluate_at j env l s = Inr (w, u)" "evaluate_at j env r u = Inr (w', s')"
    and xy: "rv_value w = VNum x" "rv_value w' = VNum y" and v: "rv_value v = VNum (num_mul x y)"
    by (auto simp: evaluate_at_Suc_Inr evaluate_node_def eval_binary_def operand_simps dest: apply_mul_Inr)
  have sub: "wf_tree l" "wf_tree r" "l \<in> set (postorder n)" "r \<in> set (postorder n)"
    using wf n by (auto simp: wf_tree_child intro: postorder_child)
  have u: "rules_traced env u" using rules_traced_mono [OF evaluate_extends [OF lr(1)] tr] .
  note factor = rule_factor [OF shaped rules f(1)]
  from f(3) show ?thesis
  proof
    assume c: "f = l \<and> m = r"
    with factor [OF tr] lr(1) xy(1) have "applied s' x"
      using applied_mono [OF evaluate_extends [OF lr(2)]] by fastforce
    moreover have "priced m u w' s'" using m [OF _ u] lr(2) c by simp
    moreover have "prices_kept s u" using unmarked_kept [OF sub(1) _ lr(1)] f(2) c by simp
    ultimately show ?thesis
      using fixed_charged_subtree [of m "plain (VNum (num_mul x y))" s' n] fixed_charged_times [OF _ xy(2)] c v sub(4)
        fixed_charged_value [of n "plain (VNum (num_mul x y))" s' v]
      by (auto simp: priced_def prices_kept_def)
  next
    assume c: "f = r \<and> m = l"
    with factor [OF u] lr(2) xy(2) have ap: "applied s' y" by fastforce
    have kept: "prices_kept u s'" using unmarked_kept [OF sub(2) _ lr(2)] f(2) c by simp
    have "priced m s w u" using m [OF _ tr] lr(1) c by simp
    then have "priced m s w s'"
      using fixed_charged_later [OF _ kept evaluate_extends [OF lr(2)]] kept by (auto simp: priced_def prices_kept_def)
    moreover have "rv_value v = VNum (num_mul y x)" using v num_mul_commute by simp
    ultimately show ?thesis
      using fixed_charged_subtree [of m "plain (VNum (num_mul y x))" s' n] fixed_charged_times [OF _ xy(1)] c ap sub(3)
        fixed_charged_value [of n "plain (VNum (num_mul y x))" s' v]
      by (auto simp: priced_def)
  qed
qed

theorem pricing_tree_priced:
  assumes shaped: "rules_shaped rules" "rules_from_conditionals rules" and rules: "rules = comp_rules (env_compiled env)"
  shows "pricing_tree rules n \<Longrightarrow> wf_tree n \<Longrightarrow> evaluate_at k env n s = Inr (v, s') \<Longrightarrow> rules_traced env s \<Longrightarrow>
    priced n s v s'"
proof (induction n arbitrary: k s v s' rule: pricing_tree.induct)
  case (branch c yes no a b)
  let ?n = "Conditional c yes no a b"
  from branch.prems(2) obtain j where k: "k = Suc j" by (cases k) auto
  with branch.prems(2) obtain w u d where c: "evaluate_at j env c s = Inr (w, u)"
    and d: "evaluate_at j env (if d then yes else no) (if d then mark_rule env ?n u else u) = Inr (v, s')"
    by (auto simp: evaluate_at_Suc_Inr evaluate_node_def operand_simps)
  let ?u = "if d then mark_rule env ?n u else u"
  have sub: "wf_tree c" "wf_tree yes" "wf_tree no" using branch.prems(1) by (simp_all add: wf_tree_child)
  have "prices_kept s ?u"
    using unmarked_kept [OF sub(1) branch.hyps(1) c] by (simp add: prices_kept_def)
  moreover have "rules_traced env ?u"
    using rules_traced_mono [OF evaluate_extends [OF c] branch.prems(3)] rules_traced_mono [OF rules.rel_mark] by simp
  then have "priced (if d then yes else no) ?u v s'"
    using branch.IH d sub by (cases d) auto
  moreover have "(if d then yes else no) \<in> set (postorder ?n)" by (rule postorder_child) simp
  ultimately show ?case using fixed_charged_subtree by (auto simp: priced_def prices_kept_def)
next
  case (times_rule r l a b)
  then show ?case
    using multiplier_unmarked [OF shaped(2)] wf_tree_child [OF times_rule.prems(1)]
    by (intro product_priced [OF shaped(1) rules times_rule.prems(1) refl times_rule.prems(2), of r l]) auto
next
  case (rule_times r l a b)
  then show ?case
    using multiplier_unmarked [OF shaped(2)] wf_tree_child [OF rule_times.prems(1)]
    by (intro product_priced [OF shaped(1) rules rule_times.prems(1) refl rule_times.prems(2), of l r]) auto
next
  case (fixed_tier label args c d a b)
  then show ?case unfolding priced_def by (intro disjI2 fixed_tier_priced [OF _ refl]) auto
next
  case (plain_tier label price a b)
  then show ?case using plain_tier_kept by (auto simp: priced_def)
qed

interpretation unfixed: state_relation env "- {F_fixed}" "\<lambda>s s'. rt_fixed s' = rt_fixed s" for env
  by unfold_locales auto

theorem compiled_fixed_charged:
  assumes c: "compile_uncached source = Inr c" and r: "evaluate_steps host c ctx = Inr r" and x: "fixedPrice r = Some x"
  shows "\<exists>label i p q a b d e fs.
     Call F_tier [label, Call F_fixed [Literal (LNum x) i p q] a b] d e \<in> set (postorder (comp_ast c)) \<and>
     (\<forall>t j g h. label = Literal (LStr t) j g h \<longrightarrow> matchedTier r = t) \<and>
     cost r = foldr num_mul fs (num_mul x (Fin 1000000)) \<and>
     (\<forall>f\<in>set fs. f = Fin 1 \<or> (\<exists>t\<in>set (requestRules r). brr_matched t \<and> brr_multiplier t = f))"
proof -
  from r obtain env st v st' y where new: "new_runtime host c ctx = Inr (env, st)"
    and ev: "evaluate_at 256 env (comp_ast c) st = Inr (v, st')" and y: "rv_value v = VNum y"
    and res: "r = \<lparr>cost = y, billingUnit = rt_unit st', fixedPrice = rt_fixed st',
              matchedTier = rt_tier st', requestRules = rt_rules st'\<rparr>"
    by (rule evaluate_steps_cases) auto
  note st = new_runtime_state [OF new] and ready = compile_ready [OF c]
  have none: "rt_fixed st = None" using st by (cases "rt_fixed st") (auto simp: fixed_consistent_def)
  have "F_fixed \<in> comp_functions c"
  proof (rule ccontr)
    assume "F_fixed \<notin> comp_functions c"
    then have "unfixed.allowed (comp_ast c)" using ready by (auto simp: unfixed.allowed_def)
    from unfixed.evaluate_rel [OF this ev] none x res show False by simp
  qed
  moreover have "rules_traced env st" using st by (auto simp: rules_traced_def rule_for_def list_all2_conv_all_nth)
  ultimately have "priced (comp_ast c) st v st'"
    using pricing_tree_priced [OF _ _ refl _ _ ev] compiled_fixed_tree [OF c] compiled_rules [OF c]
      compiled_rules_shaped [OF c] ready st by simp
  with none x res have "fixed_charged (comp_ast c) v st'" by (simp add: priced_def)
  then show ?thesis using y res x by (auto simp: fixed_charged_def applied_def list_all_iff)
qed

end
