(* ===== verification/Js_Json.thy ===== *)
theory Js_Json
  imports Js_Value
begin

section \<open>JSON.parse and String\<close>

text \<open>
  The two functions of the language that the request-rule parser applies to quoted text.
  \<^verbatim>\<open>JSON.parse\<close> gives \<open>None\<close> for a text that is not JSON (the exception it throws is the
  callers' matter). The recursive calls are guarded by the length of the rest, which every
  successful call shortens, so that the functions end by that measure. \<^verbatim>\<open>String\<close> of an object
  with a property named \<^verbatim>\<open>toString\<close> throws a \<^verbatim>\<open>TypeError\<close>: no JSON value can be called, and
  \<^verbatim>\<open>valueOf\<close> gives the object back.
\<close>

datatype js_exception = SyntaxError | TypeError

definition is_json_space :: "code_unit \<Rightarrow> bool" where
  "is_json_space c \<longleftrightarrow> c = 32 \<or> c = 9 \<or> c = 10 \<or> c = 13"

definition skip_json :: "js_string \<Rightarrow> js_string" where
  "skip_json s = dropWhile is_json_space s"

subsection \<open>Strings and numbers\<close>

definition json_escape :: "code_unit \<Rightarrow> code_unit option" where
  "json_escape c =
     (if c = 34 \<or> c = 92 \<or> c = 47 then Some c
      else if c = 98 then Some 8 else if c = 102 then Some 12 else if c = 110 then Some 10
      else if c = 114 then Some 13 else if c = 116 then Some 9 else None)"

text \<open>The characters after the opening quote, up to the closing quote.\<close>

fun json_chars :: "js_string \<Rightarrow> js_string \<Rightarrow> (js_string \<times> js_string) option" where
  "json_chars [] acc = None"
| "json_chars (c # s) acc =
     (if c = 34 then Some (acc, s)
      else if c = 92 then
        (case s of
           [] \<Rightarrow> None
         | d # r \<Rightarrow>
             if d = 117 then
               (if 4 \<le> length r \<and> list_all is_hex (take 4 r)
                then json_chars (drop 4 r) (acc @ [parse_hex (take 4 r)]) else None)
             else (case json_escape d of None \<Rightarrow> None | Some e \<Rightarrow> json_chars r (acc @ [e])))
      else if c < 32 then None
      else json_chars s (acc @ [c]))"

definition json_digits :: "js_string \<Rightarrow> (js_string \<times> js_string) option" where
  "json_digits s = (let d = takeWhile is_digit s in if d = [] then None else Some (d, dropWhile is_digit s))"

definition json_integer :: "js_string \<Rightarrow> (js_string \<times> js_string) option" where
  "json_integer s = (if starts_with s [48] then Some ([48], drop 1 s) else json_digits s)"

definition json_fraction :: "js_string \<Rightarrow> (js_string \<times> js_string) option" where
  "json_fraction s =
     (if starts_with s [46] then map_option (\<lambda>(d, r). (46 # d, r)) (json_digits (drop 1 s)) else Some ([], s))"

definition json_exponent :: "js_string \<Rightarrow> (js_string \<times> js_string) option" where
  "json_exponent s =
     (case s of
        e # r \<Rightarrow>
          if e = 101 \<or> e = 69 then
            (case r of
               sign # r' \<Rightarrow>
                 if sign = 43 \<or> sign = 45 then map_option (\<lambda>(d, t). (e # sign # d, t)) (json_digits r')
                 else map_option (\<lambda>(d, t). (e # d, t)) (json_digits r)
             | [] \<Rightarrow> None)
          else Some ([], s)
      | [] \<Rightarrow> Some ([], s))"

definition json_number :: "js_string \<Rightarrow> (js_value \<times> js_string) option" where
  "json_number s =
     (let (sign, s0) = (if starts_with s [45] then ([45], drop 1 s) else ([], s)) in
      Option.bind (json_integer s0) (\<lambda>(i, s1).
      Option.bind (json_fraction s1) (\<lambda>(f, s2).
      Option.bind (json_exponent s2) (\<lambda>(e, s3).
        Some (VNum (number_of_string (sign @ i @ f @ e)), s3)))))"

definition json_word :: "js_string \<Rightarrow> (js_value \<times> js_string) option" where
  "json_word s =
     (if starts_with s (js ''true'') then Some (VBool True, drop 4 s)
      else if starts_with s (js ''false'') then Some (VBool False, drop 5 s)
      else if starts_with s (js ''null'') then Some (VNull, drop 4 s)
      else json_number s)"

subsection \<open>Values\<close>

lemma skip_json_length: "length (skip_json s) \<le> length s"
  by (simp add: skip_json_def length_dropWhile_le)

lemma skip_json_Cons: "skip_json s = c # r \<Longrightarrow> length r < length s"
  using skip_json_length [of s] by simp

text \<open>The rest after a punctuation mark, if it comes next.\<close>

definition after_mark :: "code_unit \<Rightarrow> js_string \<Rightarrow> js_string option" where
  "after_mark m s = (case skip_json s of [] \<Rightarrow> None | c # r \<Rightarrow> if c = m then Some r else None)"

lemma after_mark_length: "after_mark m s = Some r \<Longrightarrow> length r < length s"
  by (auto simp: after_mark_def split: list.splits if_splits dest!: skip_json_Cons)

function json_value :: "js_string \<Rightarrow> (js_value \<times> js_string) option"
  and json_elements :: "js_string \<Rightarrow> js_value list \<Rightarrow> (js_value \<times> js_string) option"
  and json_members :: "js_string \<Rightarrow> (js_string \<times> js_value) list \<Rightarrow> (js_value \<times> js_string) option" where
  "json_value s =
     (case skip_json s of
        [] \<Rightarrow> None
      | c # r \<Rightarrow>
          if c = 34 then map_option (\<lambda>(t, r'). (VStr t, r')) (json_chars r [])
          else if c = 91 then
            (case after_mark 93 r of Some r' \<Rightarrow> Some (VArr [], r') | None \<Rightarrow> json_elements r [])
          else if c = 123 then
            (case after_mark 125 r of Some r' \<Rightarrow> Some (VObj [], r') | None \<Rightarrow> json_members r [])
          else json_word (c # r))"
| "json_elements s acc =
     (case json_value s of
        None \<Rightarrow> None
      | Some (v, s') \<Rightarrow>
          if length s \<le> length s' then None
          else
            (case after_mark 44 s' of
               Some r \<Rightarrow> json_elements r (acc @ [v])
             | None \<Rightarrow> map_option (\<lambda>r. (VArr (acc @ [v]), r)) (after_mark 93 s')))"
| "json_members s acc =
     (case after_mark 34 s of
        None \<Rightarrow> None
      | Some r \<Rightarrow>
          (case json_chars r [] of
             None \<Rightarrow> None
           | Some (k, s1) \<Rightarrow>
               (case after_mark 58 s1 of
                  None \<Rightarrow> None
                | Some s2 \<Rightarrow>
                    if length s \<le> length s2 then None
                    else
                      (case json_value s2 of
                         None \<Rightarrow> None
                       | Some (v, s3) \<Rightarrow>
                           if length s2 \<le> length s3 then None
                           else
                             (case after_mark 44 s3 of
                                Some r' \<Rightarrow> json_members r' (set_own k v acc)
                              | None \<Rightarrow> map_option (\<lambda>r'. (VObj (set_own k v acc), r')) (after_mark 125 s3))))))"
  by pat_completeness auto
termination
  by (relation "measure (case_sum (\<lambda>s. 2 * length s)
        (case_sum (\<lambda>(s, acc). 2 * length s + 1) (\<lambda>(s, acc). 2 * length s + 1)))")
    (auto dest!: skip_json_Cons after_mark_length)

declare json_value.simps [simp del] json_elements.simps [simp del] json_members.simps [simp del]

definition json_parse :: "js_string \<Rightarrow> js_value option" where
  "json_parse s =
     (case json_value s of
        Some (v, r) \<Rightarrow> if skip_json r = [] then Some v else None
      | None \<Rightarrow> None)"

subsection \<open>String\<close>

fun string_of_value :: "js_value \<Rightarrow> js_exception + js_string" where
  "string_of_value VUndefined = Inr (js ''undefined'')"
| "string_of_value VNull = Inr (js ''null'')"
| "string_of_value (VBool b) = Inr (if b then js ''true'' else js ''false'')"
| "string_of_value (VNum x) = Inr (string_of_number x)"
| "string_of_value (VStr s) = Inr s"
| "string_of_value (VArr vs) =
     map_sum id (join (js '',''))
       (map_result (\<lambda>v. if is_nullish v then Inr [] else string_of_value v) vs)"
| "string_of_value (VObj es) =
     (if has_own es (js ''toString'') then Inl TypeError else Inr (js ''[object Object]''))"

subsection \<open>A quoted string reads back\<close>

lemma json_chars_steps:
  "json_chars (34 # r) acc = Some (acc, r)"
  "c \<noteq> 34 \<Longrightarrow> c \<noteq> 92 \<Longrightarrow> \<not> c < 32 \<Longrightarrow> json_chars (c # r) acc = json_chars r (acc @ [c])"
  "d \<noteq> 117 \<Longrightarrow> json_escape d = Some e \<Longrightarrow> json_chars (92 # d # r) acc = json_chars r (acc @ [e])"
  "list_all is_hex [h1, h2, h3, h4] \<Longrightarrow>
   json_chars (92 # 117 # h1 # h2 # h3 # h4 # r) acc = json_chars r (acc @ [parse_hex [h1, h2, h3, h4]])"
  by simp_all

declare json_chars.simps [simp del]

lemma json_chars_unicode:
  "0 \<le> c \<Longrightarrow> c < 65536 \<Longrightarrow> json_chars (unicode_escape c @ post) acc = json_chars post (acc @ [c])"
proof -
  assume c: "0 \<le> c" "c < 65536"
  have "is_hex (hex_digit (x mod 16))" for x by (rule hex_digit_value [THEN conjunct1]) simp_all
  then have "list_all is_hex [hex_digit (c div 4096 mod 16), hex_digit (c div 256 mod 16),
      hex_digit (c div 16 mod 16), hex_digit (c mod 16)]" by simp
  note json_chars_steps(4) [OF this, of post acc]
  then show ?thesis
    unfolding unicode_escape_def parse_hex_escape [OF c] by simp
qed

lemma json_chars_quote_unit:
  "0 \<le> c \<Longrightarrow> c < 65536 \<Longrightarrow> json_chars (quote_unit c @ post) acc = json_chars post (acc @ [c])"
  by (simp add: quote_unit_def json_chars_steps json_escape_def json_chars_unicode)

lemma json_chars_quote_units:
  "code_units s \<Longrightarrow> json_chars (quote_units s @ 34 # post) acc = Some (acc @ s, post)"
proof (induction s arbitrary: acc rule: quote_units.induct)
  case 1
  show ?case by (simp add: json_chars_steps)
next
  case (2 c)
  then show ?case by (simp add: json_chars_unicode json_chars_quote_unit json_chars_steps)
next
  case (3 c d s)
  show ?case
  proof (cases "is_lead c \<and> is_trail d")
    case True
    then have "c \<noteq> 34" "c \<noteq> 92" "\<not> c < 32" "d \<noteq> 34" "d \<noteq> 92" "\<not> d < 32" by (auto simp: is_lead_def is_trail_def)
    with 3 True show ?thesis by (simp add: json_chars_steps)
  next
    case False
    define m where "m = (if is_lead c \<or> is_trail c then unicode_escape c else quote_unit c)"
    have q: "quote_units (c # d # s) = m @ quote_units (d # s)" using False by (auto simp: m_def)
    have "json_chars (m @ quote_units (d # s) @ 34 # post) acc = json_chars (quote_units (d # s) @ 34 # post) (acc @ [c])"
      using "3.prems" by (simp add: m_def json_chars_unicode json_chars_quote_unit)
    also have "\<dots> = Some ((acc @ [c]) @ d # s, post)"
      using "3.IH"(2,3) [OF False] "3.prems" by (cases "is_lead c \<or> is_trail c") simp_all
    finally show ?thesis unfolding q by simp
  qed
qed

theorem json_parse_string: "code_units s \<Longrightarrow> json_parse (json_string s) = Some (VStr s)"
proof -
  assume "code_units s"
  then have "json_chars (quote_units s @ [34]) [] = Some (s, [])" using json_chars_quote_units [of s "[]" "[]"] by simp
  moreover have "skip_json (json_string s) = 34 # quote_units s @ [34]"
    by (simp add: skip_json_def json_string_def is_json_space_def)
  ultimately show ?thesis
    by (simp add: json_parse_def json_value.simps [of "json_string s"] skip_json_def)
qed

end
