(* ===== verification/Expr_Display.thy ===== *)
theory Expr_Display
  imports Runtime_Correct
begin

section \<open>Reading a compiled expression for display (display.ts)\<close>

text \<open>
  The display adapters read a syntax tree as an ordered chain of tiers: conditions on
  token counts with a linear price per tier, branches on the time around such chains, and
  chains over task usage facts. They return \<open>None\<close> for every tree of another shape. An
  object of prices is the list of its properties in the order they were added.
\<close>

subsection \<open>Token tiers\<close>

datatype condition_variable = CV_p | CV_c | CV_len

datatype condition_operator = CO_lt | CO_le | CO_gt | CO_ge

record token_condition =
  tc_var :: condition_variable
  tc_op :: condition_operator
  tc_value :: js_num

record token_tier =
  tt_unit :: billing_unit
  tt_fixed :: "js_num option"
  tt_label :: js_string
  tt_conditions :: "token_condition list"
  tt_prices :: "(token_variable, js_num) entries"

fun flattenBinary :: "expression_node \<Rightarrow> operator \<Rightarrow> expression_node list" where
  "flattenBinary (Binary op' left right s e) op =
     (if op' \<noteq> op then [Binary op' left right s e] else flattenBinary left op @ flattenBinary right op)"
| "flattenBinary node op = [node]"

fun condition_variable_of :: "token_variable \<Rightarrow> condition_variable option" where
  "condition_variable_of TV_p = Some CV_p"
| "condition_variable_of TV_c = Some CV_c"
| "condition_variable_of TV_len = Some CV_len"
| "condition_variable_of _ = None"

fun condition_operator_of :: "operator \<Rightarrow> condition_operator option" where
  "condition_operator_of LtOp = Some CO_lt"
| "condition_operator_of LeOp = Some CO_le"
| "condition_operator_of GtOp = Some CO_gt"
| "condition_operator_of GeOp = Some CO_ge"
| "condition_operator_of _ = None"

definition token_condition_of :: "expression_node \<Rightarrow> token_condition option" where
  "token_condition_of part =
     (case part of
        Binary op (Variable v _ _) (Literal (LNum x) _ _ _) _ _ \<Rightarrow>
          (case (condition_operator_of op, condition_variable_of v) of
             (Some op', Some v') \<Rightarrow>
               if num_lt x (Fin 0) then None else Some \<lparr>tc_var = v', tc_op = op', tc_value = x\<rparr>
           | _ \<Rightarrow> None)
      | _ \<Rightarrow> None)"

definition tokenConditions :: "expression_node \<Rightarrow> token_condition list option" where
  "tokenConditions node = map_option_list token_condition_of (flattenBinary node AndOp)"

definition nonnegativePriceLiteral :: "expression_node \<Rightarrow> js_num option" where
  "nonnegativePriceLiteral node =
     (case node of
        Literal (LNum x) _ _ _ \<Rightarrow> if num_le (Fin 0) x then Some x else None
      | Unary MinusOp (Literal (LNum x) _ _ _) _ _ \<Rightarrow> if num_eq x (Fin 0) then Some NegZero else None
      | _ \<Rightarrow> None)"

text \<open>One term of a linear price; \<open>None\<close> is the early return.\<close>

definition add_price_term ::
  "expression_node \<Rightarrow> (token_variable, js_num) entries option \<Rightarrow> (token_variable, js_num) entries option" where
  "add_price_term term acc =
     Option.bind acc (\<lambda>prices.
       case term of
         Binary MulOp (Variable v _ _) right _ _ \<Rightarrow>
           if v = TV_len \<or> nonnegativePriceLiteral right = None \<or> has_own prices v then None
           else map_option (\<lambda>x. set_own v x prices) (nonnegativePriceLiteral right)
       | _ \<Rightarrow> None)"

definition read_prices :: "expression_node \<Rightarrow> (token_variable, js_num) entries option" where
  "read_prices body = fold add_price_term (flattenBinary body AddOp) (Some [])"

definition tokenTier :: "expression_node \<Rightarrow> token_condition list \<Rightarrow> token_tier option" where
  "tokenTier node conditions =
     (case node of
        Call F_tier (Literal (LStr label) _ _ _ # body # _) _ _ \<Rightarrow>
          (case body of
             Call F_fixed (Literal (LNum x) _ _ _ # _) _ _ \<Rightarrow>
               Some \<lparr>tt_unit = UnitRequest, tt_fixed = Some x, tt_label = label,
                     tt_conditions = conditions, tt_prices = []\<rparr>
           | _ \<Rightarrow>
               (case read_prices body of
                  None \<Rightarrow> None
                | Some prices \<Rightarrow>
                    if prices = [] then None
                    else Some \<lparr>tt_unit = UnitToken, tt_fixed = None, tt_label = label,
                               tt_conditions = conditions, tt_prices = prices\<rparr>))
      | _ \<Rightarrow> None)"

fun readTokenTierChain :: "expression_node \<Rightarrow> token_tier list option" where
  "readTokenTierChain (Conditional c yes no s e) =
     (case tokenConditions c of
        None \<Rightarrow> None
      | Some conditions \<Rightarrow>
          (case tokenTier yes conditions of
             None \<Rightarrow> None
           | Some tier \<Rightarrow> map_option (\<lambda>tiers. tier # tiers) (readTokenTierChain no)))"
| "readTokenTierChain node = map_option (\<lambda>tier. [tier]) (tokenTier node [])"

subsection \<open>Time tiers\<close>

record time_condition =
  tmc_condition :: expression_node
  tmc_matches :: bool

record time_token_tier =
  ttt_tier :: token_tier
  ttt_text :: js_string
  ttt_conditions :: "time_condition list"

fun is_display_function :: "billing_function \<Rightarrow> bool" where
  "is_display_function (F_time _) = True"
| "is_display_function F_min = True"
| "is_display_function F_max = True"
| "is_display_function F_abs = True"
| "is_display_function F_ceil = True"
| "is_display_function F_floor = True"
| "is_display_function _ = False"

definition isTimeCondition :: "expression_node \<Rightarrow> bool result" where
  "isTimeCondition node =
     bind_result (expressionDependencies node) (\<lambda>deps.
       Inr (dep_variables deps = {} \<and> (\<exists>f\<in>dep_functions deps. is_time_function f) \<and>
            (\<forall>f\<in>dep_functions deps. is_display_function f)))"

fun condition_variable_text :: "condition_variable \<Rightarrow> js_string" where
  "condition_variable_text CV_p = js ''p''"
| "condition_variable_text CV_c = js ''c''"
| "condition_variable_text CV_len = js ''len''"

fun condition_operator_text :: "condition_operator \<Rightarrow> js_string" where
  "condition_operator_text CO_lt = js ''<''"
| "condition_operator_text CO_le = js ''<=''"
| "condition_operator_text CO_gt = js ''>''"
| "condition_operator_text CO_ge = js ''>=''"

definition condition_text :: "token_condition \<Rightarrow> js_string" where
  "condition_text c =
     condition_variable_text (tc_var c) @ js '' '' @ condition_operator_text (tc_op c) @ js '' '' @
     string_of_number (tc_value c)"

definition time_condition_text :: "js_string \<Rightarrow> time_condition \<Rightarrow> js_string" where
  "time_condition_text src tc =
     (let s = slice src (node_start (tmc_condition tc)) (node_end (tmc_condition tc)) in
      if tmc_matches tc then js ''('' @ s @ js '')'' else js ''!('' @ s @ js '')'')"

definition time_tier :: "js_string \<Rightarrow> time_condition list \<Rightarrow> token_tier \<Rightarrow> time_token_tier" where
  "time_tier src path tier =
     \<lparr>ttt_tier = tier,
      ttt_text = join (js '' && '')
        (join (js '' && '') (map (time_condition_text src) path) # map condition_text (tt_conditions tier)),
      ttt_conditions = path\<rparr>"

definition time_leaf ::
  "js_string \<Rightarrow> expression_node \<Rightarrow> time_condition list \<Rightarrow> time_token_tier list option" where
  "time_leaf src node path =
     (case readTokenTierChain node of
        None \<Rightarrow> None
      | Some tiers \<Rightarrow> if path = [] then None else Some (map (time_tier src path) tiers))"

fun timeTierBranches ::
  "js_string \<Rightarrow> expression_node \<Rightarrow> time_condition list \<Rightarrow> time_token_tier list option result" where
  "timeTierBranches src (Conditional c yes no s e) path =
     bind_result (isTimeCondition c) (\<lambda>timed.
       if timed then
         bind_result (timeTierBranches src yes (path @ [\<lparr>tmc_condition = c, tmc_matches = True\<rparr>])) (\<lambda>ys.
         bind_result (timeTierBranches src no (path @ [\<lparr>tmc_condition = c, tmc_matches = False\<rparr>])) (\<lambda>ns.
           Inr (case (ys, ns) of (Some ts, Some us) \<Rightarrow> Some (ts @ us) | _ \<Rightarrow> None)))
       else Inr (time_leaf src (Conditional c yes no s e) path))"
| "timeTierBranches src node path = Inr (time_leaf src node path)"

definition tier_is_current ::
  "js_host \<Rightarrow> compiled_expression \<Rightarrow> js_date \<Rightarrow> time_token_tier \<Rightarrow> bool" where
  "tier_is_current host compiled now tier =
     list_all (\<lambda>tc. evaluateBillingCondition host compiled (tmc_condition tc) now = Some (tmc_matches tc))
       (ttt_conditions tier)"

definition read_time_pricing ::
  "js_host \<Rightarrow> compilation_result \<Rightarrow> js_date option \<Rightarrow>
   (time_token_tier list \<times> time_token_tier list) option result" where
  "read_time_pricing host compilation now =
     (case compilation of
        Inl failure \<Rightarrow> Inr None
      | Inr compiled \<Rightarrow>
          bind_result (timeTierBranches (comp_source compiled) (comp_ast compiled) []) (\<lambda>tiers.
            Inr (map_option (\<lambda>ts.
              (ts, case now of Some d \<Rightarrow> filter (tier_is_current host compiled d) ts | None \<Rightarrow> [])) tiers)))"

definition readTimeTokenPricing ::
  "js_host \<Rightarrow> js_string \<Rightarrow> js_date option \<Rightarrow> compile_cache \<Rightarrow>
   (time_token_tier list \<times> time_token_tier list) option result \<times> compile_cache" where
  "readTimeTokenPricing host src now cache =
     (case compileBillingExpression src cache of (compilation, cache') \<Rightarrow>
        (read_time_pricing host compilation now, cache'))"

subsection \<open>Task tiers\<close>

datatype usage_unit = U_second | U_count | U_token | U_credit

datatype usage_type = UT_number | UT_boolean

record usage_field =
  uf_type :: "usage_type option"
  uf_unit :: "usage_unit option"
  uf_enum :: "js_string list option"

type_synonym usage_schema = "(js_string, usage_field) entries"

record task_condition =
  tk_field :: js_string
  tk_value :: js_string

record task_tier =
  tk_label :: js_string
  tk_conditions :: "task_condition list"
  tk_constant :: js_num
  tk_unit_prices :: "(js_string, js_num) entries"

definition schema_type :: "usage_schema \<Rightarrow> js_string \<Rightarrow> usage_type option" where
  "schema_type schema field = Option.bind (map_of schema field) uf_type"

definition schema_unit :: "usage_schema \<Rightarrow> js_string \<Rightarrow> usage_unit option" where
  "schema_unit schema field = Option.bind (map_of schema field) uf_unit"

definition schema_enum :: "usage_schema \<Rightarrow> js_string \<Rightarrow> js_string list option" where
  "schema_enum schema field = Option.bind (map_of schema field) uf_enum"

definition task_condition_value :: "usage_schema \<Rightarrow> bool \<Rightarrow> js_string \<Rightarrow> literal_value \<Rightarrow> js_string option" where
  "task_condition_value schema includeBoolean field val =
     (if schema_type schema field = Some UT_boolean
      then (case val of
              LBool b \<Rightarrow> if includeBoolean then Some (if b then js ''true'' else js ''false'') else None
            | _ \<Rightarrow> None)
      else (case val of
              LStr s \<Rightarrow>
                (case schema_enum schema field of
                   Some options \<Rightarrow> if s \<in> set options then Some s else None
                 | None \<Rightarrow> None)
            | _ \<Rightarrow> None))"

definition task_condition_of :: "usage_schema \<Rightarrow> bool \<Rightarrow> expression_node \<Rightarrow> task_condition option" where
  "task_condition_of schema includeBoolean term =
     (case term of
        Binary EqOp (Call F_u (Literal (LStr field) _ _ _ # _) _ _) (Literal val _ _ _) _ _ \<Rightarrow>
          map_option (\<lambda>v. \<lparr>tk_field = field, tk_value = v\<rparr>)
            (task_condition_value schema includeBoolean field val)
      | _ \<Rightarrow> None)"

definition taskConditions ::
  "expression_node \<Rightarrow> usage_schema \<Rightarrow> bool \<Rightarrow> task_condition list option" where
  "taskConditions node schema includeBoolean =
     map_option_list (task_condition_of schema includeBoolean) (flattenBinary node AndOp)"

record task_sum =
  ts_constant :: js_num
  ts_has_constant :: bool
  ts_unit_prices :: "(js_string, js_num) entries"

text \<open>A term divided by 1000000: whether it is, and what is divided; \<open>None\<close> is the early return.\<close>

definition scaled_term :: "expression_node \<Rightarrow> (bool \<times> expression_node) option" where
  "scaled_term term =
     (case term of
        Binary DivOp left right _ _ \<Rightarrow>
          (case right of
             Literal (LNum x) _ _ _ \<Rightarrow> if num_eq x (Fin 1000000) then Some (True, left) else None
           | _ \<Rightarrow> None)
      | _ \<Rightarrow> Some (False, term))"

definition add_usage_term :: "usage_schema \<Rightarrow> bool \<Rightarrow> expression_node \<Rightarrow> task_sum \<Rightarrow> task_sum option" where
  "add_usage_term schema scaled term acc =
     (case term of
        Binary MulOp (Call F_u (Literal (LStr field) _ _ _ # _) _ _) right _ _ \<Rightarrow>
          (case nonnegativePriceLiteral right of
             None \<Rightarrow> None
           | Some price \<Rightarrow>
               if schema_type schema field \<noteq> Some UT_number \<or> schema_unit schema field = None \<or>
                  has_own (ts_unit_prices acc) field then None
               else if (schema_unit schema field = Some U_token) \<noteq> scaled then None
               else Some (acc\<lparr>ts_unit_prices := set_own field price (ts_unit_prices acc)\<rparr>))
      | _ \<Rightarrow> None)"

definition add_task_term :: "usage_schema \<Rightarrow> expression_node \<Rightarrow> task_sum option \<Rightarrow> task_sum option" where
  "add_task_term schema term acc =
     Option.bind acc (\<lambda>st.
       case nonnegativePriceLiteral term of
         Some x \<Rightarrow> if ts_has_constant st then None else Some (st\<lparr>ts_has_constant := True, ts_constant := x\<rparr>)
       | None \<Rightarrow> Option.bind (scaled_term term) (\<lambda>(scaled, t). add_usage_term schema scaled t st))"

definition taskTier :: "expression_node \<Rightarrow> task_condition list \<Rightarrow> usage_schema \<Rightarrow> task_tier option" where
  "taskTier node conditions schema =
     (case node of
        Call F_tier (Literal (LStr label) _ _ _ # body # _) _ _ \<Rightarrow>
          (case fold (add_task_term schema) (flattenBinary body AddOp)
                  (Some \<lparr>ts_constant = Fin 0, ts_has_constant = False, ts_unit_prices = []\<rparr>) of
             None \<Rightarrow> None
           | Some acc \<Rightarrow>
               if ts_unit_prices acc = [] then None
               else Some \<lparr>tk_label = label, tk_conditions = conditions, tk_constant = ts_constant acc,
                          tk_unit_prices = ts_unit_prices acc\<rparr>)
      | _ \<Rightarrow> None)"

fun readTaskTierChain :: "expression_node \<Rightarrow> usage_schema \<Rightarrow> bool \<Rightarrow> task_tier list option" where
  "readTaskTierChain (Conditional c yes no s e) schema includeBoolean =
     (case taskConditions c schema includeBoolean of
        None \<Rightarrow> None
      | Some conditions \<Rightarrow>
          (case taskTier yes conditions schema of
             None \<Rightarrow> None
           | Some tier \<Rightarrow>
               map_option (\<lambda>tiers. tier # tiers) (readTaskTierChain no schema includeBoolean)))"
| "readTaskTierChain node schema includeBoolean = map_option (\<lambda>tier. [tier]) (taskTier node [] schema)"

end
