(* ===== verification/Expr_Visual.thy ===== *)
theory Expr_Visual
  imports Expr_Display
begin

section \<open>The visual editor's document (visual.ts)\<close>

text \<open>
  A compiled expression of a simple shape is read into a document of conditions and tiers
  whose parts remember the node they were read from. Writing a document reuses the source
  text of every part that was not edited (\<^verbatim>\<open>patchSource\<close>). The list of issues that the
  writers push to is an accumulator here.
\<close>

subsection \<open>Documents\<close>

datatype visual_probe = Probe_count condition_variable | Probe_time time_function

datatype visual_condition =
    VComparison (vc_id: js_string) (vc_origin: "expression_node option") visual_probe js_string operator js_string
  | VAll (vc_id: js_string) (vc_origin: "expression_node option") "visual_condition list"
  | VAny (vc_id: js_string) (vc_origin: "expression_node option") "visual_condition list"
  | VNot (vc_id: js_string) (vc_origin: "expression_node option") visual_condition

record visual_price =
  vp_variable :: token_variable
  vp_value :: js_string
  vp_origin :: "expression_node option"

datatype visual_pricing =
    VTier (vpn_id: js_string) (vpn_origin: "expression_node option") js_string "visual_price list" billing_unit js_string
  | VBranch (vpn_id: js_string) (vpn_origin: "expression_node option") visual_condition visual_pricing visual_pricing

record visual_document =
  doc_source :: js_string
  doc_root :: visual_pricing

record visual_issue =
  issue_id :: js_string
  issue_message :: js_string

abbreviation issue :: "js_string \<Rightarrow> js_string \<Rightarrow> visual_issue" where
  "issue i m \<equiv> \<lparr>issue_id = i, issue_message = m\<rparr>"

subsection \<open>Identifiers\<close>

text \<open>The counter of the module is passed and returned.\<close>

definition visualNodeId :: "nat \<Rightarrow> js_string \<times> nat" where
  "visualNodeId nextId = (js ''draft-'' @ digits_of (nextId + 1), nextId + 1)"

definition createEmptyVisualCondition :: "nat \<Rightarrow> visual_condition \<times> nat" where
  "createEmptyVisualCondition nextId =
     (case visualNodeId nextId of (i, nextId') \<Rightarrow>
        (VComparison i None (Probe_time T_hour) (js ''Asia/Shanghai'') GeOp [], nextId'))"

definition span_id :: "js_string \<Rightarrow> expression_node \<Rightarrow> js_string" where
  "span_id prefix node = prefix @ digits_of (node_start node) @ js ''-'' @ digits_of (node_end node)"

subsection \<open>Reading\<close>

fun literal_string :: "literal_value \<Rightarrow> js_string" where
  "literal_string (LNum x) = string_of_number x"
| "literal_string (LStr s) = s"
| "literal_string (LBool b) = (if b then js ''true'' else js ''false'')"
| "literal_string LNull = js ''null''"

definition probe_of :: "expression_node \<Rightarrow> (visual_probe \<times> js_string) option" where
  "probe_of node =
     (case node of
        Variable v _ _ \<Rightarrow> map_option (\<lambda>c. (Probe_count c, [])) (condition_variable_of v)
      | Call (F_time f) (Literal (LStr zone) _ _ _ # _) _ _ \<Rightarrow> Some (Probe_time f, zone)
      | _ \<Rightarrow> None)"

definition read_comparison :: "expression_node \<Rightarrow> visual_condition option" where
  "read_comparison node =
     (case node of
        Binary op left (Literal (LNum x) _ _ _) _ _ \<Rightarrow>
          if is_comparison op
          then map_option (\<lambda>(probe, zone).
                 VComparison (span_id (js ''condition-'') node) (Some node) probe zone op (string_of_number x))
               (probe_of left)
          else None
      | _ \<Rightarrow> None)"

lemma flatten_smaller:
  "m \<in> set (flattenBinary n op) \<Longrightarrow> size m \<le> size n"
  by (induction n op rule: flattenBinary.induct) (auto split: if_splits)

lemma flatten_smaller_binary [termination_simp]:
  "m \<in> set (flattenBinary l op) \<or> m \<in> set (flattenBinary r op) \<Longrightarrow> size m < Suc (size l + size r)"
  using flatten_smaller [of m l op] flatten_smaller [of m r op] by auto

function readVisualCondition :: "expression_node \<Rightarrow> visual_condition option" where
  "readVisualCondition node =
     (case node of
        Unary NotOp operand _ _ \<Rightarrow>
          map_option (VNot (span_id (js ''condition-'') node) (Some node)) (readVisualCondition operand)
      | Binary op left right _ _ \<Rightarrow>
          if op = AndOp \<or> op = OrOp then
            map_option
              ((if op = AndOp then VAll else VAny) (span_id (js ''condition-'') node) (Some node))
              (map_option_list readVisualCondition (flattenBinary left op @ flattenBinary right op))
          else read_comparison node
      | _ \<Rightarrow> None)"
  by pat_completeness auto
termination
  by (relation "measure size") (auto simp: flatten_smaller_binary)

declare readVisualCondition.simps [simp del]

definition add_visual_price :: "expression_node \<Rightarrow> visual_price list option \<Rightarrow> visual_price list option" where
  "add_visual_price term acc =
     Option.bind acc (\<lambda>prices.
       case term of
         Binary MulOp (Variable v _ _) (Literal (LNum x) _ _ _) _ _ \<Rightarrow>
           if v = TV_len \<or> num_lt x (Fin 0) then None
           else if list_ex (\<lambda>p. vp_variable p = v) prices then None
           else Some (prices @ [\<lparr>vp_variable = v, vp_value = string_of_number x, vp_origin = Some term\<rparr>])
       | _ \<Rightarrow> None)"

definition read_visual_tier :: "expression_node \<Rightarrow> visual_pricing option" where
  "read_visual_tier node =
     (case node of
        Call F_tier (Literal (LStr label) _ _ _ # body # _) _ _ \<Rightarrow>
          (case body of
             Call F_fixed (Literal v _ _ _ # _) _ _ \<Rightarrow>
               Some (VTier (span_id (js ''pricing-'') node) (Some node) label [] UnitRequest (literal_string v))
           | _ \<Rightarrow>
               map_option (\<lambda>prices.
                 VTier (span_id (js ''pricing-'') node) (Some node) label prices UnitToken [])
               (fold add_visual_price (flattenBinary body AddOp) (Some [])))
      | _ \<Rightarrow> None)"

fun readVisualPricing :: "expression_node \<Rightarrow> visual_pricing option" where
  "readVisualPricing (Conditional c yes no s e) =
     (case (readVisualCondition c, readVisualPricing yes, readVisualPricing no) of
        (Some condition, Some y, Some n) \<Rightarrow>
          Some (VBranch (span_id (js ''pricing-'') (Conditional c yes no s e))
            (Some (Conditional c yes no s e)) condition y n)
      | _ \<Rightarrow> None)"
| "readVisualPricing node = read_visual_tier node"

subsection \<open>Patching\<close>

record source_patch =
  patch_node :: expression_node
  patch_text :: js_string

abbreviation patch :: "expression_node \<Rightarrow> js_string \<Rightarrow> source_patch" where
  "patch n t \<equiv> \<lparr>patch_node = n, patch_text = t\<rparr>"

text \<open>The stable sort by descending start.\<close>

fun insert_patch :: "source_patch \<Rightarrow> source_patch list \<Rightarrow> source_patch list" where
  "insert_patch p [] = [p]"
| "insert_patch p (q # qs) =
     (if node_start (patch_node p) < node_start (patch_node q) then q # insert_patch p qs else p # q # qs)"

fun sort_patches :: "source_patch list \<Rightarrow> source_patch list" where
  "sort_patches [] = []"
| "sort_patches (p # ps) = insert_patch p (sort_patches ps)"

text \<open>
  The nodes of the patches are parts of the origin, so that the differences of positions
  are not negative.
\<close>

definition apply_patch :: "expression_node \<Rightarrow> source_patch \<Rightarrow> js_string \<Rightarrow> js_string" where
  "apply_patch origin p result =
     take (node_start (patch_node p) - node_start origin) result @ patch_text p @
     drop (node_end (patch_node p) - node_start origin) result"

definition patchSource :: "js_string \<Rightarrow> expression_node \<Rightarrow> source_patch list \<Rightarrow> js_string" where
  "patchSource source origin patches =
     fold (apply_patch origin) (sort_patches patches) (slice source (node_start origin) (node_end origin))"

subsection \<open>Writing conditions\<close>

definition is_number_text :: "js_string \<Rightarrow> bool" where
  "is_number_text s \<longleftrightarrow> s \<noteq> [] \<and> match_number s = s"

definition parseNonNegativeNumber :: "js_string \<Rightarrow> js_num option" where
  "parseNonNegativeNumber val =
     (if \<not> is_number_text (trim val) then None
      else let x = number_of_string val in if is_finite x \<and> num_le (Fin 0) x then Some x else None)"

fun TIME_DOMAINS :: "time_function \<Rightarrow> int \<times> int" where
  "TIME_DOMAINS T_hour = (0, 23)"
| "TIME_DOMAINS T_minute = (0, 59)"
| "TIME_DOMAINS T_weekday = (0, 6)"
| "TIME_DOMAINS T_month = (1, 12)"
| "TIME_DOMAINS T_day = (1, 31)"

fun probe_name :: "visual_probe \<Rightarrow> js_string" where
  "probe_name (Probe_count v) = condition_variable_text v"
| "probe_name (Probe_time f) = time_function_text f"

text \<open>The comparison \<^verbatim>\<open>value === literal.value\<close> of a parsed number or null.\<close>

fun same_literal :: "js_num option \<Rightarrow> literal_value \<Rightarrow> bool" where
  "same_literal (Some x) (LNum y) = num_eq x y"
| "same_literal None LNull = True"
| "same_literal _ _ = False"

definition valid_comparison_value :: "visual_probe \<Rightarrow> operator \<Rightarrow> js_num option \<Rightarrow> bool" where
  "valid_comparison_value probe op val =
     (case val of
        None \<Rightarrow> False
      | Some x \<Rightarrow>
          (case probe of
             Probe_count _ \<Rightarrow> True
           | Probe_time f \<Rightarrow>
               (case TIME_DOMAINS f of (mn, mx) \<Rightarrow>
                  is_integer x \<and> num_le (Fin (of_int mn)) x \<and>
                  num_le x (Fin (of_int (mx + (if op = LtOp then 1 else 0)))))))"

definition original_zone :: "expression_node option \<Rightarrow> js_string option" where
  "original_zone origin =
     (case origin of
        Some (Binary _ (Call _ (Literal (LStr z) _ _ _ # _) _ _) _ _ _) \<Rightarrow> Some z
      | _ \<Rightarrow> None)"

definition zone_issues :: "js_host \<Rightarrow> js_string \<Rightarrow> expression_node option \<Rightarrow> visual_probe \<Rightarrow> js_string \<Rightarrow> visual_issue list" where
  "zone_issues host i origin probe zone =
     (case probe of
        Probe_count _ \<Rightarrow> []
      | Probe_time _ \<Rightarrow>
          if Some zone = original_zone origin then []
          else if trim zone = [] \<or> intl_format host (trim zone) = None
          then [issue i (js ''Choose a valid IANA timezone.'')] else [])"

fun probe_expression :: "visual_probe \<Rightarrow> js_string \<Rightarrow> js_string" where
  "probe_expression (Probe_count v) zone = condition_variable_text v"
| "probe_expression (Probe_time f) zone = time_function_text f @ js ''('' @ json_string zone @ js '')''"

definition probe_text :: "js_string \<Rightarrow> expression_node \<Rightarrow> visual_probe \<Rightarrow> js_string \<Rightarrow> js_string" where
  "probe_text source oldProbe probe zone =
     (case oldProbe of
        Variable v a b \<Rightarrow>
          if variable_text v = probe_name probe then slice source a b else probe_expression probe zone
      | Call f (Literal (LStr z) _ _ _ # _) a b \<Rightarrow>
          if function_text f = probe_name probe \<and> z = zone then slice source a b
          else probe_expression probe zone
      | _ \<Rightarrow> probe_expression probe zone)"

definition value_text :: "js_string \<Rightarrow> expression_node \<Rightarrow> js_num option \<Rightarrow> js_string \<Rightarrow> js_string" where
  "value_text source node val txt =
     (case node of
        Literal v _ a b \<Rightarrow> if same_literal val v then slice source a b else txt
      | _ \<Rightarrow> txt)"

definition write_comparison ::
  "js_host \<Rightarrow> js_string \<Rightarrow> js_string \<Rightarrow> expression_node option \<Rightarrow> visual_probe \<Rightarrow> js_string \<Rightarrow> operator \<Rightarrow> js_string \<Rightarrow>
   visual_issue list \<Rightarrow> js_string \<times> visual_issue list" where
  "write_comparison host source i origin probe zone op val issues =
     (let x = parseNonNegativeNumber val;
          issues1 = (if valid_comparison_value probe op x then issues
                     else issues @ [issue i (js ''Enter a valid condition value.'')]);
          issues2 = issues1 @ zone_issues host i origin probe zone;
          plain_text = js ''('' @ probe_expression probe zone @ js '' '' @ operator_text op @ js '' '' @ val @ js '')'' in
      case origin of
        Some (Binary op' left right a b) \<Rightarrow>
          if op' = op
          then (patchSource source (Binary op' left right a b)
                  [patch left (probe_text source left probe zone), patch right (value_text source right x val)], issues2)
          else (plain_text, issues2)
      | _ \<Rightarrow> (plain_text, issues2))"

definition write_group ::
  "js_string \<Rightarrow> expression_node option \<Rightarrow> operator \<Rightarrow> visual_condition list \<Rightarrow> js_string list \<Rightarrow> js_string" where
  "write_group source origin op kids texts =
     (let plain_text = js ''('' @ join (js '' '' @ operator_text op @ js '' '')
            (map (\<lambda>t. js ''('' @ t @ js '')'') texts) @ js '')'' in
      case origin of
        Some (Binary op' left right a b) \<Rightarrow>
          if op' = op \<and> map Some (flattenBinary (Binary op' left right a b) op) = map vc_origin kids
          then patchSource source (Binary op' left right a b)
                 (map2 patch (flattenBinary (Binary op' left right a b) op) texts)
          else plain_text
      | _ \<Rightarrow> plain_text)"

definition group_issues :: "js_string \<Rightarrow> visual_condition list \<Rightarrow> visual_issue list \<Rightarrow> visual_issue list" where
  "group_issues i kids issues =
     (if kids = [] then issues @ [issue i (js ''Add at least one condition to this group.'')] else issues)"

fun writeVisualCondition ::
  "js_host \<Rightarrow> js_string \<Rightarrow> visual_condition \<Rightarrow> visual_issue list \<Rightarrow> js_string \<times> visual_issue list"
and write_conditions ::
  "js_host \<Rightarrow> js_string \<Rightarrow> visual_condition list \<Rightarrow> visual_issue list \<Rightarrow> js_string list \<times> visual_issue list" where
  "writeVisualCondition host source (VNot i origin child) issues =
     (case writeVisualCondition host source child issues of (t, issues') \<Rightarrow>
        (case origin of
           Some (Unary op operand a b) \<Rightarrow>
             if vc_origin child = Some operand
             then (patchSource source (Unary op operand a b) [patch operand t], issues')
             else (js ''!('' @ t @ js '')'', issues')
         | _ \<Rightarrow> (js ''!('' @ t @ js '')'', issues')))"
| "writeVisualCondition host source (VAll i origin kids) issues =
     (case write_conditions host source kids (group_issues i kids issues) of (ts, issues') \<Rightarrow>
        (write_group source origin AndOp kids ts, issues'))"
| "writeVisualCondition host source (VAny i origin kids) issues =
     (case write_conditions host source kids (group_issues i kids issues) of (ts, issues') \<Rightarrow>
        (write_group source origin OrOp kids ts, issues'))"
| "writeVisualCondition host source (VComparison i origin probe zone op val) issues =
     write_comparison host source i origin probe zone op val issues"
| "write_conditions host source [] issues = ([], issues)"
| "write_conditions host source (c # cs) issues =
     (case writeVisualCondition host source c issues of (t, issues1) \<Rightarrow>
      case write_conditions host source cs issues1 of (ts, issues2) \<Rightarrow> (t # ts, issues2))"

definition visualConditionExpression :: "js_host \<Rightarrow> visual_condition \<Rightarrow> js_string \<Rightarrow> js_string option" where
  "visualConditionExpression host node source =
     (case writeVisualCondition host source node [] of (t, issues) \<Rightarrow> if issues = [] then Some t else None)"

subsection \<open>Writing prices\<close>

definition label_text :: "js_string \<Rightarrow> expression_node \<Rightarrow> js_string \<Rightarrow> js_string" where
  "label_text source node label =
     (case node of
        Literal (LStr s) _ a b \<Rightarrow> if s = label then slice source a b else json_string label
      | _ \<Rightarrow> json_string label)"

definition fixed_text :: "js_string \<Rightarrow> expression_node \<Rightarrow> js_num option \<Rightarrow> js_string \<Rightarrow> js_string" where
  "fixed_text source price val txt =
     (case price of
        Call F_fixed (Literal v i a b # rest) s e \<Rightarrow>
          patchSource source price [patch (Literal v i a b) (value_text source (Literal v i a b) val txt)]
      | _ \<Rightarrow> js ''fixed('' @ txt @ js '')'')"

definition fixed_issues :: "js_string \<Rightarrow> js_num option \<Rightarrow> visual_issue list" where
  "fixed_issues i val =
     (if (case val of None \<Rightarrow> True | Some x \<Rightarrow> \<not> is_finite (num_mul x (Fin 1000000)))
      then [issue (i @ js '':fixed'') (js ''Enter a finite, non-negative price.'')] else [])"

definition write_request_tier ::
  "js_string \<Rightarrow> expression_node option \<Rightarrow> js_string \<Rightarrow> js_string \<Rightarrow> js_string" where
  "write_request_tier source origin label fixed =
     (let x = parseNonNegativeNumber fixed in
      case origin of
        Some (Call F_tier (lab # price # rest) a b) \<Rightarrow>
          patchSource source (Call F_tier (lab # price # rest) a b)
            [patch lab (label_text source lab label), patch price (fixed_text source price x fixed)]
      | _ \<Rightarrow> js ''tier('' @ json_string label @ js '', fixed('' @ fixed @ js ''))'')"

record price_writing =
  pw_terms :: "js_string list"
  pw_patches :: "source_patch list"
  pw_issues :: "visual_issue list"

definition write_price :: "js_string \<Rightarrow> js_string \<Rightarrow> visual_price \<Rightarrow> price_writing \<Rightarrow> price_writing" where
  "write_price source i price st =
     (let x = parseNonNegativeNumber (vp_value price);
          issues = (if x = None
            then pw_issues st @ [issue (i @ js '':'' @ variable_text (vp_variable price))
                   (js ''Enter a finite, non-negative price.'')]
            else pw_issues st) in
      case vp_origin price of
        Some (Binary op left (Literal v w a b) s e) \<Rightarrow>
          (let right = Literal v w a b; t = value_text source right x (vp_value price) in
           \<lparr>pw_terms = pw_terms st @ [patchSource source (Binary op left right s e) [patch right t]],
            pw_patches = pw_patches st @ [patch right t], pw_issues = issues\<rparr>)
      | _ \<Rightarrow>
          st\<lparr>pw_terms := pw_terms st @ [variable_text (vp_variable price) @ js '' * '' @ vp_value price],
             pw_issues := issues\<rparr>)"

definition write_token_tier ::
  "js_string \<Rightarrow> expression_node option \<Rightarrow> js_string \<Rightarrow> visual_price list \<Rightarrow> price_writing \<Rightarrow> js_string" where
  "write_token_tier source origin label prices st =
     (case origin of
        Some (Call F_tier (lab # body # rest) a b) \<Rightarrow>
          (let node = Call F_tier (lab # body # rest) a b; lt = patch lab (label_text source lab label) in
           if map Some (flattenBinary body AddOp) = map vp_origin prices
           then patchSource source node (lt # pw_patches st)
           else patchSource source node [lt, patch body (join (js '' + '') (pw_terms st))])
      | _ \<Rightarrow> js ''tier('' @ json_string label @ js '', '' @ join (js '' + '') (pw_terms st) @ js '')'')"

fun writeVisualPricing ::
  "js_host \<Rightarrow> js_string \<Rightarrow> visual_pricing \<Rightarrow> visual_issue list \<Rightarrow> js_string \<times> visual_issue list" where
  "writeVisualPricing host source (VBranch i origin condition yes no) issues =
     (case writeVisualCondition host source condition issues of (tc, issues1) \<Rightarrow>
      case writeVisualPricing host source yes issues1 of (ty, issues2) \<Rightarrow>
      case writeVisualPricing host source no issues2 of (tn, issues3) \<Rightarrow>
        (case origin of
           Some (Conditional c y n a b) \<Rightarrow>
             (patchSource source (Conditional c y n a b) [patch c tc, patch y ty, patch n tn], issues3)
         | _ \<Rightarrow> (js ''('' @ tc @ js '') ? ('' @ ty @ js '') : ('' @ tn @ js '')'', issues3)))"
| "writeVisualPricing host source (VTier i origin label prices unit fixed) issues =
     (if unit = UnitRequest
      then (write_request_tier source origin label fixed,
            issues @ fixed_issues i (parseNonNegativeNumber fixed))
      else
        (let issues1 = (if prices = []
              then issues @ [issue i (js ''Include at least one price variable.'')] else issues);
             st = fold (write_price source i) prices
               \<lparr>pw_terms = [], pw_patches = [], pw_issues = issues1\<rparr> in
         (write_token_tier source origin label prices st, pw_issues st)))"

subsection \<open>Documents in and out\<close>

definition serializeVisualBillingDocument ::
  "js_host \<Rightarrow> visual_document \<Rightarrow> compile_cache \<Rightarrow> (visual_issue list + js_string) \<times> compile_cache" where
  "serializeVisualBillingDocument host doc cache =
     (case writeVisualPricing host (doc_source doc) (doc_root doc) [] of (body, issues) \<Rightarrow>
        if issues \<noteq> [] then (Inl issues, cache)
        else
          (case compileBillingExpression (doc_source doc) cache of
             (Inl failure, cache1) \<Rightarrow>
               (Inl [issue (vpn_id (doc_root doc))
                  (js ''This expression cannot be edited visually without losing information.'')], cache1)
           | (Inr original, cache1) \<Rightarrow>
               (let source = take (node_start (comp_ast original)) (doc_source doc) @ body @
                             drop (node_end (comp_ast original)) (doc_source doc) in
                case compileBillingExpression source cache1 of
                  (Inl failure, cache2) \<Rightarrow>
                    (Inl [issue (vpn_id (doc_root doc)) (js ''Enter a valid condition value.'')], cache2)
                | (Inr again, cache2) \<Rightarrow> (Inr source, cache2))))"

definition parseVisualBillingDocument ::
  "js_host \<Rightarrow> js_string \<Rightarrow> compile_cache \<Rightarrow> visual_document option \<times> compile_cache" where
  "parseVisualBillingDocument host source cache =
     (case compileBillingExpression source cache of
        (Inl failure, cache1) \<Rightarrow> (None, cache1)
      | (Inr compiled, cache1) \<Rightarrow>
          (case readVisualPricing (comp_ast compiled) of
             None \<Rightarrow> (None, cache1)
           | Some rootNode \<Rightarrow>
               (let doc = \<lparr>doc_source = source, doc_root = rootNode\<rparr> in
                case serializeVisualBillingDocument host doc cache1 of
                  (Inr _, cache2) \<Rightarrow> (Some doc, cache2)
                | (Inl _, cache2) \<Rightarrow> (None, cache2))))"

end
