(* ===== verification/Visual_Correct.thy ===== *)
theory Visual_Correct
  imports Expr_Visual
begin

section \<open>Writing a document keeps the text that was not edited\<close>

text \<open>
  \<open>patchSource\<close> with patches that lie one after the other is the weaving of the untouched
  text between them with their texts. A document that was read from a compiled expression
  and not edited is therefore written back as the very text it was read from.
\<close>

subsection \<open>Patching is weaving\<close>

fun weave :: "js_string \<Rightarrow> nat \<Rightarrow> source_patch list \<Rightarrow> nat \<Rightarrow> js_string" where
  "weave src lo [] hi = slice src lo hi"
| "weave src lo (p # ps) hi =
     slice src lo (node_start (patch_node p)) @ patch_text p @ weave src (node_end (patch_node p)) ps hi"

abbreviation real_span :: "expression_node \<Rightarrow> bool" where
  "real_span n \<equiv> node_start n < node_end n"

lemma spans_in_starts:
  "spans_in lo ns hi \<Longrightarrow> list_all real_span ns \<Longrightarrow> n \<in> set ns \<Longrightarrow> lo \<le> node_start n \<and> node_end n \<le> hi"
  by (rule spans_in_member) (auto simp: list_all_iff)

lemma insert_patch_last:
  "(\<And>q. q \<in> set qs \<Longrightarrow> node_start (patch_node p) < node_start (patch_node q)) \<Longrightarrow> insert_patch p qs = qs @ [p]"
  by (induction qs) auto

lemma sort_patches_ordered:
  "spans_in lo (map patch_node ps) hi \<Longrightarrow> list_all real_span (map patch_node ps) \<Longrightarrow> sort_patches ps = rev ps"
proof (induction ps arbitrary: lo)
  case (Cons p ps)
  have "sort_patches ps = rev ps" using Cons.prems by (intro Cons.IH [of "node_end (patch_node p)"]) simp_all
  moreover have "node_start (patch_node p) < node_start (patch_node q)" if "q \<in> set ps" for q
    using spans_in_starts [of "node_end (patch_node p)" "map patch_node ps" hi "patch_node q"] that Cons.prems by auto
  ultimately show ?case using insert_patch_last [of "rev ps" p] by simp
qed simp

lemma apply_patch_prefix:
  assumes "length x = node_end (patch_node p) - node_start origin" and "real_span (patch_node p)"
  shows "apply_patch origin p (x @ y) = take (node_start (patch_node p) - node_start origin) x @ patch_text p @ y"
  using assms by (simp add: apply_patch_def)

lemma foldr_patches:
  assumes "node_start origin \<le> lo" and "lo \<le> node_end origin" and "node_end origin \<le> length src"
  shows "spans_in lo (map patch_node ps) (node_end origin) \<Longrightarrow> list_all real_span (map patch_node ps) \<Longrightarrow>
    foldr (apply_patch origin) ps (slice src (node_start origin) (node_end origin)) =
      slice src (node_start origin) lo @ weave src lo ps (node_end origin)"
  using assms
proof (induction ps arbitrary: lo)
  case Nil
  then show ?case by (simp add: slice_append)
next
  case (Cons p ps)
  let ?s = "node_start origin" and ?a = "node_start (patch_node p)" and ?b = "node_end (patch_node p)"
  have in_: "lo \<le> ?a" "?a < ?b" "?b \<le> node_end origin"
    using Cons.prems spans_in_starts [of lo "map patch_node (p # ps)" "node_end origin" "patch_node p"] by auto
  then have "foldr (apply_patch origin) ps (slice src ?s (node_end origin)) =
      slice src ?s ?b @ weave src ?b ps (node_end origin)"
    using Cons.prems by (intro Cons.IH) auto
  moreover have "length (slice src ?s ?b) = ?b - ?s" using in_ Cons.prems by simp
  moreover have "take (?a - ?s) (slice src ?s ?b) = slice src ?s lo @ slice src lo ?a"
    using in_ Cons.prems by (simp add: take_slice slice_append min_def)
  ultimately show ?case using in_ by (simp add: apply_patch_prefix del: length_slice)
qed

theorem patchSource_weave:
  assumes "spans_in (node_start origin) (map patch_node ps) (node_end origin)"
    and "list_all real_span (map patch_node ps)" and "real_span origin" and "node_end origin \<le> length src"
  shows "patchSource src origin ps = weave src (node_start origin) ps (node_end origin)"
proof -
  have "fold (apply_patch origin) (rev ps) x = foldr (apply_patch origin) ps x" for x
    by (simp add: foldr_conv_fold)
  then show ?thesis
    using sort_patches_ordered [OF assms(1,2)] foldr_patches [of origin "node_start origin" src ps] assms
    by (simp add: patchSource_def)
qed

definition unedited :: "js_string \<Rightarrow> source_patch \<Rightarrow> bool" where
  "unedited src p \<longleftrightarrow> patch_text p = slice src (node_start (patch_node p)) (node_end (patch_node p))"

lemma weave_unedited:
  "spans_in lo (map patch_node ps) hi \<Longrightarrow> list_all real_span (map patch_node ps) \<Longrightarrow> lo \<le> hi \<Longrightarrow> hi \<le> length src \<Longrightarrow>
   list_all (unedited src) ps \<Longrightarrow> weave src lo ps hi = slice src lo hi"
proof (induction ps arbitrary: lo)
  case (Cons p ps)
  let ?a = "node_start (patch_node p)" and ?b = "node_end (patch_node p)"
  have in_: "lo \<le> ?a" "?a < ?b" "?b \<le> hi"
    using Cons.prems spans_in_starts [of lo "map patch_node (p # ps)" hi "patch_node p"] by auto
  have "weave src ?b ps hi = slice src ?b hi" using Cons in_ by simp
  with Cons.prems in_ show ?case by (simp add: unedited_def slice_append del: append_assoc flip: append_assoc)
qed simp

lemma patchSource_unedited:
  assumes "spans_in (node_start origin) (map patch_node ps) (node_end origin)"
    and "list_all real_span (map patch_node ps)" and "real_span origin" and "node_end origin \<le> length src"
    and "list_all (unedited src) ps"
  shows "patchSource src origin ps = slice src (node_start origin) (node_end origin)"
  using assms weave_unedited [OF assms(1,2) _ assms(4,5)] by (simp add: patchSource_weave)

subsection \<open>Flattened operands\<close>

lemma spans_in_append: "spans_in lo ms mid \<Longrightarrow> spans_in mid ns hi \<Longrightarrow> spans_in lo (ms @ ns) hi"
  by (induction ms arbitrary: lo) (auto elim: spans_in_weaken)

lemma flatten_spans:
  "wf_tree n \<Longrightarrow> list_all wf_tree (flattenBinary n op) \<and> spans_in (node_start n) (flattenBinary n op) (node_end n)"
proof (induction n op rule: flattenBinary.induct)
  case (1 op' l r s e op)
  then have lr: "wf_tree l" "wf_tree r" "s \<le> node_start l" "node_end l \<le> node_start r" "node_end r \<le> e"
    by (auto simp: wf_tree.simps [of "Binary op' l r s e"])
  show ?case
  proof (cases "op' = op")
    case True
    from 1(1,2) True lr have l: "list_all wf_tree (flattenBinary l op)" "spans_in (node_start l) (flattenBinary l op) (node_end l)"
      and r: "list_all wf_tree (flattenBinary r op)" "spans_in (node_start r) (flattenBinary r op) (node_end r)" by auto
    have "spans_in s (flattenBinary l op @ flattenBinary r op) e"
      using l(2) r(2) lr by (intro spans_in_append [of _ _ "node_end l"]) (auto elim: spans_in_weaken)
    with True l r show ?thesis by simp
  qed (use 1(3) wf_tree_span in auto)
qed (auto dest: wf_tree_span)

lemma flatten_nonempty: "flattenBinary n op \<noteq> []"
  by (induction n op rule: flattenBinary.induct) auto

lemma flatten_binary_spans:
  "wf_tree (Binary op l r s e) \<Longrightarrow>
   list_all wf_tree (flattenBinary l op @ flattenBinary r op) \<and> spans_in s (flattenBinary l op @ flattenBinary r op) e"
  using flatten_spans [of "Binary op l r s e" op] by simp

lemma wf_kids: "wf_tree n \<Longrightarrow> list_all wf_tree (children n) \<and> spans_in (node_start n) (children n) (node_end n)"
  by (simp add: wf_tree.simps [of n])

lemma wf_real_spans: "list_all wf_tree ns \<Longrightarrow> list_all real_span ns"
  by (auto simp: list_all_iff dest: wf_tree_span)

subsection \<open>Conditions\<close>

definition source_text :: "js_string \<Rightarrow> expression_node \<Rightarrow> js_string" where
  "source_text src n = slice src (node_start n) (node_end n)"

lemma patchSource_same:
  assumes "wf_tree origin" and "node_end origin \<le> length src"
    and "list_all wf_tree ns" and "spans_in (node_start origin) ns (node_end origin)"
  shows "patchSource src origin (map (\<lambda>n. patch n (source_text src n)) ns) = source_text src origin"
  unfolding source_text_def
  by (rule patchSource_unedited)
    (use assms wf_real_spans in \<open>auto simp: wf_tree_span comp_def unedited_def list_all_iff\<close>)

lemma num_eq_unsigned: "is_unsigned x \<Longrightarrow> num_eq x x"
  by (cases x) auto

lemma parse_printed:
  "is_double x \<Longrightarrow> is_unsigned x \<Longrightarrow> parseNonNegativeNumber (string_of_number x) = Some y \<Longrightarrow> y = x"
  by (auto simp: parseNonNegativeNumber_def Let_def number_of_string_of_number split: if_splits)

lemma value_text_same:
  assumes "wf_tree (Literal (LNum x) w a b)" and "parseNonNegativeNumber (string_of_number x) \<noteq> None"
  shows "value_text src (Literal (LNum x) w a b) (parseNonNegativeNumber (string_of_number x)) txt' =
    source_text src (Literal (LNum x) w a b)"
  using assms parse_printed [of x] num_eq_unsigned [of x]
  by (auto simp: value_text_def source_text_def wf_tree.simps)

lemma probe_text_same:
  "probe_of left = Some (probe, zone) \<Longrightarrow> probe_text src left probe zone = source_text src left"
proof -
  assume p: "probe_of left = Some (probe, zone)"
  consider (var) v a b c where "left = Variable v a b" "condition_variable_of v = Some c" "probe = Probe_count c"
    | (call) f i a' b' args a b where "left = Call (F_time f) (Literal (LStr zone) i a' b' # args) a b" "probe = Probe_time f"
    using p by (auto simp: probe_of_def split: expression_node.splits billing_function.splits list.splits literal_value.splits)
  then show ?thesis
  proof cases
    case var
    then show ?thesis by (auto simp: probe_text_def source_text_def elim!: condition_variable_of.elims)
  qed (simp add: probe_text_def source_text_def)
qed

lemma read_comparison_Some:
  assumes "read_comparison node = Some c"
  obtains op left x w a b s e probe zone where "node = Binary op left (Literal (LNum x) w a b) s e"
    and "probe_of left = Some (probe, zone)"
    and "c = VComparison (span_id (js ''condition-'') node) (Some node) probe zone op (string_of_number x)"
  using assms that by (auto simp: read_comparison_def split: expression_node.splits literal_value.splits if_splits)

text \<open>Writing appends issues.\<close>

lemma write_condition_issues:
  "\<exists>more. snd (writeVisualCondition host src c issues) = issues @ more"
  "\<exists>more. snd (write_conditions host src cs issues) = issues @ more"
proof (induction host src c issues and host src cs issues rule: writeVisualCondition_write_conditions.induct)
  case (1 host src i origin child issues)
  then show ?case by (auto split: prod.split option.split expression_node.split)
next
  case (2 host src i origin kids issues)
  then show ?case by (auto simp: group_issues_def split: prod.split if_splits)
next
  case (3 host src i origin kids issues)
  then show ?case by (auto simp: group_issues_def split: prod.split if_splits)
next
  case (4 host src i origin probe zone op val issues)
  show ?case
    by (auto simp: write_comparison_def Let_def split: option.split expression_node.split)
next
  case (6 host src c cs issues)
  then show ?case by (fastforce split: prod.split)
qed simp

definition writes_back :: "js_host \<Rightarrow> js_string \<Rightarrow> expression_node \<Rightarrow> visual_condition \<Rightarrow> bool" where
  "writes_back host src n c \<longleftrightarrow> vc_origin c = Some n \<and>
     (\<forall>issues. snd (writeVisualCondition host src c issues) = issues \<longrightarrow>
        fst (writeVisualCondition host src c issues) = source_text src n)"

lemma written_comparison:
  assumes "read_comparison n = Some c" and wf: "wf_tree n" and "node_end n \<le> length src"
  shows "writes_back host src n c"
proof -
  from assms(1) obtain op left x w a b s e probe zone where n: "n = Binary op left (Literal (LNum x) w a b) s e"
    and p: "probe_of left = Some (probe, zone)"
    and c: "c = VComparison (span_id (js ''condition-'') n) (Some n) probe zone op (string_of_number x)"
    by (rule read_comparison_Some)
  let ?r = "Literal (LNum x) w a b" and ?v = "parseNonNegativeNumber (string_of_number x)"
  have kids: "list_all wf_tree [left, ?r]" "spans_in s [left, ?r] e" using wf_kids [OF wf] n by simp_all
  have "patchSource src n [patch left (source_text src left), patch ?r (source_text src ?r)] = source_text src n"
    using patchSource_same [OF wf assms(3), of "[left, ?r]"] kids n by simp
  moreover have "value_text src ?r ?v (string_of_number x) = source_text src ?r" if "?v \<noteq> None"
    using value_text_same [OF _ that] kids by simp
  moreover have "?v \<noteq> None" if "valid_comparison_value probe op ?v"
    using that by (cases ?v) (simp_all add: valid_comparison_value_def)
  ultimately show ?thesis
    using n c p by (auto simp: writes_back_def write_comparison_def Let_def probe_text_same split: if_splits)
qed

lemma written_conditions:
  "list_all2 (writes_back host src) ns cs \<Longrightarrow> snd (write_conditions host src cs issues) = issues \<Longrightarrow>
   fst (write_conditions host src cs issues) = map (source_text src) ns"
proof (induction ns cs arbitrary: issues rule: list_all2_induct)
  case (Cons n ns c cs)
  obtain t i1 where w: "writeVisualCondition host src c issues = (t, i1)" by fastforce
  obtain ts i2 where ws: "write_conditions host src cs i1 = (ts, i2)" by fastforce
  have "i2 = issues" using Cons.prems w ws by simp
  moreover obtain m1 m2 where "i1 = issues @ m1" "i2 = i1 @ m2"
    using write_condition_issues [of host src] w ws by (metis snd_conv)
  ultimately have "i1 = issues" "i2 = i1" by simp_all
  with Cons.hyps(1) Cons.IH [of i1] w ws show ?case by (auto simp: writes_back_def) (metis fst_conv snd_conv)
qed simp

lemma written_group:
  assumes wf: "wf_tree (Binary op l r s e)" and "e \<le> length src" and op: "op = AndOp \<or> op = OrOp"
    and cs: "list_all2 (writes_back host src) (flattenBinary l op @ flattenBinary r op) cs"
  shows "writes_back host src (Binary op l r s e)
    ((if op = AndOp then VAll else VAny) i (Some (Binary op l r s e)) cs)"
proof -
  let ?n = "Binary op l r s e" and ?ns = "flattenBinary l op @ flattenBinary r op"
  have "patchSource src ?n (map (\<lambda>n. patch n (source_text src n)) ?ns) = source_text src ?n"
    using patchSource_same [OF wf, of src ?ns] flatten_binary_spans [OF wf] assms(2) by simp
  moreover have "map2 patch ?ns (map (source_text src) ?ns) = map (\<lambda>n. patch n (source_text src n)) ?ns"
    by (simp add: zip_map2 zip_same_conv_map)
  moreover have "map vc_origin cs = map Some ?ns"
    using cs by (induction rule: list_all2_induct) (auto simp: writes_back_def)
  ultimately have g: "write_group src (Some ?n) op cs (map (source_text src) ?ns) = source_text src ?n"
    by (simp add: write_group_def)
  have "fst (write_conditions host src cs (group_issues j cs issues)) = map (source_text src) ?ns"
    if "snd (write_conditions host src cs (group_issues j cs issues)) = issues" for issues j
  proof -
    obtain m where "snd (write_conditions host src cs (group_issues j cs issues)) = group_issues j cs issues @ m"
      using write_condition_issues(2) by blast
    with that have "group_issues j cs issues = issues" by (auto simp: group_issues_def split: if_splits)
    with that written_conditions [OF cs] show ?thesis by simp
  qed
  then show ?thesis
    using op g unfolding writes_back_def by (auto split: prod.split) (metis fst_conv snd_conv)+
qed

theorem written_condition:
  "readVisualCondition n = Some c \<Longrightarrow> wf_tree n \<Longrightarrow> node_end n \<le> length src \<Longrightarrow> writes_back host src n c"
proof (induction n arbitrary: c rule: readVisualCondition.induct)
  case (1 n)
  note rd = "1.prems"(1) [unfolded readVisualCondition.simps [of n]] and wf = "1.prems"(2) and len = "1.prems"(3)
  show ?case
  proof (cases n)
    case (Unary op operand s e)
    then obtain k where op: "op = NotOp" and k: "readVisualCondition operand = Some k"
      and c: "c = VNot (span_id (js ''condition-'') n) (Some n) k"
      using rd by (cases op) auto
    have o: "wf_tree operand" "s \<le> node_start operand" "node_end operand \<le> e"
      using wf_kids [OF wf] Unary by simp_all
    with 1(1) Unary op k len have "writes_back host src operand k" by auto
    moreover have "patchSource src n [patch operand (source_text src operand)] = source_text src n"
      using patchSource_same [OF wf len, of "[operand]"] o Unary by simp
    ultimately show ?thesis
      using c Unary by (auto simp: writes_back_def split: prod.split) (metis fst_conv snd_conv)
  next
    case (Binary op l r s e)
    show ?thesis
    proof (cases "op = AndOp \<or> op = OrOp")
      case True
      let ?ns = "flattenBinary l op @ flattenBinary r op"
      from rd Binary True obtain cs where cs: "map_option_list readVisualCondition ?ns = Some cs"
        and c: "c = (if op = AndOp then VAll else VAny) (span_id (js ''condition-'') n) (Some n) cs"
        by auto
      note fl = flatten_binary_spans [OF wf [unfolded Binary]]
      have "writes_back host src m k" if "m \<in> set ?ns" "readVisualCondition m = Some k" for m k
      proof (rule 1(2) [OF Binary True])
        show "node_end m \<le> length src"
          using spans_in_starts [OF fl [THEN conjunct2] wf_real_spans [OF fl [THEN conjunct1]] that(1)] len Binary
          by simp
        show "wf_tree m" using fl that(1) by (auto simp: list_all_iff)
      qed (use that in auto)
      then have "list_all2 (writes_back host src) ?ns cs"
        by (rule list.rel_mono_strong [OF map_option_list_Some [OF cs]])
      then show ?thesis using written_group [OF wf [unfolded Binary] _ True] Binary c len by simp
    next
      case False
      with rd Binary written_comparison [OF _ wf len] show ?thesis by simp
    qed
  qed (use rd in simp_all)
qed

subsection \<open>Prices\<close>

lemma write_price_issues: "\<exists>more. pw_issues (fold (write_price src i) prices st) = pw_issues st @ more"
proof (induction prices arbitrary: st)
  case (Cons p prices)
  have "\<exists>more. pw_issues (write_price src i p st) = pw_issues st @ more"
    by (auto simp: write_price_def Let_def split: option.split expression_node.split)
  with Cons show ?case by (metis append_assoc fold_simps(2))
qed simp

lemma write_pricing_issues: "\<exists>more. snd (writeVisualPricing host src n issues) = issues @ more"
proof (induction host src n issues rule: writeVisualPricing.induct)
  case (1 host src i origin condition yes no issues)
  obtain tc i1 where c: "writeVisualCondition host src condition issues = (tc, i1)" by fastforce
  obtain ty i2 where y: "writeVisualPricing host src yes i1 = (ty, i2)" by fastforce
  obtain tn i3 where n: "writeVisualPricing host src no i2 = (tn, i3)" by fastforce
  from write_condition_issues(1) [of host src condition issues] 1 c y n
  show ?case by (fastforce split: option.split expression_node.split)
next
  case (2 host src i origin label prices unit fixed issues)
  show ?case
    using write_price_issues [of src i prices "\<lparr>pw_terms = [], pw_patches = [], pw_issues = issues\<rparr>"]
      write_price_issues [of src i prices "\<lparr>pw_terms = [], pw_patches = [], pw_issues = issues @ [issue i (js ''Include at least one price variable.'')]\<rparr>"]
    by (auto simp: Let_def)
qed

text \<open>The prices that were read from a sum, and the number literal of each of its terms.\<close>

definition price_of :: "expression_node \<Rightarrow> visual_price \<Rightarrow> bool" where
  "price_of n p \<longleftrightarrow> (\<exists>v s1 e1 x w s2 e2 s e.
     n = Binary MulOp (Variable v s1 e1) (Literal (LNum x) w s2 e2) s e \<and>
     p = \<lparr>vp_variable = v, vp_value = string_of_number x, vp_origin = Some n\<rparr>)"

fun amount_of :: "expression_node \<Rightarrow> expression_node" where
  "amount_of (Binary _ _ right _ _) = right"
| "amount_of n = n"

lemma fold_visual_None: "fold add_visual_price terms None = None"
  by (induction terms) (simp_all add: add_visual_price_def)

lemma read_visual_prices:
  "fold add_visual_price terms (Some acc) = Some prices \<Longrightarrow> \<exists>ps. prices = acc @ ps \<and> list_all2 price_of terms ps"
proof (induction terms arbitrary: acc)
  case (Cons n terms)
  show ?case
  proof (cases "add_visual_price n (Some acc)")
    case (Some acc')
    then obtain p where "acc' = acc @ [p]" "price_of n p"
      by (auto simp: add_visual_price_def price_of_def split: expression_node.splits operator.splits literal_value.splits if_splits)
    moreover from Cons Some obtain ps where "prices = acc' @ ps" "list_all2 price_of terms ps" by fastforce
    ultimately show ?thesis by (intro exI [of _ "p # ps"]) simp
  qed (use Cons.prems fold_visual_None in simp)
qed simp

lemma written_prices:
  assumes "list_all2 price_of ns ps" and "list_all wf_tree ns"
    and "pw_issues (fold (write_price src i) ps st) = pw_issues st"
  shows "pw_patches (fold (write_price src i) ps st) =
    pw_patches st @ map (\<lambda>n. patch (amount_of n) (source_text src (amount_of n))) ns"
  using assms
proof (induction ns ps arbitrary: st rule: list_all2_induct)
  case (Cons n ns p ps)
  from Cons.hyps(1) obtain v s1 e1 x w s2 e2 s e where
    n: "n = Binary MulOp (Variable v s1 e1) (Literal (LNum x) w s2 e2) s e" and
    p: "p = \<lparr>vp_variable = v, vp_value = string_of_number x, vp_origin = Some n\<rparr>"
    unfolding price_of_def by blast
  let ?st = "write_price src i p st"
  obtain m1 where m1: "pw_issues ?st = pw_issues st @ m1"
    using write_price_issues [of src i "[p]" st] by auto
  moreover obtain m2 where "pw_issues (fold (write_price src i) ps ?st) = pw_issues ?st @ m2"
    using write_price_issues by blast
  ultimately have no: "m1 = []" "pw_issues (fold (write_price src i) ps ?st) = pw_issues ?st"
    using Cons.prems by auto
  then have "parseNonNegativeNumber (string_of_number x) \<noteq> None"
    using m1 p n by (auto simp: write_price_def Let_def split: if_splits)
  moreover have "wf_tree (Literal (LNum x) w s2 e2)" using Cons.prems(1) wf_kids [of n] n by simp
  ultimately have "pw_patches ?st = pw_patches st @ [patch (amount_of n) (source_text src (amount_of n))]"
    using n p value_text_same by (simp add: write_price_def Let_def)
  with Cons.IH [of ?st] Cons.prems no show ?case by simp
qed simp

lemma amount_spans:
  assumes "list_all2 price_of ns ps"
  shows "list_all wf_tree ns \<Longrightarrow> spans_in lo ns hi \<Longrightarrow>
    list_all wf_tree (map amount_of ns) \<and> spans_in lo (map amount_of ns) hi"
  using assms
proof (induction arbitrary: lo rule: list_all2_induct)
  case (Cons n ns p ps)
  from Cons.hyps(1) obtain v s1 e1 x w s2 e2 s e where
    n: "n = Binary MulOp (Variable v s1 e1) (Literal (LNum x) w s2 e2) s e" unfolding price_of_def by blast
  with wf_kids [of n] Cons.prems have k: "wf_tree (amount_of n)" "s1 < e1" "s \<le> s1" "e1 \<le> s2" "e2 \<le> e"
    by (auto simp: wf_tree.simps [of "Variable v s1 e1"])
  have "spans_in e2 ns hi" using Cons.prems(2) n k by (auto elim: spans_in_weaken)
  with Cons k n show ?case by auto
qed simp

definition pricing_writes_back :: "js_host \<Rightarrow> js_string \<Rightarrow> expression_node \<Rightarrow> visual_pricing \<Rightarrow> bool" where
  "pricing_writes_back host src n v \<longleftrightarrow>
     (\<forall>issues. snd (writeVisualPricing host src v issues) = issues \<longrightarrow>
        fst (writeVisualPricing host src v issues) = source_text src n)"

lemma tier_two: "wf_tree (Call F_tier (a # b # rest) s e) \<Longrightarrow> rest = []"
  by (simp add: wf_tree.simps [of "Call F_tier (a # b # rest) s e"])

lemma label_text_same: "label_text src (Literal (LStr l) i a b) l = source_text src (Literal (LStr l) i a b)"
  by (simp add: label_text_def source_text_def)

lemma typed_fixed: "typed (Call F_tier (l # Call F_fixed (Literal v i a b # args) s' e' # rest) s e) t \<Longrightarrow> \<exists>x. v = LNum x"
  by (cases v) (auto elim!: typed_callE simp: list_all2_Cons1 elim!: call_typed.elims)

lemma written_fixed_tier:
  assumes wf: "wf_tree n" and len: "node_end n \<le> length src" and ty: "typed n t"
    and n: "n = Call F_tier (Literal (LStr label) i1 a1 b1 # Call F_fixed (Literal v i2 a2 b2 # args) s' e' # rest) s e"
  shows "pricing_writes_back host src n (VTier i (Some n) label [] UnitRequest (literal_string v))"
proof -
  let ?lab = "Literal (LStr label) i1 a1 b1" and ?amount = "Literal v i2 a2 b2"
  let ?price = "Call F_fixed (?amount # args) s' e'"
  have rest: "rest = []" using wf n tier_two by blast
  from ty n obtain x where x: "v = LNum x" using typed_fixed by blast
  from wf_kids [OF wf] n rest have k: "wf_tree ?lab" "wf_tree ?price" "list_all wf_tree [?lab, ?price]"
    "spans_in s [?lab, ?price] e" "e' \<le> length src" using len by auto
  have args: "args = []" using k(2) by (simp add: wf_tree.simps [of ?price])
  have "patchSource src ?price [patch ?amount (source_text src ?amount)] = source_text src ?price"
    using patchSource_same [OF k(2), of src "[?amount]"] wf_kids [OF k(2)] args k(5) by simp
  moreover have "patchSource src n [patch ?lab (source_text src ?lab), patch ?price (source_text src ?price)] = source_text src n"
    using patchSource_same [OF wf len, of "[?lab, ?price]"] k n by simp
  moreover have "value_text src ?amount (parseNonNegativeNumber (string_of_number x)) (string_of_number x) = source_text src ?amount"
    if "parseNonNegativeNumber (string_of_number x) \<noteq> None"
    using value_text_same [OF _ that] wf_kids [OF k(2)] x by simp
  ultimately show ?thesis
    unfolding pricing_writes_back_def using n rest args x
    by (auto simp: write_request_tier_def fixed_issues_def fixed_text_def label_text_same Let_def split: if_splits option.splits)
qed

lemma written_token_tier:
  assumes wf: "wf_tree n" and len: "node_end n \<le> length src"
    and n: "n = Call F_tier (Literal (LStr label) i1 a1 b1 # body # rest) s e"
    and ps: "list_all2 price_of (flattenBinary body AddOp) prices"
  shows "pricing_writes_back host src n (VTier i (Some n) label prices UnitToken [])"
proof -
  let ?lab = "Literal (LStr label) i1 a1 b1" and ?ns = "flattenBinary body AddOp"
  let ?rs = "map amount_of ?ns"
  have rest: "rest = []" using wf n tier_two by blast
  from wf_kids [OF wf] n rest have k: "wf_tree ?lab" "wf_tree body" "s \<le> a1" "b1 \<le> node_start body" "node_end body \<le> e"
    by auto
  have fl: "list_all wf_tree ?ns" "spans_in (node_start body) ?ns (node_end body)" using flatten_spans [OF k(2)] by auto
  have rs: "list_all wf_tree ?rs" "spans_in (node_start body) ?rs (node_end body)" using amount_spans [OF ps fl] by auto
  have same: "patchSource src n (patch ?lab (source_text src ?lab) # map (\<lambda>m. patch (amount_of m) (source_text src (amount_of m))) ?ns) =
      source_text src n"
    using patchSource_same [OF wf len, of "?lab # ?rs"] k rs(1) spans_in_weaken [OF rs(2) k(4,5)] n
    by (simp add: comp_def)
  have origins: "map Some ?ns = map vp_origin prices"
    using ps by (induction rule: list_all2_induct) (auto simp: price_of_def)
  let ?st = "\<lambda>issues. fold (write_price src i) prices \<lparr>pw_terms = [], pw_patches = [], pw_issues = issues\<rparr>"
  have "pw_patches (?st issues) = map (\<lambda>m. patch (amount_of m) (source_text src (amount_of m))) ?ns"
    if "pw_issues (?st issues) = issues" for issues
    using written_prices [OF ps fl(1)] that by simp
  moreover have "prices \<noteq> []"
    using ps flatten_nonempty [of body AddOp] by auto
  ultimately show ?thesis
    using same n rest origins
    by (auto simp: pricing_writes_back_def write_token_tier_def Let_def label_text_same)
qed

lemma written_tier:
  assumes rd: "read_visual_tier n = Some v" and wf: "wf_tree n" and len: "node_end n \<le> length src" and ty: "typed n t"
  shows "pricing_writes_back host src n v"
proof -
  from rd obtain label i1 a1 b1 body rest s e where
    n: "n = Call F_tier (Literal (LStr label) i1 a1 b1 # body # rest) s e"
    by (auto simp: read_visual_tier_def split: expression_node.splits billing_function.splits list.splits literal_value.splits)
  show ?thesis
  proof (cases "\<exists>v i2 a2 b2 args s' e'. body = Call F_fixed (Literal v i2 a2 b2 # args) s' e'")
    case True
    with rd n written_fixed_tier [OF wf len ty] show ?thesis by (auto simp: read_visual_tier_def)
  next
    case False
    then have "map_option (\<lambda>prices. VTier (span_id (js ''pricing-'') n) (Some n) label prices UnitToken [])
        (fold add_visual_price (flattenBinary body AddOp) (Some [])) = Some v"
      using rd n by (auto simp: read_visual_tier_def split: expression_node.splits billing_function.splits list.splits)
    then obtain prices where "fold add_visual_price (flattenBinary body AddOp) (Some []) = Some prices"
      and v: "v = VTier (span_id (js ''pricing-'') n) (Some n) label prices UnitToken []" by auto
    with read_visual_prices [of "flattenBinary body AddOp" "[]" prices]
    have "list_all2 price_of (flattenBinary body AddOp) prices" by simp
    then show ?thesis unfolding v by (rule written_token_tier [OF wf len n])
  qed
qed

theorem written_pricing:
  "readVisualPricing n = Some v \<Longrightarrow> wf_tree n \<Longrightarrow> node_end n \<le> length src \<Longrightarrow> typed n t \<Longrightarrow>
   pricing_writes_back host src n v"
proof (induction n arbitrary: v t rule: readVisualPricing.induct)
  case (1 c yes no s e)
  let ?n = "Conditional c yes no s e"
  from "1.prems"(1) obtain vc vy vn where rd: "readVisualCondition c = Some vc" "readVisualPricing yes = Some vy"
      "readVisualPricing no = Some vn" and v: "v = VBranch (span_id (js ''pricing-'') ?n) (Some ?n) vc vy vn"
    by (auto split: option.splits)
  from wf_kids [OF "1.prems"(2)] have k: "list_all wf_tree [c, yes, no]" "spans_in s [c, yes, no] e" by auto
  then have ends: "node_end c \<le> e \<and> node_end yes \<le> e \<and> node_end no \<le> e"
    using spans_in_starts [OF k(2) wf_real_spans [OF k(1)]] by auto
  from "1.prems"(4) obtain ty tn where "typed yes ty" "typed no tn" by auto
  with 1 rd k ends have w: "writes_back host src c vc" "pricing_writes_back host src yes vy" "pricing_writes_back host src no vn"
    using written_condition by auto
  have same: "patchSource src ?n [patch c (source_text src c), patch yes (source_text src yes), patch no (source_text src no)] = source_text src ?n"
    using patchSource_same [OF "1.prems"(2,3), of "[c, yes, no]"] k by simp
  show ?case unfolding pricing_writes_back_def
  proof (intro allI impI)
    fix issues assume none: "snd (writeVisualPricing host src v issues) = issues"
    obtain tc i1 where c: "writeVisualCondition host src vc issues = (tc, i1)" by fastforce
    obtain ty i2 where y: "writeVisualPricing host src vy i1 = (ty, i2)" by fastforce
    obtain tn i3 where n: "writeVisualPricing host src vn i2 = (tn, i3)" by fastforce
    have "\<exists>m1 m2 m3. i1 = issues @ m1 \<and> i2 = i1 @ m2 \<and> i3 = i2 @ m3"
      using write_condition_issues(1) [of host src vc issues] write_pricing_issues [of host src vy i1]
        write_pricing_issues [of host src vn i2] c y n by auto
    with none v c y n have "i1 = issues" "i2 = issues" "i3 = issues" by auto
    then have "tc = source_text src c" "ty = source_text src yes" "tn = source_text src no"
      using w c y n unfolding writes_back_def pricing_writes_back_def by (metis fst_conv snd_conv)+
    with same v c y n show "fst (writeVisualPricing host src v issues) = source_text src ?n" by simp
  qed
qed (use written_tier in \<open>simp_all del: node_end.simps\<close>)

subsection \<open>Documents\<close>

theorem serialize_unedited:
  assumes rd: "parseVisualBillingDocument host source cache = (Some doc, cache1)"
    and c: "cache_agrees cache" and c': "cache_agrees cache'"
  shows "doc_source doc = source" and "fst (serializeVisualBillingDocument host doc cache') = Inr source"
proof -
  obtain c1 where step: "compileBillingExpression source cache = (compile_uncached source, c1)" and c1: "cache_agrees c1"
    using compile_step [OF c, of source] by (metis prod.collapse)
  from rd step obtain compiled v where comp: "compile_uncached source = Inr compiled"
    and v: "readVisualPricing (comp_ast compiled) = Some v" and doc: "doc = \<lparr>doc_source = source, doc_root = v\<rparr>"
    and ok: "\<exists>s c2. serializeVisualBillingDocument host doc c1 = (Inr s, c2)"
    by (auto simp: parseVisualBillingDocument_def Let_def split: sum.splits option.splits prod.splits)
  then show "doc_source doc = source" by simp
  obtain t where p: "wf_tree (comp_ast compiled)" "parse source = Some (Inr (comp_ast compiled))" "typed (comp_ast compiled) t"
    using compile_ready [OF comp] by blast
  then have len: "node_end (comp_ast compiled) \<le> length source" using parse_wf by blast
  obtain body issues where w: "writeVisualPricing host source v [] = (body, issues)" by fastforce
  with ok doc have none: "issues = []" by (auto simp: serializeVisualBillingDocument_def split: if_splits)
  then have body: "body = source_text source (comp_ast compiled)"
    using written_pricing [OF v p(1) len p(3), of host] w unfolding pricing_writes_back_def by (metis fst_conv snd_conv)
  let ?ast = "comp_ast compiled"
  have src: "take (node_start ?ast) source @ body @ drop (node_end ?ast) source = source"
    using slice_around [of "node_start ?ast" "node_end ?ast" source] wf_tree_span [OF p(1)] len
    by (simp add: body source_text_def)
  obtain c2 where s2: "compileBillingExpression source cache' = (Inr compiled, c2)" and c2: "cache_agrees c2"
    using compile_step [OF c', of source] comp by (metis prod.collapse)
  obtain c3 where s3: "compileBillingExpression source c2 = (Inr compiled, c3)"
    using compile_step [OF c2, of source] comp by (metis prod.collapse)
  show "fst (serializeVisualBillingDocument host doc cache') = Inr source"
    using w none doc s2 s3 src by (simp add: serializeVisualBillingDocument_def Let_def)
qed

subsection \<open>A shown number is accepted\<close>

lemma exponent_value_match: "exponent_value r \<noteq> None \<Longrightarrow> match_exponent r = r"
proof (cases r)
  case (Cons e t)
  assume "exponent_value r \<noteq> None"
  with Cons have "(e = 101 \<or> e = 69)"
    and ds: "(if t \<noteq> [] \<and> (hd t = 45 \<or> hd t = 43) then tl t else t) \<noteq> []"
      "list_all is_digit (if t \<noteq> [] \<and> (hd t = 45 \<or> hd t = 43) then tl t else t)"
    by (auto simp: exponent_value_def Let_def split: if_splits)
  moreover have tw: "takeWhile is_digit u = u" if "list_all is_digit u" for u
    using that by (simp add: list_all_iff takeWhile_eq_all_conv)
  ultimately show ?thesis
    using Cons by (cases t) (auto simp: match_exponent_def Let_def tw simp del: takeWhile_eq_all_conv split: if_splits)
qed (simp add: match_exponent_def)

lemma decimal_value_match: "decimal_value s \<noteq> None \<Longrightarrow> is_number_text s"
proof -
  assume v: "decimal_value s \<noteq> None"
  let ?i = "takeWhile is_digit s" and ?r = "dropWhile is_digit s"
  have s: "s = ?i @ ?r" by simp
  show "is_number_text s"
  proof (cases "?r \<noteq> [] \<and> hd ?r = 46")
    case True
    let ?f = "takeWhile is_digit (tl ?r)" and ?t = "dropWhile is_digit (tl ?r)"
    have some: "?i \<noteq> [] \<or> ?f \<noteq> []" "exponent_value ?t \<noteq> None"
      using v True by (auto simp: decimal_value_def Let_def split: if_splits)
    have m: "match_mantissa s = ?i @ [46] @ ?f" using True some by (auto simp: match_mantissa_def Let_def)
    have "?r = 46 # tl ?r" using True by (metis list.collapse)
    then have "s = (?i @ [46] @ ?f) @ ?t"
      by (metis s append.assoc append_Cons append_Nil takeWhile_dropWhile_id)
    then have "drop (length (match_mantissa s)) s = ?t" unfolding m by (metis append_eq_conv_conj)
    with m some exponent_value_match [of ?t] have "match_number s = (?i @ [46] @ ?f) @ ?t"
      by (simp add: match_number_def Let_def)
    with \<open>s = (?i @ [46] @ ?f) @ ?t\<close> show ?thesis by (metis Nil_is_append_conv is_number_text_def not_Cons_self2)
  next
    case False
    have some: "?i \<noteq> []" "exponent_value ?r \<noteq> None"
      using v False by (auto simp: decimal_value_def Let_def split: if_splits)
    have m: "match_mantissa s = ?i" using False by (auto simp: match_mantissa_def Let_def)
    have "drop (length (match_mantissa s)) s = ?r" unfolding m by (metis append_eq_conv_conj s)
    with m some exponent_value_match [of ?r] have "match_number s = ?i @ ?r"
      by (simp add: match_number_def Let_def)
    with s some show ?thesis by (metis append_is_Nil_conv is_number_text_def)
  qed
qed

lemma string_of_number_decimal:
  assumes "is_double x" and "is_unsigned x"
  shows "decimal_value (string_of_number x) \<noteq> None \<and> trim (string_of_number x) = string_of_number x"
proof -
  from assms obtain q where x: "x = Fin q" "0 \<le> q" "to_double q = Fin q" by (cases x) auto
  show ?thesis
  proof (cases "q = 0")
    case True
    have "decimal_value [48] \<noteq> None" using decimal_value_plain [of "[48]"] by (simp add: not_digit_units)
    moreover have "trim [48] = [48]" by (rule trim_id) (simp_all add: is_space_def)
    ultimately show ?thesis using True x by simp
  next
    case False
    with x have q: "0 < q" by simp
    have "trim (string_of_positive q) = string_of_positive q"
      using string_of_positive_text [of q] by (intro trim_id) auto
    with string_of_positive_value [OF x(3) q] q x(1) show ?thesis by auto
  qed
qed

theorem parse_shown_number:
  assumes "is_double x" and "is_unsigned x"
  shows "parseNonNegativeNumber (string_of_number x) = Some x"
proof -
  have "num_le (Fin 0) x" using assms(2) by (cases x) (auto simp: num_le_def)
  with string_of_number_decimal [OF assms] decimal_value_match number_of_string_of_number [OF assms]
    is_unsigned_finite [OF assms(2)]
  show ?thesis by (simp add: parseNonNegativeNumber_def)
qed
end
