(* ===== verification/Display_Correct.thy ===== *)
theory Display_Correct
  imports Expr_Display
begin

section \<open>The displayed chain is the evaluated chain\<close>

text \<open>
  For a tree that \<open>readTokenTierChain\<close> reads, evaluation is the evaluation of one of
  the listed tiers: the first whose conditions hold for the token counts. The tier that
  evaluation records, its unit, its fixed price and its linear cost are those of the
  displayed tier. Likewise the branches of \<open>timeTierBranches\<close> are exclusive: at an instant
  where every time condition evaluates, exactly the tiers of one branch are current.
\<close>

subsection \<open>Token counts and conditions\<close>

definition token_value :: "simulation_context \<Rightarrow> token_variable \<Rightarrow> js_num option" where
  "token_value ctx v =
     (case Option.bind (ctx_tokens ctx) (\<lambda>tokens. map_of tokens (variable_text v)) of
        Some (VNum x) \<Rightarrow> if num_lt x (Fin 0) \<or> \<not> is_finite x then None else Some x
      | _ \<Rightarrow> None)"

fun variable_of :: "condition_variable \<Rightarrow> token_variable" where
  "variable_of CV_p = TV_p"
| "variable_of CV_c = TV_c"
| "variable_of CV_len = TV_len"

fun operator_of_condition :: "condition_operator \<Rightarrow> operator" where
  "operator_of_condition CO_lt = LtOp"
| "operator_of_condition CO_le = LeOp"
| "operator_of_condition CO_gt = GtOp"
| "operator_of_condition CO_ge = GeOp"

definition holds :: "simulation_context \<Rightarrow> token_condition \<Rightarrow> bool" where
  "holds ctx c \<longleftrightarrow>
     (\<exists>x. token_value ctx (variable_of (tc_var c)) = Some x \<and>
        compare_numbers (operator_of_condition (tc_op c)) x (tc_value c) = Some True)"

definition counts_known :: "simulation_context \<Rightarrow> bool" where
  "counts_known ctx \<longleftrightarrow> (\<forall>v\<in>{TV_p, TV_c, TV_len}. token_value ctx v \<noteq> None)"

lemma evaluate_variable:
  assumes "token_value (env_context env) v = Some x"
  shows "evaluate_at (Suc k) env (Variable v a b) s = Inr (plain (VNum x), s)"
proof -
  from assms have "eval_variable env (Variable v a b) v = Inr (plain (VNum x)) \<and> is_finite x"
    by (auto simp: token_value_def eval_variable_def split: option.splits js_value.splits if_splits)
  then show ?thesis by (simp add: evaluate_at.simps evaluate_node_def check_value_def)
qed

lemma evaluate_number_literal:
  assumes "wf_tree (Literal (LNum x) i a b)"
  shows "evaluate_at (Suc k) env (Literal (LNum x) i a b) s = Inr (\<lparr>rv_value = VNum x, rv_integer = i\<rparr>, s)"
  using assms is_unsigned_finite [of x]
  by (auto simp: wf_tree.simps evaluate_at.simps evaluate_node_def check_value_def)

lemma token_condition_of_Some:
  assumes "token_condition_of part = Some c"
  obtains v x i a b a' b' s e where
    "part = Binary (operator_of_condition (tc_op c)) (Variable (variable_of (tc_var c)) a b)
       (Literal (LNum (tc_value c)) i a' b') s e"
proof -
  from assms obtain op v x i a b a' b' s e where
    part: "part = Binary op (Variable v a b) (Literal (LNum x) i a' b') s e"
    by (auto simp: token_condition_of_def split: expression_node.splits literal_value.splits)
  with assms have "op = operator_of_condition (tc_op c)" "v = variable_of (tc_var c)" "x = tc_value c"
    by (auto simp: token_condition_of_def split: option.splits if_splits
        elim!: condition_operator_of.elims condition_variable_of.elims)
  with part show ?thesis using that by blast
qed

lemma compare_total: "\<exists>r. compare_numbers (operator_of_condition op) x y = Some r"
  by (cases op) simp_all

lemma evaluate_condition:
  assumes c: "token_condition_of part = Some c" and wf: "wf_tree part" and known: "counts_known (env_context env)"
    and k: "height part < k"
  shows "evaluate_at k env part s = Inr (plain (VBool (holds (env_context env) c)), s)"
  using c
proof (rule token_condition_of_Some)
  fix v x i a b a' b' u e
  assume part: "part = Binary (operator_of_condition (tc_op c)) (Variable (variable_of (tc_var c)) a b)
       (Literal (LNum (tc_value c)) i a' b') u e" (is "_ = Binary ?op ?l ?r u e")
  have "Suc (height ?l) \<le> height part" by (rule height_child) (simp add: part)
  with k obtain j where j: "k = Suc (Suc j)" by (metis Suc_leD less_imp_Suc_add Suc_le_lessD less_Suc_eq_le old.nat.exhaust not_less_zero)
  have "variable_of (tc_var c) \<in> {TV_p, TV_c, TV_len}" by (cases "tc_var c") auto
  with known obtain y where y: "token_value (env_context env) (variable_of (tc_var c)) = Some y" by (auto simp: counts_known_def)
  have wr: "wf_tree ?r" using wf by (rule wf_tree_child) (simp add: part)
  obtain r where r: "compare_numbers ?op y (tc_value c) = Some r" using compare_total by blast
  have op: "?op \<noteq> AndOp" "?op \<noteq> OrOp" "?op \<noteq> EqOp" "?op \<noteq> NeOp" by (cases "tc_op c"; simp)+
  have "evaluate_node (evaluate_at (Suc j) env) env part s = Inr (plain (VBool r), s)"
    using op r by (simp add: part evaluate_node_def eval_binary_def evaluate_variable [OF y]
        evaluate_number_literal [OF wr] apply_operator_def)
  moreover have "holds (env_context env) c = r" using y r by (simp add: holds_def)
  ultimately show ?thesis by (simp add: j evaluate_at.simps(2) [of "Suc j"] check_value_def)
qed

lemma flatten_height: "m \<in> set (flattenBinary n op) \<Longrightarrow> height m \<le> height n"
proof (induction n op rule: flattenBinary.induct)
  case (1 op' l r s e op)
  have "height l \<le> height (Binary op' l r s e)" "height r \<le> height (Binary op' l r s e)"
    using height_child [of l "Binary op' l r s e"] height_child [of r "Binary op' l r s e"] by simp_all
  with 1 show ?case by (fastforce split: if_splits)
qed auto

lemma evaluate_conjunction:
  assumes known: "counts_known (env_context env)"
  shows "map_option_list token_condition_of (flattenBinary n AndOp) = Some cs \<Longrightarrow> wf_tree n \<Longrightarrow> height n < k \<Longrightarrow>
    evaluate_at k env n s = Inr (plain (VBool (list_all (holds (env_context env)) cs)), s)"
proof (induction n "AndOp" arbitrary: cs k s rule: flattenBinary.induct)
  case (1 op' l r a b)
  show ?case
  proof (cases "op' = AndOp")
    case True
    from "1.prems"(1) True obtain ls rs where
      ls: "map_option_list token_condition_of (flattenBinary l AndOp) = Some ls"
      and rs: "map_option_list token_condition_of (flattenBinary r AndOp) = Some rs" and cs: "cs = ls @ rs"
      by (auto simp: map_option_list_append split: option.splits)
    have h: "height l < height (Binary op' l r a b)" "height r < height (Binary op' l r a b)"
      using height_child [of l "Binary op' l r a b"] height_child [of r "Binary op' l r a b"] by simp_all
    from "1.prems"(3) obtain j where j: "k = Suc j" by (cases k) auto
    have sub: "wf_tree l" "wf_tree r" using "1.prems"(2) by (simp_all add: wf_tree_child)
    have "evaluate_at j env l t = Inr (plain (VBool (list_all (holds (env_context env)) ls)), t)" for t
      using "1.hyps"(1) True ls sub(1) h(1) "1.prems"(3) j by simp
    moreover have "evaluate_at j env r t = Inr (plain (VBool (list_all (holds (env_context env)) rs)), t)" for t
      using "1.hyps"(2) True rs sub(2) h(2) "1.prems"(3) j by simp
    ultimately have "evaluate_node (evaluate_at j env) env (Binary op' l r a b) s =
        Inr (plain (VBool (list_all (holds (env_context env)) cs)), s)"
      using True cs by (simp add: evaluate_node_def eval_binary_def eval_boolean_def)
    then show ?thesis by (simp add: j evaluate_at.simps(2) [of j] check_value_def)
  next
    case False
    with "1.prems" show ?thesis
      using evaluate_condition [OF _ "1.prems"(2) known "1.prems"(3)] by (auto split: option.splits)
  qed
qed (use evaluate_condition [OF _ _ known] in \<open>auto split: option.splits\<close>)

subsection \<open>The chosen tier\<close>

lemma check_value_checked: "checked v \<Longrightarrow> check_value n v = Inr v"
  by (simp add: check_value_Inr)

lemma recheck:
  "bind_result (evaluate_at k env n s) (\<lambda>(v, st'). bind_result (check_value m v) (\<lambda>v'. Inr (v', st'))) =
   evaluate_at k env n s"
  using evaluate_at_checked [of k env n s] check_value_checked
  by (cases "evaluate_at k env n s") auto

lemma mark_rule_id:
  assumes "rules_from_conditionals (comp_rules (env_compiled env))" and "\<And>v i a b. yes \<noteq> Literal v i a b"
  shows "mark_rule env (Conditional c yes no a b) s = s"
proof (cases "find_index (\<lambda>r. rule_node r = Conditional c yes no a b) (comp_rules (env_compiled env))")
  case (Some i)
  from find_index_Some [OF this] have "comp_rules (env_compiled env) ! i \<in> set (comp_rules (env_compiled env))"
    "rule_node (comp_rules (env_compiled env) ! i) = Conditional c yes no a b" by simp_all
  with assms show ?thesis unfolding rules_from_conditionals_def by fastforce
qed (simp add: mark_rule_def)

lemma evaluate_conditional:
  assumes "rules_from_conditionals (comp_rules (env_compiled env))" and "\<And>v i a b. yes \<noteq> Literal v i a b"
    and "evaluate_at k env c s = Inr (w, t)" and "rv_value w = VBool d"
  shows "evaluate_at (Suc k) env (Conditional c yes no a b) s = evaluate_at k env (if d then yes else no) t"
  using assms mark_rule_id [OF assms(1,2), of c no a b t] recheck
  by (simp add: evaluate_at.simps(2) evaluate_node_def eval_boolean_def)

fun leaf_nodes :: "expression_node \<Rightarrow> expression_node list" where
  "leaf_nodes (Conditional c yes no s e) = yes # leaf_nodes no"
| "leaf_nodes n = [n]"

lemma tokenTier_call:
  assumes "tokenTier n conds = Some t"
  obtains label body i a b rest s e where "n = Call F_tier (Literal (LStr label) i a b # body # rest) s e"
    and "tt_label t = label" and "tt_conditions t = conds"
  using assms
  by (auto simp: tokenTier_def split: expression_node.splits billing_function.splits list.splits
      literal_value.splits option.splits if_splits)

lemma tokenTier_conditions: "tokenTier n conds = Some t \<Longrightarrow> tt_conditions t = conds"
  using tokenTier_call by blast

lemma single_tier:
  assumes "readTokenTierChain n = Some ts" and "readTokenTierChain n = map_option (\<lambda>t. [t]) (tokenTier n [])"
    and "leaf_nodes n = [n]"
  shows "\<exists>i<length ts. find_index (\<lambda>t. list_all (holds (env_context env)) (tt_conditions t)) ts = Some i \<and>
      leaf_nodes n ! i \<in> set (postorder n) \<and>
      tokenTier (leaf_nodes n ! i) (tt_conditions (ts ! i)) = Some (ts ! i) \<and>
      evaluate_at k env n s = evaluate_at k env (leaf_nodes n ! i) s"
proof -
  from assms obtain t where t: "tokenTier n [] = Some t" "ts = [t]" by auto
  with tokenTier_conditions [OF t(1)] assms(3) show ?thesis by (auto simp: postorder_self)
qed

theorem chain_selects:
  assumes rules: "rules_from_conditionals (comp_rules (env_compiled env))" and known: "counts_known (env_context env)"
  shows "readTokenTierChain n = Some ts \<Longrightarrow> wf_tree n \<Longrightarrow> height n < k \<Longrightarrow>
    \<exists>i<length ts. find_index (\<lambda>t. list_all (holds (env_context env)) (tt_conditions t)) ts = Some i \<and>
      leaf_nodes n ! i \<in> set (postorder n) \<and>
      tokenTier (leaf_nodes n ! i) (tt_conditions (ts ! i)) = Some (ts ! i) \<and>
      evaluate_at k env n s = evaluate_at k env (leaf_nodes n ! i) s"
proof (induction n arbitrary: ts k s rule: readTokenTierChain.induct)
  case (1 c yes no a b)
  let ?n = "Conditional c yes no a b"
  from "1.prems"(1) obtain conds t us where conds: "tokenConditions c = Some conds"
    and t: "tokenTier yes conds = Some t" and us: "readTokenTierChain no = Some us" and ts: "ts = t # us"
    by (auto split: option.splits)
  have tc: "tt_conditions t = conds" and yes: "yes \<noteq> Literal v i p q" for v i p q
    using tokenTier_call [OF t] by blast+
  from "1.prems"(3) obtain j where k: "k = Suc j" by (cases k) auto
  have sub: "wf_tree c" "wf_tree yes" "wf_tree no" using "1.prems"(2) by (simp_all add: wf_tree_child)
  have h: "height c < j" "height yes < j" "height no < j"
    using height_child [of c ?n] height_child [of yes ?n] height_child [of no ?n] "1.prems"(3) k by simp_all
  have "evaluate_at j env c s = Inr (plain (VBool (list_all (holds (env_context env)) conds)), s)"
    using evaluate_conjunction [OF known, of c conds j s] conds sub h by (simp add: tokenConditions_def)
  from evaluate_conditional [OF rules yes this] have step: "evaluate_at k env ?n s =
      evaluate_at j env (if list_all (holds (env_context env)) conds then yes else no) s" by (simp add: k)
  have level: "evaluate_at j env m s = evaluate_at k env m s" if "wf_tree m" "height m < j" for m
    using that k by (intro evaluate_at_level) simp_all
  have in_n: "yes \<in> set (postorder ?n)" "no \<in> set (postorder ?n)" by (auto intro: postorder_child)
  show ?case
  proof (cases "list_all (holds (env_context env)) conds")
    case True
    then show ?thesis using ts tc t step level [OF sub(2) h(2)] in_n by simp
  next
    case False
    from "1.IH" [OF conds t us sub(3), of j s] h(3) obtain i where
      i: "i < length us" "find_index (\<lambda>t. list_all (holds (env_context env)) (tt_conditions t)) us = Some i"
        "leaf_nodes no ! i \<in> set (postorder no)"
        "tokenTier (leaf_nodes no ! i) (tt_conditions (us ! i)) = Some (us ! i)"
        "evaluate_at j env no s = evaluate_at j env (leaf_nodes no ! i) s" by blast
    have "wf_tree (leaf_nodes no ! i)" using descendant_span [OF sub(3) i(3)] by simp
    moreover have "height (leaf_nodes no ! i) < j" using postorder_height [OF i(3)] h(3) by simp
    ultimately have "evaluate_at k env ?n s = evaluate_at k env (leaf_nodes no ! i) s"
      using step False i(5) level by simp
    moreover have "leaf_nodes no ! i \<in> set (postorder ?n)" using postorder_trans [OF in_n(2) i(3)] .
    ultimately show ?thesis using False i ts tc by (intro exI [of _ "Suc i"]) simp
  qed
qed (rule single_tier; simp)+

subsection \<open>The cost of a tier\<close>

definition count_of :: "simulation_context \<Rightarrow> token_variable \<Rightarrow> js_num" where
  "count_of ctx v = (case token_value ctx v of Some x \<Rightarrow> x | None \<Rightarrow> Fin 0)"

fun linear_cost :: "simulation_context \<Rightarrow> (token_variable, js_num) entries \<Rightarrow> js_num" where
  "linear_cost ctx [] = Fin 0"
| "linear_cost ctx ((v, x) # ps) =
     foldl (\<lambda>acc (v, x). num_add acc (num_mul (count_of ctx v) x)) (num_mul (count_of ctx v) x) ps"

lemma linear_cost_snoc:
  "ps \<noteq> [] \<Longrightarrow> linear_cost (env_context env) (ps @ [(v, x)]) = num_add (linear_cost (env_context env) ps) (num_mul (count_of (env_context env) v) x)"
  by (cases ps) auto

lemma evaluate_price_literal:
  assumes "nonnegativePriceLiteral r = Some x" and "wf_tree r" and "evaluate_at k env r s = Inr (w, t)"
  shows "rv_value w = VNum x \<and> t = s"
proof -
  from assms(3) obtain j where k: "k = Suc j" by (cases k) auto
  from assms(1) consider i a b where "r = Literal (LNum x) i a b"
    | z i a b a' b' where "r = Unary MinusOp (Literal (LNum z) i a b) a' b'" "num_eq z (Fin 0)" "x = NegZero"
    by (auto simp: nonnegativePriceLiteral_def split: expression_node.splits literal_value.splits
        unary_operator.splits if_splits)
  then show ?thesis
  proof cases
    case (1 i a b)
    with assms(3) k show ?thesis by (auto simp: evaluate_at_Suc_Inr evaluate_node_def)
  next
    case (2 z i a b a' b')
    then have "wf_tree (Literal (LNum z) i a b)" using assms(2) by (simp add: wf_tree_child)
    then have "z = Fin 0" using 2(2) by (cases z) (auto simp: wf_tree.simps)
    with 2 assms(3) k show ?thesis
      by (cases j) (auto simp: evaluate_at_Suc_Inr evaluate_node_def eval_unary_def operand_simps)
  qed
qed

definition price_term :: "expression_node \<Rightarrow> token_variable \<times> js_num \<Rightarrow> bool" where
  "price_term term p \<longleftrightarrow>
     (\<exists>a b r s e. term = Binary MulOp (Variable (fst p) a b) r s e \<and> nonnegativePriceLiteral r = Some (snd p))"

lemma add_price_term_Some:
  assumes "add_price_term term acc = Some ps"
  obtains qs p where "acc = Some qs" and "ps = qs @ [p]" and "price_term term p"
proof -
  from assms obtain qs v a b r s e x where "acc = Some qs" "term = Binary MulOp (Variable v a b) r s e"
    "nonnegativePriceLiteral r = Some x" "\<not> has_own qs v" "ps = set_own v x qs"
    by (cases acc) (auto simp: add_price_term_def split: expression_node.splits operator.splits if_splits)
  moreover have "set_own v x qs = qs @ [(v, x)]"
    using \<open>\<not> has_own qs v\<close> by (induction qs) (auto simp: has_own_def split: if_splits)
  ultimately show ?thesis using that [of qs "(v, x)"] by (auto simp: price_term_def)
qed

lemma fold_price_None: "fold add_price_term terms None = None"
  by (induction terms) (simp_all add: add_price_term_def)

lemma read_prices_terms:
  "fold add_price_term terms (Some acc) = Some ps \<Longrightarrow> \<exists>qs. ps = acc @ qs \<and> list_all2 price_term terms qs"
proof (induction terms arbitrary: acc)
  case (Cons x terms)
  then obtain bs where bs: "add_price_term x (Some acc) = Some bs" "fold add_price_term terms (Some bs) = Some ps"
    by (cases "add_price_term x (Some acc)") (simp_all add: fold_price_None)
  from bs(1) obtain p where p: "bs = acc @ [p]" "price_term x p"
    by (rule add_price_term_Some) auto
  from Cons.IH [OF bs(2)] obtain qs where "ps = bs @ qs" "list_all2 price_term terms qs" by blast
  with p show ?case by (intro exI [of _ "p # qs"]) simp
qed simp

lemma evaluate_price_term:
  assumes "price_term term p" and "wf_tree term" and "evaluate_at k env term s = Inr (w, t)"
  shows "rv_value w = VNum (num_mul (count_of (env_context env) (fst p)) (snd p)) \<and> t = s"
proof -
  from assms(1) obtain a b r u e where tm: "term = Binary MulOp (Variable (fst p) a b) r u e"
    and r: "nonnegativePriceLiteral r = Some (snd p)" by (auto simp: price_term_def)
  from assms(3) obtain j where k: "k = Suc j" by (cases k) auto
  with assms(3) tm obtain x y t1 where
    x: "evaluate_at j env (Variable (fst p) a b) s = Inr (x, t1)" and y: "evaluate_at j env r t1 = Inr (y, t)"
    and w: "apply_operator term MulOp x y = Inr w"
    by (auto simp: evaluate_at_Suc_Inr evaluate_node_def eval_binary_def operand_simps)
  from x obtain i where j: "j = Suc i" by (cases j) auto
  from x have "t1 = s \<and> rv_value x = VNum (count_of (env_context env) (fst p))"
    unfolding j evaluate_at_Suc_Inr
    by (auto simp: evaluate_node_def eval_variable_def count_of_def token_value_def checked_def operand_simps
        split: option.splits js_value.splits if_splits)
  moreover have "rv_value y = VNum (snd p) \<and> t = t1"
    by (rule evaluate_price_literal [OF r _ y]) (use assms(2) tm in \<open>simp add: wf_tree_child\<close>)
  ultimately show ?thesis using w by (auto simp: apply_operator_def arithmetic_def)
qed

text \<open>A sum whose right operands are no sums, as the parser builds it without parentheses.\<close>

fun left_nested :: "expression_node \<Rightarrow> bool" where
  "left_nested (Binary op l r s e) \<longleftrightarrow>
     (op = AddOp \<longrightarrow> left_nested l \<and> (\<forall>a b s' e'. r \<noteq> Binary AddOp a b s' e'))"
| "left_nested _ \<longleftrightarrow> True"

lemma flatten_single: "(\<And>a b s e. n \<noteq> Binary op a b s e) \<Longrightarrow> flattenBinary n op = [n]"
  by (cases n) auto

lemma evaluate_linear:
  "list_all2 price_term (flattenBinary n AddOp) ps \<Longrightarrow> left_nested n \<Longrightarrow> wf_tree n \<Longrightarrow>
   evaluate_at k env n s = Inr (w, t) \<Longrightarrow> rv_value w = VNum (linear_cost (env_context env) ps) \<and> t = s \<and> ps \<noteq> []"
proof (induction n "AddOp" arbitrary: ps k w t rule: flattenBinary.induct)
  case (1 op l r a b)
  show ?case
  proof (cases "op = AddOp")
    case True
    with "1.prems"(2) have r: "flattenBinary r AddOp = [r]" by (intro flatten_single) auto
    with "1.prems"(1) True obtain qs p where ps: "ps = qs @ [p]"
      and qs: "list_all2 price_term (flattenBinary l AddOp) qs" and p: "price_term r p"
      by (auto simp: list_all2_append1 list_all2_Cons1)
    from "1.prems"(4) obtain j where k: "k = Suc j" by (cases k) auto
    with "1.prems"(4) True obtain x y t1 where x: "evaluate_at j env l s = Inr (x, t1)"
      and y: "evaluate_at j env r t1 = Inr (y, t)" and w: "apply_operator (Binary op l r a b) AddOp x y = Inr w"
      by (auto simp: evaluate_at_Suc_Inr evaluate_node_def eval_binary_def operand_simps)
    have sub: "wf_tree l" "wf_tree r" using "1.prems"(3) by (simp_all add: wf_tree_child)
    have "rv_value x = VNum (linear_cost (env_context env) qs) \<and> t1 = s \<and> qs \<noteq> []"
      using "1.hyps"(1) True qs "1.prems"(2) sub(1) x by auto
    moreover from evaluate_price_term [OF p sub(2) y]
    have "rv_value y = VNum (num_mul (count_of (env_context env) (fst p)) (snd p)) \<and> t = t1" .
    ultimately show ?thesis
      using w ps by (cases p) (auto simp: apply_operator_def arithmetic_def linear_cost_snoc)
  next
    case False
    with "1.prems"(1) obtain p where "ps = [p]" "price_term (Binary op l r a b) p"
      by (auto simp: list_all2_Cons1)
    with evaluate_price_term [OF _ "1.prems"(3,4)] show ?thesis by (cases p) auto
  qed
qed (auto simp: list_all2_Cons1 price_term_def)

lemma evaluate_sum_state:
  "list_all2 price_term (flattenBinary n AddOp) ps \<Longrightarrow> wf_tree n \<Longrightarrow> evaluate_at k env n s = Inr (w, t) \<Longrightarrow> t = s"
proof (induction n "AddOp" arbitrary: ps k s w t rule: flattenBinary.induct)
  case (1 op l r a b)
  show ?case
  proof (cases "op = AddOp")
    case True
    with "1.prems"(1) obtain qs rs where qs: "list_all2 price_term (flattenBinary l AddOp) qs"
      and rs: "list_all2 price_term (flattenBinary r AddOp) rs"
      by (auto simp: list_all2_append1)
    from "1.prems"(3) obtain j where k: "k = Suc j" by (cases k) auto
    with "1.prems"(3) True obtain x y t1 where x: "evaluate_at j env l s = Inr (x, t1)"
      and y: "evaluate_at j env r t1 = Inr (y, t)"
      by (auto simp: evaluate_at_Suc_Inr evaluate_node_def eval_binary_def operand_simps)
    have "wf_tree l" "wf_tree r" using "1.prems"(2) by (simp_all add: wf_tree_child)
    then show ?thesis using "1.hyps"(1) [of qs j s x t1] "1.hyps"(2) [of rs j t1 y t] True qs rs x y by simp
  next
    case False
    with "1.prems"(1) obtain p where "price_term (Binary op l r a b) p" by (auto simp: list_all2_Cons1)
    with evaluate_price_term [OF _ "1.prems"(2,3)] show ?thesis by simp
  qed
qed (auto simp: list_all2_Cons1 price_term_def)

lemma tokenTier_cases:
  assumes "tokenTier n conds = Some t" and "wf_tree n"
  obtains (fixed) label i a b x j c d s' e' s e where
      "n = Call F_tier [Literal (LStr label) i a b, Call F_fixed [Literal (LNum x) j c d] s' e'] s e"
      and "tt_label t = label" and "tt_unit t = UnitRequest" and "tt_fixed t = Some x"
    | (linear) label i a b body s e where "n = Call F_tier [Literal (LStr label) i a b, body] s e"
      and "tt_label t = label" and "tt_unit t = UnitToken" and "tt_fixed t = None"
      and "list_all2 price_term (flattenBinary body AddOp) (tt_prices t)"
proof -
  from assms(1) obtain label i a b body rest s e
    where n: "n = Call F_tier (Literal (LStr label) i a b # body # rest) s e" and l: "tt_label t = label"
    by (rule tokenTier_call)
  have rest: "rest = []" using assms(2) n by (simp add: wf_tree.simps)
  show ?thesis
  proof (cases "\<exists>x j c d rs s' e'. body = Call F_fixed (Literal (LNum x) j c d # rs) s' e'")
    case True
    then obtain x j c d rs s' e' where body: "body = Call F_fixed (Literal (LNum x) j c d # rs) s' e'" by blast
    have "wf_tree body" using assms(2) n by (simp add: wf_tree_child)
    then have "rs = []" using body by (simp add: wf_tree.simps)
    moreover have "tt_unit t = UnitRequest" "tt_fixed t = Some x" using assms(1) n body by (auto simp: tokenTier_def)
    ultimately show ?thesis using fixed body n rest l by simp
  next
    case False
    with assms(1) n obtain ps where "read_prices body = Some ps" "tt_prices t = ps" "tt_fixed t = None" "tt_unit t = UnitToken"
      by (auto simp: tokenTier_def split: expression_node.splits billing_function.splits list.splits
          literal_value.splits option.splits if_splits)
    moreover from this read_prices_terms [of "flattenBinary body AddOp" "[]" ps]
    have "list_all2 price_term (flattenBinary body AddOp) ps" by (auto simp: read_prices_def)
    ultimately show ?thesis using linear n rest l by simp
  qed
qed

theorem tier_evaluation:
  assumes "tokenTier n conds = Some t" and "wf_tree n" and "evaluate_at k env n s = Inr (v, s')"
  shows "rt_tier s' = tt_label t \<and>
     (case tt_fixed t of
        Some x \<Rightarrow> tt_unit t = UnitRequest \<and> rt_unit s' = UnitRequest \<and> rt_fixed s' = Some x \<and>
          rv_value v = VNum (num_mul x (Fin 1000000))
      | None \<Rightarrow> tt_unit t = UnitToken \<and> rt_unit s' = rt_unit s \<and> rt_fixed s' = rt_fixed s \<and>
          (left_nested (children n ! 1) \<longrightarrow> rv_value v = VNum (linear_cost (env_context env) (tt_prices t))))"
proof -
  from assms(3) obtain j where k: "k = Suc j" by (cases k) auto
  from assms(1,2) show ?thesis
  proof (cases rule: tokenTier_cases)
    case (fixed label i a b x l c d u' e' u e)
    from assms(3) obtain m where j: "j = Suc m" unfolding k fixed(1)
      by (cases j) (auto simp: evaluate_at_Suc_Inr evaluate_node_def eval_call_def eval_tier_def operand_simps)
    from assms(3) fixed show ?thesis
      unfolding k j
      by (cases m) (auto simp: evaluate_at_Suc_Inr evaluate_node_def eval_call_def eval_tier_def eval_fixed_def
          operand_simps)
  next
    case (linear label i a b body u e)
    from assms(3) obtain m where j: "j = Suc m" unfolding k linear(1)
      by (cases j) (auto simp: evaluate_at_Suc_Inr evaluate_node_def eval_call_def eval_tier_def operand_simps)
    from assms(3) obtain y t2 where y: "evaluate_at (Suc m) env body s = Inr (y, t2)"
      and v: "rv_value v = rv_value y" and s': "s' = t2\<lparr>rt_tier := label\<rparr>"
      unfolding k j linear(1)
      by (auto simp: evaluate_at_Suc_Inr [of "Suc m"] evaluate_node_def eval_call_def eval_tier_def operand_simps)
        (auto simp: evaluate_at_Suc_Inr evaluate_node_def)
    have wf: "wf_tree body" using assms(2) linear(1) by (simp add: wf_tree_child)
    have "t2 = s" by (rule evaluate_sum_state [OF linear(5) wf y])
    moreover have "left_nested body \<Longrightarrow> rv_value y = VNum (linear_cost (env_context env) (tt_prices t))"
      using evaluate_linear [OF linear(5) _ wf y] by simp
    ultimately show ?thesis using linear v s' by simp
  qed
qed

subsection \<open>The displayed chain\<close>

theorem displayed_chain:
  assumes c: "compile_uncached source = Inr c" and ts: "readTokenTierChain (comp_ast c) = Some ts"
    and h: "height (comp_ast c) < 256" and known: "counts_known ctx"
    and r: "evaluate_steps host c ctx = Inr r"
  shows "\<exists>i<length ts. find_index (\<lambda>t. list_all (holds ctx) (tt_conditions t)) ts = Some i \<and>
     matchedTier r = tt_label (ts ! i) \<and> billingUnit r = tt_unit (ts ! i) \<and> fixedPrice r = tt_fixed (ts ! i) \<and>
     (case tt_fixed (ts ! i) of
        Some x \<Rightarrow> cost r = num_mul x (Fin 1000000)
      | None \<Rightarrow> left_nested (children (leaf_nodes (comp_ast c) ! i) ! 1) \<longrightarrow>
                  cost r = linear_cost ctx (tt_prices (ts ! i)))"
  using r
proof (rule evaluate_steps_cases)
  fix env st v st' x
  assume new: "new_runtime host c ctx = Inr (env, st)"
    and ev: "evaluate_at 256 env (comp_ast c) st = Inr (v, st')" and v: "rv_value v = VNum x"
    and r: "r = \<lparr>cost = x, billingUnit = rt_unit st', fixedPrice = rt_fixed st',
              matchedTier = rt_tier st', requestRules = rt_rules st'\<rparr>"
  note new = new_runtime_state [OF new]
  have wf: "wf_tree (comp_ast c)" using compile_ready [OF c] by blast
  obtain i where i: "i < length ts" "find_index (\<lambda>t. list_all (holds ctx) (tt_conditions t)) ts = Some i"
      "leaf_nodes (comp_ast c) ! i \<in> set (postorder (comp_ast c))"
      "tokenTier (leaf_nodes (comp_ast c) ! i) (tt_conditions (ts ! i)) = Some (ts ! i)"
      "evaluate_at 256 env (leaf_nodes (comp_ast c) ! i) st = Inr (v, st')"
    using chain_selects [OF _ _ ts wf h, of env st] compiled_rules [OF c] new known ev by auto
  have "wf_tree (leaf_nodes (comp_ast c) ! i)" using descendant_span [OF wf i(3)] by simp
  note t = tier_evaluation [OF i(4) this i(5)]
  have st: "rt_unit st = UnitToken" "rt_fixed st = None"
    using new by (cases "rt_fixed st"; auto simp: fixed_consistent_def)+
  show ?thesis
    using t st v r new i(1,2) by (intro exI [of _ i]) (auto split: option.splits)
qed

subsection \<open>Branches on the time\<close>

text \<open>The time conditions at the top of a tree, and the branch that given answers choose.\<close>

fun time_conditions :: "expression_node \<Rightarrow> expression_node list" where
  "time_conditions (Conditional c yes no s e) =
     (if isTimeCondition c = Inr True then c # time_conditions yes @ time_conditions no else [])"
| "time_conditions n = []"

fun time_branch :: "(expression_node \<Rightarrow> bool) \<Rightarrow> expression_node \<Rightarrow> time_condition list \<times> expression_node" where
  "time_branch d (Conditional c yes no s e) =
     (if isTimeCondition c = Inr True
      then apfst ((#) \<lparr>tmc_condition = c, tmc_matches = d c\<rparr>) (if d c then time_branch d yes else time_branch d no)
      else ([], Conditional c yes no s e))"
| "time_branch d n = ([], n)"

definition path_current :: "js_host \<Rightarrow> compiled_expression \<Rightarrow> js_date \<Rightarrow> time_condition list \<Rightarrow> bool" where
  "path_current host compiled now path =
     list_all (\<lambda>tc. evaluateBillingCondition host compiled (tmc_condition tc) now = Some (tmc_matches tc)) path"

lemma tier_is_current_time_tier [simp]:
  "tier_is_current host compiled now (time_tier src path tier) = path_current host compiled now path"
  by (simp add: tier_is_current_def time_tier_def path_current_def)

lemma filter_time_leaf:
  "time_leaf src n path = Some ts \<Longrightarrow>
   filter (tier_is_current host compiled now) ts =
     (if path_current host compiled now path then map (time_tier src path) (the (readTokenTierChain n)) else []) \<and>
   readTokenTierChain n \<noteq> None"
  by (auto simp: time_leaf_def filter_map comp_def split: option.splits if_splits)

lemma time_leaf_branch:
  assumes "timeTierBranches src n path = Inr (Some ts)" and "timeTierBranches src n path = Inr (time_leaf src n path)"
    and "time_branch d n = ([], n)"
  shows "filter (tier_is_current host compiled now) ts =
     (if path_current host compiled now path
      then map (time_tier src (path @ fst (time_branch d n))) (the (readTokenTierChain (snd (time_branch d n))))
      else []) \<and>
   readTokenTierChain (snd (time_branch d n)) \<noteq> None"
  using filter_time_leaf [of src n path ts] assms by simp

theorem current_tiers_branch:
  "timeTierBranches src n path = Inr (Some ts) \<Longrightarrow>
   \<forall>c\<in>set (time_conditions n). evaluateBillingCondition host compiled c now = Some (d c) \<Longrightarrow>
   filter (tier_is_current host compiled now) ts =
     (if path_current host compiled now path
      then map (time_tier src (path @ fst (time_branch d n))) (the (readTokenTierChain (snd (time_branch d n))))
      else []) \<and>
   readTokenTierChain (snd (time_branch d n)) \<noteq> None"
proof (induction src n path arbitrary: ts rule: timeTierBranches.induct)
  case (1 src c yes no s e path)
  show ?case
  proof (cases "isTimeCondition c = Inr True")
    case True
    let ?y = "path @ [\<lparr>tmc_condition = c, tmc_matches = True\<rparr>]"
    let ?n = "path @ [\<lparr>tmc_condition = c, tmc_matches = False\<rparr>]"
    from "1.prems"(1) True obtain us vs where us: "timeTierBranches src yes ?y = Inr (Some us)"
      and vs: "timeTierBranches src no ?n = Inr (Some vs)" and ts: "ts = us @ vs"
      by (auto simp: result_simps split: option.splits)
    have ev: "evaluateBillingCondition host compiled c now = Some (d c)" using "1.prems"(2) True by simp
    have "\<forall>x\<in>set (time_conditions yes). evaluateBillingCondition host compiled x now = Some (d x)"
      "\<forall>x\<in>set (time_conditions no). evaluateBillingCondition host compiled x now = Some (d x)"
      using "1.prems"(2) True by simp_all
    note y = "1.IH"(1) [OF True TrueI us this(1)] and n = "1.IH"(2) [OF True TrueI us vs this(2)]
    show ?thesis
      using y n True ts ev by (cases "d c") (auto simp: path_current_def)
  next
    case False
    with "1.prems"(1) have "time_leaf src (Conditional c yes no s e) path = Some ts"
      by (cases "isTimeCondition c") (auto split: if_splits)
    from filter_time_leaf [OF this] False show ?thesis by simp
  qed
qed (rule time_leaf_branch, assumption, simp, simp)+

end
