(* ===== verification/Samples.thy ===== *)
theory Samples
  imports Visual_Correct Display_Correct
begin

section \<open>Sample expressions\<close>

text \<open>
  Two small expressions with what the compiler and the evaluator make of them, computed by
  the code equations of the model: a chain with a token tier and a request tier, and a
  branch on the hour. The witnesses of the root theory apply the theorems to them. The
  sample host knows no time zone, so that every zone falls back to UTC.
\<close>

definition sample_host :: js_host where
  "sample_host = \<lparr>intl_format = (\<lambda>z. None), unicode_lower = (\<lambda>s. s), current_time = 0\<rparr>"

definition sample_context :: simulation_context where
  "sample_context =
     \<lparr>ctx_tokens = Some [(js ''p'', VNum (Fin 7)), (js ''c'', VNum (Fin 1)), (js ''len'', VNum (Fin 7))],
      ctx_request = None, ctx_usage = None, ctx_now = None\<rparr>"

definition chain_source :: js_string where
  "chain_source = js ''p<5?tier(\"a\",p*2):tier(\"b\",fixed(3))''"

definition chain_tree :: expression_node where
  "chain_tree =
     Conditional (Binary LtOp (Variable TV_p 0 1) (Literal (LNum (Fin 5)) True 2 3) 0 3)
       (Call F_tier [Literal (LStr (js ''a'')) False 9 12,
          Binary MulOp (Variable TV_p 13 14) (Literal (LNum (Fin 2)) True 15 16) 13 16] 4 17)
       (Call F_tier [Literal (LStr (js ''b'')) False 23 26,
          Call F_fixed [Literal (LNum (Fin 3)) True 33 34] 27 35] 18 36) 0 36"

definition chain_compiled :: compiled_expression where
  "chain_compiled =
     \<lparr>comp_source = chain_source, comp_version = 1, comp_ast = chain_tree,
      comp_variables = {TV_p}, comp_functions = {F_fixed, F_tier}, comp_rules = []\<rparr>"

definition chain_result :: billing_success where
  "chain_result = \<lparr>cost = Fin 3000000, billingUnit = UnitRequest, fixedPrice = Some (Fin 3),
     matchedTier = js ''b'', requestRules = []\<rparr>"

lemma chain_parses: "parse chain_source = Some (Inr chain_tree)"
  by code_simp

lemma chain_compiles: "compile_uncached chain_source = Inr chain_compiled"
  by code_simp

lemma height_nodes:
  "height (Literal v i s e) = 0" "height (Variable x s e) = 0" "height (Unary uop a s e) = Suc (height a)"
  "height (Binary op a b s e) = max (Suc (height b)) (Suc (height a))"
  "height (Conditional c a b s e) = max (Suc (height b)) (max (Suc (height a)) (Suc (height c)))"
  "height (Call f args s e) = fold max (map (\<lambda>m. Suc (height m)) args) 0"
  by (subst height.simps; simp)+

text \<open>The trees are shallow: six levels evaluate them as the 256 of the program do.\<close>

lemma shallow_evaluate: "wf_tree n \<Longrightarrow> height n < 6 \<Longrightarrow> evaluate env n = evaluate_at 6 env n"
  unfolding evaluate_def using evaluate_at_level [of n 256 6 env] by (intro ext) simp

lemma chain_shallow: "evaluate env chain_tree = evaluate_at 6 env chain_tree"
proof (rule shallow_evaluate)
  show "wf_tree chain_tree" by code_simp
  show "height chain_tree < 6" by (simp add: chain_tree_def height_nodes)
qed

lemma chain_evaluates: "evaluate_steps sample_host chain_compiled sample_context = Inr chain_result"
proof -
  have "comp_ast chain_compiled = chain_tree" by (simp add: chain_compiled_def)
  then show ?thesis unfolding evaluate_steps_def by (simp only: chain_shallow) code_simp
qed

definition time_source :: js_string where
  "time_source = js ''hour(\"UTC\")<9?tier(\"n\",p*1):tier(\"d\",p*2)''"

definition time_call :: expression_node where
  "time_call = Binary LtOp (Call (F_time T_hour) [Literal (LStr (js ''UTC'')) False 5 10] 0 11)
     (Literal (LNum (Fin 9)) True 12 13) 0 13"

definition night_tier :: expression_node where
  "night_tier = Call F_tier [Literal (LStr (js ''n'')) False 19 22,
     Binary MulOp (Variable TV_p 23 24) (Literal (LNum (Fin 1)) True 25 26) 23 26] 14 27"

definition day_tier :: expression_node where
  "day_tier = Call F_tier [Literal (LStr (js ''d'')) False 33 36,
     Binary MulOp (Variable TV_p 37 38) (Literal (LNum (Fin 2)) True 39 40) 37 40] 28 41"

definition time_tree :: expression_node where
  "time_tree = Conditional time_call night_tier day_tier 0 41"

definition time_compiled :: compiled_expression where
  "time_compiled =
     \<lparr>comp_source = time_source, comp_version = 1, comp_ast = time_tree,
      comp_variables = {TV_p}, comp_functions = {F_tier, F_time T_hour}, comp_rules = []\<rparr>"

lemma time_compiles: "compile_uncached time_source = Inr time_compiled"
  by code_simp

lemma time_shallow: "evaluate env time_call = evaluate_at 6 env time_call"
proof (rule shallow_evaluate)
  show "wf_tree time_call" by code_simp
  show "height time_call < 6" by (simp add: time_call_def height_nodes)
qed

lemma time_condition_at_epoch:
  "evaluateBillingCondition sample_host time_compiled time_call (Some 0) = Some True"
  unfolding evaluateBillingCondition_def by (simp only: time_shallow) code_simp

end
