(* ===== verification/Request_Rules.thy ===== *)
theory Request_Rules
  imports Js_Json Expr_Structure Expr_Types
begin

section \<open>Request rules as text (billing-expr.ts)\<close>

text \<open>
  A pricing expression may be multiplied by factors \<^verbatim>\<open>(condition ? multiplier : 1)\<close> that depend
  on the request. The editor keeps them as groups of conditions: this theory models the
  reading of a group from its text, which matches regular expressions, and the writing of
  the text from a group. Every regular expression of the source is a function here that
  consumes the text it matches; they all match in one way only, because each repeated
  class stops at a character that the class excludes. An exception that \<^verbatim>\<open>JSON.parse\<close> or
  \<^verbatim>\<open>String\<close> throws is the \<open>Inl\<close> of the result.
\<close>

subsection \<open>Conditions and groups\<close>

datatype request_source = SOURCE_PARAM | SOURCE_HEADER

datatype request_condition =
    ParamHeaderCondition (ph_source: request_source) (ph_path: js_string) (ph_mode: js_string) (ph_value: js_string)
  | TimeCondition (tm_func: time_function) (tm_timezone: js_string) (tm_mode: js_string) (tm_value: js_string)
      (tm_rangeStart: js_string) (tm_rangeEnd: js_string)

record request_rule_group =
  rg_conditions :: "request_condition list"
  rg_multiplier :: js_string
  rg_conditionText :: "js_string option"
  rg_matched :: "bool option"

record request_rule_trace =
  trace_cond :: js_string
  trace_multiplier :: js_num
  trace_matched :: bool

abbreviation rule_group :: "request_condition list \<Rightarrow> js_string \<Rightarrow> request_rule_group" where
  "rule_group conditions multiplier \<equiv>
     \<lparr>rg_conditions = conditions, rg_multiplier = multiplier, rg_conditionText = None, rg_matched = None\<rparr>"

definition MATCH_EQ :: js_string where "MATCH_EQ = js ''eq''"
definition MATCH_CONTAINS :: js_string where "MATCH_CONTAINS = js ''contains''"
definition MATCH_GT :: js_string where "MATCH_GT = js ''gt''"
definition MATCH_GTE :: js_string where "MATCH_GTE = js ''gte''"
definition MATCH_LT :: js_string where "MATCH_LT = js ''lt''"
definition MATCH_LTE :: js_string where "MATCH_LTE = js ''lte''"
definition MATCH_EXISTS :: js_string where "MATCH_EXISTS = js ''exists''"
definition MATCH_RANGE :: js_string where "MATCH_RANGE = js ''range''"

lemmas match_modes =
  MATCH_EQ_def MATCH_CONTAINS_def MATCH_GT_def MATCH_GTE_def MATCH_LT_def MATCH_LTE_def MATCH_EXISTS_def MATCH_RANGE_def

subsection \<open>Pieces of the regular expressions\<close>

definition strip_prefix :: "js_string \<Rightarrow> js_string \<Rightarrow> js_string option" where
  "strip_prefix p s = (if starts_with s p then Some (drop (length p) s) else None)"

text \<open>\<^verbatim>\<open>[\d.eE+-]+\<close>, and the characters that a dot does not match.\<close>

definition is_num_unit :: "code_unit \<Rightarrow> bool" where
  "is_num_unit c \<longleftrightarrow> is_digit c \<or> c = 46 \<or> c = 101 \<or> c = 69 \<or> c = 43 \<or> c = 45"

definition is_line_end :: "code_unit \<Rightarrow> bool" where
  "is_line_end c \<longleftrightarrow> c = 10 \<or> c = 13 \<or> c = 8232 \<or> c = 8233"

definition num_token :: "js_string \<Rightarrow> (js_string \<times> js_string) option" where
  "num_token s =
     (let t = takeWhile is_num_unit s in if t = [] then None else Some (t, dropWhile is_num_unit s))"

text \<open>\<^verbatim>\<open>\("([^"]+)"\)\<close>\<close>

definition quoted_argument :: "js_string \<Rightarrow> (js_string \<times> js_string) option" where
  "quoted_argument s =
     Option.bind (strip_prefix (js ''(\"'') s) (\<lambda>r.
       let t = takeWhile (\<lambda>c. c \<noteq> 34) r in
       if t = [] then None
       else map_option (\<lambda>r'. (t, r')) (strip_prefix (js ''\")'') (dropWhile (\<lambda>c. c \<noteq> 34) r)))"

text \<open>\<^verbatim>\<open>(hour|minute|weekday|month|day)\("([^"]+)"\)\<close>\<close>

definition time_call_text :: "js_string \<Rightarrow> (time_function \<times> js_string \<times> js_string) option" where
  "time_call_text s =
     Option.bind (List.find (\<lambda>f. starts_with s (time_function_text f)) TIME_FUNCTIONS) (\<lambda>f.
     map_option (\<lambda>(tz, r). (f, tz, r)) (quoted_argument (drop (length (time_function_text f)) s)))"

text \<open>\<^verbatim>\<open>"(?:[^"\\]|\\.)*"\<close>\<close>

fun string_token_rest :: "js_string \<Rightarrow> js_string \<Rightarrow> (js_string \<times> js_string) option" where
  "string_token_rest [] acc = None"
| "string_token_rest (c # s) acc =
     (if c = 34 then Some (acc @ [34], s)
      else if c = 92 then
        (case s of [] \<Rightarrow> None | d # r \<Rightarrow> if is_line_end d then None else string_token_rest r (acc @ [92, d]))
      else string_token_rest s (acc @ [c]))"

definition string_token :: "js_string \<Rightarrow> (js_string \<times> js_string) option" where
  "string_token s = Option.bind (strip_prefix (js ''\"'') s) (\<lambda>r. string_token_rest r [34])"

text \<open>\<^verbatim>\<open>/^-?(?:\d+\.?\d*|\.\d+)(?:[eE][+-]?\d+)?$/\<close>\<close>

definition NUMERIC_LITERAL_REGEX :: "js_string \<Rightarrow> bool" where
  "NUMERIC_LITERAL_REGEX s \<longleftrightarrow> decimal_value (if s \<noteq> [] \<and> hd s = 45 then tl s else s) \<noteq> None"

subsection \<open>Literals and time bounds\<close>

definition parseExprLiteral :: "js_string \<Rightarrow> js_value option" where
  "parseExprLiteral raw =
     (let txt = trim raw in
      if txt = js ''true'' \<or> txt = js ''false'' then Some (VStr txt)
      else if NUMERIC_LITERAL_REGEX txt then Some (VStr txt)
      else json_parse txt)"

fun TIME_FUNC_RANGES :: "time_function \<Rightarrow> int \<times> int" where
  "TIME_FUNC_RANGES T_hour = (0, 23)"
| "TIME_FUNC_RANGES T_minute = (0, 59)"
| "TIME_FUNC_RANGES T_weekday = (0, 6)"
| "TIME_FUNC_RANGES T_month = (1, 12)"
| "TIME_FUNC_RANGES T_day = (1, 31)"

definition isTimeValueInRange :: "time_function \<Rightarrow> js_string \<Rightarrow> bool" where
  "isTimeValueInRange timeFunc txt =
     (if \<not> NUMERIC_LITERAL_REGEX txt then False
      else let val = number_of_string txt in
        if \<not> is_integer val then False
        else case TIME_FUNC_RANGES timeFunc of (mn, mx) \<Rightarrow>
          num_le (Fin (of_int mn)) val \<and> num_le val (Fin (of_int mx)))"

subsection \<open>Reading a time condition\<close>

text \<open>\<^verbatim>\<open>fn("tz") >= a (?:&&|\|\|) fn("tz") < b\<close> and what follows it.\<close>

definition time_range_text ::
  "js_string \<Rightarrow> (time_function \<times> js_string \<times> js_string \<times> js_string \<times> js_string) option" where
  "time_range_text s =
     Option.bind (time_call_text s) (\<lambda>(f, tz, r1).
     Option.bind (strip_prefix (js '' >= '') r1) (\<lambda>r2.
     Option.bind (num_token r2) (\<lambda>(a, r3).
     Option.bind (if starts_with r3 (js '' && '') \<or> starts_with r3 (js '' || '') then Some (drop 4 r3) else None) (\<lambda>r4.
     Option.bind (strip_prefix (time_function_text f @ js ''(\"'' @ tz @ js ''\") < '') r4) (\<lambda>r5.
     Option.bind (num_token r5) (\<lambda>(b, r6). Some (f, tz, a, b, r6)))))))"

definition time_range_match :: "js_string \<Rightarrow> (time_function \<times> js_string \<times> js_string \<times> js_string) option" where
  "time_range_match expr =
     (case time_range_text expr of
        Some (f, tz, a, b, []) \<Rightarrow> Some (f, tz, a, b)
      | _ \<Rightarrow>
          (case Option.bind (strip_prefix (js ''('') expr) time_range_text of
             Some (f, tz, a, b, r) \<Rightarrow> if r = js '')'' then Some (f, tz, a, b) else None
           | None \<Rightarrow> None))"

definition scalar_operator :: "js_string \<Rightarrow> (js_string \<times> js_string) option" where
  "scalar_operator s =
     (if starts_with s (js '' == '') then Some (MATCH_EQ, drop 4 s)
      else if starts_with s (js '' >= '') then Some (MATCH_GTE, drop 4 s)
      else if starts_with s (js '' < '') then Some (MATCH_LT, drop 3 s)
      else None)"

definition time_scalar_match :: "js_string \<Rightarrow> (time_function \<times> js_string \<times> js_string \<times> js_string) option" where
  "time_scalar_match expr =
     Option.bind (time_call_text expr) (\<lambda>(f, tz, r1).
     Option.bind (scalar_operator r1) (\<lambda>(mode, r2).
     Option.bind (num_token r2) (\<lambda>(v, r3). if r3 = [] then Some (f, tz, mode, v) else None)))"

definition tryParseTimeCondition :: "js_string \<Rightarrow> request_condition option" where
  "tryParseTimeCondition expr =
     (case time_range_match expr of
        Some (f, tz, a, b) \<Rightarrow>
          if \<not> isTimeValueInRange f a \<or> \<not> isTimeValueInRange f b then None
          else Some (TimeCondition f tz MATCH_RANGE [] a b)
      | None \<Rightarrow>
          (case time_scalar_match expr of
             Some (f, tz, mode, v) \<Rightarrow>
               if \<not> isTimeValueInRange f v then None else Some (TimeCondition f tz mode v [] [])
           | None \<Rightarrow> None))"

subsection \<open>Reading a condition on the request\<close>

definition source_text_of :: "request_source \<Rightarrow> js_string" where
  "source_text_of src = (case src of SOURCE_PARAM \<Rightarrow> js ''param'' | SOURCE_HEADER \<Rightarrow> js ''header'')"

text \<open>\<^verbatim>\<open>param("...")\<close> or \<^verbatim>\<open>header("...")\<close>, and what follows it.\<close>

definition source_call :: "request_source \<Rightarrow> js_string \<Rightarrow> (js_string \<times> js_string) option" where
  "source_call src s = Option.bind (strip_prefix (source_text_of src) s) quoted_argument"

definition exists_match :: "js_string \<Rightarrow> request_condition option" where
  "exists_match expr =
     (case source_call SOURCE_HEADER expr of
        Some (path, r) \<Rightarrow>
          if r = js '' != \"\"'' then Some (ParamHeaderCondition SOURCE_HEADER path MATCH_EXISTS []) else None
      | None \<Rightarrow>
          (case source_call SOURCE_PARAM expr of
             Some (path, r) \<Rightarrow>
               if r = js '' != nil'' then Some (ParamHeaderCondition SOURCE_PARAM path MATCH_EXISTS []) else None
           | None \<Rightarrow> None))"

text \<open>\<^verbatim>\<open>has(header("..."), "...")\<close> or \<^verbatim>\<open>has(param("..."), "...")\<close> to the end: the path and the token.\<close>

definition has_call :: "request_source \<Rightarrow> js_string \<Rightarrow> (js_string \<times> js_string) option" where
  "has_call src s =
     Option.bind (strip_prefix (js ''has('') s) (\<lambda>r1.
     Option.bind (source_call src r1) (\<lambda>(path, r2).
     Option.bind (strip_prefix (js '', '') r2) (\<lambda>r3.
     Option.bind (string_token r3) (\<lambda>(token, r4). if r4 = js '')'' then Some (path, token) else None))))"

definition contains_condition ::
  "request_source \<Rightarrow> js_string \<Rightarrow> js_string \<Rightarrow> js_exception + request_condition option" where
  "contains_condition src path token =
     (case json_parse token of
        None \<Rightarrow> Inl SyntaxError
      | Some v \<Rightarrow> bind_result (string_of_value v) (\<lambda>s. Inr (Some (ParamHeaderCondition src path MATCH_CONTAINS s))))"

text \<open>\<^verbatim>\<open>param("...") != nil && \<close>, and what follows it.\<close>

definition guarded_param :: "js_string \<Rightarrow> (js_string \<times> js_string) option" where
  "guarded_param expr =
     Option.bind (source_call SOURCE_PARAM expr) (\<lambda>(path, r).
       map_option (\<lambda>r'. (path, r')) (strip_prefix (js '' != nil && '') r))"

definition guarded_contains :: "js_string \<Rightarrow> (js_string \<times> js_string) option" where
  "guarded_contains expr =
     Option.bind (guarded_param expr) (\<lambda>(path, r).
     Option.bind (has_call SOURCE_PARAM r) (\<lambda>(path', token).
       if path = path' then Some (path, token) else None))"

definition order_operator :: "js_string \<Rightarrow> (js_string \<times> js_string) option" where
  "order_operator s =
     (if starts_with s (js '' > '') then Some (MATCH_GT, drop 3 s)
      else if starts_with s (js '' >= '') then Some (MATCH_GTE, drop 4 s)
      else if starts_with s (js '' < '') then Some (MATCH_LT, drop 3 s)
      else if starts_with s (js '' <= '') then Some (MATCH_LTE, drop 4 s)
      else None)"

definition guarded_order :: "js_string \<Rightarrow> request_condition option" where
  "guarded_order expr =
     Option.bind (guarded_param expr) (\<lambda>(path, r).
     Option.bind (source_call SOURCE_PARAM r) (\<lambda>(path', r1).
     Option.bind (order_operator r1) (\<lambda>(mode, r2).
     Option.bind (num_token r2) (\<lambda>(v, r3).
       if r3 = [] \<and> path = path' then Some (ParamHeaderCondition SOURCE_PARAM path mode v) else None))))"

text \<open>\<^verbatim>\<open>(param|header)("...") == (.+)\<close>\<close>

definition equals_match :: "js_string \<Rightarrow> (request_source \<times> js_string \<times> js_string) option" where
  "equals_match expr =
     (let after = (\<lambda>src. Option.bind (source_call src expr) (\<lambda>(path, r).
            Option.bind (strip_prefix (js '' == '') r) (\<lambda>raw.
              if raw \<noteq> [] \<and> list_all (\<lambda>c. \<not> is_line_end c) raw then Some (src, path, raw) else None))) in
      case after SOURCE_PARAM of Some m \<Rightarrow> Some m | None \<Rightarrow> after SOURCE_HEADER)"

definition equals_condition ::
  "request_source \<Rightarrow> js_string \<Rightarrow> js_string \<Rightarrow> js_exception + request_condition option" where
  "equals_condition src path raw =
     (case parseExprLiteral raw of
        None \<Rightarrow> Inr None
      | Some v \<Rightarrow>
          if v = VNull then Inr None
          else bind_result (string_of_value v) (\<lambda>s. Inr (Some (ParamHeaderCondition src path MATCH_EQ s))))"

definition tryParseRequestCondition :: "js_string \<Rightarrow> js_exception + request_condition option" where
  "tryParseRequestCondition expr =
     (case tryParseTimeCondition expr of
        Some tc \<Rightarrow> Inr (Some tc)
      | None \<Rightarrow>
     (case exists_match expr of
        Some c \<Rightarrow> Inr (Some c)
      | None \<Rightarrow>
     (case has_call SOURCE_HEADER expr of
        Some (path, token) \<Rightarrow> contains_condition SOURCE_HEADER path token
      | None \<Rightarrow>
     (case guarded_contains expr of
        Some (path, token) \<Rightarrow> contains_condition SOURCE_PARAM path token
      | None \<Rightarrow>
     (case guarded_order expr of
        Some c \<Rightarrow> Inr (Some c)
      | None \<Rightarrow>
     (case equals_match expr of
        Some (src, path, raw) \<Rightarrow> equals_condition src path raw
      | None \<Rightarrow> Inr None))))))"

subsection \<open>Reading groups\<close>

definition splitTopLevelMultiply :: "js_string \<Rightarrow> js_string list" where
  "splitTopLevelMultiply expr = splitExpressionAtTopLevel expr (js ''*'')"

definition splitTopLevelAnd :: "js_string \<Rightarrow> js_string list" where
  "splitTopLevelAnd expr = splitExpressionAtTopLevel expr (js ''&&'')"

definition tryParseTimeRangePair :: "js_string \<Rightarrow> js_string \<Rightarrow> request_condition option" where
  "tryParseTimeRangePair lower upper =
     (case (tryParseTimeCondition lower, tryParseTimeCondition upper) of
        (Some (TimeCondition f tz mode v _ _), Some (TimeCondition f' tz' mode' v' _ _)) \<Rightarrow>
          if f \<noteq> f' \<or> tz \<noteq> tz' then None
          else if mode \<noteq> MATCH_GTE \<or> mode' \<noteq> MATCH_LT then None
          else Some (TimeCondition f tz MATCH_RANGE [] v v')
      | _ \<Rightarrow> None)"

text \<open>The loop over the parts, which takes two parts when they form one range.\<close>

fun request_conditions_loop :: "js_string list \<Rightarrow> js_exception + request_condition list option" where
  "request_conditions_loop [] = Inr (Some [])"
| "request_conditions_loop (p # ps) =
     (let part = trim p; after = (case ps of [] \<Rightarrow> [] | q # _ \<Rightarrow> trim q);
          merged = (if after \<noteq> [] then tryParseTimeRangePair part after else None) in
      case merged of
        Some c \<Rightarrow> map_sum id (map_option (\<lambda>cs. c # cs)) (request_conditions_loop (drop 1 ps))
      | None \<Rightarrow>
          bind_result (tryParseRequestCondition part) (\<lambda>condition.
            case condition of
              None \<Rightarrow> Inr None
            | Some c \<Rightarrow> map_sum id (map_option (\<lambda>cs. c # cs)) (request_conditions_loop ps)))"

definition tryParseRequestConditions :: "js_string \<Rightarrow> js_exception + request_condition list option" where
  "tryParseRequestConditions conditionStr =
     (case tryParseTimeCondition (trim conditionStr) of
        Some c \<Rightarrow> Inr (Some [c])
      | None \<Rightarrow>
          bind_result (request_conditions_loop (splitTopLevelAnd conditionStr)) (\<lambda>conditions.
            Inr (if conditions = Some [] then None else conditions)))"

text \<open>\<^verbatim>\<open>/^\((.+) \? ([\d.eE+-]+) : 1\)$/s\<close>, read from its end.\<close>

definition rule_factor_match :: "js_string \<Rightarrow> (js_string \<times> js_string) option" where
  "rule_factor_match part =
     (if \<not> (starts_with part (js ''('') \<and> ends_with part (js '' : 1)'')) then None
      else
        (let mid = slice part 1 (length part - 5);
             multiplier = rev (takeWhile is_num_unit (rev mid));
             front = take (length mid - length multiplier) mid in
         if multiplier \<noteq> [] \<and> ends_with front (js '' ? '') \<and> 3 < length front
         then Some (take (length front - 3) front, multiplier) else None))"

definition tryParseRuleGroupFactor :: "js_string \<Rightarrow> js_exception + request_rule_group option" where
  "tryParseRuleGroupFactor part =
     (case rule_factor_match part of
        None \<Rightarrow> Inr None
      | Some (condition, multiplier) \<Rightarrow>
          map_sum id (map_option (\<lambda>conditions. rule_group conditions multiplier))
            (tryParseRequestConditions condition))"

definition group_of_trace :: "request_rule_trace \<Rightarrow> js_exception + request_rule_group" where
  "group_of_trace rule =
     (let conditionText = trim (trace_cond rule) in
      map_sum id (\<lambda>conditions.
          \<lparr>rg_conditions = (case conditions of Some cs \<Rightarrow> cs | None \<Rightarrow> []),
           rg_multiplier = string_of_number (trace_multiplier rule),
           rg_conditionText = Some conditionText, rg_matched = Some (trace_matched rule)\<rparr>)
        (tryParseRequestConditions conditionText))"

definition requestRuleGroupsFromTrace :: "request_rule_trace list \<Rightarrow> js_exception + request_rule_group list" where
  "requestRuleGroupsFromTrace requestRules = map_result group_of_trace requestRules"

fun rule_groups_loop :: "js_string list \<Rightarrow> js_exception + request_rule_group list option" where
  "rule_groups_loop [] = Inr (Some [])"
| "rule_groups_loop (part # parts) =
     bind_result (tryParseRuleGroupFactor part) (\<lambda>found.
       case found of
         None \<Rightarrow> Inr None
       | Some g \<Rightarrow> map_sum id (map_option (\<lambda>gs. g # gs)) (rule_groups_loop parts))"

definition tryParseRequestRuleExpr :: "js_string \<Rightarrow> js_exception + request_rule_group list option" where
  "tryParseRequestRuleExpr expr =
     (let trimmed = trim expr in
      if trimmed = [] then Inr (Some []) else rule_groups_loop (splitTopLevelMultiply trimmed))"

subsection \<open>Base expression and rules\<close>

record split_billing =
  billingExpr :: js_string
  requestRuleExpr :: js_string

definition is_rule_part :: "js_string \<Rightarrow> js_exception + bool" where
  "is_rule_part part =
     map_sum id (\<lambda>parsed. case parsed of None \<Rightarrow> False | Some gs \<Rightarrow> gs \<noteq> []) (tryParseRequestRuleExpr part)"

definition sort_part :: "js_string \<Rightarrow> js_string list \<times> js_string list \<Rightarrow> js_exception + (js_string list \<times> js_string list)" where
  "sort_part part acc =
     (case acc of (ruleParts, baseParts) \<Rightarrow>
        bind_result (is_rule_part part) (\<lambda>rule.
          Inr (if rule then (ruleParts @ [part], baseParts) else (ruleParts, baseParts @ [part]))))"

definition splitBillingExprAndRequestRules :: "js_string \<Rightarrow> js_exception + split_billing" where
  "splitBillingExprAndRequestRules expr =
     (let trimmed = trim expr; whole = \<lparr>billingExpr = trimmed, requestRuleExpr = []\<rparr> in
      if trimmed = [] then Inr \<lparr>billingExpr = [], requestRuleExpr = []\<rparr>
      else
        (let parts = splitTopLevelMultiply trimmed in
         if length parts \<le> 1 then Inr whole
         else
           bind_result (fold_result sort_part parts ([], [])) (\<lambda>(ruleParts, baseParts).
             Inr (if ruleParts = [] \<or> length baseParts \<noteq> 1 then whole
                  else \<lparr>billingExpr = unwrapExpressionParens (hd baseParts),
                        requestRuleExpr = join (js '' * '') ruleParts\<rparr>))))"

definition combineBillingExpr :: "js_string \<Rightarrow> js_string \<Rightarrow> js_string" where
  "combineBillingExpr baseExpr ruleExpr =
     (let base = trim baseExpr; rules = trim ruleExpr in
      if base = [] then [] else if rules = [] then base
      else js ''('' @ base @ js '') * '' @ rules)"

subsection \<open>New conditions and groups\<close>

definition createEmptyCondition :: request_condition where
  "createEmptyCondition = ParamHeaderCondition SOURCE_PARAM [] MATCH_EQ []"

definition createEmptyTimeCondition :: request_condition where
  "createEmptyTimeCondition = TimeCondition T_hour (js ''Asia/Shanghai'') MATCH_GTE [] [] []"

definition createEmptyRuleGroup :: request_rule_group where
  "createEmptyRuleGroup = rule_group [createEmptyCondition] []"

definition createEmptyTimeRuleGroup :: request_rule_group where
  "createEmptyTimeRuleGroup = rule_group [createEmptyTimeCondition] []"

text \<open>The options of a source: the mode and the key of its label.\<close>

definition getRequestRuleMatchOptions :: "js_string \<Rightarrow> (js_string \<times> js_string) list" where
  "getRequestRuleMatchOptions src =
     (if src = js ''time'' then
        [(MATCH_EQ, js ''Equals''), (MATCH_GTE, js ''Greater than or equal''),
         (MATCH_LT, js ''Less than''), (MATCH_RANGE, js ''Overnight range'')]
      else
        (let base = [(MATCH_EQ, js ''Equals''), (MATCH_CONTAINS, js ''Contains''), (MATCH_EXISTS, js ''Exists'')] in
         if src = js ''header'' then base
         else base @ [(MATCH_GT, js ''Greater than''), (MATCH_GTE, js ''Greater than or equal''),
                      (MATCH_LT, js ''Less than''), (MATCH_LTE, js ''Less than or equal'')]))"

subsection \<open>Normalising a condition\<close>

text \<open>A partial condition: every property may be missing.\<close>

record partial_condition =
  pc_source :: "js_string option"
  pc_path :: "js_string option"
  pc_timeFunc :: "js_string option"
  pc_timezone :: "js_string option"
  pc_mode :: "js_string option"
  pc_value :: "js_string option"
  pc_rangeStart :: "js_string option"
  pc_rangeEnd :: "js_string option"

definition isTimeFunc :: "js_string option \<Rightarrow> time_function option" where
  "isTimeFunc val =
     (case val of None \<Rightarrow> None | Some s \<Rightarrow> List.find (\<lambda>f. time_function_text f = s) TIME_FUNCTIONS)"

definition or_default :: "js_string option \<Rightarrow> js_string \<Rightarrow> js_string" where
  "or_default s d = (case s of None \<Rightarrow> d | Some t \<Rightarrow> if t = [] then d else t)"

definition chosen_mode :: "js_string \<Rightarrow> js_string option \<Rightarrow> js_string \<Rightarrow> js_string" where
  "chosen_mode src mode d =
     (case mode of
        None \<Rightarrow> d
      | Some m \<Rightarrow> if list_ex (\<lambda>(v, _). v = m) (getRequestRuleMatchOptions src) then m else d)"

definition text_or_empty :: "js_string option \<Rightarrow> js_string" where
  "text_or_empty s = (case s of None \<Rightarrow> [] | Some t \<Rightarrow> t)"

definition normalizeCondition :: "partial_condition option \<Rightarrow> request_condition" where
  "normalizeCondition cond =
     (let src = Option.bind cond pc_source; mode = Option.bind cond pc_mode; val = Option.bind cond pc_value in
      if src = Some (js ''time'') then
        TimeCondition
          (case isTimeFunc (Option.bind cond pc_timeFunc) of Some f \<Rightarrow> f | None \<Rightarrow> T_hour)
          (or_default (Option.bind cond pc_timezone) (js ''Asia/Shanghai''))
          (chosen_mode (js ''time'') mode MATCH_GTE) (text_or_empty val)
          (text_or_empty (Option.bind cond pc_rangeStart)) (text_or_empty (Option.bind cond pc_rangeEnd))
      else
        (let s = (if src = Some (js ''header'') then SOURCE_HEADER else SOURCE_PARAM) in
         ParamHeaderCondition s (or_default (Option.bind cond pc_path) [])
           (chosen_mode (source_text_of s) mode MATCH_EQ) (text_or_empty val)))"

fun partial_of :: "request_condition \<Rightarrow> partial_condition" where
  "partial_of (ParamHeaderCondition src path mode val) =
     \<lparr>pc_source = Some (source_text_of src), pc_path = Some path, pc_timeFunc = None, pc_timezone = None,
      pc_mode = Some mode, pc_value = Some val, pc_rangeStart = None, pc_rangeEnd = None\<rparr>"
| "partial_of (TimeCondition f tz mode val a b) =
     \<lparr>pc_source = Some (js ''time''), pc_path = None, pc_timeFunc = Some (time_function_text f),
      pc_timezone = Some tz, pc_mode = Some mode, pc_value = Some val, pc_rangeStart = Some a, pc_rangeEnd = Some b\<rparr>"

subsection \<open>Writing\<close>

definition buildExprLiteral :: "js_string \<Rightarrow> js_string \<Rightarrow> js_string" where
  "buildExprLiteral mode val =
     (let txt = trim val in
      if mode = MATCH_CONTAINS then json_string txt
      else if txt = js ''true'' \<or> txt = js ''false'' then txt
      else if NUMERIC_LITERAL_REGEX txt then txt
      else json_string txt)"

text \<open>The expression of a condition that is normalised already.\<close>

definition build_time :: "time_function \<Rightarrow> js_string \<Rightarrow> js_string \<Rightarrow> js_string \<Rightarrow> js_string \<Rightarrow> js_string \<Rightarrow> js_string" where
  "build_time timeFunc timezone mode val rangeStart rangeEnd =
     (let fn = time_function_text timeFunc @ js ''('' @ json_string timezone @ js '')'' in
      if mode = MATCH_RANGE then
        (let s = trim rangeStart; e = trim rangeEnd in
         if \<not> isTimeValueInRange timeFunc s \<or> \<not> isTimeValueInRange timeFunc e then []
         else if num_lt (number_of_string e) (number_of_string s)
         then fn @ js '' >= '' @ s @ js '' || '' @ fn @ js '' < '' @ e
         else fn @ js '' >= '' @ s @ js '' && '' @ fn @ js '' < '' @ e)
      else
        (let v = trim val in
         if \<not> isTimeValueInRange timeFunc v then []
         else fn @ js '' '' @
           (if mode = MATCH_GTE then js ''>='' else if mode = MATCH_LT then js ''<'' else js ''=='') @ js '' '' @ v))"

definition order_text :: "js_string \<Rightarrow> js_string option" where
  "order_text mode =
     (if mode = MATCH_GT then Some (js ''>'') else if mode = MATCH_GTE then Some (js ''>='')
      else if mode = MATCH_LT then Some (js ''<'') else if mode = MATCH_LTE then Some (js ''<='') else None)"

definition build_param_header :: "request_source \<Rightarrow> js_string \<Rightarrow> js_string \<Rightarrow> js_string \<Rightarrow> js_string" where
  "build_param_header src rawPath mode val =
     (let path = trim rawPath; call = source_text_of src @ js ''('' @ json_string path @ js '')'' in
      if path = [] then []
      else if mode = MATCH_EXISTS then
        (case src of SOURCE_HEADER \<Rightarrow> call @ js '' != \"\"'' | SOURCE_PARAM \<Rightarrow> call @ js '' != nil'')
      else if mode = MATCH_CONTAINS then
        (let has = js ''has('' @ call @ js '', '' @ buildExprLiteral mode val @ js '')'' in
         case src of SOURCE_HEADER \<Rightarrow> has | SOURCE_PARAM \<Rightarrow> call @ js '' != nil && '' @ has)
      else
        (case order_text mode of
           Some op \<Rightarrow>
             (let numText = trim val in
              if \<not> NUMERIC_LITERAL_REGEX numText then []
              else call @ js '' != nil && '' @ call @ js '' '' @ op @ js '' '' @ numText)
         | None \<Rightarrow> call @ js '' == '' @ buildExprLiteral mode val))"

definition buildRequestConditionExpr :: "request_condition \<Rightarrow> js_string" where
  "buildRequestConditionExpr cond =
     (case normalizeCondition (Some (partial_of cond)) of
        TimeCondition f tz mode v a b \<Rightarrow> build_time f tz mode v a b
      | ParamHeaderCondition src path mode v \<Rightarrow> build_param_header src path mode v)"

definition buildRuleGroupFactor :: "request_rule_group \<Rightarrow> js_string" where
  "buildRuleGroupFactor grp =
     (let multiplier = trim (rg_multiplier grp) in
      if \<not> NUMERIC_LITERAL_REGEX multiplier then []
      else
        (let condExprs = filter (\<lambda>e. e \<noteq> []) (map buildRequestConditionExpr (rg_conditions grp)) in
         if condExprs = [] then []
         else
           (let combined = (if length condExprs = 1 then hd condExprs
              else join (js '' && '')
                (map (\<lambda>e. if str_includes e (js '' || '') then js ''('' @ e @ js '')'' else e) condExprs)) in
            js ''('' @ combined @ js '' ? '' @ multiplier @ js '' : 1)'')))"

definition buildRequestRuleExpr :: "request_rule_group list \<Rightarrow> js_string" where
  "buildRequestRuleExpr groups =
     join (js '' * '') (filter (\<lambda>f. f \<noteq> []) (map buildRuleGroupFactor groups))"

end
