(* ===== verification/Pricing_Tiers.thy ===== *)
theory Pricing_Tiers
  imports Expr_Display Request_Rules
begin

section \<open>Tiers of an expression (billing-expr.ts, breakdown-tier-match.ts)\<close>

text \<open>
  The registry of billing variables, the rows a price table shows for an expression, and
  the test whether a row is the one a settlement used.
\<close>

subsection \<open>The variable registry\<close>

datatype variable_side = SideInput | SideOutput | SideCondition

record billing_var =
  bv_key :: token_variable
  bv_field :: "js_string option"
  bv_tierField :: "js_string option"
  bv_label :: js_string
  bv_shortLabel :: js_string
  bv_side :: variable_side
  bv_isBase :: bool
  bv_isConditionOnly :: bool
  bv_group :: "js_string option"

abbreviation priced_var ::
  "token_variable \<Rightarrow> string \<Rightarrow> string \<Rightarrow> string \<Rightarrow> string \<Rightarrow> variable_side \<Rightarrow> bool \<Rightarrow> string option \<Rightarrow> billing_var" where
  "priced_var k f tf l sl side base g \<equiv>
     \<lparr>bv_key = k, bv_field = Some (js f), bv_tierField = Some (js tf), bv_label = js l, bv_shortLabel = js sl,
      bv_side = side, bv_isBase = base, bv_isConditionOnly = False, bv_group = map_option js g\<rparr>"

definition BILLING_VARS :: "billing_var list" where
  "BILLING_VARS =
     [priced_var TV_p ''inputPrice'' ''input_unit_cost'' ''Input price'' ''Input'' SideInput True None,
      priced_var TV_c ''outputPrice'' ''output_unit_cost'' ''Completion price'' ''Output'' SideOutput True None,
      \<lparr>bv_key = TV_len, bv_field = None, bv_tierField = None, bv_label = js ''Input length'',
       bv_shortLabel = js ''Length'', bv_side = SideCondition, bv_isBase = False, bv_isConditionOnly = True,
       bv_group = None\<rparr>,
      priced_var TV_cr ''cacheReadPrice'' ''cache_read_unit_cost'' ''Cache read price'' ''Cache Read'' SideInput False
        (Some ''cache''),
      priced_var TV_cc ''cacheCreatePrice'' ''cache_create_unit_cost'' ''Cache create price'' ''Cache Write'' SideInput
        False (Some ''cache''),
      priced_var TV_cc1h ''cacheCreate1hPrice'' ''cache_create_1h_unit_cost'' ''Cache create (1h) price''
        ''Cache Write (1h)'' SideInput False (Some ''cache''),
      priced_var TV_img ''imagePrice'' ''image_unit_cost'' ''Image input price'' ''Image In'' SideInput False (Some ''media''),
      priced_var TV_img_o ''imageOutputPrice'' ''image_output_unit_cost'' ''Image output price'' ''Image Out'' SideOutput
        False (Some ''media''),
      priced_var TV_ai ''audioInputPrice'' ''audio_input_unit_cost'' ''Audio input price'' ''Audio In'' SideInput False
        (Some ''media''),
      priced_var TV_ao ''audioOutputPrice'' ''audio_output_unit_cost'' ''Audio output price'' ''Audio Out'' SideOutput
        False (Some ''media'')]"

definition BILLING_PRICING_VARS :: "billing_var list" where
  "BILLING_PRICING_VARS = filter (\<lambda>v. \<not> bv_isConditionOnly v) BILLING_VARS"

definition BILLING_CONDITION_VARS :: "token_variable list" where
  "BILLING_CONDITION_VARS = map bv_key (filter (\<lambda>v. bv_isBase v \<or> bv_isConditionOnly v) BILLING_VARS)"

definition BILLING_VAR_KEY_TO_FIELD :: "(token_variable, js_string) entries" where
  "BILLING_VAR_KEY_TO_FIELD = map (\<lambda>v. (bv_key v, the (bv_field v))) BILLING_PRICING_VARS"

definition BILLING_EXTRA_VARS :: "billing_var list" where
  "BILLING_EXTRA_VARS = filter (\<lambda>v. \<not> bv_isBase v \<and> \<not> bv_isConditionOnly v) BILLING_VARS"

definition BILLING_CACHE_VAR_MAP :: "(js_string \<times> token_variable) list" where
  "BILLING_CACHE_VAR_MAP = map (\<lambda>v. (the (bv_tierField v), bv_key v)) BILLING_EXTRA_VARS"

subsection \<open>Rows of a price table\<close>

text \<open>The optional unit and price are present for request tiers only.\<close>

record parsed_tier =
  pt_billingUnit :: "billing_unit option"
  pt_fixedPrice :: "js_num option"
  pt_conditionText :: "js_string option"
  pt_label :: js_string
  pt_conditions :: "token_condition list"
  pt_fields :: "(js_string, js_num) entries"

definition field_of :: "token_variable \<Rightarrow> js_string" where
  "field_of v = (case map_of BILLING_VAR_KEY_TO_FIELD v of Some f \<Rightarrow> f | None \<Rightarrow> js ''undefined'')"

definition mapTokenTier :: "token_tier \<Rightarrow> js_string option \<Rightarrow> parsed_tier" where
  "mapTokenTier tier condText =
     \<lparr>pt_billingUnit = (if tt_unit tier = UnitRequest then Some UnitRequest else None),
      pt_fixedPrice = (if tt_unit tier = UnitRequest then tt_fixed tier else None),
      pt_conditionText = (case condText of Some t \<Rightarrow> if t \<noteq> [] then Some t else None | None \<Rightarrow> None),
      pt_label = tt_label tier, pt_conditions = tt_conditions tier,
      pt_fields = fold (\<lambda>(v, price). set_own (field_of v) price) (tt_prices tier) []\<rparr>"

definition map_time_tier :: "time_token_tier \<Rightarrow> parsed_tier" where
  "map_time_tier t = mapTokenTier (ttt_tier t) (Some (ttt_text t))"

definition parseTiersFromExpr ::
  "js_host \<Rightarrow> js_string \<Rightarrow> compile_cache \<Rightarrow> parsed_tier list result \<times> compile_cache" where
  "parseTiersFromExpr host exprStr cache =
     (if exprStr = [] then (Inr [], cache)
      else
        (case compileBillingExpression exprStr cache of
           (Inl failure, cache1) \<Rightarrow> (Inr [], cache1)
         | (Inr compiled, cache1) \<Rightarrow>
             (case readTokenTierChain (comp_ast compiled) of
                Some canonical \<Rightarrow> (Inr (map (\<lambda>t. mapTokenTier t None) canonical), cache1)
              | None \<Rightarrow>
                  (case readTimeTokenPricing host exprStr None cache1 of (pricing, cache2) \<Rightarrow>
                     (map_sum id (\<lambda>p. case p of Some (tiers, _) \<Rightarrow> map map_time_tier tiers | None \<Rightarrow> []) pricing,
                      cache2)))))"

definition getCurrentTimePricingTiers ::
  "js_host \<Rightarrow> js_string \<Rightarrow> js_date \<Rightarrow> compile_cache \<Rightarrow> parsed_tier list option result \<times> compile_cache" where
  "getCurrentTimePricingTiers host exprStr now cache =
     (case readTimeTokenPricing host exprStr (Some now) cache of (pricing, cache1) \<Rightarrow>
        (map_sum id (map_option (\<lambda>(_, currentTiers). map map_time_tier currentTiers)) pricing, cache1))"

definition parseTaskTiersFromExpr ::
  "js_string \<Rightarrow> usage_schema option \<Rightarrow> bool \<Rightarrow> compile_cache \<Rightarrow> (js_exception + task_tier list) \<times> compile_cache" where
  "parseTaskTiersFromExpr exprStr schema includeBooleanConditions cache =
     (case schema of
        None \<Rightarrow> (Inr [], cache)
      | Some sch \<Rightarrow>
          if exprStr = [] \<or> sch = [] then (Inr [], cache)
          else
            (case splitBillingExprAndRequestRules exprStr of
               Inl e \<Rightarrow> (Inl e, cache)
             | Inr parts \<Rightarrow>
                 (case compileBillingExpression (billingExpr parts) cache of
                    (Inl failure, cache1) \<Rightarrow> (Inr [], cache1)
                  | (Inr compiled, cache1) \<Rightarrow>
                      (Inr (case readTaskTierChain (comp_ast compiled) sch includeBooleanConditions of
                              Some tiers \<Rightarrow> tiers | None \<Rightarrow> []), cache1))))"

subsection \<open>Labels\<close>

text \<open>\<^verbatim>\<open>replaceAll(/<[=E]?|L|W[=E]?/g, '<')\<close> for the wide forms E, W and the sign L, and its mirror.\<close>

fun fold_sign :: "code_unit \<Rightarrow> code_unit \<Rightarrow> code_unit \<Rightarrow> js_string \<Rightarrow> js_string" where
  "fold_sign narrow wide both [] = []"
| "fold_sign narrow wide both [c] = [if c = narrow \<or> c = wide \<or> c = both then narrow else c]"
| "fold_sign narrow wide both (c # d # s) =
     (if c = narrow \<or> c = wide
      then narrow # (if d = 61 \<or> d = 65309 then fold_sign narrow wide both s else fold_sign narrow wide both (d # s))
      else (if c = both then narrow else c) # fold_sign narrow wide both (d # s))"

definition normalizeTierLabel :: "(js_string \<Rightarrow> js_string) \<Rightarrow> js_string option \<Rightarrow> js_string" where
  "normalizeTierLabel unicode label =
     (case label of
        None \<Rightarrow> []
      | Some l \<Rightarrow>
          if l = [] then []
          else to_lower_case unicode
                 (filter (\<lambda>c. \<not> is_space c) (fold_sign 62 65310 8805 (fold_sign 60 65308 8804 l))))"

subsection \<open>The row of a settlement\<close>

datatype breakdown_tier = TokenRow parsed_tier | TaskRow task_tier

fun row_label :: "breakdown_tier \<Rightarrow> js_string" where
  "row_label (TokenRow t) = pt_label t"
| "row_label (TaskRow t) = tk_label t"

definition tierMatchesNormalizedLabel :: "(js_string \<Rightarrow> js_string) \<Rightarrow> breakdown_tier \<Rightarrow> js_string \<Rightarrow> bool" where
  "tierMatchesNormalizedLabel unicode tier normalized \<longleftrightarrow>
     normalized \<noteq> [] \<and> normalizeTierLabel unicode (Some (row_label tier)) = normalized"

text \<open>Whether a row is excluded by the unit or the fixed price of the settlement.\<close>

definition unit_excludes :: "breakdown_tier \<Rightarrow> billing_unit option \<Rightarrow> js_num option \<Rightarrow> bool" where
  "unit_excludes tier unit price =
     (case (tier, unit) of
        (TokenRow t, Some u) \<Rightarrow>
          (case pt_billingUnit t of Some v \<Rightarrow> v | None \<Rightarrow> UnitToken) \<noteq> u \<or>
          (u = UnitRequest \<and>
           (case price of
              None \<Rightarrow> False
            | Some x \<Rightarrow> (case pt_fixedPrice t of None \<Rightarrow> True | Some y \<Rightarrow> \<not> num_eq y x)))
      | _ \<Rightarrow> False)"

text \<open>\<^verbatim>\<open>String(fact) === condition.value\<close> for a fact that is a string or a number.\<close>

definition fact_matches :: "(js_string, js_string + js_num) entries \<Rightarrow> task_condition \<Rightarrow> bool" where
  "fact_matches facts c =
     (case map_of facts (tk_field c) of
        None \<Rightarrow> False
      | Some (Inl s) \<Rightarrow> s = tk_value c
      | Some (Inr x) \<Rightarrow> string_of_number x = tk_value c)"

definition facts_match :: "(js_string, js_string + js_num) entries option \<Rightarrow> breakdown_tier \<Rightarrow> bool" where
  "facts_match facts tier =
     (case (facts, tier) of
        (Some fs, TaskRow t) \<Rightarrow> tk_conditions t \<noteq> [] \<and> list_all (fact_matches fs) (tk_conditions t)
      | _ \<Rightarrow> False)"

definition isBreakdownTierMatched ::
  "(js_string \<Rightarrow> js_string) \<Rightarrow> breakdown_tier \<Rightarrow> breakdown_tier list \<Rightarrow> js_string option \<Rightarrow>
   (js_string, js_string + js_num) entries option \<Rightarrow> billing_unit option \<Rightarrow> js_num option \<Rightarrow> bool" where
  "isBreakdownTierMatched unicode tier tiers matchedTierLabel usageFacts unit price =
     (if unit_excludes tier unit price then False
      else
        (let normalized = normalizeTierLabel unicode matchedTierLabel in
         if tierMatchesNormalizedLabel unicode tier normalized then True
         else if list_ex (\<lambda>t. tierMatchesNormalizedLabel unicode t normalized) tiers then False
         else facts_match usageFacts tier))"

subsection \<open>Lemmas\<close>

text \<open>Every priced variable has a field of its own.\<close>

lemma field_of_simps [simp]:
  "field_of TV_p = js ''inputPrice''" "field_of TV_c = js ''outputPrice''" "field_of TV_len = js ''undefined''"
  "field_of TV_cr = js ''cacheReadPrice''" "field_of TV_cc = js ''cacheCreatePrice''"
  "field_of TV_cc1h = js ''cacheCreate1hPrice''" "field_of TV_img = js ''imagePrice''"
  "field_of TV_img_o = js ''imageOutputPrice''" "field_of TV_ai = js ''audioInputPrice''"
  "field_of TV_ao = js ''audioOutputPrice''"
  by (simp_all add: field_of_def BILLING_VAR_KEY_TO_FIELD_def BILLING_PRICING_VARS_def BILLING_VARS_def)

lemma field_of_inject: "field_of v = field_of w \<Longrightarrow> v = w"
  by (cases v; cases w) simp_all

lemma fold_set_own_other:
  "(\<And>v p. (v, p) \<in> set es \<Longrightarrow> g v \<noteq> k) \<Longrightarrow> map_of (fold (\<lambda>(v, p). set_own (g v) p) es acc) k = map_of acc k"
proof (induction es arbitrary: acc)
  case (Cons e es)
  obtain v p where e: "e = (v, p)" by fastforce
  have "map_of (fold (\<lambda>(v, p). set_own (g v) p) es (set_own (g v) p acc)) k = map_of (set_own (g v) p acc) k"
    using Cons.prems by (intro Cons.IH) auto
  with Cons.prems e show ?case by auto
qed simp

lemma mapped_price:
  assumes "distinct (map fst (tt_prices t))"
  shows "map_of (pt_fields (mapTokenTier t txt')) (field_of v) = map_of (tt_prices t) v"
proof -
  have "map_of (fold (\<lambda>(w, p). set_own (field_of w) p) es acc) (field_of v) =
      (case map_of es v of Some p \<Rightarrow> Some p | None \<Rightarrow> map_of acc (field_of v))"
    if "distinct (map fst es)" for es and acc :: "(js_string, js_num) entries"
    using that
  proof (induction es arbitrary: acc)
    case (Cons e es)
    obtain w p where e: "e = (w, p)" by fastforce
    show ?case
    proof (cases "w = v")
      case True
      have "map_of es v = None" using Cons.prems e True by (auto simp: map_of_eq_None_iff)
      with Cons e True show ?thesis by simp
    next
      case False
      then have "field_of w \<noteq> field_of v" using field_of_inject by blast
      with Cons e False show ?thesis by (auto split: option.split)
    qed
  qed simp
  from this [OF assms, of "[]"] show ?thesis by (simp add: mapTokenTier_def split: option.split)
qed

text \<open>A row is the settlement row by its label when some row has the label, by the facts otherwise.\<close>

lemma breakdown_match_iff:
  assumes "tier \<in> set tiers"
  shows "isBreakdownTierMatched unicode tier tiers label facts unit price \<longleftrightarrow>
     \<not> unit_excludes tier unit price \<and>
     (let n = normalizeTierLabel unicode label in
      if list_ex (\<lambda>t. tierMatchesNormalizedLabel unicode t n) tiers
      then tierMatchesNormalizedLabel unicode tier n else facts_match facts tier)"
  using assms by (auto simp: isBreakdownTierMatched_def Let_def list_ex_iff)

text \<open>The tiers of a compiled expression are read without an exception.\<close>

lemma isTimeCondition_ok: "height c \<le> 256 \<Longrightarrow> \<exists>b. isTimeCondition c = Inr b"
  by (simp add: isTimeCondition_def expressionDependencies_eq)

lemma timeTierBranches_ok: "height n \<le> 256 \<Longrightarrow> \<exists>r. timeTierBranches src n path = Inr r"
proof (induction src n path rule: timeTierBranches.induct)
  case (1 src c yes no s e path)
  have h: "height c \<le> 256" "height yes \<le> 256" "height no \<le> 256"
    using height_child [of _ "Conditional c yes no s e"] "1.prems" by fastforce+
  obtain b where b: "isTimeCondition c = Inr b" using isTimeCondition_ok [OF h(1)] by blast
  show ?case
  proof (cases b)
    case True
    from "1.IH"(1) [OF b True h(2)] obtain ys where ys:
      "timeTierBranches src yes (path @ [\<lparr>tmc_condition = c, tmc_matches = True\<rparr>]) = Inr ys" by blast
    from "1.IH"(2) [OF b True ys h(3)] ys b True show ?thesis by auto
  qed (simp add: b)
qed simp_all

theorem parseTiers_no_exception:
  assumes "cache_agrees cache"
  shows "\<exists>ts. fst (parseTiersFromExpr host src cache) = Inr ts"
proof (cases "compile_uncached src")
  case (Inl f)
  then show ?thesis
    using compile_step(1) [OF assms, of src] by (auto simp: parseTiersFromExpr_def split: prod.splits sum.splits)
next
  case (Inr c)
  obtain c1 where s1: "compileBillingExpression src cache = (Inr c, c1)" and a1: "cache_agrees c1"
    using compile_step [OF assms, of src] Inr by (metis prod.collapse)
  obtain c2 where s2: "compileBillingExpression src c1 = (Inr c, c2)"
    using compile_step [OF a1, of src] Inr by (metis prod.collapse)
  have "height (comp_ast c) \<le> 256" using compile_ready [OF Inr] by blast
  then obtain r where "timeTierBranches (comp_source c) (comp_ast c) [] = Inr r" using timeTierBranches_ok by blast
  with s1 s2 show ?thesis
    by (auto simp: parseTiersFromExpr_def readTimeTokenPricing_def read_time_pricing_def split: option.split)
qed

end
