(* ===== verification/Js_Regex.thy ===== *)
theory Js_Regex
  imports Js_String
begin

section \<open>Regular expressions\<close>

text \<open>
  The backtracking matcher of the language for the operators that the tier editor uses. A match
  returns every way to match, in the order in which the matcher of the language tries them,
  as what remains of the input and the captured groups; the result of the language is the first. As in
  the language, a repetition refuses an iteration that consumes nothing.
\<close>

datatype regex =
    RxSet "code_unit \<Rightarrow> bool"
  | RxEnd
  | RxSeq "regex list"
  | RxAlt "regex list"
  | RxOpt regex
  | RxStar regex
  | RxGroup nat regex

type_synonym captures = "(nat \<times> js_string) list"

function rx_match :: "regex \<Rightarrow> js_string \<Rightarrow> captures \<Rightarrow> (js_string \<times> captures) list" where
  "rx_match (RxSet P) s caps = (case s of [] \<Rightarrow> [] | c # r \<Rightarrow> if P c then [(r, caps)] else [])"
| "rx_match RxEnd s caps = (if s = [] then [(s, caps)] else [])"
| "rx_match (RxSeq []) s caps = [(s, caps)]"
| "rx_match (RxSeq (r # rs)) s caps = concat (map (\<lambda>(s', caps'). rx_match (RxSeq rs) s' caps') (rx_match r s caps))"
| "rx_match (RxAlt rs) s caps = concat (map (\<lambda>r. rx_match r s caps) rs)"
| "rx_match (RxOpt r) s caps = filter (\<lambda>(s', _). length s' < length s) (rx_match r s caps) @ [(s, caps)]"
| "rx_match (RxStar r) s caps =
     concat (map (\<lambda>(s', caps'). if length s' < length s then rx_match (RxStar r) s' caps' else []) (rx_match r s caps))
       @ [(s, caps)]"
| "rx_match (RxGroup n r) s caps =
     map (\<lambda>(s', caps'). (s', (n, take (length s - length s') s) # caps')) (rx_match r s caps)"
  by pat_completeness auto
termination
  by (relation "measures [\<lambda>(r, s, caps). size r, \<lambda>(r, s, caps). length s]") (auto simp: less_Suc_eq_le intro: size_list_estimation')

abbreviation rx_plus :: "regex \<Rightarrow> regex" where
  "rx_plus r \<equiv> RxSeq [r, RxStar r]"

definition rx_text :: "js_string \<Rightarrow> regex" where
  "rx_text s = RxSeq (map (\<lambda>c. RxSet (\<lambda>x. x = c)) s)"

definition rx_spaces :: regex where
  "rx_spaces = RxStar (RxSet is_space)"

text \<open>The first match at the start of the text, the first match anywhere, and the matches of a global expression.\<close>

definition match_here :: "regex \<Rightarrow> js_string \<Rightarrow> (js_string \<times> captures) option" where
  "match_here rx s = (case rx_match rx s [] of [] \<Rightarrow> None | m # _ \<Rightarrow> Some m)"

fun rx_exec :: "regex \<Rightarrow> js_string \<Rightarrow> (js_string \<times> captures) option" where
  "rx_exec rx [] = match_here rx []"
| "rx_exec rx (c # s) = (case match_here rx (c # s) of Some m \<Rightarrow> Some m | None \<Rightarrow> rx_exec rx s)"

function all_matches :: "regex \<Rightarrow> js_string \<Rightarrow> captures list" where
  "all_matches rx s =
     (case rx_exec rx s of
        None \<Rightarrow> []
      | Some (rest, caps) \<Rightarrow> if length rest < length s then caps # all_matches rx rest else [])"
  by pat_completeness auto
termination
  by (relation "measure (\<lambda>(rx, s). length s)") auto

declare all_matches.simps [simp del]

text \<open>\<^verbatim>\<open>String.prototype.split\<close> at the matches of an expression that never matches the empty text.\<close>

function split_at_matches :: "regex \<Rightarrow> js_string \<Rightarrow> js_string \<Rightarrow> js_string list" where
  "split_at_matches rx piece s =
     (case s of
        [] \<Rightarrow> [piece]
      | c # r \<Rightarrow>
          (case match_here rx s of
             Some (rest, _) \<Rightarrow>
               if length rest < length s then piece # split_at_matches rx [] rest
               else split_at_matches rx (piece @ [c]) r
           | None \<Rightarrow> split_at_matches rx (piece @ [c]) r))"
  by pat_completeness auto
termination
  by (relation "measure (\<lambda>(rx, piece, s). length s)") auto

declare split_at_matches.simps [simp del]

end
