(* ===== verification/Tier_Editor.thy ===== *)
theory Tier_Editor
  imports Pricing_Tiers Js_Regex
begin

section \<open>The tier editor and the estimator (tier-expr.ts)\<close>

text \<open>
  The editor keeps a list of tiers with unit costs, writes it as an expression, and reads an
  expression back with regular expressions, accepting several tiers only if writing them
  again gives the same text up to white space. The estimator evaluates an expression for
  token counts that the user enters. The unit costs of a tier are its numeric properties by
  name; a property that is absent reads as \<^verbatim>\<open>undefined\<close>, whose number is \<open>NaN\<close>.
\<close>

subsection \<open>Tiers\<close>

datatype cache_mode = CACHE_MODE_TIMED | CACHE_MODE_GENERIC

record tier_condition_input =
  ci_var :: condition_variable
  ci_op :: condition_operator
  ci_value :: "js_string + js_num"

record partial_tier =
  pa_billing_unit :: "billing_unit option"
  pa_fixed_price :: "js_string option"
  pa_label :: "js_string option"
  pa_conditions :: "tier_condition_input list option"
  pa_cache_mode :: "cache_mode option"
  pa_costs :: "(js_string, js_num) entries"

record visual_tier =
  vt_billing_unit :: "billing_unit option"
  vt_fixed_price :: "js_string option"
  vt_label :: js_string
  vt_conditions :: "tier_condition_input list"
  vt_cache_mode :: cache_mode
  vt_costs :: "(js_string, js_num) entries"

record visual_config =
  vc_tiers :: "visual_tier list"

text \<open>\<^verbatim>\<open>Number(x) || 0\<close> of a property that may be absent.\<close>

definition number_or_zero :: "js_num option \<Rightarrow> js_num" where
  "number_or_zero x = (case x of Some v \<Rightarrow> if v = NaN \<or> is_zero v then Fin 0 else v | None \<Rightarrow> Fin 0)"

definition INPUT_COST :: js_string where "INPUT_COST = js ''input_unit_cost''"

definition OUTPUT_COST :: js_string where "OUTPUT_COST = js ''output_unit_cost''"

definition getTierCacheMode :: "partial_tier option \<Rightarrow> cache_mode" where
  "getTierCacheMode tier =
     (case Option.bind tier pa_cache_mode of
        Some mode \<Rightarrow> mode
      | None \<Rightarrow>
          (case Option.bind tier (\<lambda>t. map_of (pa_costs t) (js ''cache_create_1h_unit_cost'')) of
             Some x \<Rightarrow> if num_lt (Fin 0) x then CACHE_MODE_TIMED else CACHE_MODE_GENERIC
           | None \<Rightarrow> CACHE_MODE_GENERIC))"

definition NORMALIZED_COSTS :: "js_string list" where
  "NORMALIZED_COSTS =
     [js ''cache_read_unit_cost'', js ''cache_create_unit_cost'', js ''cache_create_1h_unit_cost'',
      js ''image_unit_cost'', js ''image_output_unit_cost'', js ''audio_input_unit_cost'', js ''audio_output_unit_cost'']"

definition normalizeVisualTier :: "partial_tier \<Rightarrow> visual_tier" where
  "normalizeVisualTier tier =
     (let defaults = [(INPUT_COST, number_or_zero (map_of (pa_costs tier) INPUT_COST)),
                      (OUTPUT_COST, number_or_zero (map_of (pa_costs tier) OUTPUT_COST))];
          spread = fold (\<lambda>(k, v). set_own k v) (pa_costs tier) defaults in
      \<lparr>vt_billing_unit = pa_billing_unit tier, vt_fixed_price = pa_fixed_price tier,
       vt_label = (case pa_label tier of Some l \<Rightarrow> l | None \<Rightarrow> []),
       vt_conditions = (case pa_conditions tier of Some cs \<Rightarrow> cs | None \<Rightarrow> []),
       vt_cache_mode = getTierCacheMode (Some tier),
       vt_costs = fold (\<lambda>k. set_own k (number_or_zero (map_of (pa_costs tier) k))) NORMALIZED_COSTS spread\<rparr>)"

definition to_partial :: "visual_tier \<Rightarrow> partial_tier" where
  "to_partial tier =
     \<lparr>pa_billing_unit = vt_billing_unit tier, pa_fixed_price = vt_fixed_price tier, pa_label = Some (vt_label tier),
      pa_conditions = Some (vt_conditions tier), pa_cache_mode = Some (vt_cache_mode tier), pa_costs = vt_costs tier\<rparr>"

definition createDefaultVisualConfig :: visual_config where
  "createDefaultVisualConfig =
     \<lparr>vc_tiers = [normalizeVisualTier
        \<lparr>pa_billing_unit = None, pa_fixed_price = None, pa_label = Some (js ''base''), pa_conditions = Some [],
         pa_cache_mode = Some CACHE_MODE_GENERIC, pa_costs = [(INPUT_COST, Fin 0), (OUTPUT_COST, Fin 0)]\<rparr>]\<rparr>"

definition normalizeVisualConfig :: "visual_config option \<Rightarrow> visual_config" where
  "normalizeVisualConfig config =
     (case config of
        None \<Rightarrow> createDefaultVisualConfig
      | Some c \<Rightarrow>
          if vc_tiers c = [] then createDefaultVisualConfig
          else \<lparr>vc_tiers = map (\<lambda>t. normalizeVisualTier (to_partial t)) (vc_tiers c)\<rparr>)"

subsection \<open>Writing\<close>

definition input_text :: "js_string + js_num \<Rightarrow> js_string" where
  "input_text v = (case v of Inl s \<Rightarrow> s | Inr x \<Rightarrow> string_of_number x)"

definition buildConditionStr :: "tier_condition_input list \<Rightarrow> js_string" where
  "buildConditionStr conditions =
     join (js '' && '')
       (map (\<lambda>c. condition_variable_text (ci_var c) @ js '' '' @ condition_operator_text (ci_op c) @ js '' '' @ input_text (ci_value c))
          (filter (\<lambda>c. ci_value c \<noteq> Inl []) conditions))"

definition cost_term :: "token_variable \<Rightarrow> js_num \<Rightarrow> js_string" where
  "cost_term v x = variable_text v @ js '' * '' @ string_of_number x"

definition buildTierBodyExpr :: "visual_tier \<Rightarrow> js_string" where
  "buildTierBodyExpr tier =
     (if vt_billing_unit tier = Some UnitRequest
      then js ''fixed('' @ (case vt_fixed_price tier of Some s \<Rightarrow> s | None \<Rightarrow> []) @ js '')''
      else
        join (js '' + '')
          (cost_term TV_p (number_or_zero (map_of (vt_costs tier) INPUT_COST)) #
           cost_term TV_c (number_or_zero (map_of (vt_costs tier) OUTPUT_COST)) #
           map (\<lambda>(field, v). cost_term v (number_or_zero (map_of (vt_costs tier) field)))
             (filter (\<lambda>(field, v). \<not> is_zero (number_or_zero (map_of (vt_costs tier) field))) BILLING_CACHE_VAR_MAP)))"

definition tier_call_text :: "js_string \<Rightarrow> visual_tier \<Rightarrow> js_string" where
  "tier_call_text label tier = js ''tier(\"'' @ label @ js ''\", '' @ buildTierBodyExpr tier @ js '')''"

definition NO_PRICE :: js_string where "NO_PRICE = js ''p * 0 + c * 0''"

definition tier_label :: "nat \<Rightarrow> visual_tier \<Rightarrow> js_string" where
  "tier_label index tier = (if vt_label tier \<noteq> [] then vt_label tier else js ''tier_'' @ digits_of (index + 1))"

definition config_part :: "nat \<Rightarrow> nat \<Rightarrow> visual_tier \<Rightarrow> js_string" where
  "config_part count index tier =
     (let body = tier_call_text (tier_label index tier) tier; cond = buildConditionStr (vt_conditions tier) in
      if index < count - 1 \<and> cond \<noteq> [] then cond @ js '' ? '' @ body else body)"

definition generateExprFromVisualConfig :: "visual_config option \<Rightarrow> js_string" where
  "generateExprFromVisualConfig config =
     (case config of
        None \<Rightarrow> NO_PRICE
      | Some c \<Rightarrow>
          (case vc_tiers c of
             [] \<Rightarrow> NO_PRICE
           | [tier] \<Rightarrow>
               (let body = tier_call_text (if vt_label tier \<noteq> [] then vt_label tier else js ''default'') tier;
                    cond = buildConditionStr (vt_conditions tier) in
                if cond \<noteq> [] then cond @ js '' ? '' @ body @ js '' : '' @ NO_PRICE else body)
           | tiers \<Rightarrow>
               join (js '' : '') (map (\<lambda>(index, tier). config_part (length tiers) index tier) (enumerate 0 tiers))))"

subsection \<open>Reading\<close>

definition is_cost_unit :: "code_unit \<Rightarrow> bool" where
  "is_cost_unit c \<longleftrightarrow> is_digit c \<or> c = 46 \<or> c = 101 \<or> c = 69 \<or> c = 43 \<or> c = 45"

definition is_bound_unit :: "code_unit \<Rightarrow> bool" where
  "is_bound_unit c \<longleftrightarrow> is_digit c \<or> c = 46 \<or> c = 101 \<or> c = 69 \<or> c = 43"

definition cost_rx :: "nat \<Rightarrow> token_variable \<Rightarrow> regex list" where
  "cost_rx n v = [rx_text (variable_text v), rx_spaces, rx_text (js ''*''), rx_spaces, RxGroup n (rx_plus (RxSet is_cost_unit))]"

definition plus_rx :: "regex list" where
  "plus_rx = [rx_spaces, rx_text (js ''+''), rx_spaces]"

text \<open>\<^verbatim>\<open>bodyPat\<close>, with its groups numbered from \<open>n\<close>, and the call around it, with the label in the group before.\<close>

definition body_rx :: "nat \<Rightarrow> regex list" where
  "body_rx n =
     cost_rx n TV_p @ plus_rx @ cost_rx (n + 1) TV_c @
     map (\<lambda>(i, field, v). RxOpt (RxSeq (plus_rx @ cost_rx (n + 2 + i) v))) (enumerate 0 BILLING_CACHE_VAR_MAP)"

definition call_rx :: "nat \<Rightarrow> regex list" where
  "call_rx n =
     [rx_text (js ''tier(\"''), RxGroup n (RxStar (RxSet (\<lambda>c. c \<noteq> 34))), rx_text (js ''\",''), rx_spaces] @
     body_rx (n + 1) @ [rx_text (js '')'')]"

definition singleRe :: regex where
  "singleRe = RxSeq (call_rx 1 @ [RxEnd])"

definition variable_rx :: regex where
  "variable_rx = RxAlt [rx_text (js ''p''), rx_text (js ''c''), rx_text (js ''len'')]"

definition operator_rx :: regex where
  "operator_rx = RxAlt [rx_text (js ''<''), rx_text (js ''<=''), rx_text (js ''>''), rx_text (js ''>='')]"

definition bound_rx :: regex where
  "bound_rx = rx_plus (RxSet is_bound_unit)"

definition condGroup :: regex where
  "condGroup =
     RxGroup 1 (RxSeq [variable_rx, rx_spaces, operator_rx, rx_spaces, bound_rx,
       RxStar (RxSeq [rx_spaces, rx_text (js ''&&''), rx_spaces, variable_rx, rx_spaces, operator_rx, rx_spaces, bound_rx])])"

definition tierRe :: regex where
  "tierRe = RxSeq (RxOpt (RxSeq [condGroup, rx_spaces, rx_text (js ''?''), rx_spaces]) # call_rx 2)"

definition conditionRe :: regex where
  "conditionRe = RxSeq [RxGroup 1 variable_rx, rx_spaces, RxGroup 2 operator_rx, rx_spaces, RxGroup 3 bound_rx, RxEnd]"

definition andRe :: regex where
  "andRe = RxSeq [rx_spaces, rx_text (js ''&&''), rx_spaces]"

text \<open>\<^verbatim>\<open>/^v\d+:([\s\S]*)$/\<close>\<close>

definition without_version :: "js_string \<Rightarrow> js_string" where
  "without_version s =
     (let r = dropWhile is_digit (tl s) in
      if s \<noteq> [] \<and> hd s = 118 \<and> takeWhile is_digit (tl s) \<noteq> [] \<and> r \<noteq> [] \<and> hd r = 58 then tl r else s)"

definition condition_variable_named :: "js_string \<Rightarrow> condition_variable" where
  "condition_variable_named s = (if s = js ''p'' then CV_p else if s = js ''c'' then CV_c else CV_len)"

definition condition_operator_named :: "js_string \<Rightarrow> condition_operator" where
  "condition_operator_named s =
     (if s = js ''<'' then CO_lt else if s = js ''<='' then CO_le else if s = js ''>'' then CO_gt else CO_ge)"

definition captured :: "captures \<Rightarrow> nat \<Rightarrow> js_string" where
  "captured caps n = (case map_of caps n of Some s \<Rightarrow> s | None \<Rightarrow> [])"

definition read_input_condition :: "js_string \<Rightarrow> tier_condition_input list" where
  "read_input_condition cp =
     (case match_here conditionRe (trim cp) of
        None \<Rightarrow> []
      | Some (_, caps) \<Rightarrow>
          [\<lparr>ci_var = condition_variable_named (captured caps 1), ci_op = condition_operator_named (captured caps 2),
            ci_value = Inr (number_of_string (captured caps 3))\<rparr>])"

text \<open>The tier of a match whose label is in group \<open>n\<close>.\<close>

definition tier_of_match :: "nat \<Rightarrow> tier_condition_input list \<Rightarrow> captures \<Rightarrow> visual_tier" where
  "tier_of_match n conditions caps =
     normalizeVisualTier
       \<lparr>pa_billing_unit = None, pa_fixed_price = None, pa_label = Some (captured caps n), pa_conditions = Some conditions,
        pa_cache_mode = None,
        pa_costs = fold (\<lambda>(i, field, v) costs. case map_of caps (n + 3 + i) of
            Some val \<Rightarrow> set_own field (number_of_string val) costs | None \<Rightarrow> costs)
          (enumerate 0 BILLING_CACHE_VAR_MAP)
          [(INPUT_COST, number_of_string (captured caps (n + 1))), (OUTPUT_COST, number_of_string (captured caps (n + 2)))]\<rparr>"

definition read_tier_match :: "captures \<Rightarrow> visual_tier" where
  "read_tier_match caps =
     (let condStr = captured caps 1 in
      tier_of_match 2 (if condStr \<noteq> [] then concat (map read_input_condition (split_at_matches andRe [] condStr)) else []) caps)"

definition without_spaces :: "js_string \<Rightarrow> js_string" where
  "without_spaces s = filter (\<lambda>c. \<not> is_space c) s"

definition tryParseVisualConfig :: "js_string option \<Rightarrow> visual_config option" where
  "tryParseVisualConfig exprStr =
     (case exprStr of
        None \<Rightarrow> None
      | Some s \<Rightarrow>
          if s = [] then None
          else
            (let body = without_version s in
             case match_here singleRe body of
               Some (_, caps) \<Rightarrow> Some (normalizeVisualConfig (Some \<lparr>vc_tiers = [tier_of_match 1 [] caps]\<rparr>))
             | None \<Rightarrow>
                 (let tiers = map read_tier_match (all_matches tierRe body) in
                  if tiers = [] then None
                  else
                    (let cfg = normalizeVisualConfig (Some \<lparr>vc_tiers = tiers\<rparr>) in
                     if without_spaces (generateExprFromVisualConfig (Some cfg)) \<noteq> without_spaces body then None
                     else Some cfg))))"

subsection \<open>The estimator\<close>

record extra_token_values =
  cacheReadTokens :: js_num
  cacheCreateTokens :: js_num
  cacheCreate1hTokens :: js_num
  imageTokens :: js_num
  imageOutputTokens :: js_num
  audioInputTokens :: js_num
  audioOutputTokens :: js_num

definition ESTIMATOR_VARS :: "(token_variable \<times> (extra_token_values \<Rightarrow> js_num)) list" where
  "ESTIMATOR_VARS =
     [(TV_cr, cacheReadTokens), (TV_cc, cacheCreateTokens), (TV_cc1h, cacheCreate1hTokens), (TV_img, imageTokens),
      (TV_img_o, imageOutputTokens), (TV_ai, audioInputTokens), (TV_ao, audioOutputTokens)]"

record eval_result =
  er_cost :: js_num
  er_matchedTier :: js_string
  er_error :: "js_string option"
  er_billingUnit :: "billing_unit option"

definition buildEstimatorTokens :: "js_num \<Rightarrow> js_num \<Rightarrow> extra_token_values \<Rightarrow> (js_string, js_value) entries" where
  "buildEstimatorTokens promptTokens completionTokens extras =
     [(js ''p'', VNum promptTokens), (js ''c'', VNum completionTokens),
      (js ''len'', VNum (num_add (num_add (num_add promptTokens (cacheReadTokens extras)) (cacheCreateTokens extras))
         (cacheCreate1hTokens extras)))] @
     map (\<lambda>(v, get). (variable_text v, VNum (get extras))) ESTIMATOR_VARS"

definition estimator_context ::
  "js_num \<Rightarrow> js_num \<Rightarrow> extra_token_values \<Rightarrow> simulation_context option \<Rightarrow> simulation_context" where
  "estimator_context promptTokens completionTokens extras context =
     (let tokens = buildEstimatorTokens promptTokens completionTokens extras;
          given = (case Option.bind context ctx_tokens of Some ts \<Rightarrow> ts | None \<Rightarrow> []);
          all = Some (fold (\<lambda>(k, v). set_own k v) given tokens) in
      case context of
        Some c \<Rightarrow> c\<lparr>ctx_tokens := all\<rparr>
      | None \<Rightarrow> \<lparr>ctx_tokens = all, ctx_request = None, ctx_usage = None, ctx_now = None\<rparr>)"

definition evalExprLocally ::
  "js_host \<Rightarrow> js_string \<Rightarrow> js_num \<Rightarrow> js_num \<Rightarrow> extra_token_values \<Rightarrow> simulation_context option \<Rightarrow> compile_cache \<Rightarrow>
   eval_result \<times> compile_cache" where
  "evalExprLocally host exprStr promptTokens completionTokens extras context cache =
     (if trim exprStr = [] then (\<lparr>er_cost = Fin 0, er_matchedTier = [], er_error = None, er_billingUnit = None\<rparr>, cache)
      else
        (case evaluateBillingExpression host (Inl exprStr)
                (estimator_context promptTokens completionTokens extras context) cache of
           (Inl failure, cache') \<Rightarrow>
             (\<lparr>er_cost = Fin 0, er_matchedTier = [], er_error = Some (diag_detail (failure_diagnostic failure)),
               er_billingUnit = None\<rparr>, cache')
         | (Inr result, cache') \<Rightarrow>
             (\<lparr>er_cost = cost result, er_matchedTier = matchedTier result, er_error = None,
               er_billingUnit = (if billingUnit result = UnitRequest then Some UnitRequest else None)\<rparr>, cache')))"

definition exprUsesExtraVars :: "js_string \<Rightarrow> compile_cache \<Rightarrow> bool \<times> compile_cache" where
  "exprUsesExtraVars exprStr cache =
     (if exprStr = [] then (False, cache)
      else
        (case compileBillingExpression exprStr cache of
           (Inl failure, cache') \<Rightarrow> (False, cache')
         | (Inr compiled, cache') \<Rightarrow> (list_ex (\<lambda>(v, get). v \<in> comp_variables compiled) ESTIMATOR_VARS, cache')))"

end
