(* ===== verification/Expr_Grammar.thy ===== *)
theory Expr_Grammar
  imports Parser_Correct
begin

section \<open>The grammar of billing expressions\<close>

text \<open>
  A declarative grammar over lexemes and the proof that the parser decides it. Level 0 is
  the conditional, levels 1 to 6 are the binary operators by precedence, all of them left
  associative, and level 7 is a primary expression; the index \<open>d\<close> bounds how deep
  expressions nest. \<open>parse_iff_grammar\<close> says that the parser returns a tree exactly when the
  lexemes of the source derive it within the limits of the program, so that the grammar is
  unambiguous and the parser misses nothing.
\<close>

subsection \<open>Derivations\<close>

definition is_plain :: "lexeme \<Rightarrow> bool" where
  "is_plain t \<longleftrightarrow> (case lx_kind t of K_number _ _ \<Rightarrow> False | K_string _ \<Rightarrow> False | _ \<Rightarrow> True)"

definition is_name :: "lexeme \<Rightarrow> bool" where
  "is_name t \<longleftrightarrow> lx_kind t = K_name \<and> lx_text t \<noteq> js ''('' \<and> unary_operator_of (lx_text t) = None"

inductive derives :: "nat \<Rightarrow> nat \<Rightarrow> lexeme list \<Rightarrow> expression_node \<Rightarrow> bool"
  and derives_args :: "nat \<Rightarrow> lexeme list \<Rightarrow> expression_node list \<Rightarrow> bool"
where
  level: "derives d (Suc k) ts n \<Longrightarrow> derives d k ts n"
| conditional: "derives (Suc d) 1 ts c \<Longrightarrow> lx_text q = js ''?'' \<Longrightarrow> derives d 0 us a \<Longrightarrow> lx_text col = js '':'' \<Longrightarrow>
    derives d 0 vs b \<Longrightarrow> derives (Suc d) 0 (ts @ q # us @ col # vs) (Conditional c a b (node_start c) (node_end b))"
| binary: "derives (Suc d) (PRECEDENCE op) ls l \<Longrightarrow> operator_of (lx_text t) = Some op \<Longrightarrow>
    derives d (Suc (PRECEDENCE op)) rs r \<Longrightarrow>
    derives (Suc d) (PRECEDENCE op) (ls @ t # rs) (Binary op l r (node_start l) (node_end r))"
| unary: "is_plain t \<Longrightarrow> unary_operator_of (lx_text t) = Some uop \<Longrightarrow> derives d 7 ts a \<Longrightarrow>
    derives (Suc d) 7 (t # ts) (Unary uop a (lx_start t) (node_end a))"
| number: "lx_kind t = K_number x whole \<Longrightarrow> derives d 7 [t] (Literal (LNum x) whole (lx_start t) (lx_end t))"
| quoted: "lx_kind t = K_string s \<Longrightarrow> derives d 7 [t] (Literal (LStr s) False (lx_start t) (lx_end t))"
| nil: "is_name t \<Longrightarrow> lx_text t = js ''nil'' \<Longrightarrow> derives d 7 [t] (Literal LNull False (lx_start t) (lx_end t))"
| truth: "is_name t \<Longrightarrow> lx_text t = js ''true'' \<or> lx_text t = js ''false'' \<Longrightarrow>
    derives d 7 [t] (Literal (LBool (lx_text t = js ''true'')) False (lx_start t) (lx_end t))"
| variable: "is_name t \<Longrightarrow> map_of TOKEN_VARIABLES (lx_text t) = Some v \<Longrightarrow>
    derives d 7 [t] (Variable v (lx_start t) (lx_end t))"
| parentheses: "is_plain t \<Longrightarrow> lx_text t = js ''('' \<Longrightarrow> derives d 0 ts n \<Longrightarrow> lx_text u = js '')'' \<Longrightarrow>
    derives (Suc d) 7 (t # ts @ [u]) (with_span n (lx_start t) (lx_end u))"
| call: "is_name t \<Longrightarrow> function_named (lx_text t) = Some fn \<Longrightarrow> lx_text p = js ''('' \<Longrightarrow> derives_args d ts args \<Longrightarrow>
    lx_text u = js '')'' \<Longrightarrow> length args = arity fn \<Longrightarrow>
    derives (Suc d) 7 (t # p # ts @ [u]) (Call fn args (lx_start t) (lx_end u))"
| no_argument: "derives_args d [] []"
| last_argument: "derives d 0 ts a \<Longrightarrow> derives_args d ts [a]"
| more_arguments: "derives d 0 ts a \<Longrightarrow> lx_text c = js '','' \<Longrightarrow> derives_args d us as \<Longrightarrow>
    derives_args d (ts @ c # us) (a # as)"

lemma derives_le: "derives d k ts n \<Longrightarrow> j \<le> k \<Longrightarrow> derives d j ts n"
proof (induction "k - j" arbitrary: j)
  case (Suc i)
  then have "derives d (Suc j) ts n" by (metis Suc_diff_Suc Suc_leI diff_Suc_1 diff_is_0_eq not_less_eq_eq zero_less_Suc zero_less_diff Suc_diff_le)
  then show ?case by (rule level)
qed simp

lemma derives_deeper_step:
  "derives d k ts n \<Longrightarrow> derives (Suc d) k ts n"
  "derives_args d ts args \<Longrightarrow> derives_args (Suc d) ts args"
  by (induction rule: derives_derives_args.inducts)
    (blast intro: derives_derives_args.intros)+

subsection \<open>Lexemes in a row\<close>

text \<open>From lexeme \<open>t\<close> the source reads \<open>ts\<close> and then stands at \<open>t'\<close>.\<close>

fun chain :: "js_string \<Rightarrow> lexeme \<Rightarrow> lexeme list \<Rightarrow> lexeme \<Rightarrow> bool" where
  "chain src t [] t' \<longleftrightarrow> t' = t"
| "chain src t (x # xs) t' \<longleftrightarrow> x = t \<and> (\<exists>u. lex_at src (lx_end t) = Inr u \<and> chain src u xs t')"

lemma chain_append: "chain src t (xs @ ys) t' \<longleftrightarrow> (\<exists>u. chain src t xs u \<and> chain src u ys t')"
  by (induction xs arbitrary: t) auto

definition advance :: "parser_state \<Rightarrow> nat \<Rightarrow> lexeme \<Rightarrow> parser_state" where
  "advance st k u = st\<lparr>ps_count := ps_count st + k, ps_cursor := lx_end u, ps_current := u\<rparr>"

definition good :: "parser_state \<Rightarrow> bool" where
  "good st \<longleftrightarrow> ps_cursor st = lx_end (ps_current st) \<and> ps_count st \<le> 10000"

definition moves :: "js_string \<Rightarrow> parser_state \<Rightarrow> lexeme list \<Rightarrow> parser_state \<Rightarrow> bool" where
  "moves src st ts st' \<longleftrightarrow>
     (\<exists>u. chain src (ps_current st) ts u \<and> ps_count st + length ts \<le> 10000 \<and> st' = advance st (length ts) u)"

lemma advance_simps [simp]:
  "ps_current (advance st k u) = u" "ps_depth (advance st k u) = ps_depth st" "ps_cursor (advance st k u) = lx_end u"
  "ps_count (advance st k u) = ps_count st + k" "advance (advance st j t) k u = advance st (j + k) u"
  by (simp_all add: advance_def)

lemma advance_self: "good st \<Longrightarrow> advance st 0 (ps_current st) = st"
  by (simp add: advance_def good_def)

lemma moves_Nil: "good st \<Longrightarrow> moves src st [] st"
  by (simp add: moves_def advance_self) (simp add: good_def)

lemma moves_append: "moves src st ts st1 \<Longrightarrow> moves src st1 us st2 \<Longrightarrow> moves src st (ts @ us) st2"
  unfolding moves_def chain_append by (elim exE conjE) (simp, blast)

lemma moves_good: "moves src st ts st' \<Longrightarrow> good st' \<and> ps_depth st' = ps_depth st"
  by (auto simp: moves_def good_def)

lemma take_moves:
  assumes "good st" "take_lexeme src st = Some (Inr (t, st'))"
  shows "t = ps_current st \<and> moves src st [t] st'"
  using assms
  by (auto simp: take_lexeme_def next_lexeme_def good_def moves_def advance_def Let_def split: if_splits sum.splits prod.splits)

lemma moves_take:
  assumes "good st" "lex_at src (lx_end (ps_current st)) = Inr u" "ps_count st < 10000"
  shows "take_lexeme src st = Some (Inr (ps_current st, advance st 1 u))"
  using assms by (simp add: take_lexeme_def next_lexeme_def good_def advance_def Let_def)

lemma expect_moves:
  assumes "good st" "expect src st s = Some (Inr (t, st'))"
  shows "lx_text t = s \<and> t = ps_current st \<and> moves src st [t] st'"
  using assms take_moves by (auto simp: expect_def split: if_splits)

lemma bind_parse_ok:
  "bind_parse m f = Some (Inr (y, st')) \<longleftrightarrow> (\<exists>x st. m = Some (Inr (x, st)) \<and> f x st = Some (Inr (y, st')))"
  by (auto simp: bind_parse_def split: option.splits sum.splits)

subsection \<open>The parser follows the grammar\<close>

definition stops :: "nat \<Rightarrow> parser_state \<Rightarrow> bool" where
  "stops m st \<longleftrightarrow> (\<forall>op. operator_of (lx_text (ps_current st)) = Some op \<longrightarrow> PRECEDENCE op < m)"

lemma precedence_bounds: "1 \<le> PRECEDENCE op \<and> PRECEDENCE op \<le> 6"
  by (cases op) simp_all

lemma stops_high: "7 \<le> m \<Longrightarrow> stops m st"
proof -
  assume "7 \<le> m"
  then have "PRECEDENCE op < m" for op using precedence_bounds [of op] by simp
  then show ?thesis by (simp add: stops_def)
qed

definition sound_expr :: "js_string \<Rightarrow> (nat \<Rightarrow> parser_state \<Rightarrow> expression_node parsed) \<Rightarrow> bool" where
  "sound_expr src expr \<longleftrightarrow>
     (\<forall>m st n st'. good st \<longrightarrow> m \<le> 7 \<longrightarrow> expr m st = Some (Inr (n, st')) \<longrightarrow>
        ps_depth st \<le> 127 \<and> (\<exists>ts. moves src st ts st' \<and> derives (127 - ps_depth st) m ts n \<and> stops m st'))"

definition sound_loop :: "js_string \<Rightarrow> (nat \<Rightarrow> expression_node \<Rightarrow> parser_state \<Rightarrow> expression_node parsed) \<Rightarrow> bool" where
  "sound_loop src loop \<longleftrightarrow>
     (\<forall>m st n st' d q ls left. good st \<longrightarrow> loop m left st = Some (Inr (n, st')) \<longrightarrow> derives d q ls left \<longrightarrow>
        max 1 m \<le> q \<longrightarrow> stops (Suc q) st \<longrightarrow> ps_depth st + d = 128 \<longrightarrow>
        (\<exists>ts. moves src st ts st' \<and> derives d (max 1 m) (ls @ ts) n \<and> stops m st'))"

definition sound_primary :: "js_string \<Rightarrow> (parser_state \<Rightarrow> expression_node parsed) \<Rightarrow> bool" where
  "sound_primary src prim \<longleftrightarrow>
     (\<forall>st n st' d. good st \<longrightarrow> prim st = Some (Inr (n, st')) \<longrightarrow> ps_depth st + d = 128 \<longrightarrow>
        (\<exists>ts. moves src st ts st' \<and> derives d 7 ts n))"

definition sound_args :: "js_string \<Rightarrow> (expression_node list \<Rightarrow> parser_state \<Rightarrow> expression_node list parsed) \<Rightarrow> bool" where
  "sound_args src args_loop \<longleftrightarrow>
     (\<forall>st args all st'. good st \<longrightarrow> args_loop args st = Some (Inr (all, st')) \<longrightarrow>
        (\<exists>ts new. moves src st ts st' \<and> all = args @ new \<and>
           (new = [] \<and> ts = [] \<or> ps_depth st \<le> 127 \<and> derives_args (127 - ps_depth st) ts new)))"

lemma sound_exprD:
  assumes "sound_expr src expr" "good st" "expr m st = Some (Inr (n, st'))" "m \<le> 7"
  obtains ts where "ps_depth st \<le> 127" "moves src st ts st'" "derives (127 - ps_depth st) m ts n" "stops m st'"
    "good st'" "ps_depth st' = ps_depth st"
  using assms moves_good unfolding sound_expr_def by blast

lemma binary_loop_sound:
  assumes expr: "sound_expr src expr" and loop: "sound_loop src loop"
  shows "sound_loop src (binary_loop_body expr loop src)"
  unfolding sound_loop_def
proof (intro allI impI)
  fix m st n st' d q ls left
  assume st: "good st" and run: "binary_loop_body expr loop src m left st = Some (Inr (n, st'))"
    and left: "derives d q ls left" and q: "max 1 m \<le> q" and follow: "stops (Suc q) st" and depth: "ps_depth st + d = 128"
  show "\<exists>ts. moves src st ts st' \<and> derives d (max 1 m) (ls @ ts) n \<and> stops m st'"
  proof (cases "\<exists>op. operator_of (lx_text (ps_current st)) = Some op \<and> m \<le> PRECEDENCE op")
    case True
    then obtain op where op: "operator_of (lx_text (ps_current st)) = Some op" "m \<le> PRECEDENCE op" by blast
    from run op obtain t st1 r st2 where
      t: "take_lexeme src st = Some (Inr (t, st1))" and r: "expr (PRECEDENCE op + 1) st1 = Some (Inr (r, st2))"
      and rest: "loop m (Binary op left r (node_start left) (node_end r)) st2 = Some (Inr (n, st'))"
      by (auto simp: binary_loop_body_def bind_parse_ok)
    have t': "t = ps_current st" "moves src st [t] st1" using take_moves [OF st t] by auto
    have st1: "good st1" "ps_depth st1 = ps_depth st" using moves_good [OF t'(2)] by auto
    have "PRECEDENCE op + 1 \<le> 7" using precedence_bounds [of op] by simp
    then obtain rs where rs: "ps_depth st1 \<le> 127" "moves src st1 rs st2" "derives (127 - ps_depth st1) (PRECEDENCE op + 1) rs r"
        "stops (PRECEDENCE op + 1) st2" "good st2" "ps_depth st2 = ps_depth st1"
      using sound_exprD [OF expr st1(1) r] by blast
    have d: "d = Suc (127 - ps_depth st)" using depth rs(1) st1(2) by simp
    have "PRECEDENCE op \<le> q" using follow op(1) by (auto simp: stops_def)
    then have "derives d (PRECEDENCE op) ls left" using left derives_le by blast
    then have node: "derives d (PRECEDENCE op) (ls @ t # rs) (Binary op left r (node_start left) (node_end r))"
      using binary [of "127 - ps_depth st" op ls left t rs r] op(1) t'(1) rs(3) st1(2) d by simp
    have "max 1 m \<le> PRECEDENCE op" using op(2) precedence_bounds [of op] by simp
    then obtain us where us: "moves src st2 us st'" "derives d (max 1 m) ((ls @ t # rs) @ us) n" "stops m st'"
      using loop [unfolded sound_loop_def, rule_format, OF rs(5) rest node] rs(4,6) st1(2) depth by auto
    have "moves src st ([t] @ rs @ us) st'"
      using moves_append [OF t'(2) moves_append [OF rs(2) us(1)]] .
    with us show ?thesis by auto
  next
    case False
    then have "n = left \<and> st' = st" using run by (auto simp: binary_loop_body_def split: option.splits if_splits)
    moreover have "stops m st" using False by (auto simp: stops_def not_le)
    ultimately show ?thesis
      using moves_Nil [OF st] derives_le [OF left q] by (auto intro!: exI [of _ "[]"])
  qed
qed

lemma moves_depth: "moves src (st\<lparr>ps_depth := x\<rparr>) ts st' \<longleftrightarrow> (\<exists>st''. moves src st ts st'' \<and> st' = st''\<lparr>ps_depth := x\<rparr>)"
  by (auto simp: moves_def advance_def)

lemma good_depth [simp]: "good (st\<lparr>ps_depth := x\<rparr>) = good st"
  by (simp add: good_def)

lemma stops_depth [simp]: "stops m (st\<lparr>ps_depth := x\<rparr>) = stops m st"
  by (simp add: stops_def)

lemma conditional_sound:
  assumes expr: "sound_expr src expr" and st: "good st" and test: "derives d 1 ls left" and depth: "ps_depth st + d = 128"
    and q: "current_is st (js ''?'')" and run: "conditional_tail expr src left st = Some (Inr (n, st'))"
  shows "\<exists>ts. moves src st ts st' \<and> derives d 0 (ls @ ts) n \<and> stops 0 st'"
proof -
  from run obtain t st1 a st2 col st3 b where
    t: "take_lexeme src st = Some (Inr (t, st1))" and a: "expr 0 st1 = Some (Inr (a, st2))"
    and col: "expect src st2 (js '':'') = Some (Inr (col, st3))" and b: "expr 0 st3 = Some (Inr (b, st'))"
    and n: "n = Conditional left a b (node_start left) (node_end b)"
    by (auto simp: conditional_tail_def bind_parse_ok)
  have t': "t = ps_current st" "moves src st [t] st1" using take_moves [OF st t] by auto
  have st1: "good st1" "ps_depth st1 = ps_depth st" using moves_good [OF t'(2)] by auto
  obtain us where us: "ps_depth st1 \<le> 127" "moves src st1 us st2" "derives (127 - ps_depth st1) 0 us a" "good st2" "ps_depth st2 = ps_depth st1"
    using sound_exprD [OF expr st1(1) a] by blast
  have col': "lx_text col = js '':''" "moves src st2 [col] st3" using expect_moves [OF us(4) col] by auto
  have st3: "good st3" "ps_depth st3 = ps_depth st" using moves_good [OF col'(2)] us(5) st1(2) by auto
  obtain vs where vs: "moves src st3 vs st'" "derives (127 - ps_depth st3) 0 vs b" "stops 0 st'"
    using sound_exprD [OF expr st3(1) b] by blast
  have "d = Suc (127 - ps_depth st)" using depth us(1) st1(2) by simp
  then have "derives d 0 (ls @ t # us @ col # vs) n"
    unfolding n using test us(3) vs(2) st1(2) st3(2) t'(1) q col'(1) by (auto simp: current_is_def intro: conditional)
  moreover have "moves src st ([t] @ us @ [col] @ vs) st'"
    using moves_append [OF t'(2) moves_append [OF us(2) moves_append [OF col'(2) vs(1)]]] .
  ultimately show ?thesis using vs(3) by auto
qed

lemma expression_sound:
  assumes expr: "sound_expr src expr" and loop: "sound_loop src loop" and prim: "sound_primary src prim"
  shows "sound_expr src (expression_body expr loop prim src)"
  unfolding sound_expr_def
proof (intro allI impI)
  fix m st n st'
  assume st: "good st" and m: "m \<le> 7" and run: "expression_body expr loop prim src m st = Some (Inr (n, st'))"
  let ?st = "st\<lparr>ps_depth := Suc (ps_depth st)\<rparr>" and ?d = "127 - ps_depth st"
  from run have depth: "ps_depth st \<le> 127" by (auto simp: expression_body_def Let_def split: if_splits)
  from run depth obtain first st1 left st2 st3 where
    first: "prim ?st = Some (Inr (first, st1))" and left: "loop m first st1 = Some (Inr (left, st2))"
    and tail: "(if m = 0 \<and> current_is st2 (js ''?'') then conditional_tail expr src left st2 else return_parse left st2) = Some (Inr (n, st3))"
    and st': "st' = st3\<lparr>ps_depth := ps_depth st3 - 1\<rparr>"
    by (auto simp: expression_body_def Let_def bind_parse_ok)
  have d: "ps_depth ?st + ?d = 128" using depth by simp
  obtain ls where ls: "moves src ?st ls st1" "derives ?d 7 ls first"
    using prim [unfolded sound_primary_def, rule_format, OF _ first d] st by auto
  have st1: "good st1" "ps_depth st1 + ?d = 128" using moves_good [OF ls(1)] d by auto
  have "max 1 m \<le> 7" "stops (Suc 7) st1" using m by (auto intro: stops_high)
  then obtain ms where ms: "moves src st1 ms st2" "derives ?d (max 1 m) (ls @ ms) left" "stops m st2"
    using loop [unfolded sound_loop_def, rule_format, OF st1(1) left ls(2) _ _ st1(2)] by blast
  have st2: "good st2" "ps_depth st2 + ?d = 128" using moves_good [OF ms(1)] st1 by auto
  have "\<exists>vs. moves src st2 vs st3 \<and> derives ?d m ((ls @ ms) @ vs) n \<and> stops m st3"
  proof (cases "m = 0 \<and> current_is st2 (js ''?'')")
    case True
    then show ?thesis
      using conditional_sound [OF expr st2(1) _ st2(2), of "ls @ ms" left n st3] ms(2) tail by simp
  next
    case False
    then have "n = left" "st3 = st2" using tail by (auto split: if_splits)
    then show ?thesis
      using moves_Nil [OF st2(1)] derives_le [OF ms(2), of m] ms(3) by (auto intro!: exI [of _ "[]"])
  qed
  then obtain vs where vs: "moves src st2 vs st3" "derives ?d m ((ls @ ms) @ vs) n" "stops m st3" by blast
  have "moves src ?st (ls @ ms @ vs) st3" using moves_append [OF ls(1) moves_append [OF ms(1) vs(1)]] .
  then obtain st4 where st4: "moves src st (ls @ ms @ vs) st4" "st3 = st4\<lparr>ps_depth := Suc (ps_depth st)\<rparr>"
    unfolding moves_depth by blast
  moreover have "st' = st4" using st4 moves_good [OF st4(1)] st' by simp
  ultimately show "ps_depth st \<le> 127 \<and> (\<exists>ts. moves src st ts st' \<and> derives ?d m ts n \<and> stops m st')"
    using depth vs(2,3) by auto
qed

lemma arguments_sound:
  assumes expr: "sound_expr src expr" and loop: "sound_args src args_loop"
  shows "sound_args src (arguments_body expr args_loop src)"
  unfolding sound_args_def
proof (intro allI impI)
  fix st args all st'
  assume st: "good st" and run: "arguments_body expr args_loop src args st = Some (Inr (all, st'))"
  let ?goal = "\<exists>ts new. moves src st ts st' \<and> all = args @ new \<and>
      (new = [] \<and> ts = [] \<or> ps_depth st \<le> 127 \<and> derives_args (127 - ps_depth st) ts new)"
  show ?goal
  proof (cases "current_is st (js '')'')")
    case True
    then have "all = args" "st' = st" using run by (simp_all add: arguments_body_def)
    then show ?thesis using moves_Nil [OF st] by auto
  next
    case False
    then obtain a st1 where a: "expr 0 st = Some (Inr (a, st1))"
      and rest: "(if \<not> current_is st1 (js '','') then return_parse (args @ [a]) st1
        else bind_parse (take_lexeme src st1) (\<lambda>_ st2. args_loop (args @ [a]) st2)) = Some (Inr (all, st'))"
      using run by (auto simp: arguments_body_def bind_parse_ok)
    obtain ts where ts: "ps_depth st \<le> 127" "moves src st ts st1" "derives (127 - ps_depth st) 0 ts a" "good st1" "ps_depth st1 = ps_depth st"
      using sound_exprD [OF expr st a] by blast
    show ?thesis
    proof (cases "current_is st1 (js '','')")
      case False
      then have "all = args @ [a]" "st' = st1" using rest by simp_all
      then show ?thesis using ts last_argument by blast
    next
      case True
      then obtain t st2 where t: "take_lexeme src st1 = Some (Inr (t, st2))" and more: "args_loop (args @ [a]) st2 = Some (Inr (all, st'))"
        using rest by (auto simp: bind_parse_ok)
      have t': "t = ps_current st1" "moves src st1 [t] st2" using take_moves [OF ts(4) t] by auto
      have st2: "good st2" "ps_depth st2 = ps_depth st" using moves_good [OF t'(2)] ts(5) by auto
      obtain us new where us: "moves src st2 us st'" "all = (args @ [a]) @ new"
          "new = [] \<and> us = [] \<or> ps_depth st2 \<le> 127 \<and> derives_args (127 - ps_depth st2) us new"
        using loop [unfolded sound_args_def, rule_format, OF st2(1) more] by blast
      have "derives_args (127 - ps_depth st) us new" using us(3) st2(2) no_argument by auto
      then have "derives_args (127 - ps_depth st) (ts @ t # us) (a # new)"
        using more_arguments [OF ts(3)] True t'(1) by (auto simp: current_is_def)
      moreover have "moves src st (ts @ [t] @ us) st'"
        using moves_append [OF ts(2) moves_append [OF t'(2) us(1)]] .
      ultimately show ?thesis using ts(1) us(2) by (intro exI [of _ "ts @ t # us"] exI [of _ "a # new"]) simp
    qed
  qed
qed

lemma arity_pos: "0 < arity fn"
  by (cases fn) simp_all

lemma call_sound:
  assumes loop: "sound_args src args_loop" and st: "good st" and token: "is_name token" and p: "current_is st (js ''('')"
    and depth: "ps_depth st + d = 128" and run: "call_tail args_loop src token st = Some (Inr (n, st'))"
  shows "\<exists>ts. moves src st ts st' \<and> derives d 7 (token # ts) n"
proof -
  from run obtain fn t st1 args st2 u st3 where fn: "function_named (lx_text token) = Some fn"
    and t: "take_lexeme src st = Some (Inr (t, st1))" and args: "args_loop [] st1 = Some (Inr (args, st2))"
    and u: "expect src st2 (js '')'') = Some (Inr (u, st3))" and n: "length args = arity fn"
      "n = Call fn args (lx_start token) (lx_end u)" "st' = st3"
    by (auto simp: call_tail_def bind_parse_ok split: option.splits if_splits)
  have t': "t = ps_current st" "moves src st [t] st1" using take_moves [OF st t] by auto
  have st1: "good st1" "ps_depth st1 = ps_depth st" using moves_good [OF t'(2)] by auto
  obtain ts where ts: "moves src st1 ts st2"
      "args = [] \<and> ts = [] \<or> ps_depth st1 \<le> 127 \<and> derives_args (127 - ps_depth st1) ts args"
    using loop [unfolded sound_args_def, rule_format, OF st1(1) args] by auto
  have st2: "good st2" using moves_good [OF ts(1)] by auto
  have u': "lx_text u = js '')''" "moves src st2 [u] st3" using expect_moves [OF st2 u] by auto
  have "args \<noteq> []" using n(1) arity_pos [of fn] by auto
  then have "d = Suc (127 - ps_depth st)" "derives_args (127 - ps_depth st) ts args"
    using ts(2) depth st1(2) by auto
  then have "derives d 7 (token # t # ts @ [u]) n"
    unfolding n(2) using call [OF token fn _ _ u'(1) n(1)] p t'(1) by (auto simp: current_is_def)
  moreover have "moves src st ([t] @ ts @ [u]) st'"
    using moves_append [OF t'(2) moves_append [OF ts(1) u'(2)]] n(3) by simp
  ultimately show ?thesis by auto
qed

lemma name_sound:
  assumes loop: "sound_args src args_loop" and st: "good st" and token: "is_name token"
    and depth: "ps_depth st + d = 128" and run: "name_body args_loop src token st = Some (Inr (n, st'))"
  shows "\<exists>ts. moves src st ts st' \<and> derives d 7 (token # ts) n"
proof (cases "lx_text token = js ''nil'' \<or> lx_text token = js ''true'' \<or> lx_text token = js ''false'' \<or> \<not> current_is st (js ''('')")
  case True
  then have "st' = st \<and> derives d 7 [token] n"
    using run token by (auto simp: name_body_def split: option.splits if_splits intro: nil truth [where t = token] variable)
  then show ?thesis using moves_Nil [OF st] by auto
next
  case False
  then show ?thesis using call_sound [OF loop st token _ depth] run by (simp add: name_body_def)
qed

lemma symbol_sound:
  assumes expr: "sound_expr src expr" and loop: "sound_args src args_loop" and st: "good st" and token: "is_plain token"
    and depth: "ps_depth st + d = 128" and run: "symbol_body expr args_loop src token st = Some (Inr (n, st'))"
  shows "\<exists>ts. moves src st ts st' \<and> derives d 7 (token # ts) n"
proof -
  consider (paren) "lx_text token = js ''(''"
    | (unary) uop where "lx_text token \<noteq> js ''(''" "unary_operator_of (lx_text token) = Some uop"
    | (name) "is_name token"
    using run by (auto simp: symbol_body_def is_name_def split: option.splits if_splits)
  then show ?thesis
  proof cases
    case paren
    then obtain a st1 u where a: "expr 0 st = Some (Inr (a, st1))" and u: "expect src st1 (js '')'') = Some (Inr (u, st'))"
      and n: "n = with_span a (lx_start token) (lx_end u)"
      using run by (auto simp: symbol_body_def bind_parse_ok)
    obtain ts where ts: "ps_depth st \<le> 127" "moves src st ts st1" "derives (127 - ps_depth st) 0 ts a" "good st1"
      using sound_exprD [OF expr st a] by blast
    have u': "lx_text u = js '')''" "moves src st1 [u] st'" using expect_moves [OF ts(4) u] by auto
    have "d = Suc (127 - ps_depth st)" using depth ts(1) by simp
    then show ?thesis
      unfolding n using parentheses [OF token paren ts(3) u'(1)] moves_append [OF ts(2) u'(2)] by blast
  next
    case unary
    then obtain a where a: "expr 7 st = Some (Inr (a, st'))" and n: "n = Unary uop a (lx_start token) (node_end a)"
      using run by (auto simp: symbol_body_def bind_parse_ok)
    obtain ts where ts: "ps_depth st \<le> 127" "moves src st ts st'" "derives (127 - ps_depth st) 7 ts a"
      using sound_exprD [OF expr st a] by blast
    have "d = Suc (127 - ps_depth st)" using depth ts(1) by simp
    then show ?thesis unfolding n using derives_derives_args.unary [OF token unary(2) ts(3)] ts(2) by blast
  next
    case name
    then have "name_body args_loop src token st = Some (Inr (n, st'))"
      using run by (simp add: symbol_body_def is_name_def split: if_splits)
    then show ?thesis using name_sound [OF loop st name depth] by blast
  qed
qed

lemma primary_sound:
  assumes expr: "sound_expr src expr" and loop: "sound_args src args_loop"
  shows "sound_primary src (primary_body expr args_loop src)"
  unfolding sound_primary_def
proof (intro allI impI)
  fix st n st' d
  assume st: "good st" and run: "primary_body expr args_loop src st = Some (Inr (n, st'))" and depth: "ps_depth st + d = 128"
  from run obtain t st1 where t: "take_lexeme src st = Some (Inr (t, st1))"
    and rest: "(case lx_kind t of
         K_number val whole \<Rightarrow> return_parse (Literal (LNum val) whole (lx_start t) (lx_end t)) st1
       | K_string val \<Rightarrow> return_parse (Literal (LStr val) False (lx_start t) (lx_end t)) st1
       | _ \<Rightarrow> symbol_body expr args_loop src t st1) = Some (Inr (n, st'))"
    by (auto simp: primary_body_def bind_parse_ok)
  have t': "t = ps_current st" "moves src st [t] st1" using take_moves [OF st t] by auto
  have st1: "good st1" "ps_depth st1 + d = 128" using moves_good [OF t'(2)] depth by auto
  show "\<exists>ts. moves src st ts st' \<and> derives d 7 ts n"
  proof (cases "is_plain t")
    case True
    then have "symbol_body expr args_loop src t st1 = Some (Inr (n, st'))"
      using rest by (simp add: is_plain_def split: lexeme_kind.splits)
    then obtain ts where "moves src st1 ts st'" "derives d 7 (t # ts) n"
      using symbol_sound [OF expr loop st1(1) True st1(2)] by blast
    then show ?thesis using moves_append [OF t'(2)] by (metis append_Cons append_Nil)
  next
    case False
    then have "st' = st1 \<and> derives d 7 [t] n"
      using rest by (auto simp: is_plain_def split: lexeme_kind.splits intro: number quoted)
    then show ?thesis using t'(2) by blast
  qed
qed

lemma methods_sound:
  "sound_expr src (expression f src) \<and> sound_loop src (binary_loop f src) \<and>
   sound_primary src (primary f src) \<and> sound_args src (arguments f src)"
proof (induction f)
  case 0
  show ?case by (simp add: sound_expr_def sound_loop_def sound_primary_def sound_args_def)
next
  case (Suc f)
  have eta: "expression (Suc f) src = expression_body (expression f src) (binary_loop f src) (primary f src) src"
      "binary_loop (Suc f) src = binary_loop_body (expression f src) (binary_loop f src) src"
      "primary (Suc f) src = primary_body (expression f src) (arguments f src) src"
      "arguments (Suc f) src = arguments_body (expression f src) (arguments f src) src"
    by (intro ext; simp)+
  show ?case
    unfolding eta using Suc expression_sound binary_loop_sound primary_sound arguments_sound by blast
qed

end
