(* ===== verification/Grammar_Complete.thy ===== *)
theory Grammar_Complete
  imports Expr_Grammar
begin

section \<open>The parser accepts the grammar\<close>

text \<open>
  The converse of the soundness in \<open>Expr_Grammar\<close>: lexemes that derive a tree make the parser
  return it. The fuel is left open with \<open>settles\<close>, which says that a function of the fuel is
  constant from some amount on; the methods never change a result when they get more fuel
  (\<open>methods_mono\<close>), so the value they settle on is the one that \<open>parse\<close> computes. Levels with
  left recursion are handled by continuation: parsing a primary expression and looping over
  operators behaves like the loop entered with the tree of the whole level.
\<close>

subsection \<open>Settling\<close>

definition settles :: "(nat \<Rightarrow> 'a) \<Rightarrow> 'a \<Rightarrow> bool" where
  "settles g r \<longleftrightarrow> (\<exists>f0. \<forall>f\<ge>f0. g f = r)"

lemma settles_const: "settles (\<lambda>_. r) r"
  by (simp add: settles_def)

lemma settles_Suc: "settles (\<lambda>f. g (Suc f)) r \<Longrightarrow> settles g r"
  unfolding settles_def by (metis Suc_le_D Suc_le_mono)

lemma settles_bind:
  assumes "settles g (return_parse x st)" "settles (\<lambda>f. h f x st) r"
  shows "settles (\<lambda>f. bind_parse (g f) (h f)) r"
proof -
  obtain a b where "\<forall>f\<ge>a. g f = return_parse x st" "\<forall>f\<ge>b. h f x st = r"
    using assms unfolding settles_def by blast
  then have "\<forall>f\<ge>max a b. bind_parse (g f) (h f) = r" by (simp add: bind_parse_def)
  then show ?thesis unfolding settles_def by blast
qed

lemma settles_unique: "settles g r \<Longrightarrow> settles g r' \<Longrightarrow> r = r'"
  unfolding settles_def by (metis max.cobounded1 max.cobounded2)

lemma settles_bind_const:
  "m = return_parse x st \<Longrightarrow> settles (\<lambda>f. h f x st) r \<Longrightarrow> settles (\<lambda>f. bind_parse m (h f)) r"
  by (rule settles_bind [OF _ _, of "\<lambda>_. m"]) (simp_all add: settles_const)

subsection \<open>What a derivation promises\<close>

definition lexed :: "js_string \<Rightarrow> lexeme \<Rightarrow> bool" where
  "lexed src t \<longleftrightarrow> (\<exists>i. lex_at src i = Inr t)"

lemma chain_lexed: "chain src t ts u \<Longrightarrow> lexed src t \<Longrightarrow> lexed src u"
  by (induction ts arbitrary: t) (auto simp: lexed_def)

definition runs :: "js_string \<Rightarrow> parser_state \<Rightarrow> lexeme list \<Rightarrow> lexeme \<Rightarrow> bool" where
  "runs src st ts u \<longleftrightarrow>
     good st \<and> lexed src (ps_current st) \<and> chain src (ps_current st) ts u \<and> ps_count st + length ts \<le> 10000"

abbreviation after :: "parser_state \<Rightarrow> lexeme list \<Rightarrow> lexeme \<Rightarrow> parser_state" where
  "after st ts u \<equiv> advance st (length ts) u"

definition ok_expr :: "js_string \<Rightarrow> nat \<Rightarrow> nat \<Rightarrow> lexeme list \<Rightarrow> expression_node \<Rightarrow> bool" where
  "ok_expr src d m ts n \<longleftrightarrow>
     (\<forall>st u. runs src st ts u \<longrightarrow> ps_depth st + Suc d \<le> 128 \<longrightarrow> lx_text u \<noteq> js ''('' \<longrightarrow>
        stops m (after st ts u) \<longrightarrow> m \<noteq> 0 \<or> lx_text u \<noteq> js ''?'' \<longrightarrow>
        settles (\<lambda>f. expression f src m st) (return_parse n (after st ts u)))"

definition ok_level :: "js_string \<Rightarrow> nat \<Rightarrow> nat \<Rightarrow> lexeme list \<Rightarrow> expression_node \<Rightarrow> bool" where
  "ok_level src d k ts n \<longleftrightarrow>
     (\<forall>m st u r. runs src st ts u \<longrightarrow> m \<le> k \<longrightarrow> ps_depth st + d \<le> 128 \<longrightarrow> lx_text u \<noteq> js ''('' \<longrightarrow>
        stops (Suc k) (after st ts u) \<longrightarrow> settles (\<lambda>f. binary_loop f src m n (after st ts u)) r \<longrightarrow>
        settles (\<lambda>f. bind_parse (primary f src st) (binary_loop f src m)) r)"

definition ok_args :: "js_string \<Rightarrow> nat \<Rightarrow> lexeme list \<Rightarrow> expression_node list \<Rightarrow> bool" where
  "ok_args src d ts as \<longleftrightarrow>
     (\<forall>st u pre. runs src st ts u \<longrightarrow> ps_depth st + Suc d \<le> 128 \<longrightarrow> lx_text u = js '')'' \<longrightarrow>
        settles (\<lambda>f. arguments f src pre st) (return_parse (pre @ as) (after st ts u)))"

lemma runs_Cons:
  assumes "runs src st (t # ts) u"
  obtains v where "t = ps_current st" "take_lexeme src st = return_parse t (advance st 1 v)" "runs src (advance st 1 v) ts u"
    "after (advance st 1 v) ts u = after st (t # ts) u"
proof -
  from assms obtain v where v: "t = ps_current st" "lex_at src (lx_end t) = Inr v" "chain src v ts u" "good st"
      "ps_count st + Suc (length ts) \<le> 10000"
    by (auto simp: runs_def)
  then have "take_lexeme src st = return_parse t (advance st 1 v)" using moves_take [of st src v] by simp
  moreover have "runs src (advance st 1 v) ts u" using v by (auto simp: runs_def good_def lexed_def)
  ultimately show thesis using that v(1) by simp
qed

lemma runs_append:
  assumes "runs src st (ts @ us) u"
  obtains v where "runs src st ts v" "runs src (after st ts v) us u" "after (after st ts v) us u = after st (ts @ us) u"
proof -
  from assms obtain v where v: "chain src (ps_current st) ts v" "chain src v us u" "good st" "lexed src (ps_current st)"
      "ps_count st + (length ts + length us) \<le> 10000"
    by (auto simp: runs_def chain_append)
  moreover have "lexed src v" using chain_lexed v(1,4) .
  ultimately have "runs src st ts v" "runs src (after st ts v) us u" by (auto simp: runs_def good_def)
  then show thesis using that by simp
qed

lemma runs_depth [simp]: "runs src (st\<lparr>ps_depth := x\<rparr>) ts u = runs src st ts u"
  by (simp add: runs_def)

lemma runs_next: "runs src st (ts @ t # us) u \<Longrightarrow> runs src st ts v \<Longrightarrow> v = t"
proof -
  assume "runs src st (ts @ t # us) u" "runs src st ts v"
  then obtain w where "chain src (ps_current st) ts w" "chain src w (t # us) u" "chain src (ps_current st) ts v"
    by (auto simp: runs_def chain_append)
  moreover have "chain src x ts w \<Longrightarrow> chain src x ts v \<Longrightarrow> w = v" for x
    by (induction ts arbitrary: x) auto
  ultimately show ?thesis by auto
qed

lemma stops_loop:
  assumes "stops m st"
  shows "settles (\<lambda>f. binary_loop f src m n st) (return_parse n st)"
proof (rule settles_Suc)
  have "binary_loop (Suc f) src m n st = return_parse n st" for f
    using assms by (auto simp: binary_loop_body_def stops_def split: option.split)
  then show "settles (\<lambda>f. binary_loop (Suc f) src m n st) (return_parse n st)" by (simp add: settles_const)
qed

subsection \<open>Expressions\<close>

lemma bind_parse_assoc: "bind_parse (bind_parse m g) h = bind_parse m (\<lambda>x st. bind_parse (g x st) h)"
  by (auto simp: bind_parse_def split: option.splits sum.splits)

lemma expression_settles:
  assumes "ps_depth st \<le> 127"
    and "settles (\<lambda>f. bind_parse (primary f src (st\<lparr>ps_depth := Suc (ps_depth st)\<rparr>)) (binary_loop f src m)) (return_parse left st2)"
    and "settles (\<lambda>f. if m = 0 \<and> current_is st2 (js ''?'') then conditional_tail (expression f src) src left st2
        else return_parse left st2) (return_parse n st3)"
  shows "settles (\<lambda>f. expression f src m st) (return_parse n (st3\<lparr>ps_depth := ps_depth st3 - 1\<rparr>))"
proof (rule settles_Suc)
  have eq: "expression (Suc f) src m st =
      bind_parse (bind_parse (bind_parse (primary f src (st\<lparr>ps_depth := Suc (ps_depth st)\<rparr>)) (binary_loop f src m))
        (\<lambda>left st2. if m = 0 \<and> current_is st2 (js ''?'') then conditional_tail (expression f src) src left st2
          else return_parse left st2))
        (\<lambda>node st3. return_parse node (st3\<lparr>ps_depth := ps_depth st3 - 1\<rparr>))" for f
    using assms(1) by (simp add: expression_body_def Let_def bind_parse_assoc)
  show "settles (\<lambda>f. expression (Suc f) src m st) (return_parse n (st3\<lparr>ps_depth := ps_depth st3 - 1\<rparr>))"
    unfolding eq by (rule settles_bind, rule settles_bind, rule assms(2), rule assms(3), rule settles_const)
qed

lemma depth_restored: "(after (st\<lparr>ps_depth := Suc d\<rparr>) ts u)\<lparr>ps_depth := ps_depth (after (st\<lparr>ps_depth := Suc d\<rparr>) ts u) - 1\<rparr> =
    after (st\<lparr>ps_depth := d\<rparr>) ts u"
  by (simp add: advance_def)

lemma state_same_depth: "st\<lparr>ps_depth := ps_depth st\<rparr> = st"
  by simp

lemma stops_after_depth: "stops m (after (st\<lparr>ps_depth := d\<rparr>) ts u) = stops m (after st ts u)"
  by (simp add: stops_def)

lemma level_expr:
  assumes level: "ok_level src d k ts n" and m: "m = k \<or> m = 0 \<and> k = 1"
  shows "ok_expr src d m ts n"
  unfolding ok_expr_def
proof (intro allI impI)
  fix st u
  assume run: "runs src st ts u" and depth: "ps_depth st + Suc d \<le> 128" and u: "lx_text u \<noteq> js ''(''"
    and stop: "stops m (after st ts u)" and q: "m \<noteq> 0 \<or> lx_text u \<noteq> js ''?''"
  let ?st = "st\<lparr>ps_depth := Suc (ps_depth st)\<rparr>"
  have "stops (Suc k) (after ?st ts u)" "stops m (after ?st ts u)"
    using stop m unfolding stops_after_depth by (auto simp: stops_def less_Suc_eq)
  then have "settles (\<lambda>f. bind_parse (primary f src ?st) (binary_loop f src m)) (return_parse n (after ?st ts u))"
    using level [unfolded ok_level_def, rule_format, of ?st u m] run depth u m stops_loop by auto
  moreover have "\<not> (m = 0 \<and> current_is (after ?st ts u) (js ''?''))" using q by (auto simp: current_is_def)
  ultimately have "settles (\<lambda>f. expression f src m st)
      (return_parse n ((after ?st ts u)\<lparr>ps_depth := ps_depth (after ?st ts u) - 1\<rparr>))"
    using depth by (intro expression_settles) (auto simp: settles_const)
  then show "settles (\<lambda>f. expression f src m st) (return_parse n (after st ts u))"
    unfolding depth_restored state_same_depth .
qed

lemma ok_exprD:
  assumes "ok_expr src d m ts n" "runs src st ts u" "ps_depth st + Suc d \<le> 128" "lx_text u \<noteq> js ''(''"
    "\<And>op. operator_of (lx_text u) = Some op \<Longrightarrow> PRECEDENCE op < m" "m \<noteq> 0 \<or> lx_text u \<noteq> js ''?''"
  shows "settles (\<lambda>f. expression f src m st) (return_parse n (after st ts u))"
  using assms(1) [unfolded ok_expr_def, rule_format, OF assms(2-4)] assms(5,6) by (auto simp: stops_def)

lemma closing_texts:
  "s \<in> {js '':'', js '')'', js '','', []} \<Longrightarrow> operator_of s = None \<and> s \<noteq> js ''('' \<and> s \<noteq> js ''?''"
  by (auto simp: operator_of_def OPERATOR_TEXTS_def)

lemma operator_text: "operator_of s = Some op \<Longrightarrow> s \<noteq> js ''('' \<and> s \<noteq> js ''?''"
  by (auto simp: operator_of_def OPERATOR_TEXTS_def)

lemma question_text: "operator_of (js ''?'') = None" "js ''?'' \<noteq> js ''(''"
  by (simp_all add: operator_of_def OPERATOR_TEXTS_def)

lemma conditional_complete:
  assumes test: "ok_level src (Suc d) 1 ts c" and q: "lx_text q = js ''?''" and yes: "ok_expr src d 0 us a"
    and col: "lx_text col = js '':''" and no: "ok_expr src d 0 vs b"
  shows "ok_expr src (Suc d) 0 (ts @ q # us @ col # vs) (Conditional c a b (node_start c) (node_end b))"
  unfolding ok_expr_def
proof (intro allI impI)
  fix st u
  let ?all = "ts @ q # us @ col # vs"
  assume run: "runs src st ?all u" and depth: "ps_depth st + Suc (Suc d) \<le> 128" and u: "lx_text u \<noteq> js ''(''"
    and stop: "stops 0 (after st ?all u)" and last: "0 \<noteq> (0::nat) \<or> lx_text u \<noteq> js ''?''"
  let ?st = "st\<lparr>ps_depth := Suc (ps_depth st)\<rparr>"
  have run': "runs src ?st ?all u" using run by simp
  obtain v where v: "runs src ?st ts v" "runs src (after ?st ts v) (q # us @ col # vs) u" using runs_append [OF run'] by blast
  have vq: "v = q" using runs_next [OF run' v(1)] .
  let ?st1 = "after ?st ts q"
  have "stops 2 ?st1" "stops 0 ?st1" using q question_text by (simp_all add: stops_def)
  then have left: "settles (\<lambda>f. bind_parse (primary f src ?st) (binary_loop f src 0)) (return_parse c ?st1)"
    using test [unfolded ok_level_def, rule_format, of ?st q 0] v(1) depth vq q question_text stops_loop
    by (auto simp: numeral_2_eq_2)
  obtain w where w: "take_lexeme src ?st1 = return_parse q (advance ?st1 1 w)" "runs src (advance ?st1 1 w) (us @ col # vs) u"
      "after (advance ?st1 1 w) (us @ col # vs) u = after ?st1 (q # us @ col # vs) u"
    using runs_Cons v(2) [unfolded vq] by metis
  let ?st2 = "advance ?st1 1 w"
  obtain x where x: "runs src ?st2 us x" "runs src (after ?st2 us x) (col # vs) u"
      "after (after ?st2 us x) (col # vs) u = after ?st2 (us @ col # vs) u"
    using runs_append [OF w(2)] by metis
  have xc: "x = col" using runs_next [OF w(2) x(1)] .
  have a: "settles (\<lambda>f. expression f src 0 ?st2) (return_parse a (after ?st2 us col))"
    using yes x(1) xc depth col closing_texts [of "lx_text col"] by (intro ok_exprD [of src d]) auto
  obtain y where y: "take_lexeme src (after ?st2 us col) = return_parse col (advance (after ?st2 us col) 1 y)"
      "runs src (advance (after ?st2 us col) 1 y) vs u"
      "after (advance (after ?st2 us col) 1 y) vs u = after (after ?st2 us col) (col # vs) u"
    using runs_Cons x(2) [unfolded xc] by metis
  let ?st3 = "advance (after ?st2 us col) 1 y" and ?fin = "after ?st ?all u"
  have "after ?st3 vs u = ?fin" using x(3) w(3) y(3) xc by simp
  then have b: "settles (\<lambda>f. expression f src 0 ?st3) (return_parse b ?fin)"
    using no y(2) depth u stop last ok_exprD [of src d 0 vs b ?st3 u] by (simp add: stops_def add.assoc)
  have expects: "expect src (after ?st2 us col) (js '':'') = return_parse col ?st3" using y(1) by (simp add: expect_def col)
  have "settles (\<lambda>f. conditional_tail (expression f src) src c ?st1)
      (return_parse (Conditional c a b (node_start c) (node_end b)) ?fin)"
    unfolding conditional_tail_def
    by (rule settles_bind_const [OF w(1)], rule settles_bind [OF a], rule settles_bind_const [OF expects],
        rule settles_bind [OF b], rule settles_const)
  then have "settles (\<lambda>f. expression f src 0 st)
      (return_parse (Conditional c a b (node_start c) (node_end b)) (?fin\<lparr>ps_depth := ps_depth ?fin - 1\<rparr>))"
    by (intro expression_settles [OF _ left]) (use depth q in \<open>simp_all add: current_is_def\<close>)
  then show "settles (\<lambda>f. expression f src 0 st) (return_parse (Conditional c a b (node_start c) (node_end b)) (after st ?all u))"
    unfolding depth_restored state_same_depth .
qed

subsection \<open>Operators\<close>

lemma binary_complete:
  assumes left: "ok_level src (Suc d) (PRECEDENCE op) ls l" and op: "operator_of (lx_text t) = Some op"
    and right: "ok_level src d (Suc (PRECEDENCE op)) rs r"
  shows "ok_level src (Suc d) (PRECEDENCE op) (ls @ t # rs) (Binary op l r (node_start l) (node_end r))"
  unfolding ok_level_def
proof (intro allI impI)
  fix m st u res
  let ?p = "PRECEDENCE op" and ?n = "Binary op l r (node_start l) (node_end r)" and ?fin = "after st (ls @ t # rs) u"
  assume run: "runs src st (ls @ t # rs) u" and m: "m \<le> ?p" and depth: "ps_depth st + Suc d \<le> 128" and u: "lx_text u \<noteq> js ''(''"
    and stop: "stops (Suc ?p) ?fin" and cont: "settles (\<lambda>f. binary_loop f src m ?n ?fin) res"
  obtain v where v: "runs src st ls v" "runs src (after st ls v) (t # rs) u"
      "after (after st ls v) (t # rs) u = ?fin" using runs_append [OF run] by metis
  have vt: "v = t" using runs_next [OF run v(1)] .
  let ?st1 = "after st ls t"
  obtain w where w: "take_lexeme src ?st1 = return_parse t (advance ?st1 1 w)" "runs src (advance ?st1 1 w) rs u"
      "after (advance ?st1 1 w) rs u = ?fin"
    using runs_Cons v(2,3) [unfolded vt] by metis
  let ?st2 = "advance ?st1 1 w"
  have "ok_expr src d (Suc ?p) rs r" using level_expr [OF right] by blast
  then have r: "settles (\<lambda>f. expression f src (?p + 1) ?st2) (return_parse r ?fin)"
    using ok_exprD [of src d "Suc ?p" rs r ?st2 u] w(2,3) depth u stop by (simp add: stops_def)
  have "binary_loop (Suc f) src m l ?st1 =
      bind_parse (take_lexeme src ?st1) (\<lambda>_ st1. bind_parse (expression f src (?p + 1) st1)
        (\<lambda>right st2. binary_loop f src m (Binary op l right (node_start l) (node_end right)) st2))" for f
    using op m by (simp add: binary_loop_body_def)
  then have "settles (\<lambda>f. binary_loop (Suc f) src m l ?st1) res"
    by (simp only:) (rule settles_bind_const [OF w(1)], rule settles_bind [OF r], rule cont)
  then have "settles (\<lambda>f. binary_loop f src m l ?st1) res" by (rule settles_Suc)
  moreover have "stops (Suc ?p) ?st1" using op by (simp add: stops_def)
  ultimately show "settles (\<lambda>f. bind_parse (primary f src st) (binary_loop f src m)) res"
    using left [unfolded ok_level_def, rule_format, of st t m res] v(1) vt m depth operator_text [OF op] by simp
qed

subsection \<open>Primary expressions\<close>

definition ok_primary :: "js_string \<Rightarrow> nat \<Rightarrow> lexeme list \<Rightarrow> expression_node \<Rightarrow> bool" where
  "ok_primary src d ts n \<longleftrightarrow>
     (\<forall>st u. runs src st ts u \<longrightarrow> ps_depth st + d \<le> 128 \<longrightarrow> lx_text u \<noteq> js ''('' \<longrightarrow>
        settles (\<lambda>f. primary f src st) (return_parse n (after st ts u)))"

lemma primary_level: "ok_primary src d ts n \<Longrightarrow> ok_level src d 7 ts n"
  unfolding ok_level_def
proof (intro allI impI)
  fix m st u res
  assume prim: "ok_primary src d ts n" and run: "runs src st ts u" and depth: "ps_depth st + d \<le> 128" and u: "lx_text u \<noteq> js ''(''"
    and cont: "settles (\<lambda>f. binary_loop f src m n (after st ts u)) res"
  have "settles (\<lambda>f. primary f src st) (return_parse n (after st ts u))"
    using prim run depth u by (simp add: ok_primary_def)
  then show "settles (\<lambda>f. bind_parse (primary f src st) (binary_loop f src m)) res"
    using cont by (rule settles_bind)
qed

text \<open>A primary expression takes its first lexeme and goes on by its kind.\<close>

lemma ok_primaryI:
  assumes "\<And>st u st1. runs src st1 ts u \<Longrightarrow> ps_depth st1 + d \<le> 128 \<Longrightarrow> lx_text u \<noteq> js ''('' \<Longrightarrow>
    settles (\<lambda>f. case lx_kind t of
         K_number val whole \<Rightarrow> return_parse (Literal (LNum val) whole (lx_start t) (lx_end t)) st1
       | K_string val \<Rightarrow> return_parse (Literal (LStr val) False (lx_start t) (lx_end t)) st1
       | _ \<Rightarrow> symbol_body (expression f src) (arguments f src) src t st1) (return_parse n (after st1 ts u))"
  shows "ok_primary src d (t # ts) n"
  unfolding ok_primary_def
proof (intro allI impI)
  fix st u
  assume run: "runs src st (t # ts) u" and depth: "ps_depth st + d \<le> 128" and u: "lx_text u \<noteq> js ''(''"
  obtain v where v: "take_lexeme src st = return_parse t (advance st 1 v)" "runs src (advance st 1 v) ts u"
      "after (advance st 1 v) ts u = after st (t # ts) u"
    using runs_Cons [OF run] by metis
  have "settles (\<lambda>f. primary (Suc f) src st) (return_parse n (after st (t # ts) u))"
    unfolding primary.simps primary_body_def v(3) [symmetric]
    by (rule settles_bind_const [OF v(1)], rule assms) (use v(2) depth u in simp_all)
  then show "settles (\<lambda>f. primary f src st) (return_parse n (after st (t # ts) u))" by (rule settles_Suc)
qed

lemma runs_Nil: "runs src st [] u \<Longrightarrow> u = ps_current st \<and> after st [] u = st"
  using advance_self by (auto simp: runs_def)

lemma literal_complete:
  "lx_kind t = K_number x whole \<Longrightarrow> ok_primary src d [t] (Literal (LNum x) whole (lx_start t) (lx_end t))"
  "lx_kind t = K_string s \<Longrightarrow> ok_primary src d [t] (Literal (LStr s) False (lx_start t) (lx_end t))"
  by (rule ok_primaryI, drule runs_Nil, simp add: settles_const)+

lemma name_complete:
  assumes "is_name t"
  shows "lx_text t = js ''nil'' \<Longrightarrow> ok_primary src d [t] (Literal LNull False (lx_start t) (lx_end t))"
    and "lx_text t = js ''true'' \<or> lx_text t = js ''false'' \<Longrightarrow>
      ok_primary src d [t] (Literal (LBool (lx_text t = js ''true'')) False (lx_start t) (lx_end t))"
    and "map_of TOKEN_VARIABLES (lx_text t) = Some v \<Longrightarrow> ok_primary src d [t] (Variable v (lx_start t) (lx_end t))"
proof -
  have symbol: "symbol_body expr args src t st = name_body args src t st" for expr args st
    using assms by (simp add: symbol_body_def is_name_def)
  have kind: "lx_kind t = K_name" using assms by (simp add: is_name_def)
  show "lx_text t = js ''nil'' \<Longrightarrow> ok_primary src d [t] (Literal LNull False (lx_start t) (lx_end t))"
    by (rule ok_primaryI, drule runs_Nil) (simp add: kind symbol name_body_def settles_const)
  show "lx_text t = js ''true'' \<or> lx_text t = js ''false'' \<Longrightarrow>
      ok_primary src d [t] (Literal (LBool (lx_text t = js ''true'')) False (lx_start t) (lx_end t))"
    by (rule ok_primaryI, drule runs_Nil) (auto simp: kind symbol name_body_def settles_const)
  show "map_of TOKEN_VARIABLES (lx_text t) = Some v \<Longrightarrow> ok_primary src d [t] (Variable v (lx_start t) (lx_end t))"
  proof (rule ok_primaryI, drule runs_Nil)
    fix st u st1
    assume v: "map_of TOKEN_VARIABLES (lx_text t) = Some v" and u: "u = ps_current st1 \<and> after st1 [] u = st1" "lx_text u \<noteq> js ''(''"
    have "lx_text t \<notin> {js ''nil'', js ''true'', js ''false''}" using v by (auto simp: TOKEN_VARIABLES_def split: if_splits)
    with v u show "settles (\<lambda>f. case lx_kind t of
         K_number val whole \<Rightarrow> return_parse (Literal (LNum val) whole (lx_start t) (lx_end t)) st1
       | K_string val \<Rightarrow> return_parse (Literal (LStr val) False (lx_start t) (lx_end t)) st1
       | _ \<Rightarrow> symbol_body (expression f src) (arguments f src) src t st1) (return_parse (Variable v (lx_start t) (lx_end t)) (after st1 [] u))"
      by (auto simp: kind symbol name_body_def current_is_def settles_const)
  qed
qed

lemma plain_kind:
  "is_plain t \<Longrightarrow> (case lx_kind t of K_number x w \<Rightarrow> a x w | K_string s \<Rightarrow> b s | _ \<Rightarrow> c) = c"
  by (simp add: is_plain_def split: lexeme_kind.splits)

lemma unary_complete:
  assumes "is_plain t" "unary_operator_of (lx_text t) = Some uop" "ok_level src d 7 ts a"
  shows "ok_primary src (Suc d) (t # ts) (Unary uop a (lx_start t) (node_end a))"
proof (rule ok_primaryI)
  fix st u st1
  assume run: "runs src st1 ts u" and depth: "ps_depth st1 + Suc d \<le> 128" and u: "lx_text u \<noteq> js ''(''"
  have "lx_text t \<noteq> js ''(''" using assms(2) by (auto simp: unary_operator_of_def)
  moreover have "settles (\<lambda>f. expression f src 7 st1) (return_parse a (after st1 ts u))"
    using level_expr [OF assms(3), of 7] run depth u stops_high [of 7] by (simp add: ok_expr_def)
  then have "settles (\<lambda>f. bind_parse (expression f src 7 st1)
      (\<lambda>operand st1. return_parse (Unary uop operand (lx_start t) (node_end operand)) st1))
      (return_parse (Unary uop a (lx_start t) (node_end a)) (after st1 ts u))"
    by (rule settles_bind) (rule settles_const)
  ultimately show "settles (\<lambda>f. case lx_kind t of
         K_number val whole \<Rightarrow> return_parse (Literal (LNum val) whole (lx_start t) (lx_end t)) st1
       | K_string val \<Rightarrow> return_parse (Literal (LStr val) False (lx_start t) (lx_end t)) st1
       | _ \<Rightarrow> symbol_body (expression f src) (arguments f src) src t st1)
      (return_parse (Unary uop a (lx_start t) (node_end a)) (after st1 ts u))"
    using assms(2) by (simp add: plain_kind [OF assms(1)] symbol_body_def)
qed

lemma closing_step:
  assumes "runs src st (ts @ [c]) u"
  shows "runs src st ts c \<and> take_lexeme src (after st ts c) = return_parse c (after st (ts @ [c]) u)"
proof -
  obtain w where w: "runs src st ts w" "runs src (after st ts w) [c] u" "after (after st ts w) [c] u = after st (ts @ [c]) u"
    using runs_append [OF assms] by metis
  have wc: "w = c" using runs_next [OF assms w(1)] .
  obtain v where "take_lexeme src (after st ts c) = return_parse c (advance (after st ts c) 1 v)"
      "runs src (advance (after st ts c) 1 v) [] u" "after (advance (after st ts c) 1 v) [] u = after (after st ts c) [c] u"
    using runs_Cons w(2) [unfolded wc] by metis
  then show ?thesis using w(1,3) wc runs_Nil by metis
qed

lemma parentheses_complete:
  assumes "is_plain t" "lx_text t = js ''(''" "ok_expr src d 0 ts n" "lx_text c = js '')''"
  shows "ok_primary src (Suc d) (t # ts @ [c]) (with_span n (lx_start t) (lx_end c))"
proof (rule ok_primaryI)
  fix st u st1
  assume run: "runs src st1 (ts @ [c]) u" and depth: "ps_depth st1 + Suc d \<le> 128"
  note close = closing_step [OF run]
  have inner: "settles (\<lambda>f. expression f src 0 st1) (return_parse n (after st1 ts c))"
    using assms(3) close depth assms(4) closing_texts [of "lx_text c"] by (intro ok_exprD [of src d]) auto
  have expects: "expect src (after st1 ts c) (js '')'') = return_parse c (after st1 (ts @ [c]) u)"
    using close assms(4) by (simp add: expect_def)
  have "settles (\<lambda>f. bind_parse (expression f src 0 st1) (\<lambda>inner st1. bind_parse (expect src st1 (js '')'')) (\<lambda>close st2.
          return_parse (with_span inner (lx_start t) (lx_end close)) st2)))
      (return_parse (with_span n (lx_start t) (lx_end c)) (after st1 (ts @ [c]) u))"
    by (rule settles_bind [OF inner], rule settles_bind_const [OF expects], rule settles_const)
  then show "settles (\<lambda>f. case lx_kind t of
         K_number val whole \<Rightarrow> return_parse (Literal (LNum val) whole (lx_start t) (lx_end t)) st1
       | K_string val \<Rightarrow> return_parse (Literal (LStr val) False (lx_start t) (lx_end t)) st1
       | _ \<Rightarrow> symbol_body (expression f src) (arguments f src) src t st1)
      (return_parse (with_span n (lx_start t) (lx_end c)) (after st1 (ts @ [c]) u))"
    by (simp add: plain_kind [OF assms(1)] symbol_body_def assms(2))
qed

lemma function_text_reserved: "function_named s = Some fn \<Longrightarrow> s \<notin> {js ''nil'', js ''true'', js ''false''}"
proof -
  have "function_text f \<notin> {js ''nil'', js ''true'', js ''false''}" for f
  proof (cases f)
    case (F_time g)
    then show ?thesis by (cases g) simp_all
  qed simp_all
  then show "function_named s = Some fn \<Longrightarrow> ?thesis" using function_named_text by metis
qed

lemma call_complete:
  assumes "is_name t" "function_named (lx_text t) = Some fn" "lx_text p = js ''(''" "ok_args src d ts args"
    "lx_text c = js '')''" "length args = arity fn"
  shows "ok_primary src (Suc d) (t # p # ts @ [c]) (Call fn args (lx_start t) (lx_end c))"
proof (rule ok_primaryI)
  fix st u st1
  assume run: "runs src st1 (p # ts @ [c]) u" and depth: "ps_depth st1 + Suc d \<le> 128"
  obtain v where v: "p = ps_current st1" "take_lexeme src st1 = return_parse p (advance st1 1 v)"
      "runs src (advance st1 1 v) (ts @ [c]) u" "after (advance st1 1 v) (ts @ [c]) u = after st1 (p # ts @ [c]) u"
    using runs_Cons [OF run] by metis
  let ?st2 = "advance st1 1 v" and ?fin = "after st1 (p # ts @ [c]) u" and ?n = "Call fn args (lx_start t) (lx_end c)"
  note close = closing_step [OF v(3), unfolded v(4)]
  have inner: "settles (\<lambda>f. arguments f src [] ?st2) (return_parse args (after ?st2 ts c))"
    using assms(4) [unfolded ok_args_def, rule_format, of ?st2 c "[]"] close depth assms(5) by simp
  have expects: "expect src (after ?st2 ts c) (js '')'') = return_parse c ?fin"
    using close assms(5) by (simp add: expect_def)
  have tail: "settles (\<lambda>f. call_tail (arguments f src) src t st1) (return_parse ?n ?fin)"
    unfolding call_tail_def assms(2) option.case
    by (rule settles_bind_const [OF v(2)], rule settles_bind [OF inner], rule settles_bind_const [OF expects])
      (simp add: assms(6) settles_const)
  have "symbol_body (expression f src) (arguments f src) src t st1 = call_tail (arguments f src) src t st1" for f
    using assms(1,3) v(1) function_text_reserved [OF assms(2)]
    by (simp add: symbol_body_def is_name_def name_body_def current_is_def)
  with tail show "settles (\<lambda>f. case lx_kind t of
         K_number val whole \<Rightarrow> return_parse (Literal (LNum val) whole (lx_start t) (lx_end t)) st1
       | K_string val \<Rightarrow> return_parse (Literal (LStr val) False (lx_start t) (lx_end t)) st1
       | _ \<Rightarrow> symbol_body (expression f src) (arguments f src) src t st1) (return_parse ?n ?fin)"
    using assms(1) by (simp add: is_name_def)
qed

subsection \<open>Arguments\<close>

definition begins :: "lexeme \<Rightarrow> bool" where
  "begins t \<longleftrightarrow> \<not> is_plain t \<or> is_name t \<or> lx_text t = js ''('' \<or> unary_operator_of (lx_text t) \<noteq> None"

lemma derives_begins: "derives d k ts n \<Longrightarrow> \<exists>t us. ts = t # us \<and> begins t"
  and "derives_args d us as \<Longrightarrow> True"
  by (induction rule: derives_derives_args.inducts) (auto simp: begins_def is_plain_def)

lemma lexed_head:
  assumes "lexed src t"
  shows "(\<exists>x w. lx_kind t = K_number x w) \<longrightarrow> is_digit (hd (lx_text t)) \<or> hd (lx_text t) = 46"
    and "(\<exists>s. lx_kind t = K_string s) \<longrightarrow> hd (lx_text t) = 34 \<or> hd (lx_text t) = 39"
    and "lx_kind t = K_name \<longrightarrow> is_name_start (hd (lx_text t))"
    and "lx_kind t = K_end \<longrightarrow> lx_text t = []"
proof -
  from assms obtain i where i: "lex_at src i = Inr t" by (auto simp: lexed_def)
  let ?start = "skip_space src i"
  let ?rest = "drop ?start src"
  have number: "is_digit (hd (match_number ?rest)) \<or> hd (match_number ?rest) = 46" if "match_number ?rest \<noteq> []"
    using match_number_head [of ?rest "hd (match_number ?rest)" "tl (match_number ?rest)"] that by simp
  have str: "hd (slice src ?start j) = hd ?rest" if "scan_string src q ?start (?start + 1) [] = Inr (v, j)" for q v j
    using scan_string_bounds [OF that] by (cases ?rest) (auto simp: slice_def hd_take)
  have name: "is_name_start (hd (match_name ?rest))" if "match_name ?rest \<noteq> []"
    using that by (cases ?rest) (auto simp: match_name_def split: if_splits)
  show "(\<exists>x w. lx_kind t = K_number x w) \<longrightarrow> is_digit (hd (lx_text t)) \<or> hd (lx_text t) = 46"
    using i number lex_number_ok by (fastforce simp: lex_at_def Let_def split: if_splits sum.splits prod.splits)
  show "(\<exists>s. lx_kind t = K_string s) \<longrightarrow> hd (lx_text t) = 34 \<or> hd (lx_text t) = 39"
    using i str by (fastforce simp: lex_at_def lex_number_def Let_def split: if_splits sum.splits prod.splits)
  show "lx_kind t = K_name \<longrightarrow> is_name_start (hd (lx_text t))"
    using i name by (auto simp: lex_at_def lex_number_def Let_def split: if_splits sum.splits prod.splits)
  show "lx_kind t = K_end \<longrightarrow> lx_text t = []"
    using i by (auto simp: lex_at_def lex_number_def Let_def split: if_splits sum.splits prod.splits)
qed

lemma close_is_symbol: "lexed src t \<Longrightarrow> lx_text t = js '')'' \<Longrightarrow> lx_kind t = K_symbol"
  using lexed_head [of src t]
  by (cases "lx_kind t") (auto simp: js_def is_digit_def is_name_start_def is_letter_def)

lemma begins_not_close: "lexed src t \<Longrightarrow> begins t \<Longrightarrow> lx_text t \<noteq> js '')''"
  using close_is_symbol by (auto simp: begins_def is_plain_def is_name_def unary_operator_of_def)

lemma arguments_complete:
  shows "ok_args src d [] []"
    and "ok_expr src d 0 ts a \<Longrightarrow> derives d 0 ts a \<Longrightarrow> ok_args src d ts [a]"
    and "ok_expr src d 0 ts a \<Longrightarrow> derives d 0 ts a \<Longrightarrow> lx_text c = js '','' \<Longrightarrow> ok_args src d us as \<Longrightarrow>
      ok_args src d (ts @ c # us) (a # as)"
proof -
  show "ok_args src d [] []"
    unfolding ok_args_def
  proof (intro allI impI)
    fix st u pre
    assume "runs src st [] u" "lx_text u = js '')''"
    then have "arguments (Suc f) src pre st = return_parse (pre @ []) (after st [] u)" for f
      using runs_Nil [of src st u] by (auto simp: arguments_body_def current_is_def)
    then show "settles (\<lambda>f. arguments f src pre st) (return_parse (pre @ []) (after st [] u))"
      by (intro settles_Suc [of "\<lambda>f. arguments f src pre st"]) (simp only: settles_const)
  qed
next
  have not_close: "\<not> current_is st (js '')'')" if "runs src st (ts @ us) u" "derives d 0 ts a" for st us u
    using that derives_begins [OF that(2)] begins_not_close by (auto simp: runs_def current_is_def)
  have step: "arguments (Suc f) src pre st =
      bind_parse (expression f src 0 st) (\<lambda>arg st1.
        if \<not> current_is st1 (js '','') then return_parse (pre @ [arg]) st1
        else bind_parse (take_lexeme src st1) (\<lambda>_ st2. arguments f src (pre @ [arg]) st2))"
    if "\<not> current_is st (js '')'')" for st pre f
    using that by (simp add: arguments_body_def)
  {
    assume e: "ok_expr src d 0 ts a" "derives d 0 ts a"
    show "ok_args src d ts [a]"
      unfolding ok_args_def
    proof (intro allI impI)
      fix st u pre
      assume run: "runs src st ts u" and depth: "ps_depth st + Suc d \<le> 128" and u: "lx_text u = js '')''"
      have a: "settles (\<lambda>f. expression f src 0 st) (return_parse a (after st ts u))"
        using e(1) run depth u closing_texts [of "lx_text u"] by (intro ok_exprD [of src d]) auto
      have "\<not> current_is st (js '')'')" using not_close [of st "[]" u] run e(2) by simp
      then have "settles (\<lambda>f. arguments (Suc f) src pre st) (return_parse (pre @ [a]) (after st ts u))"
        unfolding step [OF \<open>\<not> current_is st (js '')'')\<close>]
        by (intro settles_bind [OF a]) (simp add: current_is_def u settles_const)
      then show "settles (\<lambda>f. arguments f src pre st) (return_parse (pre @ [a]) (after st ts u))" by (rule settles_Suc)
    qed
  next
    assume e: "ok_expr src d 0 ts a" "derives d 0 ts a" and c: "lx_text c = js '',''" and more: "ok_args src d us as"
    show "ok_args src d (ts @ c # us) (a # as)"
      unfolding ok_args_def
    proof (intro allI impI)
      fix st u pre
      let ?fin = "after st (ts @ c # us) u"
      assume run: "runs src st (ts @ c # us) u" and depth: "ps_depth st + Suc d \<le> 128" and u: "lx_text u = js '')''"
      obtain v where v: "runs src st ts v" "runs src (after st ts v) (c # us) u" "after (after st ts v) (c # us) u = ?fin"
        using runs_append [OF run] by metis
      have vc: "v = c" using runs_next [OF run v(1)] .
      obtain w where w: "take_lexeme src (after st ts c) = return_parse c (advance (after st ts c) 1 w)"
          "runs src (advance (after st ts c) 1 w) us u" "after (advance (after st ts c) 1 w) us u = ?fin"
        using runs_Cons v(2,3) [unfolded vc] by metis
      have a: "settles (\<lambda>f. expression f src 0 st) (return_parse a (after st ts c))"
        using e(1) v(1) vc depth c closing_texts [of "lx_text c"] by (intro ok_exprD [of src d]) auto
      have rest: "settles (\<lambda>f. arguments f src (pre @ [a]) (advance (after st ts c) 1 w)) (return_parse (pre @ a # as) ?fin)"
        using more [unfolded ok_args_def, rule_format, OF w(2) _ u, of "pre @ [a]"] depth w(3) by simp
      have comma: "current_is (after st ts c) (js '','')" using c by (simp add: current_is_def)
      have not_closed: "\<not> current_is st (js '')'')" using not_close [OF run e(2)] .
      have "settles (\<lambda>f. arguments (Suc f) src pre st) (return_parse (pre @ a # as) ?fin)"
        unfolding step [OF not_closed]
        by (rule settles_bind [OF a], simp only: comma simp_thms if_False, rule settles_bind_const [OF w(1)], rule rest)
      then show "settles (\<lambda>f. arguments f src pre st) (return_parse (pre @ a # as) ?fin)" by (rule settles_Suc)
    qed
  }
qed

lemma stops_mono: "stops m st \<Longrightarrow> m \<le> m' \<Longrightarrow> stops m' st"
  by (auto simp: stops_def intro: less_le_trans)

lemma level_lower: "ok_level src d (Suc k) ts n \<Longrightarrow> ok_level src d k ts n"
  unfolding ok_level_def using stops_mono by (meson le_SucI le_refl)

theorem derives_complete:
  "derives d k ts n \<Longrightarrow> (if k = 0 then ok_expr src d 0 ts n else ok_level src d k ts n)"
  "derives_args d ts as \<Longrightarrow> ok_args src d ts as"
proof (induction rule: derives_derives_args.inducts)
  case (level d k ts n)
  then show ?case
    using level_expr [of src d "Suc k" ts n 0] level_lower by (cases "k = 0") auto
next
  case (conditional d ts c q us a col vs b)
  then show ?case using conditional_complete [of src d ts c q us a col vs b] by simp
next
  case (binary d op ls l t rs r)
  moreover have "PRECEDENCE op \<noteq> 0" using precedence_bounds [of op] by simp
  ultimately show ?case using binary_complete [of src d op ls l t rs r] by simp
qed (use unary_complete primary_level literal_complete name_complete parentheses_complete call_complete arguments_complete in auto)

subsection \<open>More fuel changes nothing\<close>

definition below :: "'a parsed \<Rightarrow> 'a parsed \<Rightarrow> bool" where
  "below a b \<longleftrightarrow> a = None \<or> a = b"

lemma below_refl [simp]: "below a a"
  by (simp add: below_def)

lemma below_bind:
  "below m m' \<Longrightarrow> (\<And>x st. below (g x st) (g' x st)) \<Longrightarrow> below (bind_parse m g) (bind_parse m' g')"
  by (auto simp: below_def bind_parse_def split: option.splits sum.splits)

lemma below_if: "below a a' \<Longrightarrow> below b b' \<Longrightarrow> below (if c then a else b) (if c then a' else b')"
  by simp

lemma below_option: "below a a' \<Longrightarrow> (\<And>x. below (b x) (b' x)) \<Longrightarrow>
    below (case c of None \<Rightarrow> a | Some x \<Rightarrow> b x) (case c of None \<Rightarrow> a' | Some x \<Rightarrow> b' x)"
  by (cases c) simp_all

lemma below_kind: "(\<And>x w. below (a x w) (a' x w)) \<Longrightarrow> (\<And>s. below (b s) (b' s)) \<Longrightarrow> below c c' \<Longrightarrow>
    below (case k of K_number x w \<Rightarrow> a x w | K_string s \<Rightarrow> b s | _ \<Rightarrow> c) (case k of K_number x w \<Rightarrow> a' x w | K_string s \<Rightarrow> b' s | _ \<Rightarrow> c')"
  by (cases k) simp_all

lemmas below_intros = below_bind below_if below_option below_kind below_refl

lemma bodies_mono:
  assumes "\<And>m st. below (expr m st) (expr' m st)" "\<And>m l st. below (loop m l st) (loop' m l st)"
    "\<And>st. below (prim st) (prim' st)" "\<And>as st. below (args as st) (args' as st)"
  shows "below (expression_body expr loop prim src m st) (expression_body expr' loop' prim' src m st)"
    and "below (binary_loop_body expr loop src m l st) (binary_loop_body expr' loop' src m l st)"
    and "below (primary_body expr args src st) (primary_body expr' args' src st)"
    and "below (arguments_body expr args src as st) (arguments_body expr' args' src as st)"
  unfolding expression_body_def conditional_tail_def binary_loop_body_def primary_body_def symbol_body_def name_body_def
    call_tail_def arguments_body_def Let_def
  by (intro below_intros assms)+

lemma methods_mono:
  "(\<forall>m st. below (expression f src m st) (expression (Suc f) src m st)) \<and>
   (\<forall>m l st. below (binary_loop f src m l st) (binary_loop (Suc f) src m l st)) \<and>
   (\<forall>st. below (primary f src st) (primary (Suc f) src st)) \<and>
   (\<forall>as st. below (arguments f src as st) (arguments (Suc f) src as st))"
proof (induction f)
  case 0
  show ?case by (simp add: below_def)
next
  case (Suc f)
  then show ?case
    unfolding expression.simps(2) [of "Suc f"] binary_loop.simps(2) [of "Suc f"] primary.simps(2) [of "Suc f"]
      arguments.simps(2) [of "Suc f"]
    by (subst expression.simps(2), subst binary_loop.simps(2), subst primary.simps(2), subst arguments.simps(2))
      (intro conjI allI bodies_mono; blast)
qed

lemma expression_settles_at:
  assumes "expression f src m st = Some r"
  shows "settles (\<lambda>f. expression f src m st) (Some r)"
proof -
  have "expression g src m st = Some r" if "f \<le> g" for g
    using that
  proof (induction rule: dec_induct)
    case (step g)
    then show ?case using methods_mono [of g src] by (metis below_def option.distinct(1))
  qed (rule assms)
  then show ?thesis unfolding settles_def by blast
qed

subsection \<open>The parser decides the grammar\<close>

definition version_end :: "js_string \<Rightarrow> nat" where
  "version_end src = (case match_version src of Some (txt, v) \<Rightarrow> length txt | None \<Rightarrow> 0)"

definition version_ok :: "js_string \<Rightarrow> bool" where
  "version_ok src \<longleftrightarrow> (case match_version src of Some (txt, v) \<Rightarrow> v = js ''1'' | None \<Rightarrow> True)"

text \<open>The lexemes of a source, after the version prefix and up to its end.\<close>

definition tokens :: "js_string \<Rightarrow> lexeme list \<Rightarrow> bool" where
  "tokens src ts \<longleftrightarrow> (\<exists>t e. lex_at src (version_end src) = Inr t \<and> chain src t ts e \<and> lx_kind e = K_end)"

definition start_at :: "lexeme \<Rightarrow> parser_state" where
  "start_at t = \<lparr>ps_cursor = lx_end t, ps_count = 1, ps_depth = 0, ps_current = t\<rparr>"

lemma initial_state_iff:
  "initial_state src = Inr st \<longleftrightarrow>
     length src \<le> 65536 \<and> version_ok src \<and> (\<exists>t. lex_at src (version_end src) = Inr t \<and> st = start_at t)"
proof (cases "match_version src")
  case None
  then show ?thesis
    by (cases "lex_at src 0") (auto simp: initial_state_def version_ok_def version_end_def next_lexeme_def start_at_def Let_def)
next
  case (Some m)
  then obtain w v where "match_version src = Some (w, v)" by (cases m) auto
  then show ?thesis
    by (cases "lex_at src (length w)")
      (auto simp: initial_state_def version_ok_def version_end_def next_lexeme_def start_at_def Let_def)
qed

lemma parse_ok_iff:
  "parse src = Some (Inr n) \<longleftrightarrow>
     (\<exists>st st'. initial_state src = Inr st \<and> expression (parse_fuel src) src 0 st = Some (Inr (n, st')) \<and>
        lx_kind (ps_current st') = K_end)"
  by (auto simp: parse_def split: sum.splits option.splits if_splits)

theorem parse_iff_grammar:
  "parse src = Some (Inr n) \<longleftrightarrow>
     length src \<le> 65536 \<and> version_ok src \<and> (\<exists>ts. tokens src ts \<and> length ts < 10000 \<and> derives 127 0 ts n)"
proof
  assume "parse src = Some (Inr n)"
  then obtain st st' where st: "initial_state src = Inr st" and e: "expression (parse_fuel src) src 0 st = Some (Inr (n, st'))"
    and fin: "lx_kind (ps_current st') = K_end"
    unfolding parse_ok_iff by blast
  obtain t where t: "length src \<le> 65536" "version_ok src" "lex_at src (version_end src) = Inr t" "st = start_at t"
    using st unfolding initial_state_iff by blast
  have "good st" using t(4) by (simp add: good_def start_at_def)
  then obtain ts where ts: "moves src st ts st'" "derives (127 - ps_depth st) 0 ts n"
    using methods_sound e unfolding sound_expr_def by blast
  have "tokens src ts" "length ts < 10000" "derives 127 0 ts n"
    using ts t(3,4) fin by (auto simp: moves_def start_at_def tokens_def)
  with t(1,2) show "length src \<le> 65536 \<and> version_ok src \<and> (\<exists>ts. tokens src ts \<and> length ts < 10000 \<and> derives 127 0 ts n)"
    by blast
next
  assume g: "length src \<le> 65536 \<and> version_ok src \<and> (\<exists>ts. tokens src ts \<and> length ts < 10000 \<and> derives 127 0 ts n)"
  then obtain ts t e where ts: "lex_at src (version_end src) = Inr t" "chain src t ts e" "lx_kind e = K_end"
      "length ts < 10000" "derives 127 0 ts n"
    unfolding tokens_def by blast
  have st: "initial_state src = Inr (start_at t)" using g ts(1) unfolding initial_state_iff by blast
  have "lexed src t" using ts(1) by (auto simp: lexed_def)
  then have run: "runs src (start_at t) ts e" using ts by (simp add: runs_def good_def start_at_def)
  have "lx_text e = []" using lexed_head(4) [OF chain_lexed [OF ts(2) \<open>lexed src t\<close>]] ts(3) by simp
  then have "settles (\<lambda>f. expression f src 0 (start_at t)) (return_parse n (after (start_at t) ts e))"
    using derives_complete(1) [OF ts(5), of src] run closing_texts [of "[]"]
    by (intro ok_exprD [of src 127]) (auto simp: start_at_def)
  moreover obtain r where "expression (parse_fuel src) src 0 (start_at t) = Some r"
    using parse_total [of src] st by (fastforce simp: parse_def split: option.splits)
  ultimately have "expression (parse_fuel src) src 0 (start_at t) = return_parse n (after (start_at t) ts e)"
    using expression_settles_at settles_unique by metis
  then show "parse src = Some (Inr n)" unfolding parse_ok_iff using st ts(3) by auto
qed

end
