(* ===== verification/Expr_Writing.thy ===== *)
theory Expr_Writing
  imports Grammar_Complete Visual_Correct
begin

section \<open>Texts that the parser reads back\<close>

text \<open>
  A calculus of generated texts: \<open>writes d k x n\<close> says that wherever the text \<open>x\<close> is followed by
  a space, a parenthesis, a comma or the end, the lexer reads it as lexemes that derive, at
  nesting \<open>d\<close> and level \<open>k\<close>, the tree \<open>n\<close> up to the spans. The rules build it for numbers, quoted
  strings, names, calls, operators and conditionals, each from the texts of its parts, and
  \<open>writes_parses\<close> gives the tree that the parser returns. The generators of task prices
  and of the tier editor are verified with it.
\<close>

subsection \<open>Trees without spans\<close>

fun strip :: "expression_node \<Rightarrow> expression_node" where
  "strip (Literal v i s e) = Literal v i 0 0"
| "strip (Variable v s e) = Variable v 0 0"
| "strip (Unary op a s e) = Unary op (strip a) 0 0"
| "strip (Binary op a b s e) = Binary op (strip a) (strip b) 0 0"
| "strip (Conditional c a b s e) = Conditional (strip c) (strip a) (strip b) 0 0"
| "strip (Call f args s e) = Call f (map strip args) 0 0"

lemma strip_with_span [simp]: "strip (with_span n s e) = strip n"
  by (cases n) simp_all

subsection \<open>Lexemes of a part of the source\<close>

fun reads :: "js_string \<Rightarrow> nat \<Rightarrow> lexeme list \<Rightarrow> nat \<Rightarrow> bool" where
  "reads src i [] j \<longleftrightarrow> j = i"
| "reads src i (t # ts) j \<longleftrightarrow> lex_at src i = Inr t \<and> reads src (lx_end t) ts j"

lemma reads_append: "reads src i (xs @ ys) k \<longleftrightarrow> (\<exists>j. reads src i xs j \<and> reads src j ys k)"
  by (induction xs arbitrary: i) auto

lemma reads_chain:
  "reads src i ts j \<Longrightarrow> lex_at src j = Inr e \<Longrightarrow> \<exists>t. lex_at src i = Inr t \<and> chain src t ts e"
  by (induction ts arbitrary: i) auto

lemma lex_skip: "i < length src \<Longrightarrow> is_space (src ! i) \<Longrightarrow> lex_at src (Suc i) = lex_at src i"
proof -
  assume "i < length src" and "is_space (src ! i)"
  then have "skip_space src i = skip_space src (Suc i)"
    by (simp add: skip_space_def Cons_nth_drop_Suc [symmetric])
  then show ?thesis by (simp add: lex_at_def)
qed

lemma reads_skip:
  assumes "reads (pre @ c # x) (length (pre @ [c])) ts j" and "is_space c" and "ts \<noteq> []"
  shows "reads (pre @ c # x) (length pre) ts j"
proof -
  obtain t us where "ts = t # us" using assms(3) by (cases ts) auto
  with assms(1,2) lex_skip [of "length pre" "pre @ c # x"] show ?thesis by simp
qed

subsection \<open>Written texts\<close>

text \<open>What may follow a text: it ends a number and a name and joins no operator.\<close>

definition ends :: "js_string \<Rightarrow> bool" where
  "ends post \<longleftrightarrow> post = [] \<or> hd post = 32 \<or> hd post = 41 \<or> hd post = 44"

definition writes :: "nat \<Rightarrow> nat \<Rightarrow> js_string \<Rightarrow> expression_node \<Rightarrow> bool" where
  "writes d k x n \<longleftrightarrow>
     (\<forall>pre post. ends post \<longrightarrow>
        (\<exists>ts n'. reads (pre @ x @ post) (length pre) ts (length pre + length x) \<and> ts \<noteq> [] \<and>
           length ts \<le> length x \<and> derives d k ts n' \<and> strip n' = n))"

definition writes_token :: "js_string \<Rightarrow> lexeme_kind \<Rightarrow> bool" where
  "writes_token x kd \<longleftrightarrow>
     (\<forall>pre post. ends post \<longrightarrow>
        lex_at (pre @ x @ post) (length pre) =
          Inr \<lparr>lx_kind = kd, lx_text = x, lx_start = length pre, lx_end = length pre + length x\<rparr>)"

lemma writesE:
  assumes "writes d k x n" and "ends post"
  obtains ts n' where "reads (pre @ x @ post) (length pre) ts (length pre + length x)" "ts \<noteq> []"
    "length ts \<le> length x" "derives d k ts n'" "strip n' = n"
  using assms unfolding writes_def by blast

lemma writes_deeper: "writes d k x n \<Longrightarrow> writes (Suc d) k x n"
  unfolding writes_def using derives_deeper_step(1) by blast

lemma writes_le: "writes d k x n \<Longrightarrow> j \<le> k \<Longrightarrow> writes d j x n"
  unfolding writes_def using derives_le by blast

lemma writes_tokenI:
  assumes "writes_token x kd" and "x \<noteq> []"
    and "\<And>s e. \<exists>n'. derives d k [\<lparr>lx_kind = kd, lx_text = x, lx_start = s, lx_end = e\<rparr>] n' \<and> strip n' = n"
  shows "writes d k x n"
  unfolding writes_def
proof (intro allI impI)
  fix pre post assume "ends post"
  with assms(1) have "lex_at (pre @ x @ post) (length pre) =
      Inr \<lparr>lx_kind = kd, lx_text = x, lx_start = length pre, lx_end = length pre + length x\<rparr>"
    by (simp add: writes_token_def)
  moreover obtain n' where "derives d k [\<lparr>lx_kind = kd, lx_text = x, lx_start = length pre, lx_end = length pre + length x\<rparr>] n'"
      "strip n' = n"
    using assms(3) by blast
  moreover have "length x \<ge> 1" using assms(2) by (cases x) auto
  ultimately show "\<exists>ts n'. reads (pre @ x @ post) (length pre) ts (length pre + length x) \<and> ts \<noteq> [] \<and>
      length ts \<le> length x \<and> derives d k ts n' \<and> strip n' = n"
    by (intro exI [of _ "[\<lparr>lx_kind = kd, lx_text = x, lx_start = length pre, lx_end = length pre + length x\<rparr>]"] exI [of _ n']) simp
qed


text \<open>The lexemes of the text \<open>x\<close> between \<open>pre\<close> and \<open>post\<close>.\<close>

definition segment :: "js_string \<Rightarrow> js_string \<Rightarrow> js_string \<Rightarrow> lexeme list \<Rightarrow> bool" where
  "segment pre x post ts \<longleftrightarrow> reads (pre @ x @ post) (length pre) ts (length pre + length x)"

lemma segment_append:
  "segment pre x (y @ post) ts \<Longrightarrow> segment (pre @ x) y post us \<Longrightarrow> segment pre (x @ y) post (ts @ us)"
  by (auto simp: segment_def reads_append add.assoc)

lemma segment_space: "segment (pre @ [32]) x post ts \<Longrightarrow> ts \<noteq> [] \<Longrightarrow> segment pre (32 # x) post ts"
  unfolding segment_def using reads_skip [of pre 32 "x @ post" ts] by (simp add: is_space_def)

lemma segment_token:
  "lex_at (pre @ x @ post) (length pre) = Inr t \<Longrightarrow> lx_end t = length pre + length x \<Longrightarrow> segment pre x post [t]"
  by (simp add: segment_def)

lemma writes_segment:
  "writes d k x n \<longleftrightarrow>
     (\<forall>pre post. ends post \<longrightarrow>
        (\<exists>ts n'. segment pre x post ts \<and> ts \<noteq> [] \<and> length ts \<le> length x \<and> derives d k ts n' \<and> strip n' = n))"
  by (simp add: writes_def segment_def)

lemma writes_segmentE:
  assumes "writes d k x n" and "ends post"
  obtains ts n' where "segment pre x post ts" "ts \<noteq> []" "length ts \<le> length x" "derives d k ts n'" "strip n' = n"
  using assms unfolding writes_segment by blast

subsection \<open>Single lexemes\<close>

lemma lex_here:
  assumes "rest \<noteq> []" and "\<not> is_space (hd rest)"
  shows "skip_space (pre @ rest) (length pre) = length pre"
  using assms by (cases rest) (simp_all add: skip_space_def)

lemma lex_name:
  assumes "name \<noteq> []" and "is_name_start (hd name)" and "list_all is_word name"
    and "post = [] \<or> \<not> is_word (hd post)"
  shows "lex_at (pre @ name @ post) (length pre) =
    Inr \<lparr>lx_kind = K_name, lx_text = name, lx_start = length pre, lx_end = length pre + length name\<rparr>"
proof -
  obtain c r where name: "name = c # r" using assms(1) by (cases name) auto
  have c: "\<not> is_digit c" "\<not> is_space c" "c \<noteq> 46" "c \<noteq> 34" "c \<noteq> 39"
    using assms(2) name by (auto simp: is_name_start_def is_letter_def is_digit_def is_space_def)
  have start: "skip_space (pre @ name @ post) (length pre) = length pre"
    using c name by (intro lex_here) simp_all
  have num: "match_number (name @ post) = []"
    using c name by (simp add: match_number_def match_mantissa_def)
  have tw: "takeWhile is_word (name @ post) = name"
    using assms(3,4) by (cases post) (auto simp: takeWhile_append list_all_iff)
  have "match_name (name @ post) = name"
    using assms(2) name tw by (simp add: match_name_def)
  with start num c name show ?thesis by (simp add: lex_at_def Let_def)
qed

lemma lex_symbol:
  assumes "match_operator (op @ post) = op" and "op \<noteq> []"
    and "hd op \<in> set (js ''&|=!<>+-*/%()?:,'')"
  shows "lex_at (pre @ op @ post) (length pre) =
    Inr \<lparr>lx_kind = K_symbol, lx_text = op, lx_start = length pre, lx_end = length pre + length op\<rparr>"
proof -
  obtain c r where op: "op = c # r" using assms(2) by (cases op) auto
  have c: "\<not> is_digit c" "\<not> is_space c" "c \<noteq> 46" "c \<noteq> 34" "c \<noteq> 39" "\<not> is_name_start c"
    using assms(3) op by (auto simp: js_def is_name_start_def is_letter_def is_digit_def is_space_def)
  have start: "skip_space (pre @ op @ post) (length pre) = length pre"
    using c op by (intro lex_here) simp_all
  have num: "match_number (op @ post) = []"
    using c op by (simp add: match_number_def match_mantissa_def)
  have "match_name (op @ post) = []" using c op by (simp add: match_name_def)
  with start num c op assms(1) show ?thesis by (simp add: lex_at_def Let_def)
qed

lemma symbol_segment:
  assumes "match_operator (op @ post) = op" and "op \<noteq> []" and "hd op \<in> set (js ''&|=!<>+-*/%()?:,'')"
  shows "segment pre op post
    [\<lparr>lx_kind = K_symbol, lx_text = op, lx_start = length pre, lx_end = length pre + length op\<rparr>]"
  using lex_symbol [OF assms] by (rule segment_token) simp

lemma bracket_segment:
  assumes "c = 40 \<or> c = 41 \<or> c = 44"
  shows "segment pre [c] post
    [\<lparr>lx_kind = K_symbol, lx_text = [c], lx_start = length pre, lx_end = length pre + 1\<rparr>]"
proof -
  have "match_operator ([c] @ post) = [c]"
    using assms by (cases post) (auto simp: js_def match_operator_def two_unit_operators_def one_unit_operators_def)
  with symbol_segment [of "[c]" post pre] assms show ?thesis by (auto simp: js_def)
qed

definition operator_symbols :: "js_string list" where
  "operator_symbols = map fst OPERATOR_TEXTS @ [js ''?'', js '':'']"

lemma operator_symbol_facts:
  "list_all (\<lambda>o1. match_operator (o1 @ 32 # post) = o1 \<and> o1 \<noteq> [] \<and> hd o1 \<in> set (js ''&|=!<>+-*/%()?:,'')) operator_symbols"
  by (simp add: operator_symbols_def OPERATOR_TEXTS_def js_def match_operator_def two_unit_operators_def one_unit_operators_def)

lemma operator_segment:
  assumes "operator_of o1 \<noteq> None \<or> o1 = js ''?'' \<or> o1 = js '':''"
  shows "segment pre o1 (32 # post)
    [\<lparr>lx_kind = K_symbol, lx_text = o1, lx_start = length pre, lx_end = length pre + length o1\<rparr>]"
proof -
  have "o1 \<in> set operator_symbols"
    using assms unfolding operator_symbols_def operator_of_def map_of_eq_None_iff by auto
  with operator_symbol_facts [of post] show ?thesis by (intro symbol_segment) (simp_all add: list_all_iff)
qed

subsection \<open>Numbers, strings and variables\<close>

text \<open>A number whose text is accepted: an integer text has to be a safe integer.\<close>

definition writable :: "js_num \<Rightarrow> bool" where
  "writable x \<longleftrightarrow> is_double x \<and> is_unsigned x \<and> (is_integer_text (string_of_number x) \<longrightarrow> is_safe_integer x)"

definition num_node :: "js_num \<Rightarrow> expression_node" where
  "num_node x = Literal (LNum x) (is_integer_text (string_of_number x)) 0 0"

definition str_node :: "js_string \<Rightarrow> expression_node" where
  "str_node s = Literal (LStr s) False 0 0"

definition ends_number :: "js_string \<Rightarrow> bool" where
  "ends_number post \<longleftrightarrow> post = [] \<or> \<not> is_digit (hd post) \<and> hd post \<noteq> 46 \<and> hd post \<noteq> 101 \<and> hd post \<noteq> 69"

lemma ends_simps [simp]: "ends []" "ends (32 # s)" "ends (41 # s)" "ends (44 # s)"
  by (simp_all add: ends_def)

lemma ends_ends_number: "ends post \<Longrightarrow> ends_number post"
  by (auto simp: ends_def ends_number_def is_digit_def)

lemma ends_not_word: "ends post \<Longrightarrow> post = [] \<or> \<not> is_word (hd post)"
  by (auto simp: ends_def is_word_def is_letter_def is_digit_def)

lemma takeWhile_digits_append:
  "ends_number post \<Longrightarrow> takeWhile is_digit (s @ post) = takeWhile is_digit s"
  "ends_number post \<Longrightarrow> dropWhile is_digit (s @ post) = dropWhile is_digit s @ post"
proof (induction s)
  case Nil
  { case 1 then show ?case by (cases post) (auto simp: ends_number_def)
  next
    case 2 then show ?case by (cases post) (auto simp: ends_number_def) }
qed simp_all

lemma match_exponent_append: "ends_number post \<Longrightarrow> match_exponent s = s \<Longrightarrow> match_exponent (s @ post) = s"
proof (cases s)
  case Nil
  assume "ends_number post"
  with Nil show ?thesis by (cases post) (auto simp: match_exponent_def ends_number_def Let_def)
next
  case (Cons e r)
  assume post: "ends_number post" and s: "match_exponent s = s"
  define sg where "sg = (if r \<noteq> [] \<and> (hd r = 43 \<or> hd r = 45) then [hd r] else [])"
  let ?ds = "takeWhile is_digit (drop (length sg) r)"
  have ds: "(e = 101 \<or> e = 69) \<and> ?ds \<noteq> []" "r = sg @ ?ds"
    using s Cons by (auto simp: match_exponent_def Let_def sg_def [symmetric] split: if_splits)
  have r: "r \<noteq> []" using ds by auto
  then have "(if r @ post \<noteq> [] \<and> (hd (r @ post) = 43 \<or> hd (r @ post) = 45) then [hd (r @ post)] else []) = sg"
    by (simp add: sg_def)
  moreover have "drop (length sg) (r @ post) = drop (length sg) r @ post" using r by (cases r) (auto simp: sg_def)
  ultimately show ?thesis
    using ds Cons takeWhile_digits_append(1) [OF post] by (simp add: match_exponent_def Let_def)
qed

lemma match_mantissa_append:
  assumes "ends_number post" and "match_mantissa s \<noteq> []"
  shows "match_mantissa (s @ post) = match_mantissa s"
proof (cases "dropWhile is_digit s = []")
  case True
  have "match_mantissa (s @ post) = takeWhile is_digit (s @ post)"
    using assms(1) True takeWhile_digits_append(2) [OF assms(1), of s]
    by (cases post) (simp_all add: match_mantissa_def Let_def ends_number_def)
  also have "\<dots> = takeWhile is_digit s" by (rule takeWhile_digits_append(1) [OF assms(1)])
  finally have "match_mantissa (s @ post) = takeWhile is_digit s" .
  moreover have "match_mantissa s = takeWhile is_digit s" using True by (simp add: match_mantissa_def Let_def)
  ultimately show ?thesis by simp
next
  case False
  then have "tl (dropWhile is_digit s @ post) = tl (dropWhile is_digit s) @ post" by (cases "dropWhile is_digit s") auto
  with False show ?thesis using assms by (simp add: match_mantissa_def Let_def takeWhile_digits_append)
qed

lemma match_number_append:
  assumes "ends_number post" and "match_number s = s" and "s \<noteq> []"
  shows "match_number (s @ post) = s"
proof -
  let ?m = "match_mantissa s"
  have m: "?m \<noteq> []" using assms(2,3) by (auto simp: match_number_def Let_def)
  then have s: "s = ?m @ match_exponent (drop (length ?m) s)" using assms(2) by (simp add: match_number_def Let_def)
  then have rest: "match_exponent (drop (length ?m) s) = drop (length ?m) s" by (metis append_eq_conv_conj)
  have "length ?m \<le> length s" using s by (metis le_add1 length_append)
  then have "drop (length ?m) (s @ post) = drop (length ?m) s @ post" by simp
  with match_mantissa_append [OF assms(1) m] match_exponent_append [OF assms(1) rest] m rest s
  show ?thesis by (simp add: match_number_def Let_def)
qed

lemma lex_written_number:
  assumes "writable x" and "ends_number post"
  shows "lex_at (pre @ string_of_number x @ post) (length pre) =
    Inr \<lparr>lx_kind = K_number x (is_integer_text (string_of_number x)), lx_text = string_of_number x,
         lx_start = length pre, lx_end = length pre + length (string_of_number x)\<rparr>"
proof -
  let ?s = "string_of_number x"
  have x: "is_double x" "is_unsigned x" using assms(1) by (auto simp: writable_def)
  have nt: "match_number ?s = ?s" "?s \<noteq> []"
    using string_of_number_decimal [OF x] decimal_value_match by (auto simp: is_number_text_def)
  then obtain c r where cr: "?s = c # r" by (cases ?s) auto
  then have "is_digit c \<or> c = 46" using nt match_number_head by metis
  then have "\<not> is_space c" by (auto simp: is_space_def is_digit_def)
  then have start: "skip_space (pre @ ?s @ post) (length pre) = length pre" using cr by (intro lex_here) simp_all
  have "number_of_string ?s = x" using number_of_string_of_number [OF x] .
  moreover have "is_finite x" using x(2) by (rule is_unsigned_finite)
  ultimately show ?thesis
    using start match_number_append [OF assms(2) nt] nt assms(1) by (simp add: lex_at_def lex_number_def writable_def Let_def)
qed

lemma writes_number: "writable x \<Longrightarrow> writes d 7 (string_of_number x) (num_node x)"
proof (rule writes_tokenI)
  assume x: "writable x"
  show "writes_token (string_of_number x) (K_number x (is_integer_text (string_of_number x)))"
    using lex_written_number [OF x] ends_ends_number by (simp add: writes_token_def)
  show "string_of_number x \<noteq> []"
    using string_of_number_decimal decimal_value_match x by (auto simp: is_number_text_def writable_def)
  fix s e
  show "\<exists>n'. derives d 7 [\<lparr>lx_kind = K_number x (is_integer_text (string_of_number x)), lx_text = string_of_number x,
      lx_start = s, lx_end = e\<rparr>] n' \<and> strip n' = num_node x"
    by (rule exI, rule conjI, rule number) (simp_all add: num_node_def)
qed

lemma writes_string: "code_units s \<Longrightarrow> writes d 7 (json_string s) (str_node s)"
proof (rule writes_tokenI)
  assume "code_units s"
  then show "writes_token (json_string s) (K_string s)" by (simp add: writes_token_def lex_json_string)
  show "json_string s \<noteq> []" by (simp add: json_string_def)
  fix i e
  show "\<exists>n'. derives d 7 [\<lparr>lx_kind = K_string s, lx_text = json_string s, lx_start = i, lx_end = e\<rparr>] n' \<and> strip n' = str_node s"
    by (rule exI, rule conjI, rule quoted) (simp_all add: str_node_def)
qed

lemma writes_variable:
  assumes "map_of TOKEN_VARIABLES name = Some v" and "name \<noteq> []" and "is_name_start (hd name)" and "list_all is_word name"
  shows "writes d 7 name (Variable v 0 0)"
proof (rule writes_tokenI)
  show "writes_token name K_name"
    using lex_name [OF assms(2,3,4)] ends_not_word by (simp add: writes_token_def)
  fix s e
  have "is_name \<lparr>lx_kind = K_name, lx_text = name, lx_start = s, lx_end = e\<rparr>"
    using assms(3) by (auto simp: is_name_def unary_operator_of_def js_def is_name_start_def is_letter_def)
  then show "\<exists>n'. derives d 7 [\<lparr>lx_kind = K_name, lx_text = name, lx_start = s, lx_end = e\<rparr>] n' \<and> strip n' = Variable v 0 0"
    using assms(1) variable [of "\<lparr>lx_kind = K_name, lx_text = name, lx_start = s, lx_end = e\<rparr>" v d] by fastforce
qed (rule assms(2))

subsection \<open>Operators, conditionals and calls\<close>

abbreviation symbol_at :: "js_string \<Rightarrow> nat \<Rightarrow> lexeme" where
  "symbol_at o1 i \<equiv> \<lparr>lx_kind = K_symbol, lx_text = o1, lx_start = i, lx_end = i + length o1\<rparr>"

lemma segment_infix:
  assumes x: "segment pre x (32 # o1 @ 32 # y @ post) ts" and y: "segment (pre @ x @ 32 # o1 @ [32]) y post us"
    and us: "us \<noteq> []" and o1: "operator_of o1 \<noteq> None \<or> o1 = js ''?'' \<or> o1 = js '':''"
  shows "segment pre (x @ 32 # o1 @ 32 # y) post (ts @ symbol_at o1 (length (pre @ x @ [32])) # us)"
proof -
  let ?t = "symbol_at o1 (length (pre @ x @ [32]))"
  have "segment (pre @ x @ [32]) o1 (32 # y @ post) [?t]" using o1 by (rule operator_segment)
  then have o: "segment (pre @ x) (32 # o1) (32 # y @ post) [?t]" by (intro segment_space) simp_all
  have "segment (pre @ x @ 32 # o1) (32 # y) post us" using y us by (intro segment_space) simp_all
  with o have oy: "segment (pre @ x) ((32 # o1) @ 32 # y) post ([?t] @ us)" by (intro segment_append) simp_all
  have "segment pre x (((32 # o1) @ 32 # y) @ post) ts" using x by simp
  from segment_append [OF this oy] show ?thesis by simp
qed

lemma writes_binary:
  assumes x: "writes (Suc d) (PRECEDENCE op) x l" and y: "writes d (Suc (PRECEDENCE op)) y r"
    and op: "operator_of o1 = Some op"
  shows "writes (Suc d) (PRECEDENCE op) (x @ 32 # o1 @ 32 # y) (Binary op l r 0 0)"
  unfolding writes_segment
proof (intro allI impI)
  fix pre post assume post: "ends post"
  obtain ts l' where l: "segment pre x (32 # o1 @ 32 # y @ post) ts" "length ts \<le> length x"
      "derives (Suc d) (PRECEDENCE op) ts l'" "strip l' = l"
    using writes_segmentE [OF x] by (metis ends_simps(2))
  obtain us r' where r: "segment (pre @ x @ 32 # o1 @ [32]) y post us" "us \<noteq> []" "length us \<le> length y"
      "derives d (Suc (PRECEDENCE op)) us r'" "strip r' = r"
    using writes_segmentE [OF y post] by metis
  let ?t = "symbol_at o1 (length (pre @ x @ [32]))"
  have "segment pre (x @ 32 # o1 @ 32 # y) post (ts @ ?t # us)" using l(1) r(1,2) op by (intro segment_infix) simp_all
  moreover have "derives (Suc d) (PRECEDENCE op) (ts @ ?t # us) (Binary op l' r' (node_start l') (node_end r'))"
    using l r op by (intro binary) simp_all
  moreover have "length (ts @ ?t # us) \<le> length (x @ 32 # o1 @ 32 # y)" using l(2) r(3) by simp
  ultimately show "\<exists>ts n'. segment pre (x @ 32 # o1 @ 32 # y) post ts \<and> ts \<noteq> [] \<and>
      length ts \<le> length (x @ 32 # o1 @ 32 # y) \<and> derives (Suc d) (PRECEDENCE op) ts n' \<and> strip n' = Binary op l r 0 0"
    using l(4) r(5) by (intro exI [of _ "ts @ ?t # us"] exI [of _ "Binary op l' r' (node_start l') (node_end r')"]) simp
qed

lemma writes_conditional:
  assumes x: "writes (Suc d) 1 x c" and y: "writes d 0 y a" and z: "writes d 0 z b"
  shows "writes (Suc d) 0 (x @ js '' ? '' @ y @ js '' : '' @ z) (Conditional c a b 0 0)"
  unfolding writes_segment
proof (intro allI impI)
  fix pre post assume post: "ends post"
  let ?q = "js ''?''" and ?k = "js '':''"
  let ?p2 = "pre @ x @ 32 # ?q @ [32]" and ?all = "x @ 32 # ?q @ 32 # y @ 32 # ?k @ 32 # z"
  have eq: "x @ js '' ? '' @ y @ js '' : '' @ z = ?all" by (simp add: js_def)
  obtain ts c' where c: "segment pre x (32 # ?q @ 32 # (y @ 32 # ?k @ 32 # z) @ post) ts" "length ts \<le> length x"
      "derives (Suc d) 1 ts c'" "strip c' = c"
    using writes_segmentE [OF x] by (metis ends_simps(2))
  obtain us a' where a: "segment ?p2 y (32 # ?k @ 32 # z @ post) us" "length us \<le> length y" "derives d 0 us a'" "strip a' = a"
    using writes_segmentE [OF y] by (metis ends_simps(2))
  obtain vs b' where b: "segment (?p2 @ y @ 32 # ?k @ [32]) z post vs" "vs \<noteq> []" "length vs \<le> length z" "derives d 0 vs b'"
      "strip b' = b"
    using writes_segmentE [OF z post] by metis
  let ?tk = "symbol_at ?k (length (?p2 @ y @ [32]))" and ?tq = "symbol_at ?q (length (pre @ x @ [32]))"
  have "segment ?p2 (y @ 32 # ?k @ 32 # z) post (us @ ?tk # vs)" by (rule segment_infix [OF a(1) b(1,2)]) simp
  then have seg: "segment pre ?all post (ts @ ?tq # us @ ?tk # vs)" by (intro segment_infix [OF c(1)]) simp_all
  have "derives (Suc d) 0 (ts @ ?tq # us @ ?tk # vs) (Conditional c' a' b' (node_start c') (node_end b'))"
    using a b c by (intro conditional) simp_all
  moreover have "length (ts @ ?tq # us @ ?tk # vs) \<le> length ?all" using a(2) b(3) c(2) by simp
  ultimately show "\<exists>ts n'. segment pre (x @ js '' ? '' @ y @ js '' : '' @ z) post ts \<and> ts \<noteq> [] \<and>
      length ts \<le> length (x @ js '' ? '' @ y @ js '' : '' @ z) \<and> derives (Suc d) 0 ts n' \<and> strip n' = Conditional c a b 0 0"
    using seg a(4) b(5) c(4) unfolding eq
    by (intro exI [of _ "ts @ ?tq # us @ ?tk # vs"] exI [of _ "Conditional c' a' b' (node_start c') (node_end b')"]) simp
qed

text \<open>The name of a function, an opening parenthesis, the arguments and the closing one.\<close>

definition writes_args :: "nat \<Rightarrow> js_string \<Rightarrow> expression_node list \<Rightarrow> bool" where
  "writes_args d x args \<longleftrightarrow>
     (\<forall>pre post. \<exists>ts args'. segment pre x (41 # post) ts \<and> length ts \<le> length x \<and> derives_args d ts args' \<and> map strip args' = args)"

lemma writes_one: "writes d 0 x a \<Longrightarrow> writes_args d x [a]"
  unfolding writes_args_def
proof (intro allI)
  fix pre post assume x: "writes d 0 x a"
  obtain ts n' where "segment pre x (41 # post) ts" "length ts \<le> length x" "derives d 0 ts n'" "strip n' = a"
    using writes_segmentE [OF x] by (metis ends_simps(3))
  then show "\<exists>ts args'. segment pre x (41 # post) ts \<and> length ts \<le> length x \<and> derives_args d ts args' \<and> map strip args' = [a]"
    by (intro exI [of _ ts] exI [of _ "[n']"]) (simp add: last_argument)
qed

lemma writes_more: "writes d 0 x a \<Longrightarrow> writes_args d y (b # bs) \<Longrightarrow> writes_args d (x @ js '', '' @ y) (a # b # bs)"
  unfolding writes_args_def
proof (intro allI)
  fix pre post
  assume x: "writes d 0 x a"
    and y: "\<forall>pre post. \<exists>ts args'. segment pre y (41 # post) ts \<and> length ts \<le> length y \<and> derives_args d ts args' \<and> map strip args' = b # bs"
  obtain ts n' where a: "segment pre x (44 # 32 # y @ 41 # post) ts" "length ts \<le> length x" "derives d 0 ts n'" "strip n' = a"
    using writes_segmentE [OF x] by (metis ends_simps(4))
  obtain us bs' where b: "segment (pre @ x @ [44, 32]) y (41 # post) us" "length us \<le> length y" "derives_args d us bs'"
      "map strip bs' = b # bs"
    using y by metis
  have "us \<noteq> []"
    using b(3,4) derives_begins(1) by (cases rule: derives_args.cases) fastforce+
  let ?t = "\<lparr>lx_kind = K_symbol, lx_text = [44], lx_start = length (pre @ x), lx_end = length (pre @ x) + 1\<rparr>"
  have "segment (pre @ x) [44] (32 # y @ 41 # post) [?t]" by (rule bracket_segment) simp
  moreover have "segment ((pre @ x) @ [44]) (32 # y) (41 # post) us" using b(1) \<open>us \<noteq> []\<close> by (intro segment_space) simp_all
  ultimately have cy: "segment (pre @ x) ([44] @ 32 # y) (41 # post) ([?t] @ us)" by (intro segment_append) simp_all
  have "segment pre x (([44] @ 32 # y) @ 41 # post) ts" using a(1) by simp
  from segment_append [OF this cy] have "segment pre (x @ js '', '' @ y) (41 # post) (ts @ ?t # us)" by (simp add: js_def)
  moreover have "derives_args d (ts @ ?t # us) (n' # bs')" using a b by (intro more_arguments) (simp_all add: js_def)
  ultimately show "\<exists>ts args'. segment pre (x @ js '', '' @ y) (41 # post) ts \<and> length ts \<le> length (x @ js '', '' @ y) \<and>
      derives_args d ts args' \<and> map strip args' = a # b # bs"
    using a b by (intro exI [of _ "ts @ ?t # us"] exI [of _ "n' # bs'"]) (simp add: js_def)
qed

lemma function_text_name:
  "function_text fn \<noteq> [] \<and> is_name_start (hd (function_text fn)) \<and> list_all is_word (function_text fn) \<and>
   unary_operator_of (function_text fn) = None \<and> function_text fn \<noteq> js ''(''"
proof -
  show ?thesis
  proof (cases fn)
    case (F_time f)
    then show ?thesis
      by (cases f) (simp_all add: js_def is_name_start_def is_word_def is_letter_def unary_operator_of_def)
  qed (simp_all add: js_def is_name_start_def is_word_def is_letter_def unary_operator_of_def)
qed

lemma writes_call:
  assumes args: "writes_args d x args" and fn: "function_named name = Some fn" and ar: "length args = arity fn"
  shows "writes (Suc d) 7 (name @ js ''('' @ x @ js '')'') (Call fn args 0 0)"
  unfolding writes_segment
proof (intro allI impI)
  fix pre post :: js_string assume post: "ends post"
  have name: "name \<noteq> []" "is_name_start (hd name)" "list_all is_word name" "unary_operator_of name = None" "name \<noteq> js ''(''"
    using function_text_name [of fn] function_named_text [OF fn] by simp_all
  let ?n = "\<lparr>lx_kind = K_name, lx_text = name, lx_start = length pre, lx_end = length pre + length name\<rparr>"
  let ?p = "\<lparr>lx_kind = K_symbol, lx_text = [40], lx_start = length (pre @ name), lx_end = length (pre @ name) + 1\<rparr>"
  let ?q = "pre @ name @ 40 # x"
  let ?u = "\<lparr>lx_kind = K_symbol, lx_text = [41], lx_start = length ?q, lx_end = length ?q + 1\<rparr>"
  obtain ts args' where a: "segment (pre @ name @ [40]) x (41 # post) ts" "length ts \<le> length x" "derives_args d ts args'"
      "map strip args' = args"
    using args unfolding writes_args_def by metis
  have "segment pre name ((40 # x @ [41]) @ post) [?n]"
    using lex_name [OF name(1-3), of "40 # x @ 41 # post" pre] by (intro segment_token) (auto simp: is_word_def is_letter_def is_digit_def)
  moreover have "segment (pre @ name) (40 # x @ [41]) post (?p # ts @ [?u])"
  proof -
    have "segment ?q [41] post [?u]" by (rule bracket_segment) simp
    then have "segment (pre @ name @ [40]) (x @ [41]) post (ts @ [?u])" using a(1) by (intro segment_append) simp_all
    moreover have "segment (pre @ name) [40] ((x @ [41]) @ post) [?p]" by (rule bracket_segment) simp
    ultimately show ?thesis using segment_append [of "pre @ name" "[40]" "x @ [41]" post "[?p]" "ts @ [?u]"] by simp
  qed
  ultimately have "segment pre (name @ 40 # x @ [41]) post ([?n] @ ?p # ts @ [?u])" by (rule segment_append)
  moreover have "derives (Suc d) 7 (?n # ?p # ts @ [?u]) (Call fn args' (lx_start ?n) (lx_end ?u))"
    using name(4,5) fn a(3,4) ar by (intro call) (auto simp: is_name_def js_def)
  ultimately show "\<exists>ts n'. segment pre (name @ js ''('' @ x @ js '')'') post ts \<and> ts \<noteq> [] \<and>
      length ts \<le> length (name @ js ''('' @ x @ js '')'') \<and> derives (Suc d) 7 ts n' \<and> strip n' = Call fn args 0 0"
    using a(2,4) name(1)
    by (intro exI [of _ "?n # ?p # ts @ [?u]"] exI [of _ "Call fn args' (lx_start ?n) (lx_end ?u)"])
      (cases name; simp add: js_def)
qed

subsection \<open>Parsing a written text\<close>

lemma writes_parses:
  assumes w: "writes 127 0 x n" and len: "length x < 10000" and v: "match_version x = None"
  obtains n' where "parse x = Some (Inr n')" "strip n' = n"
proof -
  obtain ts n' where ts: "segment [] x [] ts" "ts \<noteq> []" "length ts \<le> length x" "derives 127 0 ts n'" "strip n' = n"
    using writes_segmentE [OF w, of "[]" "[]"] by auto
  let ?e = "\<lparr>lx_kind = K_end, lx_text = [], lx_start = length x, lx_end = length x\<rparr>"
  have e: "lex_at x (length x) = Inr ?e"
    by (simp add: lex_at_def skip_space_def Let_def)
  have "reads x 0 ts (length x)" using ts(1) by (simp add: segment_def)
  from reads_chain [OF this e] obtain t where "lex_at x 0 = Inr t" "chain x t ts ?e" by blast
  then have "tokens x ts" unfolding tokens_def using v by (intro exI [of _ t] exI [of _ ?e]) (simp add: version_end_def)
  with ts len v have "parse x = Some (Inr n')"
    unfolding parse_iff_grammar by (auto simp: version_ok_def)
  from this ts(5) show ?thesis by (rule that)
qed


subsection \<open>What does not depend on spans\<close>

lemma children_strip: "children (strip n) = map strip (children n)"
  by (cases n) simp_all

lemma strip_Call: "strip n = Call f args s e \<longleftrightarrow> (\<exists>args' s' e'. n = Call f args' s' e' \<and> args = map strip args' \<and> s = 0 \<and> e = 0)"
  by (cases n) auto

lemma height_strip [simp]: "height (strip n) = height n"
proof (induction n rule: height.induct)
  case (1 n)
  then have "map (\<lambda>m. Suc (height m)) (map strip (children n)) = map (\<lambda>m. Suc (height m)) (children n)" by simp
  then show ?case by (simp only: height.simps [of "strip n"] height.simps [of n] children_strip)
qed

lemma postorder_strip: "postorder (strip n) = map strip (postorder n)"
proof (induction n rule: postorder.induct)
  case (1 n)
  then have "map postorder (map strip (children n)) = map (map strip) (map postorder (children n))" by simp
  then show ?case by (simp only: postorder.simps [of "strip n"] postorder.simps [of n] children_strip map_append map_concat list.map)
qed

lemma functions_of_strip [simp]: "functions_of (strip n) = functions_of n"
proof -
  have "(\<exists>args s e. Call f args s e \<in> strip ` S) \<longleftrightarrow> (\<exists>args s e. Call f args s e \<in> S)" for f S
    by (force simp: image_iff eq_commute [of "Call _ _ _ _" "strip _"] strip_Call)
  then show ?thesis by (simp add: functions_of_def postorder_strip)
qed

lemma marked_strip [simp]: "marked (strip n) \<longleftrightarrow> marked n"
  by (simp add: marked_def)

lemma typed_of_strip: "typed (strip n) t \<Longrightarrow> typed n t"
proof (induction n arbitrary: t rule: strip.induct)
  case (4 op a b s e)
  from "4.prems" show ?case by (auto elim!: typed_binaryE intro: typed.intros dest: "4.IH")
next
  case (5 c a b s e)
  from "5.prems" show ?case by (auto elim!: typed_condE intro!: typed.intros dest: "5.IH")
next
  case (6 f args s e)
  from "6.prems" obtain ts where ts: "list_all2 typed (map strip args) ts" "call_typed f ts t" by (auto elim: typed_callE)
  have "list_all2 typed args ts"
    using ts(1) "6.IH" by (auto simp: list_all2_conv_all_nth)
  with ts(2) show ?case by (rule t_call [rotated])
next
  case (3 op a s e)
  from "3.prems" show ?case by (auto elim!: typed_unaryE intro: typed.intros dest: "3.IH")
qed (auto intro: typed.intros)


lemma fixed_amount_strip: "is_fixed_amount (strip n) \<longleftrightarrow> is_fixed_amount n"
  by (cases n) (simp_all add: is_fixed_amount_def)

lemma pricing_tree_of_strip: "pricing_tree [] (strip n) \<Longrightarrow> pricing_tree rules n"
proof (induction n rule: strip.induct)
  case (5 c a b s e)
  then show ?case by (auto simp: pricing_tree_simps)
next
  case (6 f args s e)
  from "6.prems" obtain label price where f: "f = F_tier" and args: "map strip args = [label, price]" "\<not> marked label"
      "(\<exists>as s' e'. price = Call F_fixed as s' e' \<and> is_fixed_amount (as ! 0)) \<or> \<not> marked price"
    by (auto simp: pricing_tree_simps)
  then obtain l p where lp: "args = [l, p]" "label = strip l" "price = strip p" by auto
  show ?case
  proof (cases "marked p")
    case True
    with args lp obtain as s' e' where p: "p = Call F_fixed as s' e'" "is_fixed_amount (map strip as ! 0)"
      by (auto simp: strip_Call)
    then have "is_fixed_amount (as ! 0)" by (cases as) (simp_all add: fixed_amount_strip)
    with p f lp args(2) show ?thesis by (simp add: fixed_tier)
  next
    case False
    with f lp args(2) show ?thesis by (simp add: plain_tier)
  qed
qed (auto simp: pricing_tree_simps multiplier_rule_def)

lemma compile_written:
  assumes p: "parse src = Some (Inr n)" and h: "height (strip n) \<le> 256" and t: "typed (strip n) t"
    and f: "F_fixed \<notin> functions_of (strip n) \<or> pricing_tree [] (strip n)"
  shows "\<exists>c. compile_uncached src = Inr c \<and> comp_ast c = n"
proof -
  have wf: "wf_tree n" using parse_wf [OF p] by simp
  have h': "height n \<le> 256" using h by simp
  have "checkExpressionTypes n = Inr ()" using check_iff_typed [OF wf h'] typed_of_strip [OF t] by blast
  moreover have rules: "visitExpression n (rule_visitor src) [] = Inr (concat (map (rules_at src) (postorder n)))"
    using postorder_height h' by (subst visitExpression_postorder [OF h'], subst fold_rule_visitor) (auto intro: le_trans)
  moreover have "validateFixedPricingTree (concat (map (rules_at src) (postorder n))) n = Inr ()"
    if "F_fixed \<in> functions_of n"
  proof -
    have "height (rule_condition r) \<le> 256" if r: "r \<in> set (concat (map (rules_at src) (postorder n)))" for r
    proof -
      from r obtain m where m: "m \<in> set (postorder n)" "r \<in> set (rules_at src m)" by auto
      then have "rule_condition r \<in> set (children m)"
        by (auto simp: rules_at_def split: expression_node.splits literal_value.splits if_splits)
      with height_child postorder_height [OF m(1)] h' show ?thesis by (metis Suc_leD le_trans)
    qed
    moreover have "pricing_tree (concat (map (rules_at src) (postorder n))) n"
      using f that pricing_tree_of_strip by simp
    ultimately show ?thesis using validateFixedPricingTree_iff [OF _ wf h'] by blast
  qed
  ultimately show ?thesis
    using p h' by (auto simp: compile_uncached_def compile_steps_def parse_source_def expressionDependencies_eq)
qed

text \<open>The display readers look at the shape of a tree only.\<close>

lemma flattenBinary_strip: "flattenBinary (strip n) op = map strip (flattenBinary n op)"
  by (induction n op rule: flattenBinary.induct) simp_all

lemma nonnegativePriceLiteral_strip [simp]: "nonnegativePriceLiteral (strip n) = nonnegativePriceLiteral n"
proof (cases n)
  case (Unary op a s e)
  then show ?thesis by (cases op; cases a) (simp_all add: nonnegativePriceLiteral_def)
qed (simp_all add: nonnegativePriceLiteral_def)

lemma token_condition_strip [simp]: "token_condition_of (strip n) = token_condition_of n"
proof (cases n)
  case (Binary op a b s e)
  then show ?thesis by (cases a; cases b) (simp_all add: token_condition_of_def)
qed (simp_all add: token_condition_of_def)

lemma map_option_list_map: "map_option_list f (map g xs) = map_option_list (\<lambda>x. f (g x)) xs"
  by (induction xs) (simp_all cong: option.case_cong)

lemma tokenConditions_strip [simp]: "tokenConditions (strip n) = tokenConditions n"
  by (simp add: tokenConditions_def flattenBinary_strip map_option_list_map)

lemma add_price_term_strip [simp]: "add_price_term (strip n) acc = add_price_term n acc"
proof (cases n)
  case (Binary op a b s e)
  then show ?thesis by (cases op; cases a) (simp_all add: add_price_term_def cong: if_cong)
qed (simp_all add: add_price_term_def)

lemma read_prices_strip [simp]: "read_prices (strip n) = read_prices n"
  by (simp add: read_prices_def flattenBinary_strip fold_map comp_def add_price_term_strip [abs_def])

lemma strip_Literal: "strip n = Literal v i s e \<longleftrightarrow> (\<exists>s' e'. n = Literal v i s' e' \<and> s = 0 \<and> e = 0)"
  by (cases n) auto

lemma strip_tierE:
  assumes "strip n = Call F_tier [str_node l, body] 0 0"
  obtains a b s e body' where "n = Call F_tier [Literal (LStr l) False a b, body'] s e" "strip body' = body"
proof -
  obtain x y s e where n: "n = Call F_tier [x, y] s e" "strip x = str_node l" "strip y = body"
    using assms by (auto simp: strip_Call)
  moreover from n(2) obtain a b where "x = Literal (LStr l) False a b" by (auto simp: str_node_def strip_Literal)
  ultimately show ?thesis using that by blast
qed

lemma tokenTier_priced:
  assumes "strip n = Call F_tier [str_node l, body] 0 0" and "read_prices body = Some ps" and "ps \<noteq> []"
  shows "tokenTier n cs =
    Some \<lparr>tt_unit = UnitToken, tt_fixed = None, tt_label = l, tt_conditions = cs, tt_prices = ps\<rparr>"
proof -
  obtain a b s e body' where n: "n = Call F_tier [Literal (LStr l) False a b, body'] s e" "strip body' = body"
    using assms(1) by (rule strip_tierE)
  have ps: "read_prices body' = Some ps" using assms(2) n(2) read_prices_strip by metis
  have "read_prices (Call f args x y) = None" for f args x y by (simp add: read_prices_def add_price_term_def)
  with ps have "\<nexists>f args x y. body' = Call f args x y" by force
  with n(1) ps assms(3) show ?thesis by (cases body') (simp_all add: tokenTier_def)
qed

lemma tokenTier_fixed:
  assumes "strip n = Call F_tier [str_node l, Call F_fixed [num_node x] 0 0] 0 0"
  shows "tokenTier n cs =
    Some \<lparr>tt_unit = UnitRequest, tt_fixed = Some x, tt_label = l, tt_conditions = cs, tt_prices = []\<rparr>"
proof -
  obtain a b s e body' where n: "n = Call F_tier [Literal (LStr l) False a b, body'] s e"
      "strip body' = Call F_fixed [num_node x] 0 0"
    using assms by (rule strip_tierE)
  then obtain z s' e' where z: "body' = Call F_fixed [z] s' e'" "strip z = num_node x" by (auto simp: strip_Call)
  then obtain i a' b' where "z = Literal (LNum x) i a' b'" by (auto simp: num_node_def strip_Literal)
  with n(1) z(1) show ?thesis by (simp add: tokenTier_def)
qed

text \<open>A call of \<^verbatim>\<open>u\<close> on a field, the only call in the conditions and prices of tasks.\<close>

definition usage_call :: "expression_node \<Rightarrow> js_string option" where
  "usage_call n = (case n of Call F_u (Literal (LStr field) _ _ _ # _) _ _ \<Rightarrow> Some field | _ \<Rightarrow> None)"

lemma usage_call_strip [simp]: "usage_call (strip n) = usage_call n"
proof (cases n)
  case (Call f args s e)
  show ?thesis
  proof (cases args)
    case (Cons m ms)
    then show ?thesis using Call by (cases f; cases m) (simp_all add: usage_call_def)
  qed (use Call in \<open>simp add: usage_call_def\<close>)
qed (simp_all add: usage_call_def)

lemma task_condition_usage:
  "task_condition_of schema b n =
     (case n of Binary EqOp l (Literal val _ _ _) _ _ \<Rightarrow>
        Option.bind (usage_call l) (\<lambda>field. map_option (\<lambda>v. \<lparr>tk_field = field, tk_value = v\<rparr>)
          (task_condition_value schema b field val))
      | _ \<Rightarrow> None)"
  by (simp add: task_condition_of_def usage_call_def
      split: expression_node.split operator.split billing_function.split list.split literal_value.split)

lemma task_condition_strip [simp]: "task_condition_of schema b (strip n) = task_condition_of schema b n"
proof (cases n)
  case (Binary op l r s e)
  then show ?thesis by (cases op; cases r) (simp_all add: task_condition_usage)
qed (simp_all add: task_condition_usage)

lemma taskConditions_strip [simp]: "taskConditions (strip n) schema b = taskConditions n schema b"
  by (simp add: taskConditions_def flattenBinary_strip map_option_list_map)

lemma scaled_term_strip: "scaled_term (strip n) = map_option (map_prod id strip) (scaled_term n)"
proof (cases n)
  case (Binary op l r s e)
  then show ?thesis by (cases op; cases r) (simp_all add: scaled_term_def split: literal_value.split)
qed (simp_all add: scaled_term_def)

lemma add_usage_term_usage:
  "add_usage_term schema scaled n acc =
     (case n of Binary MulOp l right _ _ \<Rightarrow>
        Option.bind (usage_call l) (\<lambda>field. case nonnegativePriceLiteral right of
             None \<Rightarrow> None
           | Some price \<Rightarrow>
               if schema_type schema field \<noteq> Some UT_number \<or> schema_unit schema field = None \<or>
                  has_own (ts_unit_prices acc) field then None
               else if (schema_unit schema field = Some U_token) \<noteq> scaled then None
               else Some (acc\<lparr>ts_unit_prices := set_own field price (ts_unit_prices acc)\<rparr>))
      | _ \<Rightarrow> None)"
  by (simp add: add_usage_term_def usage_call_def
      split: expression_node.split operator.split billing_function.split list.split literal_value.split)

lemma add_usage_term_strip [simp]: "add_usage_term schema b (strip n) acc = add_usage_term schema b n acc"
proof (cases n)
  case (Binary op l r s e)
  then show ?thesis by (cases op) (simp_all add: add_usage_term_usage)
qed (simp_all add: add_usage_term_usage)

lemma add_task_term_strip [simp]: "add_task_term schema (strip n) acc = add_task_term schema n acc"
  by (cases acc; cases "scaled_term n")
    (auto simp: add_task_term_def scaled_term_strip split: option.split)

lemma taskTier_strip:
  assumes "strip n = Call F_tier [str_node l, body] 0 0"
  shows "taskTier n cs schema = taskTier (strip n) cs schema"
proof -
  obtain a b s e body' where n: "n = Call F_tier [Literal (LStr l) False a b, body'] s e" "strip body' = body"
    using assms by (rule strip_tierE)
  then show ?thesis
    by (simp add: taskTier_def n(2) [symmetric] flattenBinary_strip fold_map comp_def add_task_term_strip [abs_def])
qed

subsection \<open>Sums and conjunctions\<close>

text \<open>The tree of a left-associative row of operands, its text, height, type and operands.\<close>

definition joined :: "operator \<Rightarrow> expression_node list \<Rightarrow> expression_node" where
  "joined op ns = foldl (\<lambda>l r. Binary op l r 0 0) (hd ns) (tl ns)"

lemma joined_single [simp]: "joined op [n] = n"
  by (simp add: joined_def)

lemma joined_snoc [simp]: "ns \<noteq> [] \<Longrightarrow> joined op (ns @ [n]) = Binary op (joined op ns) n 0 0"
  by (cases ns) (simp_all add: joined_def)

lemma join_snoc: "xs \<noteq> [] \<Longrightarrow> join sep (xs @ [x]) = join sep xs @ sep @ x"
proof (induction xs rule: list_nonempty_induct)
  case (cons y ys)
  then show ?case by (cases ys) simp_all
qed simp

lemma writes_joined:
  assumes "operator_of o1 = Some op"
  shows "list_all2 (writes d (Suc (PRECEDENCE op))) xs ns \<Longrightarrow> xs \<noteq> [] \<Longrightarrow>
    writes (Suc d) (PRECEDENCE op) (join (32 # o1 @ [32]) xs) (joined op ns)"
proof (induction xs arbitrary: ns rule: rev_induct)
  case (snoc x xs)
  then obtain ms n where ns: "ns = ms @ [n]" "list_all2 (writes d (Suc (PRECEDENCE op))) xs ms" "writes d (Suc (PRECEDENCE op)) x n"
    by (auto simp: list_all2_append1 list_all2_Cons1)
  show ?case
  proof (cases "xs = []")
    case True
    with ns have "writes (Suc d) (PRECEDENCE op) x n" by (intro writes_le [OF writes_deeper]) auto
    with True ns show ?thesis by simp
  next
    case False
    then have "ms \<noteq> []" using ns(2) by auto
    with False ns snoc.IH [OF ns(2)] writes_binary [OF _ ns(3) assms] show ?thesis by (simp add: join_snoc)
  qed
qed simp

lemma flatten_joined:
  "list_all (\<lambda>n. flattenBinary n op = [n]) ns \<Longrightarrow> ns \<noteq> [] \<Longrightarrow> flattenBinary (joined op ns) op = ns"
proof (induction ns rule: rev_induct)
  case (snoc n ns)
  then show ?case by (cases "ns = []") simp_all
qed simp

lemma height_joined:
  "list_all (\<lambda>n. height n \<le> h) ns \<Longrightarrow> ns \<noteq> [] \<Longrightarrow> height (joined op ns) < h + length ns"
proof (induction ns rule: rev_induct)
  case (snoc n ns)
  then have "0 < length ns \<or> ns = []" by simp
  with snoc show ?case
    by (cases "ns = []") (auto simp: height.simps [of "Binary op _ n 0 0"] simp del: length_greater_0_conv)
qed simp

lemma typed_joined:
  assumes "\<And>a b ta tb. typed a ta \<Longrightarrow> typed b tb \<Longrightarrow> t \<le> ta \<Longrightarrow> t \<le> tb \<Longrightarrow> typed (Binary op a b 0 0) t"
  shows "list_all (\<lambda>n. \<exists>t'. typed n t' \<and> t \<le> t') ns \<Longrightarrow> ns \<noteq> [] \<Longrightarrow> \<exists>t'. typed (joined op ns) t' \<and> t \<le> t'"
proof (induction ns rule: rev_induct)
  case (snoc n ns)
  show ?case
  proof (cases "ns = []")
    case False
    with snoc assms [of "joined op ns" _ n] show ?thesis by (auto intro: order_refl)
  qed (use snoc in simp)
qed simp

lemma functions_of_simps:
  "functions_of (Binary op a b s e) = functions_of a \<union> functions_of b"
  "functions_of (Call f args s e) = insert f (\<Union>a\<in>set args. functions_of a)"
  by (auto simp: functions_of_def postorder.simps [of "Binary op a b s e"] postorder.simps [of "Call f args s e"])

lemma functions_joined: "ns \<noteq> [] \<Longrightarrow> functions_of (joined op ns) = (\<Union>n\<in>set ns. functions_of n)"
proof (induction ns rule: rev_induct)
  case (snoc n ns)
  then show ?case by (cases "ns = []") (auto simp: functions_of_simps)
qed simp

end
