(* ===== verification/Task_Pricing.thy ===== *)
theory Task_Pricing
  imports Pricing_Tiers
begin

section \<open>Task pricing (task-expr.ts)\<close>

text \<open>
  Prices of tasks by the facts of their usage: enumerated fields choose a tier, number
  fields are charged per unit. A configuration is a list of tiers, or a matrix with one
  row per combination of the enumerated values. \<^verbatim>\<open>localeCompare\<close> orders names by the
  collation of the host, which the argument \<open>collate\<close> stands for (its sign is the result).
\<close>

type_synonym collation = "js_string \<Rightarrow> js_string \<Rightarrow> int"

definition TASK_TOKEN_PRICE_SCALE :: js_num where
  "TASK_TOKEN_PRICE_SCALE = Fin 1000000"

record task_visual_config =
  tvc_tiers :: "task_tier list"

record task_matrix_row =
  mr_combination :: "(js_string, js_string) entries"
  mr_constant :: js_num
  mr_unitPrices :: "(js_string, js_num) entries"

record task_matrix_config =
  mc_rows :: "task_matrix_row list"

datatype preview_part = ConstantPart js_num | UsagePart js_string js_num js_num js_num

record task_preview =
  pv_tier :: task_tier
  pv_total :: js_num
  pv_parts :: "preview_part list"

subsection \<open>Fields of a schema\<close>

text \<open>The stable sort by the collation of the names.\<close>

fun insert_by :: "collation \<Rightarrow> js_string \<times> 'v \<Rightarrow> (js_string, 'v) entries \<Rightarrow> (js_string, 'v) entries" where
  "insert_by collate e [] = [e]"
| "insert_by collate e (x # xs) =
     (if collate (fst e) (fst x) \<le> 0 then e # x # xs else x # insert_by collate e xs)"

fun sort_by_name :: "collation \<Rightarrow> (js_string, 'v) entries \<Rightarrow> (js_string, 'v) entries" where
  "sort_by_name collate [] = []"
| "sort_by_name collate (e # es) = insert_by collate e (sort_by_name collate es)"

definition getTaskNumberFields :: "collation \<Rightarrow> usage_schema option \<Rightarrow> (js_string, usage_field) entries" where
  "getTaskNumberFields collate schema =
     (case schema of
        None \<Rightarrow> []
      | Some s \<Rightarrow> sort_by_name collate (filter (\<lambda>(_, f). uf_type f = Some UT_number \<and> uf_unit f \<noteq> None) s))"

definition getTaskEnumFields :: "collation \<Rightarrow> usage_schema option \<Rightarrow> (js_string, usage_field) entries" where
  "getTaskEnumFields collate schema =
     (case schema of
        None \<Rightarrow> []
      | Some s \<Rightarrow>
          sort_by_name collate (filter (\<lambda>(_, f). case uf_enum f of Some (_ # _) \<Rightarrow> True | _ \<Rightarrow> False) s))"

definition enum_values :: "usage_field \<Rightarrow> js_string list" where
  "enum_values f = (case uf_enum f of Some vs \<Rightarrow> vs | None \<Rightarrow> [])"

definition extend_combinations ::
  "js_string \<times> usage_field \<Rightarrow> (js_string, js_string) entries list \<Rightarrow> (js_string, js_string) entries list" where
  "extend_combinations entry combinations =
     concat (map (\<lambda>combination. map (\<lambda>val. set_own (fst entry) val combination) (enum_values (snd entry))) combinations)"

definition getTaskEnumCombinations :: "collation \<Rightarrow> usage_schema option \<Rightarrow> (js_string, js_string) entries list" where
  "getTaskEnumCombinations collate schema = fold extend_combinations (getTaskEnumFields collate schema) [[]]"

definition zero_prices :: "collation \<Rightarrow> usage_schema \<Rightarrow> (js_string, js_num) entries" where
  "zero_prices collate schema = map (\<lambda>(field, _). (field, Fin 0)) (getTaskNumberFields collate (Some schema))"

definition createDefaultTaskVisualConfig :: "collation \<Rightarrow> usage_schema \<Rightarrow> task_visual_config" where
  "createDefaultTaskVisualConfig collate schema =
     \<lparr>tvc_tiers = [\<lparr>tk_label = js ''base'', tk_conditions = [], tk_constant = Fin 0,
                    tk_unit_prices = zero_prices collate schema\<rparr>]\<rparr>"

definition createDefaultTaskMatrixConfig :: "collation \<Rightarrow> usage_schema \<Rightarrow> task_matrix_config" where
  "createDefaultTaskMatrixConfig collate schema =
     \<lparr>mc_rows = map (\<lambda>combination. \<lparr>mr_combination = combination, mr_constant = Fin 0,
        mr_unitPrices = zero_prices collate schema\<rparr>) (getTaskEnumCombinations collate (Some schema))\<rparr>"

subsection \<open>Matrix and tiers\<close>

definition taskMatrixRowLabel :: "collation \<Rightarrow> (js_string, js_string) entries \<Rightarrow> js_string" where
  "taskMatrixRowLabel collate combination =
     (let vals = map snd (sort_by_name collate combination) in
      if vals \<noteq> [] then join [183] vals else js ''base'')"

definition json_option :: "js_string option \<Rightarrow> js_string" where
  "json_option v = (case v of Some s \<Rightarrow> json_string s | None \<Rightarrow> js ''null'')"

definition taskMatrixCombinationKey ::
  "(js_string, js_string) entries \<Rightarrow> (js_string, usage_field) entries \<Rightarrow> js_string" where
  "taskMatrixCombinationKey combination enumFields =
     js ''['' @ join (js '','') (map (\<lambda>(field, _). json_option (map_of combination field)) enumFields) @ js '']''"

text \<open>\<^verbatim>\<open>===\<close> of two properties that may be missing, and \<^verbatim>\<open>?? 0\<close>.\<close>

fun same_price :: "js_num option \<Rightarrow> js_num option \<Rightarrow> bool" where
  "same_price None None = True"
| "same_price (Some x) (Some y) = num_eq x y"
| "same_price _ _ = False"

definition or_zero :: "js_num option \<Rightarrow> js_num" where
  "or_zero x = (case x of Some v \<Rightarrow> v | None \<Rightarrow> Fin 0)"

definition field_prices ::
  "(js_string, usage_field) entries \<Rightarrow> (js_string, js_num) entries \<Rightarrow> (js_string, js_num) entries" where
  "field_prices numberFields prices = map (\<lambda>(field, _). (field, or_zero (map_of prices field))) numberFields"

definition rows_uniform :: "(js_string, usage_field) entries \<Rightarrow> task_matrix_row list \<Rightarrow> task_matrix_row \<Rightarrow> bool" where
  "rows_uniform numberFields rows first =
     list_all (\<lambda>row. num_eq (mr_constant row) (mr_constant first) \<and>
       list_all (\<lambda>(field, _). same_price (map_of (mr_unitPrices row) field) (map_of (mr_unitPrices first) field))
         numberFields) rows"

definition row_tier ::
  "collation \<Rightarrow> (js_string, usage_field) entries \<Rightarrow> nat \<Rightarrow> nat \<Rightarrow> task_matrix_row \<Rightarrow> task_tier" where
  "row_tier collate numberFields count index row =
     \<lparr>tk_label = taskMatrixRowLabel collate (mr_combination row),
      tk_conditions = (if index = count - 1 then []
        else map (\<lambda>(field, val). \<lparr>tk_field = field, tk_value = val\<rparr>) (sort_by_name collate (mr_combination row))),
      tk_constant = mr_constant row, tk_unit_prices = field_prices numberFields (mr_unitPrices row)\<rparr>"

definition taskMatrixToTiers :: "collation \<Rightarrow> task_matrix_config \<Rightarrow> usage_schema \<Rightarrow> task_tier list" where
  "taskMatrixToTiers collate config schema =
     (let numberFields = getTaskNumberFields collate (Some schema) in
      case mc_rows config of
        [] \<Rightarrow> []
      | first # _ \<Rightarrow>
          if numberFields = [] then []
          else if rows_uniform numberFields (mc_rows config) first
          then [\<lparr>tk_label = js ''base'', tk_conditions = [], tk_constant = mr_constant first,
                 tk_unit_prices = field_prices numberFields (mr_unitPrices first)\<rparr>]
          else map (\<lambda>(index, row). row_tier collate numberFields (length (mc_rows config)) index row)
                 (enumerate 0 (mc_rows config)))"

subsection \<open>Reading a matrix\<close>

definition read_condition ::
  "usage_schema \<Rightarrow> task_condition \<Rightarrow> (js_string, js_string) entries option \<Rightarrow> (js_string, js_string) entries option" where
  "read_condition schema condition acc =
     Option.bind acc (\<lambda>valuesByField.
       if has_own valuesByField (tk_field condition) \<or>
          (case schema_enum schema (tk_field condition) of
             None \<Rightarrow> True | Some vs \<Rightarrow> tk_value condition \<notin> set vs)
       then None
       else Some (set_own (tk_field condition) (tk_value condition) valuesByField))"

text \<open>The combination that the conditions of a tier spell out, if they name every field once.\<close>

definition tier_combination ::
  "usage_schema \<Rightarrow> (js_string, usage_field) entries \<Rightarrow> task_tier \<Rightarrow> (js_string, js_string) entries option" where
  "tier_combination schema enumFields tier =
     (if length (tk_conditions tier) \<noteq> length enumFields then None
      else
        (case fold (read_condition schema) (tk_conditions tier) (Some []) of
           None \<Rightarrow> None
         | Some valuesByField \<Rightarrow>
             if length valuesByField \<noteq> length enumFields then None
             else Some (map (\<lambda>(field, _). (field, case map_of valuesByField field of Some v \<Rightarrow> v | None \<Rightarrow> [])) enumFields)))"

definition add_tier ::
  "usage_schema \<Rightarrow> (js_string, usage_field) entries \<Rightarrow> task_tier \<Rightarrow> (js_string, task_tier) entries option \<Rightarrow>
   (js_string, task_tier) entries option" where
  "add_tier schema enumFields tier acc =
     Option.bind acc (\<lambda>tiersByCombination.
     Option.bind (tier_combination schema enumFields tier) (\<lambda>combination.
       let key = taskMatrixCombinationKey combination enumFields in
       if has_own tiersByCombination key then None else Some (set_own key tier tiersByCombination)))"

definition matrix_row :: "(js_string, usage_field) entries \<Rightarrow> (js_string, js_string) entries \<Rightarrow> task_tier \<Rightarrow> task_matrix_row" where
  "matrix_row numberFields combination tier =
     \<lparr>mr_combination = combination, mr_constant = tk_constant tier,
      mr_unitPrices = field_prices numberFields (tk_unit_prices tier)\<rparr>"

definition matrix_of_tiers :: "collation \<Rightarrow> usage_schema \<Rightarrow> task_tier list \<Rightarrow> task_matrix_config option" where
  "matrix_of_tiers collate schema tiers =
     (let enumFields = getTaskEnumFields collate (Some schema);
          numberFields = getTaskNumberFields collate (Some schema);
          combinations = getTaskEnumCombinations collate (Some schema) in
      if tiers = [] then None
      else if length tiers = 1 \<and> tk_conditions (hd tiers) = []
      then Some \<lparr>mc_rows = map (\<lambda>combination. matrix_row numberFields combination (hd tiers)) combinations\<rparr>
      else if length tiers \<noteq> length combinations \<or> tk_conditions (last tiers) \<noteq> [] then None
      else
        (case fold (add_tier schema enumFields) (butlast tiers) (Some []) of
           None \<Rightarrow> None
         | Some byKey \<Rightarrow>
             (case filter (\<lambda>combination. \<not> has_own byKey (taskMatrixCombinationKey combination enumFields)) combinations of
                [missing] \<Rightarrow>
                  (let byKey' = set_own (taskMatrixCombinationKey missing enumFields) (last tiers) byKey in
                   map_option (\<lambda>rows. \<lparr>mc_rows = rows\<rparr>)
                     (map_option_list (\<lambda>combination.
                        map_option (matrix_row numberFields combination)
                          (map_of byKey' (taskMatrixCombinationKey combination enumFields))) combinations))
              | _ \<Rightarrow> None)))"

definition tryParseTaskMatrixConfig ::
  "collation \<Rightarrow> js_string option \<Rightarrow> usage_schema \<Rightarrow> compile_cache \<Rightarrow>
   (js_exception + task_matrix_config option) \<times> compile_cache" where
  "tryParseTaskMatrixConfig collate expr schema cache =
     (case expr of
        None \<Rightarrow> (Inr None, cache)
      | Some s \<Rightarrow>
          if s = [] then (Inr None, cache)
          else
            (case parseTaskTiersFromExpr s (Some schema) False cache of (tiers, cache1) \<Rightarrow>
               (map_sum id (matrix_of_tiers collate schema) tiers, cache1)))"

subsection \<open>Normalising and generating\<close>

definition nonnegative_or_zero :: "js_num \<Rightarrow> js_num" where
  "nonnegative_or_zero x = (if is_finite x \<and> num_le (Fin 0) x then x else Fin 0)"

definition normalize_tier ::
  "(js_string, usage_field) entries \<Rightarrow> (js_string, usage_field) entries \<Rightarrow> nat \<Rightarrow> task_tier \<Rightarrow> task_tier" where
  "normalize_tier numberFields enumFields index tier =
     \<lparr>tk_label = (if tk_label tier \<noteq> [] then tk_label tier
        else if index = 0 then js ''base'' else js ''tier_'' @ digits_of (index + 1)),
      tk_conditions = filter (\<lambda>c. case map_of enumFields (tk_field c) of
          Some f \<Rightarrow> tk_value c \<in> set (enum_values f) | None \<Rightarrow> False) (tk_conditions tier),
      tk_constant = nonnegative_or_zero (tk_constant tier),
      tk_unit_prices = map (\<lambda>(field, _). (field,
          nonnegative_or_zero (case map_of (tk_unit_prices tier) field of Some x \<Rightarrow> x | None \<Rightarrow> NaN))) numberFields\<rparr>"

definition normalizeTaskVisualConfig ::
  "collation \<Rightarrow> task_visual_config option \<Rightarrow> usage_schema \<Rightarrow> task_visual_config" where
  "normalizeTaskVisualConfig collate config schema =
     (case config of
        None \<Rightarrow> createDefaultTaskVisualConfig collate schema
      | Some c \<Rightarrow>
          if tvc_tiers c = [] then createDefaultTaskVisualConfig collate schema
          else \<lparr>tvc_tiers = map (\<lambda>(index, tier).
            normalize_tier (getTaskNumberFields collate (Some schema)) (getTaskEnumFields collate (Some schema)) index tier)
            (enumerate 0 (tvc_tiers c))\<rparr>)"

definition usage_term :: "js_string \<Rightarrow> js_num \<Rightarrow> bool \<Rightarrow> js_string" where
  "usage_term field price scaled =
     js ''u('' @ json_string field @ js '') * '' @ string_of_number price @
     (if scaled then js '' / 1000000'' else [])"

definition generateTaskTierBody :: "task_tier \<Rightarrow> (js_string, usage_field) entries \<Rightarrow> js_string" where
  "generateTaskTierBody tier numberFields =
     join (js '' + '')
       ((if num_lt (Fin 0) (tk_constant tier) then [string_of_number (tk_constant tier)] else []) @
        map (\<lambda>(field, f). usage_term field (or_zero (map_of (tk_unit_prices tier) field)) (uf_unit f = Some U_token))
          numberFields)"

definition generateTaskTierCall :: "task_tier \<Rightarrow> (js_string, usage_field) entries \<Rightarrow> js_string" where
  "generateTaskTierCall tier numberFields =
     js ''tier('' @ json_string (tk_label tier) @ js '', '' @ generateTaskTierBody tier numberFields @ js '')''"

definition generateTaskCondition :: "task_condition list \<Rightarrow> js_string" where
  "generateTaskCondition conditions =
     join (js '' && '')
       (map (\<lambda>c. js ''u('' @ json_string (tk_field c) @ js '') == '' @ json_string (tk_value c)) conditions)"

definition tier_parts :: "(js_string, usage_field) entries \<Rightarrow> task_tier list \<Rightarrow> js_string list option" where
  "tier_parts numberFields tiers =
     map_option_list (\<lambda>(index, tier).
       if index = length tiers - 1 then Some (generateTaskTierCall tier numberFields)
       else if generateTaskCondition (tk_conditions tier) = [] then None
       else Some (generateTaskCondition (tk_conditions tier) @ js '' ? '' @ generateTaskTierCall tier numberFields))
     (enumerate 0 tiers)"

definition generateTaskExprFromConfig :: "collation \<Rightarrow> task_visual_config option \<Rightarrow> usage_schema \<Rightarrow> js_string" where
  "generateTaskExprFromConfig collate config schema =
     (let numberFields = getTaskNumberFields collate (Some schema) in
      if numberFields = [] then []
      else
        (let tiers = tvc_tiers (normalizeTaskVisualConfig collate config schema) in
         if length tiers = 1 then generateTaskTierCall (hd tiers) numberFields
         else (case tier_parts numberFields tiers of None \<Rightarrow> [] | Some parts \<Rightarrow> join (js '' : '') parts)))"

definition tryParseTaskVisualConfig ::
  "collation \<Rightarrow> js_string option \<Rightarrow> usage_schema \<Rightarrow> compile_cache \<Rightarrow>
   (js_exception + task_visual_config option) \<times> compile_cache" where
  "tryParseTaskVisualConfig collate expr schema cache =
     (case expr of
        None \<Rightarrow> (Inr None, cache)
      | Some s \<Rightarrow>
          if s = [] then (Inr None, cache)
          else
            (case parseTaskTiersFromExpr s (Some schema) False cache of (tiers, cache1) \<Rightarrow>
               (map_sum id (\<lambda>ts. if ts = [] then None
                  else Some (normalizeTaskVisualConfig collate (Some \<lparr>tvc_tiers = ts\<rparr>) schema)) tiers, cache1)))"

subsection \<open>Evaluating a configuration\<close>

type_synonym usage_sample = "(js_string, js_string + js_num) entries"

definition condition_matches :: "usage_sample \<Rightarrow> task_condition \<Rightarrow> bool" where
  "condition_matches sample c \<longleftrightarrow> map_of sample (tk_field c) = Some (Inl (tk_value c))"

definition matched_tier :: "task_tier list \<Rightarrow> usage_sample \<Rightarrow> task_tier" where
  "matched_tier tiers sample =
     (case List.find (\<lambda>t. list_all (condition_matches sample) (tk_conditions t)) (butlast tiers) of
        Some t \<Rightarrow> t | None \<Rightarrow> last tiers)"

definition sample_number :: "usage_sample \<Rightarrow> js_string \<Rightarrow> js_num" where
  "sample_number sample field =
     (case map_of sample field of None \<Rightarrow> NaN | Some (Inl s) \<Rightarrow> number_of_string s | Some (Inr x) \<Rightarrow> x)"

definition is_token_field :: "usage_schema option \<Rightarrow> js_string \<Rightarrow> bool" where
  "is_token_field schema field \<longleftrightarrow> Option.bind schema (\<lambda>s. schema_unit s field) = Some U_token"

definition usage_part ::
  "usage_schema option \<Rightarrow> usage_sample \<Rightarrow> js_string \<times> js_num \<Rightarrow> preview_part list option \<Rightarrow> preview_part list option" where
  "usage_part schema sample entry acc =
     Option.bind acc (\<lambda>parts.
       case entry of (field, unitPrice) \<Rightarrow>
         if \<not> is_finite unitPrice \<or> num_lt unitPrice (Fin 0) then None
         else if num_eq unitPrice (Fin 0) then Some parts
         else
           (let quantity = sample_number sample field in
            if \<not> is_finite quantity \<or> num_lt quantity (Fin 0) then None
            else
              (let amount = (if is_token_field schema field
                 then num_div (num_mul quantity unitPrice) TASK_TOKEN_PRICE_SCALE else num_mul quantity unitPrice) in
               if \<not> is_finite amount then None
               else Some (parts @ [UsagePart field amount quantity unitPrice]))))"

fun part_term :: "usage_schema option \<Rightarrow> preview_part \<Rightarrow> js_string list" where
  "part_term schema (ConstantPart amount) = []"
| "part_term schema (UsagePart field amount quantity unitPrice) =
     (if field = [] then [] else [usage_term field unitPrice (is_token_field schema field)])"

fun part_usage :: "preview_part \<Rightarrow> (js_string, js_value) entries \<Rightarrow> (js_string, js_value) entries" where
  "part_usage (ConstantPart amount) usage = usage"
| "part_usage (UsagePart field amount quantity unitPrice) usage =
     (if field = [] then usage else set_own field (VNum quantity) usage)"

definition sample_usage :: "usage_sample \<Rightarrow> (js_string, js_value) entries" where
  "sample_usage sample = map (\<lambda>(k, v). (k, case v of Inl s \<Rightarrow> VStr s | Inr x \<Rightarrow> VNum x)) sample"

definition task_parts :: "usage_schema option \<Rightarrow> usage_sample \<Rightarrow> task_tier \<Rightarrow> preview_part list option" where
  "task_parts schema sample tier =
     (if \<not> is_finite (tk_constant tier) \<or> num_lt (tk_constant tier) (Fin 0) then None
      else fold (usage_part schema sample) (tk_unit_prices tier)
        (Some (if num_lt (Fin 0) (tk_constant tier) then [ConstantPart (tk_constant tier)] else [])))"

definition evaluateTaskVisualConfig ::
  "js_host \<Rightarrow> task_visual_config \<Rightarrow> usage_sample \<Rightarrow> usage_schema option \<Rightarrow> compile_cache \<Rightarrow>
   task_preview option \<times> compile_cache" where
  "evaluateTaskVisualConfig host config sample schema cache =
     (if tvc_tiers config = [] then (None, cache)
      else
        (let tier = matched_tier (tvc_tiers config) sample in
         case task_parts schema sample tier of
           None \<Rightarrow> (None, cache)
         | Some parts \<Rightarrow>
             (let terms = string_of_number (tk_constant tier) # concat (map (part_term schema) parts);
                  usage = fold part_usage parts (sample_usage sample);
                  source = js ''tier('' @ json_string (tk_label tier) @ js '', '' @ join (js '' + '') terms @ js '')'' in
              case evaluateBillingExpression host (Inl source)
                     \<lparr>ctx_tokens = None, ctx_request = None, ctx_usage = Some usage, ctx_now = None\<rparr> cache of
                (Inl failure, cache1) \<Rightarrow> (None, cache1)
              | (Inr result, cache1) \<Rightarrow>
                  (Some \<lparr>pv_tier = tier, pv_total = cost result, pv_parts = parts\<rparr>, cache1))))"

record usage_example =
  ue_label :: js_string
  ue_facts :: usage_sample

fun evaluate_examples ::
  "js_host \<Rightarrow> task_visual_config \<Rightarrow> usage_schema \<Rightarrow> usage_example list \<Rightarrow> compile_cache \<Rightarrow>
   (js_string \<times> js_num) list \<times> compile_cache" where
  "evaluate_examples host config schema [] cache = ([], cache)"
| "evaluate_examples host config schema (ex # exs) cache =
     (case evaluateTaskVisualConfig host config (ue_facts ex) (Some schema) cache of (result, cache1) \<Rightarrow>
      case evaluate_examples host config schema exs cache1 of (rows, cache2) \<Rightarrow>
        ((case result of None \<Rightarrow> rows | Some r \<Rightarrow> (ue_label ex, pv_total r) # rows), cache2))"

definition evaluateTaskUsageExamples ::
  "js_host \<Rightarrow> collation \<Rightarrow> js_string option \<Rightarrow> usage_schema option \<Rightarrow> usage_example list option \<Rightarrow> compile_cache \<Rightarrow>
   (js_exception + (js_string \<times> js_num) list) \<times> compile_cache" where
  "evaluateTaskUsageExamples host collate expr schema examples cache =
     (case (expr, schema, examples) of
        (Some e, Some sch, Some (ex # exs)) \<Rightarrow>
          if e = [] then (Inr [], cache)
          else
            (case splitBillingExprAndRequestRules e of
               Inl x \<Rightarrow> (Inl x, cache)
             | Inr parts \<Rightarrow>
                 (case tryParseTaskVisualConfig collate (Some (billingExpr parts)) sch cache of
                    (Inl x, cache1) \<Rightarrow> (Inl x, cache1)
                  | (Inr None, cache1) \<Rightarrow> (Inr [], cache1)
                  | (Inr (Some config), cache1) \<Rightarrow>
                      (case evaluate_examples host config sch (ex # exs) cache1 of (rows, cache2) \<Rightarrow> (Inr rows, cache2))))
      | _ \<Rightarrow> (Inr [], cache))"

end
