(* ===== verification/Task_Correct.thy ===== *)
theory Task_Correct
  imports Task_Pricing Parser_Correct
begin

section \<open>Matrices and tiers of task prices\<close>

text \<open>
  What the matrix of task prices promises: its combinations are the product of the
  enumerated values, the tiers written for a matrix charge every usage by its own row, and
  reading these tiers back gives the matrix again. The order in which the host collates
  names is arbitrary throughout.
\<close>

subsection \<open>Sorting by name\<close>

lemma set_insert_by [simp]: "set (insert_by collate e es) = insert e (set es)"
  by (induction es) auto

lemma set_sort_by_name [simp]: "set (sort_by_name collate es) = set es"
  by (induction es) simp_all

lemma length_insert_by [simp]: "length (insert_by collate e es) = Suc (length es)"
  by (induction es) simp_all

lemma length_sort_by_name [simp]: "length (sort_by_name collate es) = length es"
  by (induction es) simp_all

lemma distinct_insert_by:
  "distinct (map fst (insert_by collate e es)) \<longleftrightarrow> fst e \<notin> fst ` set es \<and> distinct (map fst es)"
  by (induction es) auto

lemma distinct_sort_by_name [simp]: "distinct (map fst (sort_by_name collate es)) \<longleftrightarrow> distinct (map fst es)"
  by (induction es) (simp_all add: distinct_insert_by)

lemma map_of_sort_by_name:
  "distinct (map fst es) \<Longrightarrow> map_of (sort_by_name collate es) = map_of es"
  by (rule map_of_eqI) (auto simp: image_iff)

lemma distinct_enum_fields:
  "distinct (map fst schema) \<Longrightarrow> distinct (map fst (getTaskEnumFields collate (Some schema)))"
  by (simp add: getTaskEnumFields_def distinct_map_filter)

lemma distinct_number_fields:
  "distinct (map fst schema) \<Longrightarrow> distinct (map fst (getTaskNumberFields collate (Some schema)))"
  by (simp add: getTaskNumberFields_def distinct_map_filter)

subsection \<open>The combinations are the product\<close>

lemma set_own_fresh: "k \<notin> fst ` set es \<Longrightarrow> set_own k v es = es @ [(k, v)]"
  by (induction es) auto

lemma concat_map_Cons_zip:
  "concat (map f (map (\<lambda>v. c @ [(k, v)]) vals)) = concat (map (\<lambda>v. f (c @ [(k, v)])) vals)"
  by (simp add: o_def)

lemma fold_extend_combinations:
  assumes "distinct (map fst fs)" "\<forall>c\<in>set cs. fst ` set c \<inter> fst ` set fs = {}"
  shows "fold extend_combinations fs cs =
    concat (map (\<lambda>c. map (\<lambda>vs. c @ zip (map fst fs) vs) (product_lists (map (\<lambda>f. enum_values (snd f)) fs))) cs)"
  using assms
proof (induction fs arbitrary: cs)
  case Nil
  then show ?case by (induction cs) simp_all
next
  case (Cons f fs)
  have fresh: "fst f \<notin> fst ` set c" if "c \<in> set cs" for c
    using bspec [OF Cons.prems(2) that] by (simp add: disjoint_iff) blast
  have step: "extend_combinations f cs =
      concat (map (\<lambda>c. map (\<lambda>v. c @ [(fst f, v)]) (enum_values (snd f))) cs)"
    unfolding extend_combinations_def
    by (rule arg_cong [of _ _ concat], rule map_cong [OF refl]) (simp add: set_own_fresh fresh)
  have disjoint: "\<forall>c\<in>set (extend_combinations f cs). fst ` set c \<inter> fst ` set fs = {}"
    unfolding step using Cons.prems by (simp add: disjoint_iff)
  have "fold extend_combinations (f # fs) cs = concat (map (\<lambda>c. map (\<lambda>vs. c @ zip (map fst fs) vs)
      (product_lists (map (\<lambda>f. enum_values (snd f)) fs))) (extend_combinations f cs))"
    using Cons.IH [OF _ disjoint] Cons.prems(1) by simp
  also have "\<dots> = concat (map (\<lambda>c. map (\<lambda>vs. c @ zip (map fst (f # fs)) vs)
      (product_lists (map (\<lambda>f. enum_values (snd f)) (f # fs)))) cs)"
    unfolding step by (induction cs) (simp_all add: map_concat o_def concat_map_Cons_zip)
  finally show ?case .
qed

theorem combinations_product:
  assumes "distinct (map fst schema)"
  shows "getTaskEnumCombinations collate (Some schema) =
    map (zip (map fst (getTaskEnumFields collate (Some schema))))
      (product_lists (map (\<lambda>f. enum_values (snd f)) (getTaskEnumFields collate (Some schema))))"
  unfolding getTaskEnumCombinations_def
  using fold_extend_combinations [OF distinct_enum_fields [OF assms], of "[[]]" collate] by simp

lemma in_combinations:
  assumes "distinct (map fst schema)"
  shows "c \<in> set (getTaskEnumCombinations collate (Some schema)) \<longleftrightarrow>
    map fst c = map fst (getTaskEnumFields collate (Some schema)) \<and>
    list_all2 (\<lambda>v f. v \<in> set (enum_values (snd f))) (map snd c) (getTaskEnumFields collate (Some schema))"
    (is "_ \<longleftrightarrow> _ = map fst ?fs \<and> _")
proof -
  have "c \<in> set (getTaskEnumCombinations collate (Some schema)) \<longleftrightarrow>
      (\<exists>vs. list_all2 (\<lambda>v f. v \<in> set (enum_values (snd f))) vs ?fs \<and> c = zip (map fst ?fs) vs)"
    unfolding combinations_product [OF assms] by (auto simp: product_lists_set list_all2_map2)
  also have "\<dots> \<longleftrightarrow> map fst c = map fst ?fs \<and> list_all2 (\<lambda>v f. v \<in> set (enum_values (snd f))) (map snd c) ?fs"
  proof
    assume "\<exists>vs. list_all2 (\<lambda>v f. v \<in> set (enum_values (snd f))) vs ?fs \<and> c = zip (map fst ?fs) vs"
    then show "map fst c = map fst ?fs \<and> list_all2 (\<lambda>v f. v \<in> set (enum_values (snd f))) (map snd c) ?fs"
      by (metis length_map list_all2_lengthD map_fst_zip map_snd_zip)
  next
    assume "map fst c = map fst ?fs \<and> list_all2 (\<lambda>v f. v \<in> set (enum_values (snd f))) (map snd c) ?fs"
    then show "\<exists>vs. list_all2 (\<lambda>v f. v \<in> set (enum_values (snd f))) vs ?fs \<and> c = zip (map fst ?fs) vs"
      by (metis zip_map_fst_snd)
  qed
  finally show ?thesis .
qed

lemma distinct_concat_Cons:
  "distinct L \<Longrightarrow> distinct a \<Longrightarrow> distinct (concat (map (\<lambda>x. map ((#) x) L) a))"
  by (induction a) (auto simp: distinct_map)

lemma distinct_product_lists: "\<forall>xs\<in>set xss. distinct xs \<Longrightarrow> distinct (product_lists xss)"
  by (induction xss) (simp_all add: distinct_concat_Cons)

lemma distinct_combinations:
  assumes "distinct (map fst schema)" "\<forall>(k, f)\<in>set schema. distinct (enum_values f)"
  shows "distinct (getTaskEnumCombinations collate (Some schema))"
proof -
  let ?fs = "getTaskEnumFields collate (Some schema)"
  have "\<forall>f\<in>set ?fs. distinct (enum_values (snd f))"
    using assms(2) by (auto simp: getTaskEnumFields_def)
  then have "distinct (product_lists (map (\<lambda>f. enum_values (snd f)) ?fs))"
    by (intro distinct_product_lists) simp
  moreover have "inj_on (zip (map fst ?fs)) (set (product_lists (map (\<lambda>f. enum_values (snd f)) ?fs)))"
    by (rule inj_onI) (metis in_set_product_lists_length length_map map_snd_zip)
  ultimately show ?thesis
    unfolding combinations_product [OF assms(1)] by (simp add: distinct_map)
qed

lemma length_product_lists: "length (product_lists xss) = prod_list (map length xss)"
  by (induction xss) (simp_all add: length_concat o_def sum_list_triv)

subsection \<open>The tiers of a matrix charge by its rows\<close>

definition fits_schema :: "collation \<Rightarrow> usage_schema \<Rightarrow> task_matrix_config \<Rightarrow> bool" where
  "fits_schema collate schema config \<longleftrightarrow>
     map mr_combination (mc_rows config) = getTaskEnumCombinations collate (Some schema)"

lemma fits_schemaD:
  assumes "fits_schema collate schema config"
  shows "length (getTaskEnumCombinations collate (Some schema)) = length (mc_rows config)"
    and "i < length (mc_rows config) \<Longrightarrow>
      getTaskEnumCombinations collate (Some schema) ! i = mr_combination (mc_rows config ! i)"
  using assms unfolding fits_schema_def by (metis length_map, metis nth_map)

definition schema_ok :: "usage_schema \<Rightarrow> bool" where
  "schema_ok schema \<longleftrightarrow>
     distinct (map fst schema) \<and>
     list_all (\<lambda>(k, f). distinct (enum_values f) \<and> list_all code_units (enum_values f)) schema"

lemma schema_okD:
  assumes "schema_ok schema"
  shows "distinct (map fst schema)" "distinct (getTaskEnumCombinations collate (Some schema))"
  using assms distinct_combinations [of schema collate]
  by (auto simp: schema_ok_def list_all_iff)

definition shows_combination :: "usage_sample \<Rightarrow> (js_string, js_string) entries \<Rightarrow> bool" where
  "shows_combination sample combination \<longleftrightarrow>
     list_all (\<lambda>(k, v). map_of sample k = Some (Inl v)) combination"

definition same_number :: "js_num \<Rightarrow> js_num \<Rightarrow> bool" where
  "same_number x y \<longleftrightarrow> x = y \<or> num_eq x y"

lemma shows_combination_unique:
  assumes "shows_combination sample c" "shows_combination sample c'" "map fst c = map fst c'"
  shows "c = c'"
  using assms
proof (induction c arbitrary: c')
  case (Cons e c)
  then obtain e' c1 where "c' = e' # c1" by (cases c') auto
  with Cons show ?case by (auto simp: shows_combination_def)
qed simp

lemma map_of_field_prices:
  "map_of (field_prices fs prices) field =
     (if field \<in> fst ` set fs then Some (or_zero (map_of prices field)) else None)"
  by (induction fs) (auto simp: field_prices_def)

lemma or_zero_Some [simp]: "or_zero (Some x) = x"
  by (simp add: or_zero_def)

lemma num_eq_sym: "num_eq x y \<longleftrightarrow> num_eq y x"
  by (cases x; cases y) auto

lemma same_price_same_number: "same_price p q \<Longrightarrow> same_number (or_zero q) (or_zero p)"
  by (cases p; cases q) (auto simp: same_number_def or_zero_def num_eq_sym)

lemma matched_tier_nth:
  assumes "i < length tiers"
    and only: "\<And>j. j < length tiers - 1 \<Longrightarrow> list_all (condition_matches sample) (tk_conditions (tiers ! j)) \<longleftrightarrow> j = i"
  shows "matched_tier tiers sample = tiers ! i"
proof (cases "i < length tiers - 1")
  case True
  then have "List.find (\<lambda>u. list_all (condition_matches sample) (tk_conditions u)) (butlast tiers) = Some (tiers ! i)"
    using only by (intro find_Some_iff [THEN iffD2] exI [of _ i]) (simp add: nth_butlast)
  then show ?thesis by (simp add: matched_tier_def)
next
  case False
  then have "List.find (\<lambda>u. list_all (condition_matches sample) (tk_conditions u)) (butlast tiers) = None"
    using only by (auto simp: find_None_iff in_set_conv_nth nth_butlast)
  moreover have "last tiers = tiers ! i"
    using False assms(1) by (metis last_conv_nth length_0_conv less_nat_zero_code linorder_neqE_nat Suc_pred' less_Suc_eq neq0_conv)
  ultimately show ?thesis by (simp add: matched_tier_def)
qed

lemma matrix_row_matches:
  assumes "schema_ok schema" "fits_schema collate schema config"
    and "i < length (mc_rows config)" "j < length (mc_rows config)"
    and "shows_combination sample (mr_combination (mc_rows config ! i))"
  shows "shows_combination sample (mr_combination (mc_rows config ! j)) \<longleftrightarrow> j = i"
proof
  let ?c = "\<lambda>k. getTaskEnumCombinations collate (Some schema) ! k"
  have c: "mr_combination (mc_rows config ! k) = ?c k \<and> k < length (getTaskEnumCombinations collate (Some schema))"
    if "k < length (mc_rows config)" for k
    using fits_schemaD [OF assms(2)] that by simp
  assume "shows_combination sample (mr_combination (mc_rows config ! j))"
  then have "?c j = ?c i"
    using shows_combination_unique assms(3-5) c in_combinations [OF schema_okD(1) [OF assms(1)]]
    by (metis nth_mem)
  then show "j = i"
    using schema_okD(2) [OF assms(1)] c [OF assms(3)] c [OF assms(4)] by (simp add: nth_eq_iff_index_eq)
qed (use assms(5) in simp)

lemma matched_row_tier:
  fixes nf :: "(js_string, usage_field) entries"
  assumes "schema_ok schema" "fits_schema collate schema config" "i < length (mc_rows config)"
    and "shows_combination sample (mr_combination (mc_rows config ! i))"
  defines "tiers \<equiv> map (\<lambda>(index, row). row_tier collate nf (length (mc_rows config)) index row) (enumerate 0 (mc_rows config))"
  shows "matched_tier tiers sample = row_tier collate nf (length (mc_rows config)) i (mc_rows config ! i)"
proof -
  have nth: "tiers ! j = row_tier collate nf (length (mc_rows config)) j (mc_rows config ! j)"
    if "j < length (mc_rows config)" for j
    using that by (simp add: tiers_def nth_enumerate_eq)
  have "list_all (condition_matches sample) (tk_conditions (tiers ! j)) \<longleftrightarrow>
      shows_combination sample (mr_combination (mc_rows config ! j))" if "j < length tiers - 1" for j
    using that nth [of j]
    by (auto simp: tiers_def row_tier_def list_all_iff shows_combination_def condition_matches_def)
  then show ?thesis
    using matched_tier_nth [of i tiers sample] assms(3,4) matrix_row_matches [OF assms(1,2,3) _ assms(4)] nth
    by (simp add: tiers_def)
qed

lemma matrix_charges_row:
  assumes "schema_ok schema" "fits_schema collate schema config" "row \<in> set (mc_rows config)"
    and "shows_combination sample (mr_combination row)"
    and "getTaskNumberFields collate (Some schema) \<noteq> []"
  defines "t \<equiv> matched_tier (taskMatrixToTiers collate config schema) sample"
  shows "same_number (tk_constant t) (mr_constant row) \<and>
    (\<forall>field\<in>fst ` set (getTaskNumberFields collate (Some schema)).
       same_number (or_zero (map_of (tk_unit_prices t) field)) (or_zero (map_of (mr_unitPrices row) field)))"
proof -
  let ?nf = "getTaskNumberFields collate (Some schema)"
  obtain i where i: "i < length (mc_rows config)" "row = mc_rows config ! i"
    using assms(3) by (metis in_set_conv_nth)
  obtain first rest where rows: "mc_rows config = first # rest"
    using i(1) by (cases "mc_rows config") auto
  show ?thesis
  proof (cases "rows_uniform ?nf (mc_rows config) first")
    case True
    then have "num_eq (mr_constant first) (mr_constant row)"
        "\<forall>field\<in>fst ` set ?nf. same_price (map_of (mr_unitPrices row) field) (map_of (mr_unitPrices first) field)"
      using assms(3) by (fastforce simp: rows_uniform_def list_all_iff num_eq_sym)+
    then have "same_number (mr_constant first) (mr_constant row)"
        "\<forall>field\<in>fst ` set ?nf. same_number (or_zero (map_of (mr_unitPrices first) field)) (or_zero (map_of (mr_unitPrices row) field))"
      using same_price_same_number by (auto simp: same_number_def)
    with True show ?thesis
      using assms(5) rows
      by (simp add: t_def taskMatrixToTiers_def matched_tier_def map_of_field_prices)
  next
    case False
    then have "t = row_tier collate ?nf (length (mc_rows config)) i row"
      using matched_row_tier [OF assms(1,2) i(1), of sample ?nf] assms(4,5) i(2) rows
      by (simp add: t_def taskMatrixToTiers_def Let_def)
    then show ?thesis
      by (simp add: row_tier_def map_of_field_prices same_number_def)
  qed
qed

subsection \<open>Keys of combinations\<close>

lemma json_string_cancel:
  assumes "code_units s" "code_units t" "json_string s @ p = json_string t @ q"
  shows "s = t \<and> p = q"
proof -
  have "s = t"
    using lex_json_string [OF assms(1), of "[]" p] lex_json_string [OF assms(2), of "[]" q] assms(3) by simp
  with assms(3) show ?thesis by simp
qed

lemma join_json_Cons:
  "join sep (map json_string (s # ss)) =
     json_string s @ (if ss = [] then [] else sep @ join sep (map json_string ss))"
  by (cases ss) simp_all

lemma join_json_cancel:
  assumes "length ss = length ts" "list_all code_units ss" "list_all code_units ts"
    and "join sep (map json_string ss) @ p = join sep (map json_string ts) @ q"
  shows "ss = ts"
  using assms
proof (induction ss arbitrary: ts)
  case (Cons s ss)
  then obtain t us where ts: "ts = t # us" by (cases ts) auto
  let ?rest = "\<lambda>xs. if xs = [] then [] else sep @ join sep (map json_string xs)"
  have "json_string s @ (?rest ss @ p) = json_string t @ (?rest us @ q)"
    using Cons.prems(4) unfolding ts join_json_Cons by (simp only: append.assoc)
  moreover have "code_units s" "code_units t"
    using Cons.prems(2,3) ts by simp_all
  ultimately have "s = t" and rest: "?rest ss @ p = ?rest us @ q"
    using json_string_cancel by blast+
  moreover from rest have "ss = us"
    using Cons.IH [of us] Cons.prems ts by (cases "ss = []"; cases "us = []") auto
  ultimately show ?case using ts by simp
qed simp

lemma combination_key:
  assumes "map fst c = map fst fs" "distinct (map fst fs)"
  shows "taskMatrixCombinationKey c fs = js ''['' @ join (js '','') (map json_string (map snd c)) @ js '']''"
proof -
  have "map (\<lambda>(field, _). json_option (map_of c field)) fs = map (\<lambda>k. json_option (map_of c k)) (map fst c)"
    unfolding assms(1) by (simp add: split_beta o_def)
  also have "\<dots> = map json_string (map snd c)"
    using assms by (auto simp: json_option_def simp flip: assms(1))
  finally have "map (\<lambda>(field, _). json_option (map_of c field)) fs = map json_string (map snd c)" .
  then show ?thesis by (simp only: taskMatrixCombinationKey_def)
qed

lemma list_all2_members:
  "list_all2 (\<lambda>v f. v \<in> S f) vs fs \<Longrightarrow> \<forall>f\<in>set fs. \<forall>v\<in>S f. P v \<Longrightarrow> list_all P vs"
  by (induction rule: list_all2_induct) auto

lemma combination_key_inj:
  assumes "schema_ok schema" "c \<in> set (getTaskEnumCombinations collate (Some schema))"
    "d \<in> set (getTaskEnumCombinations collate (Some schema))"
    "taskMatrixCombinationKey c (getTaskEnumFields collate (Some schema)) =
     taskMatrixCombinationKey d (getTaskEnumFields collate (Some schema))"
  shows "c = d"
proof -
  let ?fs = "getTaskEnumFields collate (Some schema)"
  have units: "list_all code_units (map snd e)"
    if "list_all2 (\<lambda>v f. v \<in> set (enum_values (snd f))) (map snd e) ?fs" for e :: "(js_string, js_string) entries"
  proof -
    have "\<forall>f\<in>set ?fs. list_all code_units (enum_values (snd f))"
      using assms(1) by (fastforce simp: schema_ok_def getTaskEnumFields_def list_all_iff)
    then show ?thesis
      using list_all2_members [OF that] by (simp add: list_all_iff)
  qed
  note member = in_combinations [OF schema_okD(1) [OF assms(1)], of _ collate, THEN iffD1]
  note c = member [OF assms(2)] and d = member [OF assms(3)]
  have "distinct (map fst ?fs)" using distinct_enum_fields schema_okD(1) [OF assms(1)] .
  then have "join (js '','') (map json_string (map snd c)) @ js '']'' = join (js '','') (map json_string (map snd d)) @ js '']''"
    using assms(4) c d combination_key by (metis same_append_eq)
  moreover have "length c = length d" using c d by (metis length_map)
  ultimately have "map snd c = map snd d"
    using c d units
    by (intro join_json_cancel [of _ _ "js '',''" "js '']''" "js '']''"]) simp_all
  with c d show ?thesis by (metis zip_map_fst_snd)
qed

subsection \<open>Reading the tiers of a matrix back\<close>

abbreviation conditions_of :: "(js_string, js_string) entries \<Rightarrow> task_condition list" where
  "conditions_of es \<equiv> map (\<lambda>(field, val). \<lparr>tk_field = field, tk_value = val\<rparr>) es"

lemma fold_read_condition:
  assumes "distinct (map fst (acc @ es))"
    and "\<forall>(k, v)\<in>set es. \<exists>vs. schema_enum schema k = Some vs \<and> v \<in> set vs"
  shows "fold (read_condition schema) (conditions_of es) (Some acc) = Some (acc @ es)"
  using assms
proof (induction es arbitrary: acc)
  case (Cons e es)
  obtain k v where e: "e = (k, v)" by fastforce
  have "read_condition schema \<lparr>tk_field = k, tk_value = v\<rparr> (Some acc) = Some (acc @ [e])"
    using Cons.prems e by (auto simp: read_condition_def has_own_iff set_own_fresh)
  then show ?case using Cons.IH [of "acc @ [e]"] Cons.prems e by simp
qed simp

lemma combination_enum:
  assumes "schema_ok schema" "c \<in> set (getTaskEnumCombinations collate (Some schema))" "(k, v) \<in> set c"
  shows "\<exists>vs. schema_enum schema k = Some vs \<and> v \<in> set vs"
proof -
  let ?fs = "getTaskEnumFields collate (Some schema)"
  note c = in_combinations [OF schema_okD(1) [OF assms(1)], of c collate, THEN iffD1, OF assms(2)]
  obtain i where i: "i < length c" "c ! i = (k, v)"
    using assms(3) by (metis in_set_conv_nth)
  have len: "length c = length ?fs" using c by (metis length_map)
  have "fst (?fs ! i) = k" using c i len by (metis fst_conv nth_map)
  moreover have "v \<in> set (enum_values (snd (?fs ! i)))"
    using c i len by (fastforce simp: list_all2_conv_all_nth)
  moreover have "?fs ! i \<in> set schema" "uf_enum (snd (?fs ! i)) \<noteq> None"
    using nth_mem [of i ?fs] i len by (auto simp: getTaskEnumFields_def split: option.splits list.splits)
  ultimately have "(k, snd (?fs ! i)) \<in> set schema" by (metis prod.collapse)
  then have "map_of schema k = Some (snd (?fs ! i))"
    using schema_okD(1) [OF assms(1)] by simp
  then show ?thesis
    using \<open>v \<in> _\<close> \<open>uf_enum _ \<noteq> None\<close> by (auto simp: schema_enum_def enum_values_def)
qed

lemma tier_combination_of_row:
  assumes "schema_ok schema" "c \<in> set (getTaskEnumCombinations collate (Some schema))"
    "tk_conditions tier = conditions_of (sort_by_name collate c)"
  shows "tier_combination schema (getTaskEnumFields collate (Some schema)) tier = Some c"
proof -
  let ?fs = "getTaskEnumFields collate (Some schema)"
  note c = in_combinations [OF schema_okD(1) [OF assms(1)], of c collate, THEN iffD1, OF assms(2)]
  have len: "length c = length ?fs" using c by (metis length_map)
  have dist: "distinct (map fst c)" using c distinct_enum_fields schema_okD(1) [OF assms(1)] by metis
  have "fold (read_condition schema) (tk_conditions tier) (Some []) = Some (sort_by_name collate c)"
    using fold_read_condition [of "[]" "sort_by_name collate c" schema] dist combination_enum [OF assms(1,2)]
    by (fastforce simp: assms(3))
  moreover have "map (\<lambda>(field, _). (field, case map_of (sort_by_name collate c) field of Some v \<Rightarrow> v | None \<Rightarrow> [])) ?fs =
      map (\<lambda>k. (k, case map_of c k of Some v \<Rightarrow> v | None \<Rightarrow> [])) (map fst c)"
    using c by (simp add: split_beta o_def map_of_sort_by_name [OF dist])
  moreover have "\<dots> = c" using dist by (auto intro: map_idI)
  ultimately show ?thesis
    by (simp add: tier_combination_def assms(3) len)
qed

lemma fold_add_tier:
  assumes "list_all2 (\<lambda>c t. tier_combination schema fs t = Some c) cs ts"
    and "distinct (map fst acc @ map (\<lambda>c. taskMatrixCombinationKey c fs) cs)"
  shows "fold (add_tier schema fs) ts (Some acc) =
    Some (acc @ zip (map (\<lambda>c. taskMatrixCombinationKey c fs) cs) ts)"
  using assms
proof (induction cs ts arbitrary: acc rule: list_all2_induct)
  case (Cons c cs t ts)
  let ?k = "taskMatrixCombinationKey c fs"
  have "add_tier schema fs t (Some acc) = Some (acc @ [(?k, t)])"
    using Cons by (auto simp: add_tier_def has_own_iff set_own_fresh image_iff)
  then show ?case using Cons.IH [of "acc @ [(?k, t)]"] Cons.prems by simp
qed simp

lemma map_option_list_all2:
  "list_all2 (\<lambda>x y. f x = Some y) xs ys \<Longrightarrow> map_option_list f xs = Some ys"
  by (induction rule: list_all2_induct) simp_all

lemma map_option_list_zip:
  assumes "distinct (map key cs)" "length cs = length ts"
  shows "map_option_list (\<lambda>c. map_option (g c) (map_of (zip (map key cs) ts) (key c))) cs = Some (map2 g cs ts)"
proof -
  have nth: "map_of (zip (map key cs) ts) (key (cs ! i)) = Some (ts ! i)" if "i < length cs" for i
    using map_of_zip_nth [of "map key cs" ts i] assms that by simp
  have "list_all2 (\<lambda>c r. map_option (g c) (map_of (zip (map key cs) ts) (key c)) = Some r) cs (map2 g cs ts)"
    using assms(2) by (simp add: list_all2_conv_all_nth nth)
  then show ?thesis by (rule map_option_list_all2)
qed

fun plain_number :: "js_num \<Rightarrow> bool" where
  "plain_number (Fin _) \<longleftrightarrow> True"
| "plain_number _ \<longleftrightarrow> False"

lemma plain_number_eq: "plain_number x \<Longrightarrow> plain_number y \<Longrightarrow> num_eq x y \<longleftrightarrow> x = y"
  by (cases x; cases y) auto

lemma same_price_refl: "(\<And>x. p = Some x \<Longrightarrow> plain_number x) \<Longrightarrow> same_price p p"
  by (cases p) (simp_all add: plain_number_eq)

text \<open>The rows of a matrix price the number fields of the schema with plain numbers.\<close>

definition row_priced :: "(js_string, usage_field) entries \<Rightarrow> task_matrix_row \<Rightarrow> bool" where
  "row_priced nf row \<longleftrightarrow>
     plain_number (mr_constant row) \<and> map fst (mr_unitPrices row) = map fst nf \<and>
     list_all (\<lambda>(k, x). plain_number x) (mr_unitPrices row)"

lemma field_prices_self:
  assumes "map fst p = map fst nf" "distinct (map fst nf)"
  shows "field_prices nf p = p"
proof -
  have "field_prices nf p = map (\<lambda>k. (k, or_zero (map_of p k))) (map fst p)"
    unfolding assms(1) by (simp add: field_prices_def split_beta o_def)
  also have "\<dots> = p" using assms by (auto intro!: map_idI simp flip: assms(1))
  finally show ?thesis .
qed

lemma field_prices_idem: "distinct (map fst nf) \<Longrightarrow> field_prices nf (field_prices nf p) = field_prices nf p"
  by (rule field_prices_self) (simp_all add: field_prices_def split_beta o_def)

lemma uniform_rows_equal:
  assumes "rows_uniform nf rows first" "row \<in> set rows" "first \<in> set rows" "\<forall>r\<in>set rows. row_priced nf r"
    and "distinct (map fst nf)"
  shows "mr_constant row = mr_constant first \<and> mr_unitPrices row = mr_unitPrices first"
proof -
  have priced: "row_priced nf row" "row_priced nf first" using assms(2-4) by auto
  have "map_of (mr_unitPrices row) k = map_of (mr_unitPrices first) k" for k
  proof (cases "k \<in> fst ` set nf")
    case True
    then obtain x y where xy: "map_of (mr_unitPrices row) k = Some x" "map_of (mr_unitPrices first) k = Some y"
      using priced by (metis list.set_map map_of_eq_None_iff not_Some_eq row_priced_def)
    then have "plain_number x" "plain_number y"
      using priced by (auto dest!: map_of_SomeD simp: row_priced_def list_all_iff)
    moreover have "same_price (Some x) (Some y)"
      using assms(1,2) True xy by (fastforce simp: rows_uniform_def list_all_iff)
    ultimately show ?thesis by (simp add: xy plain_number_eq)
  next
    case False
    then show ?thesis
      using priced by (metis list.set_map map_of_eq_None_iff row_priced_def)
  qed
  then have "field_prices nf (mr_unitPrices row) = field_prices nf (mr_unitPrices first)"
    by (simp add: field_prices_def)
  then have "mr_unitPrices row = mr_unitPrices first"
    using priced assms(5) by (simp add: field_prices_self row_priced_def)
  moreover have "mr_constant row = mr_constant first"
    using assms(1,2) priced by (auto simp: rows_uniform_def list_all_iff row_priced_def plain_number_eq)
  ultimately show ?thesis by blast
qed

lemma butlast_filter_last:
  assumes "xs \<noteq> []" "distinct xs"
  shows "filter (\<lambda>x. x \<notin> set (butlast xs)) xs = [last xs]"
proof -
  obtain ys y where "xs = ys @ [y]" using assms(1) by (metis append_butlast_last_id)
  with assms(2) show ?thesis by simp
qed

lemma last_not_butlast: "xs \<noteq> [] \<Longrightarrow> distinct xs \<Longrightarrow> last xs \<notin> set (butlast xs)"
  by (metis append_butlast_last_id distinct_append IntI empty_iff list.set_intros(1))

lemma matrix_of_separate_tiers:
  assumes "schema_ok schema" "fits_schema collate schema config" "1 < length (mc_rows config)"
    and tiers: "list_all2 (\<lambda>c t. tk_conditions t = conditions_of (sort_by_name collate c))
      (butlast (getTaskEnumCombinations collate (Some schema))) (butlast tiers)"
    and "length tiers = length (mc_rows config)" "tk_conditions (last tiers) = []"
  shows "matrix_of_tiers collate schema tiers =
    Some \<lparr>mc_rows = map2 (matrix_row (getTaskNumberFields collate (Some schema)))
      (getTaskEnumCombinations collate (Some schema)) tiers\<rparr>"
proof -
  let ?cs = "getTaskEnumCombinations collate (Some schema)" and ?fs = "getTaskEnumFields collate (Some schema)"
  let ?key = "\<lambda>c. taskMatrixCombinationKey c ?fs" and ?nf = "getTaskNumberFields collate (Some schema)"
  have len: "length ?cs = length tiers" "1 < length tiers"
    using fits_schemaD(1) [OF assms(2)] assms(3,5) by simp_all
  then have ne: "?cs \<noteq> []" "tiers \<noteq> []" by auto
  have dist: "distinct ?cs" using schema_okD(2) [OF assms(1)] .
  have inj: "inj_on ?key (set ?cs)" using combination_key_inj [OF assms(1)] by (blast intro: inj_onI)
  then have keys: "distinct (map ?key ?cs)" using dist by (simp add: distinct_map)
  have sub: "set (butlast ?cs) \<subseteq> set ?cs" using in_set_butlastD by fastforce
  have "list_all2 (\<lambda>c t. tier_combination schema ?fs t = Some c) (butlast ?cs) (butlast tiers)"
    using tiers by (rule list.rel_mono_strong) (use tier_combination_of_row [OF assms(1)] sub in blast)
  then have byKey: "fold (add_tier schema ?fs) (butlast tiers) (Some []) = Some (zip (map ?key (butlast ?cs)) (butlast tiers))"
    using fold_add_tier [of schema ?fs "butlast ?cs" "butlast tiers" "[]"] keys
    by (simp add: distinct_butlast map_butlast)
  have own: "has_own (zip (map ?key (butlast ?cs)) (butlast tiers)) (?key c) \<longleftrightarrow> c \<in> set (butlast ?cs)"
    if "c \<in> set ?cs" for c
  proof -
    have "map fst (zip (map ?key (butlast ?cs)) (butlast tiers)) = map ?key (butlast ?cs)" using len by simp
    then have "fst ` set (zip (map ?key (butlast ?cs)) (butlast tiers)) = ?key ` set (butlast ?cs)"
      by (metis list.set_map)
    then show ?thesis
      using inj_on_image_mem_iff [OF inj that sub] by (simp add: has_own_iff)
  qed
  have missing: "filter (\<lambda>c. \<not> has_own (zip (map ?key (butlast ?cs)) (butlast tiers)) (?key c)) ?cs = [last ?cs]"
    using butlast_filter_last [OF ne(1) dist] own by (simp cong: filter_cong)
  have "set_own (?key (last ?cs)) (last tiers) (zip (map ?key (butlast ?cs)) (butlast tiers)) =
      zip (map ?key (butlast ?cs)) (butlast tiers) @ [(?key (last ?cs), last tiers)]"
    using own [OF last_in_set [OF ne(1)]] last_not_butlast [OF ne(1) dist]
    by (intro set_own_fresh) (simp add: has_own_iff)
  also have "\<dots> = zip (map ?key (butlast ?cs) @ [?key (last ?cs)]) (butlast tiers @ [last tiers])"
    using len by simp
  also have "\<dots> = zip (map ?key (butlast ?cs @ [last ?cs])) (butlast tiers @ [last tiers])"
    by simp
  also have "\<dots> = zip (map ?key ?cs) tiers"
    by (simp only: append_butlast_last_id [OF ne(1)] append_butlast_last_id [OF ne(2)])
  finally have all: "set_own (?key (last ?cs)) (last tiers) (zip (map ?key (butlast ?cs)) (butlast tiers)) =
      zip (map ?key ?cs) tiers" .
  show ?thesis
    using ne len assms(6) map_option_list_zip [OF keys len(1), of "matrix_row ?nf"]
    by (simp add: matrix_of_tiers_def Let_def byKey missing all)
qed

lemma matrix_of_row_tiers:
  assumes "schema_ok schema" "fits_schema collate schema config" "1 < length (mc_rows config)"
    and "\<forall>row\<in>set (mc_rows config). row_priced (getTaskNumberFields collate (Some schema)) row"
  shows "matrix_of_tiers collate schema
      (map (\<lambda>(index, row). row_tier collate (getTaskNumberFields collate (Some schema)) (length (mc_rows config)) index row)
        (enumerate 0 (mc_rows config))) = Some config"
proof -
  let ?rows = "mc_rows config" and ?nf = "getTaskNumberFields collate (Some schema)"
  let ?cs = "getTaskEnumCombinations collate (Some schema)"
  define tiers where "tiers = map (\<lambda>(index, row). row_tier collate ?nf (length ?rows) index row) (enumerate 0 ?rows)"
  have len: "length tiers = length ?rows" "length ?cs = length ?rows"
    using fits_schemaD(1) [OF assms(2)] by (simp_all add: tiers_def)
  have nth: "tiers ! i = row_tier collate ?nf (length ?rows) i (?rows ! i)" "?cs ! i = mr_combination (?rows ! i)"
    if "i < length ?rows" for i
    using that fits_schemaD(2) [OF assms(2)] by (simp_all add: tiers_def nth_enumerate_eq)
  have "list_all2 (\<lambda>c t. tk_conditions t = conditions_of (sort_by_name collate c)) (butlast ?cs) (butlast tiers)"
    using len by (auto simp: list_all2_conv_all_nth nth_butlast nth row_tier_def)
  moreover have "tk_conditions (last tiers) = []"
    using len nth [of "length ?rows - 1"] assms(3) by (simp add: last_conv_nth row_tier_def flip: length_greater_0_conv)
  ultimately have "matrix_of_tiers collate schema tiers = Some \<lparr>mc_rows = map2 (matrix_row ?nf) ?cs tiers\<rparr>"
    using matrix_of_separate_tiers [OF assms(1-3)] len by blast
  moreover have "map2 (matrix_row ?nf) ?cs tiers = ?rows"
  proof (rule nth_equalityI)
    fix i assume "i < length (map2 (matrix_row ?nf) ?cs tiers)"
    then have i: "i < length ?rows" using len by simp
    then have "field_prices ?nf (mr_unitPrices (?rows ! i)) = mr_unitPrices (?rows ! i)"
      using assms(1,4) distinct_number_fields schema_okD(1) by (intro field_prices_self) (auto simp: row_priced_def)
    then show "map2 (matrix_row ?nf) ?cs tiers ! i = ?rows ! i"
      using i len by (simp add: nth matrix_row_def row_tier_def)
  qed (use len in simp)
  ultimately show ?thesis by (simp add: tiers_def)
qed

lemma matrix_roundtrip:
  assumes "schema_ok schema" "fits_schema collate schema config"
    and "getTaskNumberFields collate (Some schema) \<noteq> []" "mc_rows config \<noteq> []"
    and "\<forall>row\<in>set (mc_rows config). row_priced (getTaskNumberFields collate (Some schema)) row"
  shows "matrix_of_tiers collate schema (taskMatrixToTiers collate config schema) = Some config"
proof -
  let ?nf = "getTaskNumberFields collate (Some schema)"
  have dist: "distinct (map fst ?nf)" using distinct_number_fields schema_okD(1) [OF assms(1)] .
  obtain first rest where rows: "mc_rows config = first # rest" using assms(4) by (cases "mc_rows config") auto
  show ?thesis
  proof (cases "rows_uniform ?nf (mc_rows config) first")
    case True
    let ?t = "\<lparr>tk_label = js ''base'', tk_conditions = [], tk_constant = mr_constant first,
      tk_unit_prices = field_prices ?nf (mr_unitPrices first)\<rparr>"
    have "matrix_row ?nf (mr_combination row) ?t = row" if "row \<in> set (mc_rows config)" for row
    proof -
      have "mr_constant row = mr_constant first \<and> mr_unitPrices row = mr_unitPrices first"
        using uniform_rows_equal [OF True that _ assms(5) dist] rows by simp
      moreover have "field_prices ?nf (mr_unitPrices first) = mr_unitPrices first"
        using assms(5) rows dist by (intro field_prices_self) (auto simp: row_priced_def)
      ultimately show ?thesis by (simp add: matrix_row_def field_prices_idem dist)
    qed
    then have "map (\<lambda>c. matrix_row ?nf c ?t) (map mr_combination (mc_rows config)) = mc_rows config"
      by (simp add: map_idI)
    then have "map (\<lambda>c. matrix_row ?nf c ?t) (getTaskEnumCombinations collate (Some schema)) = mc_rows config"
      using assms(2) by (simp only: fits_schema_def)
    moreover have "taskMatrixToTiers collate config schema = [?t]"
      using True rows assms(3) by (simp add: taskMatrixToTiers_def Let_def)
    ultimately show ?thesis by (simp add: matrix_of_tiers_def Let_def)
  next
    case False
    have "row_priced ?nf first" using assms(5) rows by simp
    then have self: "rows_uniform ?nf [first] first"
      by (auto simp: rows_uniform_def row_priced_def list_all_iff plain_number_eq
          intro!: same_price_refl dest!: map_of_SomeD)
    with False rows have "1 < length (mc_rows config)" by (cases rest) auto
    then show ?thesis
      using matrix_of_row_tiers [OF assms(1,2) _ assms(5)] False rows assms(3)
      by (simp add: taskMatrixToTiers_def Let_def)
  qed
qed

subsection \<open>Normalising a configuration\<close>

lemma nonnegative_or_zero_idem: "nonnegative_or_zero (nonnegative_or_zero x) = nonnegative_or_zero x"
  by (simp add: nonnegative_or_zero_def num_le_def)

lemma map_of_prices:
  "distinct (map fst nf) \<Longrightarrow> (k, f) \<in> set nf \<Longrightarrow> map_of (map (\<lambda>(field, _). (field, g field)) nf) k = Some (g k)"
  by (induction nf) force+

lemma normalize_tier_idem:
  assumes "distinct (map fst nf)"
  shows "normalize_tier nf ef i (normalize_tier nf ef i t) = normalize_tier nf ef i t"
  using assms by (auto simp: normalize_tier_def nonnegative_or_zero_idem map_of_prices js_append split: prod.splits)

lemma default_tier_normal:
  assumes "distinct (map fst nf)"
  shows "normalize_tier nf ef 0 \<lparr>tk_label = js ''base'', tk_conditions = [], tk_constant = Fin 0,
      tk_unit_prices = map (\<lambda>(field, _). (field, Fin 0)) nf\<rparr> =
    \<lparr>tk_label = js ''base'', tk_conditions = [], tk_constant = Fin 0,
      tk_unit_prices = map (\<lambda>(field, _). (field, Fin 0)) nf\<rparr>"
  using assms by (auto simp: normalize_tier_def nonnegative_or_zero_def num_le_def map_of_prices)

lemma normalize_config_idem:
  assumes "distinct (map fst schema)"
  shows "normalizeTaskVisualConfig collate (Some (normalizeTaskVisualConfig collate config schema)) schema =
    normalizeTaskVisualConfig collate config schema"
proof -
  let ?nf = "getTaskNumberFields collate (Some schema)" and ?ef = "getTaskEnumFields collate (Some schema)"
  have d: "distinct (map fst ?nf)" using distinct_number_fields [OF assms] .
  have default: "normalizeTaskVisualConfig collate (Some (createDefaultTaskVisualConfig collate schema)) schema =
      createDefaultTaskVisualConfig collate schema"
    using default_tier_normal [OF d] by (simp add: normalizeTaskVisualConfig_def createDefaultTaskVisualConfig_def zero_prices_def)
  have twice: "map (\<lambda>(i, t). normalize_tier ?nf ?ef i t) (enumerate 0 (map (\<lambda>(i, t). normalize_tier ?nf ?ef i t) (enumerate 0 ts))) =
      map (\<lambda>(i, t). normalize_tier ?nf ?ef i t) (enumerate 0 ts)" for ts
    by (rule nth_equalityI) (simp_all add: nth_enumerate_eq normalize_tier_idem [OF d])
  show ?thesis
  proof (cases "config = None \<or> tvc_tiers (the config) = []")
    case True
    then have "normalizeTaskVisualConfig collate config schema = createDefaultTaskVisualConfig collate schema"
      by (auto simp: normalizeTaskVisualConfig_def split: option.split)
    with default show ?thesis by simp
  next
    case False
    then obtain c where "config = Some c" "tvc_tiers c \<noteq> []" by auto
    moreover from this have "enumerate 0 (tvc_tiers c) \<noteq> []" by (metis length_0_conv length_enumerate)
    ultimately show ?thesis using twice by (simp add: normalizeTaskVisualConfig_def)
  qed
qed

end
