(* ===== verification/Rules_Correct.thy ===== *)
theory Rules_Correct
  imports Request_Rules
begin

section \<open>Request rules read back\<close>

text \<open>
  The writer and the reader of request rules against each other. A text is \<open>inert\<close> for the
  splitter when it passes over it without a cut; quoted strings are inert whatever they
  hold. On top of that, a group with one condition reads back as it was written
  (\<open>rules_roundtrip\<close>), except for a comparison or a containment test of a parameter: their
  text holds a guard joined by \<^verbatim>\<open>&&\<close>, which the reader cuts, and is never read back
  (\<open>guarded_rule_unreadable\<close>).
\<close>

subsection \<open>Text the splitter passes over\<close>

text \<open>
  The state of the scan after a text in which no question mark and no \<open>x\<close>, the first
  character of the operator, stands at depth 0.
\<close>

fun inert :: "code_unit \<Rightarrow> js_string \<Rightarrow> int \<Rightarrow> code_unit option \<Rightarrow> (int \<times> code_unit option) option" where
  "inert x [] d q = Some (d, q)"
| "inert x (c # s) d (Some q) =
     (if c = 92 then (case s of [] \<Rightarrow> None | _ # r \<Rightarrow> inert x r d (Some q))
      else inert x s d (if c = q then None else Some q))"
| "inert x (c # s) d None =
     (if is_quote c then inert x s d (Some c)
      else if d + bracket_step c = 0 \<and> (c = 63 \<or> c = x) then None
      else inert x s (d + bracket_step c) None)"

lemma inert_append: "inert x s d q = Some (d', q') \<Longrightarrow> inert x (s @ t) d q = inert x t d' q'"
  by (induction x s d q rule: inert.induct) (auto split: if_splits list.splits)

lemma split_loop_inert:
  assumes "inert x s d q = Some (d', q')"
  shows "split_loop (x # op) (pre @ s @ post) (length pre) start d q ps =
    split_loop (x # op) (pre @ s @ post) (length pre + length s) start d' q' ps"
  using assms
proof (induction x s d q arbitrary: pre rule: inert.induct)
  case (2 x c s d q)
  show ?case
  proof (cases "c = 92")
    case True
    then obtain e r where s: "s = e # r" using "2.prems" by (auto split: list.splits)
    have "split_loop (x # op) ((pre @ [c, e]) @ r @ post) (length (pre @ [c, e])) start d (Some q) ps =
        split_loop (x # op) ((pre @ [c, e]) @ r @ post) (length (pre @ [c, e]) + length r) start d' q' ps"
      using "2.IH"(1) [OF True s, of "pre @ [c, e]"] "2.prems" True s by simp
    then show ?thesis
      using True s by (subst split_loop.simps) simp
  next
    case False
    have "split_loop (x # op) ((pre @ [c]) @ s @ post) (length (pre @ [c])) start d (if c = q then None else Some q) ps =
        split_loop (x # op) ((pre @ [c]) @ s @ post) (length (pre @ [c]) + length s) start d' q' ps"
      using "2.IH"(2) [OF False, of "pre @ [c]"] "2.prems" False by simp
    then show ?thesis
      using False by (subst split_loop.simps) simp
  qed
next
  case (3 x c s d)
  have step: "split_loop (x # op) ((pre @ [c]) @ s @ post) (length (pre @ [c])) start d1 q1 ps =
      split_loop (x # op) ((pre @ [c]) @ s @ post) (length (pre @ [c]) + length s) start d' q' ps"
    if "inert x (c # s) d None = inert x s d1 q1" "(is_quote c \<and> d1 = d \<and> q1 = Some c) \<or>
      (\<not> is_quote c \<and> d1 = d + bracket_step c \<and> q1 = None \<and> \<not> (d1 = 0 \<and> (c = 63 \<or> c = x)))" for d1 q1
    using that "3.IH" [of "pre @ [c]"] "3.prems" by auto
  show ?case
    using step [of d "Some c"] step [of "d + bracket_step c" None] "3.prems"
    by (subst split_loop.simps) (auto simp: Let_def split: if_splits)
qed simp

lemma dropWhile_blank: "list_all is_space a \<Longrightarrow> dropWhile is_space (a @ s) = dropWhile is_space s"
  by (induction a) simp_all

lemma trim_padded:
  assumes "list_all is_space a" "list_all is_space b" "trim s = s"
  shows "trim (a @ s @ b) = s"
proof (cases "s = []")
  case True
  have "dropWhile is_space (a @ b) = []"
    using assms(1,2) by (simp only: dropWhile_eq_Nil_conv) (auto simp: list_all_iff)
  with True show ?thesis by (simp only: trim_def append_Nil dropWhile.simps rev.simps)
next
  case False
  then have "\<not> is_space (hd s)" using trim_no_leading [of s "hd s" "tl s"] assms(3) by simp
  then have "dropWhile is_space (a @ s @ b) = s @ b"
    using False by (cases s) (simp_all add: dropWhile_blank [OF assms(1)])
  moreover have "\<not> is_space (last s)"
    using trim_no_trailing [of s "butlast s" "last s"] assms(3) False by simp
  then have "dropWhile is_space (rev b @ rev s) = rev s"
    using False assms(2) by (cases s rule: rev_cases) (simp_all add: dropWhile_blank)
  ultimately show ?thesis by (simp add: trim_def)
qed

lemma splitting_inert:
  assumes "inert x s 0 None \<noteq> None" "trim s = s" "s \<noteq> []"
  shows "splitExpressionAtTopLevel s (x # op) = [s]"
proof -
  obtain d q where "inert x s 0 None = Some (d, q)" using assms(1) by auto
  from split_loop_inert [OF this, of op "[]" "[]" 0 "[]"]
  have "split_loop (x # op) s 0 0 0 None [] = Some [s]" by (simp add: split_loop.simps)
  with assms(2,3) show ?thesis by (simp add: splitExpressionAtTopLevel_def)
qed

text \<open>A piece that the splitter leaves whole.\<close>

definition whole_piece :: "code_unit \<Rightarrow> js_string \<Rightarrow> bool" where
  "whole_piece x p \<longleftrightarrow> inert x p 0 None = Some (0, None) \<and> trim p = p \<and> p \<noteq> []"

definition operator_unit :: "code_unit \<Rightarrow> bool" where
  "operator_unit x \<longleftrightarrow> \<not> is_quote x \<and> bracket_step x = 0 \<and> x \<noteq> 63 \<and> x \<noteq> 32"

lemma split_loop_pieces:
  assumes "operator_unit x" "list_all (whole_piece x) (p # ps)" "lead = [] \<or> lead = [32]"
  shows "\<exists>qs. split_loop (x # op) (pre @ lead @ join (32 # x # op @ [32]) (p # ps)) (length pre) (length pre) 0 None acc
      = Some (acc @ qs) \<and> map trim qs = p # ps"
  using assms(2,3)
proof (induction ps arbitrary: p pre lead acc)
  case Nil
  have blank: "inert x lead 0 None = Some (0, None)" "list_all is_space lead"
    using Nil(2) assms(1) by (auto simp: operator_unit_def is_quote_def bracket_step_def is_space_def)
  then have "inert x (lead @ p) 0 None = Some (0, None)"
    using Nil(1) by (simp add: inert_append whole_piece_def)
  from split_loop_inert [OF this, of op pre "[]" "length pre" acc]
  have "split_loop (x # op) (pre @ lead @ p) (length pre) (length pre) 0 None acc = Some (acc @ [lead @ p])"
    by (simp add: split_loop.simps [of _ _ "length pre + (length lead + length p)"])
  moreover have "trim (lead @ p) = p"
    using trim_padded [OF blank(2), of "[]" p] Nil(1) by (simp add: whole_piece_def)
  ultimately show ?case by simp
next
  case (Cons p' ps)
  let ?rest = "join (32 # x # op @ [32]) (p' # ps)"
  let ?first = "lead @ p @ [32]"
  have blank: "inert x lead 0 None = Some (0, None)" "inert x [32] 0 None = Some (0, None)" "list_all is_space lead"
    using Cons.prems(2) assms(1) by (auto simp: operator_unit_def is_quote_def bracket_step_def is_space_def)
  then have "inert x ?first 0 None = Some (0, None)"
    using Cons.prems(1) by (simp add: inert_append whole_piece_def)
  note pass = split_loop_inert [OF this, of op pre "x # op @ [32] @ ?rest" "length pre" acc]
  let ?pre = "pre @ ?first @ x # op"
  have "split_loop (x # op) (pre @ ?first @ x # op @ [32] @ ?rest) (length pre + length ?first) (length pre) 0 None acc =
      split_loop (x # op) (?pre @ [32] @ ?rest) (length ?pre) (length ?pre) 0 None (acc @ [?first])"
    using assms(1) by (subst split_loop.simps)
      (simp add: operator_unit_def Let_def nth_append starts_with_iff slice_def add.assoc)
  then have cut: "split_loop (x # op) (pre @ ?first @ x # op @ [32] @ ?rest) (length pre) (length pre) 0 None acc =
      split_loop (x # op) (?pre @ [32] @ ?rest) (length ?pre) (length ?pre) 0 None (acc @ [?first])"
    unfolding pass .
  obtain qs where qs: "split_loop (x # op) (?pre @ [32] @ ?rest) (length ?pre) (length ?pre) 0 None (acc @ [?first])
      = Some ((acc @ [?first]) @ qs)" "map trim qs = p' # ps"
    using Cons.IH [of p' "[32]" ?pre "acc @ [?first]"] Cons.prems(1) by auto
  have "trim ?first = p"
    using trim_padded [OF blank(3), of "[32]" p] Cons.prems(1) by (simp add: whole_piece_def is_space_def)
  then have "map trim (?first # qs) = p # p' # ps" using qs(2) by (simp only: list.map)
  moreover have "pre @ lead @ join (32 # x # op @ [32]) (p # p' # ps) = pre @ ?first @ x # op @ [32] @ ?rest" by simp
  moreover have "(acc @ [?first]) @ qs = acc @ ?first # qs" by simp
  ultimately show ?case using cut qs(1) by metis
qed

lemma splitting_pieces:
  assumes "operator_unit x" "list_all (whole_piece x) ps" "ps \<noteq> []"
  shows "splitExpressionAtTopLevel (join (32 # x # op @ [32]) ps) (x # op) = ps"
proof -
  obtain p qs where ps: "ps = p # qs" using assms(3) by (cases ps) auto
  obtain raw where "split_loop (x # op) (join (32 # x # op @ [32]) ps) 0 0 0 None [] = Some raw" "map trim raw = ps"
    using split_loop_pieces [OF assms(1) assms(2) [unfolded ps], of "[]" op "[]" "[]"] ps by auto
  moreover have "filter (\<lambda>p. p \<noteq> []) ps = ps"
    using assms(2) by (auto simp: filter_id_conv list_all_iff whole_piece_def)
  ultimately show ?thesis by (simp add: splitExpressionAtTopLevel_def)
qed

subsection \<open>Quoted strings are inert\<close>

lemma hex_digit_plain: "hex_digit (n mod 16) \<noteq> 34 \<and> hex_digit (n mod 16) \<noteq> 92"
proof -
  have "0 \<le> n mod 16" "n mod 16 < 16" by simp_all
  then show ?thesis unfolding hex_digit_def by (smt (verit))
qed

lemma inert_unicode: "inert x (unicode_escape c @ t) d (Some 34) = inert x t d (Some 34)"
  by (simp add: unicode_escape_def hex_digit_plain)

lemma inert_quote_unit: "inert x (quote_unit c @ t) d (Some 34) = inert x t d (Some 34)"
  by (simp add: quote_unit_def inert_unicode)

lemma inert_quote_units: "inert x (quote_units s @ t) d (Some 34) = inert x t d (Some 34)"
proof (induction s rule: quote_units.induct)
  case (3 c d s)
  then show ?case
    by (auto simp: inert_unicode inert_quote_unit is_lead_def is_trail_def)
qed (simp_all add: inert_unicode inert_quote_unit)

lemma inert_json_string: "inert x (json_string s @ t) d None = inert x t d None"
  by (simp add: json_string_def is_quote_def inert_quote_units)

subsection \<open>What the regular expressions match\<close>

text \<open>A text that \<^verbatim>\<open>JSON.stringify\<close> only puts in quotes, as paths and time zones are.\<close>

definition plain_text :: "js_string \<Rightarrow> bool" where
  "plain_text s \<longleftrightarrow> s \<noteq> [] \<and> quote_units s = s"

lemma length_quote_unit: "1 \<le> length (quote_unit c)" "c = 34 \<Longrightarrow> 1 < length (quote_unit c)"
  by (simp_all add: quote_unit_def)

lemma quote_units_length: "length s \<le> length (quote_units s) \<and> (34 \<in> set s \<longrightarrow> length s < length (quote_units s))"
proof (induction s rule: quote_units.induct)
  case (3 c d s)
  then show ?case
    using length_quote_unit [of c] by (auto simp: is_lead_def is_trail_def)
qed (auto simp: quote_unit_def is_lead_def is_trail_def)

lemma plain_text_quoted: "plain_text s \<Longrightarrow> json_string s = 34 # s @ [34] \<and> list_all (\<lambda>c. c \<noteq> 34) s \<and> s \<noteq> []"
  using quote_units_length [of s] by (auto simp: plain_text_def json_string_def list_all_iff)

lemma strip_prefix_append [simp]: "strip_prefix p (p @ r) = Some r"
  by (simp add: strip_prefix_def starts_with_iff)

lemma span_all: "list_all P s \<Longrightarrow> r = [] \<or> \<not> P (hd r) \<Longrightarrow> takeWhile P (s @ r) = s \<and> dropWhile P (s @ r) = r"
  by (induction s) (cases r, auto)

lemma quoted_argument_plain:
  assumes "plain_text s"
  shows "quoted_argument (js ''('' @ json_string s @ js '')'' @ r) = Some (s, r)"
proof -
  note q = plain_text_quoted [OF assms]
  have eq: "js ''('' @ json_string s @ js '')'' @ r = js ''(\"'' @ (s @ js ''\")'' @ r)"
    using q by (simp add: js_def)
  have "takeWhile (\<lambda>c. c \<noteq> 34) (s @ js ''\")'' @ r) = s \<and> dropWhile (\<lambda>c. c \<noteq> 34) (s @ js ''\")'' @ r) = js ''\")'' @ r"
    using q by (intro span_all) (auto simp: js_def)
  then show ?thesis unfolding eq using q by (simp add: quoted_argument_def)
qed

lemma num_token_units:
  assumes "list_all is_num_unit v" "v \<noteq> []" "r = [] \<or> \<not> is_num_unit (hd r)"
  shows "num_token (v @ r) = Some (v, r)"
  using span_all [OF assms(1,3)] assms(2) by (simp add: num_token_def)

lemma exponent_units: "exponent_value s \<noteq> None \<Longrightarrow> list_all is_num_unit s"
  by (cases s; cases "tl s")
    (auto simp: exponent_value_def is_num_unit_def Let_def list_all_iff split: if_splits)

lemma decimal_units: "decimal_value s \<noteq> None \<Longrightarrow> s \<noteq> [] \<and> list_all is_num_unit s"
proof -
  assume v: "decimal_value s \<noteq> None"
  let ?i = "takeWhile is_digit s" and ?r = "dropWhile is_digit s"
  have digits: "list_all is_num_unit (takeWhile is_digit t)" for t
    by (auto simp: list_all_iff is_num_unit_def dest: set_takeWhileD)
  have "list_all is_num_unit ?r"
  proof (cases "?r \<noteq> [] \<and> hd ?r = 46")
    case True
    then have "exponent_value (dropWhile is_digit (tl ?r)) \<noteq> None"
      using v by (auto simp: decimal_value_def Let_def split: if_splits)
    then have "list_all is_num_unit (takeWhile is_digit (tl ?r) @ dropWhile is_digit (tl ?r))"
      using digits exponent_units unfolding list_all_append by blast
    moreover have "?r = 46 # tl ?r" using True by (metis list.collapse)
    ultimately show ?thesis by (metis is_num_unit_def list.pred_inject(2) takeWhile_dropWhile_id)
  next
    case False
    then have "exponent_value ?r \<noteq> None" using v by (auto simp: decimal_value_def Let_def split: if_splits)
    then show ?thesis by (rule exponent_units)
  qed
  then have "list_all is_num_unit (?i @ ?r)" using digits unfolding list_all_append by blast
  then show ?thesis using v by (auto simp: decimal_value_def)
qed

lemma numeric_units: "NUMERIC_LITERAL_REGEX s \<Longrightarrow> s \<noteq> [] \<and> list_all is_num_unit s"
  using decimal_units [of s] decimal_units [of "tl s"]
  by (cases s) (auto simp: NUMERIC_LITERAL_REGEX_def is_num_unit_def split: if_splits)

lemma time_call_text_plain:
  assumes "plain_text tz"
  shows "time_call_text (time_function_text f @ js ''('' @ json_string tz @ js '')'' @ r) = Some (f, tz, r)"
proof -
  have "List.find (\<lambda>g. starts_with (time_function_text f @ t) (time_function_text g)) TIME_FUNCTIONS = Some f" for t
    by (cases f) (simp_all add: TIME_FUNCTIONS_def js_def)
  then show ?thesis
    by (simp add: time_call_text_def quoted_argument_plain [OF assms])
qed

lemma source_call_plain:
  assumes "plain_text path"
  shows "source_call src (source_text_of src @ js ''('' @ json_string path @ js '')'' @ r) = Some (path, r)"
  by (simp add: source_call_def quoted_argument_plain [OF assms])

subsection \<open>Time conditions\<close>

lemma units_trim: "list_all is_num_unit v \<Longrightarrow> trim v = v"
proof (cases "v = []")
  case False
  have not_space: "is_num_unit c \<Longrightarrow> \<not> is_space c" for c
    by (auto simp: is_num_unit_def is_space_def is_digit_def)
  assume "list_all is_num_unit v"
  then have "is_num_unit (hd v)" "is_num_unit (last v)" using False by (simp_all add: list_all_iff)
  with not_space False show ?thesis by (intro trim_id) auto
qed simp

lemma in_range_units: "isTimeValueInRange f v \<Longrightarrow> v \<noteq> [] \<and> list_all is_num_unit v"
  using numeric_units by (auto simp: isTimeValueInRange_def split: if_splits)

lemma strip_prefix_letter: "c \<noteq> 40 \<Longrightarrow> strip_prefix (js ''('') (c # s) = None"
  by (simp add: strip_prefix_def js_def)

lemma strip_paren_time: "strip_prefix (js ''('') (time_function_text f @ s) = None"
  by (cases f) (simp_all add: strip_prefix_def js_def)

definition time_head :: "time_function \<Rightarrow> js_string \<Rightarrow> js_string" where
  "time_head f tz = time_function_text f @ js ''('' @ json_string tz @ js '')''"

lemma time_call_text_head: "plain_text tz \<Longrightarrow> time_call_text (time_head f tz @ r) = Some (f, tz, r)"
  by (simp add: time_head_def time_call_text_plain)

lemma parse_time_range:
  assumes "plain_text tz" "isTimeValueInRange f a" "isTimeValueInRange f b" "sep = js '' && '' \<or> sep = js '' || ''"
  shows "tryParseTimeCondition (time_head f tz @ js '' >= '' @ a @ sep @ time_head f tz @ js '' < '' @ b) =
    Some (TimeCondition f tz MATCH_RANGE [] a b)"
proof -
  note a = in_range_units [OF assms(2)] and b = in_range_units [OF assms(3)]
  have head: "time_head f tz @ js '' < '' @ b = (time_function_text f @ js ''(\"'' @ tz @ js ''\") < '') @ b"
    using plain_text_quoted [OF assms(1)] by (simp add: time_head_def js_def)
  have "num_token (a @ sep @ t) = Some (a, sep @ t)" for t
    using a assms(4) by (intro num_token_units) (auto simp: js_def is_num_unit_def is_digit_def)
  moreover have "num_token b = Some (b, [])" using num_token_units [of b "[]"] b by simp
  moreover have "(starts_with (sep @ t) (js '' && '') \<or> starts_with (sep @ t) (js '' || '')) \<and> length sep = 4" for t
    using assms(4) by (auto simp: js_def)
  ultimately have "time_range_text (time_head f tz @ js '' >= '' @ a @ sep @ time_head f tz @ js '' < '' @ b) =
      Some (f, tz, a, b, [])"
    using strip_prefix_append [of "time_function_text f @ js ''(\"'' @ tz @ js ''\") < ''" b, folded head]
    by (simp add: time_range_text_def time_call_text_head [OF assms(1)])
  then show ?thesis using assms(2,3) by (simp add: tryParseTimeCondition_def time_range_match_def)
qed

lemma parse_time_scalar:
  assumes "plain_text tz" "isTimeValueInRange f v"
    and "(mode, text) \<in> {(MATCH_EQ, js '' == ''), (MATCH_GTE, js '' >= ''), (MATCH_LT, js '' < '')}"
  shows "tryParseTimeCondition (time_head f tz @ text @ v) = Some (TimeCondition f tz mode v [] [])"
proof -
  note v = in_range_units [OF assms(2)]
  have num: "num_token v = Some (v, [])" using num_token_units [of v "[]"] v by simp
  then have "time_range_text (time_head f tz @ text @ v) = None"
    using assms(3) by (auto simp: time_range_text_def time_call_text_head [OF assms(1)] strip_prefix_def js_def)
  moreover have "strip_prefix (js ''('') (time_head f tz @ text @ v) = None"
    by (simp add: time_head_def strip_paren_time)
  ultimately have "time_range_match (time_head f tz @ text @ v) = None" by (simp add: time_range_match_def)
  moreover have "scalar_operator (text @ v) = Some (mode, v)"
    using assms(3) by (auto simp: scalar_operator_def js_def)
  ultimately show ?thesis
    using num assms(2) by (simp add: tryParseTimeCondition_def time_scalar_match_def time_call_text_head [OF assms(1)])
qed

lemma not_a_time_condition:
  assumes "starts_with s (js ''header'') \<or> starts_with s (js ''param'') \<or> starts_with s (js ''has'')"
  shows "tryParseTimeCondition s = None"
proof -
  have "time_call_text s = None" "strip_prefix (js ''('') s = None"
    using assms by (auto simp: time_call_text_def TIME_FUNCTIONS_def strip_prefix_def starts_with_iff js_def)
  then show ?thesis
    by (simp add: tryParseTimeCondition_def time_range_match_def time_range_text_def time_scalar_match_def)
qed

subsection \<open>Conditions on the request\<close>

definition source_head :: "request_source \<Rightarrow> js_string \<Rightarrow> js_string" where
  "source_head src path = source_text_of src @ js ''('' @ json_string path @ js '')''"

lemma source_call_head: "plain_text path \<Longrightarrow> source_call src (source_head src path @ r) = Some (path, r)"
  by (simp add: source_head_def source_call_plain)

lemma source_call_other: "src \<noteq> src' \<Longrightarrow> source_call src (source_head src' path @ r) = None"
  by (cases src; cases src') (simp_all add: source_call_def source_head_def source_text_of_def strip_prefix_def js_def)

lemma source_call_has: "source_call src (js ''has('' @ r) = None"
  by (cases src) (simp_all add: source_call_def source_text_of_def strip_prefix_def js_def)

lemma has_call_source: "has_call src (source_head src' path @ r) = None"
  by (cases src') (simp_all add: has_call_def source_head_def source_text_of_def strip_prefix_def js_def)

lemma source_head_not_time: "tryParseTimeCondition (source_head src path @ r) = None"
  by (rule not_a_time_condition) (cases src; simp add: source_head_def source_text_of_def starts_with_iff)

lemma parse_exists:
  assumes "plain_text path"
  shows "tryParseRequestCondition (source_head SOURCE_HEADER path @ js '' != \"\"'') =
      Inr (Some (ParamHeaderCondition SOURCE_HEADER path MATCH_EXISTS []))"
    and "tryParseRequestCondition (source_head SOURCE_PARAM path @ js '' != nil'') =
      Inr (Some (ParamHeaderCondition SOURCE_PARAM path MATCH_EXISTS []))"
  by (simp_all add: tryParseRequestCondition_def source_head_not_time exists_match_def
      source_call_head [OF assms] source_call_other)

lemma string_token_unicode:
  "string_token_rest (unicode_escape c @ t) acc = string_token_rest t (acc @ unicode_escape c)"
  by (simp add: unicode_escape_def hex_digit_plain is_line_end_def)

lemma string_token_unit:
  "string_token_rest (quote_unit c @ t) acc = string_token_rest t (acc @ quote_unit c)"
  by (simp add: quote_unit_def string_token_unicode is_line_end_def)

text \<open>A scanner that passes over every quoted unit passes over a quoted string.\<close>

lemma quote_units_scan:
  assumes unicode: "\<And>c t a. f (unicode_escape c @ t) a = f t (a @ unicode_escape c)"
    and unit: "\<And>c t a. f (quote_unit c @ t) a = f t (a @ quote_unit c)"
    and pair: "\<And>c t a. is_lead c \<or> is_trail c \<Longrightarrow> f (c # t) a = f t (a @ [c])"
  shows "f (quote_units s @ t) a = f t (a @ quote_units s)"
proof (induction s arbitrary: a rule: quote_units.induct)
  case (3 c d s)
  show ?case
  proof (cases "is_lead c \<and> is_trail d")
    case True
    then have "f (c # d # quote_units s @ t) a = f (quote_units s @ t) ((a @ [c]) @ [d])"
      by (simp only: pair simp_thms)
    with True 3 show ?thesis by (simp del: append_assoc) simp
  next
    case False
    define m where "m = (if is_lead c \<or> is_trail c then unicode_escape c else quote_unit c)"
    have q: "quote_units (c # d # s) = m @ quote_units (d # s)" using False by (auto simp: m_def)
    have "f (m @ quote_units (d # s) @ t) a = f (quote_units (d # s) @ t) (a @ m)"
      unfolding m_def using unicode unit by simp
    also have "\<dots> = f t ((a @ m) @ quote_units (d # s))"
      using 3 False by (cases "is_lead c \<or> is_trail c") blast+
    finally show ?thesis unfolding q by (simp only: append_assoc)
  qed
qed (use unicode unit in simp_all)

lemma string_token_units:
  "string_token_rest (quote_units s @ 34 # r) acc = Some (acc @ quote_units s @ [34], r)"
proof -
  have pair: "string_token_rest (c # t) a = string_token_rest t (a @ [c])" if "is_lead c \<or> is_trail c" for c t a
  proof -
    have "c \<noteq> 34" "c \<noteq> 92" using that by (auto simp: is_lead_def is_trail_def)
    then show ?thesis by simp
  qed
  have "string_token_rest (quote_units s @ 34 # r) acc = string_token_rest (34 # r) (acc @ quote_units s)"
    using string_token_unicode string_token_unit pair by (rule quote_units_scan)
  then show ?thesis by simp
qed

lemma string_token_json: "string_token (json_string s @ r) = Some (json_string s, r)"
proof -
  have "json_string s @ r = js ''\"'' @ quote_units s @ 34 # r" by (simp add: json_string_def js_def)
  then show ?thesis by (simp add: string_token_def string_token_units) (simp add: json_string_def)
qed

lemma parse_contains:
  assumes "plain_text path" "code_units v"
  shows "tryParseRequestCondition (js ''has('' @ source_head SOURCE_HEADER path @ js '', '' @ json_string v @ js '')'') =
    Inr (Some (ParamHeaderCondition SOURCE_HEADER path MATCH_CONTAINS v))"
proof -
  let ?text = "js ''has('' @ source_head SOURCE_HEADER path @ js '', '' @ json_string v @ js '')''"
  have "tryParseTimeCondition ?text = None"
    by (rule not_a_time_condition) (simp add: starts_with_iff js_def)
  moreover have "exists_match ?text = None" by (simp add: exists_match_def source_call_has)
  moreover have "has_call SOURCE_HEADER ?text = Some (path, json_string v)"
    using string_token_json [of v "js '')''"] by (simp add: has_call_def source_call_head [OF assms(1)])
  ultimately show ?thesis
    by (simp add: tryParseRequestCondition_def contains_condition_def json_parse_string [OF assms(2)])
qed

subsection \<open>Equality conditions\<close>

definition literal_text :: "js_string \<Rightarrow> js_string" where
  "literal_text v =
     (if v = js ''true'' \<or> v = js ''false'' \<or> NUMERIC_LITERAL_REGEX v then v else json_string v)"

lemma json_string_trim: "trim (json_string s) = json_string s"
  by (rule trim_id) (simp_all add: json_string_def is_space_def)

lemma json_string_not_numeric: "\<not> NUMERIC_LITERAL_REGEX (json_string s)"
  using numeric_units [of "json_string s"] by (auto simp: json_string_def is_num_unit_def is_digit_def)

lemma literal_reads_back:
  assumes "code_units v"
  shows "parseExprLiteral (literal_text v) = Some (VStr v)"
proof (cases "v = js ''true'' \<or> v = js ''false'' \<or> NUMERIC_LITERAL_REGEX v")
  case True
  moreover have "trim (js ''true'') = js ''true''" "trim (js ''false'') = js ''false''" by code_simp+
  ultimately have "trim v = v" using numeric_units units_trim by metis
  with True show ?thesis by (auto simp: parseExprLiteral_def literal_text_def)
next
  case False
  have "json_string v \<noteq> js ''true''" "json_string v \<noteq> js ''false''" by (simp_all add: json_string_def js_def)
  with False show ?thesis
    by (simp add: parseExprLiteral_def literal_text_def json_string_trim json_string_not_numeric json_parse_string [OF assms])
qed

lemma quote_units_no_line_end:
  assumes "list_all (\<lambda>c. c \<noteq> 8232 \<and> c \<noteq> 8233) s"
  shows "list_all (\<lambda>c. \<not> is_line_end c) (quote_units s)"
proof -
  have "hex_digit (n mod 16) < 128" "32 \<le> hex_digit (n mod 16)" for n
  proof -
    have "0 \<le> n mod 16" "n mod 16 < 16" by simp_all
    then show "hex_digit (n mod 16) < 128" "32 \<le> hex_digit (n mod 16)" unfolding hex_digit_def by (smt (verit))+
  qed
  then have "\<not> is_line_end (hex_digit (n mod 16))" for n
    unfolding is_line_end_def by (smt (verit))
  then have unicode: "list_all (\<lambda>c. \<not> is_line_end c) (unicode_escape c)" for c
    by (simp add: unicode_escape_def) (simp add: is_line_end_def)
  then have unit: "c \<noteq> 8232 \<and> c \<noteq> 8233 \<Longrightarrow> list_all (\<lambda>c. \<not> is_line_end c) (quote_unit c)" for c
    by (simp add: quote_unit_def) (simp add: is_line_end_def)
  show ?thesis using assms
  proof (induction s rule: quote_units.induct)
    case (3 c d s)
    then show ?case
      using unicode unit by (auto simp: is_line_end_def is_lead_def is_trail_def)
  qed (use unicode unit in auto)
qed

lemma literal_text_one_line:
  assumes "list_all (\<lambda>c. c \<noteq> 8232 \<and> c \<noteq> 8233) v"
  shows "literal_text v \<noteq> [] \<and> list_all (\<lambda>c. \<not> is_line_end c) (literal_text v)"
proof -
  have "list_all (\<lambda>c. \<not> is_line_end c) v \<and> v \<noteq> []" if "NUMERIC_LITERAL_REGEX v"
    using numeric_units [OF that] by (auto simp: list_all_iff is_num_unit_def is_line_end_def is_digit_def)
  moreover have "list_all (\<lambda>c. \<not> is_line_end c) (js ''true'')" "list_all (\<lambda>c. \<not> is_line_end c) (js ''false'')"
    by code_simp+
  moreover have "list_all (\<lambda>c. \<not> is_line_end c) (json_string v)"
    using quote_units_no_line_end [OF assms] by (simp add: json_string_def is_line_end_def)
  ultimately show ?thesis by (auto simp: literal_text_def json_string_def)
qed

lemma guarded_param_equals: "plain_text path \<Longrightarrow> guarded_param (source_head src path @ js '' == '' @ raw) = None"
  by (cases src) (simp_all add: guarded_param_def source_call_head source_call_other strip_prefix_def js_def)

lemma parse_equals:
  assumes "plain_text path" "code_units v" "list_all (\<lambda>c. c \<noteq> 8232 \<and> c \<noteq> 8233) v"
  shows "tryParseRequestCondition (source_head src path @ js '' == '' @ literal_text v) =
    Inr (Some (ParamHeaderCondition src path MATCH_EQ v))"
proof -
  let ?text = "source_head src path @ js '' == '' @ literal_text v"
  note line = literal_text_one_line [OF assms(3)]
  have "exists_match ?text = None"
    by (cases src) (simp_all add: exists_match_def source_call_head [OF assms(1)] source_call_other js_def)
  moreover have "equals_match ?text = Some (src, path, literal_text v)"
    using line by (cases src) (simp_all add: equals_match_def source_call_head [OF assms(1)] source_call_other Let_def)
  ultimately show ?thesis
    by (simp add: tryParseRequestCondition_def source_head_not_time has_call_source guarded_contains_def
        guarded_order_def guarded_param_equals [OF assms(1)] equals_condition_def literal_reads_back [OF assms(2)])
qed

subsection \<open>Written conditions are inert\<close>

definition calm :: "code_unit \<Rightarrow> int \<Rightarrow> js_string \<Rightarrow> bool" where
  "calm x d s \<longleftrightarrow> list_all (\<lambda>c. \<not> is_quote c \<and> bracket_step c = 0 \<and> (d = 0 \<longrightarrow> c \<noteq> 63 \<and> c \<noteq> x)) s"

lemma inert_calm: "calm x d s \<Longrightarrow> inert x (s @ t) d None = inert x t d None"
  by (induction s) (auto simp: calm_def)

lemma calm_deep: "0 < d \<Longrightarrow> list_all (\<lambda>c. \<not> is_quote c \<and> bracket_step c = 0) s \<Longrightarrow> calm x d s"
  by (simp add: calm_def)

lemma calm_units: "list_all is_num_unit v \<Longrightarrow> \<not> is_num_unit x \<Longrightarrow> calm x d v"
  by (auto simp: calm_def list_all_iff is_num_unit_def is_digit_def is_quote_def bracket_step_def)

lemma inert_open: "0 \<le> d \<Longrightarrow> inert x (js ''('' @ t) d None = inert x t (d + 1) None"
  by (simp add: js_def is_quote_def bracket_step_def)

lemma inert_close: "0 \<le> d \<Longrightarrow> x \<noteq> 41 \<Longrightarrow> inert x (js '')'' @ t) (d + 1) None = inert x t d None"
  by (simp add: js_def is_quote_def bracket_step_def)

lemma inert_call:
  "0 \<le> d \<Longrightarrow> calm x d name \<Longrightarrow> x \<noteq> 41 \<Longrightarrow>
   inert x (name @ js ''('' @ json_string s @ js '')'' @ t) d None = inert x t d None"
  by (simp add: inert_calm inert_open inert_json_string inert_close)

text \<open>The two characters at which request rules are split.\<close>

definition splits_rules :: "code_unit \<Rightarrow> bool" where
  "splits_rules x \<longleftrightarrow> x = 42 \<or> x = 38"

lemma calm_letters: "list_all is_letter s \<Longrightarrow> splits_rules x \<Longrightarrow> calm x d s"
  by (auto simp: calm_def list_all_iff is_letter_def is_quote_def bracket_step_def splits_rules_def)

lemma call_name_letters: "list_all is_letter (source_text_of src)" "list_all is_letter (time_function_text f)"
proof -
  show "list_all is_letter (source_text_of src)" 
    by (cases src) (simp_all add: source_text_of_def js_def is_letter_def)
  show "list_all is_letter (time_function_text f)" 
    by (cases f) (simp_all add: js_def is_letter_def)
qed

lemma splits_not_close: "splits_rules x \<Longrightarrow> x \<noteq> 41 \<and> \<not> is_num_unit x"
  by (auto simp: splits_rules_def is_num_unit_def is_digit_def)

lemma inert_source_head:
  "0 \<le> d \<Longrightarrow> splits_rules x \<Longrightarrow> inert x (source_head src path @ t) d None = inert x t d None"
  by (simp add: source_head_def inert_call calm_letters call_name_letters splits_not_close)

lemma inert_time_head:
  "0 \<le> d \<Longrightarrow> splits_rules x \<Longrightarrow> inert x (time_head f tz @ t) d None = inert x t d None"
  by (simp add: time_head_def inert_call calm_letters call_name_letters splits_not_close)

lemma inert_literal:
  "0 \<le> d \<Longrightarrow> splits_rules x \<Longrightarrow> inert x (literal_text v @ t) d None = inert x t d None"
proof (cases "v = js ''true'' \<or> v = js ''false'' \<or> NUMERIC_LITERAL_REGEX v")
  case True
  assume "splits_rules x"
  moreover have "list_all is_letter (js ''true'')" "list_all is_letter (js ''false'')" by code_simp+
  ultimately have "calm x d v"
    using True numeric_units calm_units calm_letters splits_not_close by metis
  with True show ?thesis by (auto simp: literal_text_def inert_calm)
qed (simp add: literal_text_def inert_json_string)

lemma inert_has:
  assumes "0 \<le> d" "splits_rules x"
  shows "inert x (js ''has('' @ source_head src path @ js '', '' @ json_string v @ js '')'' @ t) d None = inert x t d None"
proof -
  have "js ''has('' = js ''has'' @ js ''(''" by (simp add: js_def)
  moreover have "calm x d (js ''has'')" "calm x (d + 1) (js '', '')"
    using assms by (auto simp: calm_def splits_rules_def js_def is_quote_def bracket_step_def)
  moreover have "x \<noteq> 41" using assms(2) by (auto simp: splits_rules_def)
  ultimately show ?thesis
    using assms by (simp add: inert_calm inert_open inert_source_head inert_json_string inert_close)
qed

lemma inert_word:
  "splits_rules x \<Longrightarrow> w \<in> {js '' == '', js '' >= '', js '' < '', js '' || '', js '' != nil''} \<Longrightarrow>
   inert x (w @ t) d None = inert x t d None"
  by (rule inert_calm) (auto simp: splits_rules_def calm_def js_def is_quote_def bracket_step_def)

lemma inert_not_empty: "splits_rules x \<Longrightarrow> inert x (js '' != \"\"'' @ t) d None = inert x t d None"
  by (auto simp: splits_rules_def js_def is_quote_def bracket_step_def)

subsection \<open>Conditions that read back\<close>

fun readable :: "request_condition \<Rightarrow> bool" where
  "readable (ParamHeaderCondition src path mode v) \<longleftrightarrow>
     plain_text path \<and> trim path = path \<and>
     (mode = MATCH_EXISTS \<and> v = [] \<or>
      mode = MATCH_EQ \<and> trim v = v \<and> code_units v \<and> list_all (\<lambda>c. c \<noteq> 8232 \<and> c \<noteq> 8233) v \<or>
      mode = MATCH_CONTAINS \<and> src = SOURCE_HEADER \<and> trim v = v \<and> code_units v)"
| "readable (TimeCondition f tz mode v a b) \<longleftrightarrow>
     plain_text tz \<and>
     (mode = MATCH_RANGE \<and> v = [] \<and> isTimeValueInRange f a \<and> isTimeValueInRange f b \<or>
      mode \<in> {MATCH_EQ, MATCH_GTE, MATCH_LT} \<and> a = [] \<and> b = [] \<and> isTimeValueInRange f v)"

definition reads_back :: "request_condition \<Rightarrow> js_string \<Rightarrow> bool" where
  "reads_back c s \<longleftrightarrow>
     tryParseRequestConditions s = Inr (Some [c]) \<and> inert 42 s 1 None = Some (1, None) \<and> s \<noteq> []"

lemma trim_framed:
  assumes "a \<noteq> []" "\<not> is_space (hd a)" "b \<noteq> []" "\<not> is_space (last b)"
  shows "trim (a @ m @ b) = a @ m @ b"
  using assms by (intro trim_id) simp_all

lemma single_condition:
  assumes "whole_piece 38 s" "tryParseTimeCondition s = None" "tryParseRequestCondition s = Inr (Some c)"
  shows "tryParseRequestConditions s = Inr (Some [c])"
proof -
  have "splitTopLevelAnd s = [s]"
    using splitting_inert [of 38 s "[38]"] assms(1) by (simp add: splitTopLevelAnd_def whole_piece_def js_def)
  then show ?thesis using assms by (simp add: tryParseRequestConditions_def whole_piece_def)
qed

lemma heads_start:
  "source_head src path \<noteq> [] \<and> \<not> is_space (hd (source_head src path))"
  "time_head f tz \<noteq> [] \<and> \<not> is_space (hd (time_head f tz))"
proof -
  show "source_head src path \<noteq> [] \<and> \<not> is_space (hd (source_head src path))"
    by (cases src) (simp_all add: source_head_def source_text_of_def js_def is_space_def)
  show "time_head f tz \<noteq> [] \<and> \<not> is_space (hd (time_head f tz))"
    by (cases f) (simp_all add: time_head_def js_def is_space_def)
qed

lemma splits_rules_simps [simp]: "splits_rules 42" "splits_rules 38"
  by (simp_all add: splits_rules_def)

lemma exists_reads_back:
  assumes "plain_text path"
  shows "reads_back (ParamHeaderCondition SOURCE_HEADER path MATCH_EXISTS []) (source_head SOURCE_HEADER path @ js '' != \"\"'')"
    and "reads_back (ParamHeaderCondition SOURCE_PARAM path MATCH_EXISTS []) (source_head SOURCE_PARAM path @ js '' != nil'')"
proof -
  have "whole_piece 38 (source_head SOURCE_HEADER path @ js '' != \"\"'')"
    using trim_framed [of "source_head SOURCE_HEADER path" "js '' != \"\"''" "[]"] heads_start(1)
      inert_not_empty [of 38 "[]"]
    by (simp add: whole_piece_def inert_source_head js_def is_space_def)
  moreover have "whole_piece 38 (source_head SOURCE_PARAM path @ js '' != nil'')"
    using trim_framed [of "source_head SOURCE_PARAM path" "js '' != nil''" "[]"] heads_start(1)
      inert_word [of 38 "js '' != nil''" "[]"]
    by (simp add: whole_piece_def inert_source_head js_def is_space_def)
  ultimately show "reads_back (ParamHeaderCondition SOURCE_HEADER path MATCH_EXISTS []) (source_head SOURCE_HEADER path @ js '' != \"\"'')"
      "reads_back (ParamHeaderCondition SOURCE_PARAM path MATCH_EXISTS []) (source_head SOURCE_PARAM path @ js '' != nil'')"
    using single_condition parse_exists [OF assms] source_head_not_time inert_not_empty [of 42 "[]"]
      inert_word [of 42 "js '' != nil''" "[]"]
    by (simp_all add: reads_back_def inert_source_head)
qed

lemma contains_reads_back:
  assumes "plain_text path" "code_units v"
  shows "reads_back (ParamHeaderCondition SOURCE_HEADER path MATCH_CONTAINS v)
    (js ''has('' @ source_head SOURCE_HEADER path @ js '', '' @ json_string v @ js '')'')"
proof -
  let ?s = "js ''has('' @ source_head SOURCE_HEADER path @ js '', '' @ json_string v @ js '')''"
  have "trim ?s = ?s"
    using trim_framed [of "js ''has(''" "js '')''" "source_head SOURCE_HEADER path @ js '', '' @ json_string v"]
    by (simp add: js_def is_space_def)
  then have "whole_piece 38 ?s"
    using inert_has [of 0 38 SOURCE_HEADER path v "[]"] by (simp add: whole_piece_def)
  moreover have "tryParseTimeCondition ?s = None"
    by (rule not_a_time_condition) (simp add: starts_with_iff js_def)
  ultimately show ?thesis
    using single_condition parse_contains [OF assms] inert_has [of 1 42 SOURCE_HEADER path v "[]"]
    by (simp add: reads_back_def)
qed

lemma literal_text_end:
  assumes "v = [] \<or> trim v = v"
  shows "literal_text v \<noteq> [] \<and> \<not> is_space (last (literal_text v))"
proof (cases "v = js ''true'' \<or> v = js ''false'' \<or> NUMERIC_LITERAL_REGEX v")
  case True
  then have "v \<noteq> []" using numeric_units by auto
  moreover have "\<not> is_space (last v)"
    using trim_no_trailing [of v "butlast v" "last v"] assms \<open>v \<noteq> []\<close> by simp
  ultimately show ?thesis using True by (auto simp: literal_text_def)
qed (simp add: literal_text_def json_string_def is_space_def)

lemma equals_reads_back:
  assumes "plain_text path" "code_units v" "list_all (\<lambda>c. c \<noteq> 8232 \<and> c \<noteq> 8233) v" "trim v = v"
  shows "reads_back (ParamHeaderCondition src path MATCH_EQ v) (source_head src path @ js '' == '' @ literal_text v)"
proof -
  let ?s = "source_head src path @ js '' == '' @ literal_text v"
  have "trim ?s = ?s" "?s \<noteq> []"
    using trim_framed heads_start(1) literal_text_end assms(4) by auto
  moreover have inert: "inert x ?s d None = Some (d, None)" if "0 \<le> d" "splits_rules x" for x d
    using inert_literal [of d x v "[]"] that by (simp add: inert_source_head inert_word)
  ultimately have "whole_piece 38 ?s" by (simp add: whole_piece_def)
  then show ?thesis
    using single_condition [of ?s] parse_equals [OF assms(1-3)] source_head_not_time inert [of 1 42] \<open>?s \<noteq> []\<close>
    by (simp add: reads_back_def)
qed

lemma time_reads_back:
  assumes "tryParseTimeCondition s = Some c" "s = time_head f tz @ m @ v" "list_all is_num_unit v" "v \<noteq> []"
    and "inert 42 (m @ v) 1 None = Some (1, None)"
  shows "reads_back c s"
proof -
  have "is_num_unit (last v)" using assms(3,4) by (simp add: list_all_iff)
  then have "\<not> is_space (last v)" by (auto simp: is_num_unit_def is_space_def is_digit_def)
  then have "trim s = s" using assms(2,4) trim_framed heads_start(2) by metis
  then show ?thesis
    using assms(1,2,5) heads_start(2) by (simp add: reads_back_def tryParseRequestConditions_def inert_time_head)
qed

lemma scalar_reads_back:
  assumes "plain_text tz" "isTimeValueInRange f v"
    and "(mode, text) \<in> {(MATCH_EQ, js '' == ''), (MATCH_GTE, js '' >= ''), (MATCH_LT, js '' < '')}"
  shows "reads_back (TimeCondition f tz mode v [] []) (time_head f tz @ text @ v)"
proof (rule time_reads_back [OF parse_time_scalar [OF assms] refl])
  note v = in_range_units [OF assms(2)]
  from v show "list_all is_num_unit v" "v \<noteq> []" by simp_all
  have "inert 42 (text @ v) 1 None = inert 42 v 1 None" using assms(3) by (auto intro: inert_word)
  then show "inert 42 (text @ v) 1 None = Some (1, None)"
    using inert_calm [OF calm_units [of v 42 1], of "[]"] v splits_not_close [of 42] by simp
qed

lemma range_reads_back:
  assumes "plain_text tz" "isTimeValueInRange f a" "isTimeValueInRange f b" "sep = js '' && '' \<or> sep = js '' || ''"
  shows "reads_back (TimeCondition f tz MATCH_RANGE [] a b)
    (time_head f tz @ js '' >= '' @ a @ sep @ time_head f tz @ js '' < '' @ b)"
proof (rule time_reads_back [OF parse_time_range [OF assms]])
  show "time_head f tz @ js '' >= '' @ a @ sep @ time_head f tz @ js '' < '' @ b =
    time_head f tz @ (js '' >= '' @ a @ sep @ time_head f tz @ js '' < '') @ b" by simp
  note a = in_range_units [OF assms(2)] and b = in_range_units [OF assms(3)]
  from b show "list_all is_num_unit b" "b \<noteq> []" by simp_all
  have units: "inert 42 (v @ t) 1 None = inert 42 t 1 None" if "list_all is_num_unit v" for v t
    using inert_calm [OF calm_units [OF that, of 42 1]] splits_not_close [of 42] by simp
  have "calm 42 1 sep" using assms(4) by (auto simp: calm_def js_def is_quote_def bracket_step_def)
  then show "inert 42 ((js '' >= '' @ a @ sep @ time_head f tz @ js '' < '') @ b) 1 None = Some (1, None)"
    using a b units [of b "[]"] by (simp add: inert_word units inert_calm inert_time_head)
qed

subsection \<open>Normal conditions\<close>

definition valid_mode :: "request_condition \<Rightarrow> bool" where
  "valid_mode c \<longleftrightarrow>
     (case c of
        ParamHeaderCondition src path mode v \<Rightarrow> mode \<in> fst ` set (getRequestRuleMatchOptions (source_text_of src))
      | TimeCondition f tz mode v a b \<Rightarrow> mode \<in> fst ` set (getRequestRuleMatchOptions (js ''time'')) \<and> tz \<noteq> [])"

lemma isTimeFunc_text: "isTimeFunc (Some (time_function_text f)) = Some f"
  by (cases f) (simp_all add: isTimeFunc_def TIME_FUNCTIONS_def)

lemma chosen_mode_valid: "chosen_mode src (Some m) d = (if m \<in> fst ` set (getRequestRuleMatchOptions src) then m else d)"
  by (force simp: chosen_mode_def list_ex_iff image_iff)

lemma or_default_Some: "or_default (Some t) d = (if t = [] then d else t)"
  by (simp add: or_default_def)

lemma normal_condition_fixed: "normalizeCondition (Some (partial_of c)) = c \<longleftrightarrow> valid_mode c"
proof (cases c)
  case (ParamHeaderCondition src path mode v)
  have "source_text_of src \<noteq> js ''time''" by (cases src) (simp_all add: source_text_of_def)
  moreover have "(if source_text_of src = js ''header'' then SOURCE_HEADER else SOURCE_PARAM) = src"
    by (cases src) (simp_all add: source_text_of_def)
  moreover have "MATCH_EQ \<in> fst ` set (getRequestRuleMatchOptions (source_text_of src))"
    by (cases src) (simp_all add: source_text_of_def getRequestRuleMatchOptions_def)
  ultimately show ?thesis
    using ParamHeaderCondition
    by (auto simp: normalizeCondition_def valid_mode_def chosen_mode_valid or_default_Some text_or_empty_def)
next
  case (TimeCondition f tz mode v a b)
  have "MATCH_GTE \<in> fst ` set (getRequestRuleMatchOptions (js ''time''))"
    by (simp add: getRequestRuleMatchOptions_def)
  with TimeCondition show ?thesis
    by (auto simp: normalizeCondition_def valid_mode_def chosen_mode_valid or_default_Some text_or_empty_def isTimeFunc_text
        js_eq_iff)
qed

lemma normalized_valid: "valid_mode (normalizeCondition c)"
proof -
  have "chosen_mode src m d \<in> fst ` set (getRequestRuleMatchOptions src)"
    if "d \<in> fst ` set (getRequestRuleMatchOptions src)" for src m d
    using that by (cases m) (simp_all add: chosen_mode_valid, simp add: chosen_mode_def)
  moreover have "MATCH_GTE \<in> fst ` set (getRequestRuleMatchOptions (js ''time''))"
    by (simp add: getRequestRuleMatchOptions_def)
  moreover have "MATCH_EQ \<in> fst ` set (getRequestRuleMatchOptions (source_text_of src))" for src
    by (cases src) (simp_all add: source_text_of_def getRequestRuleMatchOptions_def)
  moreover have "or_default z (js ''Asia/Shanghai'') \<noteq> []" for z
    by (cases z) (simp_all add: or_default_def)
  ultimately show ?thesis by (simp add: normalizeCondition_def valid_mode_def Let_def)
qed

lemma readable_valid: "readable c \<Longrightarrow> valid_mode c"
  by (cases c; cases "ph_source c")
    (auto simp: valid_mode_def getRequestRuleMatchOptions_def source_text_of_def plain_text_def)

lemma build_normal:
  assumes "readable c"
  shows "buildRequestConditionExpr c =
    (case c of TimeCondition f tz mode v a b \<Rightarrow> build_time f tz mode v a b
     | ParamHeaderCondition src path mode v \<Rightarrow> build_param_header src path mode v)"
  unfolding buildRequestConditionExpr_def normal_condition_fixed [THEN iffD2, OF readable_valid [OF assms]] by simp

lemma build_request_readable:
  assumes "readable (ParamHeaderCondition src path mode v)"
  shows "reads_back (ParamHeaderCondition src path mode v) (build_param_header src path mode v)"
proof -
  from assms have path: "plain_text path" "trim path = path" "path \<noteq> []" by (auto simp: plain_text_def)
  consider (ex) "mode = MATCH_EXISTS" "v = []"
    | (eq) "mode = MATCH_EQ" "trim v = v" "code_units v" "list_all (\<lambda>c. c \<noteq> 8232 \<and> c \<noteq> 8233) v"
    | (contains) "mode = MATCH_CONTAINS" "src = SOURCE_HEADER" "trim v = v" "code_units v"
    using assms by auto
  then show ?thesis
  proof cases
    case ex
    then show ?thesis
      using path exists_reads_back [OF path(1)]
      by (cases src) (simp_all add: build_param_header_def source_head_def Let_def)
  next
    case eq
    have "build_param_header src path mode v = source_head src path @ js '' == '' @ literal_text v"
      using eq path
      by (simp add: build_param_header_def source_head_def Let_def buildExprLiteral_def literal_text_def
          order_text_def match_modes)
    then show ?thesis using eq path(1) equals_reads_back by simp
  next
    case contains
    have "MATCH_CONTAINS \<noteq> MATCH_EXISTS" by (simp add: match_modes)
    with contains show ?thesis
      using path contains_reads_back [OF path(1)]
      by (simp add: build_param_header_def source_head_def Let_def buildExprLiteral_def)
  qed
qed

lemma build_time_readable:
  assumes "readable (TimeCondition f tz mode v a b)"
  shows "reads_back (TimeCondition f tz mode v a b) (build_time f tz mode v a b)"
proof -
  have trim: "trim w = w" if "isTimeValueInRange f w" for w using in_range_units [OF that] units_trim by blast
  show ?thesis
  proof (cases "mode = MATCH_RANGE")
    case True
    then have "v = []" "plain_text tz" "isTimeValueInRange f a" "isTimeValueInRange f b"
      using assms by (auto simp: match_modes)
    with True show ?thesis
      using trim range_reads_back [of tz f a b "js '' && ''"] range_reads_back [of tz f a b "js '' || ''"]
      by (simp add: build_time_def time_head_def Let_def)
  next
    case False
    then have scalar: "mode \<in> {MATCH_EQ, MATCH_GTE, MATCH_LT}" "a = []" "b = []" "plain_text tz" "isTimeValueInRange f v"
      using assms by auto
    have written: "build_time f tz mode v a b = time_head f tz @ t @ v"
      if "(mode, t) \<in> {(MATCH_EQ, js '' == ''), (MATCH_GTE, js '' >= ''), (MATCH_LT, js '' < '')}" for t
      using that False scalar trim [OF scalar(5)]
      by (auto simp: build_time_def time_head_def Let_def js_def match_modes)
    obtain t where "(mode, t) \<in> {(MATCH_EQ, js '' == ''), (MATCH_GTE, js '' >= ''), (MATCH_LT, js '' < '')}"
      using scalar(1) by auto
    then show ?thesis using written scalar scalar_reads_back by metis
  qed
qed

lemma build_readable: "readable c \<Longrightarrow> reads_back c (buildRequestConditionExpr c)"
  using build_normal [of c] build_request_readable build_time_readable by (cases c) auto

subsection \<open>Groups that read back\<close>

definition readable_group :: "request_rule_group \<Rightarrow> bool" where
  "readable_group g \<longleftrightarrow>
     NUMERIC_LITERAL_REGEX (rg_multiplier g) \<and>
     (\<exists>c. readable c \<and> g = rule_group [c] (rg_multiplier g))"

lemma takeWhile_rev_units:
  assumes "list_all is_num_unit m" "\<not> is_num_unit c"
  shows "rev (takeWhile is_num_unit (rev (s @ [c] @ m))) = m"
proof -
  have "takeWhile is_num_unit (rev m @ c # rev s) = rev m"
    using span_all [of is_num_unit "rev m" "c # rev s"] assms by (simp add: list_all_iff)
  then show ?thesis by simp
qed

lemma rule_factor_written:
  assumes "cond \<noteq> []" "m \<noteq> []" "list_all is_num_unit m"
  shows "rule_factor_match (js ''('' @ cond @ js '' ? '' @ m @ js '' : 1)'') = Some (cond, m)"
proof -
  let ?part = "js ''('' @ cond @ js '' ? '' @ m @ js '' : 1)''"
  have "starts_with ?part (js ''('')" "ends_with ?part (js '' : 1)'')"
    unfolding starts_with_iff ends_with_iff by (blast, metis append.assoc)
  moreover have mid: "slice ?part 1 (length ?part - 5) = cond @ js '' ? '' @ m"
    by (simp add: slice_def js_def eval_nat_numeral)
  moreover have multiplier: "rev (takeWhile is_num_unit (rev (cond @ js '' ? '' @ m))) = m"
    using takeWhile_rev_units [OF assms(3), of 32 "cond @ [32, 63]"]
    by (simp add: js_def is_num_unit_def is_digit_def)
  moreover have front: "take (length (cond @ js '' ? '' @ m) - length m) (cond @ js '' ? '' @ m) = cond @ js '' ? ''"
    by simp
  moreover have "ends_with (cond @ js '' ? '') (js '' ? '')" by (auto simp: ends_with_iff)
  moreover have "take (length (cond @ js '' ? '') - 3) (cond @ js '' ? '') = cond" "3 < length (cond @ js '' ? '')"
    using assms(1) by (simp_all add: js_def)
  ultimately show ?thesis
    unfolding rule_factor_match_def Let_def mid multiplier front using assms(2) by simp
qed

lemma single_group_factor:
  assumes "NUMERIC_LITERAL_REGEX m" "buildRequestConditionExpr c = cond" "cond \<noteq> []" "inert 42 cond 1 None = Some (1, None)"
  shows "whole_piece 42 (buildRuleGroupFactor (rule_group [c] m)) \<and>
    rule_factor_match (buildRuleGroupFactor (rule_group [c] m)) = Some (cond, m)"
proof -
  let ?f = "buildRuleGroupFactor (rule_group [c] m)"
  have m: "m \<noteq> []" "list_all is_num_unit m" "trim m = m"
    using assms(1) numeric_units units_trim by auto
  have factor: "?f = js ''('' @ cond @ js '' ? '' @ m @ js '' : 1)''"
    using m assms by (simp add: buildRuleGroupFactor_def Let_def)
  have calm: "calm 42 1 (js '' ? '')" "calm 42 1 (js '' : 1'')" "calm 42 1 m"
    using calm_units [OF m(2), of 42 1] by (simp_all add: calm_def js_def is_quote_def bracket_step_def is_num_unit_def is_digit_def)
  have "js '' : 1)'' = js '' : 1'' @ js '')''" by (simp add: js_def)
  then have "inert 42 ?f 0 None = Some (0, None)"
    using assms(4) calm inert_close [of 0 42 "[]"]
    by (simp add: factor inert_open inert_append [of 42 cond 1 None 1 None] inert_calm)
  moreover have "trim ?f = ?f"
    unfolding factor using trim_framed [of "js ''(''" "js '' : 1)''" "cond @ js '' ? '' @ m"]
    by (simp add: js_def is_space_def)
  ultimately show ?thesis
    using rule_factor_written [OF assms(3) m(1,2)] by (simp add: whole_piece_def factor)
qed

lemma group_reads_back:
  assumes "readable_group g"
  shows "whole_piece 42 (buildRuleGroupFactor g) \<and> tryParseRuleGroupFactor (buildRuleGroupFactor g) = Inr (Some g)"
proof -
  let ?m = "rg_multiplier g"
  obtain c where c: "readable c" "g = rule_group [c] ?m" "NUMERIC_LITERAL_REGEX ?m"
    using assms by (auto simp: readable_group_def)
  have reads: "reads_back c (buildRequestConditionExpr c)" using build_readable [OF c(1)] .
  then have "whole_piece 42 (buildRuleGroupFactor (rule_group [c] ?m)) \<and>
      rule_factor_match (buildRuleGroupFactor (rule_group [c] ?m)) = Some (buildRequestConditionExpr c, ?m)"
    using single_group_factor [OF c(3) refl] by (simp add: reads_back_def)
  then have "whole_piece 42 (buildRuleGroupFactor (rule_group [c] ?m)) \<and>
      tryParseRuleGroupFactor (buildRuleGroupFactor (rule_group [c] ?m)) = Inr (Some (rule_group [c] ?m))"
    using reads by (simp add: tryParseRuleGroupFactor_def reads_back_def)
  then show ?thesis using c(2) by simp
qed

lemma rule_groups_loop_all:
  "list_all2 (\<lambda>p g. tryParseRuleGroupFactor p = Inr (Some g)) ps gs \<Longrightarrow> rule_groups_loop ps = Inr (Some gs)"
  by (induction rule: list_all2_induct) simp_all

lemma join_whole_trim:
  assumes "list_all (whole_piece x) ps" "ps \<noteq> []"
  shows "trim (join sep ps) = join sep ps \<and> join sep ps \<noteq> []"
proof -
  have ends: "p \<noteq> [] \<and> \<not> is_space (hd p) \<and> \<not> is_space (last p)" if "p \<in> set ps" for p
  proof -
    have p: "p \<noteq> []" "trim p = p" using assms(1) that by (auto simp: list_all_iff whole_piece_def)
    then show ?thesis
      using trim_no_leading [of p "hd p" "tl p"] trim_no_trailing [of p "butlast p" "last p"] by simp
  qed
  have "join sep ps \<noteq> [] \<and> \<not> is_space (hd (join sep ps)) \<and> \<not> is_space (last (join sep ps))"
    using ends assms(2) by (induction sep ps rule: join.induct) (auto simp: hd_append)
  then show ?thesis using trim_id by blast
qed

theorem rules_roundtrip:
  assumes "list_all readable_group gs"
  shows "tryParseRequestRuleExpr (buildRequestRuleExpr gs) = Inr (Some gs)"
proof (cases "gs = []")
  case True
  then show ?thesis by (simp add: buildRequestRuleExpr_def tryParseRequestRuleExpr_def)
next
  case False
  let ?fs = "map buildRuleGroupFactor gs"
  have pieces: "list_all (whole_piece 42) ?fs" using assms group_reads_back by (auto simp: list_all_iff)
  then have "filter (\<lambda>f. f \<noteq> []) ?fs = ?fs" by (auto simp: filter_id_conv list_all_iff whole_piece_def)
  then have written: "buildRequestRuleExpr gs = join (js '' * '') ?fs" by (simp add: buildRequestRuleExpr_def)
  have "splitTopLevelMultiply (join (js '' * '') ?fs) = ?fs"
    using splitting_pieces [OF _ pieces, of "[]"] False
    by (simp add: splitTopLevelMultiply_def js_def operator_unit_def is_quote_def bracket_step_def)
  moreover have "list_all2 (\<lambda>p g. tryParseRuleGroupFactor p = Inr (Some g)) ?fs gs"
    using assms group_reads_back by (auto simp: list_all2_map1 list_all_iff intro!: list.rel_refl_strong)
  ultimately show ?thesis
    using join_whole_trim [OF pieces] False rule_groups_loop_all
    by (simp add: tryParseRequestRuleExpr_def written)
qed

subsection \<open>Guarded parameter conditions do not read back\<close>

text \<open>The text after the guard: a containment test, or a comparison with a number.\<close>

definition guarded_test :: "js_string \<Rightarrow> js_string \<Rightarrow> js_string \<Rightarrow> js_string" where
  "guarded_test path mode v =
     (if mode = MATCH_CONTAINS then js ''has('' @ source_head SOURCE_PARAM path @ js '', '' @ json_string v @ js '')''
      else source_head SOURCE_PARAM path @ js '' '' @ the (order_text mode) @ js '' '' @ v)"

definition guarded_mode :: "js_string \<Rightarrow> js_string \<Rightarrow> bool" where
  "guarded_mode mode v \<longleftrightarrow>
     mode = MATCH_CONTAINS \<and> trim v = v \<or>
     mode \<in> {MATCH_GT, MATCH_GTE, MATCH_LT, MATCH_LTE} \<and> NUMERIC_LITERAL_REGEX v"

lemma guarded_text:
  assumes "plain_text path" "trim path = path" "guarded_mode mode v"
  shows "buildRequestConditionExpr (ParamHeaderCondition SOURCE_PARAM path mode v) =
    join (js '' && '') [source_head SOURCE_PARAM path @ js '' != nil'', guarded_test path mode v]"
proof -
  have "valid_mode (ParamHeaderCondition SOURCE_PARAM path mode v)"
    using assms(3) by (auto simp: guarded_mode_def valid_mode_def getRequestRuleMatchOptions_def source_text_of_def)
  then have normal: "normalizeCondition (Some (partial_of (ParamHeaderCondition SOURCE_PARAM path mode v))) =
      ParamHeaderCondition SOURCE_PARAM path mode v" by (rule normal_condition_fixed [THEN iffD2])
  have "path \<noteq> []" using assms(1) by (simp add: plain_text_def)
  moreover have "trim v = v" using assms(3) numeric_units units_trim by (auto simp: guarded_mode_def)
  moreover have nil: "js '' != nil && '' = js '' != nil'' @ js '' && ''" by (simp add: js_def)
  moreover have "MATCH_CONTAINS \<noteq> MATCH_EXISTS" "\<forall>m\<in>{MATCH_GT, MATCH_GTE, MATCH_LT, MATCH_LTE}. m \<noteq> MATCH_EXISTS \<and> m \<noteq> MATCH_CONTAINS"
      "\<forall>m\<in>{MATCH_GT, MATCH_GTE, MATCH_LT, MATCH_LTE}. order_text m \<noteq> None"
    by (simp_all add: match_modes order_text_def)
  ultimately show ?thesis
    unfolding buildRequestConditionExpr_def normal using assms(2,3)
    by (auto simp: build_param_header_def Let_def guarded_test_def guarded_mode_def source_head_def buildExprLiteral_def)
qed

lemma order_texts: "mode \<in> {MATCH_GT, MATCH_GTE, MATCH_LT, MATCH_LTE} \<Longrightarrow>
    the (order_text mode) \<in> {js ''>'', js ''>='', js ''<'', js ''<=''}"
  by (auto simp: order_text_def match_modes)

lemma guarded_test_unreadable:
  assumes "plain_text path" "guarded_mode mode v"
  shows "tryParseRequestCondition (guarded_test path mode v) = Inr None"
proof (cases "mode = MATCH_CONTAINS")
  case True
  let ?s = "js ''has('' @ source_head SOURCE_PARAM path @ js '', '' @ json_string v @ js '')''"
  have "tryParseTimeCondition ?s = None"
    by (rule not_a_time_condition) (simp add: starts_with_iff js_def)
  moreover have "has_call SOURCE_HEADER ?s = None" by (simp add: has_call_def source_call_other)
  ultimately show ?thesis
    using True by (simp add: guarded_test_def tryParseRequestCondition_def exists_match_def guarded_contains_def
        guarded_order_def guarded_param_def equals_match_def source_call_has Let_def)
next
  case False
  then obtain op where op: "op \<in> {js ''>'', js ''>='', js ''<'', js ''<=''}"
      "guarded_test path mode v = source_head SOURCE_PARAM path @ js '' '' @ op @ js '' '' @ v"
    using assms(2) order_texts by (auto simp: guarded_test_def guarded_mode_def)
  have "strip_prefix (js '' != nil && '') (js '' '' @ op @ js '' '' @ v) = None"
      "strip_prefix (js '' == '') (js '' '' @ op @ js '' '' @ v) = None" "js '' '' @ op @ js '' '' @ v \<noteq> js '' != nil''"
    using op(1) by (auto simp: strip_prefix_def js_def)
  then show ?thesis
    unfolding op(2)
    by (simp add: tryParseRequestCondition_def source_head_not_time has_call_source exists_match_def guarded_contains_def
        guarded_order_def guarded_param_def equals_match_def source_call_head [OF assms(1)] source_call_other Let_def)
qed

lemma guarded_test_whole:
  assumes "guarded_mode mode v"
  shows "whole_piece 38 (guarded_test path mode v) \<and> inert 42 (guarded_test path mode v) 1 None = Some (1, None)"
proof (cases "mode = MATCH_CONTAINS")
  case True
  let ?s = "js ''has('' @ source_head SOURCE_PARAM path @ js '', '' @ json_string v @ js '')''"
  have "trim ?s = ?s"
    using trim_framed [of "js ''has(''" "js '')''" "source_head SOURCE_PARAM path @ js '', '' @ json_string v"]
    by (simp add: js_def is_space_def)
  with True show ?thesis
    using inert_has [of 0 38 SOURCE_PARAM path v "[]"] inert_has [of 1 42 SOURCE_PARAM path v "[]"]
    by (simp add: whole_piece_def guarded_test_def)
next
  case False
  then obtain op where op: "op \<in> {js ''>'', js ''>='', js ''<'', js ''<=''}"
      "guarded_test path mode v = source_head SOURCE_PARAM path @ (js '' '' @ op @ js '' '') @ v"
    and v: "v \<noteq> []" "list_all is_num_unit v"
    using assms order_texts numeric_units by (auto simp: guarded_test_def guarded_mode_def)
  have "is_num_unit (last v)" using v by (simp add: list_all_iff)
  then have "\<not> is_space (last v)" by (auto simp: is_num_unit_def is_space_def is_digit_def)
  then have "trim (guarded_test path mode v) = guarded_test path mode v"
    unfolding op(2) using trim_framed heads_start(1) v(1) by metis
  moreover have "inert x (guarded_test path mode v) d None = Some (d, None)" if "0 \<le> d" "splits_rules x" for x d
  proof -
    have "calm x d (js '' '' @ op @ js '' '')"
      using op(1) that(2) by (auto simp: splits_rules_def calm_def js_def is_quote_def bracket_step_def)
    moreover have "calm x d v" using calm_units [OF v(2)] splits_not_close [OF that(2)] by blast
    ultimately show ?thesis
      unfolding op(2) using that inert_calm [of x d v "[]"] by (simp only: inert_source_head inert_calm append_Nil2 inert.simps)
  qed
  ultimately show ?thesis using heads_start(1) by (simp add: whole_piece_def op(2))
qed

theorem guarded_rule_unreadable:
  assumes "plain_text path" "trim path = path" "guarded_mode mode v" "NUMERIC_LITERAL_REGEX m"
  shows "buildRequestRuleExpr [rule_group [ParamHeaderCondition SOURCE_PARAM path mode v] m] \<noteq> [] \<and>
    tryParseRequestRuleExpr (buildRequestRuleExpr [rule_group [ParamHeaderCondition SOURCE_PARAM path mode v] m]) = Inr None"
proof -
  let ?c = "ParamHeaderCondition SOURCE_PARAM path mode v"
  let ?guard = "source_head SOURCE_PARAM path @ js '' != nil''" and ?test = "guarded_test path mode v"
  define cond where "cond = join (js '' && '') [?guard, ?test]"
  note test = guarded_test_whole [OF assms(3), of path]
  have guard: "whole_piece 38 ?guard"
    using trim_framed [of "source_head SOURCE_PARAM path" "js '' != nil''" "[]"] heads_start(1)
      inert_word [of 38 "js '' != nil''" "[]"]
    by (simp add: whole_piece_def inert_source_head js_def is_space_def)
  have "js '' && '' = 32 # 38 # [38] @ [32]" by (simp add: js_def)
  then have split: "splitTopLevelAnd cond = [?guard, ?test]"
    using splitting_pieces [of 38 "[?guard, ?test]" "[38]"] guard test
    by (simp add: cond_def splitTopLevelAnd_def operator_unit_def is_quote_def bracket_step_def js_def)
  have "calm 42 1 (js '' && '')" by (simp add: calm_def js_def is_quote_def bracket_step_def)
  then have "inert 42 cond 1 None = Some (1, None)"
    using test by (simp add: cond_def inert_source_head inert_word inert_calm)
  moreover have "trim cond = cond \<and> cond \<noteq> []"
    using join_whole_trim [of 38 "[?guard, ?test]"] guard test by (simp add: cond_def)
  moreover have "request_conditions_loop [?guard, ?test] = Inr None"
    using guard test parse_exists(2) [OF assms(1)] guarded_test_unreadable [OF assms(1,3)]
    by (simp add: whole_piece_def tryParseTimeRangePair_def source_head_not_time)
  moreover have "tryParseTimeCondition cond = None" by (simp add: cond_def source_head_not_time)
  ultimately have "tryParseRequestConditions cond = Inr None" "cond \<noteq> []" "inert 42 cond 1 None = Some (1, None)"
    by (simp_all only: tryParseRequestConditions_def split option.case bind_result_simps option.distinct if_False simp_thms)
  moreover have "buildRequestConditionExpr ?c = cond" using guarded_text [OF assms(1-3)] by (simp only: cond_def)
  ultimately have "whole_piece 42 (buildRuleGroupFactor (rule_group [?c] m))"
      "tryParseRuleGroupFactor (buildRuleGroupFactor (rule_group [?c] m)) = Inr None"
    using single_group_factor [OF assms(4)] by (simp_all add: tryParseRuleGroupFactor_def)
  then show ?thesis
    using splitting_inert [of 42 "buildRuleGroupFactor (rule_group [?c] m)" "[]"]
    by (simp add: buildRequestRuleExpr_def tryParseRequestRuleExpr_def whole_piece_def
        splitTopLevelMultiply_def js_def)
qed

subsection \<open>Combining a price with rules\<close>

lemma rules_are_rule_parts:
  "readable_group g \<Longrightarrow> is_rule_part (buildRuleGroupFactor g) = Inr True"
proof -
  assume g: "readable_group g"
  have "tryParseRequestRuleExpr (buildRequestRuleExpr [g]) = Inr (Some [g])"
    using rules_roundtrip [of "[g]"] g by simp
  moreover have "buildRequestRuleExpr [g] = buildRuleGroupFactor g"
    using group_reads_back [OF g] by (simp add: buildRequestRuleExpr_def whole_piece_def)
  ultimately show ?thesis by (simp add: is_rule_part_def)
qed

lemma sort_rule_parts:
  "list_all (\<lambda>p. is_rule_part p = Inr True) ps \<Longrightarrow> fold_result sort_part ps (rs, bs) = Inr (rs @ ps, bs)"
  by (induction ps arbitrary: rs) (simp_all add: sort_part_def)

theorem combined_splits:
  assumes "list_all readable_group gs" "gs \<noteq> []"
    and base: "base \<noteq> []" "trim base = base" "inert 42 base 1 None = Some (1, None)"
    and "is_wrapped (js ''('' @ base @ js '')'')" "is_rule_part (js ''('' @ base @ js '')'') = Inr False"
  shows "splitBillingExprAndRequestRules (combineBillingExpr base (buildRequestRuleExpr gs)) =
    Inr \<lparr>billingExpr = unwrapExpressionParens base, requestRuleExpr = buildRequestRuleExpr gs\<rparr>"
proof -
  let ?fs = "map buildRuleGroupFactor gs" and ?b = "js ''('' @ base @ js '')''"
  have rules: "list_all (whole_piece 42) ?fs" using assms(1) group_reads_back by (auto simp: list_all_iff)
  then have "filter (\<lambda>f. f \<noteq> []) ?fs = ?fs" by (auto simp: filter_id_conv list_all_iff whole_piece_def)
  then have built: "buildRequestRuleExpr gs = join (js '' * '') ?fs" by (simp add: buildRequestRuleExpr_def)
  have "trim ?b = ?b" using trim_framed [of "js ''(''" "js '')''" base] by (simp add: js_def is_space_def)
  moreover have "inert 42 ?b 0 None = Some (0, None)"
    using base(3) inert_close [of 0 42 "[]"] by (simp add: inert_open inert_append [of 42 base 1 None 1 None])
  ultimately have pieces: "list_all (whole_piece 42) (?b # ?fs)" using rules by (simp add: whole_piece_def)
  have "combineBillingExpr base (buildRequestRuleExpr gs) = join (js '' * '') (?b # ?fs)"
  proof -
    have "trim (buildRequestRuleExpr gs) = join (js '' * '') ?fs" "buildRequestRuleExpr gs \<noteq> []"
      using join_whole_trim [OF rules] assms(2) by (simp_all add: built)
    moreover from this have "trim (buildRequestRuleExpr gs) \<noteq> []" by (simp add: built)
    moreover have "join (js '' * '') (?b # ?fs) = ?b @ js '' * '' @ join (js '' * '') ?fs"
      using assms(2) by (cases gs) simp_all
    moreover have "js '') * '' = js '')'' @ js '' * ''" by (simp add: js_def)
    ultimately show ?thesis using base by (simp add: combineBillingExpr_def Let_def)
  qed
  moreover have "splitTopLevelMultiply (join (js '' * '') (?b # ?fs)) = ?b # ?fs"
    using splitting_pieces [OF _ pieces, of "[]"]
    by (simp add: splitTopLevelMultiply_def js_def operator_unit_def is_quote_def bracket_step_def)
  moreover have "fold_result sort_part (?b # ?fs) ([], []) = Inr (?fs, [?b])"
    using sort_rule_parts [of ?fs "[]" "[?b]"] assms(1,7) rules_are_rule_parts
    by (simp add: sort_part_def list_all_iff)
  moreover have "slice ?b 1 (length ?b - 1) = base" by (simp add: slice_def js_def)
  then have "unwrapExpressionParens ?b = unwrapExpressionParens base"
    using assms(6) \<open>trim ?b = ?b\<close> by (simp add: unwrapExpressionParens_def unwrap_loop.simps [of ?b])
  ultimately show ?thesis
    using join_whole_trim [OF pieces] assms(2)
    by (simp add: splitBillingExprAndRequestRules_def Let_def built)
qed

subsection \<open>When reading throws\<close>

lemma string_token_rest_prefix: "string_token_rest s acc = Some (t, r) \<Longrightarrow> \<exists>u. t = acc @ u"
  by (induction s acc rule: string_token_rest.induct) (auto split: if_splits list.splits)

lemma string_token_quote: "string_token s = Some (t, r) \<Longrightarrow> \<exists>u. t = 34 # u"
  using string_token_rest_prefix by (fastforce simp: string_token_def bind_eq_Some_conv)

lemma has_call_quote: "has_call src s = Some (path, token) \<Longrightarrow> \<exists>u. token = 34 # u"
  by (auto simp: has_call_def bind_eq_Some_conv dest!: string_token_quote split: if_splits)

lemma json_parse_quote: "json_parse (34 # u) = Some v \<Longrightarrow> \<exists>s. v = VStr s"
  by (auto simp: json_parse_def json_value.simps [of "34 # u"] skip_json_def is_json_space_def
      split: option.splits prod.splits if_splits)

lemma string_of_value_error: "string_of_value v = Inl e \<Longrightarrow> e = TypeError"
proof (induction v rule: string_of_value.induct)
  case (6 vs)
  have "map_result f xs = Inl e \<Longrightarrow> \<exists>x\<in>set xs. f x = Inl e" for f :: "js_value \<Rightarrow> js_exception + js_string" and xs
    by (induction xs) (auto simp: result_simps)
  with 6 show ?case by (cases "map_result (\<lambda>v. if is_nullish v then Inr [] else string_of_value v) vs") (fastforce split: if_splits)+
qed (auto split: if_splits)

lemma contains_throws:
  assumes "contains_condition src path token = Inl e" "token = 34 # u"
  shows "e = SyntaxError \<and> json_parse token = None"
  using assms json_parse_quote [of u] by (fastforce simp: contains_condition_def split: option.splits)

theorem condition_throws:
  assumes "tryParseRequestCondition s = Inl e"
  shows "e = SyntaxError \<and> (\<exists>path token. json_parse token = None \<and>
      (has_call SOURCE_HEADER s = Some (path, token) \<or> guarded_contains s = Some (path, token))) \<or>
    e = TypeError \<and> (\<exists>src path raw v. equals_match s = Some (src, path, raw) \<and> parseExprLiteral raw = Some v \<and>
      string_of_value v = Inl TypeError)"
proof -
  consider (header) path token where "has_call SOURCE_HEADER s = Some (path, token)" "contains_condition SOURCE_HEADER path token = Inl e"
    | (param) path token where "guarded_contains s = Some (path, token)" "contains_condition SOURCE_PARAM path token = Inl e"
    | (equals) src path raw where "equals_match s = Some (src, path, raw)" "equals_condition src path raw = Inl e"
    using assms by (auto simp: tryParseRequestCondition_def split: option.splits)
  then show ?thesis
  proof cases
    case header
    then show ?thesis using has_call_quote contains_throws by metis
  next
    case param
    then have "\<exists>u. token = 34 # u"
      by (auto simp: guarded_contains_def bind_eq_Some_conv dest!: has_call_quote split: if_splits)
    with param show ?thesis using contains_throws by metis
  next
    case equals
    then show ?thesis
      using string_of_value_error
      by (fastforce simp: equals_condition_def result_simps split: option.splits if_splits)
  qed
qed

end
