(* ===== verification/Task_Text.thy ===== *)
theory Task_Text
  imports Expr_Writing Task_Correct Rules_Correct
begin

section \<open>Generated task prices read back\<close>

text \<open>
  The expression that \<^verbatim>\<open>generateTaskExprFromConfig\<close> writes for a configuration is parsed,
  compiled and read as the tiers of the configuration: the text is traced through the
  lexer, the grammar, the type checker and the display reader with the calculus of
  \<open>Expr_Writing\<close>.
\<close>

subsection \<open>The trees of generated tiers\<close>

definition usage_node :: "js_string \<Rightarrow> expression_node" where
  "usage_node field = Call F_u [str_node field] 0 0"

definition term_node :: "js_string \<Rightarrow> js_num \<Rightarrow> bool \<Rightarrow> expression_node" where
  "term_node field price scaled =
     (let product = Binary MulOp (usage_node field) (num_node price) 0 0 in
      if scaled then Binary DivOp product (num_node (Fin 1000000)) 0 0 else product)"

definition test_node :: "task_condition \<Rightarrow> expression_node" where
  "test_node c = Binary EqOp (usage_node (tk_field c)) (str_node (tk_value c)) 0 0"

definition body_node :: "task_tier \<Rightarrow> (js_string, usage_field) entries \<Rightarrow> expression_node" where
  "body_node tier numberFields =
     joined AddOp
       ((if num_lt (Fin 0) (tk_constant tier) then [num_node (tk_constant tier)] else []) @
        map (\<lambda>(field, f). term_node field (or_zero (map_of (tk_unit_prices tier) field)) (uf_unit f = Some U_token))
          numberFields)"

definition tier_node :: "task_tier \<Rightarrow> (js_string, usage_field) entries \<Rightarrow> expression_node" where
  "tier_node tier numberFields = Call F_tier [str_node (tk_label tier), body_node tier numberFields] 0 0"

fun tiers_node :: "(js_string, usage_field) entries \<Rightarrow> task_tier list \<Rightarrow> expression_node" where
  "tiers_node numberFields [] = num_node (Fin 0)"
| "tiers_node numberFields [tier] = tier_node tier numberFields"
| "tiers_node numberFields (tier # tiers) =
     Conditional (joined AndOp (map test_node (tk_conditions tier))) (tier_node tier numberFields)
       (tiers_node numberFields tiers) 0 0"

subsection \<open>The texts\<close>

lemma operator_texts [simp]:
  "operator_of (js ''*'') = Some MulOp" "operator_of (js ''/'') = Some DivOp" "operator_of (js ''=='') = Some EqOp"
  "operator_of (js ''+'') = Some AddOp" "operator_of (js ''&&'') = Some AndOp"
  by (simp_all add: operator_of_def OPERATOR_TEXTS_def)

lemma function_names [simp]: "function_named (js ''u'') = Some F_u" "function_named (js ''tier'') = Some F_tier"
    "function_named (js ''fixed'') = Some F_fixed"
  by (simp_all add: function_named_def BILLING_FUNCTIONS_def)

lemma million_text: "string_of_number (Fin 1000000) = js ''1000000''"
  by code_simp

lemma million_writable: "writable (Fin 1000000)"
  unfolding writable_def by code_simp

lemma writes_usage: "code_units field \<Longrightarrow> writes 1 7 (js ''u('' @ json_string field @ js '')'') (usage_node field)"
proof -
  assume "code_units field"
  then have "writes_args 0 (json_string field) [str_node field]"
    by (intro writes_one writes_le [OF writes_string]) simp_all
  from writes_call [OF this function_names(1)] show ?thesis by (simp add: usage_node_def js_def)
qed

lemma writes_usage_term:
  assumes "code_units field" and "writable price"
  shows "writes 1 6 (usage_term field price scaled) (term_node field price scaled)"
proof -
  let ?x = "js ''u('' @ json_string field @ js '')''"
  have u: "writes 1 6 ?x (usage_node field)" by (rule writes_le [OF writes_usage [OF assms(1)]]) simp
  have "writes 0 7 (string_of_number price) (num_node price)" by (rule writes_number [OF assms(2)])
  then have m: "writes 1 6 (?x @ 32 # js ''*'' @ 32 # string_of_number price) (Binary MulOp (usage_node field) (num_node price) 0 0)"
    using writes_binary [of 0 MulOp ?x "usage_node field" "string_of_number price" "num_node price" "js ''*''"] u by simp
  have "writes 0 7 (js ''1000000'') (num_node (Fin 1000000))"
    using writes_number [OF million_writable, of 0, unfolded million_text] .
  then have "writes 1 6 ((?x @ 32 # js ''*'' @ 32 # string_of_number price) @ 32 # js ''/'' @ 32 # js ''1000000'')
      (Binary DivOp (Binary MulOp (usage_node field) (num_node price) 0 0) (num_node (Fin 1000000)) 0 0)"
    using writes_binary [of 0 DivOp, simplified, OF _ _ operator_texts(2)] m by (metis One_nat_def)
  with m show ?thesis by (cases scaled) (simp_all add: usage_term_def term_node_def js_def)
qed

definition writable_tier :: "(js_string, usage_field) entries \<Rightarrow> task_tier \<Rightarrow> bool" where
  "writable_tier numberFields tier \<longleftrightarrow>
     code_units (tk_label tier) \<and> writable (tk_constant tier) \<and>
     list_all (\<lambda>(field, _). code_units field \<and> writable (or_zero (map_of (tk_unit_prices tier) field))) numberFields \<and>
     list_all (\<lambda>c. code_units (tk_field c) \<and> code_units (tk_value c)) (tk_conditions tier)"

lemma writes_body:
  assumes "writable_tier nf tier" and "nf \<noteq> []"
  shows "writes 2 5 (generateTaskTierBody tier nf) (body_node tier nf)"
proof -
  let ?piece = "\<lambda>(field, f). usage_term field (or_zero (map_of (tk_unit_prices tier) field)) (uf_unit f = Some U_token)"
  let ?node = "\<lambda>(field, f). term_node field (or_zero (map_of (tk_unit_prices tier) field)) (uf_unit f = Some U_token)"
  have "list_all2 (writes 1 6) (map ?piece nf) (map ?node nf)"
    using assms(1) unfolding list_all2_map1 list_all2_map2 list_all2_same
    by (auto simp: writable_tier_def list_all_iff simp del: One_nat_def intro!: writes_usage_term)
  moreover have "writes 1 6 (string_of_number (tk_constant tier)) (num_node (tk_constant tier))"
    using assms(1) by (intro writes_le [OF writes_number]) (simp_all add: writable_tier_def)
  ultimately have "list_all2 (writes 1 6)
      ((if num_lt (Fin 0) (tk_constant tier) then [string_of_number (tk_constant tier)] else []) @ map ?piece nf)
      ((if num_lt (Fin 0) (tk_constant tier) then [num_node (tk_constant tier)] else []) @ map ?node nf)"
    by simp
  from writes_joined [of "js ''+''" AddOp 1, simplified, OF this [unfolded One_nat_def]] assms(2)
  show ?thesis by (simp add: generateTaskTierBody_def body_node_def js_def numeral_2_eq_2)
qed

lemma writes_tier:
  assumes "writable_tier nf tier" and "nf \<noteq> []"
  shows "writes 3 7 (generateTaskTierCall tier nf) (tier_node tier nf)"
proof -
  have "writes 2 0 (json_string (tk_label tier)) (str_node (tk_label tier))"
    using assms(1) by (intro writes_le [OF writes_string]) (simp_all add: writable_tier_def)
  moreover have "writes_args 2 (generateTaskTierBody tier nf) [body_node tier nf]"
    by (intro writes_one writes_le [OF writes_body [OF assms]]) simp
  ultimately have "writes_args 2 (json_string (tk_label tier) @ js '', '' @ generateTaskTierBody tier nf)
      [str_node (tk_label tier), body_node tier nf]"
    by (rule writes_more)
  from writes_call [OF this function_names(2)] show ?thesis
    by (simp add: generateTaskTierCall_def tier_node_def js_def numeral_3_eq_3 numeral_2_eq_2)
qed

lemma writes_condition:
  assumes "writable_tier nf tier" and "tk_conditions tier \<noteq> []"
  shows "writes 2 2 (generateTaskCondition (tk_conditions tier)) (joined AndOp (map test_node (tk_conditions tier)))"
proof -
  let ?test = "\<lambda>c. js ''u('' @ json_string (tk_field c) @ js '') == '' @ json_string (tk_value c)"
  have "writes 1 3 (?test c) (test_node c)" if "c \<in> set (tk_conditions tier)" for c
  proof -
    have c: "code_units (tk_field c)" "code_units (tk_value c)"
      using assms(1) that by (auto simp: writable_tier_def list_all_iff)
    have "writes 1 3 (js ''u('' @ json_string (tk_field c) @ js '')'') (usage_node (tk_field c))"
      by (rule writes_le [OF writes_usage [OF c(1)]]) simp
    moreover have "writes 0 4 (json_string (tk_value c)) (str_node (tk_value c))"
      by (rule writes_le [OF writes_string [OF c(2)]]) simp
    ultimately have "writes 1 3 ((js ''u('' @ json_string (tk_field c) @ js '')'') @ 32 # js ''=='' @ 32 # json_string (tk_value c))
        (Binary EqOp (usage_node (tk_field c)) (str_node (tk_value c)) 0 0)"
      using writes_binary [of 0 EqOp, simplified, OF _ _ operator_texts(3)] by (metis One_nat_def)
    then show ?thesis by (simp add: test_node_def js_def)
  qed
  then have "list_all2 (writes 1 3) (map ?test (tk_conditions tier)) (map test_node (tk_conditions tier))"
    by (simp add: list_all2_map1 list_all2_map2 list_all2_same)
  from writes_joined [of "js ''&&''" AndOp 1, simplified, OF this [unfolded One_nat_def]] assms(2)
  show ?thesis by (simp add: generateTaskCondition_def js_def numeral_2_eq_2)
qed

lemma writes_more_depth: "writes d k x n \<Longrightarrow> d \<le> d' \<Longrightarrow> writes d' k x n"
  by (rotate_tac 1, induction d' rule: dec_induct) (simp_all add: writes_deeper)

text \<open>The text of several tiers, as \<^verbatim>\<open>generateTaskExprFromConfig\<close> joins them.\<close>

fun tiers_text :: "(js_string, usage_field) entries \<Rightarrow> task_tier list \<Rightarrow> js_string" where
  "tiers_text nf [] = []"
| "tiers_text nf [tier] = generateTaskTierCall tier nf"
| "tiers_text nf (tier # tiers) =
     (generateTaskCondition (tk_conditions tier) @ js '' ? '' @ generateTaskTierCall tier nf) @ js '' : '' @ tiers_text nf tiers"

lemma writes_tiers:
  assumes "nf \<noteq> []"
  shows "list_all (writable_tier nf) tiers \<Longrightarrow> list_all (\<lambda>t. tk_conditions t \<noteq> []) (butlast tiers) \<Longrightarrow> tiers \<noteq> [] \<Longrightarrow>
    writes (2 + length tiers) 0 (tiers_text nf tiers) (tiers_node nf tiers)"
proof (induction tiers rule: induct_list012)
  case (2 tier)
  then show ?case using writes_le [OF writes_tier [of nf tier]] assms by simp
next
  case (3 tier t ts)
  have "writes (Suc (2 + length (t # ts))) 1 (generateTaskCondition (tk_conditions tier)) (joined AndOp (map test_node (tk_conditions tier)))"
    by (rule writes_more_depth [OF writes_le [OF writes_condition [of nf tier]]]) (use "3.prems" in simp_all)
  moreover have "writes (2 + length (t # ts)) 0 (generateTaskTierCall tier nf) (tier_node tier nf)"
    by (rule writes_more_depth [OF writes_le [OF writes_tier [of nf tier]]]) (use "3.prems" assms in simp_all)
  moreover have "writes (2 + length (t # ts)) 0 (tiers_text nf (t # ts)) (tiers_node nf (t # ts))"
    using "3.prems" by (intro "3.IH"(2)) auto
  ultimately have "writes (Suc (2 + length (t # ts))) 0
      (generateTaskCondition (tk_conditions tier) @ js '' ? '' @ generateTaskTierCall tier nf @ js '' : '' @ tiers_text nf (t # ts))
      (Conditional (joined AndOp (map test_node (tk_conditions tier))) (tier_node tier nf) (tiers_node nf (t # ts)) 0 0)"
    by (rule writes_conditional)
  then show ?case by simp
qed simp

subsection \<open>Height and type\<close>

lemma height_simps:
  "height (num_node x) = 0" "height (str_node s) = 0"
  "height (Call f [a] i j) = Suc (height a)" "height (Call f [a, b] i j) = Suc (max (height b) (height a))"
  "height (Binary op a b i j) = Suc (max (height b) (height a))"
  "height (Conditional c a b i j) = Suc (max (height b) (max (height a) (height c)))"
  by (simp_all add: num_node_def str_node_def height.simps [of "Literal _ _ _ _"] height.simps [of "Call _ _ _ _"]
      height.simps [of "Binary _ _ _ _ _"] height.simps [of "Conditional _ _ _ _ _"])

lemma height_term: "height (term_node field price scaled) \<le> 3"
  by (simp add: term_node_def usage_node_def height_simps Let_def)

lemma height_tier: "nf \<noteq> [] \<Longrightarrow> height (tier_node tier nf) \<le> 4 + length nf"
proof -
  let ?ns = "(if num_lt (Fin 0) (tk_constant tier) then [num_node (tk_constant tier)] else []) @
      map (\<lambda>(field, f). term_node field (or_zero (map_of (tk_unit_prices tier) field)) (uf_unit f = Some U_token)) nf"
  assume "nf \<noteq> []"
  moreover have "list_all (\<lambda>n. height n \<le> 3) ?ns" by (auto simp: list_all_iff height_simps height_term)
  ultimately have "height (joined AddOp ?ns) < 3 + length ?ns" by (intro height_joined) auto
  then show ?thesis by (simp add: tier_node_def body_node_def height_simps split: if_splits)
qed

lemma height_condition: "cs \<noteq> [] \<Longrightarrow> height (joined AndOp (map test_node cs)) \<le> 1 + length cs"
proof -
  assume "cs \<noteq> []"
  moreover have "list_all (\<lambda>n. height n \<le> 2) (map test_node cs)"
    by (auto simp: list_all_iff test_node_def usage_node_def height_simps)
  ultimately have "height (joined AndOp (map test_node cs)) < 2 + length (map test_node cs)" by (intro height_joined) auto
  then show ?thesis by simp
qed

lemma height_tiers:
  assumes "nf \<noteq> []" and "length nf \<le> k"
  shows "list_all (\<lambda>t. tk_conditions t \<noteq> [] \<and> length (tk_conditions t) \<le> k) (butlast tiers) \<Longrightarrow> tiers \<noteq> [] \<Longrightarrow>
    height (tiers_node nf tiers) \<le> 3 + k + length tiers"
proof (induction tiers rule: induct_list012)
  case (2 tier)
  then show ?case using height_tier [OF assms(1), of tier] assms(2) by simp
next
  case (3 tier t ts)
  then have "height (tiers_node nf (t # ts)) \<le> 3 + k + length (t # ts)" by (intro "3.IH"(2)) auto
  moreover have "height (joined AndOp (map test_node (tk_conditions tier))) \<le> 1 + k"
    using height_condition [of "tk_conditions tier"] "3.prems" by simp
  ultimately show ?case using height_tier [OF assms(1), of tier] assms(2) by (simp add: height_simps)
qed simp

lemma typed_num: "typed (num_node x) Ty_number" and typed_str: "typed (str_node s) Ty_string"
  using t_literal [of "LNum x"] t_literal [of "LStr s"] by (simp_all add: num_node_def str_node_def)

lemma typed_usage: "typed (usage_node field) Ty_dynamic"
  unfolding usage_node_def by (rule t_call [of _ "[Ty_string]"]) (simp_all add: typed_str)

lemma typed_term: "typed (term_node field price scaled) Ty_number"
proof -
  have "typed (Binary MulOp (usage_node field) (num_node price) 0 0) Ty_number"
    by (rule t_arith [OF typed_usage typed_num]) simp_all
  moreover from t_arith [OF this typed_num, of DivOp]
  have "typed (Binary DivOp (Binary MulOp (usage_node field) (num_node price) 0 0) (num_node (Fin 1000000)) 0 0) Ty_number" by simp
  ultimately show ?thesis by (simp add: term_node_def Let_def)
qed

lemma typed_tier: "nf \<noteq> [] \<Longrightarrow> typed (tier_node tier nf) Ty_number"
proof -
  assume nf: "nf \<noteq> []"
  let ?ns = "(if num_lt (Fin 0) (tk_constant tier) then [num_node (tk_constant tier)] else []) @
      map (\<lambda>(field, f). term_node field (or_zero (map_of (tk_unit_prices tier) field)) (uf_unit f = Some U_token)) nf"
  have "list_all (\<lambda>n. \<exists>t'. typed n t' \<and> Ty_number \<le> t') ?ns"
    unfolding list_all_iff by (auto intro: typed_num typed_term)
  then obtain t where "typed (joined AddOp ?ns) t" "Ty_number \<le> t"
    using nf typed_joined [of Ty_number AddOp ?ns] t_arith [of _ _ _ _ AddOp] by fastforce
  then show ?thesis
    unfolding tier_node_def body_node_def by (intro t_call [of _ "[Ty_string, t]"]) (simp_all add: typed_str)
qed

lemma typed_condition: "cs \<noteq> [] \<Longrightarrow> \<exists>t. typed (joined AndOp (map test_node cs)) t \<and> Ty_boolean \<le> t"
proof -
  assume cs: "cs \<noteq> []"
  have "typed (test_node c) Ty_boolean" for c
    unfolding test_node_def by (rule t_comparison [OF typed_usage typed_str]) simp
  then have "list_all (\<lambda>n. \<exists>t'. typed n t' \<and> Ty_boolean \<le> t') (map test_node cs)"
    unfolding list_all_iff by auto
  with cs show ?thesis using typed_joined [of Ty_boolean AndOp "map test_node cs"] t_logical [of _ _ _ _ AndOp] by fastforce
qed

lemma typed_tiers:
  assumes "nf \<noteq> []"
  shows "list_all (\<lambda>t. tk_conditions t \<noteq> []) (butlast tiers) \<Longrightarrow> tiers \<noteq> [] \<Longrightarrow> typed (tiers_node nf tiers) Ty_number"
proof (induction tiers rule: induct_list012)
  case (3 tier t ts)
  then have "typed (tiers_node nf (t # ts)) Ty_number" by (intro "3.IH"(2)) auto
  moreover obtain ct where "typed (joined AndOp (map test_node (tk_conditions tier))) ct" "Ty_boolean \<le> ct"
    using typed_condition [of "tk_conditions tier"] "3.prems" by auto
  ultimately show ?case using t_cond [OF _ _ typed_tier [OF assms, of tier], of _ ct] by fastforce
qed (simp_all add: typed_tier [OF assms])

lemma functions_tier: "nf \<noteq> [] \<Longrightarrow> functions_of (tier_node tier nf) \<subseteq> {F_tier, F_u}"
proof -
  assume nf: "nf \<noteq> []"
  have "functions_of (term_node field price scaled) \<subseteq> {F_u}" for field price scaled
    by (auto simp: term_node_def usage_node_def num_node_def str_node_def functions_of_simps Let_def split: if_splits)
  then have "functions_of (body_node tier nf) \<subseteq> {F_u}"
    using nf by (fastforce simp: body_node_def functions_joined num_node_def split: if_splits)
  then show ?thesis by (auto simp: tier_node_def functions_of_simps str_node_def)
qed

lemma functions_tiers:
  assumes "nf \<noteq> []"
  shows "list_all (\<lambda>t. tk_conditions t \<noteq> []) (butlast tiers) \<Longrightarrow> tiers \<noteq> [] \<Longrightarrow>
    functions_of (tiers_node nf tiers) \<subseteq> {F_tier, F_u}"
proof (induction tiers rule: induct_list012)
  case (3 tier t ts)
  then have "functions_of (tiers_node nf (t # ts)) \<subseteq> {F_tier, F_u}" by (intro "3.IH"(2)) auto
  moreover have "functions_of (joined AndOp (map test_node (tk_conditions tier))) \<subseteq> {F_u}"
    using "3.prems" by (auto simp: functions_joined test_node_def usage_node_def str_node_def functions_of_simps)
  ultimately show ?case using functions_tier [OF assms, of tier] by (auto simp: functions_of_Conditional)
qed (simp_all add: functions_tier [OF assms])

subsection \<open>Reading the trees\<close>

definition proper_tier :: "usage_schema \<Rightarrow> (js_string, usage_field) entries \<Rightarrow> task_tier \<Rightarrow> bool" where
  "proper_tier schema nf tier \<longleftrightarrow>
     writable_tier nf tier \<and> map fst (tk_unit_prices tier) = map fst nf \<and>
     list_all (\<lambda>c. schema_type schema (tk_field c) \<noteq> Some UT_boolean \<and>
       (\<exists>vs. schema_enum schema (tk_field c) = Some vs \<and> tk_value c \<in> set vs)) (tk_conditions tier)"

definition clear_last :: "task_tier list \<Rightarrow> task_tier list" where
  "clear_last tiers = butlast tiers @ [(last tiers)\<lparr>tk_conditions := []\<rparr>]"

lemma unsigned_price: "is_unsigned x \<Longrightarrow> num_le (Fin 0) x"
  by (cases x) (auto simp: num_le_def)

lemma price_literal: "writable x \<Longrightarrow> nonnegativePriceLiteral (num_node x) = Some x"
  by (simp add: nonnegativePriceLiteral_def num_node_def writable_def unsigned_price)

lemma add_term_node:
  assumes "writable price" and "map_of schema field = Some f" and "uf_type f = Some UT_number" and "uf_unit f \<noteq> None"
    and "field \<notin> fst ` set (ts_unit_prices acc)" and "scaled \<longleftrightarrow> uf_unit f = Some U_token"
  shows "add_task_term schema (term_node field price scaled) (Some acc) =
    Some (acc\<lparr>ts_unit_prices := ts_unit_prices acc @ [(field, price)]\<rparr>)"
proof -
  let ?p = "Binary MulOp (usage_node field) (num_node price) 0 0"
  have "usage_call (usage_node field) = Some field" by (simp add: usage_call_def usage_node_def str_node_def)
  then have "add_usage_term schema scaled ?p acc = Some (acc\<lparr>ts_unit_prices := ts_unit_prices acc @ [(field, price)]\<rparr>)"
    using assms by (simp add: add_usage_term_usage price_literal schema_type_def schema_unit_def has_own_iff set_own_fresh)
  moreover have "nonnegativePriceLiteral (term_node field price scaled) = None"
    by (simp add: term_node_def nonnegativePriceLiteral_def Let_def)
  moreover have "scaled_term (term_node field price scaled) = Some (scaled, ?p)"
    by (simp add: term_node_def scaled_term_def num_node_def Let_def)
  ultimately show ?thesis by (simp add: add_task_term_def)
qed

lemma read_terms:
  assumes "\<forall>(field, f)\<in>set nf. map_of schema field = Some f \<and> uf_type f = Some UT_number \<and> uf_unit f \<noteq> None"
    and "\<forall>(field, f)\<in>set nf. writable (g field)"
  shows "distinct (map fst nf) \<Longrightarrow> fst ` set (ts_unit_prices acc) \<inter> fst ` set nf = {} \<Longrightarrow>
    fold (add_task_term schema) (map (\<lambda>(field, f). term_node field (g field) (uf_unit f = Some U_token)) nf) (Some acc) =
      Some (acc\<lparr>ts_unit_prices := ts_unit_prices acc @ map (\<lambda>(field, _). (field, g field)) nf\<rparr>)"
  using assms
proof (induction nf arbitrary: acc)
  case (Cons e nf)
  obtain field f where e: "e = (field, f)" by fastforce
  let ?acc = "acc\<lparr>ts_unit_prices := ts_unit_prices acc @ [(field, g field)]\<rparr>"
  have "add_task_term schema (term_node field (g field) (uf_unit f = Some U_token)) (Some acc) = Some ?acc"
    using Cons.prems e by (intro add_term_node) auto
  moreover have "fold (add_task_term schema) (map (\<lambda>(field, f). term_node field (g field) (uf_unit f = Some U_token)) nf) (Some ?acc) =
      Some (?acc\<lparr>ts_unit_prices := ts_unit_prices ?acc @ map (\<lambda>(field, _). (field, g field)) nf\<rparr>)"
    using Cons.prems e by (intro Cons.IH) auto
  ultimately show ?case using e by simp
qed simp

lemma read_tier:
  assumes tier: "proper_tier schema nf tier" and nf: "nf \<noteq> []" "distinct (map fst nf)"
    and schema: "\<forall>(field, f)\<in>set nf. map_of schema field = Some f \<and> uf_type f = Some UT_number \<and> uf_unit f \<noteq> None"
    and n: "strip n = tier_node tier nf"
  shows "taskTier n cs schema = Some (tier\<lparr>tk_conditions := cs\<rparr>)"
proof -
  let ?g = "\<lambda>field. or_zero (map_of (tk_unit_prices tier) field)"
  let ?ts = "map (\<lambda>(field, f). term_node field (?g field) (uf_unit f = Some U_token)) nf"
  let ?init = "\<lparr>ts_constant = Fin 0, ts_has_constant = False, ts_unit_prices = []\<rparr> :: task_sum"
  let ?cs = "if num_lt (Fin 0) (tk_constant tier) then [num_node (tk_constant tier)] else []"
  have w: "writable (tk_constant tier)" "\<forall>(field, f)\<in>set nf. writable (?g field)"
    using tier by (auto simp: proper_tier_def writable_tier_def list_all_iff)
  have "flattenBinary (body_node tier nf) AddOp = ?cs @ ?ts"
    unfolding body_node_def using nf(1)
    by (intro flatten_joined) (auto simp: list_all_iff term_node_def num_node_def Let_def)
  moreover obtain acc where acc: "fold (add_task_term schema) ?cs (Some ?init) = Some acc" "ts_constant acc = tk_constant tier"
      "ts_unit_prices acc = []"
  proof (cases "num_lt (Fin 0) (tk_constant tier)")
    case True
    then show ?thesis using that by (simp add: add_task_term_def price_literal [OF w(1)])
  next
    case False
    then have "tk_constant tier = Fin 0" using w(1) by (cases "tk_constant tier") (auto simp: writable_def)
    with False show ?thesis using that by simp
  qed
  moreover have "fold (add_task_term schema) ?ts (Some acc) =
      Some (acc\<lparr>ts_unit_prices := map (\<lambda>(field, _). (field, ?g field)) nf\<rparr>)"
    using read_terms [OF schema w(2) nf(2), of acc] acc(3) by simp
  moreover have "map (\<lambda>(field, _). (field, ?g field)) nf = tk_unit_prices tier"
    using field_prices_self [of "tk_unit_prices tier" nf] tier nf(2) by (simp add: field_prices_def proper_tier_def)
  moreover have "tk_unit_prices tier \<noteq> []" using tier nf(1) by (auto simp: proper_tier_def)
  ultimately show ?thesis
    using taskTier_strip [of n "tk_label tier" "body_node tier nf"] n
    by (simp add: tier_node_def taskTier_def str_node_def)
qed

lemma read_condition:
  assumes tier: "proper_tier schema nf tier" and cs: "tk_conditions tier \<noteq> []"
    and n: "strip n = joined AndOp (map test_node (tk_conditions tier))"
  shows "taskConditions n schema False = Some (tk_conditions tier)"
proof -
  have "flattenBinary (strip n) AndOp = map test_node (tk_conditions tier)"
    unfolding n using cs by (intro flatten_joined) (simp_all add: list_all_iff test_node_def)
  moreover have "task_condition_of schema False (test_node c) = Some c" if "c \<in> set (tk_conditions tier)" for c
  proof -
    obtain vs where "schema_type schema (tk_field c) \<noteq> Some UT_boolean" "schema_enum schema (tk_field c) = Some vs"
        "tk_value c \<in> set vs"
      using tier \<open>c \<in> set (tk_conditions tier)\<close> unfolding proper_tier_def list_all_iff by blast
    then show ?thesis
      by (simp add: task_condition_usage test_node_def usage_node_def str_node_def usage_call_def task_condition_value_def)
  qed
  then have "map_option_list (\<lambda>c. task_condition_of schema False (test_node c)) cs = Some cs"
    if "set cs \<subseteq> set (tk_conditions tier)" for cs
    using that by (induction cs) auto
  ultimately have "taskConditions (strip n) schema False = Some (tk_conditions tier)"
    by (simp add: taskConditions_def map_option_list_map)
  then show ?thesis by simp
qed

lemma strip_Conditional:
  "strip n = Conditional c a b s e \<Longrightarrow>
   \<exists>c' a' b' s' e'. n = Conditional c' a' b' s' e' \<and> strip c' = c \<and> strip a' = a \<and> strip b' = b"
  by (cases n) auto

lemma read_tiers:
  assumes nf: "nf \<noteq> []" "distinct (map fst nf)"
    and schema: "\<forall>(field, f)\<in>set nf. map_of schema field = Some f \<and> uf_type f = Some UT_number \<and> uf_unit f \<noteq> None"
  shows "list_all (proper_tier schema nf) tiers \<Longrightarrow> list_all (\<lambda>t. tk_conditions t \<noteq> []) (butlast tiers) \<Longrightarrow> tiers \<noteq> [] \<Longrightarrow>
    strip n = tiers_node nf tiers \<Longrightarrow> readTaskTierChain n schema False = Some (clear_last tiers)"
proof (induction tiers arbitrary: n rule: induct_list012)
  case (2 tier)
  then have "taskTier n [] schema = Some (tier\<lparr>tk_conditions := []\<rparr>)" using nf schema by (intro read_tier) auto
  moreover have "\<exists>f args s e. n = Call f args s e" using "2.prems" by (auto simp: tier_node_def strip_Call)
  ultimately show ?case by (auto simp: clear_last_def)
next
  case (3 tier t ts)
  have "strip n = Conditional (joined AndOp (map test_node (tk_conditions tier))) (tier_node tier nf) (tiers_node nf (t # ts)) 0 0"
    using "3.prems"(4) by simp
  from strip_Conditional [OF this] obtain c a b s e where n: "n = Conditional c a b s e"
      "strip c = joined AndOp (map test_node (tk_conditions tier))" "strip a = tier_node tier nf" "strip b = tiers_node nf (t # ts)"
    by blast
  have "taskConditions c schema False = Some (tk_conditions tier)" using "3.prems" n(2) by (intro read_condition) auto
  moreover have "taskTier a (tk_conditions tier) schema = Some tier"
    using read_tier [of schema nf tier a "tk_conditions tier"] "3.prems" nf schema n(3) by simp
  moreover have "readTaskTierChain b schema False = Some (clear_last (t # ts))"
    using "3.prems" n(4) by (intro "3.IH"(2)) auto
  ultimately show ?case using n(1) by (simp add: clear_last_def)
qed simp

subsection \<open>The text as a whole\<close>

text \<open>A text without a multiplication sign at the top level.\<close>

definition steady :: "int \<Rightarrow> js_string \<Rightarrow> bool" where
  "steady d x \<longleftrightarrow> (\<forall>t. inert 42 (x @ t) d None = inert 42 t d None)"

lemma steady_append: "steady d x \<Longrightarrow> steady d y \<Longrightarrow> steady d (x @ y)"
  by (simp add: steady_def)

lemma steady_join: "steady d sep \<Longrightarrow> list_all (steady d) xs \<Longrightarrow> steady d (join sep xs)"
  by (induction sep xs rule: join.induct) (simp_all add: steady_append, simp add: steady_def)

lemma steady_json: "steady d (json_string s)"
  by (simp add: steady_def inert_json_string)

lemma steady_calm: "calm 42 d x \<Longrightarrow> steady d x"
  by (simp add: steady_def inert_calm)

lemma steady_brackets: "0 \<le> d \<Longrightarrow> steady d x \<Longrightarrow> steady (d + 1) y \<Longrightarrow> steady d (x @ js ''('' @ y @ js '')'')"
  unfolding steady_def using inert_open [of d 42] inert_close [of d 42] by simp

lemma steady_number: "writable x \<Longrightarrow> steady d (string_of_number x)"
  using string_of_number_decimal decimal_units
  by (intro steady_calm calm_units) (auto simp: writable_def is_num_unit_def is_digit_def)

lemma steady_usage: "0 \<le> d \<Longrightarrow> steady d (js ''u('' @ json_string field @ js '')'')"
  using steady_brackets [of d "js ''u''" "json_string field"] steady_json
  by (simp add: steady_calm calm_letters js_def is_letter_def)

lemma steady_usage_term: "writable price \<Longrightarrow> steady 1 (usage_term field price scaled)"
proof -
  assume price: "writable price"
  have deep: "steady 1 x" if "list_all (\<lambda>c. \<not> is_quote c \<and> bracket_step c = 0) x" for x
    using that by (intro steady_calm calm_deep) simp
  have "steady 1 (js '' * '')" "steady 1 (if scaled then js '' / 1000000'' else [])"
    by (rule deep; simp add: js_def is_quote_def bracket_step_def)+
  then have "steady 1 ((js ''u('' @ json_string field @ js '')'') @ js '' * '' @ string_of_number price @
      (if scaled then js '' / 1000000'' else []))"
    using steady_append [OF steady_usage steady_append [OF _ steady_append [OF steady_number [OF price]]]] by simp
  then show ?thesis by (simp add: usage_term_def js_def)
qed

lemma steady_tier_call:
  assumes "writable_tier nf tier"
  shows "steady 0 (generateTaskTierCall tier nf)"
proof -
  have "list_all (steady 1) (map (\<lambda>(field, f). usage_term field (or_zero (map_of (tk_unit_prices tier) field)) (uf_unit f = Some U_token)) nf)"
    using assms steady_usage_term by (auto simp: writable_tier_def list_all_iff)
  moreover have "steady 1 (js '' + '')" "steady 1 (js '', '')"
    by (intro steady_calm calm_deep; simp add: js_def is_quote_def bracket_step_def)+
  ultimately have "steady 1 (json_string (tk_label tier) @ js '', '' @ generateTaskTierBody tier nf)"
    unfolding generateTaskTierBody_def using assms steady_number
    by (intro steady_append steady_json steady_join) (simp_all add: writable_tier_def)
  moreover have "steady 0 (js ''tier'')" by (intro steady_calm calm_letters) (simp_all add: js_def is_letter_def)
  ultimately have "steady 0 (js ''tier'' @ js ''('' @ (json_string (tk_label tier) @ js '', '' @ generateTaskTierBody tier nf) @ js '')'')"
    by (intro steady_brackets) simp_all
  then show ?thesis by (simp add: generateTaskTierCall_def js_def)
qed

lemma steady_condition: "steady 0 (generateTaskCondition cs)"
proof -
  have "steady 0 (js '' == '')" "steady 0 (js '' && '')"
    by (intro steady_calm; simp add: calm_def js_def is_quote_def bracket_step_def)+
  moreover from this have "steady 0 ((js ''u('' @ json_string (tk_field c) @ js '')'') @ js '' == '' @ json_string (tk_value c))" for c :: task_condition
    using steady_append [OF steady_usage steady_append [OF _ steady_json]] by simp
  then have "steady 0 (js ''u('' @ json_string (tk_field c) @ js '') == '' @ json_string (tk_value c))" for c :: task_condition
    by (simp add: js_def)
  ultimately show ?thesis
    unfolding generateTaskCondition_def by (intro steady_join) (simp_all add: list.pred_map list.pred_set)
qed

lemma steady_inert: "steady d x \<Longrightarrow> inert 42 x d None = Some (d, None)"
  unfolding steady_def by (metis append.right_neutral inert.simps(1))

lemma splitting_question:
  assumes "inert x s 0 None = Some (0, None)" and "trim (s @ 63 # r) = s @ 63 # r"
  shows "splitExpressionAtTopLevel (s @ 63 # r) (x # op) = [s @ 63 # r]"
proof -
  have "split_loop (x # op) (s @ 63 # r) 0 0 0 None [] = split_loop (x # op) (s @ 63 # r) (length s) 0 0 None []"
    using split_loop_inert [OF assms(1), of op "[]" "63 # r" 0 "[]"] by simp
  also have "\<dots> = None" by (subst split_loop.simps) (simp add: is_quote_def bracket_step_def)
  finally show ?thesis using assms(2) by (simp add: splitExpressionAtTopLevel_def)
qed

lemma tiers_text_ends:
  "tiers \<noteq> [] \<Longrightarrow> list_all (\<lambda>t. tk_conditions t \<noteq> []) (butlast tiers) \<Longrightarrow>
   \<exists>m. tiers_text nf tiers = m @ [41] \<and> m \<noteq> [] \<and> (hd m = 116 \<or> hd m = 117)"
proof (induction tiers rule: induct_list012)
  case (2 tier)
  then show ?case by (simp add: generateTaskTierCall_def js_def)
next
  case (3 tier t ts)
  then obtain m where m: "tiers_text nf (t # ts) = m @ [41]" by auto
  obtain c cs where "tk_conditions tier = c # cs" using "3.prems" by (cases "tk_conditions tier") auto
  then obtain r where "generateTaskCondition (tk_conditions tier) = 117 # r" by (cases cs) (simp_all add: generateTaskCondition_def js_def)
  with m show ?case by simp
qed simp

lemma split_tiers_text:
  assumes "list_all (writable_tier nf) tiers" and "tiers \<noteq> []" and "list_all (\<lambda>t. tk_conditions t \<noteq> []) (butlast tiers)"
  shows "splitBillingExprAndRequestRules (tiers_text nf tiers) = Inr \<lparr>billingExpr = tiers_text nf tiers, requestRuleExpr = []\<rparr>"
    and "match_version (tiers_text nf tiers) = None" and "tiers_text nf tiers \<noteq> []"
proof -
  let ?s = "tiers_text nf tiers"
  obtain m where m: "?s = m @ [41]" "m \<noteq> []" "hd m = 116 \<or> hd m = 117" using tiers_text_ends [OF assms(2,3)] by blast
  then show ne: "?s \<noteq> []" by simp
  have space: "\<not> is_space 116" "\<not> is_space 117" "\<not> is_space 41" by (simp_all add: is_space_def)
  have t: "trim ?s = ?s" using m space by (intro trim_id) auto
  obtain c r where cr: "?s = c # r" "c = 116 \<or> c = 117" using m by (cases m) auto
  then show "match_version ?s = None" using space by (auto simp: match_version_def Let_def)
  have "splitExpressionAtTopLevel ?s [42] = [?s]"
  proof (cases "\<exists>tier. tiers = [tier]")
    case True
    then obtain tier where "tiers = [tier]" ..
    with assms(1) steady_inert [OF steady_tier_call [of nf tier]] t ne show ?thesis by (intro splitting_inert) simp_all
  next
    case False
    then obtain tier t' ts where tiers: "tiers = tier # t' # ts" using assms(2) by (metis neq_Nil_conv)
    let ?c = "generateTaskCondition (tk_conditions tier) @ js '' ''"
    let ?r = "js '' '' @ generateTaskTierCall tier nf @ js '' : '' @ tiers_text nf (t' # ts)"
    have s: "?s = ?c @ 63 # ?r" unfolding tiers by (simp add: js_def)
    have "steady 0 (js '' '')" by (intro steady_calm) (simp add: calm_def js_def is_quote_def bracket_step_def)
    then have "inert 42 ?c 0 None = Some (0, None)" by (intro steady_inert steady_append steady_condition)
    from splitting_question [OF this, of ?r "[]"] t show ?thesis unfolding s by simp
  qed
  then show "splitBillingExprAndRequestRules ?s = Inr \<lparr>billingExpr = ?s, requestRuleExpr = []\<rparr>"
    using t ne by (simp add: splitBillingExprAndRequestRules_def splitTopLevelMultiply_def js_def Let_def)
qed

subsection \<open>Reading generated task prices\<close>

definition within_limits :: "(js_string, usage_field) entries \<Rightarrow> task_tier list \<Rightarrow> bool" where
  "within_limits nf tiers \<longleftrightarrow>
     length (tiers_text nf tiers) < 10000 \<and> length tiers \<le> 100 \<and> length nf \<le> 100 \<and>
     list_all (\<lambda>t. length (tk_conditions t) \<le> 100) tiers"

lemma number_fields_schema:
  assumes "distinct (map fst schema)"
  shows "\<forall>(field, f)\<in>set (getTaskNumberFields collate (Some schema)).
    map_of schema field = Some f \<and> uf_type f = Some UT_number \<and> uf_unit f \<noteq> None"
  using assms by (auto simp: getTaskNumberFields_def)

lemma parse_tiers_text:
  fixes schema collate
  defines "nf \<equiv> getTaskNumberFields collate (Some schema)"
  assumes schema: "distinct (map fst schema)" and nf: "nf \<noteq> []" and tiers: "list_all (proper_tier schema nf) tiers" "tiers \<noteq> []"
    and conds: "list_all (\<lambda>t. tk_conditions t \<noteq> []) (butlast tiers)" and lim: "within_limits nf tiers"
    and cache: "cache_agrees cache"
  shows "fst (parseTaskTiersFromExpr (tiers_text nf tiers) (Some schema) False cache) = Inr (clear_last tiers)"
proof -
  have w: "list_all (writable_tier nf) tiers" using tiers(1) by (auto simp: list_all_iff proper_tier_def)
  note split = split_tiers_text [OF w tiers(2) conds]
  have "writes 127 0 (tiers_text nf tiers) (tiers_node nf tiers)"
    using writes_tiers [OF nf w conds tiers(2)] lim by (elim writes_more_depth) (simp add: within_limits_def)
  then obtain n where n: "parse (tiers_text nf tiers) = Some (Inr n)" "strip n = tiers_node nf tiers"
    using lim split(2) writes_parses by (metis within_limits_def)
  have "height (tiers_node nf tiers) \<le> 256"
  proof -
    have "list_all (\<lambda>t. tk_conditions t \<noteq> [] \<and> length (tk_conditions t) \<le> 100) (butlast tiers)"
      using conds lim in_set_butlastD [of _ tiers] by (simp add: within_limits_def list_all_iff)
    from height_tiers [OF nf _ this tiers(2)] lim show ?thesis by (simp add: within_limits_def)
  qed
  moreover have "F_fixed \<notin> functions_of (tiers_node nf tiers)" using functions_tiers [OF nf conds tiers(2)] by auto
  ultimately obtain c where c: "compile_uncached (tiers_text nf tiers) = Inr c" "comp_ast c = n"
    using compile_written [OF n(1), unfolded n(2)] typed_tiers [OF nf conds tiers(2)] by blast
  have "readTaskTierChain n schema False = Some (clear_last tiers)"
    using read_tiers [OF nf _ _ tiers(1) conds tiers(2) n(2)] number_fields_schema [OF schema] distinct_number_fields [OF schema]
    by (simp add: nf_def)
  moreover have "schema \<noteq> []" using nf by (auto simp: nf_def getTaskNumberFields_def)
  moreover obtain cache' where "compileBillingExpression (tiers_text nf tiers) cache = (Inr c, cache')"
    using compile_step(1) [OF cache, of "tiers_text nf tiers"] c(1) by (metis prod.collapse)
  ultimately show ?thesis using split(1,3) c(2) by (simp add: parseTaskTiersFromExpr_def)
qed

text \<open>The generator writes \<open>tiers_text\<close>.\<close>

lemma tiers_text_join:
  "tiers \<noteq> [] \<Longrightarrow>
   tiers_text nf tiers =
     join (js '' : '') (map (\<lambda>t. generateTaskCondition (tk_conditions t) @ js '' ? '' @ generateTaskTierCall t nf) (butlast tiers) @
       [generateTaskTierCall (last tiers) nf])"
proof (induction tiers rule: induct_list012)
  case (3 tier t ts)
  then have "tiers_text nf (t # ts) = join (js '' : '')
      (map (\<lambda>t. generateTaskCondition (tk_conditions t) @ js '' ? '' @ generateTaskTierCall t nf) (butlast (t # ts)) @
       [generateTaskTierCall (last (t # ts)) nf])" by blast
  then show ?case by (cases ts) simp_all
qed simp_all

lemma map_option_list_Some_map: "(\<forall>x\<in>set xs. f x = Some (g x)) \<Longrightarrow> map_option_list f xs = Some (map g xs)"
  by (induction xs) simp_all

lemma condition_not_empty: "cs \<noteq> [] \<Longrightarrow> generateTaskCondition cs \<noteq> []"
proof (cases cs)
  case (Cons c ds)
  then show ?thesis by (cases ds) (simp_all add: generateTaskCondition_def js_def)
qed simp

lemma generate_tiers:
  fixes schema collate config
  defines "nf \<equiv> getTaskNumberFields collate (Some schema)" and "tiers \<equiv> tvc_tiers (normalizeTaskVisualConfig collate config schema)"
  assumes nf: "nf \<noteq> []" and tiers: "tiers \<noteq> []" and conds: "list_all (\<lambda>t. tk_conditions t \<noteq> []) (butlast tiers)"
  shows "generateTaskExprFromConfig collate config schema = tiers_text nf tiers"
proof (cases "length tiers = 1")
  case True
  then obtain t where "tiers = [t]" by (auto simp: length_Suc_conv)
  with nf show ?thesis by (simp add: generateTaskExprFromConfig_def Let_def nf_def tiers_def)
next
  case False
  let ?f = "\<lambda>t. generateTaskCondition (tk_conditions t) @ js '' ? '' @ generateTaskTierCall t nf"
  let ?g = "\<lambda>(i, t). if i = length tiers - 1 then generateTaskTierCall t nf else ?f t"
  have "tier_parts nf tiers = Some (map ?g (enumerate 0 tiers))"
    unfolding tier_parts_def
  proof (rule map_option_list_Some_map, rule ballI)
    fix x assume x: "x \<in> set (enumerate 0 tiers)"
    then obtain i where i: "i < length tiers" "x = (i, tiers ! i)" by (auto simp: in_set_enumerate_eq)
    show "(case x of (index, tier) \<Rightarrow>
        if index = length tiers - 1 then Some (generateTaskTierCall tier nf)
        else if generateTaskCondition (tk_conditions tier) = [] then None
        else Some (generateTaskCondition (tk_conditions tier) @ js '' ? '' @ generateTaskTierCall tier nf)) = Some (?g x)"
    proof (cases "i = length tiers - 1")
      case False
      then have "tiers ! i \<in> set (butlast tiers)" using i by (metis Suc_diff_1 length_butlast less_antisym nth_butlast nth_mem
            length_greater_0_conv tiers)
      with conds have "generateTaskCondition (tk_conditions (tiers ! i)) \<noteq> []"
        by (intro condition_not_empty) (simp add: list_all_iff)
      with i False show ?thesis by simp
    qed (use i in simp)
  qed
  also have "map ?g (enumerate 0 tiers) = map ?f (butlast tiers) @ [generateTaskTierCall (last tiers) nf]"
    using tiers by (intro nth_equalityI) (auto simp: nth_enumerate_eq nth_append nth_butlast last_conv_nth)
  finally show ?thesis
    using False nf tiers by (simp add: generateTaskExprFromConfig_def Let_def tiers_text_join flip: nf_def tiers_def)
qed

subsection \<open>Configurations and matrices\<close>

text \<open>A configuration that the editor can save: named tiers with readable prices and conditions.\<close>

definition storable :: "collation \<Rightarrow> usage_schema \<Rightarrow> task_tier list \<Rightarrow> bool" where
  "storable collate schema tiers \<longleftrightarrow>
     (let nf = getTaskNumberFields collate (Some schema) in
      distinct (map fst schema) \<and> nf \<noteq> [] \<and> tiers \<noteq> [] \<and> within_limits nf tiers \<and>
      list_all (\<lambda>t. proper_tier schema nf t \<and> tk_label t \<noteq> []) tiers \<and>
      list_all (\<lambda>t. tk_conditions t \<noteq> []) (butlast tiers))"

lemma storableD:
  assumes "storable collate schema tiers"
  shows "distinct (map fst schema)" "getTaskNumberFields collate (Some schema) \<noteq> []" "tiers \<noteq> []"
    "within_limits (getTaskNumberFields collate (Some schema)) tiers"
    "list_all (proper_tier schema (getTaskNumberFields collate (Some schema))) tiers"
    "list_all (\<lambda>t. tk_label t \<noteq> []) tiers" "list_all (\<lambda>t. tk_conditions t \<noteq> []) (butlast tiers)"
  using assms by (simp_all add: storable_def Let_def list_all_iff)

lemma enum_field_of:
  assumes "distinct (map fst schema)" "schema_enum schema k = Some vs" "v \<in> set vs"
  shows "\<exists>f. map_of (getTaskEnumFields collate (Some schema)) k = Some f \<and> v \<in> set (enum_values f)"
proof -
  obtain f where f: "map_of schema k = Some f" "uf_enum f = Some vs"
    using assms(2) by (cases "map_of schema k") (auto simp: schema_enum_def)
  then have "(k, f) \<in> set (getTaskEnumFields collate (Some schema))"
    using assms(3) by (auto simp: getTaskEnumFields_def dest: map_of_SomeD split: list.splits)
  then have "map_of (getTaskEnumFields collate (Some schema)) k = Some f"
    using distinct_enum_fields [OF assms(1)] by simp
  with f assms(3) show ?thesis by (simp add: enum_values_def)
qed

lemma writable_kept: "writable x \<Longrightarrow> nonnegative_or_zero x = x"
  by (simp add: nonnegative_or_zero_def writable_def unsigned_price is_unsigned_finite)

lemma normalize_proper_tier:
  fixes collate schema
  defines "nf \<equiv> getTaskNumberFields collate (Some schema)"
  assumes schema: "distinct (map fst schema)" and t: "proper_tier schema nf t" "tk_label t \<noteq> []"
  shows "normalize_tier nf (getTaskEnumFields collate (Some schema)) i t = t"
proof -
  let ?ef = "getTaskEnumFields collate (Some schema)"
  have "filter (\<lambda>c. case map_of ?ef (tk_field c) of Some f \<Rightarrow> tk_value c \<in> set (enum_values f) | None \<Rightarrow> False) (tk_conditions t) = tk_conditions t"
    using t(1) enum_field_of [OF schema, of _ _ _ collate] by (fastforce simp: filter_id_conv proper_tier_def list_all_iff)
  moreover have "nonnegative_or_zero (tk_constant t) = tk_constant t"
    using t(1) by (intro writable_kept) (simp add: proper_tier_def writable_tier_def)
  moreover have "map (\<lambda>(field, _). (field, nonnegative_or_zero (case map_of (tk_unit_prices t) field of Some x \<Rightarrow> x | None \<Rightarrow> NaN))) nf =
      field_prices nf (tk_unit_prices t)"
    unfolding field_prices_def
  proof (rule map_cong [OF refl], clarify)
    fix field f assume f: "(field, f) \<in> set nf"
    then have "field \<in> set (map fst (tk_unit_prices t))" using t(1) by (force simp: proper_tier_def)
    then obtain x where x: "map_of (tk_unit_prices t) field = Some x" by (cases "map_of (tk_unit_prices t) field") (auto simp: map_of_eq_None_iff)
    moreover have "writable x" using t(1) f x by (fastforce simp: proper_tier_def writable_tier_def list_all_iff or_zero_def)
    ultimately show "field = field \<and> nonnegative_or_zero (case map_of (tk_unit_prices t) field of Some x \<Rightarrow> x | None \<Rightarrow> NaN) =
        or_zero (map_of (tk_unit_prices t) field)"
      by (simp add: writable_kept or_zero_def)
  qed
  moreover have "field_prices nf (tk_unit_prices t) = tk_unit_prices t"
    using t(1) distinct_number_fields [OF schema] by (intro field_prices_self) (simp_all add: proper_tier_def nf_def)
  ultimately show ?thesis using t(2) by (simp add: normalize_tier_def)
qed

lemma normalize_storable:
  assumes "distinct (map fst schema)" and "tiers \<noteq> []"
    and "list_all (\<lambda>t. proper_tier schema (getTaskNumberFields collate (Some schema)) t \<and> tk_label t \<noteq> []) tiers"
  shows "normalizeTaskVisualConfig collate (Some \<lparr>tvc_tiers = tiers\<rparr>) schema = \<lparr>tvc_tiers = tiers\<rparr>"
proof -
  have "map (\<lambda>(i, t). normalize_tier (getTaskNumberFields collate (Some schema)) (getTaskEnumFields collate (Some schema)) i t)
      (enumerate 0 tiers) = tiers"
    using assms by (intro nth_equalityI) (simp_all add: nth_enumerate_eq normalize_proper_tier list_all_length)
  with assms(2) show ?thesis by (simp add: normalizeTaskVisualConfig_def)
qed

theorem config_text_roundtrip:
  assumes st: "storable collate schema tiers" and cache: "cache_agrees cache"
  shows "fst (tryParseTaskVisualConfig collate (Some (generateTaskExprFromConfig collate (Some \<lparr>tvc_tiers = tiers\<rparr>) schema)) schema cache) =
    Inr (Some \<lparr>tvc_tiers = clear_last tiers\<rparr>)"
proof -
  note d = storableD [OF st]
  let ?nf = "getTaskNumberFields collate (Some schema)"
  have good: "list_all (\<lambda>t. proper_tier schema ?nf t \<and> tk_label t \<noteq> []) tiers" using d(5,6) by (simp add: list_all_iff)
  have gen: "generateTaskExprFromConfig collate (Some \<lparr>tvc_tiers = tiers\<rparr>) schema = tiers_text ?nf tiers"
    using generate_tiers [of collate schema "Some \<lparr>tvc_tiers = tiers\<rparr>"] d(2,3,7) normalize_storable [OF d(1,3) good] by simp
  have p: "fst (parseTaskTiersFromExpr (tiers_text ?nf tiers) (Some schema) False cache) = Inr (clear_last tiers)"
    using d cache by (intro parse_tiers_text) auto
  have "proper_tier schema ?nf (t\<lparr>tk_conditions := []\<rparr>)" if "proper_tier schema ?nf t" for t
    using that by (simp add: proper_tier_def writable_tier_def)
  then have "list_all (\<lambda>t. proper_tier schema ?nf t \<and> tk_label t \<noteq> []) (clear_last tiers)"
    using good d(3) last_in_set [OF d(3)] in_set_butlastD [of _ tiers] by (auto simp: clear_last_def list_all_iff)
  then have "normalizeTaskVisualConfig collate (Some \<lparr>tvc_tiers = clear_last tiers\<rparr>) schema = \<lparr>tvc_tiers = clear_last tiers\<rparr>"
    by (intro normalize_storable d(1)) (simp_all add: clear_last_def)
  moreover have "tiers_text ?nf tiers \<noteq> []" "clear_last tiers \<noteq> []"
    using tiers_text_ends [OF d(3,7), of ?nf] by (auto simp: clear_last_def)
  ultimately show ?thesis using p by (simp add: tryParseTaskVisualConfig_def gen case_prod_beta)
qed

text \<open>What the matrix editor needs of a schema and of the rows.\<close>

definition editable_schema :: "usage_schema \<Rightarrow> bool" where
  "editable_schema schema \<longleftrightarrow>
     schema_ok schema \<and>
     list_all (\<lambda>(k, f). code_units k \<and> (uf_enum f \<noteq> None \<longrightarrow> uf_type f \<noteq> Some UT_boolean) \<and> [] \<notin> set (enum_values f)) schema"

definition row_writable :: "(js_string, usage_field) entries \<Rightarrow> task_matrix_row \<Rightarrow> bool" where
  "row_writable nf row \<longleftrightarrow>
     writable (mr_constant row) \<and> map fst (mr_unitPrices row) = map fst nf \<and> list_all (\<lambda>(k, x). writable x) (mr_unitPrices row)"

lemma writable_plain: "writable x \<Longrightarrow> plain_number x"
  by (cases x) (simp_all add: writable_def)

lemma writable_row_priced: "row_writable nf row \<Longrightarrow> row_priced nf row"
  by (auto simp: row_writable_def row_priced_def list_all_iff writable_plain)

lemma row_prices_writable:
  assumes "row_writable nf row" "distinct (map fst nf)" "(k, f) \<in> set nf"
  shows "writable (or_zero (map_of (field_prices nf (mr_unitPrices row)) k))"
proof -
  have eq: "field_prices nf (mr_unitPrices row) = mr_unitPrices row"
    using assms(1,2) by (intro field_prices_self) (simp_all add: row_writable_def)
  have "k \<in> set (map fst (mr_unitPrices row))" using assms(1,3) by (force simp: row_writable_def)
  then obtain x where "map_of (mr_unitPrices row) k = Some x"
    by (cases "map_of (mr_unitPrices row) k") (auto simp: map_of_eq_None_iff)
  moreover from this have "writable x" using assms(1) by (auto simp: row_writable_def list_all_iff dest: map_of_SomeD)
  ultimately show ?thesis by (simp add: eq or_zero_def)
qed

lemma combination_readable:
  assumes s: "editable_schema schema" and c: "c \<in> set (getTaskEnumCombinations collate (Some schema))" "(k, v) \<in> set c"
  shows "code_units k" "code_units v" "v \<noteq> []" "schema_type schema k \<noteq> Some UT_boolean"
    "\<exists>vs. schema_enum schema k = Some vs \<and> v \<in> set vs"
proof -
  have ok: "schema_ok schema" using s by (simp add: editable_schema_def)
  show "\<exists>vs. schema_enum schema k = Some vs \<and> v \<in> set vs" by (rule combination_enum [OF ok c])
  then obtain vs f where f: "map_of schema k = Some f" "uf_enum f = Some vs" "v \<in> set vs"
    by (cases "map_of schema k") (auto simp: schema_enum_def)
  then have mem: "(k, f) \<in> set schema" "v \<in> set (enum_values f)" by (auto simp: enum_values_def dest: map_of_SomeD)
  with s f ok show "code_units k" "code_units v" "v \<noteq> []" "schema_type schema k \<noteq> Some UT_boolean"
    by (auto simp: editable_schema_def schema_ok_def list_all_iff schema_type_def)
qed

lemma code_units_join: "list_all code_units xs \<Longrightarrow> code_units sep \<Longrightarrow> code_units (join sep xs)"
  by (induction sep xs rule: join.induct) simp_all

lemma join_not_empty: "xs \<noteq> [] \<Longrightarrow> [] \<notin> set xs \<Longrightarrow> join sep xs \<noteq> []"
  by (cases "(sep, xs)" rule: join.cases) auto

lemma row_label_ok:
  assumes s: "editable_schema schema" and c: "c \<in> set (getTaskEnumCombinations collate (Some schema))"
  shows "code_units (taskMatrixRowLabel collate c) \<and> taskMatrixRowLabel collate c \<noteq> []"
proof -
  have "code_units v \<and> v \<noteq> []" if "v \<in> set (map snd (sort_by_name collate c))" for v
    using that combination_readable(2,3) [OF s c] by auto
  then have "list_all code_units (map snd (sort_by_name collate c))" "[] \<notin> set (map snd (sort_by_name collate c))"
    by (auto simp: list_all_iff)
  then show ?thesis
    using code_units_join [of "map snd (sort_by_name collate c)" "[183]"] join_not_empty [of "map snd (sort_by_name collate c)"]
    by (auto simp: taskMatrixRowLabel_def js_def Let_def)
qed

lemma row_tier_proper:
  fixes collate schema
  defines "nf \<equiv> getTaskNumberFields collate (Some schema)"
  assumes s: "editable_schema schema" and c: "mr_combination row \<in> set (getTaskEnumCombinations collate (Some schema))"
    and row: "row_writable nf row"
  shows "proper_tier schema nf (row_tier collate nf n i row) \<and> tk_label (row_tier collate nf n i row) \<noteq> []"
proof -
  have dist: "distinct (map fst schema)" using s by (simp add: editable_schema_def schema_ok_def)
  have nf: "code_units k" if "(k, f) \<in> set nf" for k f
    using that s by (auto simp: nf_def getTaskNumberFields_def editable_schema_def list_all_iff)
  have "list_all (\<lambda>(field, _). code_units field \<and> writable (or_zero (map_of (field_prices nf (mr_unitPrices row)) field))) nf"
    unfolding list_all_iff using nf [unfolded list_all_iff] row_prices_writable [OF row] distinct_number_fields [OF dist] by (auto simp: nf_def)
  moreover have "list_all (\<lambda>c. code_units (tk_field c) \<and> code_units (tk_value c) \<and> schema_type schema (tk_field c) \<noteq> Some UT_boolean \<and>
      (\<exists>vs. schema_enum schema (tk_field c) = Some vs \<and> tk_value c \<in> set vs)) (tk_conditions (row_tier collate nf n i row))"
    using combination_readable [OF s c] by (auto simp: row_tier_def list_all_iff)
  moreover have "map fst (field_prices nf (mr_unitPrices row)) = map fst nf" by (simp add: field_prices_def split_beta o_def)
  ultimately show ?thesis
    using row_label_ok [OF s c] row
    by (simp add: proper_tier_def writable_tier_def row_writable_def row_tier_def list_all_iff)
qed

lemma combination_not_empty:
  assumes "schema_ok schema" and "1 < length (getTaskEnumCombinations collate (Some schema))"
    and "c \<in> set (getTaskEnumCombinations collate (Some schema))"
  shows "c \<noteq> []"
proof
  assume "c = []"
  note comb = in_combinations [OF schema_okD(1) [OF assms(1)], of _ collate, THEN iffD1, THEN conjunct1]
  have "getTaskEnumFields collate (Some schema) = []" using comb [OF assms(3)] \<open>c = []\<close> by simp
  then have "d = []" if "d \<in> set (getTaskEnumCombinations collate (Some schema))" for d using comb [OF that] by simp
  then have "set (getTaskEnumCombinations collate (Some schema)) \<subseteq> {[]}" by blast
  with schema_okD(2) [OF assms(1), of collate] assms(2) show False
    by (metis card.empty card_insert_disjoint card_mono distinct_card empty_iff finite.intros leD One_nat_def)
qed

lemma matrix_tiers_storable:
  assumes s: "editable_schema schema" and fits: "fits_schema collate schema config"
    and nf: "getTaskNumberFields collate (Some schema) \<noteq> []" and ne: "mc_rows config \<noteq> []"
    and rows: "\<forall>row\<in>set (mc_rows config). row_writable (getTaskNumberFields collate (Some schema)) row"
    and lim: "within_limits (getTaskNumberFields collate (Some schema)) (taskMatrixToTiers collate config schema)"
  shows "storable collate schema (taskMatrixToTiers collate config schema)"
    and "clear_last (taskMatrixToTiers collate config schema) = taskMatrixToTiers collate config schema"
proof -
  let ?nf = "getTaskNumberFields collate (Some schema)" and ?rows = "mc_rows config" and ?T = "taskMatrixToTiers collate config schema"
  have ok: "schema_ok schema" and dist: "distinct (map fst schema)" using s by (auto simp: editable_schema_def schema_ok_def)
  obtain first rest where first: "?rows = first # rest" using ne by (cases ?rows) auto
  have comb: "mr_combination row \<in> set (getTaskEnumCombinations collate (Some schema))" if "row \<in> set ?rows" for row
    using that fits by (metis fits_schema_def image_eqI list.set_map)
  have proper: "proper_tier schema ?nf (row_tier collate ?nf n i row) \<and> tk_label (row_tier collate ?nf n i row) \<noteq> []"
    if "row \<in> set ?rows" for n i row
    using row_tier_proper [OF s comb [OF that]] rows that by blast
  have "storable collate schema ?T \<and> clear_last ?T = ?T"
  proof (cases "rows_uniform ?nf ?rows first")
    case True
    let ?t = "\<lparr>tk_label = js ''base'', tk_conditions = [], tk_constant = mr_constant first, tk_unit_prices = field_prices ?nf (mr_unitPrices first)\<rparr>"
    have T: "?T = [?t]" using True first nf by (simp add: taskMatrixToTiers_def Let_def)
    have "proper_tier schema ?nf ?t"
      using proper [of first 1 0] first by (simp add: proper_tier_def writable_tier_def row_tier_def js_def)
    with T lim nf dist show ?thesis by (simp add: storable_def clear_last_def Let_def)
  next
    case False
    let ?n = "length ?rows"
    have T: "?T = map (\<lambda>(i, row). row_tier collate ?nf ?n i row) (enumerate 0 ?rows)"
      using False first nf by (simp add: taskMatrixToTiers_def Let_def)
    have nth: "?T ! i = row_tier collate ?nf ?n i (?rows ! i)" if "i < ?n" for i using that by (simp add: T nth_enumerate_eq)
    have len: "length ?T = ?n" by (simp add: T)
    have "tk_conditions (?T ! i) \<noteq> []" if "i < ?n - 1" for i
    proof -
      have "1 < length (getTaskEnumCombinations collate (Some schema))" using that fits_schemaD(1) [OF fits] by simp
      then have "mr_combination (?rows ! i) \<noteq> []" using combination_not_empty [OF ok _ comb] that by simp
      moreover have "sort_by_name collate es = [] \<longleftrightarrow> es = []" for es :: "(js_string, js_string) entries"
        by (metis length_0_conv length_sort_by_name)
      ultimately show ?thesis using that nth [of i] by (simp add: row_tier_def)
    qed
    then have "list_all (\<lambda>t. tk_conditions t \<noteq> []) (butlast ?T)" by (simp add: list_all_length nth_butlast len)
    moreover have "list_all (\<lambda>t. proper_tier schema ?nf t \<and> tk_label t \<noteq> []) ?T"
      using proper by (simp add: list_all_length len nth)
    moreover have T_ne: "?T \<noteq> []" using ne len by force
    moreover from this have last: "tk_conditions (last ?T) = []"
      using nth [of "?n - 1"] ne len by (simp add: last_conv_nth row_tier_def)
    moreover have "clear_last ?T = ?T" unfolding clear_last_def using last T_ne by (metis append_butlast_last_id task_tier.surjective task_tier.update_convs(2))
    ultimately show ?thesis using lim nf dist by (simp add: storable_def Let_def)
  qed
  then show "storable collate schema ?T" and "clear_last ?T = ?T" by simp_all
qed

theorem matrix_text_roundtrip:
  assumes s: "editable_schema schema" and fits: "fits_schema collate schema config"
    and nf: "getTaskNumberFields collate (Some schema) \<noteq> []" and ne: "mc_rows config \<noteq> []"
    and rows: "\<forall>row\<in>set (mc_rows config). row_writable (getTaskNumberFields collate (Some schema)) row"
    and lim: "within_limits (getTaskNumberFields collate (Some schema)) (taskMatrixToTiers collate config schema)"
    and cache: "cache_agrees cache"
  shows "fst (tryParseTaskMatrixConfig collate
      (Some (generateTaskExprFromConfig collate (Some \<lparr>tvc_tiers = taskMatrixToTiers collate config schema\<rparr>) schema)) schema cache) =
    Inr (Some config)"
proof -
  let ?nf = "getTaskNumberFields collate (Some schema)" and ?T = "taskMatrixToTiers collate config schema"
  note st = matrix_tiers_storable [OF s fits nf ne rows lim]
  note d = storableD [OF st(1)]
  have good: "list_all (\<lambda>t. proper_tier schema ?nf t \<and> tk_label t \<noteq> []) ?T" using d(5,6) by (simp add: list_all_iff)
  have gen: "generateTaskExprFromConfig collate (Some \<lparr>tvc_tiers = ?T\<rparr>) schema = tiers_text ?nf ?T"
    using generate_tiers [of collate schema "Some \<lparr>tvc_tiers = ?T\<rparr>"] d(2,3,7) normalize_storable [OF d(1,3) good] by simp
  have "fst (parseTaskTiersFromExpr (tiers_text ?nf ?T) (Some schema) False cache) = Inr ?T"
    using parse_tiers_text [OF d(1,2,5,3,7,4) cache] st(2) by simp
  moreover have "matrix_of_tiers collate schema ?T = Some config"
    using matrix_roundtrip [OF _ fits nf ne] s rows writable_row_priced by (simp add: editable_schema_def)
  moreover have "tiers_text ?nf ?T \<noteq> []" using tiers_text_ends [OF d(3,7), of ?nf] by auto
  ultimately show ?thesis by (simp add: tryParseTaskMatrixConfig_def gen case_prod_beta)
qed

end
