(* ===== verification/Tier_Text.thy ===== *)
theory Tier_Text
  imports Tier_Editor Task_Text Display_Correct
begin

section \<open>Expressions of the tier editor\<close>

text \<open>
  The expression that the editor writes for its tiers compiles to a tree that the display reads
  as the same tiers, so that the estimator charges the first tier whose conditions hold.
\<close>

subsection \<open>Chains of branches\<close>

fun branch_text :: "(js_string \<times> js_string) list \<Rightarrow> js_string \<Rightarrow> js_string" where
  "branch_text [] z = z"
| "branch_text ((x, y) # bs) z = x @ js '' ? '' @ y @ js '' : '' @ branch_text bs z"

fun branch_node :: "(expression_node \<times> expression_node) list \<Rightarrow> expression_node \<Rightarrow> expression_node" where
  "branch_node [] n = n"
| "branch_node ((c, a) # bs) n = Conditional c a (branch_node bs n) 0 0"

lemma writes_branches:
  assumes "list_all2 (\<lambda>(x, y) (c, a). writes 2 2 x c \<and> writes 3 7 y a) bs ns" and "writes 3 7 z n"
  shows "writes (3 + length bs) 0 (branch_text bs z) (branch_node ns n)"
  using assms(1)
proof (induction rule: list_all2_induct)
  case Nil
  show ?case using writes_le [OF assms(2)] by simp
next
  case (Cons b bs m ns)
  obtain x y c a where b: "b = (x, y)" "m = (c, a)" "writes 2 2 x c" "writes 3 7 y a" using Cons.hyps(1) by (cases b; cases m) auto
  have "writes (Suc (3 + length bs)) 1 x c" by (rule writes_more_depth [OF writes_le [OF b(3)]]) simp_all
  moreover have "writes (3 + length bs) 0 y a" by (rule writes_more_depth [OF writes_le [OF b(4)]]) simp_all
  ultimately have "writes (Suc (3 + length bs)) 0 (x @ js '' ? '' @ y @ js '' : '' @ branch_text bs z) (Conditional c a (branch_node ns n) 0 0)"
    using Cons.IH by (rule writes_conditional)
  then show ?case by (simp add: b)
qed

lemma height_branches:
  "list_all (\<lambda>(c, a). height c \<le> h \<and> height a \<le> h) bs \<Longrightarrow> height n \<le> h \<Longrightarrow> height (branch_node bs n) \<le> h + length bs"
  by (induction bs) (auto simp: height_simps le_SucI max_def)

lemma typed_branches:
  "list_all (\<lambda>(c, a). (\<exists>t. typed c t \<and> Ty_boolean \<le> t) \<and> typed a Ty_number) bs \<Longrightarrow> typed n Ty_number \<Longrightarrow>
   typed (branch_node bs n) Ty_number"
proof (induction bs)
  case (Cons b bs)
  obtain c a t where b: "b = (c, a)" "typed c t" "Ty_boolean \<le> t" "typed a Ty_number" using Cons.prems(1) by (cases b) auto
  have "typed (branch_node bs n) Ty_number" using Cons by simp
  from t_cond [OF b(2,3,4) this, of 0 0] show ?case by (simp add: b(1))
qed simp

lemma pricing_branches:
  "list_all (\<lambda>(c, a). \<not> marked c \<and> pricing_tree [] a) bs \<Longrightarrow> pricing_tree [] n \<Longrightarrow> pricing_tree [] (branch_node bs n)"
  by (induction bs) (auto simp: pricing_tree_simps)

lemma read_branches:
  assumes "list_all2 (\<lambda>(c, a) t. tokenConditions c = Some (tt_conditions t) \<and>
      (\<forall>m. strip m = a \<longrightarrow> tokenTier m (tt_conditions t) = Some t)) bs ts"
    and "\<forall>m. strip m = n \<longrightarrow> tokenTier m [] = Some t" and "\<exists>f args. n = Call f args 0 0"
  shows "strip m = branch_node bs n \<Longrightarrow> readTokenTierChain m = Some (ts @ [t])"
  using assms(1)
proof (induction bs ts arbitrary: m rule: list_all2_induct)
  case Nil
  then obtain f args s e where "m = Call f args s e" using assms(3) by (auto simp: strip_Call)
  with Nil assms(2) show ?case by simp
next
  case (Cons b bs u ts)
  obtain c a where b: "b = (c, a)" by fastforce
  with Cons.prems obtain c' a' b' s e where m: "m = Conditional c' a' b' s e" "strip c' = c" "strip a' = a"
      "strip b' = branch_node bs n"
    using strip_Conditional [of m c a "branch_node bs n" 0 0] by auto
  have "tokenConditions c' = Some (tt_conditions u)" using Cons.hyps(1) b m(2) tokenConditions_strip [of c'] by simp
  moreover have "tokenTier a' (tt_conditions u) = Some u" using Cons.hyps(1) b m(3) by auto
  ultimately show ?case using m(1) Cons.IH [OF m(4)] by simp
qed

subsection \<open>Texts of the editor\<close>

definition priced_node :: "token_variable \<times> js_num \<Rightarrow> expression_node" where
  "priced_node e = Binary MulOp (Variable (fst e) 0 0) (num_node (snd e)) 0 0"

definition tier_prices :: "visual_tier \<Rightarrow> (token_variable, js_num) entries" where
  "tier_prices tier =
     (TV_p, number_or_zero (map_of (vt_costs tier) INPUT_COST)) #
     (TV_c, number_or_zero (map_of (vt_costs tier) OUTPUT_COST)) #
     map (\<lambda>(field, v). (v, number_or_zero (map_of (vt_costs tier) field)))
       (filter (\<lambda>(field, v). \<not> is_zero (number_or_zero (map_of (vt_costs tier) field))) BILLING_CACHE_VAR_MAP)"

lemma cache_vars: "map snd BILLING_CACHE_VAR_MAP = [TV_cr, TV_cc, TV_cc1h, TV_img, TV_img_o, TV_ai, TV_ao]"
  by (simp add: BILLING_CACHE_VAR_MAP_def BILLING_EXTRA_VARS_def BILLING_VARS_def)

lemma tier_prices_vars: "distinct (map fst (tier_prices tier)) \<and> TV_len \<notin> fst ` set (tier_prices tier) \<and> length (tier_prices tier) \<le> 9"
proof -
  let ?f = "filter (\<lambda>(field, v). \<not> is_zero (number_or_zero (map_of (vt_costs tier) field))) BILLING_CACHE_VAR_MAP"
  have "snd ` set BILLING_CACHE_VAR_MAP = {TV_cr, TV_cc, TV_cc1h, TV_img, TV_img_o, TV_ai, TV_ao}"
    using arg_cong [OF cache_vars, of set] by simp
  then have d: "distinct (map snd BILLING_CACHE_VAR_MAP)" "{TV_p, TV_c, TV_len} \<inter> snd ` set BILLING_CACHE_VAR_MAP = {}"
      "length BILLING_CACHE_VAR_MAP = 7"
    using arg_cong [OF cache_vars, of length, unfolded length_map] by (simp_all add: cache_vars)
  have vars: "map fst (tier_prices tier) = TV_p # TV_c # map snd ?f" by (simp add: tier_prices_def case_prod_unfold)
  have "distinct (map snd ?f)" using d(1) by (simp add: distinct_map_filter)
  moreover have sub: "snd ` set ?f \<subseteq> snd ` set BILLING_CACHE_VAR_MAP" by auto
  ultimately have "distinct (map fst (tier_prices tier))" unfolding vars using d(2) by auto
  moreover have "TV_len \<notin> set (map fst (tier_prices tier))" unfolding vars using d(2) sub by auto
  moreover have "length (map fst (tier_prices tier)) \<le> 9"
    unfolding vars using length_filter_le [of "\<lambda>(field, v). \<not> is_zero (number_or_zero (map_of (vt_costs tier) field))" BILLING_CACHE_VAR_MAP] d(3) by simp
  ultimately show ?thesis by simp
qed

lemma variable_name: "variable_text v \<noteq> [] \<and> is_name_start (hd (variable_text v)) \<and> list_all is_word (variable_text v) \<and>
    map_of TOKEN_VARIABLES (variable_text v) = Some v"
  by (cases v) (simp_all add: js_def is_name_start_def is_word_def is_letter_def is_digit_def TOKEN_VARIABLES_def)

lemma writes_cost_term: "writable x \<Longrightarrow> writes 1 6 (cost_term v x) (priced_node (v, x))"
proof -
  assume "writable x"
  then have "writes 0 7 (string_of_number x) (num_node x)" by (rule writes_number)
  moreover have "writes 1 6 (variable_text v) (Variable v 0 0)"
    using variable_name [of v] by (intro writes_le [OF writes_variable]) simp_all
  ultimately have "writes 1 6 (variable_text v @ 32 # js ''*'' @ 32 # string_of_number x) (Binary MulOp (Variable v 0 0) (num_node x) 0 0)"
    using writes_binary [of 0 MulOp, simplified, OF _ _ operator_texts(1)] by (metis One_nat_def)
  then show ?thesis by (simp add: cost_term_def priced_node_def js_def)
qed

definition plain_label :: "js_string \<Rightarrow> bool" where
  "plain_label s \<longleftrightarrow> list_all (\<lambda>c. c \<noteq> 34 \<and> c \<noteq> 92 \<and> c \<noteq> 10 \<and> c \<noteq> 13) s"

lemma scan_plain_label:
  "plain_label l \<Longrightarrow> scan_string (pre @ l @ 34 # post) 34 start (length pre) val = Inr (val @ l, length pre + length l + 1)"
proof (induction l arbitrary: pre val)
  case Nil
  show ?case by (subst scan_string.simps) simp
next
  case (Cons c l)
  have "scan_string (pre @ (c # l) @ 34 # post) 34 start (length pre) val =
      scan_string (pre @ (c # l) @ 34 # post) 34 start (length pre + 1) (val @ [c])"
    using Cons.prems by (subst scan_string_plain) (simp_all add: plain_label_def)
  then show ?case using Cons.IH [of "pre @ [c]" "val @ [c]"] Cons.prems by (simp add: plain_label_def)
qed

lemma writes_label: "plain_label l \<Longrightarrow> writes d 7 (34 # l @ [34]) (str_node l)"
proof (rule writes_tokenI)
  assume l: "plain_label l"
  show "writes_token (34 # l @ [34]) (K_string l)"
    unfolding writes_token_def
  proof (intro allI impI)
    fix pre post :: js_string
    let ?src = "pre @ (34 # l @ [34]) @ post"
    have drop: "drop (length pre) ?src = 34 # l @ 34 # post" by simp
    have start: "skip_space ?src (length pre) = length pre" by (rule lex_here) (simp_all add: is_space_def)
    have num: "match_number (34 # l @ 34 # post) = []" by (simp add: match_number_def match_mantissa_def is_digit_def)
    have scan: "scan_string ?src 34 (length pre) (length pre + 1) [] = Inr (l, length pre + 1 + length l + 1)"
      using scan_plain_label [OF l, of "pre @ [34]" post "length pre" "[]"] by simp
    have "slice ?src (length pre) (length pre + 1 + length l + 1) = 34 # l @ [34]"
      by (simp add: slice_def)
    with start num scan drop show "lex_at ?src (length pre) =
        Inr \<lparr>lx_kind = K_string l, lx_text = 34 # l @ [34], lx_start = length pre, lx_end = length pre + length (34 # l @ [34])\<rparr>"
      by (simp add: lex_at_def Let_def)
  qed
  fix i e
  show "\<exists>n'. derives d 7 [\<lparr>lx_kind = K_string l, lx_text = 34 # l @ [34], lx_start = i, lx_end = e\<rparr>] n' \<and> strip n' = str_node l"
    by (rule exI, rule conjI, rule quoted) (simp_all add: str_node_def)
qed simp

subsection \<open>Tiers and conditions as trees\<close>

text \<open>The number of a text that the editor holds: a fixed price or the bound of a condition.\<close>

definition shows_number :: "js_string \<Rightarrow> js_num \<Rightarrow> bool" where
  "shows_number s x \<longleftrightarrow> writable x \<and> s = string_of_number x"

definition body_tree :: "visual_tier \<Rightarrow> expression_node" where
  "body_tree tier =
     (if vt_billing_unit tier = Some UnitRequest
      then Call F_fixed [num_node (number_of_string (the (vt_fixed_price tier)))] 0 0
      else joined AddOp (map priced_node (tier_prices tier)))"

definition call_tree :: "js_string \<Rightarrow> visual_tier \<Rightarrow> expression_node" where
  "call_tree label tier = Call F_tier [str_node label, body_tree tier] 0 0"

definition priced_tier :: "visual_tier \<Rightarrow> bool" where
  "priced_tier tier \<longleftrightarrow>
     (if vt_billing_unit tier = Some UnitRequest
      then (case vt_fixed_price tier of
              Some s \<Rightarrow> shows_number s (number_of_string s) \<and> is_finite (num_mul (number_of_string s) (Fin 1000000))
            | None \<Rightarrow> False)
      else list_all (\<lambda>(v, x). writable x) (tier_prices tier))"

definition shown_tier :: "js_string \<Rightarrow> token_condition list \<Rightarrow> visual_tier \<Rightarrow> token_tier" where
  "shown_tier label conditions tier =
     (if vt_billing_unit tier = Some UnitRequest
      then \<lparr>tt_unit = UnitRequest, tt_fixed = Some (number_of_string (the (vt_fixed_price tier))), tt_label = label,
            tt_conditions = conditions, tt_prices = []\<rparr>
      else \<lparr>tt_unit = UnitToken, tt_fixed = None, tt_label = label, tt_conditions = conditions, tt_prices = tier_prices tier\<rparr>)"

lemma body_text:
  "vt_billing_unit tier \<noteq> Some UnitRequest \<Longrightarrow>
   buildTierBodyExpr tier = join (js '' + '') (map (\<lambda>(v, x). cost_term v x) (tier_prices tier))"
  by (simp add: buildTierBodyExpr_def tier_prices_def case_prod_unfold o_def)

lemma writes_tier_call:
  assumes "priced_tier tier" and "plain_label label"
  shows "writes 3 7 (tier_call_text label tier) (call_tree label tier)"
proof -
  have "writes 2 0 (buildTierBodyExpr tier) (body_tree tier)"
  proof (cases "vt_billing_unit tier = Some UnitRequest")
    case True
    with assms(1) obtain s where s: "vt_fixed_price tier = Some s" "shows_number s (number_of_string s)"
      by (auto simp: priced_tier_def split: option.splits)
    let ?x = "number_of_string s"
    have "writes_args 1 (string_of_number ?x) [num_node ?x]"
      using s(2) by (intro writes_one writes_le [OF writes_number]) (simp_all add: shows_number_def)
    from writes_call [OF this function_names(3)]
    have "writes 2 7 (js ''fixed'' @ js ''('' @ s @ js '')'') (Call F_fixed [num_node ?x] 0 0)"
      using s(2) by (simp add: shows_number_def numeral_2_eq_2)
    from writes_le [OF this, of 0] True s(1) show ?thesis by (simp add: buildTierBodyExpr_def body_tree_def js_def)
  next
    case False
    have "list_all2 (writes (Suc 0) 6) (map (\<lambda>(v, x). cost_term v x) (tier_prices tier)) (map priced_node (tier_prices tier))"
      using assms(1) False writes_cost_term unfolding list_all2_map1 list_all2_map2 list_all2_same
      by (auto simp: priced_tier_def list_all_iff)
    moreover have "tier_prices tier \<noteq> []" by (simp add: tier_prices_def)
    ultimately have "writes 2 5 (join (js '' + '') (map (\<lambda>(v, x). cost_term v x) (tier_prices tier))) (body_tree tier)"
      using writes_joined [of "js ''+''" AddOp 1, simplified] False by (simp add: body_tree_def js_def numeral_2_eq_2)
    from writes_le [OF this, of 0] show ?thesis by (simp add: body_text [OF False])
  qed
  then have "writes_args 2 (buildTierBodyExpr tier) [body_tree tier]" by (rule writes_one)
  moreover have "writes 2 0 (34 # label @ [34]) (str_node label)" by (rule writes_le [OF writes_label [OF assms(2)]]) simp
  ultimately have "writes_args 2 ((34 # label @ [34]) @ js '', '' @ buildTierBodyExpr tier) [str_node label, body_tree tier]"
    by (intro writes_more)
  from writes_call [OF this function_names(2)] show ?thesis
    by (simp add: tier_call_text_def call_tree_def js_def numeral_3_eq_3 numeral_2_eq_2)
qed

definition effective :: "visual_tier \<Rightarrow> tier_condition_input list" where
  "effective tier = filter (\<lambda>c. ci_value c \<noteq> Inl []) (vt_conditions tier)"

definition shown_condition :: "tier_condition_input \<Rightarrow> token_condition" where
  "shown_condition c = \<lparr>tc_var = ci_var c, tc_op = ci_op c, tc_value = number_of_string (input_text (ci_value c))\<rparr>"

definition bounded :: "visual_tier \<Rightarrow> bool" where
  "bounded tier \<longleftrightarrow>
     list_all (\<lambda>c. shows_number (input_text (ci_value c)) (number_of_string (input_text (ci_value c)))) (effective tier)"

definition test_tree :: "token_condition \<Rightarrow> expression_node" where
  "test_tree c = Binary (operator_of_condition (tc_op c)) (Variable (variable_of (tc_var c)) 0 0) (num_node (tc_value c)) 0 0"

lemma condition_texts:
  "condition_variable_text v = variable_text (variable_of v)"
  "operator_of (condition_operator_text op) = Some (operator_of_condition op)"
  "PRECEDENCE (operator_of_condition op) = 4"
  by (cases v; simp) (cases op; simp add: operator_of_def OPERATOR_TEXTS_def js_def; fail)+

lemma writes_conditions:
  assumes "bounded tier" and "effective tier \<noteq> []"
  shows "writes 2 2 (buildConditionStr (vt_conditions tier)) (joined AndOp (map (\<lambda>c. test_tree (shown_condition c)) (effective tier)))"
proof -
  let ?test = "\<lambda>c. condition_variable_text (ci_var c) @ js '' '' @ condition_operator_text (ci_op c) @ js '' '' @ input_text (ci_value c)"
  have "writes 1 3 (?test c) (test_tree (shown_condition c))" if "c \<in> set (effective tier)" for c :: tier_condition_input
  proof -
    let ?op = "operator_of_condition (ci_op c)"
    define x where "x = number_of_string (input_text (ci_value c))"
    have x: "writable x" "input_text (ci_value c) = string_of_number x"
      using assms(1) that unfolding x_def bounded_def list_all_iff shows_number_def by blast+
    have "writes (Suc 0) (PRECEDENCE ?op) (condition_variable_text (ci_var c)) (Variable (variable_of (ci_var c)) 0 0)"
      unfolding condition_texts using variable_name [of "variable_of (ci_var c)"] by (intro writes_le [OF writes_variable]) simp_all
    moreover have "writes 0 (Suc (PRECEDENCE ?op)) (input_text (ci_value c)) (num_node x)"
      unfolding x(2) condition_texts using x(1) by (intro writes_le [OF writes_number]) simp_all
    ultimately have "writes (Suc 0) (PRECEDENCE ?op)
        (condition_variable_text (ci_var c) @ 32 # condition_operator_text (ci_op c) @ 32 # input_text (ci_value c)) (test_tree (shown_condition c))"
      using writes_binary [OF _ _ condition_texts(2)] by (simp add: test_tree_def shown_condition_def flip: x_def)
    then have "writes 1 3 (condition_variable_text (ci_var c) @ 32 # condition_operator_text (ci_op c) @ 32 # input_text (ci_value c))
        (test_tree (shown_condition c))"
      using writes_le [of "Suc 0" "PRECEDENCE ?op" _ _ 3] by (simp add: condition_texts(3))
    then show ?thesis by (simp add: js_def)
  qed
  then have "list_all2 (writes (Suc 0) 3) (map ?test (effective tier)) (map (\<lambda>c. test_tree (shown_condition c)) (effective tier))"
    by (simp add: list_all2_map1 list_all2_map2 list_all2_same)
  from writes_joined [of "js ''&&''" AndOp 1, simplified, OF this] assms(2)
  show ?thesis by (simp add: buildConditionStr_def effective_def js_def numeral_2_eq_2)
qed

lemma tier_call_facts:
  assumes "priced_tier tier"
  shows "height (call_tree label tier) \<le> 12" "typed (call_tree label tier) Ty_number" "pricing_tree [] (call_tree label tier)"
proof -
  have body: "height (body_tree tier) \<le> 11 \<and> (\<exists>t. typed (body_tree tier) t \<and> Ty_number \<le> t) \<and>
      (\<not> marked (body_tree tier) \<or> (\<exists>args. body_tree tier = Call F_fixed args 0 0 \<and> is_fixed_amount (args ! 0)))"
  proof (cases "vt_billing_unit tier = Some UnitRequest")
    case True
    with assms obtain s where s: "vt_fixed_price tier = Some s" "writable (number_of_string s)"
        "is_finite (num_mul (number_of_string s) (Fin 1000000))"
      by (auto simp: priced_tier_def shows_number_def split: option.splits)
    have "typed (Call F_fixed [num_node (number_of_string s)] 0 0) Ty_number"
      by (rule t_call [of _ "[Ty_number]"]) (simp_all add: typed_num)
    moreover have "is_fixed_amount (num_node (number_of_string s))"
      using s(2,3) unsigned_price by (simp add: is_fixed_amount_def num_node_def writable_def)
    ultimately show ?thesis using True s(1) by (auto simp: body_tree_def height_simps)
  next
    case False
    let ?ns = "map priced_node (tier_prices tier)"
    have ne: "?ns \<noteq> []" by (simp add: tier_prices_def)
    have h: "height (priced_node e) = 1" for e by (simp add: priced_node_def height_simps height.simps [of "Variable _ _ _"])
    have t: "typed (priced_node e) Ty_number" for e
      unfolding priced_node_def by (rule t_arith [OF t_variable typed_num]) simp_all
    have "height (joined AddOp ?ns) < 1 + length ?ns" by (rule height_joined [OF _ ne]) (simp add: list_all_iff h)
    moreover have "\<exists>t'. typed (joined AddOp ?ns) t' \<and> Ty_number \<le> t'"
      using typed_joined [of Ty_number AddOp ?ns] t_arith [of _ _ _ _ AddOp] ne t by (fastforce simp: list_all_iff)
    moreover have "functions_of (priced_node e) = {}" for e
      by (simp add: priced_node_def functions_of_simps num_node_def functions_of_def [of "Variable _ _ _"] postorder.simps [of "Variable _ _ _"])
    then have "\<not> marked (joined AddOp ?ns)" by (simp add: marked_def functions_joined [OF ne])
    ultimately show ?thesis using False tier_prices_vars [of tier] by (simp add: body_tree_def)
  qed
  then show "height (call_tree label tier) \<le> 12" by (simp add: call_tree_def height_simps)
  have "\<not> marked (str_node label)" by (simp add: marked_def str_node_def)
  with body show "pricing_tree [] (call_tree label tier)" unfolding call_tree_def by (auto intro: plain_tier fixed_tier)
  from body obtain t where "typed (body_tree tier) t" "Ty_number \<le> t" by blast
  then show "typed (call_tree label tier) Ty_number"
    unfolding call_tree_def by (intro t_call [of _ "[Ty_string, t]"]) (simp_all add: typed_str)
qed

lemma test_tree_facts:
  "height (test_tree c) = 1" "typed (test_tree c) Ty_boolean" "functions_of (test_tree c) = {}" "flattenBinary (test_tree c) AndOp = [test_tree c]"
proof -
  have "is_comparison (operator_of_condition (tc_op c))" "operator_of_condition (tc_op c) \<noteq> AndOp" by (cases "tc_op c"; simp)+
  then show "typed (test_tree c) Ty_boolean" "flattenBinary (test_tree c) AndOp = [test_tree c]"
    unfolding test_tree_def by (auto intro: t_comparison [OF t_variable typed_num])
  show "height (test_tree c) = 1" by (simp add: test_tree_def height_simps height.simps [of "Variable _ _ _"])
  show "functions_of (test_tree c) = {}"
    by (simp add: test_tree_def functions_of_simps num_node_def functions_of_def [of "Variable _ _ _"] postorder.simps [of "Variable _ _ _"])
qed

lemma conditions_facts:
  assumes "cs \<noteq> []"
  shows "height (joined AndOp (map test_tree cs)) \<le> length cs" "\<exists>t. typed (joined AndOp (map test_tree cs)) t \<and> Ty_boolean \<le> t"
    "\<not> marked (joined AndOp (map test_tree cs))"
proof -
  have ne: "map test_tree cs \<noteq> []" using assms by simp
  show "height (joined AndOp (map test_tree cs)) \<le> length cs"
    using height_joined [of 1 "map test_tree cs" AndOp] assms by (simp add: list_all_iff test_tree_facts)
  show "\<exists>t. typed (joined AndOp (map test_tree cs)) t \<and> Ty_boolean \<le> t"
    using typed_joined [of Ty_boolean AndOp "map test_tree cs"] t_logical [of _ _ _ _ AndOp] ne test_tree_facts(2) by (fastforce simp: list_all_iff)
  show "\<not> marked (joined AndOp (map test_tree cs))" by (simp add: marked_def functions_joined [OF ne] test_tree_facts)
qed

lemma read_conditions:
  assumes "cs \<noteq> []" and "list_all (\<lambda>c. writable (tc_value c)) cs"
  shows "tokenConditions (joined AndOp (map test_tree cs)) = Some cs"
proof -
  have "token_condition_of (test_tree c) = Some c" if "writable (tc_value c)" for c :: token_condition
  proof -
    have "condition_operator_of (operator_of_condition (tc_op c)) = Some (tc_op c)" by (cases "tc_op c") simp_all
    moreover have "condition_variable_of (variable_of (tc_var c)) = Some (tc_var c)" by (cases "tc_var c") simp_all
    moreover have "\<not> num_lt (tc_value c) (Fin 0)" using that by (cases "tc_value c") (auto simp: writable_def)
    ultimately show ?thesis by (simp add: token_condition_of_def test_tree_def num_node_def)
  qed
  then have "map_option_list (\<lambda>c. token_condition_of (test_tree c)) cs = Some cs"
    using assms(2) map_option_list_Some_map [of cs "\<lambda>c. token_condition_of (test_tree c)" id] by (simp add: list_all_iff)
  moreover have "flattenBinary (joined AndOp (map test_tree cs)) AndOp = map test_tree cs"
    using assms(1) by (intro flatten_joined) (simp_all add: list_all_iff test_tree_facts)
  ultimately show ?thesis by (simp add: tokenConditions_def map_option_list_map)
qed

lemma read_priced:
  assumes "distinct (map fst ps)" and "TV_len \<notin> fst ` set ps" and "list_all (\<lambda>(v, x). writable x) ps" and "ps \<noteq> []"
  shows "read_prices (joined AddOp (map priced_node ps)) = Some ps"
proof -
  have "fold add_price_term (map priced_node qs) (Some acc) = Some (acc @ qs)"
    if "distinct (map fst (acc @ qs))" "TV_len \<notin> fst ` set qs" "list_all (\<lambda>(v, x). writable x) qs" for acc qs
    using that
  proof (induction qs arbitrary: acc)
    case (Cons q qs)
    obtain v x where q: "q = (v, x)" by fastforce
    have "add_price_term (priced_node q) (Some acc) = Some (acc @ [q])"
      using Cons.prems q by (auto simp: add_price_term_def priced_node_def price_literal has_own_iff set_own_fresh)
    with Cons.IH [of "acc @ [q]"] Cons.prems show ?case by simp
  qed simp
  from this [of "[]" ps] assms
  have "fold add_price_term (map priced_node ps) (Some []) = Some ps" by simp
  moreover have "flattenBinary (joined AddOp (map priced_node ps)) AddOp = map priced_node ps"
    using assms(4) by (intro flatten_joined) (simp_all add: list_all_iff priced_node_def)
  ultimately show ?thesis by (simp add: read_prices_def)
qed

lemma read_call:
  assumes "priced_tier tier" and "strip m = call_tree label tier"
  shows "tokenTier m cs = Some (shown_tier label cs tier)"
proof (cases "vt_billing_unit tier = Some UnitRequest")
  case True
  with assms(2) have "strip m = Call F_tier [str_node label, Call F_fixed [num_node (number_of_string (the (vt_fixed_price tier)))] 0 0] 0 0"
    by (simp add: call_tree_def body_tree_def)
  from tokenTier_fixed [OF this] True show ?thesis by (simp add: shown_tier_def)
next
  case False
  have "read_prices (body_tree tier) = Some (tier_prices tier)" "tier_prices tier \<noteq> []"
    using read_priced [of "tier_prices tier"] tier_prices_vars [of tier] assms(1) False
    by (auto simp: priced_tier_def body_tree_def tier_prices_def)
  from tokenTier_priced [OF _ this, of m label cs] assms(2) False show ?thesis by (simp add: call_tree_def shown_tier_def)
qed

subsection \<open>A configuration as an expression\<close>

definition config_label :: "nat \<Rightarrow> nat \<Rightarrow> visual_tier \<Rightarrow> js_string" where
  "config_label count index tier =
     (if vt_label tier \<noteq> [] then vt_label tier else if count = 1 then js ''default'' else js ''tier_'' @ digits_of (index + 1))"

definition config_tiers :: "visual_tier list \<Rightarrow> token_tier list" where
  "config_tiers tiers =
     map (\<lambda>(i, t). shown_tier (config_label (length tiers) i t)
        (if i = length tiers - 1 then [] else map shown_condition (effective t)) t) (enumerate 0 tiers)"

definition editable_tiers :: "visual_tier list \<Rightarrow> bool" where
  "editable_tiers tiers \<longleftrightarrow>
     tiers \<noteq> [] \<and> length tiers \<le> 100 \<and> list_all priced_tier tiers \<and>
     list_all (\<lambda>(i, t). plain_label (config_label (length tiers) i t)) (enumerate 0 tiers) \<and>
     list_all (\<lambda>t. effective t \<noteq> [] \<and> bounded t \<and> length (effective t) \<le> 100) (butlast tiers) \<and>
     (length tiers = 1 \<longrightarrow> effective (hd tiers) = []) \<and>
     length (generateExprFromVisualConfig (Some \<lparr>vc_tiers = tiers\<rparr>)) < 10000"

lemma join_branches:
  "join (js '' : '') (map (\<lambda>(x, y). x @ js '' ? '' @ y) bs @ [z]) = branch_text bs z"
proof (induction bs)
  case (Cons b bs)
  obtain w ws where "map (\<lambda>(x, y). x @ js '' ? '' @ y) bs @ [z] = w # ws" by (cases "map (\<lambda>(x, y). x @ js '' ? '' @ y) bs @ [z]") auto
  with Cons.IH show ?case by (cases b) simp
qed simp

definition branch_texts :: "nat \<Rightarrow> visual_tier list \<Rightarrow> (js_string \<times> js_string) list" where
  "branch_texts count tiers =
     map (\<lambda>(i, t). (buildConditionStr (vt_conditions t), tier_call_text (config_label count i t) t)) (enumerate 0 tiers)"

definition branch_trees :: "nat \<Rightarrow> visual_tier list \<Rightarrow> (expression_node \<times> expression_node) list" where
  "branch_trees count tiers =
     map (\<lambda>(i, t). (joined AndOp (map test_tree (map shown_condition (effective t))), call_tree (config_label count i t) t))
       (enumerate 0 tiers)"

lemma condition_text_empty: "buildConditionStr (vt_conditions t) = [] \<longleftrightarrow> effective t = []"
proof (cases "effective t")
  case (Cons c cs)
  have "condition_variable_text v \<noteq> []" for v by (cases v) (simp_all add: js_def)
  with Cons show ?thesis by (cases cs) (simp_all add: buildConditionStr_def effective_def)
qed (simp add: buildConditionStr_def effective_def)

lemma generate_branches:
  fixes init z
  defines "n \<equiv> Suc (length init)"
  assumes "list_all (\<lambda>t. effective t \<noteq> []) init" and "init = [] \<Longrightarrow> effective z = []"
  shows "generateExprFromVisualConfig (Some \<lparr>vc_tiers = init @ [z]\<rparr>) =
    branch_text (branch_texts n init) (tier_call_text (config_label n (length init) z) z)"
proof (cases init)
  case Nil
  then show ?thesis
    using assms(3) condition_text_empty [of z] by (simp add: generateExprFromVisualConfig_def branch_texts_def config_label_def n_def Let_def)
next
  case (Cons t ts)
  let ?parts = "map (\<lambda>(index, tier). config_part n index tier) (enumerate 0 (init @ [z]))"
  have labels: "tier_label i u = config_label n i u" for i u using Cons by (simp add: tier_label_def config_label_def n_def)
  have "config_part n i u = buildConditionStr (vt_conditions u) @ js '' ? '' @ tier_call_text (config_label n i u) u"
    if "(i, u) \<in> set (enumerate 0 init)" for i u
  proof -
    from that have i: "i < length init" "u = init ! i" by (auto simp: in_set_enumerate_eq)
    then have "effective u \<noteq> []" using assms(2) by (simp add: list_all_length)
    with i labels condition_text_empty [of u] show ?thesis by (simp add: config_part_def n_def Let_def)
  qed
  then have "map (\<lambda>(index, tier). config_part n index tier) (enumerate 0 init) = map (\<lambda>(x, y). x @ js '' ? '' @ y) (branch_texts n init)"
    by (auto simp: branch_texts_def)
  moreover have "config_part n (length init) z = tier_call_text (config_label n (length init) z) z"
    by (simp add: config_part_def labels n_def Let_def)
  ultimately have "?parts = map (\<lambda>(x, y). x @ js '' ? '' @ y) (branch_texts n init) @ [tier_call_text (config_label n (length init) z) z]"
    by (simp add: enumerate_append_eq)
  moreover have "generateExprFromVisualConfig (Some \<lparr>vc_tiers = init @ [z]\<rparr>) = join (js '' : '') ?parts"
    unfolding n_def Cons by (cases ts) (simp_all add: generateExprFromVisualConfig_def)
  ultimately show ?thesis by (simp only: join_branches)
qed

text \<open>What an editable configuration gives for its tiers, the last one apart.\<close>

lemma editable_tiersD:
  fixes init z
  defines "n \<equiv> Suc (length init)"
  assumes e: "editable_tiers (init @ [z])"
  shows "list_all (\<lambda>(i, t). priced_tier t \<and> plain_label (config_label n i t) \<and> effective t \<noteq> [] \<and> bounded t \<and>
      length (effective t) \<le> 100) (enumerate 0 init)"
    and "priced_tier z" and "plain_label (config_label n (length init) z)" and "length init \<le> 99"
    and "generateExprFromVisualConfig (Some \<lparr>vc_tiers = init @ [z]\<rparr>) =
      branch_text (branch_texts n init) (tier_call_text (config_label n (length init) z) z)"
    and "length (branch_text (branch_texts n init) (tier_call_text (config_label n (length init) z) z)) < 10000"
proof -
  have gen: "generateExprFromVisualConfig (Some \<lparr>vc_tiers = init @ [z]\<rparr>) =
      branch_text (branch_texts n init) (tier_call_text (config_label n (length init) z) z)"
    unfolding n_def using e by (intro generate_branches) (simp_all add: editable_tiers_def list_all_iff)
  have "\<forall>(i, t)\<in>set (enumerate 0 init). t \<in> set init" by (auto simp: in_set_enumerate_eq)
  with e gen show "list_all (\<lambda>(i, t). priced_tier t \<and> plain_label (config_label n i t) \<and> effective t \<noteq> [] \<and> bounded t \<and>
      length (effective t) \<le> 100) (enumerate 0 init)"
    and "priced_tier z" and "plain_label (config_label n (length init) z)" and "length init \<le> 99"
    and "length (branch_text (branch_texts n init) (tier_call_text (config_label n (length init) z) z)) < 10000"
    by (auto simp: editable_tiers_def list_all_iff n_def enumerate_append_eq)
  show "generateExprFromVisualConfig (Some \<lparr>vc_tiers = init @ [z]\<rparr>) =
      branch_text (branch_texts n init) (tier_call_text (config_label n (length init) z) z)" by (rule gen)
qed

lemma left_nested_strip [simp]: "left_nested (strip n) \<longleftrightarrow> left_nested n"
proof (induction n)
  case (Binary op l r s e)
  have "(\<exists>a b s' e'. strip r = Binary AddOp a b s' e') \<longleftrightarrow> (\<exists>a b s' e'. r = Binary AddOp a b s' e')" by (cases r) auto
  with Binary show ?case by auto
qed simp_all

lemma leaf_nodes_strip: "leaf_nodes (strip n) = map strip (leaf_nodes n)"
  by (induction n rule: leaf_nodes.induct) simp_all

lemma leaf_branches: "leaf_nodes n = [n] \<Longrightarrow> leaf_nodes (branch_node bs n) = map snd bs @ [n]"
  by (induction bs) auto

lemma left_nested_joined: "list_all (\<lambda>n. left_nested n \<and> (\<forall>a b s e. n \<noteq> Binary AddOp a b s e)) ns \<Longrightarrow> ns \<noteq> [] \<Longrightarrow> left_nested (joined AddOp ns)"
proof (induction ns rule: rev_induct)
  case (snoc n ns)
  then show ?case by (cases "ns = []") simp_all
qed simp

lemma left_nested_body: "left_nested (body_tree tier)"
proof -
  have "left_nested (joined AddOp (map priced_node (tier_prices tier)))"
    by (intro left_nested_joined) (simp_all add: list_all_iff priced_node_def tier_prices_def)
  then show ?thesis by (simp add: body_tree_def)
qed

definition bodies_nested :: "expression_node \<Rightarrow> bool" where
  "bodies_nested n \<longleftrightarrow> list_all (\<lambda>m. left_nested (children m ! 1)) (leaf_nodes n)"

lemma bodies_nested_branches:
  assumes "strip n = branch_node (branch_trees k tiers) (call_tree label z)"
  shows "bodies_nested n"
proof -
  have "leaf_nodes (strip n) = map snd (branch_trees k tiers) @ [call_tree label z]"
    unfolding assms by (rule leaf_branches) (simp add: call_tree_def)
  then have leaves: "map strip (leaf_nodes n) = map snd (branch_trees k tiers) @ [call_tree label z]" by (simp add: leaf_nodes_strip)
  have "left_nested (children m ! 1)" if "m \<in> set (leaf_nodes n)" for m
  proof -
    have "strip m \<in> set (map snd (branch_trees k tiers) @ [call_tree label z])"
      unfolding leaves [symmetric] using that by simp
    then obtain l t where "strip m = call_tree l t" by (auto simp: branch_trees_def)
    then obtain a b s e where "m = Call F_tier [a, b] s e" "strip b = body_tree t" by (auto simp: call_tree_def strip_Call)
    moreover from this have "left_nested b" using left_nested_body [of t] left_nested_strip [of b] by simp
    ultimately show ?thesis by simp
  qed
  then show ?thesis by (simp add: bodies_nested_def list_all_iff)
qed

definition editable_branch :: "nat \<Rightarrow> nat \<times> visual_tier \<Rightarrow> bool" where
  "editable_branch count b \<longleftrightarrow>
     (case b of (i, t) \<Rightarrow> priced_tier t \<and> plain_label (config_label count i t) \<and> effective t \<noteq> [] \<and> bounded t \<and>
        length (effective t) \<le> 100)"

lemma branches_facts:
  assumes "list_all (editable_branch n) (enumerate 0 init)" and "priced_tier z"
  shows "height (branch_node (branch_trees n init) (call_tree l z)) \<le> 100 + length init"
    and "typed (branch_node (branch_trees n init) (call_tree l z)) Ty_number"
    and "pricing_tree [] (branch_node (branch_trees n init) (call_tree l z))"
proof -
  have mem: "(height c \<le> 100 \<and> height a \<le> 100) \<and> (\<exists>t. typed c t \<and> Ty_boolean \<le> t) \<and> typed a Ty_number \<and> \<not> marked c \<and> pricing_tree [] a"
    if "(c, a) \<in> set (branch_trees n init)" for c a
  proof -
    from that obtain i t where t: "(i, t) \<in> set (enumerate 0 init)" "a = call_tree (config_label n i t) t"
        "c = joined AndOp (map test_tree (map shown_condition (effective t)))"
      by (auto simp: branch_trees_def)
    with assms(1) have e: "priced_tier t" "map shown_condition (effective t) \<noteq> []" "length (map shown_condition (effective t)) \<le> 100"
      by (auto simp: editable_branch_def list_all_iff)
    show ?thesis
      using tier_call_facts [OF e(1)] conditions_facts [OF e(2)] e(3) le_trans [OF tier_call_facts(1) [OF e(1)], of 100]
        le_trans [OF conditions_facts(1) [OF e(2)] e(3)] unfolding t(2,3) by simp
  qed
  note z = tier_call_facts [OF assms(2)]
  have "length (branch_trees n init) = length init" by (simp add: branch_trees_def)
  then show "height (branch_node (branch_trees n init) (call_tree l z)) \<le> 100 + length init"
    using height_branches [of 100 "branch_trees n init"] mem le_trans [OF z(1), of 100] by (force simp: list_all_iff)
  show "typed (branch_node (branch_trees n init) (call_tree l z)) Ty_number"
    using typed_branches [OF _ z(2)] mem by (force simp: list_all_iff)
  show "pricing_tree [] (branch_node (branch_trees n init) (call_tree l z))"
    using pricing_branches [OF _ z(3)] mem by (force simp: list_all_iff)
qed

lemma config_tiers_snoc:
  "config_tiers (init @ [z]) =
     map (\<lambda>(i, t). shown_tier (config_label (Suc (length init)) i t) (map shown_condition (effective t)) t) (enumerate 0 init) @
     [shown_tier (config_label (Suc (length init)) (length init) z) [] z]"
  by (auto simp: config_tiers_def enumerate_append_eq in_set_enumerate_eq)

lemma branches_read:
  assumes "list_all (editable_branch (Suc (length init))) (enumerate 0 init)" and "priced_tier z"
    and "strip m = branch_node (branch_trees (Suc (length init)) init) (call_tree (config_label (Suc (length init)) (length init) z) z)"
  shows "readTokenTierChain m = Some (config_tiers (init @ [z]))"
  unfolding config_tiers_snoc
proof (rule read_branches [OF _ _ _ assms(3)])
  have "tokenConditions (joined AndOp (map test_tree (map shown_condition (effective t)))) = Some (map shown_condition (effective t)) \<and>
      (\<forall>m. strip m = call_tree l t \<longrightarrow> tokenTier m (map shown_condition (effective t)) = Some (shown_tier l (map shown_condition (effective t)) t))"
    if "(i, t) \<in> set (enumerate 0 init)" for i t l
  proof -
    from assms(1) that have e: "priced_tier t" "map shown_condition (effective t) \<noteq> []" "bounded t"
      by (auto simp: editable_branch_def list_all_iff)
    have "list_all (\<lambda>c. writable (tc_value c)) (map shown_condition (effective t))"
      using e(3) by (auto simp: bounded_def list_all_iff shows_number_def shown_condition_def)
    from read_conditions [OF e(2) this] read_call [OF e(1)] show ?thesis by blast
  qed
  then show "list_all2 (\<lambda>(c, a) t. tokenConditions c = Some (tt_conditions t) \<and>
      (\<forall>m. strip m = a \<longrightarrow> tokenTier m (tt_conditions t) = Some t)) (branch_trees (Suc (length init)) init)
      (map (\<lambda>(i, t). shown_tier (config_label (Suc (length init)) i t) (map shown_condition (effective t)) t) (enumerate 0 init))"
    unfolding branch_trees_def list_all2_map1 list_all2_map2 list_all2_same by (auto simp: shown_tier_def)
  show "\<forall>m. strip m = call_tree (config_label (Suc (length init)) (length init) z) z \<longrightarrow>
      tokenTier m [] = Some (shown_tier (config_label (Suc (length init)) (length init) z) [] z)"
    using read_call [OF assms(2)] by blast
qed (simp add: call_tree_def)

lemma branches_text_start:
  assumes "list_all (editable_branch n) (enumerate 0 init)"
  shows "\<exists>c r. branch_text (branch_texts n init) (tier_call_text l z) = c # r \<and> c \<in> {112, 99, 108, 116}"
proof (cases init)
  case Nil
  then show ?thesis by (simp add: branch_texts_def tier_call_text_def js_def)
next
  case (Cons t ts)
  with assms have "effective t \<noteq> []" by (simp add: editable_branch_def)
  then obtain a as where "effective t = a # as" by (cases "effective t") auto
  then obtain rest where b: "buildConditionStr (vt_conditions t) = condition_variable_text (ci_var a) @ rest"
    by (cases as) (simp_all add: buildConditionStr_def effective_def)
  have "\<exists>c r. condition_variable_text v = c # r \<and> c \<in> {112, 99, 108, 116}" for v by (cases v) (simp_all add: js_def)
  then obtain c r where "condition_variable_text (ci_var a) = c # r" "c \<in> {112, 99, 108, 116}" by blast
  with b Cons show ?thesis by (simp add: branch_texts_def)
qed

lemma no_version: "c \<in> {112, 99, 108, 116} \<Longrightarrow> match_version (c # r) = None"
  by (elim insertE emptyE; hypsubst; simp add: match_version_def Let_def is_space_def)

lemma writes_branch_texts:
  assumes "list_all (editable_branch n) (enumerate 0 init)" and "priced_tier z" and "plain_label l" and "length init \<le> 99"
  shows "writes 127 0 (branch_text (branch_texts n init) (tier_call_text l z)) (branch_node (branch_trees n init) (call_tree l z))"
proof -
  have "writes 2 2 (buildConditionStr (vt_conditions t)) (joined AndOp (map test_tree (map shown_condition (effective t)))) \<and>
      writes 3 7 (tier_call_text (config_label n i t) t) (call_tree (config_label n i t) t)" if "(i, t) \<in> set (enumerate 0 init)" for i t
  proof -
    from assms(1) that have "priced_tier t" "plain_label (config_label n i t)" "bounded t" "effective t \<noteq> []"
      by (auto simp: editable_branch_def list_all_iff)
    with writes_conditions [of t] writes_tier_call [of t "config_label n i t"] show ?thesis by (simp add: comp_def)
  qed
  then have "list_all2 (\<lambda>(x, y) (c, a). writes 2 2 x c \<and> writes 3 7 y a) (branch_texts n init) (branch_trees n init)"
    unfolding branch_texts_def branch_trees_def list_all2_map1 list_all2_map2 list_all2_same by auto
  from writes_branches [OF this writes_tier_call [OF assms(2,3)]] show ?thesis
    using assms(4) by (elim writes_more_depth) (simp add: branch_texts_def)
qed

theorem generated_tiers_compile:
  assumes "editable_tiers tiers"
  shows "\<exists>c. compile_uncached (generateExprFromVisualConfig (Some \<lparr>vc_tiers = tiers\<rparr>)) = Inr c \<and>
    readTokenTierChain (comp_ast c) = Some (config_tiers tiers) \<and> height (comp_ast c) < 256 \<and> bodies_nested (comp_ast c)"
proof -
  have "tiers \<noteq> []" using assms by (simp add: editable_tiers_def)
  then obtain init z where tiers: "tiers = init @ [z]" by (metis append_butlast_last_id)
  let ?n = "Suc (length init)"
  let ?l = "config_label ?n (length init) z"
  let ?src = "branch_text (branch_texts ?n init) (tier_call_text ?l z)" and ?tree = "branch_node (branch_trees ?n init) (call_tree ?l z)"
  note e = editable_tiersD [OF assms [unfolded tiers]]
  have br: "list_all (editable_branch ?n) (enumerate 0 init)" using e(1) unfolding editable_branch_def .
  obtain c r where "?src = c # r" "c \<in> {112, 99, 108, 116}" using branches_text_start [OF br] by blast
  then have v: "match_version ?src = None" using no_version [of c r] by simp
  obtain m where m: "parse ?src = Some (Inr m)" "strip m = ?tree"
    using writes_parses [OF writes_branch_texts [OF br e(2,3,4)] e(6) v] by blast
  note f = branches_facts [OF br e(2), of ?l]
  obtain c where c: "compile_uncached ?src = Inr c" "comp_ast c = m"
    using compile_written [OF m(1), of Ty_number] m(2) f e(4) by auto
  have "height m < 256" using f(1) e(4) m(2) height_strip [of m] by simp
  moreover have "readTokenTierChain m = Some (config_tiers tiers)"
    using branches_read [OF br e(2) m(2)] by (simp only: tiers)
  moreover have "bodies_nested m" by (rule bodies_nested_branches [OF m(2)])
  ultimately show ?thesis using c by (simp add: tiers e(5))
qed

lemma generated_not_blank:
  assumes "editable_tiers tiers"
  shows "trim (generateExprFromVisualConfig (Some \<lparr>vc_tiers = tiers\<rparr>)) \<noteq> []"
proof -
  have "tiers \<noteq> []" using assms by (simp add: editable_tiers_def)
  then obtain init z where tiers: "tiers = init @ [z]" by (metis append_butlast_last_id)
  note e = editable_tiersD [OF assms [unfolded tiers]]
  have "list_all (editable_branch (Suc (length init))) (enumerate 0 init)" using e(1) unfolding editable_branch_def .
  from branches_text_start [OF this] obtain c r where "generateExprFromVisualConfig (Some \<lparr>vc_tiers = tiers\<rparr>) = c # r" "c \<in> {112, 99, 108, 116}"
    unfolding tiers e(5) by blast
  moreover have "\<not> is_space c" if "c \<in> {112, 99, 108, 116}" using that by (elim insertE emptyE; hypsubst; simp add: is_space_def)
  ultimately show ?thesis using hd_trim [of c r] by auto
qed

end
