(* ===== verification/Estimator.thy ===== *)
theory Estimator
  imports Tier_Text
begin

section \<open>What the estimator answers\<close>

text \<open>
  The estimator of the tier editor always answers: for token counts that are finite and not
  negative, the expression of an editable configuration evaluates without an error unless the
  cost of the chosen tier overflows. The lemmas give the progress of the evaluator on the
  expressions that the display reads as tiers; their results are those of \<open>displayed_chain\<close>.
\<close>

subsection \<open>Counts and costs\<close>

definition is_count :: "js_num \<Rightarrow> bool" where
  "is_count x \<longleftrightarrow> is_finite x \<and> \<not> num_lt x (Fin 0)"

lemma is_count_iff: "is_count x \<longleftrightarrow> is_finite x \<and> 0 \<le> num_value x"
  by (cases x) (auto simp: is_count_def)

lemma is_count_to_double: "0 \<le> q \<Longrightarrow> is_finite (to_double q) \<Longrightarrow> is_count (to_double q)"
  using to_double_unsigned [of q] by (auto simp: is_count_iff is_unsigned_iff)

lemma is_count_add: "is_count x \<Longrightarrow> is_count y \<Longrightarrow> is_finite (num_add x y) \<Longrightarrow> is_count (num_add x y)"
  by (auto simp: num_add_def is_count_iff intro: is_count_to_double [unfolded is_count_iff, THEN conjunct2] split: if_splits)

lemma is_count_mul: "is_count x \<Longrightarrow> is_count y \<Longrightarrow> is_finite (num_mul x y) \<Longrightarrow> is_count (num_mul x y)"
  by (auto simp: num_mul_def is_count_iff Let_def signed_zero_def signed_inf_def
      intro: is_count_to_double [unfolded is_count_iff, THEN conjunct2] split: if_splits)

lemma finite_add: "is_finite (num_add x y) \<Longrightarrow> is_finite x \<and> is_finite y"
  by (auto simp: num_add_def split: if_splits)

lemma token_value_count: "token_value ctx v = Some x \<Longrightarrow> is_count x"
  by (auto simp: token_value_def is_count_def split: option.splits js_value.splits if_splits)

lemma count_of_known: "token_value ctx v \<noteq> None \<Longrightarrow> token_value ctx v = Some (count_of ctx v)"
  by (auto simp: count_of_def)

text \<open>The counts of all the prices are known.\<close>

definition prices_known :: "simulation_context \<Rightarrow> (token_variable, js_num) entries \<Rightarrow> bool" where
  "prices_known ctx ps \<longleftrightarrow> (\<forall>(v, x)\<in>set ps. token_value ctx v \<noteq> None \<and> is_count x)"

lemma linear_cost_count:
  "ps \<noteq> [] \<Longrightarrow> prices_known ctx ps \<Longrightarrow> is_finite (linear_cost ctx ps) \<Longrightarrow> is_count (linear_cost ctx ps)"
proof (induction ps rule: rev_induct)
  case (snoc p ps)
  obtain v x where p: "p = (v, x)" by fastforce
  have count: "is_count (count_of ctx v)" "is_count x"
    using snoc.prems(2) p token_value_count count_of_known by (auto simp: prices_known_def)
  show ?case
  proof (cases "ps = []")
    case True
    with snoc.prems(3) count show ?thesis by (simp add: p is_count_mul)
  next
    case False
    have cost: "linear_cost ctx (ps @ [p]) = num_add (linear_cost ctx ps) (num_mul (count_of ctx v) x)"
    proof -
      from False obtain u y qs where "ps = (u, y) # qs" by (cases ps) auto
      with p show ?thesis by simp
    qed
    with snoc.prems(3) have "is_finite (linear_cost ctx ps)" "is_finite (num_mul (count_of ctx v) x)"
      using finite_add [of "linear_cost ctx ps" "num_mul (count_of ctx v) x"] by simp_all
    then show ?thesis
      using snoc.IH [OF False] snoc.prems(2,3) cost count by (simp add: is_count_add is_count_mul prices_known_def)
  qed
qed simp

subsection \<open>Progress\<close>

lemma evaluate_price_literal_total:
  assumes "nonnegativePriceLiteral r = Some x" and "wf_tree r" and "height r < k"
  shows "\<exists>w. evaluate_at k env r s = Inr (w, s) \<and> rv_value w = VNum x"
proof -
  from assms(1) consider i a b where "r = Literal (LNum x) i a b"
    | z i a b a' b' where "r = Unary MinusOp (Literal (LNum z) i a b) a' b'" "num_eq z (Fin 0)" "x = NegZero"
    by (auto simp: nonnegativePriceLiteral_def split: expression_node.splits literal_value.splits
        unary_operator.splits if_splits)
  then show ?thesis
  proof cases
    case (1 i a b)
    from assms(3) obtain j where "k = Suc j" by (cases k) auto
    with evaluate_number_literal [of x i a b j env s] assms(2) 1 show ?thesis by simp
  next
    case (2 z i a b a' b')
    then have wf: "wf_tree (Literal (LNum z) i a b)" using assms(2) by (simp add: wf_tree_child)
    then have z: "z = Fin 0" using 2(2) by (cases z) (auto simp: wf_tree.simps)
    have "Suc (height (Literal (LNum z) i a b)) \<le> height r" by (rule height_child) (simp add: 2(1))
    with assms(3) obtain j where k: "k = Suc (Suc j)"
      by (metis Suc_leD less_imp_Suc_add Suc_le_lessD less_Suc_eq_le old.nat.exhaust not_less_zero)
    have "evaluate_node (evaluate_at (Suc j) env) env r s = Inr (\<lparr>rv_value = VNum NegZero, rv_integer = i\<rparr>, s)"
      using z by (simp add: 2(1) evaluate_node_def eval_unary_def eval_numeric_def evaluate_number_literal [OF wf [unfolded z]])
    then show ?thesis
      by (simp add: k evaluate_at.simps(2) [of "Suc j"] check_value_def 2(3) is_safe_integer_def is_integer_def)
  qed
qed

lemma evaluate_price_term_total:
  assumes p: "price_term e p" and wf: "wf_tree e" and k: "height e < k"
    and known: "token_value (env_context env) (fst p) \<noteq> None"
    and fin: "is_finite (num_mul (count_of (env_context env) (fst p)) (snd p))"
  shows "evaluate_at k env e s = Inr (plain (VNum (num_mul (count_of (env_context env) (fst p)) (snd p))), s)"
proof -
  from p obtain a b r u t where e: "e = Binary MulOp (Variable (fst p) a b) r u t"
    and r: "nonnegativePriceLiteral r = Some (snd p)" by (auto simp: price_term_def)
  have h: "Suc (height (Variable (fst p) a b)) \<le> height e" "Suc (height r) \<le> height e" by (rule height_child; simp add: e)+
  with k obtain j where j: "k = Suc (Suc j)"
    by (metis Suc_leD less_imp_Suc_add Suc_le_lessD less_Suc_eq_le old.nat.exhaust not_less_zero)
  have "wf_tree r" using wf by (rule wf_tree_child) (simp add: e)
  then obtain w where w: "evaluate_at (Suc j) env r s = Inr (w, s)" "rv_value w = VNum (snd p)"
    using evaluate_price_literal_total [OF r, of "Suc j" env s] h(2) k j by auto
  have "evaluate_node (evaluate_at (Suc j) env) env e s =
      Inr (plain (VNum (num_mul (count_of (env_context env) (fst p)) (snd p))), s)"
    using w by (simp add: e evaluate_node_def eval_binary_def evaluate_variable [OF count_of_known [OF known]]
        apply_operator_def arithmetic_def)
  then show ?thesis using fin by (simp add: j evaluate_at.simps(2) [of "Suc j"] check_value_def)
qed

lemma evaluate_linear_total:
  "list_all2 price_term (flattenBinary n AddOp) ps \<Longrightarrow> left_nested n \<Longrightarrow> wf_tree n \<Longrightarrow> height n < k \<Longrightarrow>
   prices_known (env_context env) ps \<Longrightarrow> is_finite (linear_cost (env_context env) ps) \<Longrightarrow>
   evaluate_at k env n s = Inr (plain (VNum (linear_cost (env_context env) ps)), s) \<and> ps \<noteq> []"
proof (induction n "AddOp" arbitrary: ps k rule: flattenBinary.induct)
  case (1 op l r a b)
  let ?n = "Binary op l r a b" and ?ctx = "env_context env"
  show ?case
  proof (cases "op = AddOp")
    case True
    with "1.prems"(2) have r: "flattenBinary r AddOp = [r]" by (intro flatten_single) auto
    with "1.prems"(1) True obtain qs p where ps: "ps = qs @ [p]"
      and qs: "list_all2 price_term (flattenBinary l AddOp) qs" and p: "price_term r p"
      by (auto simp: list_all2_append1 list_all2_Cons1)
    have "qs \<noteq> []" using qs flatten_nonempty [of l AddOp] by auto
    with ps have cost: "linear_cost ?ctx ps = num_add (linear_cost ?ctx qs) (num_mul (count_of ?ctx (fst p)) (snd p))"
      by (cases p) (simp add: linear_cost_snoc)
    have sub: "wf_tree l" "wf_tree r" using "1.prems"(3) by (simp_all add: wf_tree_child)
    from "1.prems"(4) obtain j where j: "k = Suc j" by (cases k) auto
    have h: "height l < j" "height r < j"
      using height_child [of l ?n] height_child [of r ?n] "1.prems"(4) j by simp_all
    have fin: "is_finite (linear_cost ?ctx qs)" "is_finite (num_mul (count_of ?ctx (fst p)) (snd p))"
      using finite_add [of "linear_cost ?ctx qs"] "1.prems"(6) cost by simp_all
    have "evaluate_at j env l s = Inr (plain (VNum (linear_cost ?ctx qs)), s)"
      using "1.hyps"(1) [of qs j] True qs "1.prems"(2,5) sub(1) h(1) fin(1) ps by (simp add: prices_known_def)
    moreover have "evaluate_at j env r s = Inr (plain (VNum (num_mul (count_of ?ctx (fst p)) (snd p))), s)"
      using evaluate_price_term_total [OF p sub(2) h(2) _ fin(2)] "1.prems"(5) ps by (auto simp: prices_known_def split_beta)
    ultimately have "evaluate_node (evaluate_at j env) env ?n s = Inr (plain (VNum (linear_cost ?ctx ps)), s)"
      using True cost by (simp add: evaluate_node_def eval_binary_def apply_operator_def arithmetic_def)
    then show ?thesis using "1.prems"(6) ps by (simp add: j evaluate_at.simps(2) [of j] check_value_def)
  next
    case False
    with "1.prems"(1) obtain p where p: "ps = [p]" "price_term ?n p" by (auto simp: list_all2_Cons1)
    with evaluate_price_term_total [OF p(2) "1.prems"(3,4)] "1.prems"(5,6) show ?thesis
      by (cases p) (auto simp: prices_known_def)
  qed
qed (auto simp: list_all2_Cons1 price_term_def)

definition tier_payable :: "simulation_context \<Rightarrow> token_tier \<Rightarrow> bool" where
  "tier_payable ctx t \<longleftrightarrow>
     (case tt_fixed t of
        Some x \<Rightarrow> is_count (num_mul x (Fin 1000000))
      | None \<Rightarrow> prices_known ctx (tt_prices t) \<and> is_finite (linear_cost ctx (tt_prices t)))"

lemma tier_evaluation_total:
  assumes "tokenTier n conds = Some t" and "wf_tree n" and "height n < k" and "left_nested (children n ! 1)"
    and pay: "tier_payable (env_context env) t"
  shows "\<exists>v s'. evaluate_at k env n s = Inr (v, s') \<and> (\<exists>x. rv_value v = VNum x \<and> is_count x)"
  using assms(1,2)
proof (cases rule: tokenTier_cases)
  case (fixed label i a b x l c d u' e' u e)
  let ?f = "Call F_fixed [Literal (LNum x) l c d] u' e'"
  have "Suc (height ?f) \<le> height n" "Suc (height (Literal (LNum x) l c d)) \<le> height ?f"
    by (rule height_child; simp add: fixed(1))+
  with assms(3) obtain j where k: "k = Suc (Suc (Suc j))"
    by (metis Suc_leD less_imp_Suc_add Suc_le_lessD less_Suc_eq_le old.nat.exhaust not_less_zero Suc_le_mono)
  have wf: "wf_tree ?f" using assms(2) by (rule wf_tree_child) (simp add: fixed(1))
  then have wl: "wf_tree (Literal (LNum x) l c d)" by (rule wf_tree_child) simp
  have pay': "is_count (num_mul x (Fin 1000000))" using pay fixed(4) by (simp add: tier_payable_def)
  then have fin: "is_finite (num_mul x (Fin 1000000))" by (simp add: is_count_iff)
  have label: "evaluate_at (Suc (Suc j)) env (Literal (LStr label) i a b) s = Inr (\<lparr>rv_value = VStr label, rv_integer = i\<rparr>, s)"
    by (simp add: evaluate_at.simps(2) [of "Suc j"] evaluate_node_def check_value_def)
  have "evaluate_at (Suc (Suc j)) env ?f s =
      Inr (plain (VNum (num_mul x (Fin 1000000))), s\<lparr>rt_unit := UnitRequest, rt_fixed := Some x\<rparr>)"
    using fin by (simp add: evaluate_at.simps(2) [of "Suc j"] evaluate_node_def eval_call_def eval_fixed_def eval_numeric_def
        evaluate_number_literal [OF wl] check_value_def)
  then have "evaluate_at k env n s = Inr (plain (VNum (num_mul x (Fin 1000000))), s\<lparr>rt_unit := UnitRequest, rt_fixed := Some x, rt_tier := label\<rparr>)"
    using fin label by (simp add: k fixed(1) evaluate_at.simps(2) [of "Suc (Suc j)"] evaluate_node_def eval_call_def eval_tier_def
        eval_numeric_def eval_string_def check_value_def)
  with pay' show ?thesis by simp
next
  case (linear label i a b body u e)
  let ?c = "linear_cost (env_context env) (tt_prices t)"
  have h: "Suc (height body) \<le> height n" by (rule height_child) (simp add: linear(1))
  with assms(3) obtain j where k: "k = Suc (Suc j)" by (metis less_imp_Suc_add Suc_le_lessD less_Suc_eq_le old.nat.exhaust not_less_zero Suc_leD)
  have wf: "wf_tree body" using assms(2) by (rule wf_tree_child) (simp add: linear(1))
  have pay': "prices_known (env_context env) (tt_prices t)" "is_finite ?c" using pay linear(4) by (simp_all add: tier_payable_def)
  have nested: "left_nested body" using assms(4) linear(1) by simp
  have body: "evaluate_at (Suc j) env body s = Inr (plain (VNum ?c), s)" "tt_prices t \<noteq> []"
    using evaluate_linear_total [OF linear(5) nested wf _ pay', of "Suc j" s] h assms(3) k by simp_all
  have label: "evaluate_at (Suc j) env (Literal (LStr label) i a b) s = Inr (\<lparr>rv_value = VStr label, rv_integer = i\<rparr>, s)"
    by (simp add: evaluate_at.simps(2) [of j] evaluate_node_def check_value_def)
  have "evaluate_at k env n s = Inr (plain (VNum ?c), s\<lparr>rt_tier := label\<rparr>)"
    using pay'(2) label body(1) by (simp add: k linear(1) evaluate_at.simps(2) [of "Suc j"] evaluate_node_def eval_call_def eval_tier_def
        eval_numeric_def eval_string_def check_value_def)
  with linear_cost_count [OF body(2) pay'] show ?thesis by simp
qed

subsection \<open>The chain answers\<close>

lemma leaf_nodes_tiers: "readTokenTierChain n = Some ts \<Longrightarrow> length (leaf_nodes n) = length ts"
  by (induction n arbitrary: ts rule: readTokenTierChain.induct) (auto split: option.splits)

theorem chain_answers:
  assumes c: "compile_uncached source = Inr c" and ts: "readTokenTierChain (comp_ast c) = Some ts"
    and h: "height (comp_ast c) < 256" and nested: "bodies_nested (comp_ast c)" and known: "counts_known ctx"
    and tokens: "fold_result check_token (case ctx_tokens ctx of Some ts \<Rightarrow> ts | None \<Rightarrow> []) () = Inr ()"
    and headers: "context_headers ctx = []"
    and pay: "\<And>i. find_index (\<lambda>t. list_all (holds ctx) (tt_conditions t)) ts = Some i \<Longrightarrow> tier_payable ctx (ts ! i)"
  shows "\<exists>r. evaluate_steps host c ctx = Inr r"
proof -
  obtain env st where new: "new_runtime host c ctx = Inr (env, st)" using headers by (simp add: new_runtime_def)
  note env = new_runtime_state [OF new]
  have wf: "wf_tree (comp_ast c)" using compile_ready [OF c] by blast
  obtain i where i: "i < length ts" "find_index (\<lambda>t. list_all (holds ctx) (tt_conditions t)) ts = Some i"
      "leaf_nodes (comp_ast c) ! i \<in> set (postorder (comp_ast c))"
      "tokenTier (leaf_nodes (comp_ast c) ! i) (tt_conditions (ts ! i)) = Some (ts ! i)"
      "evaluate_at 256 env (comp_ast c) st = evaluate_at 256 env (leaf_nodes (comp_ast c) ! i) st"
    using chain_selects [OF _ _ ts wf h, of env st] compiled_rules [OF c] env known by auto
  have wl: "wf_tree (leaf_nodes (comp_ast c) ! i)" using descendant_span [OF wf i(3)] by simp
  have hl: "height (leaf_nodes (comp_ast c) ! i) < 256" using postorder_height [OF i(3)] h by simp
  have nl: "left_nested (children (leaf_nodes (comp_ast c) ! i) ! 1)"
    using nested i(1) leaf_nodes_tiers [OF ts] by (simp add: bodies_nested_def list_all_length)
  have "tier_payable (env_context env) (ts ! i)" using pay [OF i(2)] env by simp
  then obtain v st' x where v: "evaluate_at 256 env (comp_ast c) st = Inr (v, st')" "rv_value v = VNum x" "is_count x"
    using tier_evaluation_total [OF i(4) wl hl nl, of env st] i(5) by auto
  then show ?thesis using tokens new by (simp add: evaluate_steps_def evaluate_def is_count_def)
qed

subsection \<open>The estimator\<close>

definition estimator_counts :: "js_num \<Rightarrow> js_num \<Rightarrow> extra_token_values \<Rightarrow> bool" where
  "estimator_counts p c extras \<longleftrightarrow> list_all (\<lambda>(k, v). case v of VNum x \<Rightarrow> is_count x | _ \<Rightarrow> False) (buildEstimatorTokens p c extras)"

lemma estimator_context_None:
  "estimator_context p c extras None =
     \<lparr>ctx_tokens = Some (buildEstimatorTokens p c extras), ctx_request = None, ctx_usage = None, ctx_now = None\<rparr>"
  by (simp add: estimator_context_def)

lemma estimator_known:
  assumes "estimator_counts p c extras"
  shows "token_value (estimator_context p c extras None) v \<noteq> None"
proof -
  have "map_of (buildEstimatorTokens p c extras) (variable_text v) \<noteq> None"
    by (cases v) (simp_all add: buildEstimatorTokens_def ESTIMATOR_VARS_def js_def)
  then obtain w where w: "map_of (buildEstimatorTokens p c extras) (variable_text v) = Some w" by blast
  then have "case w of VNum x \<Rightarrow> is_count x | _ \<Rightarrow> False"
    using assms map_of_SomeD [OF w] by (auto simp: estimator_counts_def list_all_iff)
  then obtain x where "w = VNum x" "is_count x" by (cases w) auto
  with w show ?thesis by (simp add: estimator_context_None token_value_def is_count_def)
qed

lemma estimator_tokens_checked:
  assumes "estimator_counts p c extras"
  shows "fold_result check_token (buildEstimatorTokens p c extras) () = Inr ()"
proof -
  have "check_token e u = Inr ()" if "e \<in> set (buildEstimatorTokens p c extras)" for e u
  proof -
    obtain k v where e: "e = (k, v)" by fastforce
    with assms that have "case v of VNum x \<Rightarrow> is_count x | _ \<Rightarrow> False" by (auto simp: estimator_counts_def list_all_iff)
    then show ?thesis by (cases v) (simp_all add: e check_token_def is_count_def)
  qed
  then have "fold_result check_token (buildEstimatorTokens p c extras) () =
      Inr (fold (\<lambda>_ _. ()) (buildEstimatorTokens p c extras) ())"
    by (intro fold_result_total) simp
  then show ?thesis by simp
qed

text \<open>What a tier of the editor costs, and whether its conditions hold.\<close>

definition tier_cost :: "simulation_context \<Rightarrow> visual_tier \<Rightarrow> js_num" where
  "tier_cost ctx tier =
     (if vt_billing_unit tier = Some UnitRequest
      then num_mul (number_of_string (the (vt_fixed_price tier))) (Fin 1000000)
      else linear_cost ctx (tier_prices tier))"

definition tier_applies :: "simulation_context \<Rightarrow> visual_tier \<Rightarrow> bool" where
  "tier_applies ctx tier \<longleftrightarrow> list_all (holds ctx) (map shown_condition (effective tier))"

lemma writable_count: "writable x \<Longrightarrow> is_count x"
  by (simp add: writable_def is_count_iff is_unsigned_iff)

lemma priced_payable:
  assumes "priced_tier tier" and "estimator_counts p c extras"
  shows "tier_payable (estimator_context p c extras None) (shown_tier label cs tier) \<longleftrightarrow>
     is_finite (tier_cost (estimator_context p c extras None) tier)"
proof (cases "vt_billing_unit tier = Some UnitRequest")
  case True
  with assms(1) obtain s where s: "vt_fixed_price tier = Some s" "is_count (number_of_string s)"
      "is_finite (num_mul (number_of_string s) (Fin 1000000))"
    by (auto simp: priced_tier_def shows_number_def writable_count split: option.splits)
  then have "is_count (num_mul (number_of_string s) (Fin 1000000))" by (intro is_count_mul) (simp_all add: is_count_iff)
  with True s show ?thesis by (simp add: tier_payable_def shown_tier_def tier_cost_def)
next
  case False
  have "prices_known (estimator_context p c extras None) (tier_prices tier)"
    using assms(1) False estimator_known [OF assms(2)]
    by (auto simp: prices_known_def priced_tier_def list_all_iff writable_count)
  with False show ?thesis by (simp add: tier_payable_def shown_tier_def tier_cost_def)
qed

lemma config_tiers_nth:
  "i < length tiers \<Longrightarrow> config_tiers tiers ! i =
     shown_tier (config_label (length tiers) i (tiers ! i))
       (if i = length tiers - 1 then [] else map shown_condition (effective (tiers ! i))) (tiers ! i)"
  by (simp add: config_tiers_def nth_enumerate_eq)

lemma length_config_tiers [simp]: "length (config_tiers tiers) = length tiers"
  by (simp add: config_tiers_def)

lemma shown_tier_simps [simp]:
  "tt_label (shown_tier label cs tier) = label" "tt_conditions (shown_tier label cs tier) = cs"
  "tt_unit (shown_tier label cs tier) = (if vt_billing_unit tier = Some UnitRequest then UnitRequest else UnitToken)"
  by (simp_all add: shown_tier_def)

lemma config_chooses:
  assumes "find_index (\<lambda>t. list_all (holds ctx) (tt_conditions t)) (config_tiers tiers) = Some i"
  shows "i < length tiers \<and> (i = length tiers - 1 \<or> tier_applies ctx (tiers ! i)) \<and> (\<forall>j<i. \<not> tier_applies ctx (tiers ! j))"
proof -
  note f = find_index_Some [OF assms]
  then have i: "i < length tiers" by simp
  moreover have "i = length tiers - 1 \<or> tier_applies ctx (tiers ! i)"
    using f i by (auto simp: config_tiers_nth tier_applies_def split: if_splits)
  moreover have "\<not> tier_applies ctx (tiers ! j)" if "j < i" for j
  proof -
    from that i have "j < length tiers" "j \<noteq> length tiers - 1" by simp_all
    moreover have "\<not> list_all (holds ctx) (tt_conditions (config_tiers tiers ! j))" using f that by blast
    ultimately show ?thesis by (simp add: config_tiers_nth tier_applies_def)
  qed
  ultimately show ?thesis by blast
qed

theorem estimator_answers:
  fixes p c :: js_num and extras :: extra_token_values
  defines "ctx \<equiv> estimator_context p c extras None"
  assumes e: "editable_tiers tiers" and cache: "cache_agrees cache" and counts: "estimator_counts p c extras"
  shows "\<exists>i<length tiers. (i = length tiers - 1 \<or> tier_applies ctx (tiers ! i)) \<and> (\<forall>j<i. \<not> tier_applies ctx (tiers ! j)) \<and>
     (let result = fst (evalExprLocally host (generateExprFromVisualConfig (Some \<lparr>vc_tiers = tiers\<rparr>)) p c extras None cache) in
      (er_error result = None \<longleftrightarrow> is_finite (tier_cost ctx (tiers ! i))) \<and>
      (er_error result = None \<longrightarrow>
         result = \<lparr>er_cost = tier_cost ctx (tiers ! i), er_matchedTier = config_label (length tiers) i (tiers ! i),
           er_error = None, er_billingUnit = (if vt_billing_unit (tiers ! i) = Some UnitRequest then Some UnitRequest else None)\<rparr>))"
proof -
  let ?src = "generateExprFromVisualConfig (Some \<lparr>vc_tiers = tiers\<rparr>)" and ?ts = "config_tiers tiers"
  let ?P = "\<lambda>t. list_all (holds ctx) (tt_conditions t)"
  obtain c' where c': "compile_uncached ?src = Inr c'" "readTokenTierChain (comp_ast c') = Some ?ts"
      "height (comp_ast c') < 256" "bodies_nested (comp_ast c')"
    using generated_tiers_compile [OF e] by blast
  have known: "counts_known ctx" using estimator_known [OF counts] by (simp add: counts_known_def ctx_def)
  have ne: "tiers \<noteq> []" using e by (simp add: editable_tiers_def)
  have "?ts \<noteq> []" using ne by (metis length_0_conv length_config_tiers)
  then have "last ?ts \<in> set ?ts" by (rule last_in_set)
  moreover have "?P (last ?ts)" using ne \<open>?ts \<noteq> []\<close> by (simp add: last_conv_nth config_tiers_nth)
  ultimately obtain i where i: "find_index ?P ?ts = Some i" using find_index_None [of ?P ?ts] by (cases "find_index ?P ?ts") auto
  note ci = config_chooses [OF i]
  let ?cost = "tier_cost ctx (tiers ! i)"
  have priced: "priced_tier (tiers ! i)" using e ci by (simp add: editable_tiers_def list_all_length)
  define out where "out = evaluate_steps host c' ctx"
  have result: "fst (evalExprLocally host ?src p c extras None cache) =
      (case map_sum expressionFailure id out of
         Inl failure \<Rightarrow> \<lparr>er_cost = Fin 0, er_matchedTier = [], er_error = Some (diag_detail (failure_diagnostic failure)), er_billingUnit = None\<rparr>
       | Inr r \<Rightarrow> \<lparr>er_cost = cost r, er_matchedTier = matchedTier r, er_error = None,
           er_billingUnit = (if billingUnit r = UnitRequest then Some UnitRequest else None)\<rparr>)"
    using compile_step(1) [OF cache, of ?src] generated_not_blank [OF e] c'(1)
    by (auto simp: evalExprLocally_def evaluateBillingExpression_def evaluate_compiled_def out_def ctx_def split: prod.split sum.split)
  have success: "is_finite ?cost \<and> cost r = ?cost \<and> matchedTier r = config_label (length tiers) i (tiers ! i) \<and>
      billingUnit r = (if vt_billing_unit (tiers ! i) = Some UnitRequest then UnitRequest else UnitToken)" if r: "out = Inr r" for r
  proof -
    from displayed_chain [OF c'(1-3) known r [unfolded out_def]] i
    have d: "matchedTier r = tt_label (?ts ! i)" "billingUnit r = tt_unit (?ts ! i)"
        "case tt_fixed (?ts ! i) of Some x \<Rightarrow> cost r = num_mul x (Fin 1000000)
         | None \<Rightarrow> left_nested (children (leaf_nodes (comp_ast c') ! i) ! 1) \<longrightarrow> cost r = linear_cost ctx (tt_prices (?ts ! i))"
      by auto
    have "left_nested (children (leaf_nodes (comp_ast c') ! i) ! 1)"
      using c'(4) ci leaf_nodes_tiers [OF c'(2)] by (simp add: bodies_nested_def list_all_length)
    with d(3) ci have "cost r = ?cost" by (auto simp: config_tiers_nth shown_tier_def tier_cost_def split: if_splits)
    moreover have "is_finite (cost r)" using r unfolding out_def by (rule evaluate_steps_cases) simp
    ultimately show ?thesis using d(1,2) ci by (simp add: config_tiers_nth)
  qed
  have progress: "\<exists>r. out = Inr r" if "is_finite ?cost"
    unfolding out_def
  proof (rule chain_answers [OF c' known])
    show "fold_result check_token (case ctx_tokens ctx of Some ts \<Rightarrow> ts | None \<Rightarrow> []) () = Inr ()"
      using estimator_tokens_checked [OF counts] by (simp add: ctx_def estimator_context_None)
    show "context_headers ctx = []" by (simp add: ctx_def estimator_context_None context_headers_def)
    fix k assume "find_index ?P ?ts = Some k"
    with i have "k = i" by simp
    then show "tier_payable ctx (?ts ! k)"
      using that priced_payable [OF priced counts] ci unfolding ctx_def by (simp add: config_tiers_nth)
  qed
  show ?thesis
  proof (intro exI [of _ i] conjI)
    show "let result = fst (evalExprLocally host ?src p c extras None cache) in
      (er_error result = None \<longleftrightarrow> is_finite ?cost) \<and>
      (er_error result = None \<longrightarrow>
         result = \<lparr>er_cost = ?cost, er_matchedTier = config_label (length tiers) i (tiers ! i),
           er_error = None, er_billingUnit = (if vt_billing_unit (tiers ! i) = Some UnitRequest then Some UnitRequest else None)\<rparr>)"
    proof (cases out)
      case (Inl d)
      then show ?thesis using progress unfolding result Let_def by auto
    next
      case (Inr r)
      from success [OF this] show ?thesis unfolding result Let_def Inr by simp
    qed
  qed (use ci in auto)
qed

end
