(* ===== verification/Rule_Samples.thy ===== *)
theory Rule_Samples
  imports Task_Correct Rules_Correct
begin

section \<open>Sample task prices and request rules\<close>

text \<open>
  A schema with one enumerated field and one number field, a matrix over it, and groups of
  request rules, with the facts that the witnesses of the root theory need of them.
\<close>

definition sample_collation :: collation where
  "sample_collation = (\<lambda>s t. if s = t then 0 else if length s < length t then - 1 else 1)"

definition sample_schema :: usage_schema where
  "sample_schema =
     [(js ''secs'', \<lparr>uf_type = Some UT_number, uf_unit = Some U_second, uf_enum = None\<rparr>),
      (js ''mode'', \<lparr>uf_type = None, uf_unit = None, uf_enum = Some [js ''std'', js ''pro'']\<rparr>)]"

definition standard_row :: task_matrix_row where
  "standard_row = \<lparr>mr_combination = [(js ''mode'', js ''std'')], mr_constant = Fin 1,
     mr_unitPrices = [(js ''secs'', Fin 2)]\<rparr>"

definition pro_row :: task_matrix_row where
  "pro_row = \<lparr>mr_combination = [(js ''mode'', js ''pro'')], mr_constant = Fin 3,
     mr_unitPrices = [(js ''secs'', Fin 4)]\<rparr>"

definition sample_matrix :: task_matrix_config where
  "sample_matrix = \<lparr>mc_rows = [standard_row, pro_row]\<rparr>"

lemma sample_schema_ok: "schema_ok sample_schema"
  by code_simp

lemma sample_matrix_fits: "fits_schema sample_collation sample_schema sample_matrix"
  by code_simp

lemma sample_number_fields: "map fst (getTaskNumberFields sample_collation (Some sample_schema)) = [js ''secs'']"
  by code_simp

lemma sample_number_fields_exist: "getTaskNumberFields sample_collation (Some sample_schema) \<noteq> []"
  using sample_number_fields by auto

lemma sample_rows: "mc_rows sample_matrix \<noteq> []" "pro_row \<in> set (mc_rows sample_matrix)"
  by (simp_all add: sample_matrix_def)

lemma sample_rows_priced:
  "\<forall>row\<in>set (mc_rows sample_matrix). row_priced (getTaskNumberFields sample_collation (Some sample_schema)) row"
  by (simp add: sample_matrix_def row_priced_def sample_number_fields standard_row_def pro_row_def)

definition pro_sample :: usage_sample where
  "pro_sample = [(js ''secs'', Inr (Fin 5)), (js ''mode'', Inl (js ''pro''))]"

lemma pro_sample_shows: "shows_combination pro_sample (mr_combination pro_row)"
  by code_simp

definition tier_condition :: request_condition where
  "tier_condition = ParamHeaderCondition SOURCE_PARAM (js ''tier'') MATCH_EQ (js ''fast'')"

definition night_condition :: request_condition where
  "night_condition = TimeCondition T_hour (js ''Asia/Tokyo'') MATCH_RANGE [] (js ''22'') (js ''6'')"

definition sample_groups :: "request_rule_group list" where
  "sample_groups = [rule_group [tier_condition] (js ''1.5''), rule_group [night_condition] (js ''2'')]"

lemma sample_conditions_readable: "readable tier_condition" "readable night_condition"
  by code_simp+

lemma sample_groups_readable: "list_all readable_group sample_groups"
proof -
  have "NUMERIC_LITERAL_REGEX (js ''1.5'')" "NUMERIC_LITERAL_REGEX (js ''2'')" by code_simp+
  then show ?thesis using sample_conditions_readable by (simp add: sample_groups_def readable_group_def)
qed

end
