(* ===== verification/Text_Samples.thy ===== *)
theory Text_Samples
  imports Task_Text Rule_Samples
begin

section \<open>Sample texts\<close>

text \<open>The sample task matrix satisfies what its editor needs to save it and to read it back.\<close>

lemma sample_schema_editable: "editable_schema sample_schema"
  by code_simp

lemma small_writable: "writable (Fin 0)" "writable (Fin 1)" "writable (Fin 2)" "writable (Fin 3)" "writable (Fin 4)"
  unfolding writable_def by code_simp+

lemma sample_rows_writable:
  "\<forall>row\<in>set (mc_rows sample_matrix). row_writable (getTaskNumberFields sample_collation (Some sample_schema)) row"
  by (simp add: sample_matrix_def row_writable_def sample_number_fields standard_row_def pro_row_def small_writable)

lemma sample_within_limits:
  "within_limits (getTaskNumberFields sample_collation (Some sample_schema))
     (taskMatrixToTiers sample_collation sample_matrix sample_schema)"
  by code_simp

lemma sample_tiers_storable:
  "storable sample_collation sample_schema (taskMatrixToTiers sample_collation sample_matrix sample_schema)"
  using matrix_tiers_storable [OF sample_schema_editable sample_matrix_fits sample_number_fields_exist sample_rows(1)
      sample_rows_writable sample_within_limits] by blast

lemma sample_text:
  "generateTaskExprFromConfig sample_collation
     (Some \<lparr>tvc_tiers = taskMatrixToTiers sample_collation sample_matrix sample_schema\<rparr>) sample_schema =
   js ''u(\"mode\") == \"std\" ? tier(\"std\", 1 + u(\"secs\") * 2) : tier(\"pro\", 3 + u(\"secs\") * 4)''"
  by code_simp

lemma empty_cache_agrees: "cache_agrees []"
  by (rule cache.agrees_new)

end
