(* ===== verification/Tier_Samples.thy ===== *)
theory Tier_Samples
  imports Estimator Text_Samples
begin

section \<open>Sample tiers of the editor\<close>

definition sample_tier :: "js_string \<Rightarrow> tier_condition_input list \<Rightarrow> (js_string, js_num) entries \<Rightarrow> visual_tier" where
  "sample_tier label conditions costs =
     normalizeVisualTier \<lparr>pa_billing_unit = None, pa_fixed_price = None, pa_label = Some label, pa_conditions = Some conditions,
       pa_cache_mode = None, pa_costs = costs\<rparr>"

definition sample_tiers :: "visual_tier list" where
  "sample_tiers =
     [sample_tier (js ''short'') [\<lparr>ci_var = CV_len, ci_op = CO_le, ci_value = Inr (Fin 3)\<rparr>]
        [(INPUT_COST, Fin 1), (OUTPUT_COST, Fin 2), (js ''cache_read_unit_cost'', Fin 3)],
      sample_tier (js ''long'') [] [(INPUT_COST, Fin 2), (OUTPUT_COST, Fin 4)]]"

lemma small_texts:
  "string_of_positive 1 = js ''1''" "string_of_positive 2 = js ''2''" "string_of_positive 3 = js ''3''"
  "string_of_positive 4 = js ''4''"
  by code_simp+

lemma sample_tier_parts:
  "map tier_prices sample_tiers = [[(TV_p, Fin 1), (TV_c, Fin 2), (TV_cr, Fin 3)], [(TV_p, Fin 2), (TV_c, Fin 4)]]"
  "map vt_label sample_tiers = [js ''short'', js ''long'']" "map vt_billing_unit sample_tiers = [None, None]"
  "map effective sample_tiers = [[\<lparr>ci_var = CV_len, ci_op = CO_le, ci_value = Inr (Fin 3)\<rparr>], []]"
  "map vt_conditions sample_tiers = [[\<lparr>ci_var = CV_len, ci_op = CO_le, ci_value = Inr (Fin 3)\<rparr>], []]"
  by code_simp+

lemma two_tiers: obtains a b where "sample_tiers = [a, b]"
  by (simp add: sample_tiers_def)

lemma two_tier_texts:
  assumes "sample_tiers = [a, b]"
  shows "tier_call_text (vt_label a) a = js ''tier(\"short\", p * 1 + c * 2 + cr * 3)''"
    "tier_call_text (vt_label b) b = js ''tier(\"long\", p * 2 + c * 4)''"
    "buildConditionStr (vt_conditions a) = js ''len <= 3''" "buildConditionStr (vt_conditions b) = []"
  using sample_tier_parts [unfolded assms, simplified]
  by (simp_all add: tier_call_text_def body_text cost_term_def small_texts buildConditionStr_def input_text_def js_def)

lemma sample_tiers_text:
  "generateExprFromVisualConfig (Some \<lparr>vc_tiers = sample_tiers\<rparr>) =
   js ''len <= 3 ? tier(\"short\", p * 1 + c * 2 + cr * 3) : tier(\"long\", p * 2 + c * 4)''"
proof (rule two_tiers)
  fix a b assume ab: "sample_tiers = [a, b]"
  with sample_tier_parts(2) [unfolded ab, simplified] two_tier_texts [OF ab] show ?thesis unfolding ab
    by (simp add: generateExprFromVisualConfig_def config_part_def tier_label_def Let_def js_def)
qed

lemma sample_tiers_priced: "list_all priced_tier sample_tiers"
proof (rule two_tiers)
  fix a b assume ab: "sample_tiers = [a, b]"
  with sample_tier_parts [unfolded ab, simplified] small_writable show ?thesis unfolding ab by (simp add: priced_tier_def)
qed

lemma sample_tiers_bounded: "list_all bounded (butlast sample_tiers)"
proof (rule two_tiers)
  fix a b assume ab: "sample_tiers = [a, b]"
  moreover have "number_of_string (string_of_number (Fin 3)) = Fin 3"
    using small_writable by (intro number_of_string_of_number) (simp_all add: writable_def)
  ultimately show ?thesis
    using sample_tier_parts [unfolded ab, simplified] small_writable unfolding ab by (simp add: bounded_def shows_number_def input_text_def)
qed

lemma sample_tiers_editable: "editable_tiers sample_tiers"
proof (rule two_tiers)
  fix a b assume ab: "sample_tiers = [a, b]"
  have "length (generateExprFromVisualConfig (Some \<lparr>vc_tiers = sample_tiers\<rparr>)) < 10000" unfolding sample_tiers_text by (simp add: js_def)
  moreover have "plain_label (js ''short'')" "plain_label (js ''long'')" by (simp_all add: plain_label_def js_def)
  ultimately show ?thesis
    using sample_tiers_priced sample_tiers_bounded sample_tier_parts [unfolded ab, simplified] unfolding ab
    by (simp add: editable_tiers_def config_label_def js_def)
qed

definition no_extras :: extra_token_values where
  "no_extras = \<lparr>cacheReadTokens = Fin 0, cacheCreateTokens = Fin 0, cacheCreate1hTokens = Fin 0, imageTokens = Fin 0,
     imageOutputTokens = Fin 0, audioInputTokens = Fin 0, audioOutputTokens = Fin 0\<rparr>"

lemma sample_counts: "estimator_counts (Fin 2) (Fin 1) no_extras"
  by code_simp

lemma sample_tier_cost: "is_finite (tier_cost (estimator_context (Fin 2) (Fin 1) no_extras None) (sample_tiers ! 0))"
  by code_simp

lemma sample_tier_applies: "tier_applies (estimator_context (Fin 2) (Fin 1) no_extras None) (sample_tiers ! 0)"
proof -
  have "effective (sample_tiers ! 0) = [\<lparr>ci_var = CV_len, ci_op = CO_le, ci_value = Inr (Fin 3)\<rparr>]" by code_simp
  moreover have "token_value (estimator_context (Fin 2) (Fin 1) no_extras None) TV_len = Some (Fin 2)" by code_simp
  moreover have "number_of_string (input_text (Inr (Fin 3))) = Fin 3" by code_simp
  ultimately show ?thesis by (simp add: tier_applies_def shown_condition_def holds_def num_le_def)
qed

text \<open>A tier before the last one that has no condition is written without its question mark.\<close>

lemma unconditional_tier_text:
  "generateExprFromVisualConfig (Some \<lparr>vc_tiers = [sample_tiers ! 1, sample_tiers ! 1]\<rparr>) =
   js ''tier(\"long\", p * 2 + c * 4) : tier(\"long\", p * 2 + c * 4)''"
proof (rule two_tiers)
  fix a b assume ab: "sample_tiers = [a, b]"
  with sample_tier_parts(2) [unfolded ab, simplified] two_tier_texts [OF ab] show ?thesis unfolding ab
    by (simp add: generateExprFromVisualConfig_def config_part_def tier_label_def Let_def js_def)
qed

lemma unconditional_tier_not_compiled:
  "\<exists>failure. compile_uncached (generateExprFromVisualConfig (Some \<lparr>vc_tiers = [sample_tiers ! 1, sample_tiers ! 1]\<rparr>)) = Inl failure"
proof -
  have "isl (compile_uncached (js ''tier(\"long\", p * 2 + c * 4) : tier(\"long\", p * 2 + c * 4)''))" by code_simp
  then show ?thesis unfolding unconditional_tier_text by (simp add: isl_def)
qed

end
