(* ===== verification/Model_List.thy ===== *)
theory Model_List
  imports Task_Pricing Js_Regex
begin

section \<open>Models of the pricing page (types.ts, constants.ts, model-helpers.ts, billing-mode.ts, filters.ts)\<close>

text \<open>
  The models that the server offers, the group ratio that scales the prices of a model, and the
  filters and the order of the list. A model is the record of its properties that this code
  reads; a property that may be absent or null is an option. The locale order of strings is
  the parameter \<open>collate\<close> and the lower case of letters outside ASCII the parameter \<open>unicode\<close>.
\<close>

subsection \<open>Models\<close>

record pricing_model =
  pm_model_name :: js_string
  pm_description :: "js_string option"
  pm_vendor_name :: "js_string option"
  pm_quota_type :: js_num
  pm_model_ratio :: js_num
  pm_completion_ratio :: js_num
  pm_model_price :: "js_num option"
  pm_cache_ratio :: "js_num option"
  pm_create_cache_ratio :: "js_num option"
  pm_image_ratio :: "js_num option"
  pm_audio_ratio :: "js_num option"
  pm_audio_completion_ratio :: "js_num option"
  pm_enable_groups :: "js_string list option"
  pm_tags :: "js_string option"
  pm_supported_endpoint_types :: "js_string list option"
  pm_group_ratio :: "(js_string, js_num) entries option"
  pm_billing_mode :: "js_string option"
  pm_billing_expr :: "js_string option"
  pm_billing_usage_schema :: "usage_schema option"
  pm_billing_usage_examples :: "usage_example list option"

definition FILTER_ALL :: js_string where "FILTER_ALL = js ''all''"

definition EXCLUDED_GROUPS :: "js_string list" where "EXCLUDED_GROUPS = [[], js ''auto'']"

definition QUOTA_TOKEN :: js_num where "QUOTA_TOKEN = Fin 0"

definition QUOTA_REQUEST :: js_num where "QUOTA_REQUEST = Fin 1"

datatype token_unit = UnitM | UnitK

fun TOKEN_UNIT_DIVISORS :: "token_unit \<Rightarrow> js_num" where
  "TOKEN_UNIT_DIVISORS UnitM = Fin 1"
| "TOKEN_UNIT_DIVISORS UnitK = Fin 1000"

definition enabled_groups :: "pricing_model \<Rightarrow> js_string list" where
  "enabled_groups model = (case pm_enable_groups model of Some gs \<Rightarrow> gs | None \<Rightarrow> [])"

subsection \<open>Groups\<close>

definition getAvailableGroups :: "pricing_model \<Rightarrow> (js_string, js_string \<times> js_num) entries \<Rightarrow> js_string list" where
  "getAvailableGroups model usableGroup =
     filter (\<lambda>g. g \<in> set (enabled_groups model)) (filter (\<lambda>g. g \<notin> set EXCLUDED_GROUPS) (map fst usableGroup))"

definition getConfiguredGroupRatio :: "(js_string, js_num) entries \<Rightarrow> js_string \<Rightarrow> js_num" where
  "getConfiguredGroupRatio groupRatio g =
     (case map_of groupRatio g of Some ratio \<Rightarrow> if is_finite ratio then ratio else Fin 1 | None \<Rightarrow> Fin 1)"

definition lower_ratio :: "(js_string, js_num) entries \<Rightarrow> js_string \<Rightarrow> js_num \<Rightarrow> js_num" where
  "lower_ratio groupRatio g minRatio =
     (case map_of groupRatio g of Some ratio \<Rightarrow> if is_finite ratio \<and> num_lt ratio minRatio then ratio else minRatio | None \<Rightarrow> minRatio)"

definition getDisplayGroupRatio :: "pricing_model \<Rightarrow> js_string option \<Rightarrow> js_num" where
  "getDisplayGroupRatio model selectedGroup =
     (let groups = enabled_groups model;
          groupRatio = (case pm_group_ratio model of Some r \<Rightarrow> r | None \<Rightarrow> []);
          best = (if groups = [] then Fin 1
                  else let minRatio = fold (lower_ratio groupRatio) groups PosInf in
                       if minRatio = PosInf then Fin 1 else minRatio) in
      case selectedGroup of
        Some g \<Rightarrow> if g \<noteq> [] \<and> g \<noteq> FILTER_ALL \<and> g \<in> set groups then getConfiguredGroupRatio groupRatio g else best
      | None \<Rightarrow> best)"

text \<open>
  \<^verbatim>\<open>replaceAll\<close> of a text by a text: in the replacement, a dollar sign starts a pattern that stands
  for itself, the match, what precedes it or what follows it.
\<close>

fun expand_replacement :: "js_string \<Rightarrow> js_string \<Rightarrow> js_string \<Rightarrow> js_string \<Rightarrow> js_string" where
  "expand_replacement pre m post [] = []"
| "expand_replacement pre m post [c] = [c]"
| "expand_replacement pre m post (c # d # r) =
     (if c \<noteq> 36 then c # expand_replacement pre m post (d # r)
      else if d = 36 then 36 # expand_replacement pre m post r
      else if d = 38 then m @ expand_replacement pre m post r
      else if d = 96 then pre @ expand_replacement pre m post r
      else if d = 39 then post @ expand_replacement pre m post r
      else c # expand_replacement pre m post (d # r))"

function replace_all :: "js_string \<Rightarrow> js_string \<Rightarrow> js_string \<Rightarrow> js_string \<Rightarrow> js_string" where
  "replace_all pat rep pre s =
     (case s of
        [] \<Rightarrow> []
      | c # r \<Rightarrow>
          if pat \<noteq> [] \<and> starts_with s pat
          then expand_replacement pre pat (drop (length pat) s) rep @ replace_all pat rep (pre @ pat) (drop (length pat) s)
          else c # replace_all pat rep (pre @ [c]) r)"
  by pat_completeness auto
termination
  by (relation "measure (\<lambda>(pat, rep, pre, s). length s)") auto

declare replace_all.simps [simp del]

definition replaceModelInPath :: "js_string \<Rightarrow> js_string \<Rightarrow> js_string" where
  "replaceModelInPath path modelName = replace_all (js ''{model}'') modelName [] path"

definition isTokenBasedModel :: "pricing_model \<Rightarrow> bool" where
  "isTokenBasedModel model \<longleftrightarrow> num_eq (pm_quota_type model) QUOTA_TOKEN"

subsection \<open>Kinds of prices\<close>

definition is_tiered :: "pricing_model \<Rightarrow> bool" where
  "is_tiered model \<longleftrightarrow> pm_billing_mode model = Some (js ''tiered_expr'')"

definition billing_expr_of :: "pricing_model \<Rightarrow> js_string" where
  "billing_expr_of model = (case pm_billing_expr model of Some e \<Rightarrow> e | None \<Rightarrow> [])"

definition isDynamicPricingModel :: "pricing_model \<Rightarrow> bool" where
  "isDynamicPricingModel model \<longleftrightarrow> is_tiered model \<and> billing_expr_of model \<noteq> []"

definition hasTaskUsageSchema :: "pricing_model \<Rightarrow> bool" where
  "hasTaskUsageSchema model \<longleftrightarrow> 0 < length (case pm_billing_usage_schema model of Some s \<Rightarrow> s | None \<Rightarrow> [])"

definition isTaskUsagePricingModel :: "pricing_model \<Rightarrow> bool" where
  "isTaskUsagePricingModel model \<longleftrightarrow> is_tiered model \<and> hasTaskUsageSchema model"

definition isUnconfiguredTaskUsageModel :: "pricing_model \<Rightarrow> bool" where
  "isUnconfiguredTaskUsageModel model \<longleftrightarrow>
     \<not> num_eq (pm_quota_type model) (Fin 1) \<and> hasTaskUsageSchema model \<and> \<not> isDynamicPricingModel model"

datatype billing_mode_label = PerRequest | DynamicPricing | TokenBased | TaskBilling

definition getBillingModeLabelKey :: "pricing_model \<Rightarrow> billing_mode_label" where
  "getBillingModeLabelKey model =
     (if hasTaskUsageSchema model then TaskBilling
      else if isDynamicPricingModel model then DynamicPricing
      else if isTokenBasedModel model then TokenBased
      else PerRequest)"

subsection \<open>Filters\<close>

definition mentions :: "(js_string \<Rightarrow> js_string) \<Rightarrow> js_string \<Rightarrow> js_string option \<Rightarrow> bool" where
  "mentions unicode lowerQuery s = (case s of Some x \<Rightarrow> str_includes (to_lower_case unicode x) lowerQuery | None \<Rightarrow> False)"

definition filterBySearch :: "(js_string \<Rightarrow> js_string) \<Rightarrow> pricing_model list \<Rightarrow> js_string \<Rightarrow> pricing_model list" where
  "filterBySearch unicode models query =
     (if query = [] then models
      else
        (let lowerQuery = to_lower_case unicode query in
         filter (\<lambda>m. mentions unicode lowerQuery (Some (pm_model_name m)) \<or> mentions unicode lowerQuery (pm_description m) \<or>
             mentions unicode lowerQuery (pm_tags m) \<or> mentions unicode lowerQuery (pm_vendor_name m)) models))"

definition filterByVendor :: "pricing_model list \<Rightarrow> js_string \<Rightarrow> pricing_model list" where
  "filterByVendor models vendor = (if vendor = FILTER_ALL then models else filter (\<lambda>m. pm_vendor_name m = Some vendor) models)"

definition filterByGroup :: "pricing_model list \<Rightarrow> js_string \<Rightarrow> pricing_model list" where
  "filterByGroup models g = (if g = FILTER_ALL then models else filter (\<lambda>m. g \<in> set (enabled_groups m)) models)"

definition filterByQuotaType :: "pricing_model list \<Rightarrow> js_string \<Rightarrow> pricing_model list" where
  "filterByQuotaType models quotaType =
     (if quotaType = js ''all'' then models
      else if quotaType = js ''task'' then filter hasTaskUsageSchema models
      else
        (let targetType = (if quotaType = js ''token'' then QUOTA_TOKEN else QUOTA_REQUEST) in
         filter (\<lambda>m. num_eq (pm_quota_type m) targetType \<and> \<not> hasTaskUsageSchema m) models))"

definition filterByEndpointType :: "pricing_model list \<Rightarrow> js_string \<Rightarrow> pricing_model list" where
  "filterByEndpointType models endpointType =
     (if endpointType = js ''all'' then models
      else filter (\<lambda>m. case pm_supported_endpoint_types m of Some ts \<Rightarrow> endpointType \<in> set ts | None \<Rightarrow> False) models)"

text \<open>The stable sort of the language by a comparison whose positive results are \<open>gt\<close>.\<close>

fun insert_sorted :: "('a \<Rightarrow> 'a \<Rightarrow> bool) \<Rightarrow> 'a \<Rightarrow> 'a list \<Rightarrow> 'a list" where
  "insert_sorted gt x [] = [x]"
| "insert_sorted gt x (y # ys) = (if gt x y then y # insert_sorted gt x ys else x # y # ys)"

definition js_sort :: "('a \<Rightarrow> 'a \<Rightarrow> bool) \<Rightarrow> 'a list \<Rightarrow> 'a list" where
  "js_sort gt xs = foldr (insert_sorted gt) xs []"

definition getModelPrice :: "pricing_model \<Rightarrow> js_num" where
  "getModelPrice model =
     (if num_eq (pm_quota_type model) (Fin 0) then pm_model_ratio model
      else case pm_model_price model of Some p \<Rightarrow> if p = NaN \<or> is_zero p then Fin 0 else p | None \<Rightarrow> Fin 0)"

definition sortModels :: "collation \<Rightarrow> pricing_model list \<Rightarrow> js_string \<Rightarrow> pricing_model list" where
  "sortModels collate models sortBy =
     (if sortBy = js ''name'' then js_sort (\<lambda>a b. 0 < collate (pm_model_name a) (pm_model_name b)) models
      else if sortBy = js ''price-low''
      then js_sort (\<lambda>a b. num_lt (Fin 0) (num_sub (getModelPrice a) (getModelPrice b))) models
      else if sortBy = js ''price-high''
      then js_sort (\<lambda>a b. num_lt (Fin 0) (num_sub (getModelPrice b) (getModelPrice a))) models
      else models)"

definition tag_separator :: "code_unit \<Rightarrow> bool" where
  "tag_separator c \<longleftrightarrow> c = 44 \<or> c = 59 \<or> c = 124 \<or> is_space c"

definition parseTags :: "js_string option \<Rightarrow> js_string list" where
  "parseTags tagsString =
     (case tagsString of
        None \<Rightarrow> []
      | Some s \<Rightarrow>
          if s = [] then []
          else filter (\<lambda>t. t \<noteq> []) (map trim (split_at_matches (rx_plus (RxSet tag_separator)) [] s)))"

definition extractAllTags :: "(js_string \<Rightarrow> js_string) \<Rightarrow> collation \<Rightarrow> pricing_model list \<Rightarrow> js_string list" where
  "extractAllTags unicode collate models =
     js_sort (\<lambda>a b. 0 < collate a b)
       (fold (\<lambda>tag tagSet. if tag \<in> set tagSet then tagSet else tagSet @ [tag])
         (concat (map (\<lambda>m. map (to_lower_case unicode) (parseTags (pm_tags m))) models)) [])"

definition filterByTag :: "(js_string \<Rightarrow> js_string) \<Rightarrow> pricing_model list \<Rightarrow> js_string \<Rightarrow> pricing_model list" where
  "filterByTag unicode models tag =
     (if tag = FILTER_ALL then models
      else filter (\<lambda>m. to_lower_case unicode tag \<in> set (map (to_lower_case unicode) (parseTags (pm_tags m)))) models)"

record model_filters =
  mf_search :: js_string
  mf_vendor :: js_string
  mf_group :: js_string
  mf_quotaType :: js_string
  mf_endpointType :: js_string
  mf_tag :: js_string
  mf_sortBy :: js_string

definition filterAndSortModels ::
  "(js_string \<Rightarrow> js_string) \<Rightarrow> collation \<Rightarrow> pricing_model list \<Rightarrow> model_filters \<Rightarrow> pricing_model list" where
  "filterAndSortModels unicode collate models filters =
     (let result = filterBySearch unicode models (mf_search filters);
          result = filterByVendor result (mf_vendor filters);
          result = filterByGroup result (mf_group filters);
          result = filterByQuotaType result (mf_quotaType filters);
          result = filterByEndpointType result (mf_endpointType filters);
          result = filterByTag unicode result (mf_tag filters) in
      sortModels collate result (mf_sortBy filters))"

end
