(* ===== verification/Currency.thy ===== *)
theory Currency
  imports Js_Value Number_Roundtrip
begin

section \<open>Currency formatting (currency.ts, system-config-store.ts)\<close>

text \<open>
  Amounts are kept in USD and shown in the currency that the administrator configured, or as
  quota tokens. \<^verbatim>\<open>Intl.NumberFormat\<close> is the parameter \<open>intl\<close>, applied to the options that the code
  passes; \<^verbatim>\<open>toFixed\<close> is that of the language. The configuration that the store holds may come
  from persisted data, so each of its properties may be absent.
\<close>

subsection \<open>Fixed notation\<close>

definition fixed_digits :: "nat \<Rightarrow> rat \<Rightarrow> js_string" where
  "fixed_digits f q =
     (let m = digits_of (nat \<lfloor>q * 10 ^ f + 1 / 2\<rfloor>);
          padded = replicate (Suc f - length m) 48 @ m in
      if f = 0 then m else take (length padded - f) padded @ 46 # drop (length padded - f) padded)"

fun to_fixed :: "nat \<Rightarrow> js_num \<Rightarrow> js_string" where
  "to_fixed f (Fin q) =
     (if 10 ^ 21 \<le> \<bar>q\<bar> then string_of_number (Fin q) else (if q < 0 then [45] else []) @ fixed_digits f \<bar>q\<bar>)"
| "to_fixed f NegZero = fixed_digits f 0"
| "to_fixed f x = string_of_number x"

subsection \<open>Configuration\<close>

datatype currency_display_type = DT_USD | DT_CNY | DT_TOKENS | DT_CUSTOM

record currency_config =
  displayInCurrency :: bool
  quotaDisplayType :: currency_display_type
  quotaPerUnit :: js_num
  usdExchangeRate :: js_num
  customCurrencySymbol :: js_string
  customCurrencyExchangeRate :: js_num

record stored_currency =
  st_displayInCurrency :: "bool option"
  st_quotaDisplayType :: "currency_display_type option"
  st_quotaPerUnit :: "js_num option"
  st_usdExchangeRate :: "js_num option"
  st_customCurrencySymbol :: "js_string option"
  st_customCurrencyExchangeRate :: "js_num option"

definition DEFAULT_CURRENCY_CONFIG :: currency_config where
  "DEFAULT_CURRENCY_CONFIG =
     \<lparr>displayInCurrency = True, quotaDisplayType = DT_USD, quotaPerUnit = Fin 500000, usdExchangeRate = Fin 1,
      customCurrencySymbol = [164], customCurrencyExchangeRate = Fin 1\<rparr>"

fun display_type_text :: "currency_display_type \<Rightarrow> js_string" where
  "display_type_text DT_USD = js ''USD''"
| "display_type_text DT_CNY = js ''CNY''"
| "display_type_text DT_TOKENS = js ''TOKENS''"
| "display_type_text DT_CUSTOM = js ''CUSTOM''"

definition DISPLAY_TYPE_VALUES :: "currency_display_type list" where
  "DISPLAY_TYPE_VALUES = [DT_USD, DT_CNY, DT_TOKENS, DT_CUSTOM]"

definition isCurrencyDisplayType :: "js_value \<Rightarrow> bool" where
  "isCurrencyDisplayType v = (case v of VStr s \<Rightarrow> s \<in> set (map display_type_text DISPLAY_TYPE_VALUES) | _ \<Rightarrow> False)"

definition parseCurrencyDisplayType :: "js_value \<Rightarrow> currency_display_type \<Rightarrow> currency_display_type" where
  "parseCurrencyDisplayType v fallback =
     (if isCurrencyDisplayType v
      then (case List.find (\<lambda>t. VStr (display_type_text t) = v) DISPLAY_TYPE_VALUES of Some t \<Rightarrow> t | None \<Rightarrow> fallback)
      else fallback)"

text \<open>\<^verbatim>\<open>{ ...a, ...b }\<close> of a property, and the test \<^verbatim>\<open>x && x > 0 ? x : d\<close>.\<close>

definition or_default :: "'a option \<Rightarrow> 'a \<Rightarrow> 'a" where
  "or_default x d = (case x of Some v \<Rightarrow> v | None \<Rightarrow> d)"

definition positive_or :: "js_num option \<Rightarrow> js_num \<Rightarrow> js_num" where
  "positive_or x d = (case x of Some v \<Rightarrow> if num_lt (Fin 0) v then v else d | None \<Rightarrow> d)"

definition getConfig :: "stored_currency option \<Rightarrow> currency_config" where
  "getConfig stored =
     (case stored of
        None \<Rightarrow> DEFAULT_CURRENCY_CONFIG
      | Some c \<Rightarrow>
          \<lparr>displayInCurrency = or_default (st_displayInCurrency c) (displayInCurrency DEFAULT_CURRENCY_CONFIG),
           quotaDisplayType = or_default (st_quotaDisplayType c) (quotaDisplayType DEFAULT_CURRENCY_CONFIG),
           quotaPerUnit = positive_or (st_quotaPerUnit c) (quotaPerUnit DEFAULT_CURRENCY_CONFIG),
           usdExchangeRate = positive_or (st_usdExchangeRate c) (usdExchangeRate DEFAULT_CURRENCY_CONFIG),
           customCurrencySymbol =
             (case st_customCurrencySymbol c of
                Some s \<Rightarrow> if trim s \<noteq> [] then trim s else customCurrencySymbol DEFAULT_CURRENCY_CONFIG
              | None \<Rightarrow> customCurrencySymbol DEFAULT_CURRENCY_CONFIG),
           customCurrencyExchangeRate =
             positive_or (st_customCurrencyExchangeRate c) (customCurrencyExchangeRate DEFAULT_CURRENCY_CONFIG)\<rparr>)"

text \<open>The action of the store that merges a new configuration into the one it holds.\<close>

definition or_else :: "'a option \<Rightarrow> 'a option \<Rightarrow> 'a option" where
  "or_else x y = (case x of Some v \<Rightarrow> Some v | None \<Rightarrow> y)"

definition set_currency :: "stored_currency option \<Rightarrow> stored_currency option \<Rightarrow> stored_currency option" where
  "set_currency new old =
     (let none = \<lparr>st_displayInCurrency = None, st_quotaDisplayType = None, st_quotaPerUnit = None, st_usdExchangeRate = None,
                  st_customCurrencySymbol = None, st_customCurrencyExchangeRate = None\<rparr>;
          n = or_default new none; c = or_default old none in
      Some \<lparr>st_displayInCurrency = or_else (st_displayInCurrency n) (st_displayInCurrency c),
            st_quotaDisplayType = or_else (st_quotaDisplayType n) (st_quotaDisplayType c),
            st_quotaPerUnit = or_else (st_quotaPerUnit n) (st_quotaPerUnit c),
            st_usdExchangeRate = or_else (st_usdExchangeRate n) (st_usdExchangeRate c),
            st_customCurrencySymbol = or_else (st_customCurrencySymbol n) (st_customCurrencySymbol c),
            st_customCurrencyExchangeRate = or_else (st_customCurrencyExchangeRate n) (st_customCurrencyExchangeRate c)\<rparr>)"

datatype display_meta =
    CurrencyMeta (meta_symbol: js_string) (meta_code: js_string) (meta_rate: js_num)
  | CustomMeta (meta_symbol: js_string) (meta_rate: js_num)
  | TokensMeta (meta_quota: js_num)

definition USD_META :: display_meta where
  "USD_META = CurrencyMeta (js ''$'') (js ''USD'') (Fin 1)"

definition getDisplayMeta :: "currency_config \<Rightarrow> display_meta" where
  "getDisplayMeta config =
     (case quotaDisplayType config of
        DT_CNY \<Rightarrow> CurrencyMeta [165] (js ''CNY'') (usdExchangeRate config)
      | DT_CUSTOM \<Rightarrow> CustomMeta (customCurrencySymbol config) (customCurrencyExchangeRate config)
      | DT_TOKENS \<Rightarrow> TokensMeta (quotaPerUnit config)
      | DT_USD \<Rightarrow> USD_META)"

definition getBillingDisplayMeta :: "currency_config \<Rightarrow> display_meta" where
  "getBillingDisplayMeta config = (case getDisplayMeta config of TokensMeta _ \<Rightarrow> USD_META | meta \<Rightarrow> meta)"

subsection \<open>Formatting\<close>

record currency_format_options =
  fo_digitsLarge :: "nat option"
  fo_digitsSmall :: "nat option"
  fo_abbreviate :: "bool option"
  fo_minimumNonZero :: "js_num option"
  fo_compact :: "bool option"
  fo_showSymbol :: "bool option"
  fo_locale :: "js_string option"

record resolved_format_options =
  digitsLarge :: nat
  digitsSmall :: nat
  abbreviate :: bool
  minimumNonZero :: js_num
  compact :: bool
  showSymbol :: bool
  locale_name :: "js_string option"

definition DEFAULT_FORMAT_OPTIONS :: resolved_format_options where
  "DEFAULT_FORMAT_OPTIONS =
     \<lparr>digitsLarge = 2, digitsSmall = 4, abbreviate = True, minimumNonZero = Fin 0, compact = False, showSymbol = True,
      locale_name = None\<rparr>"

definition mergeOptions :: "currency_format_options option \<Rightarrow> resolved_format_options" where
  "mergeOptions options =
     (case options of
        None \<Rightarrow> DEFAULT_FORMAT_OPTIONS
      | Some opts \<Rightarrow>
          \<lparr>digitsLarge = or_default (fo_digitsLarge opts) (digitsLarge DEFAULT_FORMAT_OPTIONS),
           digitsSmall = or_default (fo_digitsSmall opts) (digitsSmall DEFAULT_FORMAT_OPTIONS),
           abbreviate = or_default (fo_abbreviate opts) (abbreviate DEFAULT_FORMAT_OPTIONS),
           minimumNonZero = or_default (fo_minimumNonZero opts) (minimumNonZero DEFAULT_FORMAT_OPTIONS),
           compact = or_default (fo_compact opts) (compact DEFAULT_FORMAT_OPTIONS),
           showSymbol = or_default (fo_showSymbol opts) (showSymbol DEFAULT_FORMAT_OPTIONS),
           locale_name = or_else (fo_locale opts) (locale_name DEFAULT_FORMAT_OPTIONS)\<rparr>)"

definition getFractionDigits :: "js_num \<Rightarrow> nat \<Rightarrow> nat \<Rightarrow> nat" where
  "getFractionDigits x large small = (if num_le (Fin 1) (num_abs x) then large else small)"

definition getCurrencyFractionDigits :: "js_num \<Rightarrow> currency_format_options option \<Rightarrow> nat" where
  "getCurrencyFractionDigits x options =
     (let merged = mergeOptions options in getFractionDigits x (digitsLarge merged) (digitsSmall merged))"

text \<open>\<^verbatim>\<open>str.replace(/(\.[0-9]*?)0+$/, '$1')\<close>: the first point that only digits follow, the last of them a zero.\<close>

fun cut_zeros :: "js_string \<Rightarrow> js_string" where
  "cut_zeros [] = []"
| "cut_zeros (c # s) =
     (if c = 46 \<and> s \<noteq> [] \<and> list_all is_digit s \<and> last s = 48 then c # rev (dropWhile (\<lambda>d. d = 48) (rev s)) else c # cut_zeros s)"

definition removeTrailingZeros :: "js_string \<Rightarrow> js_string" where
  "removeTrailingZeros str =
     (if 46 \<notin> set str then str
      else let cut = cut_zeros str in if cut \<noteq> [] \<and> last cut = 46 then butlast cut else cut)"

definition formatNumberWithSuffix :: "js_num \<Rightarrow> nat \<Rightarrow> nat \<Rightarrow> bool \<Rightarrow> js_string" where
  "formatNumberWithSuffix x large small abbrev =
     (if abbrev \<and> num_le (Fin 1000) (num_abs x)
      then removeTrailingZeros (to_fixed 1 (num_div x (Fin 1000))) @ js ''k''
      else removeTrailingZeros (to_fixed (getFractionDigits x large small) x))"

definition adjustForMinimum :: "js_num \<Rightarrow> nat \<Rightarrow> js_num \<Rightarrow> js_num" where
  "adjustForMinimum x digits minimum =
     (if num_eq x (Fin 0) then x
      else
        (let threshold = (if num_lt (Fin 0) minimum then minimum else to_double (1 / 10 ^ digits)) in
         if num_lt (Fin 0) (num_abs x) \<and> num_lt (num_abs x) threshold
         then (if num_lt (Fin 0) x then threshold else num_neg threshold) else x))"

record number_format =
  nf_locale :: "js_string option"
  nf_currency :: "js_string option"
  nf_compact :: bool
  nf_minimum :: "nat option"
  nf_maximum :: nat

type_synonym intl_format = "number_format \<Rightarrow> js_num \<Rightarrow> js_string"

definition compact_format :: "resolved_format_options \<Rightarrow> number_format" where
  "compact_format options =
     \<lparr>nf_locale = locale_name options, nf_currency = None, nf_compact = True, nf_minimum = None, nf_maximum = 1\<rparr>"

definition decimal_format :: "resolved_format_options \<Rightarrow> js_string option \<Rightarrow> nat \<Rightarrow> number_format" where
  "decimal_format options currency digits =
     \<lparr>nf_locale = locale_name options, nf_currency = currency, nf_compact = compact options, nf_minimum = Some 0,
      nf_maximum = (if compact options then 1 else digits)\<rparr>"

definition formatCurrencyValue :: "intl_format \<Rightarrow> js_num \<Rightarrow> resolved_format_options \<Rightarrow> display_meta \<Rightarrow> js_string" where
  "formatCurrencyValue intl x options meta =
     (let digits = getFractionDigits x (digitsLarge options) (digitsSmall options);
          adjusted = adjustForMinimum x digits (minimumNonZero options) in
      case meta of
        TokensMeta _ \<Rightarrow>
          if compact options then intl (compact_format options) x
          else formatNumberWithSuffix x (digitsLarge options) (digitsSmall options) (abbreviate options)
      | CurrencyMeta _ code _ \<Rightarrow>
          intl (decimal_format options (if showSymbol options then Some code else None) digits) adjusted
      | CustomMeta symbol _ \<Rightarrow>
          (let decimal = intl (decimal_format options None digits) adjusted in
           if showSymbol options then symbol @ js '' '' @ decimal else decimal))"

definition getCurrencyDisplay :: "stored_currency option \<Rightarrow> currency_config \<times> display_meta" where
  "getCurrencyDisplay stored = (let config = getConfig stored in (config, getDisplayMeta config))"

definition formatCurrencyFromUSD ::
  "intl_format \<Rightarrow> stored_currency option \<Rightarrow> js_num option \<Rightarrow> currency_format_options option \<Rightarrow> js_string" where
  "formatCurrencyFromUSD intl stored amountUSD options =
     (case amountUSD of
        None \<Rightarrow> js ''-''
      | Some amount \<Rightarrow>
          if amount = NaN then js ''-''
          else
            (case getCurrencyDisplay stored of (config, meta) \<Rightarrow>
              let merged = mergeOptions options in
              case meta of
                TokensMeta _ \<Rightarrow>
                  (let tokens = num_mul amount (quotaPerUnit config) in
                   if compact merged then intl (compact_format merged) tokens
                   else formatNumberWithSuffix tokens 0 (digitsSmall merged) (abbreviate merged))
              | _ \<Rightarrow> formatCurrencyValue intl (num_mul amount (meta_rate meta)) merged meta))"

definition formatBillingCurrencyFromUSD ::
  "intl_format \<Rightarrow> stored_currency option \<Rightarrow> js_num option \<Rightarrow> currency_format_options option \<Rightarrow> js_string" where
  "formatBillingCurrencyFromUSD intl stored amountUSD options =
     (case amountUSD of
        None \<Rightarrow> js ''-''
      | Some amount \<Rightarrow>
          if amount = NaN then js ''-''
          else
            (let meta = getBillingDisplayMeta (fst (getCurrencyDisplay stored)); merged = mergeOptions options;
                 x = (case meta of TokensMeta _ \<Rightarrow> amount | _ \<Rightarrow> num_mul amount (meta_rate meta)) in
             formatCurrencyValue intl x merged meta))"

definition formatQuotaWithCurrency ::
  "intl_format \<Rightarrow> stored_currency option \<Rightarrow> js_num option \<Rightarrow> currency_format_options option \<Rightarrow> js_string" where
  "formatQuotaWithCurrency intl stored quota options =
     (case quota of
        None \<Rightarrow> js ''-''
      | Some amount \<Rightarrow>
          if amount = NaN then js ''-''
          else formatCurrencyFromUSD intl stored
                 (Some (num_div amount (quotaPerUnit (fst (getCurrencyDisplay stored))))) options)"

definition getCurrencyLabel :: "stored_currency option \<Rightarrow> js_string" where
  "getCurrencyLabel stored =
     (case getCurrencyDisplay stored of (config, meta) \<Rightarrow>
        (case meta of
           TokensMeta _ \<Rightarrow> js ''Tokens''
         | _ \<Rightarrow>
             (case quotaDisplayType config of
                DT_CNY \<Rightarrow> js ''CNY''
              | DT_CUSTOM \<Rightarrow> (case meta of CustomMeta symbol _ \<Rightarrow> symbol | _ \<Rightarrow> js ''Custom'')
              | _ \<Rightarrow> js ''USD'')))"

definition isCurrencyDisplayEnabled :: "stored_currency option \<Rightarrow> bool" where
  "isCurrencyDisplayEnabled stored = (case snd (getCurrencyDisplay stored) of TokensMeta _ \<Rightarrow> False | _ \<Rightarrow> True)"

definition formatLocalCurrencyAmount ::
  "intl_format \<Rightarrow> stored_currency option \<Rightarrow> js_num option \<Rightarrow> currency_format_options option \<Rightarrow> js_string" where
  "formatLocalCurrencyAmount intl stored amount options =
     (case amount of
        None \<Rightarrow> js ''-''
      | Some x \<Rightarrow>
          if x = NaN then js ''-''
          else formatCurrencyValue intl x (mergeOptions options)
                 (getBillingDisplayMeta (fst (getCurrencyDisplay stored))))"

subsection \<open>Rates\<close>

text \<open>Whatever the store holds, the amounts of a currency are scaled by a positive rate.\<close>

lemma positive_or_positive: "num_lt (Fin 0) d \<Longrightarrow> num_lt (Fin 0) (positive_or x d)"
  by (simp add: positive_or_def split: option.split)

theorem getConfig_positive:
  "num_lt (Fin 0) (quotaPerUnit (getConfig stored)) \<and> num_lt (Fin 0) (usdExchangeRate (getConfig stored)) \<and>
   num_lt (Fin 0) (customCurrencyExchangeRate (getConfig stored)) \<and> customCurrencySymbol (getConfig stored) \<noteq> []"
  by (simp add: getConfig_def DEFAULT_CURRENCY_CONFIG_def positive_or_positive split: option.split)

theorem billing_meta_rate:
  "getBillingDisplayMeta (getConfig stored) \<noteq> TokensMeta q \<and> num_lt (Fin 0) (meta_rate (getBillingDisplayMeta (getConfig stored)))"
  using getConfig_positive [of stored]
  by (cases "quotaDisplayType (getConfig stored)") (simp_all add: getBillingDisplayMeta_def getDisplayMeta_def USD_META_def)

theorem billing_amount_scaled:
  assumes "x \<noteq> NaN"
  shows "\<exists>meta. (\<forall>q. meta \<noteq> TokensMeta q) \<and> num_lt (Fin 0) (meta_rate meta) \<and>
    formatBillingCurrencyFromUSD intl stored (Some x) options =
      formatCurrencyValue intl (num_mul x (meta_rate meta)) (mergeOptions options) meta"
  using assms billing_meta_rate [of stored]
  by (intro exI [of _ "getBillingDisplayMeta (getConfig stored)"])
    (auto simp: formatBillingCurrencyFromUSD_def getCurrencyDisplay_def Let_def split: display_meta.split)

subsection \<open>Accuracy of the fixed notation\<close>

definition decimal_text :: "js_string \<Rightarrow> js_string \<Rightarrow> js_string" where
  "decimal_text i f = i @ (if f = [] then [] else 46 # f)"

lemma decimal_text_value:
  assumes "list_all is_digit i" and "list_all is_digit f" and "i \<noteq> []"
  shows "decimal_value (decimal_text i f) = Some (of_int (digits_value (i @ f)) / 10 ^ length f)"
proof (cases "f = []")
  case True
  then show ?thesis using decimal_value_plain [OF assms(1,3)] by (simp add: decimal_text_def)
next
  case False
  then show ?thesis using decimal_value_point [OF assms, of "[]"]
    by (simp add: decimal_text_def exponent_value_def power_int_minus field_simps)
qed

lemma fixed_digits_text:
  assumes "0 \<le> q"
  obtains i fr where "fixed_digits f q = decimal_text i fr" "list_all is_digit i" "list_all is_digit fr" "i \<noteq> []" "length fr = f"
    "digits_value (i @ fr) = \<lfloor>q * 10 ^ f + 1 / 2\<rfloor>"
proof -
  let ?n = "\<lfloor>q * 10 ^ f + 1 / 2\<rfloor>"
  let ?m = "digits_of (nat ?n)"
  define p where "p = replicate (Suc f - length ?m) 48 @ ?m"
  let ?i = "take (length p - f) p" and ?r = "drop (length p - f) p"
  have "0 \<le> q * 10 ^ f" using assms by simp
  then have n: "0 \<le> ?n" by (simp add: le_floor_iff)
  have digits: "list_all is_digit p" using digits_of_digits [of "nat ?n"] by (auto simp: p_def list_all_iff is_digit_def)
  have val: "digits_value p = ?n" using n by (simp add: p_def digits_value_append digits_value_of)
  have len: "f < length p" by (simp add: p_def)
  show ?thesis
  proof (cases "f = 0")
    case True
    with val show ?thesis
      using that [of ?m "[]"] digits_of_digits [of "nat ?n"] digits_of_nonempty [of "nat ?n"] n
      by (simp add: fixed_digits_def decimal_text_def digits_value_of)
  next
    case False
    have "list_all is_digit ?i" "list_all is_digit ?r" using digits by (metis append_take_drop_id list_all_append)+
    moreover have "?i \<noteq> []" "length ?r = f" using len by auto
    moreover have "?r \<noteq> []" using \<open>length ?r = f\<close> False by auto
    moreover have "fixed_digits f q = ?i @ 46 # ?r" using False unfolding fixed_digits_def Let_def p_def by (simp only: if_False)
    ultimately show ?thesis using that [of ?i ?r] val by (simp add: decimal_text_def)
  qed
qed

lemma cut_zeros_prefix: "46 \<notin> set i \<Longrightarrow> cut_zeros (i @ s) = i @ cut_zeros s"
  by (induction i) auto

lemma cut_zeros_none: "46 \<notin> set s \<Longrightarrow> cut_zeros s = s"
  by (induction s) auto

lemma digits_no_point: "list_all is_digit s \<Longrightarrow> 46 \<notin> set s"
  by (auto simp: list_all_iff is_digit_def)

lemma remove_zeros_decimal:
  assumes "list_all is_digit i" and "list_all is_digit f" and "i \<noteq> []"
  shows "removeTrailingZeros (decimal_text i f) = decimal_text i (rev (dropWhile (\<lambda>d. d = 48) (rev f)))"
proof (cases "f = []")
  case True
  then show ?thesis using digits_no_point [OF assms(1)] by (simp add: removeTrailingZeros_def decimal_text_def)
next
  case False
  let ?g = "rev (dropWhile (\<lambda>d. d = 48) (rev f))"
  have "last f = hd (rev f)" using False by (simp add: hd_rev)
  then have "?g = f" if "last f \<noteq> 48" using that False by (cases "rev f") (auto simp: rev_swap)
  then have cut: "cut_zeros (decimal_text i f) = i @ 46 # ?g"
    using False assms digits_no_point cut_zeros_none [of f] cut_zeros_prefix [of i "46 # f"]
    by (cases "last f = 48") (auto simp: decimal_text_def)
  have "set ?g \<subseteq> set f" using set_dropWhileD by fastforce
  then have "46 \<notin> set ?g" using digits_no_point [OF assms(2)] by blast
  then have "?g \<noteq> [] \<Longrightarrow> last ?g \<noteq> 46" using last_in_set by metis
  with cut False show ?thesis by (auto simp: removeTrailingZeros_def decimal_text_def Let_def butlast_append)
qed

lemma strip_zeros_digits:
  assumes "list_all is_digit f"
  obtains k where "f = rev (dropWhile (\<lambda>d. d = 48) (rev f)) @ replicate k 48" "list_all is_digit (rev (dropWhile (\<lambda>d. d = 48) (rev f)))"
proof -
  let ?z = "takeWhile (\<lambda>d. d = 48) (rev f)" and ?d = "dropWhile (\<lambda>d. d = 48) (rev f)"
  have "rev f = ?z @ ?d" by simp
  then have f: "f = rev ?d @ rev ?z" by (metis rev_append rev_rev_ident)
  moreover have "rev ?z = replicate (length ?z) 48" by (rule replicate_eqI) (auto dest: set_takeWhileD)
  ultimately have "f = rev ?d @ replicate (length ?z) 48" by metis
  moreover have "list_all is_digit (rev ?d)" using assms f by (metis list_all_append)
  ultimately show ?thesis using that by blast
qed

theorem trimmed_fixed_value:
  assumes "0 \<le> q"
  shows "decimal_value (removeTrailingZeros (fixed_digits f q)) = Some (of_int \<lfloor>q * 10 ^ f + 1 / 2\<rfloor> / 10 ^ f)"
proof -
  obtain i fr where t: "fixed_digits f q = decimal_text i fr" "list_all is_digit i" "list_all is_digit fr" "i \<noteq> []" "length fr = f"
    "digits_value (i @ fr) = \<lfloor>q * 10 ^ f + 1 / 2\<rfloor>" using fixed_digits_text [OF assms] by blast
  let ?g = "rev (dropWhile (\<lambda>d. d = 48) (rev fr))"
  obtain k where k: "fr = ?g @ replicate k 48" "list_all is_digit ?g" using strip_zeros_digits [OF t(3)] .
  have "decimal_value (removeTrailingZeros (fixed_digits f q)) = Some (of_int (digits_value (i @ ?g)) / 10 ^ length ?g)"
    using decimal_text_value [OF t(2) k(2) t(4)] t remove_zeros_decimal by simp
  moreover have "digits_value (i @ fr) = digits_value (i @ ?g) * 10 ^ k"
    using k(1) digits_value_append [of "i @ ?g" "replicate k 48"] by simp
  moreover have "f = length ?g + k" using t(5) arg_cong [OF k(1), of length] by simp
  ultimately show ?thesis using t(6) by (simp add: power_add)
qed

lemma floor_half_near: "\<bar>of_int \<lfloor>x + 1 / 2\<rfloor> - x\<bar> \<le> 1 / 2" for x :: rat
  using floor_correct [of "x + 1 / 2"] by linarith

theorem shown_fixed_accurate:
  assumes "0 \<le> q" and "q < 10 ^ 21"
  shows "\<exists>d. decimal_value (removeTrailingZeros (to_fixed f (Fin q))) = Some d \<and> \<bar>d - q\<bar> \<le> 1 / (2 * 10 ^ f)"
proof -
  let ?n = "of_int \<lfloor>q * 10 ^ f + 1 / 2\<rfloor> :: rat"
  have "decimal_value (removeTrailingZeros (to_fixed f (Fin q))) = Some (?n / 10 ^ f)"
    using trimmed_fixed_value [OF assms(1), of f] assms by simp
  moreover have "?n / 10 ^ f - q = (?n - q * 10 ^ f) / 10 ^ f" by (simp add: field_simps)
  then have "\<bar>?n / 10 ^ f - q\<bar> = \<bar>?n - q * 10 ^ f\<bar> / 10 ^ f" by simp
  then have "\<bar>?n / 10 ^ f - q\<bar> \<le> (1 / 2) / 10 ^ f"
    using floor_half_near [of "q * 10 ^ f"] by (simp only: divide_right_mono zero_le_power zero_le_numeral)
  ultimately show ?thesis by simp
qed

subsection \<open>Amounts in tokens\<close>

lemma round_even_half: "\<bar>of_int (round_even x) - x\<bar> \<le> 1 / 2"
proof -
  have "of_int \<lfloor>x\<rfloor> \<le> x" "x < of_int \<lfloor>x\<rfloor> + 1" by linarith+
  then show ?thesis by (auto simp: round_even_def Let_def abs_le_iff)
qed

lemma to_double_relative:
  assumes x: "1 \<le> x" "x < 2 ^ 1000"
  shows "\<exists>r. to_double x = Fin r \<and> 0 \<le> r \<and> \<bar>r - x\<bar> \<le> x / 2 ^ 53"
proof -
  let ?l = "ilog 2 x" and ?e = "double_exponent x" and ?r = "round_mantissa x"
  have pos: "0 < x" using x by simp
  have l: "2 powi ?l \<le> x" "x < 2 powi (?l + 1)" using ilog_bounds [of 2 x] pos by simp_all
  have "0 \<le> ?l"
  proof (rule ccontr)
    assume "\<not> 0 \<le> ?l"
    then have "2 powi (?l + 1) \<le> (2 :: rat) powi 0" by (intro power_int_increasing) simp_all
    with l(2) x(1) show False by simp
  qed
  then have e: "?e = ?l - 52" using pos by (simp add: double_exponent_def)
  have "(2 :: rat) powi ?e = 2 powi ?l / 2 powi 52" unfolding e by (rule power_int_diff) simp
  then have small: "2 powi ?e \<le> x / 2 ^ 52" using l(1) by (simp add: divide_right_mono)
  have "?r - x = (of_int (round_even (x / 2 powi ?e)) - x / 2 powi ?e) * 2 powi ?e"
    by (simp add: round_mantissa_def Let_def left_diff_distrib)
  then have "\<bar>?r - x\<bar> = \<bar>of_int (round_even (x / 2 powi ?e)) - x / 2 powi ?e\<bar> * 2 powi ?e" by (simp add: abs_mult)
  also have "\<dots> \<le> 1 / 2 * 2 powi ?e" by (intro mult_right_mono round_even_half) simp
  also have "\<dots> \<le> x / 2 ^ 53" using small by simp
  finally have near: "\<bar>?r - x\<bar> \<le> x / 2 ^ 53" .
  moreover have "x / 2 ^ 53 < x" using pos by simp
  ultimately have "\<bar>?r - x\<bar> < x" by (rule le_less_trans)
  then have r: "0 < ?r" "?r < 2 * x" by (simp_all add: abs_less_iff)
  have "?r < 2 powi 1024"
  proof -
    have "2 * x < 2 powi 1001" using x(2) by simp
    also have "\<dots> \<le> (2 :: rat) powi 1024" by (intro power_int_increasing) simp_all
    finally show ?thesis using r(2) by (rule less_trans [rotated])
  qed
  then have "ilog 2 ?r < 1024" using r(1) by (intro ilog_less)
  with r near pos show ?thesis by (intro exI [of _ ?r]) (simp add: to_double_def Let_def)
qed

text \<open>
  The text of an amount in tokens is the amount rounded to the digits that are shown, or to tenths
  of thousands.
\<close>

definition rounds_number :: "js_string \<Rightarrow> rat \<Rightarrow> rat \<Rightarrow> bool" where
  "rounds_number s q eps \<longleftrightarrow> (\<exists>d. decimal_value s = Some d \<and> \<bar>d - q\<bar> \<le> eps)"

lemma number_with_suffix_accurate:
  assumes q: "0 \<le> q" "q < 10 ^ 21"
  shows "\<not> abbrev \<or> q < 1000 \<Longrightarrow> rounds_number (formatNumberWithSuffix (Fin q) large small abbrev) q (1 / (2 * 10 ^ (if 1 \<le> q then large else small)))"
    and "abbrev \<Longrightarrow> 1000 \<le> q \<Longrightarrow>
      \<exists>s. formatNumberWithSuffix (Fin q) large small abbrev = s @ js ''k'' \<and> rounds_number s (q / 1000) (1 / 20 + q / 2 ^ 53 / 1000)"
proof -
  assume "\<not> abbrev \<or> q < 1000"
  then have "formatNumberWithSuffix (Fin q) large small abbrev = removeTrailingZeros (to_fixed (if 1 \<le> q then large else small) (Fin q))"
    using q by (auto simp: formatNumberWithSuffix_def getFractionDigits_def num_le_def)
  then show "rounds_number (formatNumberWithSuffix (Fin q) large small abbrev) q (1 / (2 * 10 ^ (if 1 \<le> q then large else small)))"
    unfolding rounds_number_def using shown_fixed_accurate [OF q] by simp
next
  assume a: "abbrev" "1000 \<le> q"
  have "q / 1000 < 2 ^ 1000" using q(2) by (simp add: field_simps)
  with a(2) obtain r where r: "to_double (q / 1000) = Fin r" "0 \<le> r" "\<bar>r - q / 1000\<bar> \<le> q / 1000 / 2 ^ 53"
    using to_double_relative [of "q / 1000"] by auto
  have "r \<le> q / 1000 + q / 1000 / 2 ^ 53" using r(3) by (simp only: abs_le_iff) linarith
  also have "\<dots> < 10 ^ 21" using q by (simp add: field_simps)
  finally obtain d where d: "decimal_value (removeTrailingZeros (to_fixed 1 (Fin r))) = Some d" "\<bar>d - r\<bar> \<le> 1 / 20"
    using shown_fixed_accurate [OF r(2), of 1] by auto
  have "formatNumberWithSuffix (Fin q) large small abbrev = removeTrailingZeros (to_fixed 1 (Fin r)) @ js ''k''"
    using q a r(1) by (auto simp: formatNumberWithSuffix_def num_le_def num_div_def)
  moreover have "\<bar>d - q / 1000\<bar> \<le> 1 / 20 + q / 2 ^ 53 / 1000"
    using abs_triangle_ineq [of "d - r" "r - q / 1000"] d(2) r(3) by simp
  ultimately show "\<exists>s. formatNumberWithSuffix (Fin q) large small abbrev = s @ js ''k'' \<and> rounds_number s (q / 1000) (1 / 20 + q / 2 ^ 53 / 1000)"
    unfolding rounds_number_def using d(1) by auto
qed

theorem token_text_accurate:
  assumes "quotaDisplayType (getConfig stored) = DT_TOKENS" and "\<not> compact (mergeOptions options)"
    and "num_mul amount (quotaPerUnit (getConfig stored)) = Fin q" and "0 \<le> q" and "q < 10 ^ 21"
  shows "if abbreviate (mergeOptions options) \<and> 1000 \<le> q
    then \<exists>s. formatCurrencyFromUSD intl stored (Some amount) options = s @ js ''k'' \<and> rounds_number s (q / 1000) (1 / 20 + q / 2 ^ 53 / 1000)
    else rounds_number (formatCurrencyFromUSD intl stored (Some amount) options) q
           (1 / (2 * 10 ^ (if 1 \<le> q then 0 else digitsSmall (mergeOptions options))))"
proof -
  have "amount \<noteq> NaN" using assms(3) by (auto simp: num_mul_def)
  then have f: "formatCurrencyFromUSD intl stored (Some amount) options =
      formatNumberWithSuffix (Fin q) 0 (digitsSmall (mergeOptions options)) (abbreviate (mergeOptions options))"
    using assms by (simp add: formatCurrencyFromUSD_def getCurrencyDisplay_def getDisplayMeta_def Let_def)
  show ?thesis
    unfolding f using number_with_suffix_accurate [OF assms(4,5), of "abbreviate (mergeOptions options)" 0 "digitsSmall (mergeOptions options)"]
    by (simp add: not_le)
qed

end
