(* ===== verification/Model_Price.thy ===== *)
theory Model_Price
  imports Model_List Currency Pricing_Tiers
begin

section \<open>Prices of models (price.ts, dynamic-price.ts)\<close>

text \<open>
  The prices that the pricing page shows: those of models priced by ratios or per request, and the
  entries of models priced by an expression. The parameters \<open>intl\<close> and \<open>stored\<close> are the number
  format of the host and the currency configuration of the store. Descriptions of usage fields,
  which the entries hand to the interface, are left out.
\<close>

subsection \<open>Prices by ratio\<close>

definition price_rx :: regex where
  "price_rx =
     RxSeq [RxGroup 1 (RxStar (RxSet (\<lambda>c. \<not> is_digit c \<and> c \<noteq> 45))),
            RxGroup 2 (RxSeq [rx_plus (RxSet (\<lambda>c. c = 45 \<or> is_digit c \<or> c = 44)), RxOpt (rx_text (js ''.'')), RxStar (RxSet is_digit)]),
            RxGroup 3 (RxOpt (rx_text (js ''k''))), RxEnd]"

text \<open>\<^verbatim>\<open>Number.parseFloat\<close>: the value of the longest prefix that is a decimal literal.\<close>

definition float_exponent :: "js_string \<Rightarrow> int" where
  "float_exponent s =
     (case s of
        [] \<Rightarrow> 0
      | e # r \<Rightarrow>
          if e = 101 \<or> e = 69 then
            (let neg = (r \<noteq> [] \<and> hd r = 45);
                 ds = takeWhile is_digit (if r \<noteq> [] \<and> (hd r = 45 \<or> hd r = 43) then tl r else r) in
             if neg then - digits_value ds else digits_value ds)
          else 0)"

definition parse_float :: "js_string \<Rightarrow> js_num" where
  "parse_float s =
     (let t = trim_start s; neg = (t \<noteq> [] \<and> hd t = 45);
          u = (if t \<noteq> [] \<and> (hd t = 45 \<or> hd t = 43) then tl t else t);
          i = takeWhile is_digit u; r = dropWhile is_digit u;
          (f, r') = (if r \<noteq> [] \<and> hd r = 46 then (takeWhile is_digit (tl r), dropWhile is_digit (tl r)) else ([], r));
          m = (if starts_with u (js ''Infinity'') then PosInf
               else if i = [] \<and> f = [] then NaN
               else to_double (of_int (digits_value (i @ f)) * 10 powi (float_exponent r' - int (length f)))) in
      if neg then num_neg m else m)"

text \<open>\<^verbatim>\<open>replace(/\.?0+$/, '')\<close>\<close>

definition cut_zero_tail :: "js_string \<Rightarrow> js_string" where
  "cut_zero_tail s =
     (let z = rev (dropWhile (\<lambda>c. c = 48) (rev s)) in
      if z \<noteq> s \<and> z \<noteq> [] \<and> last z = 46 then butlast z else z)"

definition group_text :: "captures \<Rightarrow> nat \<Rightarrow> js_string" where
  "group_text caps n = (case map_of caps n of Some s \<Rightarrow> s | None \<Rightarrow> [])"

definition stripTrailingZeros :: "js_string \<Rightarrow> js_string" where
  "stripTrailingZeros formatted =
     (case match_here price_rx formatted of
        None \<Rightarrow> formatted
      | Some (_, caps) \<Rightarrow>
          (let parsed = parse_float (filter (\<lambda>c. c \<noteq> 44) (group_text caps 2)) in
           if parsed = NaN then formatted
           else
             (let shown = string_of_number parsed;
                  result = (if 101 \<in> set shown then cut_zero_tail (to_fixed 20 parsed) else shown) in
              group_text caps 1 @ result @ group_text caps 3)))"

datatype price_type = PT_input | PT_output | PT_cache | PT_create_cache | PT_image | PT_audio_input | PT_audio_output

definition hasRatio :: "js_num option \<Rightarrow> bool" where
  "hasRatio x = (case x of Some v \<Rightarrow> is_finite v | None \<Rightarrow> False)"

definition scaled :: "js_num \<Rightarrow> js_num option \<Rightarrow> js_num" where
  "scaled base ratio = (if hasRatio ratio then num_mul base (the ratio) else NaN)"

definition calculateTokenPrice :: "pricing_model \<Rightarrow> price_type \<Rightarrow> js_num \<Rightarrow> js_num" where
  "calculateTokenPrice model type ratio =
     (let base = num_mul (num_mul (pm_model_ratio model) (Fin 2)) ratio in
      case type of
        PT_input \<Rightarrow> base
      | PT_output \<Rightarrow> num_mul base (pm_completion_ratio model)
      | PT_cache \<Rightarrow> scaled base (pm_cache_ratio model)
      | PT_create_cache \<Rightarrow> scaled base (pm_create_cache_ratio model)
      | PT_image \<Rightarrow> scaled base (pm_image_ratio model)
      | PT_audio_input \<Rightarrow> scaled base (pm_audio_ratio model)
      | PT_audio_output \<Rightarrow>
          if hasRatio (pm_audio_ratio model) \<and> hasRatio (pm_audio_completion_ratio model)
          then num_mul (num_mul base (the (pm_audio_ratio model))) (the (pm_audio_completion_ratio model))
          else NaN)"

definition applyRechargeRate :: "js_num \<Rightarrow> bool \<Rightarrow> js_num \<Rightarrow> js_num \<Rightarrow> js_num" where
  "applyRechargeRate price showWithRecharge priceRate exchangeRate =
     (if \<not> showWithRecharge then price else num_div (num_mul price priceRate) exchangeRate)"

definition price_format :: "nat \<Rightarrow> bool option \<Rightarrow> currency_format_options option" where
  "price_format small symbol =
     Some \<lparr>fo_digitsLarge = Some 4, fo_digitsSmall = Some small, fo_abbreviate = Some False, fo_minimumNonZero = None,
           fo_compact = None, fo_showSymbol = symbol, fo_locale = None\<rparr>"

definition is_request_model :: "pricing_model \<Rightarrow> bool" where
  "is_request_model model \<longleftrightarrow> num_eq (pm_quota_type model) QUOTA_REQUEST"

definition price_or_zero :: "js_num option \<Rightarrow> js_num" where
  "price_or_zero x = (case x of Some p \<Rightarrow> if p = NaN \<or> is_zero p then Fin 0 else p | None \<Rightarrow> Fin 0)"

definition formatPrice ::
  "intl_format \<Rightarrow> stored_currency option \<Rightarrow> pricing_model \<Rightarrow> price_type \<Rightarrow> token_unit \<Rightarrow> bool \<Rightarrow> js_num \<Rightarrow> js_num \<Rightarrow>
   js_string option \<Rightarrow> bool \<Rightarrow> js_string" where
  "formatPrice intl stored model type unit showWithRecharge priceRate exchangeRate selectedGroup symbol =
     (if is_request_model model then js ''-''
      else
        (let priceInUSD = applyRechargeRate (calculateTokenPrice model type (getDisplayGroupRatio model selectedGroup))
               showWithRecharge priceRate exchangeRate in
         formatBillingCurrencyFromUSD intl stored (Some (num_div priceInUSD (TOKEN_UNIT_DIVISORS unit)))
           (price_format 6 (Some symbol))))"

definition formatGroupPrice ::
  "intl_format \<Rightarrow> stored_currency option \<Rightarrow> pricing_model \<Rightarrow> js_string \<Rightarrow> price_type \<Rightarrow> token_unit \<Rightarrow> bool \<Rightarrow> js_num \<Rightarrow> js_num \<Rightarrow>
   (js_string, js_num) entries \<Rightarrow> js_string" where
  "formatGroupPrice intl stored model g type unit showWithRecharge priceRate exchangeRate groupRatio =
     (if is_request_model model then js ''-''
      else
        (let priceInUSD = applyRechargeRate (calculateTokenPrice model type (getConfiguredGroupRatio groupRatio g))
               showWithRecharge priceRate exchangeRate in
         formatBillingCurrencyFromUSD intl stored (Some (num_div priceInUSD (TOKEN_UNIT_DIVISORS unit)))
           (price_format 6 None)))"

definition formatFixedPrice ::
  "intl_format \<Rightarrow> stored_currency option \<Rightarrow> pricing_model \<Rightarrow> js_string \<Rightarrow> bool \<Rightarrow> js_num \<Rightarrow> js_num \<Rightarrow>
   (js_string, js_num) entries \<Rightarrow> js_string" where
  "formatFixedPrice intl stored model g showWithRecharge priceRate exchangeRate groupRatio =
     (if \<not> is_request_model model then js ''-''
      else
        formatBillingCurrencyFromUSD intl stored
          (Some (applyRechargeRate (num_mul (price_or_zero (pm_model_price model)) (getConfiguredGroupRatio groupRatio g))
             showWithRecharge priceRate exchangeRate))
          (price_format 4 None))"

definition formatRequestPrice ::
  "intl_format \<Rightarrow> stored_currency option \<Rightarrow> pricing_model \<Rightarrow> bool \<Rightarrow> js_num \<Rightarrow> js_num \<Rightarrow> js_string option \<Rightarrow> bool \<Rightarrow> js_string" where
  "formatRequestPrice intl stored model showWithRecharge priceRate exchangeRate selectedGroup symbol =
     (if \<not> is_request_model model then js ''-''
      else
        formatBillingCurrencyFromUSD intl stored
          (Some (applyRechargeRate (num_mul (price_or_zero (pm_model_price model)) (getDisplayGroupRatio model selectedGroup))
             showWithRecharge priceRate exchangeRate))
          (price_format 4 (Some symbol)))"

subsection \<open>Entries of expression prices\<close>

record dynamic_price_options =
  do_tokenUnit :: token_unit
  do_showCurrencySymbol :: "bool option"
  do_showRechargePrice :: "bool option"
  do_priceRate :: "js_num option"
  do_usdExchangeRate :: "js_num option"
  do_groupRatioMultiplier :: "js_num option"
  do_usageSchema :: "usage_schema option"
  do_now :: "js_date option"

datatype label_kind = I18n | SchemaLabel

datatype price_unit = UsagePrice usage_unit | RequestPrice

record dynamic_price_entry =
  pe_key :: js_string
  pe_field :: js_string
  pe_label :: js_string
  pe_shortLabel :: js_string
  pe_labelKind :: label_kind
  pe_value :: js_num
  pe_formatted :: js_string
  pe_formattedRange :: "js_string option"
  pe_unit :: price_unit
  pe_variable :: "billing_var option"

datatype dynamic_tier = TokenPricing parsed_tier | TaskPricing task_tier

definition getTaskUsageQuantityUnitLabelKey :: "usage_unit option \<Rightarrow> js_string" where
  "getTaskUsageQuantityUnitLabelKey unit =
     (if unit = Some U_second then js ''s'' else if unit = Some U_token then js ''token (unit)''
      else if unit = Some U_credit then js ''credit'' else js ''unit'')"

definition getTaskUsagePriceUnitLabelKey :: "usage_unit option \<Rightarrow> js_string" where
  "getTaskUsagePriceUnitLabelKey unit =
     (if unit = Some U_second then js ''second'' else if unit = Some U_token then js ''1M token''
      else if unit = Some U_credit then js ''credit'' else js ''unit'')"

definition getDynamicPriceUnitLabelKey :: "dynamic_price_entry \<Rightarrow> js_string option" where
  "getDynamicPriceUnitLabelKey e =
     (if pe_unit e = UsagePrice U_second then Some (js ''s'')
      else if pe_unit e = UsagePrice U_count then Some (js ''unit'')
      else if pe_unit e = UsagePrice U_credit then Some (js ''credit'')
      else if pe_unit e = UsagePrice U_token \<and> pe_variable e = None then Some (js ''1M token'')
      else if pe_unit e = RequestPrice then Some (js ''request'')
      else None)"

definition PRIMARY_DYNAMIC_FIELDS :: "js_string list" where
  "PRIMARY_DYNAMIC_FIELDS = [js ''inputPrice'', js ''outputPrice'']"

definition getTaskPricingUnit :: "collation \<Rightarrow> pricing_model \<Rightarrow> usage_unit option" where
  "getTaskPricingUnit collate model =
     (case getTaskNumberFields collate (pm_billing_usage_schema model) of (_, definition) # _ \<Rightarrow> uf_unit definition | [] \<Rightarrow> None)"

definition getDynamicDisplayGroupRatio :: "pricing_model \<Rightarrow> js_string option \<Rightarrow> js_num" where
  "getDynamicDisplayGroupRatio model selectedGroup = getDisplayGroupRatio model selectedGroup"

definition or_one :: "js_num option \<Rightarrow> js_num" where
  "or_one x = or_default x (Fin 1)"

definition display_price :: "intl_format \<Rightarrow> stored_currency option \<Rightarrow> js_num \<Rightarrow> dynamic_price_options \<Rightarrow> js_string" where
  "display_price intl stored priceUSD opts =
     formatBillingCurrencyFromUSD intl stored
       (Some (applyRechargeRate priceUSD (or_default (do_showRechargePrice opts) False) (or_one (do_priceRate opts))
          (or_one (do_usdExchangeRate opts))))
       (price_format 6 (Some (or_default (do_showCurrencySymbol opts) True)))"

definition formatDynamicUnitPrice :: "intl_format \<Rightarrow> stored_currency option \<Rightarrow> js_num \<Rightarrow> dynamic_price_options \<Rightarrow> js_string" where
  "formatDynamicUnitPrice intl stored valuePerMillionTokens opts =
     display_price intl stored
       (num_div (num_mul valuePerMillionTokens (or_one (do_groupRatioMultiplier opts))) (TOKEN_UNIT_DIVISORS (do_tokenUnit opts))) opts"

definition formatTaskUsageUnitPrice :: "intl_format \<Rightarrow> stored_currency option \<Rightarrow> js_num \<Rightarrow> dynamic_price_options \<Rightarrow> js_string" where
  "formatTaskUsageUnitPrice intl stored valuePerUnit opts =
     display_price intl stored (num_mul valuePerUnit (or_one (do_groupRatioMultiplier opts))) opts"

definition is_shown :: "js_num option \<Rightarrow> bool" where
  "is_shown x = (case x of Some v \<Rightarrow> is_finite v \<and> \<not> num_lt v (Fin 0) | None \<Rightarrow> False)"

definition usage_entry :: "intl_format \<Rightarrow> stored_currency option \<Rightarrow> task_tier \<Rightarrow> dynamic_price_options \<Rightarrow> js_string \<times> usage_field \<Rightarrow> dynamic_price_entry list" where
  "usage_entry intl stored tier opts field_def =
     (case field_def of (field, definition) \<Rightarrow>
        (case (map_of (tk_unit_prices tier) field, uf_unit definition) of
           (Some x, Some u) \<Rightarrow>
             if is_shown (Some x)
             then [\<lparr>pe_key = field, pe_field = field, pe_label = field, pe_shortLabel = field, pe_labelKind = SchemaLabel, pe_value = x,
                    pe_formatted = formatTaskUsageUnitPrice intl stored x opts, pe_formattedRange = None, pe_unit = UsagePrice u,
                    pe_variable = None\<rparr>]
             else []
         | _ \<Rightarrow> []))"

definition request_entry :: "intl_format \<Rightarrow> stored_currency option \<Rightarrow> js_num \<Rightarrow> dynamic_price_options \<Rightarrow> string \<Rightarrow> string \<Rightarrow> string \<Rightarrow> string \<Rightarrow> dynamic_price_entry" where
  "request_entry intl stored x opts key field label shortLabel =
     \<lparr>pe_key = js key, pe_field = js field, pe_label = js label, pe_shortLabel = js shortLabel, pe_labelKind = I18n, pe_value = x,
      pe_formatted = formatTaskUsageUnitPrice intl stored x opts, pe_formattedRange = None, pe_unit = RequestPrice, pe_variable = None\<rparr>"

definition variable_entry :: "intl_format \<Rightarrow> stored_currency option \<Rightarrow> parsed_tier \<Rightarrow> dynamic_price_options \<Rightarrow> billing_var \<Rightarrow> dynamic_price_entry list" where
  "variable_entry intl stored tier opts v =
     (case bv_field v of
        None \<Rightarrow> []
      | Some field \<Rightarrow>
          (case map_of (pt_fields tier) field of
             Some x \<Rightarrow>
               if is_shown (Some x)
               then [\<lparr>pe_key = variable_text (bv_key v), pe_field = field, pe_label = bv_label v, pe_shortLabel = bv_shortLabel v,
                      pe_labelKind = I18n, pe_value = x, pe_formatted = formatDynamicUnitPrice intl stored x opts,
                      pe_formattedRange = None, pe_unit = UsagePrice U_token, pe_variable = Some v\<rparr>]
               else []
           | None \<Rightarrow> []))"

definition is_primary :: "dynamic_price_entry \<Rightarrow> bool" where
  "is_primary e \<longleftrightarrow> pe_field e \<in> set PRIMARY_DYNAMIC_FIELDS"

definition getDynamicPriceEntries ::
  "intl_format \<Rightarrow> stored_currency option \<Rightarrow> collation \<Rightarrow> dynamic_tier option \<Rightarrow> dynamic_price_options \<Rightarrow> dynamic_price_entry list" where
  "getDynamicPriceEntries intl stored collate tier opts =
     (case tier of
        None \<Rightarrow> []
      | Some (TokenPricing t) \<Rightarrow>
          (case (pt_billingUnit t, pt_fixedPrice t) of
             (Some UnitRequest, Some x) \<Rightarrow>
               [request_entry intl stored x opts ''fixed'' ''fixedPrice'' ''Price per request'' ''Per-call'']
           | _ \<Rightarrow>
               js_sort (\<lambda>a b. \<not> is_primary a \<and> is_primary b)
                 (concat (map (variable_entry intl stored t opts) BILLING_PRICING_VARS)))
      | Some (TaskPricing t) \<Rightarrow>
          (case do_usageSchema opts of
             Some schema \<Rightarrow>
               concat (map (usage_entry intl stored t opts) (getTaskNumberFields collate (Some schema))) @
               (if num_lt (Fin 0) (tk_constant t)
                then [request_entry intl stored (tk_constant t) opts ''constant'' ''constant'' ''Additional charge'' ''Additional charge'']
                else [])
           | None \<Rightarrow> []))"

subsection \<open>Summaries\<close>

text \<open>What may escape: an exception of the rule reader, or the diagnostic of the tree walk.\<close>

datatype pricing_exception = Thrown js_exception | Diagnosed diagnostic

definition bind_cached ::
  "('e + 'a) \<times> compile_cache \<Rightarrow> ('a \<Rightarrow> compile_cache \<Rightarrow> ('e + 'b) \<times> compile_cache) \<Rightarrow> ('e + 'b) \<times> compile_cache" where
  "bind_cached m f = (case m of (Inl e, cache) \<Rightarrow> (Inl e, cache) | (Inr x, cache) \<Rightarrow> f x cache)"

definition split_model :: "pricing_model \<Rightarrow> pricing_exception + split_billing" where
  "split_model model = map_sum Thrown id (splitBillingExprAndRequestRules (billing_expr_of model))"

definition getDynamicPricingTiers ::
  "js_host \<Rightarrow> pricing_model \<Rightarrow> compile_cache \<Rightarrow> (pricing_exception + dynamic_tier list) \<times> compile_cache" where
  "getDynamicPricingTiers host model cache =
     (if \<not> isDynamicPricingModel model then (Inr [], cache)
      else
        bind_cached (split_model model, cache) (\<lambda>parts cache1.
          if isTaskUsagePricingModel model
          then apfst (map_sum Thrown (map TaskPricing))
                 (parseTaskTiersFromExpr (billingExpr parts) (pm_billing_usage_schema model) True cache1)
          else apfst (map_sum Diagnosed (map TokenPricing)) (parseTiersFromExpr host (billingExpr parts) cache1)))"

definition hasDynamicRequestRules :: "pricing_model \<Rightarrow> pricing_exception + bool" where
  "hasDynamicRequestRules model =
     (if \<not> isDynamicPricingModel model then Inr False
      else
        bind_result (split_model model) (\<lambda>parts.
          map_sum Thrown (\<lambda>rules. case rules of Some gs \<Rightarrow> gs \<noteq> [] | None \<Rightarrow> False) (tryParseRequestRuleExpr (requestRuleExpr parts))))"

record dynamic_pricing_summary =
  ds_tiers :: "dynamic_tier list"
  ds_tier :: "dynamic_tier option"
  ds_tierCount :: nat
  ds_hasRequestRules :: bool
  ds_isSpecialExpression :: bool
  ds_rawExpression :: js_string
  ds_entries :: "dynamic_price_entry list"
  ds_primaryEntries :: "dynamic_price_entry list"
  ds_secondaryEntries :: "dynamic_price_entry list"
  ds_isTaskUsage :: bool
  ds_isTimePricing :: bool
  ds_isMixedBilling :: bool

definition with_range :: "js_string \<Rightarrow> dynamic_tier \<Rightarrow> js_num \<times> js_num \<Rightarrow> js_num \<times> js_num" where
  "with_range field tier bounds =
     (case tier of
        TokenPricing _ \<Rightarrow> bounds
      | TaskPricing t \<Rightarrow>
          (case map_of (tk_unit_prices t) field of
             Some x \<Rightarrow> if is_shown (Some x) then (num_min (fst bounds) x, num_max (snd bounds) x) else bounds
           | None \<Rightarrow> bounds))"

definition price_range :: "dynamic_tier list \<Rightarrow> js_string \<Rightarrow> (js_num \<times> js_num) option" where
  "price_range tiers field =
     (case fold (with_range field) tiers (PosInf, NegInf) of (low, high) \<Rightarrow>
        if is_finite low \<and> is_finite high then Some (low, high) else None)"

definition add_range ::
  "intl_format \<Rightarrow> stored_currency option \<Rightarrow> dynamic_price_options \<Rightarrow> collation \<Rightarrow> usage_schema option \<Rightarrow> dynamic_tier list \<Rightarrow>
   dynamic_price_entry \<Rightarrow> dynamic_price_entry" where
  "add_range intl stored opts collate schema tiers e =
     (if pe_field e \<notin> set (map fst (getTaskNumberFields collate schema)) then e
      else
        (case price_range tiers (pe_field e) of
           None \<Rightarrow> e
         | Some (low, high) \<Rightarrow>
             if num_eq low high then e
             else e\<lparr>pe_formattedRange :=
                      Some (formatTaskUsageUnitPrice intl stored low opts @ [32, 8211, 32] @
                            formatTaskUsageUnitPrice intl stored high opts)\<rparr>))"

definition is_request_tier :: "dynamic_tier \<Rightarrow> bool" where
  "is_request_tier tier = (case tier of TokenPricing t \<Rightarrow> pt_billingUnit t = Some UnitRequest | TaskPricing _ \<Rightarrow> False)"

definition is_token_tier :: "dynamic_tier \<Rightarrow> bool" where
  "is_token_tier tier = (case tier of TokenPricing t \<Rightarrow> pt_billingUnit t \<noteq> Some UnitRequest | TaskPricing _ \<Rightarrow> False)"

text \<open>The entries of a summary and whether both units occur, from all the tiers and the ones that are summarised.\<close>

definition summary_entries ::
  "intl_format \<Rightarrow> stored_currency option \<Rightarrow> collation \<Rightarrow> pricing_model \<Rightarrow> dynamic_price_options \<Rightarrow> dynamic_tier list \<Rightarrow>
   dynamic_tier list \<Rightarrow> dynamic_tier option \<Rightarrow> dynamic_price_entry list \<times> bool" where
  "summary_entries intl stored collate model opts tiers summaryTiers tier =
     (let own = getDynamicPriceEntries intl stored collate tier (opts\<lparr>do_usageSchema := pm_billing_usage_schema model\<rparr>) in
      if isTaskUsagePricingModel model
      then (map (add_range intl stored opts collate (pm_billing_usage_schema model) tiers) own, False)
      else
        (case (List.find is_token_tier summaryTiers, List.find is_request_tier summaryTiers) of
           (Some a, Some b) \<Rightarrow>
             (getDynamicPriceEntries intl stored collate (Some a) opts @ getDynamicPriceEntries intl stored collate (Some b) opts, True)
         | _ \<Rightarrow> (own, False)))"

definition is_primary_entry :: "bool \<Rightarrow> dynamic_price_entry \<Rightarrow> bool" where
  "is_primary_entry isTaskUsage e =
     (if isTaskUsage then pe_unit e \<noteq> RequestPrice else pe_unit e = RequestPrice \<or> is_primary e)"

definition is_secondary_entry :: "bool \<Rightarrow> dynamic_price_entry \<Rightarrow> bool" where
  "is_secondary_entry isTaskUsage e =
     (if isTaskUsage then pe_unit e = RequestPrice else pe_unit e \<noteq> RequestPrice \<and> \<not> is_primary e)"

definition getDynamicPricingSummary ::
  "intl_format \<Rightarrow> stored_currency option \<Rightarrow> js_host \<Rightarrow> collation \<Rightarrow> pricing_model \<Rightarrow> dynamic_price_options \<Rightarrow> compile_cache \<Rightarrow>
   (pricing_exception + dynamic_pricing_summary option) \<times> compile_cache" where
  "getDynamicPricingSummary intl stored host collate model opts cache =
     (if \<not> isDynamicPricingModel model then (Inr None, cache)
      else
        bind_cached (getDynamicPricingTiers host model cache) (\<lambda>tiers cache1.
        bind_cached (split_model model, cache1) (\<lambda>parts cache2.
        bind_cached
          (if isTaskUsagePricingModel model then (Inr None, cache2)
           else apfst (map_sum Diagnosed (map_option (map TokenPricing)))
                  (getCurrentTimePricingTiers host (billingExpr parts) (or_default (do_now opts) (Some (current_time host))) cache2))
          (\<lambda>timeTiers cache3.
             let isTaskUsage = isTaskUsagePricingModel model;
                 summaryTiers = or_default timeTiers tiers;
                 tier = (if summaryTiers = [] then None else Some (if isTaskUsage then last summaryTiers else hd summaryTiers));
                 (entries, mixed) = summary_entries intl stored collate model opts tiers summaryTiers tier in
             bind_cached (hasDynamicRequestRules model, cache3) (\<lambda>rules cache4.
               (Inr (Some
                  \<lparr>ds_tiers = tiers, ds_tier = tier, ds_tierCount = length tiers, ds_hasRequestRules = rules,
                   ds_isSpecialExpression = (trim (billing_expr_of model) \<noteq> [] \<and> tiers = []),
                   ds_rawExpression = billing_expr_of model, ds_entries = entries,
                   ds_primaryEntries = filter (is_primary_entry isTaskUsage) entries,
                   ds_secondaryEntries = filter (is_secondary_entry isTaskUsage) entries,
                   ds_isTaskUsage = isTaskUsage, ds_isTimePricing = (timeTiers \<noteq> None), ds_isMixedBilling = mixed\<rparr>), cache4))))))"

definition getCardExamplePrice ::
  "intl_format \<Rightarrow> stored_currency option \<Rightarrow> js_host \<Rightarrow> collation \<Rightarrow> pricing_model \<Rightarrow> dynamic_price_options \<Rightarrow> compile_cache \<Rightarrow>
   (pricing_exception + (js_string \<times> js_string) option) \<times> compile_cache" where
  "getCardExamplePrice intl stored host collate model opts cache =
     (case (isTaskUsagePricingModel model, pm_billing_usage_schema model, pm_billing_usage_examples model) of
        (True, Some schema, Some (firstExample # _)) \<Rightarrow>
          bind_cached (split_model model, cache) (\<lambda>parts cache1.
          bind_cached (apfst (map_sum Thrown id) (tryParseTaskVisualConfig collate (Some (billingExpr parts)) schema cache1))
            (\<lambda>config cache2.
               case config of
                 None \<Rightarrow> (Inr None, cache2)
               | Some c \<Rightarrow>
                   (case evaluateTaskVisualConfig host c (ue_facts firstExample) (Some schema) cache2 of
                      (None, cache3) \<Rightarrow> (Inr None, cache3)
                    | (Some result, cache3) \<Rightarrow>
                        (Inr (Some (ue_label firstExample, formatTaskUsageUnitPrice intl stored (pv_total result) opts)), cache3))))
      | _ \<Rightarrow> (Inr None, cache))"

end
