(* ===== verification/Model_List_Correct.thy ===== *)
theory Model_List_Correct
  imports Model_List Number_Roundtrip "HOL-Library.Multiset"
begin

section \<open>The list of models\<close>

text \<open>
  The sort of the language is stated as a contract over comparisons: for a comparison that
  orders the elements of a set, sorting permutes a list of them, orders it and keeps the order of
  equal elements. The comparisons by subtraction of prices satisfy it because the difference of
  two doubles is never rounded to zero.
\<close>

subsection \<open>Sorting by a comparison\<close>

lemma insert_mset: "mset (insert_sorted gt x ys) = add_mset x (mset ys)"
  by (induction ys) auto

lemma js_sort_mset: "mset (js_sort gt xs) = mset xs"
  by (induction xs) (simp_all add: js_sort_def insert_mset)

locale comparison =
  fixes gt :: "'a \<Rightarrow> 'a \<Rightarrow> bool" and carrier :: "'a set"
  assumes asym: "x \<in> carrier \<Longrightarrow> y \<in> carrier \<Longrightarrow> gt x y \<Longrightarrow> \<not> gt y x"
    and le_trans: "x \<in> carrier \<Longrightarrow> y \<in> carrier \<Longrightarrow> z \<in> carrier \<Longrightarrow> \<not> gt x y \<Longrightarrow> \<not> gt y z \<Longrightarrow> \<not> gt x z"
begin

lemma sort_set: "set (js_sort gt xs) = set xs"
  by (metis js_sort_mset set_mset_mset)

lemma insert_ordered:
  "x \<in> carrier \<Longrightarrow> set ys \<subseteq> carrier \<Longrightarrow> sorted_wrt (\<lambda>a b. \<not> gt a b) ys \<Longrightarrow> sorted_wrt (\<lambda>a b. \<not> gt a b) (insert_sorted gt x ys)"
proof (induction ys)
  case (Cons y ys)
  have in_set: "z = x \<or> z \<in> set ys" if "z \<in> set (insert_sorted gt x ys)" for z
    using that insert_mset [of gt x ys] by (metis insert_iff set_mset_add_mset_insert set_mset_mset)
  show ?case
  proof (cases "gt x y")
    case True
    have "\<not> gt y z" if "z \<in> set (insert_sorted gt x ys)" for z
      using in_set [OF that] Cons.prems True asym [of x y] by auto
    with True Cons show ?thesis by simp
  next
    case False
    have "\<not> gt x z" if "z \<in> set ys" for z
      using le_trans [of x y z] that Cons.prems False by auto
    with False Cons.prems show ?thesis by simp
  qed
qed simp

lemma sort_ordered: "set xs \<subseteq> carrier \<Longrightarrow> sorted_wrt (\<lambda>a b. \<not> gt a b) (js_sort gt xs)"
proof (induction xs)
  case (Cons x xs)
  with insert_ordered [of x "js_sort gt xs"] sort_set [of xs] show ?case by (simp add: js_sort_def)
qed (simp add: js_sort_def)

text \<open>The elements that compare equal to \<open>a\<close> keep their order.\<close>

lemma insert_stable:
  "a \<in> carrier \<Longrightarrow> x \<in> carrier \<Longrightarrow> set ys \<subseteq> carrier \<Longrightarrow>
   filter (\<lambda>b. \<not> gt a b \<and> \<not> gt b a) (insert_sorted gt x ys) = filter (\<lambda>b. \<not> gt a b \<and> \<not> gt b a) (x # ys)"
proof (induction ys)
  case (Cons y ys)
  have "\<not> (\<not> gt a y \<and> \<not> gt y a)" if "gt x y" "\<not> gt a x \<and> \<not> gt x a"
    using le_trans [of x a y] that Cons.prems by auto
  with Cons show ?case by auto
qed simp

lemma sort_stable:
  assumes "a \<in> carrier"
  shows "set xs \<subseteq> carrier \<Longrightarrow> filter (\<lambda>b. \<not> gt a b \<and> \<not> gt b a) (js_sort gt xs) = filter (\<lambda>b. \<not> gt a b \<and> \<not> gt b a) xs"
proof (induction xs)
  case (Cons x xs)
  with insert_stable [OF assms, of x "js_sort gt xs"] sort_set [of xs] show ?case by (simp add: js_sort_def)
qed (simp add: js_sort_def)

end

subsection \<open>Differences of doubles\<close>

lemma double_multiple:
  assumes "to_double q = Fin q"
  shows "\<exists>k. q = of_int k * 2 powi (- 1074)"
proof -
  have pos: "\<exists>k. p = of_int k * 2 powi (- 1074)" if p: "to_double p = Fin p" "0 < p" for p
  proof -
    obtain m where m: "p = of_int m * 2 powi double_exponent p" using double_cases [OF p] by blast
    obtain k where "2 powi double_exponent p = of_int k * (2 :: rat) powi (- 1074)"
      using powi_multiple [of "- 1074" "double_exponent p"] by (auto simp: double_exponent_def)
    with m have "p = of_int (m * k) * 2 powi (- 1074)" by (simp add: mult.assoc)
    then show ?thesis by blast
  qed
  consider "q = 0" | "0 < q" | "q < 0" by linarith
  then show ?thesis
  proof cases
    case 1
    then show ?thesis by (intro exI [of _ 0]) simp
  next
    case 2
    with pos assms show ?thesis by blast
  next
    case 3
    have "is_double (num_neg (Fin q))" using assms by (intro num_neg_double) simp
    with 3 have "to_double (- q) = Fin (- q)" by simp
    with pos [of "- q"] 3 obtain k where "- q = of_int k * 2 powi (- 1074)" by auto
    then have "q = of_int (- k) * 2 powi (- 1074)" by (simp add: minus_equation_iff [of q])
    then show ?thesis by blast
  qed
qed

lemma to_double_positive:
  assumes "d = of_int k * 2 powi (- 1074)" and "0 < d"
  shows "num_lt (Fin 0) (to_double d)"
proof -
  let ?e = "double_exponent d"
  have "round_even (d / 2 powi ?e) \<noteq> 0"
  proof (cases "?e = - 1074")
    case True
    have quotient: "x / u = y" if "x = y * u" "0 < u" for x y u :: rat using that by simp
    have "d / 2 powi ?e = of_int k" unfolding True using assms(1) powi_pos by (rule quotient)
    moreover have "k \<noteq> 0" using assms by auto
    ultimately show ?thesis by (simp only: round_even_of_int not_False_eq_True)
  next
    case False
    then have e: "?e = ilog 2 d - 52" using assms(2) by (auto simp: double_exponent_def)
    have "2 powi ilog 2 d \<le> d" using ilog_bounds(1) [of 2 d] assms(2) by simp
    then have "2 powi (ilog 2 d) / 2 powi ?e \<le> d / 2 powi ?e" by (simp add: divide_right_mono)
    moreover have "(2 :: rat) powi (ilog 2 d) / 2 powi ?e = 2 powi 52" unfolding e by (simp flip: power_int_diff)
    ultimately have "2 powi 52 \<le> d / 2 powi ?e" by (simp only:)
    then have "1 \<le> d / 2 powi ?e" by (rule order_trans [rotated]) simp
    then have "1 \<le> \<lfloor>d / 2 powi ?e\<rfloor>" by (simp only: le_floor_iff of_int_1)
    moreover have "\<lfloor>x\<rfloor> \<le> round_even x" for x by (simp add: round_even_def Let_def)
    ultimately show ?thesis by (metis not_one_le_zero order_trans)
  qed
  moreover have "0 \<le> round_even (d / 2 powi ?e)" using assms(2) by (intro round_even_nonneg) simp
  ultimately have "0 < round_mantissa d" by (simp add: round_mantissa_def Let_def)
  with assms(2) show ?thesis by (auto simp: to_double_def Let_def)
qed

lemma difference_positive:
  assumes "is_double x" and "is_double y" and "x \<noteq> NaN" and "y \<noteq> NaN"
  shows "num_lt (Fin 0) (num_sub x y) \<longleftrightarrow> num_lt y x"
proof (cases "is_finite x \<and> is_finite y")
  case True
  let ?d = "num_value x - num_value y"
  have mult: "\<exists>k. num_value z = of_int k * 2 powi (- 1074)" if "is_double z" for z
  proof (cases z)
    case (Fin q)
    with that double_multiple [of q] show ?thesis by simp
  qed (auto intro!: exI [of _ 0])
  obtain i j where "num_value x = of_int i * 2 powi (- 1074)" "num_value y = of_int j * 2 powi (- 1074)"
    using mult [OF assms(1)] mult [OF assms(2)] by blast
  then have d: "?d = of_int (i - j) * 2 powi (- 1074)" by (simp only: of_int_diff left_diff_distrib)
  have neg: "num_value (num_neg y) = - num_value y" "is_finite (num_neg y)" "num_neg y \<noteq> NaN" using True by (cases y; simp)+
  have sub: "num_sub x y = (if x = NegZero \<and> num_neg y = NegZero then NegZero else to_double ?d)"
    using True neg assms(3) by (simp add: num_sub_def num_add_def)
  have lt: "num_lt y x \<longleftrightarrow> 0 < ?d" using True by (cases x; cases y) auto
  show ?thesis
  proof (cases "0 < ?d")
    case pos: True
    then have "\<not> (x = NegZero \<and> num_neg y = NegZero)" by (cases y) (auto split: if_splits)
    with to_double_positive [OF d pos] sub lt pos show ?thesis by simp
  next
    case False
    have "\<not> num_lt (Fin 0) (to_double e)" if "\<not> 0 < e" for e
    proof -
      have "round_mantissa e \<le> 0"
        using round_mantissa_nonneg [of "- e"] that
        by (simp add: round_mantissa_def double_exponent_def Let_def round_even_minus)
      with that show ?thesis by (auto simp: to_double_def Let_def)
    qed
    with False sub lt show ?thesis by simp
  qed
next
  case False
  with assms(3,4) show ?thesis by (cases x; cases y) (simp_all add: num_sub_def num_add_def)
qed

subsection \<open>Orders of the list\<close>

definition has_price :: "pricing_model \<Rightarrow> bool" where
  "has_price m \<longleftrightarrow> is_double (getModelPrice m) \<and> getModelPrice m \<noteq> NaN"

lemma num_lt_asym: "num_lt x y \<Longrightarrow> \<not> num_lt y x"
  by (cases x; cases y) auto

lemma not_num_lt_trans: "x \<noteq> NaN \<Longrightarrow> y \<noteq> NaN \<Longrightarrow> z \<noteq> NaN \<Longrightarrow> \<not> num_lt y x \<Longrightarrow> \<not> num_lt z y \<Longrightarrow> \<not> num_lt z x"
  by (cases x; cases y; cases z) auto

interpretation cheapest_first: comparison "\<lambda>a b. num_lt (Fin 0) (num_sub (getModelPrice a) (getModelPrice b))" "{m. has_price m}"
proof (unfold_locales, goal_cases)
  case (1 x y)
  then show ?case using num_lt_asym by (simp add: has_price_def difference_positive)
next
  case (2 x y z)
  then show ?case using not_num_lt_trans [of "getModelPrice x" "getModelPrice y" "getModelPrice z"]
    by (simp add: has_price_def difference_positive)
qed

interpretation dearest_first: comparison "\<lambda>a b. num_lt (Fin 0) (num_sub (getModelPrice b) (getModelPrice a))" "{m. has_price m}"
proof (unfold_locales, goal_cases)
  case (1 x y)
  then show ?case using num_lt_asym by (simp add: has_price_def difference_positive)
next
  case (2 x y z)
  then show ?case using not_num_lt_trans [of "getModelPrice z" "getModelPrice y" "getModelPrice x"]
    by (simp add: has_price_def difference_positive)
qed

lemma sortModels_mset: "mset (sortModels collate models sortBy) = mset models"
  by (simp add: sortModels_def js_sort_mset)

text \<open>What the filters select.\<close>

definition selected :: "(js_string \<Rightarrow> js_string) \<Rightarrow> model_filters \<Rightarrow> pricing_model \<Rightarrow> bool" where
  "selected unicode f m \<longleftrightarrow>
     (mf_search f \<noteq> [] \<longrightarrow>
        (\<exists>s\<in>{Some (pm_model_name m), pm_description m, pm_tags m, pm_vendor_name m}.
           mentions unicode (to_lower_case unicode (mf_search f)) s)) \<and>
     (mf_vendor f \<noteq> FILTER_ALL \<longrightarrow> pm_vendor_name m = Some (mf_vendor f)) \<and>
     (mf_group f \<noteq> FILTER_ALL \<longrightarrow> mf_group f \<in> set (enabled_groups m)) \<and>
     (mf_quotaType f \<noteq> FILTER_ALL \<longrightarrow>
        (if mf_quotaType f = js ''task'' then hasTaskUsageSchema m
         else \<not> hasTaskUsageSchema m \<and>
           num_eq (pm_quota_type m) (if mf_quotaType f = js ''token'' then QUOTA_TOKEN else QUOTA_REQUEST))) \<and>
     (mf_endpointType f \<noteq> FILTER_ALL \<longrightarrow>
        (\<exists>ts. pm_supported_endpoint_types m = Some ts \<and> mf_endpointType f \<in> set ts)) \<and>
     (mf_tag f \<noteq> FILTER_ALL \<longrightarrow> to_lower_case unicode (mf_tag f) \<in> to_lower_case unicode ` set (parseTags (pm_tags m)))"

lemma filters_select:
  "filterByTag unicode (filterByEndpointType (filterByQuotaType (filterByGroup (filterByVendor (filterBySearch unicode models
     (mf_search f)) (mf_vendor f)) (mf_group f)) (mf_quotaType f)) (mf_endpointType f)) (mf_tag f) = filter (selected unicode f) models"
proof -
  have quota: "filterByQuotaType xs q = filter (\<lambda>m. q \<noteq> FILTER_ALL \<longrightarrow> (if q = js ''task'' then hasTaskUsageSchema m
      else \<not> hasTaskUsageSchema m \<and> num_eq (pm_quota_type m) (if q = js ''token'' then QUOTA_TOKEN else QUOTA_REQUEST))) xs" for xs q
    by (auto simp: filterByQuotaType_def FILTER_ALL_def intro!: filter_cong)
  have search: "filterBySearch unicode xs q = filter (\<lambda>m. q \<noteq> [] \<longrightarrow>
      (\<exists>s\<in>{Some (pm_model_name m), pm_description m, pm_tags m, pm_vendor_name m}. mentions unicode (to_lower_case unicode q) s)) xs" for xs q
    by (simp add: filterBySearch_def Let_def)
  have vendor: "filterByVendor xs v = filter (\<lambda>m. v \<noteq> FILTER_ALL \<longrightarrow> pm_vendor_name m = Some v) xs" for xs v
    by (simp add: filterByVendor_def)
  have grp: "filterByGroup xs g = filter (\<lambda>m. g \<noteq> FILTER_ALL \<longrightarrow> g \<in> set (enabled_groups m)) xs" for xs g
    by (simp add: filterByGroup_def)
  have endp: "filterByEndpointType xs e = filter (\<lambda>m. e \<noteq> FILTER_ALL \<longrightarrow>
      (\<exists>ts. pm_supported_endpoint_types m = Some ts \<and> e \<in> set ts)) xs" for xs e
    by (auto simp: filterByEndpointType_def FILTER_ALL_def intro!: filter_cong split: option.splits)
  have tag: "filterByTag unicode xs t = filter (\<lambda>m. t \<noteq> FILTER_ALL \<longrightarrow>
      to_lower_case unicode t \<in> to_lower_case unicode ` set (parseTags (pm_tags m))) xs" for xs t
    by (simp add: filterByTag_def)
  show ?thesis
    unfolding tag endp grp vendor search quota filter_filter
    by (rule filter_cong) (simp_all only: selected_def conj_assoc)
qed

text \<open>The list shows the selected models, each as often as it is given; by price they are ordered and equal prices keep the given order.\<close>

theorem model_list_correct:
  "mset (filterAndSortModels unicode collate models f) = filter_mset (selected unicode f) (mset models)"
  unfolding filterAndSortModels_def Let_def filters_select by (simp add: sortModels_mset)

theorem model_list_ordered:
  assumes "\<forall>m\<in>set models. has_price m"
  shows "mf_sortBy f = js ''price-low'' \<Longrightarrow>
      sorted_wrt (\<lambda>a b. \<not> num_lt (getModelPrice b) (getModelPrice a)) (filterAndSortModels unicode collate models f)"
    and "mf_sortBy f = js ''price-high'' \<Longrightarrow>
      sorted_wrt (\<lambda>a b. \<not> num_lt (getModelPrice a) (getModelPrice b)) (filterAndSortModels unicode collate models f)"
proof -
  let ?xs = "filter (selected unicode f) models"
  have sub: "set ?xs \<subseteq> {m. has_price m}" using assms by auto
  then have diff: "num_lt (Fin 0) (num_sub (getModelPrice a) (getModelPrice b)) \<longleftrightarrow> num_lt (getModelPrice b) (getModelPrice a)"
    if "a \<in> set ?xs" "b \<in> set ?xs" for a b
    using that by (intro difference_positive) (auto simp: has_price_def)
  show "sorted_wrt (\<lambda>a b. \<not> num_lt (getModelPrice b) (getModelPrice a)) (filterAndSortModels unicode collate models f)"
    if "mf_sortBy f = js ''price-low''"
  proof -
    have "filterAndSortModels unicode collate models f =
        js_sort (\<lambda>a b. num_lt (Fin 0) (num_sub (getModelPrice a) (getModelPrice b))) ?xs"
      using that unfolding filterAndSortModels_def Let_def filters_select by (simp add: sortModels_def)
    moreover have "set (filterAndSortModels unicode collate models f) = set ?xs" using calculation cheapest_first.sort_set by simp
    ultimately show ?thesis using sorted_wrt_mono_rel [OF _ cheapest_first.sort_ordered [OF sub]] diff by simp
  qed
  show "sorted_wrt (\<lambda>a b. \<not> num_lt (getModelPrice a) (getModelPrice b)) (filterAndSortModels unicode collate models f)"
    if "mf_sortBy f = js ''price-high''"
  proof -
    have "filterAndSortModels unicode collate models f =
        js_sort (\<lambda>a b. num_lt (Fin 0) (num_sub (getModelPrice b) (getModelPrice a))) ?xs"
      using that unfolding filterAndSortModels_def Let_def filters_select by (simp add: sortModels_def)
    moreover have "set (filterAndSortModels unicode collate models f) = set ?xs" using calculation dearest_first.sort_set by simp
    ultimately show ?thesis using sorted_wrt_mono_rel [OF _ dearest_first.sort_ordered [OF sub]] diff by simp
  qed
qed

definition equal_price :: "pricing_model \<Rightarrow> pricing_model \<Rightarrow> bool" where
  "equal_price a b \<longleftrightarrow> \<not> num_lt (getModelPrice a) (getModelPrice b) \<and> \<not> num_lt (getModelPrice b) (getModelPrice a)"

theorem model_list_stable:
  assumes "\<forall>m\<in>set models. has_price m" and "mf_sortBy f \<in> {js ''price-low'', js ''price-high''}" and "a \<in> set models"
  shows "filter (equal_price a) (filterAndSortModels unicode collate models f) = filter (equal_price a) (filter (selected unicode f) models)"
proof -
  let ?xs = "filter (selected unicode f) models" and ?ys = "filterAndSortModels unicode collate models f"
  have sub: "set ?xs \<subseteq> {m. has_price m}" and a: "a \<in> {m. has_price m}" using assms(1,3) by auto
  have eq: "filter (equal_price a) zs = filter (\<lambda>b. \<not> num_lt (Fin 0) (num_sub (getModelPrice a) (getModelPrice b)) \<and>
        \<not> num_lt (Fin 0) (num_sub (getModelPrice b) (getModelPrice a))) zs"
    "filter (equal_price a) zs = filter (\<lambda>b. \<not> num_lt (Fin 0) (num_sub (getModelPrice b) (getModelPrice a)) \<and>
        \<not> num_lt (Fin 0) (num_sub (getModelPrice a) (getModelPrice b))) zs" if "set zs \<subseteq> {m. has_price m}" for zs
    using that a by (intro filter_cong; auto simp: equal_price_def has_price_def difference_positive)+
  have list: "?ys = sortModels collate ?xs (mf_sortBy f)"
    unfolding filterAndSortModels_def Let_def filters_select ..
  consider "mf_sortBy f = js ''price-low''" | "mf_sortBy f = js ''price-high''" using assms(2) by auto
  then show ?thesis
  proof cases
    case 1
    then have "?ys = js_sort (\<lambda>a b. num_lt (Fin 0) (num_sub (getModelPrice a) (getModelPrice b))) ?xs"
      unfolding list by (simp add: sortModels_def)
    moreover have "set ?ys \<subseteq> {m. has_price m}" using calculation sub cheapest_first.sort_set [of ?xs] by (simp only:)
    ultimately show ?thesis unfolding eq(1) [OF sub] using eq(1) [of ?ys] cheapest_first.sort_stable [OF a sub] by (simp only:)
  next
    case 2
    then have "?ys = js_sort (\<lambda>a b. num_lt (Fin 0) (num_sub (getModelPrice b) (getModelPrice a))) ?xs"
      unfolding list by (simp add: sortModels_def)
    moreover have "set ?ys \<subseteq> {m. has_price m}" using calculation sub dearest_first.sort_set [of ?xs] by (simp only:)
    ultimately show ?thesis unfolding eq(2) [OF sub] using eq(2) [of ?ys] dearest_first.sort_stable [OF a sub] by (simp only:)
  qed
qed

subsection \<open>The group ratio\<close>

definition configured_ratios :: "pricing_model \<Rightarrow> js_num set" where
  "configured_ratios model =
     {r. is_finite r \<and> (\<exists>g\<in>set (enabled_groups model). \<exists>rs. pm_group_ratio model = Some rs \<and> map_of rs g = Some r)}"

lemma fold_lower_ratio:
  "m = PosInf \<or> is_finite m \<Longrightarrow>
   (fold (lower_ratio rs) gs m = m \<or> is_finite (fold (lower_ratio rs) gs m) \<and> (\<exists>g\<in>set gs. map_of rs g = Some (fold (lower_ratio rs) gs m))) \<and>
   \<not> num_lt m (fold (lower_ratio rs) gs m) \<and>
   (\<forall>g\<in>set gs. \<forall>r. map_of rs g = Some r \<longrightarrow> is_finite r \<longrightarrow> \<not> num_lt r (fold (lower_ratio rs) gs m))"
proof (induction gs arbitrary: m)
  case Nil
  show ?case by (cases m) simp_all
next
  case (Cons g gs)
  let ?l = "lower_ratio rs g m"
  let ?r = "fold (lower_ratio rs) gs ?l"
  have l: "?l = PosInf \<or> is_finite ?l" using Cons.prems by (auto simp: lower_ratio_def split: option.split)
  note ih = Cons.IH [OF l]
  have r: "?r = PosInf \<or> is_finite ?r" using ih l by auto
  have step: "?l = m \<or> map_of rs g = Some ?l \<and> is_finite ?l" "\<not> num_lt m ?l"
    using Cons.prems num_lt_asym by (auto simp: lower_ratio_def split: option.split)
  have low: "\<not> num_lt x ?l" if "map_of rs g = Some x" "is_finite x" for x
    using that Cons.prems num_lt_asym by (auto simp: lower_ratio_def)
  have "?l \<noteq> NaN" "?r \<noteq> NaN" using l r by auto
  then have trans: "\<not> num_lt x ?r" if "\<not> num_lt x ?l" "x \<noteq> NaN" for x
    using not_num_lt_trans [of ?r ?l x] that ih by blast
  have "m \<noteq> NaN" using Cons.prems by auto
  then have "\<not> num_lt m ?r" by (rule trans [OF step(2)])
  moreover have "\<not> num_lt x ?r" if "map_of rs g = Some x" "is_finite x" for x
    using that by (intro trans [OF low [OF that]]) auto
  ultimately show ?case using ih step(1) by auto
qed

theorem best_ratio:
  "(configured_ratios model = {} \<longrightarrow> getDisplayGroupRatio model None = Fin 1) \<and>
   (configured_ratios model \<noteq> {} \<longrightarrow> getDisplayGroupRatio model None \<in> configured_ratios model \<and>
      (\<forall>r\<in>configured_ratios model. \<not> num_lt r (getDisplayGroupRatio model None)))"
proof -
  define rs where "rs = (case pm_group_ratio model of Some r \<Rightarrow> r | None \<Rightarrow> [])"
  define m where "m = fold (lower_ratio rs) (enabled_groups model) PosInf"
  have ratios: "configured_ratios model = {r. is_finite r \<and> (\<exists>g\<in>set (enabled_groups model). map_of rs g = Some r)}"
    by (auto simp: configured_ratios_def rs_def split: option.splits)
  have result: "getDisplayGroupRatio model None = (if m = PosInf then Fin 1 else m)"
    by (simp add: getDisplayGroupRatio_def Let_def m_def rs_def)
  have f: "m = PosInf \<or> m \<in> configured_ratios model" "\<And>r. r \<in> configured_ratios model \<Longrightarrow> \<not> num_lt r m"
    using fold_lower_ratio [of PosInf rs "enabled_groups model"] unfolding ratios m_def by auto
  have "configured_ratios model = {}" if "m = PosInf"
  proof -
    have "num_lt r m" if "is_finite r" for r using \<open>m = PosInf\<close> that by (cases r) simp_all
    then show ?thesis using f(2) ratios by auto
  qed
  moreover have "m \<noteq> PosInf" if "m \<in> configured_ratios model" using that ratios by auto
  ultimately show ?thesis using f result by auto
qed

end
