(* ===== verification/Price_Correct.thy ===== *)
theory Price_Correct
  imports Model_Price Model_List_Correct
begin

section \<open>The shown prices\<close>

subsection \<open>Entries of a token tier\<close>

interpretation primary_first: comparison "\<lambda>a b. \<not> is_primary a \<and> is_primary b" UNIV
  by unfold_locales auto

lemma pricing_vars: "map bv_key BILLING_PRICING_VARS = [TV_p, TV_c, TV_cr, TV_cc, TV_cc1h, TV_img, TV_img_o, TV_ai, TV_ao]"
  by (simp add: BILLING_PRICING_VARS_def BILLING_VARS_def)

lemma pricing_var_fields: "list_all (\<lambda>v. bv_field v = Some (field_of (bv_key v))) BILLING_PRICING_VARS"
  by code_simp

lemma pricing_var_exists: "w \<noteq> TV_len \<Longrightarrow> \<exists>v\<in>set BILLING_PRICING_VARS. bv_key v = w"
proof -
  assume "w \<noteq> TV_len"
  then have "w \<in> set (map bv_key BILLING_PRICING_VARS)" unfolding pricing_vars by (cases w) simp_all
  then show ?thesis by auto
qed

lemma variable_text_inject: "variable_text v = variable_text w \<longleftrightarrow> v = w"
  by (cases v; cases w) simp_all

definition priced_entry :: "intl_format \<Rightarrow> stored_currency option \<Rightarrow> dynamic_price_options \<Rightarrow> billing_var \<Rightarrow> js_num \<Rightarrow> dynamic_price_entry" where
  "priced_entry intl stored opts v x =
     \<lparr>pe_key = variable_text (bv_key v), pe_field = field_of (bv_key v), pe_label = bv_label v, pe_shortLabel = bv_shortLabel v,
      pe_labelKind = I18n, pe_value = x, pe_formatted = formatDynamicUnitPrice intl stored x opts,
      pe_formattedRange = None, pe_unit = UsagePrice U_token, pe_variable = Some v\<rparr>"

lemma priced_entry_simps [simp]:
  "pe_key (priced_entry intl stored opts v x) = variable_text (bv_key v)" "pe_value (priced_entry intl stored opts v x) = x"
  "pe_formatted (priced_entry intl stored opts v x) = formatDynamicUnitPrice intl stored x opts"
  by (simp_all add: priced_entry_def)

lemma variable_entry_iff:
  assumes "distinct (map fst (tt_prices t))" and "bv_field v = Some (field_of (bv_key v))"
  shows "e \<in> set (variable_entry intl stored (mapTokenTier t txt') opts v) \<longleftrightarrow>
    (\<exists>x. (bv_key v, x) \<in> set (tt_prices t) \<and> is_shown (Some x) \<and>
       e = priced_entry intl stored opts v x)"
  using assms map_of_eq_Some_iff [OF assms(1)]
  by (auto simp: variable_entry_def priced_entry_def mapped_price [OF assms(1)] split: option.split)

theorem entries_show_prices:
  assumes t: "distinct (map fst (tt_prices t))" "TV_len \<notin> fst ` set (tt_prices t)" "tt_unit t = UnitToken"
    and x: "\<forall>(v, x)\<in>set (tt_prices t). is_finite x \<and> \<not> num_lt x (Fin 0)"
  shows "(v, x) \<in> set (tt_prices t) \<longleftrightarrow>
      (\<exists>e\<in>set (getDynamicPriceEntries intl stored collate (Some (TokenPricing (mapTokenTier t txt'))) opts).
         pe_key e = variable_text v \<and> pe_value e = x \<and> pe_formatted e = formatDynamicUnitPrice intl stored x opts)"
    and "sorted_wrt (\<lambda>a b. is_primary b \<longrightarrow> is_primary a)
      (getDynamicPriceEntries intl stored collate (Some (TokenPricing (mapTokenTier t txt'))) opts)"
proof -
  let ?es = "getDynamicPriceEntries intl stored collate (Some (TokenPricing (mapTokenTier t txt'))) opts"
  let ?raw = "concat (map (variable_entry intl stored (mapTokenTier t txt') opts) BILLING_PRICING_VARS)"
  have es: "?es = js_sort (\<lambda>a b. \<not> is_primary a \<and> is_primary b) ?raw"
    using t(3) by (simp add: getDynamicPriceEntries_def mapTokenTier_def)
  have field: "bv_field u = Some (field_of (bv_key u))" if "u \<in> set BILLING_PRICING_VARS" for u
    using pricing_var_fields that by (simp add: list_all_iff)
  have set_es: "set ?es = (\<Union>u\<in>set BILLING_PRICING_VARS. set (variable_entry intl stored (mapTokenTier t txt') opts u))"
    unfolding es primary_first.sort_set by simp
  show "(v, x) \<in> set (tt_prices t) \<longleftrightarrow>
      (\<exists>e\<in>set ?es. pe_key e = variable_text v \<and> pe_value e = x \<and> pe_formatted e = formatDynamicUnitPrice intl stored x opts)"
  proof
    assume vx: "(v, x) \<in> set (tt_prices t)"
    then have "v \<noteq> TV_len" using t(2) by force
    then obtain u where u: "u \<in> set BILLING_PRICING_VARS" "bv_key u = v" using pricing_var_exists by blast
    moreover have "is_shown (Some x)" using vx assms(4) by (auto simp: is_shown_def)
    ultimately have "\<exists>e\<in>set (variable_entry intl stored (mapTokenTier t txt') opts u).
        pe_key e = variable_text v \<and> pe_value e = x \<and> pe_formatted e = formatDynamicUnitPrice intl stored x opts"
      using vx unfolding Bex_def variable_entry_iff [OF t(1) field [OF u(1)]]
      by (intro exI [of _ "priced_entry intl stored opts u x"]) auto
    with u(1) show "\<exists>e\<in>set ?es. pe_key e = variable_text v \<and> pe_value e = x \<and> pe_formatted e = formatDynamicUnitPrice intl stored x opts"
      unfolding set_es by blast
  next
    assume "\<exists>e\<in>set ?es. pe_key e = variable_text v \<and> pe_value e = x \<and> pe_formatted e = formatDynamicUnitPrice intl stored x opts"
    then obtain e u where u: "u \<in> set BILLING_PRICING_VARS" "e \<in> set (variable_entry intl stored (mapTokenTier t txt') opts u)"
        "pe_key e = variable_text v" "pe_value e = x"
      unfolding set_es by auto
    from u(2-4) show "(v, x) \<in> set (tt_prices t)"
      unfolding variable_entry_iff [OF t(1) field [OF u(1)]] by (auto simp: variable_text_inject)
  qed
  show "sorted_wrt (\<lambda>a b. is_primary b \<longrightarrow> is_primary a) ?es"
    using primary_first.sort_ordered [of ?raw] unfolding es by (auto elim: sorted_wrt_mono_rel [rotated])
qed

subsection \<open>Ranges of task prices\<close>

definition shown_prices :: "dynamic_tier list \<Rightarrow> js_string \<Rightarrow> js_num set" where
  "shown_prices tiers field =
     {x. is_shown (Some x) \<and> (\<exists>t. TaskPricing t \<in> set tiers \<and> map_of (tk_unit_prices t) field = Some x)}"

lemma num_min_cases: "x \<noteq> NaN \<Longrightarrow> y \<noteq> NaN \<Longrightarrow> (num_min x y = x \<or> num_min x y = y) \<and> \<not> num_lt x (num_min x y) \<and> \<not> num_lt y (num_min x y)"
  by (cases x; cases y) (auto simp: num_min_def signed_zero_def)

lemma num_max_cases: "x \<noteq> NaN \<Longrightarrow> y \<noteq> NaN \<Longrightarrow> (num_max x y = x \<or> num_max x y = y) \<and> \<not> num_lt (num_max x y) x \<and> \<not> num_lt (num_max x y) y"
  by (cases x; cases y) (auto simp: num_max_def signed_zero_def)

lemma fold_range:
  assumes "lo \<noteq> NaN" and "hi \<noteq> NaN" and "(l, h) = fold (with_range field) tiers (lo, hi)"
  shows "l \<noteq> NaN \<and> h \<noteq> NaN \<and> (l = lo \<or> l \<in> shown_prices tiers field) \<and> (h = hi \<or> h \<in> shown_prices tiers field) \<and>
    \<not> num_lt lo l \<and> \<not> num_lt h hi \<and> (\<forall>x\<in>shown_prices tiers field. \<not> num_lt x l \<and> \<not> num_lt h x)"
  using assms
proof (induction tiers arbitrary: lo hi)
  case Nil
  then show ?case by (cases lo; cases hi) (auto simp: shown_prices_def)
next
  case (Cons t tiers)
  show ?case
  proof (cases "\<exists>x k. t = TaskPricing k \<and> map_of (tk_unit_prices k) field = Some x \<and> is_shown (Some x)")
    case False
    then have same: "with_range field t (lo, hi) = (lo, hi)"
      by (auto simp: with_range_def split: dynamic_tier.split option.split)
    moreover have "shown_prices (t # tiers) field = shown_prices tiers field" using False by (auto simp: shown_prices_def)
    ultimately show ?thesis using Cons by simp
  next
    case True
    then obtain x k where x: "t = TaskPricing k" "map_of (tk_unit_prices k) field = Some x" "is_shown (Some x)" by blast
    have nan: "x \<noteq> NaN" using x(3) by (auto simp: is_shown_def)
    have step: "with_range field t (lo, hi) = (num_min lo x, num_max hi x)" using x by (simp add: with_range_def)
    have prices: "shown_prices (t # tiers) field = insert x (shown_prices tiers field)" using x by (auto simp: shown_prices_def)
    note mn = num_min_cases [OF Cons.prems(1) nan] and mx = num_max_cases [OF Cons.prems(2) nan]
    have ok: "num_min lo x \<noteq> NaN" "num_max hi x \<noteq> NaN" using mn mx nan Cons.prems by auto
    note ih = Cons.IH [OF ok, simplified]
    have f: "(l, h) = fold (with_range field) tiers (num_min lo x, num_max hi x)" using Cons.prems(3) step by simp
    note r = ih [OF f]
    have low: "\<not> num_lt y l" if "\<not> num_lt y (num_min lo x)" "y \<noteq> NaN" for y
      using not_num_lt_trans [of l "num_min lo x" y] r ok that by auto
    have high: "\<not> num_lt h y" if "\<not> num_lt (num_max hi x) y" "y \<noteq> NaN" for y
      using not_num_lt_trans [of y "num_max hi x" h] r ok that by auto
    show ?thesis
      using r mn mx low [of lo] low [of x] high [of hi] high [of x] nan Cons.prems(1,2) unfolding prices by auto
  qed
qed

theorem price_range_exact:
  "(shown_prices tiers field = {} \<longrightarrow> price_range tiers field = None) \<and>
   (shown_prices tiers field \<noteq> {} \<longrightarrow>
      (\<exists>low high. price_range tiers field = Some (low, high) \<and> low \<in> shown_prices tiers field \<and> high \<in> shown_prices tiers field \<and>
         (\<forall>x\<in>shown_prices tiers field. \<not> num_lt x low \<and> \<not> num_lt high x)))"
proof -
  obtain l h where lh: "(l, h) = fold (with_range field) tiers (PosInf, NegInf)" by (metis prod.collapse)
  note r = fold_range [OF _ _ lh, simplified]
  have fin: "is_finite x" if "x \<in> shown_prices tiers field" for x using that by (simp add: shown_prices_def is_shown_def)
  have range: "price_range tiers field = (if is_finite l \<and> is_finite h then Some (l, h) else None)"
    using lh by (simp add: price_range_def flip: lh)
  show ?thesis
  proof (cases "shown_prices tiers field = {}")
    case True
    with r range show ?thesis by auto
  next
    case False
    then obtain x where x: "x \<in> shown_prices tiers field" by blast
    have "l \<noteq> PosInf" "h \<noteq> NegInf" using r x fin [OF x] by (cases x; auto)+
    then have "l \<in> shown_prices tiers field" "h \<in> shown_prices tiers field" using r by auto
    with r range fin False show ?thesis by auto
  qed
qed

subsection \<open>Summaries\<close>

text \<open>Through a faithful cache, no summary ends in the diagnostic of the tree walk.\<close>

lemma time_pricing_total:
  assumes "cache_agrees cache"
  shows "\<exists>r. fst (readTimeTokenPricing host src now cache) = Inr r" and "cache_agrees (snd (readTimeTokenPricing host src now cache))"
proof -
  have step: "readTimeTokenPricing host src now cache =
      (read_time_pricing host (compile_uncached src) now, snd (compileBillingExpression src cache))"
    using compile_step(1) [OF assms, of src] by (simp add: readTimeTokenPricing_def split_beta)
  then show "cache_agrees (snd (readTimeTokenPricing host src now cache))" using compile_step(2) [OF assms] by simp
  have "\<exists>r. read_time_pricing host (compile_uncached src) now = Inr r"
  proof (cases "compile_uncached src")
    case (Inr c)
    have "height (comp_ast c) \<le> 256" using compile_ready [OF Inr] by blast
    then obtain r where "timeTierBranches (comp_source c) (comp_ast c) [] = Inr r" using timeTierBranches_ok by blast
    with Inr show ?thesis by (auto simp: read_time_pricing_def split: option.split)
  qed (simp add: read_time_pricing_def)
  then show "\<exists>r. fst (readTimeTokenPricing host src now cache) = Inr r" by (simp add: step)
qed

lemma parse_tiers_agrees:
  assumes "cache_agrees cache"
  shows "cache_agrees (snd (parseTiersFromExpr host src cache))"
proof -
  obtain r cache1 where c: "compileBillingExpression src cache = (r, cache1)" "cache_agrees cache1"
    using compile_step(2) [OF assms, of src] by (metis prod.collapse)
  show ?thesis
    using c assms time_pricing_total(2) [OF c(2), of host src None]
    by (auto simp: parseTiersFromExpr_def split: sum.split option.split prod.split)
qed

definition undiagnosed :: "(pricing_exception + 'a) \<times> compile_cache \<Rightarrow> bool" where
  "undiagnosed m \<longleftrightarrow> (\<forall>d. fst m \<noteq> Inl (Diagnosed d))"

lemma undiagnosed_bind:
  assumes "undiagnosed m" and "\<And>x cache. m = (Inr x, cache) \<Longrightarrow> undiagnosed (f x cache)"
  shows "undiagnosed (bind_cached m f)"
  using assms by (cases m; cases "fst m") (auto simp: undiagnosed_def bind_cached_def)

lemma undiagnosed_Inr [simp]: "undiagnosed (Inr x, cache)"
  by (simp add: undiagnosed_def)

lemma undiagnosed_split [simp]: "undiagnosed (split_model model, cache)" "undiagnosed (hasDynamicRequestRules model, cache)"
  by (auto simp: undiagnosed_def split_model_def hasDynamicRequestRules_def bind_result_def map_sum_def split: sum.splits)

lemma undiagnosed_map: "\<exists>x. fst m = Inr x \<Longrightarrow> undiagnosed (apfst (map_sum Diagnosed g) m)" "undiagnosed (apfst (map_sum Thrown g) m')"
  by (cases m; auto simp: undiagnosed_def) (cases m'; cases "fst m'"; simp add: undiagnosed_def)

lemma dynamic_tiers_total:
  assumes "cache_agrees cache"
  shows "undiagnosed (getDynamicPricingTiers host model cache)" and "cache_agrees (snd (getDynamicPricingTiers host model cache))"
proof -
  have task: "cache_agrees (snd (parseTaskTiersFromExpr e schema b cache))" for e schema b
    using compile_step(2) [OF assms] assms
    by (auto simp: parseTaskTiersFromExpr_def split: option.split sum.split prod.split) (metis snd_conv)+
  show "undiagnosed (getDynamicPricingTiers host model cache)"
    unfolding getDynamicPricingTiers_def using parseTiers_no_exception [OF assms, of host]
    by (auto intro!: undiagnosed_bind undiagnosed_map)
  show "cache_agrees (snd (getDynamicPricingTiers host model cache))"
    using task parse_tiers_agrees [OF assms, of host] assms
    by (auto simp: getDynamicPricingTiers_def bind_cached_def split: sum.split)
qed

theorem summary_undiagnosed:
  assumes "cache_agrees cache"
  shows "undiagnosed (getDynamicPricingSummary intl stored host collate model opts cache)"
proof -
  have time: "undiagnosed (if b then (Inr None, cache2) else apfst (map_sum Diagnosed g) (getCurrentTimePricingTiers host e now cache2))"
    if "cache_agrees cache2" for b cache2 g e now
    using time_pricing_total(1) [OF that, of host e "Some now"]
    by (auto simp: getCurrentTimePricingTiers_def split_beta intro!: undiagnosed_map(1))
  show ?thesis
    unfolding getDynamicPricingSummary_def Let_def split_beta
    using dynamic_tiers_total [OF assms, of host model]
    by (auto intro!: undiagnosed_bind time)
qed

text \<open>What a summary that is shown is made of.\<close>

lemma summary_parts:
  assumes "fst (getDynamicPricingSummary intl stored host collate model opts cache) = Inr (Some s)"
  obtains timeTiers where "isDynamicPricingModel model" and "ds_isTaskUsage s = isTaskUsagePricingModel model"
    and "ds_isTimePricing s \<longleftrightarrow> timeTiers \<noteq> None" and "ds_isTaskUsage s \<Longrightarrow> timeTiers = None"
    and "ds_tier s = (let ts = or_default timeTiers (ds_tiers s) in
           if ts = [] then None else Some (if ds_isTaskUsage s then last ts else hd ts))"
    and "summary_entries intl stored collate model opts (ds_tiers s) (or_default timeTiers (ds_tiers s)) (ds_tier s) =
           (ds_entries s, ds_isMixedBilling s)"
    and "ds_primaryEntries s = filter (is_primary_entry (ds_isTaskUsage s)) (ds_entries s)"
    and "ds_secondaryEntries s = filter (is_secondary_entry (ds_isTaskUsage s)) (ds_entries s)"
  using assms
  by (auto simp: getDynamicPricingSummary_def bind_cached_def Let_def split_beta split: if_splits prod.splits sum.splits)

text \<open>Every entry is shown once, as a primary or as a secondary one.\<close>

lemma secondary_is_not_primary: "is_secondary_entry b e \<longleftrightarrow> \<not> is_primary_entry b e"
  by (auto simp: is_secondary_entry_def is_primary_entry_def)

lemma summary_divides:
  assumes "fst (getDynamicPricingSummary intl stored host collate model opts cache) = Inr (Some s)"
  shows "mset (ds_entries s) = mset (ds_primaryEntries s) + mset (ds_secondaryEntries s)"
    and "e \<in> set (ds_primaryEntries s) \<Longrightarrow>
      (if ds_isTaskUsage s then pe_unit e \<noteq> RequestPrice
       else pe_unit e = RequestPrice \<or> pe_field e \<in> {js ''inputPrice'', js ''outputPrice''})"
    and "e \<in> set (ds_secondaryEntries s) \<Longrightarrow>
      (if ds_isTaskUsage s then pe_unit e = RequestPrice
       else pe_unit e \<noteq> RequestPrice \<and> pe_field e \<notin> {js ''inputPrice'', js ''outputPrice''})"
proof -
  note p = is_primary_entry_def is_secondary_entry_def is_primary_def PRIMARY_DYNAMIC_FIELDS_def
  obtain "ds_primaryEntries s = filter (is_primary_entry (ds_isTaskUsage s)) (ds_entries s)"
    "ds_secondaryEntries s = filter (is_secondary_entry (ds_isTaskUsage s)) (ds_entries s)"
    by (rule summary_parts [OF assms])
  then show "mset (ds_entries s) = mset (ds_primaryEntries s) + mset (ds_secondaryEntries s)"
    and "e \<in> set (ds_primaryEntries s) \<Longrightarrow>
      (if ds_isTaskUsage s then pe_unit e \<noteq> RequestPrice
       else pe_unit e = RequestPrice \<or> pe_field e \<in> {js ''inputPrice'', js ''outputPrice''})"
    and "e \<in> set (ds_secondaryEntries s) \<Longrightarrow>
      (if ds_isTaskUsage s then pe_unit e = RequestPrice
       else pe_unit e \<noteq> RequestPrice \<and> pe_field e \<notin> {js ''inputPrice'', js ''outputPrice''})"
    by (simp_all add: secondary_is_not_primary multiset_partition) (auto simp: p split: if_splits)
qed

text \<open>A price range is shown for a usage field whose price differs between the tiers, from its least to its greatest price.\<close>

definition shows_range ::
  "intl_format \<Rightarrow> stored_currency option \<Rightarrow> dynamic_price_options \<Rightarrow> js_num set \<Rightarrow> js_string option \<Rightarrow> bool" where
  "shows_range intl stored opts prices shown \<longleftrightarrow>
     (if \<exists>x\<in>prices. \<exists>y\<in>prices. num_lt x y
      then \<exists>low\<in>prices. \<exists>high\<in>prices. (\<forall>x\<in>prices. \<not> num_lt x low \<and> \<not> num_lt high x) \<and>
             shown = Some (formatTaskUsageUnitPrice intl stored low opts @ [32, 8211, 32] @
                           formatTaskUsageUnitPrice intl stored high opts)
      else shown = None)"

lemma finite_num_lt: "is_finite x \<Longrightarrow> is_finite y \<Longrightarrow> num_lt x y \<longleftrightarrow> num_value x < num_value y"
  by (cases x; cases y) auto

lemma finite_num_eq: "is_finite x \<Longrightarrow> is_finite y \<Longrightarrow> num_eq x y \<longleftrightarrow> num_value x = num_value y"
  by (cases x; cases y) auto

lemma add_range_shows:
  assumes "pe_formattedRange e = None" and "pe_field e \<in> set (map fst (getTaskNumberFields collate schema))"
  shows "shows_range intl stored opts (shown_prices tiers (pe_field e))
    (pe_formattedRange (add_range intl stored opts collate schema tiers e))"
proof (cases "shown_prices tiers (pe_field e) = {}")
  case True
  then have "price_range tiers (pe_field e) = None" using price_range_exact by blast
  with True assms show ?thesis by (simp add: add_range_def shows_range_def)
next
  case False
  let ?P = "shown_prices tiers (pe_field e)"
  from False obtain low high where r: "price_range tiers (pe_field e) = Some (low, high)" "low \<in> ?P" "high \<in> ?P"
      "\<forall>x\<in>?P. \<not> num_lt x low \<and> \<not> num_lt high x"
    using price_range_exact by metis
  have fin: "is_finite x" if "x \<in> ?P" for x using that by (simp add: shown_prices_def is_shown_def)
  have "num_eq low high \<longleftrightarrow> \<not> (\<exists>x\<in>?P. \<exists>y\<in>?P. num_lt x y)"
    using r(2-4) fin by (auto simp: finite_num_eq finite_num_lt) (meson leD le_less_trans not_less order_antisym)+
  with r assms show ?thesis by (auto simp: add_range_def shows_range_def)
qed

lemma variable_entry_range: "e \<in> set (variable_entry intl stored tier opts v) \<Longrightarrow> pe_formattedRange e = None"
  by (auto simp: variable_entry_def split: option.splits if_splits)

lemma usage_entry_range: "e \<in> set (usage_entry intl stored tier opts f) \<Longrightarrow> pe_formattedRange e = None"
  by (auto simp: usage_entry_def split: option.splits if_splits prod.splits)

lemma token_entries_range:
  "e \<in> set (getDynamicPriceEntries intl stored collate (Some (TokenPricing t)) opts) \<Longrightarrow> pe_formattedRange e = None"
  by (cases "(pt_billingUnit t, pt_fixedPrice t)" rule: prod.exhaust)
    (auto simp: getDynamicPriceEntries_def primary_first.sort_set request_entry_def variable_entry_range
      split: option.splits billing_unit.splits)

lemma entries_without_range:
  assumes "e \<in> set (getDynamicPriceEntries intl stored collate tier opts)"
  shows "pe_formattedRange e = None"
proof (cases tier)
  case (Some t)
  show ?thesis
  proof (cases t)
    case (TokenPricing p)
    with assms Some token_entries_range show ?thesis by blast
  next
    case (TaskPricing k)
    with assms Some show ?thesis
      by (cases "do_usageSchema opts")
        (auto simp: getDynamicPriceEntries_def request_entry_def usage_entry_range split: if_splits)
  qed
qed (use assms in \<open>simp add: getDynamicPriceEntries_def\<close>)

lemma add_range_keeps [simp]: "pe_field (add_range intl stored opts collate schema tiers e) = pe_field e"
  by (simp add: add_range_def split: option.split prod.split)

lemma add_range_other: "pe_field e \<notin> set (map fst (getTaskNumberFields collate schema)) \<Longrightarrow>
    add_range intl stored opts collate schema tiers e = e"
  unfolding add_range_def by (rule if_P)

lemma summary_ranges:
  assumes "fst (getDynamicPricingSummary intl stored host collate model opts cache) = Inr (Some s)"
    and "e \<in> set (ds_entries s)"
  shows "if ds_isTaskUsage s \<and> pe_field e \<in> set (map fst (getTaskNumberFields collate (pm_billing_usage_schema model)))
    then shows_range intl stored opts (shown_prices (ds_tiers s) (pe_field e)) (pe_formattedRange e)
    else pe_formattedRange e = None"
proof -
  from summary_parts [OF assms(1)] obtain timeTiers where task: "ds_isTaskUsage s = isTaskUsagePricingModel model"
    and es: "summary_entries intl stored collate model opts (ds_tiers s) (or_default timeTiers (ds_tiers s)) (ds_tier s) =
        (ds_entries s, ds_isMixedBilling s)"
    by metis
  show ?thesis
  proof (cases "ds_isTaskUsage s")
    case True
    with es task have "ds_entries s = map (add_range intl stored opts collate (pm_billing_usage_schema model) (ds_tiers s))
        (getDynamicPriceEntries intl stored collate (ds_tier s) (opts\<lparr>do_usageSchema := pm_billing_usage_schema model\<rparr>))"
      by (simp add: summary_entries_def)
    with assms(2) obtain e' where
      e': "e' \<in> set (getDynamicPriceEntries intl stored collate (ds_tier s) (opts\<lparr>do_usageSchema := pm_billing_usage_schema model\<rparr>))"
      and e: "e = add_range intl stored opts collate (pm_billing_usage_schema model) (ds_tiers s) e'"
      by auto
    from entries_without_range [OF e'] show ?thesis
      using True add_range_shows unfolding e
      by (cases "pe_field e' \<in> set (map fst (getTaskNumberFields collate (pm_billing_usage_schema model)))")
        (simp_all only: add_range_keeps add_range_other if_True if_False simp_thms)
  next
    case False
    have "e \<in> set (fst (summary_entries intl stored collate model opts (ds_tiers s) (or_default timeTiers (ds_tiers s)) (ds_tier s)))"
      using es assms(2) by simp
    with False task show ?thesis
      by (auto simp: summary_entries_def Let_def dest: entries_without_range split: option.splits)
  qed
qed

text \<open>Which tier a summary describes, and when it is shown as mixed.\<close>

lemma tier_kinds:
  "is_token_tier t \<longleftrightarrow> (\<exists>p. t = TokenPricing p \<and> pt_billingUnit p \<noteq> Some UnitRequest)"
  "is_request_tier t \<longleftrightarrow> (\<exists>p. t = TokenPricing p \<and> pt_billingUnit p = Some UnitRequest)"
  by (cases t; simp add: is_token_tier_def is_request_tier_def)+

lemma summary_tier:
  assumes "fst (getDynamicPricingSummary intl stored host collate model opts cache) = Inr (Some s)" and "\<not> ds_isTimePricing s"
  shows "ds_tier s = (if ds_tiers s = [] then None else Some (if ds_isTaskUsage s then last (ds_tiers s) else hd (ds_tiers s)))"
    and "ds_isMixedBilling s \<longleftrightarrow> \<not> ds_isTaskUsage s \<and>
      (\<exists>t. TokenPricing t \<in> set (ds_tiers s) \<and> pt_billingUnit t \<noteq> Some UnitRequest) \<and>
      (\<exists>t. TokenPricing t \<in> set (ds_tiers s) \<and> pt_billingUnit t = Some UnitRequest)"
proof -
  from summary_parts [OF assms(1)] obtain timeTiers where task: "ds_isTaskUsage s = isTaskUsagePricingModel model"
    and time: "ds_isTimePricing s \<longleftrightarrow> timeTiers \<noteq> None"
    and tier: "ds_tier s = (let ts = or_default timeTiers (ds_tiers s) in
           if ts = [] then None else Some (if ds_isTaskUsage s then last ts else hd ts))"
    and es: "summary_entries intl stored collate model opts (ds_tiers s) (or_default timeTiers (ds_tiers s)) (ds_tier s) =
        (ds_entries s, ds_isMixedBilling s)"
    by metis
  from time assms(2) have ts: "or_default timeTiers (ds_tiers s) = ds_tiers s" by (simp add: or_default_def)
  with tier show "ds_tier s = (if ds_tiers s = [] then None else Some (if ds_isTaskUsage s then last (ds_tiers s) else hd (ds_tiers s)))"
    by (simp add: Let_def)
  have token: "List.find is_token_tier (ds_tiers s) \<noteq> None \<longleftrightarrow> (\<exists>t. TokenPricing t \<in> set (ds_tiers s) \<and> pt_billingUnit t \<noteq> Some UnitRequest)"
    and req: "List.find is_request_tier (ds_tiers s) \<noteq> None \<longleftrightarrow> (\<exists>t. TokenPricing t \<in> set (ds_tiers s) \<and> pt_billingUnit t = Some UnitRequest)"
    unfolding find_None_iff tier_kinds by blast+
  show "ds_isMixedBilling s \<longleftrightarrow> \<not> ds_isTaskUsage s \<and>
      (\<exists>t. TokenPricing t \<in> set (ds_tiers s) \<and> pt_billingUnit t \<noteq> Some UnitRequest) \<and>
      (\<exists>t. TokenPricing t \<in> set (ds_tiers s) \<and> pt_billingUnit t = Some UnitRequest)"
    using es task unfolding ts token [symmetric] req [symmetric]
    by (auto simp: summary_entries_def Let_def split: if_splits option.splits)
qed

end
