(* ===== verification/Task_Display.thy ===== *)
theory Task_Display
  imports Model_Price
begin

section \<open>Displaying task prices (task-matrix-display.ts, task-price-display.ts)\<close>

text \<open>
  The rows that the marketplace shows for a task price: one per combination of a recognised
  matrix, or the tiers of the expression with the fallback named by its conditions when these are
  the only ones that the other tiers leave over.
\<close>

definition matrix_display_row :: "collation \<Rightarrow> task_matrix_row \<Rightarrow> task_tier" where
  "matrix_display_row collate row =
     \<lparr>tk_label = taskMatrixRowLabel collate (mr_combination row),
      tk_conditions = map (\<lambda>(field, val). \<lparr>tk_field = field, tk_value = val\<rparr>) (sort_by_name collate (mr_combination row)),
      tk_constant = mr_constant row, tk_unit_prices = mr_unitPrices row\<rparr>"

definition getTaskMatrixDisplayTiers ::
  "collation \<Rightarrow> js_string option \<Rightarrow> usage_schema option \<Rightarrow> compile_cache \<Rightarrow> (js_exception + task_tier list option) \<times> compile_cache" where
  "getTaskMatrixDisplayTiers collate expr schema cache =
     (case schema of
        None \<Rightarrow> (Inr None, cache)
      | Some sch \<Rightarrow>
          if length (getTaskEnumFields collate schema) = 0 then (Inr None, cache)
          else apfst (map_sum id (map_option (\<lambda>matrix. map (matrix_display_row collate) (mc_rows matrix))))
                 (tryParseTaskMatrixConfig collate expr sch cache))"

definition add_new :: "'a \<Rightarrow> 'a list \<Rightarrow> 'a list" where
  "add_new x xs = (if x \<in> set xs then xs else xs @ [x])"

definition condition_fields :: "task_tier list \<Rightarrow> js_string list" where
  "condition_fields previous =
     js_sort (\<lambda>a b. str_lt b a) (fold add_new (concat (map (\<lambda>tier. map tk_field (tk_conditions tier)) previous)) [])"

definition field_values :: "usage_schema \<Rightarrow> js_string \<Rightarrow> js_string list" where
  "field_values schema field =
     (case map_of schema field of
        None \<Rightarrow> []
      | Some definition \<Rightarrow>
          if uf_type definition = Some UT_boolean then [js ''false'', js ''true'']
          else (case uf_enum definition of Some vs \<Rightarrow> vs | None \<Rightarrow> []))"

fun expand_fields :: "usage_schema \<Rightarrow> js_string list \<Rightarrow> task_condition list list \<Rightarrow> task_condition list list option" where
  "expand_fields schema [] combinations = Some combinations"
| "expand_fields schema (field # fs) combinations =
     (let vals = field_values schema field in
      if vals = [] \<or> 256 < length combinations * length vals then None
      else expand_fields schema fs
             (concat (map (\<lambda>combination. map (\<lambda>val. combination @ [\<lparr>tk_field = field, tk_value = val\<rparr>]) vals) combinations)))"

definition covers :: "task_condition list \<Rightarrow> task_tier \<Rightarrow> bool" where
  "covers combination tier \<longleftrightarrow> list_all (\<lambda>c. c \<in> set combination) (tk_conditions tier)"

definition display_tiers :: "usage_schema \<Rightarrow> task_tier list \<Rightarrow> task_tier list" where
  "display_tiers schema tiers =
     (if length tiers < 2 then tiers
      else
        (let previous = butlast tiers; fallback = last tiers in
         case expand_fields schema (condition_fields previous) [[]] of
           None \<Rightarrow> tiers
         | Some combinations \<Rightarrow>
             (let remaining = filter (\<lambda>combination. \<not> list_ex (covers combination) previous) combinations in
              if length remaining \<noteq> 1 then tiers else previous @ [fallback\<lparr>tk_conditions := remaining ! 0\<rparr>])))"

definition getTaskPricingDisplayTiers ::
  "js_string option \<Rightarrow> usage_schema option \<Rightarrow> compile_cache \<Rightarrow> (js_exception + task_tier list) \<times> compile_cache" where
  "getTaskPricingDisplayTiers expr schema cache =
     apfst (map_sum id (\<lambda>tiers. case schema of None \<Rightarrow> tiers | Some sch \<Rightarrow> display_tiers sch tiers))
       (parseTaskTiersFromExpr (or_default expr []) schema True cache)"

definition hasSimpleTaskPricing :: "pricing_model \<Rightarrow> compile_cache \<Rightarrow> (js_exception + bool) \<times> compile_cache" where
  "hasSimpleTaskPricing model cache =
     (case pm_billing_usage_schema model of
        None \<Rightarrow> (Inr False, cache)
      | Some schema \<Rightarrow>
          if \<not> is_tiered model \<or> billing_expr_of model = [] then (Inr False, cache)
          else
            bind_cached (splitBillingExprAndRequestRules (billing_expr_of model), cache) (\<lambda>split cache1.
              if trim (requestRuleExpr split) \<noteq> [] then (Inr False, cache1)
              else apfst (map_sum id (\<lambda>tiers. length tiers = 1)) (getTaskPricingDisplayTiers (Some (billingExpr split)) (Some schema) cache1)))"

subsection \<open>The named fallback\<close>

lemma expand_fields_set:
  "expand_fields schema fs cs = Some ds \<Longrightarrow>
   set ds = {c @ map2 (\<lambda>f v. \<lparr>tk_field = f, tk_value = v\<rparr>) fs vs | c vs. c \<in> set cs \<and> list_all2 (\<lambda>f v. v \<in> set (field_values schema f)) fs vs}"
proof (induction fs arbitrary: cs)
  case (Cons f fs)
  let ?step = "concat (map (\<lambda>c. map (\<lambda>v. c @ [\<lparr>tk_field = f, tk_value = v\<rparr>]) (field_values schema f)) cs)"
  from Cons.prems have "expand_fields schema fs ?step = Some ds" by (simp add: Let_def split: if_splits)
  note ih = Cons.IH [OF this]
  show ?case
  proof (intro set_eqI iffI)
    fix d assume "d \<in> set ds"
    then obtain c v vs where "c \<in> set cs" "v \<in> set (field_values schema f)" "list_all2 (\<lambda>f v. v \<in> set (field_values schema f)) fs vs"
        "d = (c @ [\<lparr>tk_field = f, tk_value = v\<rparr>]) @ map2 (\<lambda>f v. \<lparr>tk_field = f, tk_value = v\<rparr>) fs vs"
      unfolding ih by auto
    then show "d \<in> {c @ map2 (\<lambda>f v. \<lparr>tk_field = f, tk_value = v\<rparr>) (f # fs) vs | c vs.
        c \<in> set cs \<and> list_all2 (\<lambda>f v. v \<in> set (field_values schema f)) (f # fs) vs}"
      by (intro CollectI exI [of _ c] exI [of _ "v # vs"]) simp
  next
    fix d assume "d \<in> {c @ map2 (\<lambda>f v. \<lparr>tk_field = f, tk_value = v\<rparr>) (f # fs) vs | c vs.
        c \<in> set cs \<and> list_all2 (\<lambda>f v. v \<in> set (field_values schema f)) (f # fs) vs}"
    then obtain c v vs where "c \<in> set cs" "v \<in> set (field_values schema f)" "list_all2 (\<lambda>f v. v \<in> set (field_values schema f)) fs vs"
        "d = (c @ [\<lparr>tk_field = f, tk_value = v\<rparr>]) @ map2 (\<lambda>f v. \<lparr>tk_field = f, tk_value = v\<rparr>) fs vs"
      by (auto simp: list_all2_Cons1)
    then show "d \<in> set ds" unfolding ih by (intro CollectI exI [of _ "c @ [\<lparr>tk_field = f, tk_value = v\<rparr>]"] exI [of _ vs]) auto
  qed
qed auto

lemma set_fold_add_new: "set (fold add_new xs acc) = set acc \<union> set xs"
  by (induction xs arbitrary: acc) (auto simp: add_new_def)

lemma set_insert_sorted: "set (insert_sorted gt x ys) = insert x (set ys)"
  by (induction ys) auto

lemma set_js_sort: "set (js_sort gt xs) = set xs"
  by (induction xs) (simp_all add: js_sort_def set_insert_sorted)

lemma set_condition_fields: "set (condition_fields previous) = (\<Union>t\<in>set previous. tk_field ` set (tk_conditions t))"
  by (simp add: condition_fields_def set_js_sort set_fold_add_new)

lemma map2_own: "map2 h xs (map g xs) = map (\<lambda>x. h x (g x)) xs"
  by (induction xs) simp_all

text \<open>A usage that has one of the listed values in every field on which the tiers depend.\<close>

definition in_domain :: "usage_schema \<Rightarrow> task_tier list \<Rightarrow> usage_sample \<Rightarrow> bool" where
  "in_domain schema previous sample \<longleftrightarrow>
     list_all (\<lambda>f. \<exists>v\<in>set (field_values schema f). map_of sample f = Some (Inl v)) (condition_fields previous)"

theorem displayed_fallback:
  assumes shown: "display_tiers schema tiers \<noteq> tiers" and domain: "in_domain schema (butlast tiers) sample"
  shows "butlast (display_tiers schema tiers) = butlast tiers"
    and "list_all (condition_matches sample) (tk_conditions (last (display_tiers schema tiers))) \<longleftrightarrow>
      \<not> list_ex (\<lambda>t. list_all (condition_matches sample) (tk_conditions t)) (butlast tiers)"
proof -
  let ?previous = "butlast tiers" and ?fs = "condition_fields (butlast tiers)"
  have "\<forall>f\<in>set ?fs. \<exists>v. v \<in> set (field_values schema f) \<and> map_of sample f = Some (Inl v)"
    using domain by (simp add: in_domain_def list_all_iff Bex_def)
  then obtain val where "\<forall>f\<in>set ?fs. val f \<in> set (field_values schema f) \<and> map_of sample f = Some (Inl (val f))"
    by (rule bchoice [THEN exE])
  then have val: "val f \<in> set (field_values schema f) \<and> map_of sample f = Some (Inl (val f))" if "f \<in> set ?fs" for f
    using that by blast
  let ?pair = "\<lambda>f v. \<lparr>tk_field = f, tk_value = v\<rparr> :: task_condition"
  define own where "own = map2 ?pair ?fs (map val ?fs)"
  obtain cs where cs: "expand_fields schema ?fs [[]] = Some cs" "length (filter (\<lambda>c. \<not> list_ex (covers c) ?previous) cs) = 1"
    and disp: "display_tiers schema tiers =
      ?previous @ [(last tiers)\<lparr>tk_conditions := filter (\<lambda>c. \<not> list_ex (covers c) ?previous) cs ! 0\<rparr>]"
    using shown by (auto simp: display_tiers_def Let_def split: if_splits option.splits)
  then show "butlast (display_tiers schema tiers) = butlast tiers" by simp
  obtain r where r: "filter (\<lambda>c. \<not> list_ex (covers c) ?previous) cs = [r]"
    using cs(2) by (cases "filter (\<lambda>c. \<not> list_ex (covers c) ?previous) cs") auto
  have own: "own = map (\<lambda>f. ?pair f (val f)) ?fs" unfolding own_def by (rule map2_own)
  have in_own: "condition_matches sample c \<longleftrightarrow> c \<in> set own" if "tk_field c \<in> set ?fs" for c :: task_condition
  proof -
    from that val [OF that] have "c \<in> set own \<longleftrightarrow> tk_value c = val (tk_field c)"
      unfolding own by (cases c) auto
    then show ?thesis using val [OF that] by (auto simp: condition_matches_def)
  qed
  have "list_all2 (\<lambda>f v. v \<in> set (field_values schema f)) ?fs (map val ?fs)"
    using val by (simp add: list_all2_map2 list_all2_same)
  then have own_cs: "own \<in> set cs" unfolding expand_fields_set [OF cs(1)] own_def by fastforce
  have previous: "list_ex (\<lambda>t. list_all (condition_matches sample) (tk_conditions t)) ?previous \<longleftrightarrow> list_ex (covers own) ?previous"
  proof -
    have "list_all (condition_matches sample) (tk_conditions t) \<longleftrightarrow> covers own t" if "t \<in> set ?previous" for t
      unfolding covers_def using that set_condition_fields [of ?previous] by (intro list.pred_cong refl in_own) auto
    then show ?thesis by (auto simp: list_ex_iff)
  qed
  have "list_all (condition_matches sample) r \<longleftrightarrow> r = own"
  proof
    assume m: "list_all (condition_matches sample) r"
    have "r \<in> set cs" using r by (metis filter_is_subset list.set_intros(1) subsetD)
    then obtain vs where vs: "r = map2 ?pair ?fs vs" "list_all2 (\<lambda>f v. v \<in> set (field_values schema f)) ?fs vs"
      unfolding expand_fields_set [OF cs(1)] by auto
    then have len: "length vs = length ?fs" by (simp add: list_all2_lengthD)
    have "vs ! i = val (?fs ! i)" if "i < length ?fs" for i
    proof -
      have "condition_matches sample (?pair (?fs ! i) (vs ! i))" using m vs(1) len that by (auto simp: list_all_length)
      then show ?thesis using val [of "?fs ! i"] that by (simp add: condition_matches_def)
    qed
    then have "vs = map val ?fs" using len by (intro nth_equalityI) simp_all
    then show "r = own" using vs(1) by (simp add: own_def)
  next
    assume "r = own"
    then show "list_all (condition_matches sample) r" using in_own by (auto simp: own list_all_iff)
  qed
  moreover have "r = own \<longleftrightarrow> \<not> list_ex (covers own) ?previous"
  proof
    assume "r = own"
    moreover have "r \<in> set (filter (\<lambda>c. \<not> list_ex (covers c) ?previous) cs)" using r by simp
    ultimately show "\<not> list_ex (covers own) ?previous" by simp
  next
    assume "\<not> list_ex (covers own) ?previous"
    with own_cs have "own \<in> set (filter (\<lambda>c. \<not> list_ex (covers c) ?previous) cs)" by simp
    then show "r = own" using r by simp
  qed
  ultimately show "list_all (condition_matches sample) (tk_conditions (last (display_tiers schema tiers))) \<longleftrightarrow>
      \<not> list_ex (\<lambda>t. list_all (condition_matches sample) (tk_conditions t)) (butlast tiers)"
    using previous disp r by simp
qed

end
