(* ===== verification/Condition_Display.thy ===== *)
theory Condition_Display
  imports Expr_Display
begin

section \<open>Conditions as text (condition-display.ts)\<close>

text \<open>
  The description of a condition in words: ranges of hours, weekdays, minutes, months and days in a
  time zone, and bounds on token counts, joined by and, or and not. The translation function,
  the names of weekdays and the numbers of a locale come from the interface and are a record of
  parameters. The names of weekdays and numbers are \<open>None\<close> where the host throws; as every null of the
  program, an exception ends in the null of \<^verbatim>\<open>formatBillingCondition\<close>.
\<close>

record text_host =
  translate :: "js_string \<Rightarrow> (js_string, js_value) entries \<Rightarrow> js_string"
  weekday_name :: "js_string \<Rightarrow> int \<Rightarrow> js_string option"
  locale_number :: "js_string \<Rightarrow> js_num \<Rightarrow> js_string option"

datatype description_kind = Calendar | Clock | Combined

record description =
  ds_text :: js_string
  ds_kind :: description_kind
  ds_timezone :: js_string
  ds_disjunction :: bool

record time_comparison =
  cmp_name :: time_function
  cmp_timezone :: js_string
  cmp_operator :: operator
  cmp_value :: js_num

fun DOMAINS :: "time_function \<Rightarrow> js_num \<times> js_num" where
  "DOMAINS T_hour = (Fin 0, Fin 24)"
| "DOMAINS T_minute = (Fin 0, Fin 60)"
| "DOMAINS T_weekday = (Fin 0, Fin 7)"
| "DOMAINS T_month = (Fin 1, Fin 13)"
| "DOMAINS T_day = (Fin 1, Fin 32)"

definition timeComparison :: "expression_node \<Rightarrow> time_comparison option" where
  "timeComparison node =
     (case node of
        Binary op (Call (F_time f) (Literal (LStr zone) _ _ _ # _) _ _) (Literal (LNum x) _ _ _) _ _ \<Rightarrow>
          if op \<in> {EqOp, GeOp, GtOp, LeOp, LtOp} \<and> is_integer x
          then Some \<lparr>cmp_name = f, cmp_timezone = (if trim zone \<noteq> [] then trim zone else js ''UTC''), cmp_operator = op, cmp_value = x\<rparr>
          else None
      | _ \<Rightarrow> None)"

definition narrow :: "time_comparison \<Rightarrow> js_num \<times> js_num \<Rightarrow> js_num \<times> js_num" where
  "narrow c bounds =
     (case bounds of (start, stop) \<Rightarrow>
        let x = cmp_value c; after = num_add x (Fin 1) in
        case cmp_operator c of
          GeOp \<Rightarrow> (num_max start x, stop)
        | GtOp \<Rightarrow> (num_max start after, stop)
        | LtOp \<Rightarrow> (start, num_min stop x)
        | LeOp \<Rightarrow> (start, num_min stop after)
        | EqOp \<Rightarrow> (num_max start x, num_min stop after)
        | _ \<Rightarrow> (start, stop))"

definition time_range :: "time_comparison list \<Rightarrow> js_num \<times> js_num" where
  "time_range comparisons = fold narrow comparisons (DOMAINS (cmp_name (hd comparisons)))"

definition clock_text :: "js_num \<Rightarrow> js_string" where
  "clock_text x = (let s = string_of_number x in replicate (2 - length s) 48 @ s @ js '':00'')"

definition span_text :: "text_host \<Rightarrow> js_value \<Rightarrow> js_value \<Rightarrow> js_string" where
  "span_text host start stop = translate host (js ''{{start}}'' @ [8211] @ js ''{{end}}'') [(js ''start'', start), (js ''end'', stop)]"

definition language_tag :: "js_string \<Rightarrow> js_string" where
  "language_tag loc = (if loc = js ''zhCN'' then js ''zh-CN'' else loc)"

text \<open>\<^verbatim>\<open>Date.UTC(2026, 0, 4 + n)\<close>, in milliseconds.\<close>

definition weekday_date :: "js_num \<Rightarrow> int" where
  "weekday_date n = 1767484800000 + 86400000 * \<lfloor>num_value n\<rfloor>"

fun range_label :: "time_function \<Rightarrow> js_string" where
  "range_label T_minute = js ''Minute''"
| "range_label T_month = js ''Month''"
| "range_label T_day = js ''Day''"
| "range_label _ = js ''undefined''"

definition describeTimeRange :: "text_host \<Rightarrow> js_string \<Rightarrow> time_comparison list \<Rightarrow> description option" where
  "describeTimeRange host loc comparisons =
     (let first = hd comparisons; (start, stop) = time_range comparisons; before = num_sub stop (Fin 1) in
      if num_le stop start then None
      else if cmp_name first = T_hour
      then Some \<lparr>ds_text = span_text host (VStr (clock_text start)) (VStr (clock_text stop)), ds_kind = Clock,
                 ds_timezone = cmp_timezone first, ds_disjunction = False\<rparr>
      else if cmp_name first = T_weekday
      then (case (weekday_name host (language_tag loc) (weekday_date start), weekday_name host (language_tag loc) (weekday_date before)) of
              (Some from_day, Some to_day) \<Rightarrow>
                Some \<lparr>ds_text = (if num_eq start before then from_day else span_text host (VStr from_day) (VStr to_day)),
                      ds_kind = Calendar, ds_timezone = cmp_timezone first, ds_disjunction = False\<rparr>
            | _ \<Rightarrow> None)
      else Some \<lparr>ds_text = translate host (range_label (cmp_name first)) [] @ js '': '' @
                    (if num_eq start before then string_of_number start else span_text host (VNum start) (VNum before)),
                 ds_kind = Calendar, ds_timezone = cmp_timezone first, ds_disjunction = False\<rparr>)"

fun count_label :: "token_variable \<Rightarrow> js_string option" where
  "count_label TV_p = Some (js ''Input'')"
| "count_label TV_c = Some (js ''Output'')"
| "count_label TV_len = Some (js ''Full input length'')"
| "count_label _ = None"

definition describe_count :: "text_host \<Rightarrow> js_string \<Rightarrow> operator \<Rightarrow> token_variable \<Rightarrow> js_num \<Rightarrow> description option" where
  "describe_count host loc op v x =
     (case (count_label v, locale_number host (language_tag loc) x) of
        (Some label, Some shown) \<Rightarrow>
          Some \<lparr>ds_text = translate host label [] @ js '' '' @ operator_text op @ js '' '' @ shown, ds_kind = Combined,
                ds_timezone = [], ds_disjunction = False\<rparr>
      | _ \<Rightarrow> None)"

definition range_key :: "time_comparison \<Rightarrow> js_string" where
  "range_key c = time_function_text (cmp_name c) @ js '':'' @ cmp_timezone c"

definition add_comparison :: "time_comparison \<Rightarrow> (js_string, time_comparison list) entries \<Rightarrow> (js_string, time_comparison list) entries" where
  "add_comparison c ranges =
     set_own (range_key c) ((case map_of ranges (range_key c) of Some cs \<Rightarrow> cs | None \<Rightarrow> []) @ [c]) ranges"

definition add_zone :: "js_string \<Rightarrow> js_string list \<Rightarrow> js_string list" where
  "add_zone z zs = (if z \<in> set zs then zs else zs @ [z])"

definition bracketed :: "operator \<Rightarrow> description \<Rightarrow> js_string" where
  "bracketed op d = (if op = AndOp \<and> ds_disjunction d then js ''('' @ ds_text d @ js '')'' else ds_text d)"

definition join_descriptions :: "text_host \<Rightarrow> operator \<Rightarrow> description list \<Rightarrow> description option" where
  "join_descriptions host op parts =
     (let zones = fold add_zone (filter (\<lambda>z. z \<noteq> []) (map ds_timezone parts)) [];
          calendars = filter (\<lambda>d. ds_kind d = Calendar) parts; clocks = filter (\<lambda>d. ds_kind d = Clock) parts;
          separator = (if op = AndOp then js ''{{first}} and {{second}}'' else js ''{{first}} or {{second}}'') in
      if parts = [] \<or> 1 < length zones then None
      else if length parts = 1 then Some (hd parts)
      else if op = AndOp \<and> length parts = 2 \<and> length calendars = 1 \<and> length clocks = 1
      then Some \<lparr>ds_text = ds_text (hd calendars) @ js '' '' @ ds_text (hd clocks), ds_kind = Combined,
                 ds_timezone = ds_timezone (hd parts), ds_disjunction = False\<rparr>
      else Some \<lparr>ds_text = fold (\<lambda>part acc. translate host separator [(js ''first'', VStr acc), (js ''second'', VStr (bracketed op part))])
                    (tl parts) (bracketed op (hd parts)),
                 ds_kind = (if length clocks = length parts then Clock else Combined),
                 ds_timezone = (case zones of z # _ \<Rightarrow> z | [] \<Rightarrow> []), ds_disjunction = (op = OrOp)\<rparr>)"

lemma flattened_part_smaller:
  "m \<in> set (flattenBinary (Binary op l r s e) op) \<Longrightarrow> size m < size (Binary op l r s e)"
proof -
  have "size m \<le> size n" if "m \<in> set (flattenBinary n op)" for n
    using that by (induction n op rule: flattenBinary.induct) (auto split: if_splits)
  then show "m \<in> set (flattenBinary (Binary op l r s e) op) \<Longrightarrow> size m < size (Binary op l r s e)" by fastforce
qed

function describeBillingCondition :: "text_host \<Rightarrow> js_string \<Rightarrow> expression_node \<Rightarrow> description option" where
  "describeBillingCondition host loc node =
     (case node of
        Unary NotOp operand _ _ \<Rightarrow>
          map_option (\<lambda>d. d\<lparr>ds_text := translate host (js ''Outside these times: {{condition}}'') [(js ''condition'', VStr (ds_text d))],
                            ds_kind := Combined\<rparr>)
            (describeBillingCondition host loc operand)
      | Binary op left right s e \<Rightarrow>
          (case (left, right) of
             (Variable v _ _, Literal (LNum x) _ _ _) \<Rightarrow>
               if op \<in> {LtOp, LeOp, GtOp, GeOp, EqOp, NeOp} then describe_count host loc op v x else None
           | _ \<Rightarrow>
               (case timeComparison node of
                  Some single \<Rightarrow> describeTimeRange host loc [single]
                | None \<Rightarrow>
                    if op = AndOp then
                      (case (map_option_list (describeBillingCondition host loc)
                               (filter (\<lambda>part. timeComparison part = None) (flattenBinary (Binary op left right s e) op)),
                             map_option_list (\<lambda>(_, cs). describeTimeRange host loc cs)
                               (fold add_comparison (List.map_filter timeComparison (flattenBinary (Binary op left right s e) op)) [])) of
                         (Some others, Some ranges) \<Rightarrow> join_descriptions host op (others @ ranges)
                       | _ \<Rightarrow> None)
                    else if op = OrOp then
                      Option.bind (map_option_list (describeBillingCondition host loc) (flattenBinary (Binary op left right s e) op))
                        (join_descriptions host op)
                    else None))
      | _ \<Rightarrow> None)"
  by pat_completeness auto
termination
proof (relation "measure (\<lambda>(host, loc, node). size node)", goal_cases)
  case 1
  show ?case by simp
next
  case 2
  then show ?case by simp
qed (auto simp del: flattenBinary.simps dest: flattened_part_smaller)

declare describeBillingCondition.simps [simp del]

text \<open>The texts are not escaped for HTML.\<close>

definition unescaped :: "(js_string \<Rightarrow> (js_string, js_value) entries \<Rightarrow> js_string) \<Rightarrow> js_string \<Rightarrow> (js_string, js_value) entries \<Rightarrow> js_string" where
  "unescaped t key options = t key (options @ [(js ''interpolation'', VObj [(js ''escapeValue'', VBool False)])])"

definition formatBillingCondition :: "text_host \<Rightarrow> js_string \<Rightarrow> js_string \<Rightarrow> compile_cache \<Rightarrow> js_string option \<times> compile_cache" where
  "formatBillingCondition host source loc cache =
     (case compileBillingExpression source cache of
        (Inl failure, cache1) \<Rightarrow> (None, cache1)
      | (Inr compiled, cache1) \<Rightarrow>
          (let plain_host = host\<lparr>translate := unescaped (translate host)\<rparr> in
           (map_option (\<lambda>d. if ds_timezone d = [] then ds_text d
                else translate plain_host (js ''{{condition}} ({{timezone}})'')
                       [(js ''condition'', VStr (ds_text d)), (js ''timezone'', VStr (ds_timezone d))])
              (describeBillingCondition plain_host loc (comp_ast compiled)), cache1)))"

end
