(* ===== verification/Condition_Correct.thy ===== *)
theory Condition_Correct
  imports Condition_Display Display_Correct Visual_Correct
begin

section \<open>Ranges of times\<close>

text \<open>
  The range that is shown for comparisons with one time function is exactly the set of values for
  which they hold, and it is where the runtime evaluates their conjunction to true.
\<close>

subsection \<open>Integers as numbers\<close>

lemma safe_double:
  assumes "\<bar>n\<bar> \<le> 2 ^ 53"
  shows "to_double (of_int n) = Fin (of_int n)"
proof (cases "n = 0")
  case False
  let ?x = "of_int n :: rat"
  have pos: "0 < \<bar>?x\<bar>" using False by simp
  have "\<bar>?x\<bar> < 2 powi 54"
  proof -
    have "\<bar>?x\<bar> \<le> of_int (2 ^ 53)" using assms by (metis of_int_abs of_int_le_iff)
    then show ?thesis by simp
  qed
  then have log: "ilog 2 \<bar>?x\<bar> < 54" using pos by (intro ilog_less)
  have "round_mantissa ?x = ?x"
  proof (cases "\<bar>n\<bar> = 2 ^ 53")
    case True
    then have "?x = of_int ((if n < 0 then - 1 else 1) * 2 ^ 52) * 2 powi 1" by (auto simp: abs_if split: if_splits)
    moreover have "double_exponent ?x \<le> 1" using log by (simp add: double_exponent_def)
    ultimately show ?thesis by (rule round_mantissa_multiple)
  next
    case False
    then have "\<bar>n\<bar> < 2 ^ 53" using assms by simp
    then have "\<bar>?x\<bar> < of_int (2 ^ 53)" by (metis of_int_abs of_int_less_iff)
    then have "ilog 2 \<bar>?x\<bar> < 53" using pos by (intro ilog_less) simp_all
    then have "double_exponent ?x \<le> 0" by (simp add: double_exponent_def)
    moreover have "?x = of_int n * 2 powi 0" by simp
    ultimately show ?thesis by (intro round_mantissa_multiple)
  qed
  with False log show ?thesis by (simp add: to_double_def)
qed simp

definition integer :: "js_num \<Rightarrow> int \<Rightarrow> bool" where
  "integer x n \<longleftrightarrow> is_finite x \<and> num_value x = of_int n"

lemma safe_integerE:
  assumes "is_safe_integer x"
  obtains n where "integer x n" "\<bar>n\<bar> < 2 ^ 53"
proof -
  let ?n = "\<lfloor>num_value x\<rfloor>"
  have n: "of_int ?n = num_value x" "is_finite x" "\<bar>num_value x\<bar> \<le> of_int 9007199254740991"
    using assms by (simp_all add: is_safe_integer_def is_integer_def)
  then have "of_int \<bar>?n\<bar> \<le> (of_int 9007199254740991 :: rat)" by (metis of_int_abs)
  then have "\<bar>?n\<bar> \<le> 9007199254740991" by (simp only: of_int_le_iff)
  moreover have "integer x ?n" unfolding integer_def using n(1,2) by (simp only: simp_thms)
  ultimately show ?thesis by (intro that [of ?n]) simp_all
qed

lemma integer_compare:
  assumes "integer x m" and "integer y n"
  shows "num_lt x y \<longleftrightarrow> m < n" "num_le x y \<longleftrightarrow> m \<le> n" "num_eq x y \<longleftrightarrow> m = n"
  using assms by (cases x; cases y; auto simp: integer_def num_le_def)+

lemma integer_max: "integer x m \<Longrightarrow> integer y n \<Longrightarrow> integer (num_max x y) (max m n)"
  by (cases x; cases y) (auto simp: integer_def num_max_def signed_zero_def max_def split: if_splits)

lemma integer_min: "integer x m \<Longrightarrow> integer y n \<Longrightarrow> integer (num_min x y) (min m n)"
  by (cases x; cases y) (auto simp: integer_def num_min_def signed_zero_def min_def split: if_splits)

lemma integer_succ: "integer x n \<Longrightarrow> \<bar>n\<bar> < 2 ^ 53 \<Longrightarrow> integer (num_add x (Fin 1)) (n + 1)"
proof -
  assume x: "integer x n" and n: "\<bar>n\<bar> < 2 ^ 53"
  then have "to_double (of_int (n + 1)) = Fin (of_int (n + 1))" by (intro safe_double) linarith
  with x show ?thesis by (cases x) (auto simp: integer_def num_add_def)
qed

subsection \<open>The range of comparisons\<close>

definition holds_at :: "js_num \<Rightarrow> time_comparison \<Rightarrow> bool" where
  "holds_at x c \<longleftrightarrow>
     (if cmp_operator c = EqOp then num_eq x (cmp_value c) else compare_numbers (cmp_operator c) x (cmp_value c) = Some True)"

definition in_bounds :: "js_num \<Rightarrow> js_num \<times> js_num \<Rightarrow> bool" where
  "in_bounds x bounds \<longleftrightarrow> num_le (fst bounds) x \<and> num_lt x (snd bounds)"

definition safe_comparison :: "time_comparison \<Rightarrow> bool" where
  "safe_comparison c \<longleftrightarrow> is_safe_integer (cmp_value c) \<and> cmp_operator c \<in> {EqOp, GeOp, GtOp, LeOp, LtOp}"

lemma narrow_exact:
  assumes "safe_comparison c" and "integer x n" and "integer (fst bounds) i" and "integer (snd bounds) j"
  shows "in_bounds x (narrow c bounds) \<longleftrightarrow> in_bounds x bounds \<and> holds_at x c"
    and "\<exists>i' j'. integer (fst (narrow c bounds)) i' \<and> integer (snd (narrow c bounds)) j'"
proof -
  obtain k where k: "integer (cmp_value c) k" "\<bar>k\<bar> < 2 ^ 53" using assms(1) safe_integerE by (auto simp: safe_comparison_def)
  note s = integer_succ [OF k]
  obtain start stop where b: "bounds = (start, stop)" by fastforce
  have ij: "integer start i" "integer stop j" using assms(3,4) b by simp_all
  note cmp = integer_compare [OF assms(2) k(1)] integer_compare [OF k(1) assms(2)] integer_compare [OF ij(1) assms(2)]
    integer_compare [OF assms(2) ij(2)]
    integer_compare [OF integer_max [OF ij(1) k(1)] assms(2)] integer_compare [OF integer_max [OF ij(1) s] assms(2)]
    integer_compare [OF assms(2) integer_min [OF ij(2) k(1)]] integer_compare [OF assms(2) integer_min [OF ij(2) s]]
  have "cmp_operator c \<in> {EqOp, GeOp, GtOp, LeOp, LtOp}" using assms(1) by (simp add: safe_comparison_def)
  then show "in_bounds x (narrow c bounds) \<longleftrightarrow> in_bounds x bounds \<and> holds_at x c"
    unfolding in_bounds_def narrow_def b holds_at_def by (elim insertE emptyE) (auto simp: cmp Let_def)
  show "\<exists>i' j'. integer (fst (narrow c bounds)) i' \<and> integer (snd (narrow c bounds)) j'"
    using ij integer_max [OF ij(1) k(1)] integer_max [OF ij(1) s] integer_min [OF ij(2) k(1)] integer_min [OF ij(2) s]
    unfolding narrow_def b by (cases "cmp_operator c") (auto simp: Let_def)
qed

lemma fold_narrow_exact:
  "list_all safe_comparison cs \<Longrightarrow> integer x n \<Longrightarrow> \<exists>i j. integer (fst bounds) i \<and> integer (snd bounds) j \<Longrightarrow>
   in_bounds x (fold narrow cs bounds) \<longleftrightarrow> in_bounds x bounds \<and> list_all (holds_at x) cs"
proof (induction cs arbitrary: bounds)
  case (Cons c cs)
  from Cons.prems obtain i j where ij: "integer (fst bounds) i" "integer (snd bounds) j" and c: "safe_comparison c" by auto
  note step = narrow_exact [OF c Cons.prems(2) ij]
  with Cons.IH [OF _ Cons.prems(2) step(2)] Cons.prems(1) show ?case by auto
qed simp

lemma DOMAINS_integer: "\<exists>i j. integer (fst (DOMAINS f)) i \<and> integer (snd (DOMAINS f)) j"
  by (rule exI [of _ "\<lfloor>num_value (fst (DOMAINS f))\<rfloor>"], rule exI [of _ "\<lfloor>num_value (snd (DOMAINS f))\<rfloor>"])
    (cases f; simp add: integer_def)

theorem time_range_exact:
  assumes "cs \<noteq> []" and "list_all safe_comparison cs" and "integer x n" and "in_bounds x (DOMAINS (cmp_name (hd cs)))"
  shows "in_bounds x (time_range cs) \<longleftrightarrow> list_all (holds_at x) cs"
  using fold_narrow_exact [OF assms(2,3) DOMAINS_integer] assms(4) by (simp add: time_range_def)

subsection \<open>Evaluation\<close>

lemma time_call_value:
  assumes "times_agree env s" and "zone_values env (trim z) = Inr tv" and "is_safe_integer (time_value f tv)"
  shows "\<exists>s'. evaluate_at (Suc (Suc k)) env (Call (F_time f) [Literal (LStr z) i a b] c d) s =
     Inr (\<lparr>rv_value = VNum (time_value f tv), rv_integer = True\<rparr>, s') \<and> times_agree env s'"
proof -
  have fin: "is_finite (time_value f tv)" using assms(3) by (simp add: is_safe_integer_def is_integer_def)
  have z: "eval_string (evaluate_at (Suc k) env) (Literal (LStr z) i a b) s = Inr (z, s)"
    by (simp add: eval_string_def evaluate_at.simps(2) [of k] evaluate_node_def check_value_def)
  show ?thesis
  proof (cases "map_of (rt_times s) (trim z)")
    case None
    have "times_agree env (s\<lparr>rt_times := entries_put (trim z) tv (rt_times s)\<rparr>)"
      using times.rel_time [of s "trim z" env] None assms(1,2) by (auto simp: zone_values_def)
    with None z assms fin show ?thesis
      by (simp add: evaluate_at.simps(2) [of "Suc k"] evaluate_node_def eval_call_def eval_time_def zone_values_def check_value_def)
  next
    case (Some tv')
    with assms(1,2) have "tv' = tv" by (auto simp: times_agree_def unbounded.agrees_def)
    with Some z assms fin show ?thesis
      by (simp add: evaluate_at.simps(2) [of "Suc k"] evaluate_node_def eval_call_def eval_time_def check_value_def)
  qed
qed

lemma timeComparison_Some:
  assumes "timeComparison n = Some c"
  obtains z i a b args u v i' a' b' s e where
    "n = Binary (cmp_operator c) (Call (F_time (cmp_name c)) (Literal (LStr z) i a b # args) u v) (Literal (LNum (cmp_value c)) i' a' b') s e"
    and "cmp_timezone c = (if trim z \<noteq> [] then trim z else js ''UTC'')" and "cmp_operator c \<in> {EqOp, GeOp, GtOp, LeOp, LtOp}"
  using assms
  by (auto simp: timeComparison_def split: expression_node.splits billing_function.splits list.splits literal_value.splits if_splits)

lemma zone_of_literal:
  assumes "cmp_timezone c = (if trim z \<noteq> [] then trim z else js ''UTC'')"
  shows "timeInBillingZone host now (trim z) = timeInBillingZone host now (cmp_timezone c)"
proof -
  have "trim (js ''UTC'') = js ''UTC''" "trim [] = ([] :: js_string)" by code_simp+
  then show ?thesis using assms by (cases "trim z = []") (simp_all only: timeInBillingZone_def Let_def trim_trim simp_thms if_True if_False if_cancel not_True_eq_False not_False_eq_True)
qed

lemma comparison_value:
  assumes c: "timeComparison n = Some c" and wf: "wf_tree n" and h: "height n < k" and s: "times_agree env s"
    and tv: "timeInBillingZone (env_host env) (env_now env) (cmp_timezone c) = Inr tv" and safe: "is_safe_integer (time_value (cmp_name c) tv)"
  shows "\<exists>s'. evaluate_at k env n s = Inr (plain (VBool (holds_at (time_value (cmp_name c) tv) c)), s') \<and> times_agree env s'"
  using c
proof (rule timeComparison_Some)
  fix z i a b args u v i' a' b' st e
  assume n: "n = Binary (cmp_operator c) (Call (F_time (cmp_name c)) (Literal (LStr z) i a b # args) u v)
      (Literal (LNum (cmp_value c)) i' a' b') st e" (is "_ = Binary ?op ?l ?r st e")
    and z: "cmp_timezone c = (if trim z \<noteq> [] then trim z else js ''UTC'')" and op: "cmp_operator c \<in> {EqOp, GeOp, GtOp, LeOp, LtOp}"
  have wl: "wf_tree ?l" "wf_tree ?r" using wf by (rule wf_tree_child; simp add: n)+
  then have args: "args = []" by (simp add: wf_tree.simps [of ?l])
  have "Suc (height ?l) \<le> height n" "Suc (height (Literal (LStr z) i a b)) \<le> height ?l" by (rule height_child; simp add: n)+
  with h obtain j where j: "k = Suc (Suc (Suc j))"
    by (metis Suc_leD less_imp_Suc_add Suc_le_lessD less_Suc_eq_le old.nat.exhaust not_less_zero Suc_le_mono)
  have "zone_values env (trim z) = Inr tv" using tv zone_of_literal [OF z] by (simp add: zone_values_def)
  from time_call_value [OF s this safe, of j i a b u v] obtain s' where
    l: "evaluate_at (Suc (Suc j)) env ?l s = Inr (\<lparr>rv_value = VNum (time_value (cmp_name c) tv), rv_integer = True\<rparr>, s')" "times_agree env s'"
    unfolding args by blast
  have "evaluate_node (evaluate_at (Suc (Suc j)) env) env n s = Inr (plain (VBool (holds_at (time_value (cmp_name c) tv) c)), s')"
    using op by (elim insertE emptyE) (simp_all add: n evaluate_node_def eval_binary_def l evaluate_number_literal [OF wl(2)] apply_operator_def
        equality_def holds_at_def)
  then show ?thesis using l(2) by (simp add: j evaluate_at.simps(2) [of "Suc (Suc j)"] check_value_def)
qed

lemma conjunction_value:
  assumes tv: "timeInBillingZone (env_host env) (env_now env) zone = Inr tv" and safe: "is_safe_integer (time_value f tv)"
  shows "map_option_list timeComparison (flattenBinary n AndOp) = Some cs \<Longrightarrow>
    list_all (\<lambda>c. cmp_name c = f \<and> cmp_timezone c = zone) cs \<Longrightarrow> wf_tree n \<Longrightarrow> height n < k \<Longrightarrow> times_agree env s \<Longrightarrow>
    \<exists>s'. evaluate_at k env n s = Inr (plain (VBool (list_all (holds_at (time_value f tv)) cs)), s') \<and> times_agree env s'"
proof (induction n "AndOp" arbitrary: cs k s rule: flattenBinary.induct)
  case (1 op' l r a b)
  let ?n = "Binary op' l r a b"
  show ?case
  proof (cases "op' = AndOp")
    case True
    from "1.prems"(1) True obtain ls rs where
      ls: "map_option_list timeComparison (flattenBinary l AndOp) = Some ls"
      and rs: "map_option_list timeComparison (flattenBinary r AndOp) = Some rs" and cs: "cs = ls @ rs"
      by (auto simp: map_option_list_append split: option.splits)
    from "1.prems"(4) obtain j where j: "k = Suc j" by (cases k) auto
    have h: "height l < j" "height r < j"
      using height_child [of l ?n] height_child [of r ?n] "1.prems"(4) j by simp_all
    have sub: "wf_tree l" "wf_tree r" using "1.prems"(3) by (simp_all add: wf_tree_child)
    obtain s1 where s1: "evaluate_at j env l s = Inr (plain (VBool (list_all (holds_at (time_value f tv)) ls)), s1)" "times_agree env s1"
      using "1.hyps"(1) [of ls j s] True ls sub(1) h(1) "1.prems"(2,5) cs by auto
    obtain s2 where s2: "evaluate_at j env r s1 = Inr (plain (VBool (list_all (holds_at (time_value f tv)) rs)), s2)" "times_agree env s2"
      using "1.hyps"(2) [of rs j s1] True rs sub(2) h(2) "1.prems"(2) s1(2) cs by auto
    have "\<exists>s'. evaluate_node (evaluate_at j env) env ?n s = Inr (plain (VBool (list_all (holds_at (time_value f tv)) cs)), s') \<and> times_agree env s'"
      using s1 s2 True cs by (simp add: evaluate_node_def eval_binary_def eval_boolean_def)
    then show ?thesis by (auto simp: j evaluate_at.simps(2) [of j] check_value_def)
  next
    case False
    with "1.prems"(1) obtain c where c: "timeComparison ?n = Some c" "cs = [c]" by (auto split: option.splits)
    with comparison_value [OF c(1) "1.prems"(3-5)] tv safe "1.prems"(2) show ?thesis by auto
  qed
qed (simp_all add: timeComparison_def)

lemma map_option_list_origin: "map_option_list f xs = Some ys \<Longrightarrow> y \<in> set ys \<Longrightarrow> \<exists>x\<in>set xs. f x = Some y"
  by (induction xs arbitrary: ys) (auto split: option.splits)

theorem shown_range_is_evaluated:
  assumes cs: "map_option_list timeComparison (flattenBinary n AndOp) = Some cs"
    and same: "list_all (\<lambda>c. cmp_name c = f \<and> cmp_timezone c = zone) cs" and safe: "list_all (\<lambda>c. is_safe_integer (cmp_value c)) cs"
    and wf: "wf_tree n" and h: "height n < 256"
    and tv: "timeInBillingZone host now zone = Inr tv" and v: "integer (time_value f tv) v" "in_bounds (time_value f tv) (DOMAINS f)"
  shows "evaluateBillingCondition host compiled n now = Some (in_bounds (time_value f tv) (time_range cs))"
proof -
  let ?ctx = "\<lparr>ctx_tokens = None, ctx_request = None, ctx_usage = None, ctx_now = Some now\<rparr>"
  obtain env st where new: "new_runtime host compiled ?ctx = Inr (env, st)" by (simp add: new_runtime_def context_headers_def)
  then have env: "env_host env = host" "env_now env = now" "times_agree env st"
    using new_runtime_state [OF new] by (auto simp: new_runtime_def context_headers_def)
  have dom: "is_safe_integer (time_value f tv)"
  proof -
    have "0 \<le> num_value (time_value f tv) \<and> num_value (time_value f tv) \<le> 60"
      using v by (cases f; cases "time_value f tv") (auto simp: in_bounds_def integer_def num_le_def)
    with v(1) show ?thesis by (auto simp: is_safe_integer_def is_integer_def integer_def)
  qed
  have ne: "cs \<noteq> []" using cs flatten_nonempty [of n AndOp] by (cases "flattenBinary n AndOp") (auto split: option.splits)
  have ops: "list_all safe_comparison cs"
  proof -
    have "safe_comparison c" if "c \<in> set cs" for c
    proof -
      from cs that obtain m where "timeComparison m = Some c" using map_option_list_origin by metis
      then show ?thesis using safe that by (auto simp: safe_comparison_def list_all_iff elim: timeComparison_Some)
    qed
    then show ?thesis by (simp add: list_all_iff)
  qed
  have hd: "cmp_name (hd cs) = f" using same ne by (cases cs) auto
  obtain s' where "evaluate_at 256 env n st = Inr (plain (VBool (list_all (holds_at (time_value f tv)) cs)), s')"
    using conjunction_value [OF _ dom cs same wf h env(3)] tv env(1,2) by auto
  moreover have "list_all (holds_at (time_value f tv)) cs \<longleftrightarrow> in_bounds (time_value f tv) (time_range cs)"
    using time_range_exact [OF ne ops v(1)] v(2) hd by simp
  ultimately show ?thesis using new by (simp add: evaluateBillingCondition_def evaluate_def)
qed

end
