(* ===== verification/Page_Samples.thy ===== *)
theory Page_Samples
  imports Samples Tier_Samples Price_Correct Task_Display Condition_Correct
begin

section \<open>Samples of the pricing page\<close>

subsection \<open>Models\<close>

definition sample_model :: "js_string \<Rightarrow> js_num \<Rightarrow> js_string list \<Rightarrow> (js_string, js_num) entries \<Rightarrow> pricing_model" where
  "sample_model name ratio groups ratios =
     \<lparr>pm_model_name = name, pm_description = None, pm_vendor_name = None, pm_quota_type = Fin 0, pm_model_ratio = ratio,
      pm_completion_ratio = Fin 1, pm_model_price = None, pm_cache_ratio = None, pm_create_cache_ratio = None,
      pm_image_ratio = None, pm_audio_ratio = None, pm_audio_completion_ratio = None, pm_enable_groups = Some groups,
      pm_tags = None, pm_supported_endpoint_types = None, pm_group_ratio = Some ratios, pm_billing_mode = None,
      pm_billing_expr = None, pm_billing_usage_schema = None, pm_billing_usage_examples = None\<rparr>"

definition dear_model :: pricing_model where
  "dear_model = sample_model (js ''a'') (Fin 2) [js ''vip'', js ''all''] [(js ''all'', Fin 3), (js ''vip'', Fin 2)]"

definition cheap_model :: pricing_model where
  "cheap_model = sample_model (js ''b'') (Fin 1) [js ''vip''] [(js ''vip'', Fin 2)]"

definition cheapest_filters :: model_filters where
  "cheapest_filters =
     \<lparr>mf_search = [], mf_vendor = FILTER_ALL, mf_group = js ''vip'', mf_quotaType = FILTER_ALL, mf_endpointType = FILTER_ALL,
      mf_tag = FILTER_ALL, mf_sortBy = js ''price-low''\<rparr>"

lemma sample_models_priced: "\<forall>m\<in>set [dear_model, cheap_model]. has_price m"
proof -
  have "is_double (getModelPrice dear_model)" "is_double (getModelPrice cheap_model)" by code_simp+
  moreover have "getModelPrice dear_model = Fin 2" "getModelPrice cheap_model = Fin 1" by code_simp+
  ultimately show ?thesis by (simp add: has_price_def)
qed

lemma sample_models_listed:
  "filterAndSortModels id sample_collation [dear_model, cheap_model] cheapest_filters = [cheap_model, dear_model]"
  by code_simp

lemma dear_model_ratios: "Fin 3 \<in> configured_ratios dear_model"
  by (simp add: configured_ratios_def dear_model_def sample_model_def enabled_groups_def js_def)

subsection \<open>Task prices\<close>

definition sample_pricing :: "dynamic_tier list" where
  "sample_pricing = map TaskPricing (taskMatrixToTiers sample_collation sample_matrix sample_schema)"

lemma sample_pricing_range: "price_range sample_pricing (js ''secs'') = Some (Fin 2, Fin 4)"
  by code_simp

definition sample_fallback :: "task_tier list" where
  "sample_fallback =
     [\<lparr>tk_label = js ''std'', tk_conditions = [\<lparr>tk_field = js ''mode'', tk_value = js ''std''\<rparr>], tk_constant = Fin 1, tk_unit_prices = []\<rparr>,
      \<lparr>tk_label = js ''pro'', tk_conditions = [], tk_constant = Fin 3, tk_unit_prices = []\<rparr>]"

lemma sample_fallback_named:
  "map tk_conditions (display_tiers sample_schema sample_fallback) =
   [[\<lparr>tk_field = js ''mode'', tk_value = js ''std''\<rparr>], [\<lparr>tk_field = js ''mode'', tk_value = js ''pro''\<rparr>]]"
  by code_simp

lemma sample_fallback_changed: "display_tiers sample_schema sample_fallback \<noteq> sample_fallback"
  using sample_fallback_named by (auto simp: sample_fallback_def)

lemma sample_in_domain: "in_domain sample_schema (butlast sample_fallback) pro_sample"
  by code_simp

subsection \<open>Times\<close>

definition hour_comparison :: "operator \<Rightarrow> rat \<Rightarrow> nat \<Rightarrow> expression_node" where
  "hour_comparison op h s =
     Binary op (Call (F_time T_hour) [Literal (LStr (js ''UTC'')) False (s + 5) (s + 10)] s (s + 11)) (Literal (LNum (Fin h)) True (s + 14) (s + 15)) s (s + 15)"

definition working_hours :: expression_node where
  "working_hours = Binary AndOp (hour_comparison GeOp 0 0) (hour_comparison LtOp 8 19) 0 34"

definition working_range :: "time_comparison list" where
  "working_range =
     [\<lparr>cmp_name = T_hour, cmp_timezone = js ''UTC'', cmp_operator = GeOp, cmp_value = Fin 0\<rparr>,
      \<lparr>cmp_name = T_hour, cmp_timezone = js ''UTC'', cmp_operator = LtOp, cmp_value = Fin 8\<rparr>]"

lemma working_hours_comparisons: "map_option_list timeComparison (flattenBinary working_hours AndOp) = Some working_range"
  by code_simp

lemma working_hours_wf: "wf_tree working_hours"
  by code_simp

lemma working_hours_shallow: "height working_hours < 256"
  by (simp add: working_hours_def hour_comparison_def height_nodes)

lemma midnight: "timeInBillingZone sample_host (Some 0) (js ''UTC'') = Inr (utc_values 0)" "tv_hour (utc_values 0) = Fin 0"
proof -
  have "trim (js ''UTC'') = js ''UTC''" "js ''UTC'' \<noteq> []" "js ''UTC'' \<noteq> js ''Local''" "zone_formatter sample_host (js ''UTC'') = None" by code_simp+
  then show "timeInBillingZone sample_host (Some 0) (js ''UTC'') = Inr (utc_values 0)" by (simp add: timeInBillingZone_def)
qed code_simp

subsection \<open>Amounts\<close>

definition token_store :: stored_currency where
  "token_store = \<lparr>st_displayInCurrency = None, st_quotaDisplayType = Some DT_TOKENS, st_quotaPerUnit = None, st_usdExchangeRate = None,
     st_customCurrencySymbol = None, st_customCurrencyExchangeRate = None\<rparr>"

lemma token_store_config:
  "quotaDisplayType (getConfig (Some token_store)) = DT_TOKENS"
  "num_mul (Fin 2) (quotaPerUnit (getConfig (Some token_store))) = Fin 1000000"
  "\<not> compact (mergeOptions None)" "abbreviate (mergeOptions None)"
  by code_simp+

subsection \<open>A model with both units\<close>

definition mixed_model :: pricing_model where
  "mixed_model = dear_model\<lparr>pm_billing_mode := Some (js ''tiered_expr''), pm_billing_expr := Some chain_source\<rparr>"

lemma mixed_model_parts:
  "isDynamicPricingModel mixed_model" "\<not> isTaskUsagePricingModel mixed_model"
  "split_model mixed_model = Inr \<lparr>billingExpr = chain_source, requestRuleExpr = []\<rparr>"
  "hasDynamicRequestRules mixed_model = Inr False"
  by code_simp+

lemma chain_reads:
  "readTokenTierChain chain_tree \<noteq> None" "timeTierBranches chain_source chain_tree [] = Inr None" "chain_source \<noteq> []"
  by code_simp+

lemma chain_units: "map tt_unit (the (readTokenTierChain chain_tree)) = [UnitToken, UnitRequest]"
  by code_simp

abbreviation mixed_tiers :: "dynamic_tier list" where
  "mixed_tiers \<equiv> map (\<lambda>t. TokenPricing (mapTokenTier t None)) (the (readTokenTierChain chain_tree))"

lemma mixed_tiers_read:
  obtains cache where "getDynamicPricingTiers host mixed_model [] = (Inr mixed_tiers, cache)" and "cache_agrees cache"
proof -
  obtain c where c: "compileBillingExpression chain_source [] = (Inr chain_compiled, c)" "cache_agrees c"
    using compile_step [OF empty_cache_agrees, of chain_source] chain_compiles by (metis prod.collapse)
  have ast: "comp_ast chain_compiled = chain_tree" by (simp add: chain_compiled_def)
  obtain ts where "readTokenTierChain chain_tree = Some ts" using chain_reads(1) by blast
  then have "getDynamicPricingTiers host mixed_model [] = (Inr mixed_tiers, c)"
    using chain_reads(3) by (simp add: getDynamicPricingTiers_def mixed_model_parts bind_cached_def parseTiersFromExpr_def c(1) ast)
  with c(2) that show ?thesis by blast
qed

lemma mixed_summary:
  obtains s where "fst (getDynamicPricingSummary intl stored host collate mixed_model opts []) = Inr (Some s)"
    and "\<not> ds_isTimePricing s" and "\<not> ds_isTaskUsage s" and "ds_tiers s = mixed_tiers"
proof -
  obtain cache where t: "getDynamicPricingTiers host mixed_model [] = (Inr mixed_tiers, cache)" "cache_agrees cache"
    by (rule mixed_tiers_read)
  have "readTimeTokenPricing host chain_source now cache = (Inr None, snd (compileBillingExpression chain_source cache))" for now
    using compile_step(1) [OF t(2), of chain_source] chain_compiles chain_reads(2)
    by (simp add: readTimeTokenPricing_def split_beta read_time_pricing_def chain_compiled_def)
  then have "\<exists>s. fst (getDynamicPricingSummary intl stored host collate mixed_model opts []) = Inr (Some s) \<and>
      \<not> ds_isTimePricing s \<and> \<not> ds_isTaskUsage s \<and> ds_tiers s = mixed_tiers"
    by (simp add: getDynamicPricingSummary_def mixed_model_parts t(1) bind_cached_def getCurrentTimePricingTiers_def Let_def split_beta)
  with that show ?thesis by blast
qed

lemma mixed_tiers_units:
  "\<exists>t. TokenPricing t \<in> set mixed_tiers \<and> pt_billingUnit t \<noteq> Some UnitRequest"
  "\<exists>t. TokenPricing t \<in> set mixed_tiers \<and> pt_billingUnit t = Some UnitRequest"
proof -
  obtain a b where ab: "the (readTokenTierChain chain_tree) = [a, b]" "tt_unit a = UnitToken" "tt_unit b = UnitRequest"
    using chain_units unfolding map_eq_Cons_conv by blast
  have m: "mixed_tiers = [TokenPricing (mapTokenTier a None), TokenPricing (mapTokenTier b None)]"
    unfolding ab(1) by simp
  have "pt_billingUnit (mapTokenTier a None) \<noteq> Some UnitRequest" "pt_billingUnit (mapTokenTier b None) = Some UnitRequest"
    using ab(2,3) by (simp_all add: mapTokenTier_def)
  then show "\<exists>t. TokenPricing t \<in> set mixed_tiers \<and> pt_billingUnit t \<noteq> Some UnitRequest"
    and "\<exists>t. TokenPricing t \<in> set mixed_tiers \<and> pt_billingUnit t = Some UnitRequest"
    unfolding m by auto
qed

end
