(* ===== verification/Auth_Store.thy ===== *)
theory Auth_Store
  imports Js_Json
begin

section \<open>The session of the signed-in user (auth-store.ts, auth-session-sync.ts, session-hint.ts)\<close>

text \<open>
  The store of the session, the checks of what the server sends about a session, the events by
  which tabs tell each other of it, and the hint cookie. Users and sessions are kept as the
  values that the server sent; the checks make sure of the properties that the program reads.
\<close>

subsection \<open>Properties of values\<close>

definition property :: "js_value \<Rightarrow> string \<Rightarrow> js_value" where
  "property v name =
     (case v of VObj es \<Rightarrow> (case map_of es (js name) of Some x \<Rightarrow> x | None \<Rightarrow> VUndefined) | _ \<Rightarrow> VUndefined)"

fun is_text :: "js_value \<Rightarrow> bool" where
  "is_text (VStr _) = True"
| "is_text _ = False"

fun is_full_text :: "js_value \<Rightarrow> bool" where
  "is_full_text (VStr s) = (s \<noteq> [])"
| "is_full_text _ = False"

fun is_number :: "js_value \<Rightarrow> bool" where
  "is_number (VNum _) = True"
| "is_number _ = False"

fun is_flag :: "js_value \<Rightarrow> bool" where
  "is_flag (VBool _) = True"
| "is_flag _ = False"

fun text_of :: "js_value \<Rightarrow> js_string" where
  "text_of (VStr s) = s"
| "text_of _ = []"

fun number_of :: "js_value \<Rightarrow> js_num" where
  "number_of (VNum x) = x"
| "number_of _ = NaN"

definition isRecord :: "js_value \<Rightarrow> bool" where
  "isRecord v = (case v of VObj _ \<Rightarrow> True | VArr _ \<Rightarrow> True | _ \<Rightarrow> False)"

subsection \<open>Bundles\<close>

record auth_bundle =
  ab_access_token :: js_string
  ab_token_type :: js_string
  ab_access_expires_at :: js_num
  ab_user :: js_value
  ab_session :: js_value

definition isAuthUser :: "js_value \<Rightarrow> bool" where
  "isAuthUser v \<longleftrightarrow>
     isRecord v \<and> (case property v ''id'' of VNum x \<Rightarrow> is_integer x \<and> num_lt (Fin 0) x | _ \<Rightarrow> False) \<and>
     is_text (property v ''username'') \<and> is_number (property v ''role'')"

definition isLoginSession :: "js_value \<Rightarrow> bool" where
  "isLoginSession v \<longleftrightarrow>
     isRecord v \<and> is_full_text (property v ''sid'') \<and> is_flag (property v ''current'') \<and> is_text (property v ''login_method'') \<and>
     is_text (property v ''ip'') \<and> is_text (property v ''user_agent'') \<and> is_number (property v ''created_at'') \<and>
     is_number (property v ''last_active_at'') \<and> is_number (property v ''expires_at'')"

definition hasValidTokenFields :: "js_value \<Rightarrow> bool" where
  "hasValidTokenFields v \<longleftrightarrow>
     is_full_text (property v ''access_token'') \<and> is_full_text (property v ''token_type'') \<and>
     (case property v ''access_expires_at'' of VNum x \<Rightarrow> is_finite x \<and> num_lt (Fin 0) x | _ \<Rightarrow> False)"

definition isAuthBundle :: "js_value \<Rightarrow> bool" where
  "isAuthBundle v \<longleftrightarrow>
     isRecord v \<and> hasValidTokenFields v \<and> isAuthUser (property v ''user'') \<and> isLoginSession (property v ''session'')"

definition isAuthTokenRotation :: "js_value \<Rightarrow> bool" where
  "isAuthTokenRotation v \<longleftrightarrow>
     isRecord v \<and> hasValidTokenFields v \<and> property v ''token_type'' = VStr (js ''Bearer'') \<and>
     isLoginSession (property v ''session'') \<and> property (property v ''session'') ''current'' = VBool True"

text \<open>The value read as the fields of a bundle.\<close>

definition bundle_of :: "js_value \<Rightarrow> js_value \<Rightarrow> auth_bundle" where
  "bundle_of v user =
     \<lparr>ab_access_token = text_of (property v ''access_token''), ab_token_type = text_of (property v ''token_type''),
      ab_access_expires_at = number_of (property v ''access_expires_at''), ab_user = user, ab_session = property v ''session''\<rparr>"

definition parseBundle :: "js_value \<Rightarrow> auth_bundle option" where
  "parseBundle v = (if isAuthBundle v then Some (bundle_of v (property v ''user'')) else None)"

subsection \<open>The store\<close>

datatype bootstrap_state = BS_idle | BS_checking | BS_complete

record auth_state =
  as_user :: "js_value option"
  as_accessToken :: "js_string option"
  as_accessExpiresAt :: "js_num option"
  as_session :: "js_value option"
  as_pendingLoginVerification :: "js_value option"
  as_bootstrapState :: bootstrap_state

definition initial_auth :: auth_state where
  "initial_auth =
     \<lparr>as_user = None, as_accessToken = None, as_accessExpiresAt = None, as_session = None, as_pendingLoginVerification = None,
      as_bootstrapState = BS_idle\<rparr>"

definition setBundle :: "auth_bundle \<Rightarrow> auth_state \<Rightarrow> auth_state" where
  "setBundle bundle auth =
     auth\<lparr>as_user := Some (ab_user bundle), as_accessToken := Some (ab_access_token bundle),
          as_accessExpiresAt := Some (ab_access_expires_at bundle), as_session := Some (ab_session bundle),
          as_pendingLoginVerification := None, as_bootstrapState := BS_complete\<rparr>"

definition user_id :: "js_value option \<Rightarrow> js_value" where
  "user_id user = (case user of Some u \<Rightarrow> property u ''id'' | None \<Rightarrow> VUndefined)"

definition setUser :: "js_value option \<Rightarrow> auth_state \<Rightarrow> auth_state" where
  "setUser user auth =
     auth\<lparr>as_user := user,
          as_pendingLoginVerification :=
            (if strict_eq (user_id (as_user auth)) (user_id user) then as_pendingLoginVerification auth else None)\<rparr>"

definition setPendingLoginVerification :: "js_value option \<Rightarrow> auth_state \<Rightarrow> auth_state" where
  "setPendingLoginVerification pending auth = auth\<lparr>as_pendingLoginVerification := pending\<rparr>"

definition setBootstrapState :: "bootstrap_state \<Rightarrow> auth_state \<Rightarrow> auth_state" where
  "setBootstrapState s auth = auth\<lparr>as_bootstrapState := s\<rparr>"

definition reset_auth :: "bootstrap_state \<Rightarrow> auth_state \<Rightarrow> auth_state" where
  "reset_auth s auth =
     auth\<lparr>as_user := None, as_accessToken := None, as_accessExpiresAt := None, as_session := None,
          as_pendingLoginVerification := None, as_bootstrapState := s\<rparr>"

definition session_sid :: "js_value \<Rightarrow> js_string" where
  "session_sid session = text_of (property session ''sid'')"

definition current_sid :: "auth_state \<Rightarrow> js_string option" where
  "current_sid auth = map_option session_sid (as_session auth)"

subsection \<open>Events between tabs\<close>

datatype sync_kind = SK_authenticated | SK_signed_out

record sync_event =
  se_kind :: sync_kind
  se_sid :: js_string
  se_source :: js_string
  se_nonce :: js_string
  se_timestamp :: js_num

definition sync_kind_of :: "js_value \<Rightarrow> sync_kind option" where
  "sync_kind_of v =
     (if v = VStr (js ''authenticated'') then Some SK_authenticated
      else if v = VStr (js ''signed_out'') then Some SK_signed_out else None)"

definition isAuthSessionSyncEvent :: "js_value \<Rightarrow> bool" where
  "isAuthSessionSyncEvent v \<longleftrightarrow>
     isRecord v \<and> sync_kind_of (property v ''kind'') \<noteq> None \<and> is_full_text (property v ''sid'') \<and>
     is_text (property v ''source'') \<and> is_text (property v ''nonce'') \<and> is_number (property v ''timestamp'')"

text \<open>What a listener gets of a message, for the identifier of its own tab and the time.\<close>

definition deliver :: "js_string \<Rightarrow> js_num \<Rightarrow> js_value \<Rightarrow> sync_event option" where
  "deliver authSyncSource now v =
     (if isAuthSessionSyncEvent v \<and> text_of (property v ''source'') \<noteq> authSyncSource \<and>
         num_lt (num_abs (num_sub now (number_of (property v ''timestamp'')))) (Fin 60000)
      then Some \<lparr>se_kind = the (sync_kind_of (property v ''kind'')), se_sid = text_of (property v ''sid''),
                 se_source = text_of (property v ''source''), se_nonce = text_of (property v ''nonce''),
                 se_timestamp = number_of (property v ''timestamp'')\<rparr>
      else None)"

text \<open>The fallback of browsers without broadcast channels: a message is the text of a storage entry.\<close>

definition AUTH_SYNC_STORAGE_KEY :: js_string where
  "AUTH_SYNC_STORAGE_KEY = js ''nexustok:auth-session:event''"

definition handleStorage :: "js_string \<Rightarrow> js_num \<Rightarrow> js_string option \<Rightarrow> js_string option \<Rightarrow> sync_event option" where
  "handleStorage authSyncSource now key newValue =
     (if key \<noteq> Some AUTH_SYNC_STORAGE_KEY then None
      else case newValue of
        None \<Rightarrow> None
      | Some s \<Rightarrow> if s = [] then None else Option.bind (json_parse s) (deliver authSyncSource now))"

subsection \<open>The hint cookie\<close>

fun split_char :: "code_unit \<Rightarrow> js_string \<Rightarrow> js_string list" where
  "split_char c [] = [[]]"
| "split_char c (d # s) =
     (if c = d then [] # split_char c s
      else (case split_char c s of [] \<Rightarrow> [[d]] | p # ps \<Rightarrow> (d # p) # ps))"

fun read_cookie_parts :: "js_string list \<Rightarrow> js_string \<Rightarrow> js_string option" where
  "read_cookie_parts [] name = None"
| "read_cookie_parts (part # parts) name =
     (case find_index (\<lambda>c. c = 61) part of
        None \<Rightarrow> read_cookie_parts parts name
      | Some i \<Rightarrow> if trim (take i part) \<noteq> name then read_cookie_parts parts name else Some (trim (drop (Suc i) part)))"

definition readCookie :: "js_string \<Rightarrow> js_string \<Rightarrow> js_string option" where
  "readCookie cookieHeader name = read_cookie_parts (split_char 59 cookieHeader) name"

definition SESSION_HINT_COOKIE_NAME :: js_string where
  "SESSION_HINT_COOKIE_NAME = js ''new_api_has_session''"

text \<open>The cookies are \<open>None\<close> where there is no document.\<close>

definition hasSessionHint :: "js_string option \<Rightarrow> bool" where
  "hasSessionHint cookies =
     (case cookies of None \<Rightarrow> True | Some s \<Rightarrow> readCookie s SESSION_HINT_COOKIE_NAME \<noteq> None)"

end
