(* ===== verification/Auth_Session.thy ===== *)
theory Auth_Session
  imports Auth_Store
begin

section \<open>Refreshing the session (auth-session.ts, the listener of __root.tsx)\<close>

text \<open>
  The module keeps a counter of changes of the session (\<open>authEpoch\<close>) and the promise of the one
  refresh that is under way (\<open>refreshPromise\<close>). Code runs without interruption between two
  awaits, so a run of the refresh is its position at an await: for the browser lock, for the
  response to a request, for a delay, or settled and not yet forgotten by the \<^verbatim>\<open>finally\<close> of
  \<^verbatim>\<open>refreshAuthentication\<close>. Every other part of the program may run in between; this is the step
  relation at the end. What the browser and the server do (granting or refusing the lock,
  responses, delays, clocks, cookies) are labels of the steps.
\<close>

subsection \<open>State\<close>

datatype refresh_error = Superseded | FailedWith js_value

datatype refresh_outcome =
    Authenticated auth_bundle
  | Anonymous
  | TransientError refresh_error
  | OutOfSync js_string

datatype settlement = Fulfilled refresh_outcome | Rejected js_value

datatype refresh_phase =
    AwaitingLock
  | AwaitingResponse nat bool
  | AwaitingDelay nat bool
  | Settled settlement

text \<open>A run: the epoch in which it was started, where it is, and the session headers of its requests.\<close>

record refresh_run =
  run_epoch :: nat
  run_phase :: refresh_phase
  run_requests :: "js_string option list"

datatype page_effect = ReloadPage | GoToSignIn

record session_world =
  sw_auth :: auth_state
  sw_epoch :: nat
  sw_refresh :: "refresh_run option"
  sw_published :: "(sync_kind \<times> js_string) list"
  sw_effects :: "page_effect list"

definition initial_world :: session_world where
  "initial_world = \<lparr>sw_auth = initial_auth, sw_epoch = 0, sw_refresh = None, sw_published = [], sw_effects = []\<rparr>"

definition publishAuthSessionEvent :: "sync_kind \<Rightarrow> js_string \<Rightarrow> session_world \<Rightarrow> session_world" where
  "publishAuthSessionEvent kind sid w = (if sid = [] then w else w\<lparr>sw_published := sw_published w @ [(kind, sid)]\<rparr>)"

subsection \<open>Changes of the session\<close>

definition applyAuthBundle :: "auth_bundle \<Rightarrow> bool \<Rightarrow> session_world \<Rightarrow> session_world" where
  "applyAuthBundle bundle synchronizeTabs w =
     (let previousSID = current_sid (sw_auth w); sid = session_sid (ab_session bundle);
          w' = w\<lparr>sw_epoch := sw_epoch w + 1, sw_auth := setBundle bundle (sw_auth w)\<rparr> in
      if synchronizeTabs \<and> previousSID \<noteq> Some sid then publishAuthSessionEvent SK_authenticated sid w' else w')"

datatype rotation_error = InvalidRotation | NoActiveSession | SessionMismatch

definition applyAuthRotation :: "js_value \<Rightarrow> session_world \<Rightarrow> rotation_error + session_world" where
  "applyAuthRotation v w =
     (if \<not> isAuthTokenRotation v then Inl InvalidRotation
      else case (as_user (sw_auth w), as_session (sw_auth w)) of
        (Some user, Some session) \<Rightarrow>
          if session_sid (property v ''session'') \<noteq> session_sid session then Inl SessionMismatch
          else Inr (applyAuthBundle (bundle_of v user) False w)
      | _ \<Rightarrow> Inl NoActiveSession)"

definition clearAuthentication :: "bool \<Rightarrow> bootstrap_state \<Rightarrow> session_world \<Rightarrow> session_world" where
  "clearAuthentication synchronizeTabs s w =
     (let sid = current_sid (sw_auth w);
          w' = w\<lparr>sw_epoch := sw_epoch w + 1, sw_auth := reset_auth s (sw_auth w)\<rparr> in
      case sid of Some x \<Rightarrow> if synchronizeTabs then publishAuthSessionEvent SK_signed_out x w' else w' | None \<Rightarrow> w')"

subsection \<open>The runner of a refresh\<close>

record auth_refresh_response =
  rs_status :: js_num
  rs_data :: js_value
  rs_error :: js_value

text \<open>What the HTTP library answers: a response, an error of its own with the response if there was one, or another exception.\<close>

datatype http_answer = HttpOk js_num js_value | HttpError "(js_num \<times> js_value) option" js_value | HttpThrow js_value

fun requestRefresh :: "http_answer \<Rightarrow> auth_refresh_response" where
  "requestRefresh (HttpOk status d) = \<lparr>rs_status = status, rs_data = d, rs_error = VUndefined\<rparr>"
| "requestRefresh (HttpError (Some (status, d)) e) = \<lparr>rs_status = status, rs_data = d, rs_error = e\<rparr>"
| "requestRefresh (HttpError None e) = \<lparr>rs_status = Fin 0, rs_data = VUndefined, rs_error = e\<rparr>"
| "requestRefresh (HttpThrow e) = \<lparr>rs_status = Fin 0, rs_data = VUndefined, rs_error = e\<rparr>"

definition refreshRaceDelays :: "nat list" where
  "refreshRaceDelays = [80, 200, 500]"

definition settle :: "settlement \<Rightarrow> refresh_run \<Rightarrow> session_world \<Rightarrow> session_world" where
  "settle s r w = w\<lparr>sw_refresh := Some (r\<lparr>run_phase := Settled s\<rparr>)\<rparr>"

definition finish :: "refresh_outcome \<Rightarrow> refresh_run \<Rightarrow> session_world \<Rightarrow> session_world" where
  "finish outcome r w = settle (Fulfilled outcome) r w"

definition run_attempt :: "nat \<Rightarrow> bool \<Rightarrow> refresh_run \<Rightarrow> session_world \<Rightarrow> session_world" where
  "run_attempt raceAttempt allowMismatchRetry r w =
     (if sw_epoch w \<noteq> run_epoch r then finish (TransientError Superseded) r w
      else w\<lparr>sw_refresh := Some (r\<lparr>run_phase := AwaitingResponse raceAttempt allowMismatchRetry,
                                  run_requests := run_requests r @ [current_sid (sw_auth w)]\<rparr>)\<rparr>)"

definition response_code :: "auth_refresh_response \<Rightarrow> js_string option" where
  "response_code response = (case property (rs_data response) ''code'' of VStr s \<Rightarrow> Some s | _ \<Rightarrow> None)"

definition response_bundle :: "auth_refresh_response \<Rightarrow> auth_bundle option" where
  "response_bundle response =
     (if property (rs_data response) ''success'' = VBool True then parseBundle (property (rs_data response) ''data'') else None)"

definition is_transient :: "js_num \<Rightarrow> bool" where
  "is_transient status \<longleftrightarrow> status = NaN \<or> is_zero status \<or> num_le (Fin 500) status \<or> num_eq status (Fin 429)"

definition handle_response :: "auth_refresh_response \<Rightarrow> nat \<Rightarrow> bool \<Rightarrow> refresh_run \<Rightarrow> session_world \<Rightarrow> session_world" where
  "handle_response response raceAttempt allowMismatchRetry r w =
     (if sw_epoch w \<noteq> run_epoch r then finish (TransientError Superseded) r w
      else case response_bundle response of
        Some bundle \<Rightarrow> finish (Authenticated bundle) r (applyAuthBundle bundle False w)
      | None \<Rightarrow>
          (let status = rs_status response; code = response_code response in
           if num_eq status (Fin 409) \<and> code = Some (js ''AUTH_REFRESH_RACE'')
           then (if raceAttempt < length refreshRaceDelays
                 then w\<lparr>sw_refresh := Some (r\<lparr>run_phase := AwaitingDelay (raceAttempt + 1) allowMismatchRetry\<rparr>)\<rparr>
                 else finish (OutOfSync (js ''AUTH_REFRESH_RACE'')) r (clearAuthentication False BS_complete w))
           else if num_eq status (Fin 409) \<and> code = Some (js ''AUTH_SESSION_MISMATCH'')
           then (if allowMismatchRetry
                 then run_attempt 0 False r (w\<lparr>sw_auth := reset_auth BS_idle (sw_auth w)\<rparr>)
                 else finish (OutOfSync (js ''AUTH_SESSION_MISMATCH'')) r (clearAuthentication False BS_complete w))
           else if num_eq status (Fin 401) then finish Anonymous r (clearAuthentication True BS_complete w)
           else if is_transient status
           then finish (TransientError (FailedWith (if is_nullish (rs_error response) then rs_data response else rs_error response))) r
                  (w\<lparr>sw_auth := setBootstrapState BS_idle (sw_auth w)\<rparr>)
           else finish (OutOfSync (case code of Some c \<Rightarrow> c | None \<Rightarrow> js ''AUTH_INVALID_REFRESH_RESPONSE'')) r
                  (clearAuthentication False BS_complete w)))"

subsection \<open>Starting a refresh\<close>

text \<open>What \<^verbatim>\<open>navigator.locks\<close> is: absent, present, or present with a request that throws at once.\<close>

datatype lock_service = NoLocks | Locks | LocksThrow js_value

definition performRefreshWithBrowserLock :: "lock_service \<Rightarrow> session_world \<Rightarrow> session_world" where
  "performRefreshWithBrowserLock locks w =
     (let r = \<lparr>run_epoch = sw_epoch w, run_phase = AwaitingLock, run_requests = []\<rparr> in
      case locks of
        NoLocks \<Rightarrow> run_attempt 0 True r w
      | Locks \<Rightarrow> w\<lparr>sw_refresh := Some r\<rparr>
      | LocksThrow e \<Rightarrow> finish (TransientError (FailedWith e)) r (w\<lparr>sw_auth := setBootstrapState BS_idle (sw_auth w)\<rparr>))"

definition refreshAuthentication :: "lock_service \<Rightarrow> session_world \<Rightarrow> session_world" where
  "refreshAuthentication locks w = (if sw_refresh w = None then performRefreshWithBrowserLock locks w else w)"

text \<open>The seconds of the clock, \<^verbatim>\<open>Math.floor(Date.now() / 1000)\<close>, are the parameter \<open>now\<close>.\<close>

definition currentValidAuthBundle :: "js_num \<Rightarrow> auth_state \<Rightarrow> auth_bundle option" where
  "currentValidAuthBundle now auth =
     (case (as_user auth, as_accessToken auth, as_accessExpiresAt auth, as_session auth) of
        (Some user, Some token, Some x, Some session) \<Rightarrow>
          if token = [] \<or> x = NaN \<or> is_zero x \<or> num_le x now then None
          else Some \<lparr>ab_access_token = token, ab_token_type = js ''Bearer'', ab_access_expires_at = x, ab_user = user, ab_session = session\<rparr>
      | _ \<Rightarrow> None)"

text \<open>The answer of an asynchronous operation: at once, or with the refresh that is under way.\<close>

datatype resolution = Resolved refresh_outcome | WithRefresh

definition resolveAuthentication :: "js_num \<Rightarrow> lock_service \<Rightarrow> session_world \<Rightarrow> resolution \<times> session_world" where
  "resolveAuthentication now locks w =
     (case currentValidAuthBundle now (sw_auth w) of
        Some bundle \<Rightarrow> (Resolved (Authenticated bundle), w\<lparr>sw_auth := setBootstrapState BS_complete (sw_auth w)\<rparr>)
      | None \<Rightarrow>
          (let auth = sw_auth w; hasStaleSession = (as_user auth \<noteq> None \<and> as_session auth \<noteq> None) in
           if as_bootstrapState auth = BS_complete \<and> \<not> hasStaleSession then (Resolved Anonymous, w)
           else (WithRefresh, refreshAuthentication locks (w\<lparr>sw_auth := setBootstrapState BS_checking auth\<rparr>))))"

definition bootstrapAuthentication :: "js_num \<Rightarrow> js_string option \<Rightarrow> lock_service \<Rightarrow> session_world \<Rightarrow> resolution \<times> session_world" where
  "bootstrapAuthentication now cookies locks w =
     (if currentValidAuthBundle now (sw_auth w) = None \<and> \<not> hasSessionHint cookies \<and>
         as_user (sw_auth w) = None \<and> as_session (sw_auth w) = None
      then (Resolved Anonymous, w)
      else resolveAuthentication now locks w)"

subsection \<open>Headers of requests\<close>

definition truthy_token :: "auth_state \<Rightarrow> js_string option" where
  "truthy_token auth = (case as_accessToken auth of Some t \<Rightarrow> if t = [] then None else Some t | None \<Rightarrow> None)"

definition getCommonHeaders :: "auth_state \<Rightarrow> (js_string, js_string) entries" where
  "getCommonHeaders auth =
     (js ''Content-Type'', js ''application/json'') #
     (case truthy_token auth of Some t \<Rightarrow> [(js ''Authorization'', js ''Bearer '' @ t)] | None \<Rightarrow> [])"

definition token_lasts :: "auth_state \<Rightarrow> js_num \<Rightarrow> bool" where
  "token_lasts auth limit \<longleftrightarrow>
     truthy_token auth \<noteq> None \<and>
     (case as_accessExpiresAt auth of Some x \<Rightarrow> x \<noteq> NaN \<and> \<not> is_zero x \<and> num_lt limit x | None \<Rightarrow> False)"

text \<open>\<^verbatim>\<open>getFreshAuthHeaders\<close> up to its await, and after it with the outcome and the store at that time.\<close>

definition getFreshAuthHeaders :: "js_num \<Rightarrow> lock_service \<Rightarrow> session_world \<Rightarrow> (js_string, js_string) entries option \<times> session_world" where
  "getFreshAuthHeaders now locks w =
     (if token_lasts (sw_auth w) (num_add now (Fin 60)) then (Some (getCommonHeaders (sw_auth w)), w)
      else (None, refreshAuthentication locks w))"

datatype header_error = RequestFailed refresh_error | SessionExpired

definition fresh_headers :: "refresh_outcome \<Rightarrow> js_num \<Rightarrow> auth_state \<Rightarrow> header_error + (js_string, js_string) entries" where
  "fresh_headers outcome now auth =
     (case outcome of
        Authenticated _ \<Rightarrow> Inr (getCommonHeaders auth)
      | _ \<Rightarrow>
          if token_lasts auth now then Inr (getCommonHeaders auth)
          else (case outcome of TransientError e \<Rightarrow> Inl (RequestFailed e) | _ \<Rightarrow> Inl SessionExpired))"

subsection \<open>Events of other tabs\<close>

definition handle_sync_event :: "sync_event \<Rightarrow> session_world \<Rightarrow> session_world" where
  "handle_sync_event event w =
     (let currentSID = current_sid (sw_auth w) in
      if se_kind event = SK_authenticated
      then (if currentSID = Some (se_sid event) then w
            else
              (let w' = (case currentSID of Some x \<Rightarrow> if x = [] then w else clearAuthentication False BS_complete w | None \<Rightarrow> w) in
               w'\<lparr>sw_effects := sw_effects w' @ [ReloadPage]\<rparr>))
      else if currentSID = Some (se_sid event) \<and> se_sid event \<noteq> []
      then (let w' = clearAuthentication False BS_complete w in w'\<lparr>sw_effects := sw_effects w' @ [GoToSignIn]\<rparr>)
      else w)"

subsection \<open>Steps\<close>

text \<open>Steps of the rest of the program, and steps of the run that is under way.\<close>

datatype session_action =
    SignIn auth_bundle bool
  | Rotate js_value
  | SignOut bool bootstrap_state
  | UserChanged "js_value option"
  | PendingChanged "js_value option"
  | Refresh lock_service
  | Resolve js_num lock_service
  | Bootstrap js_num "js_string option" lock_service
  | FreshHeaders js_num lock_service
  | Message js_string js_num js_value
  | LockGranted
  | LockRefused js_value
  | Response http_answer
  | DelayOver
  | Forgotten

fun is_run_action :: "session_action \<Rightarrow> bool" where
  "is_run_action LockGranted = True"
| "is_run_action (LockRefused _) = True"
| "is_run_action (Response _) = True"
| "is_run_action DelayOver = True"
| "is_run_action _ = False"

inductive session_step :: "session_world \<Rightarrow> session_action \<Rightarrow> session_world \<Rightarrow> bool" where
  sign_in: "session_step w (SignIn bundle sync) (applyAuthBundle bundle sync w)"
| rotate: "applyAuthRotation v w = Inr w' \<Longrightarrow> session_step w (Rotate v) w'"
| rotate_refused: "applyAuthRotation v w = Inl e \<Longrightarrow> session_step w (Rotate v) w"
| sign_out: "session_step w (SignOut sync s) (clearAuthentication sync s w)"
| user_changed: "session_step w (UserChanged u) (w\<lparr>sw_auth := setUser u (sw_auth w)\<rparr>)"
| pending_changed: "session_step w (PendingChanged p) (w\<lparr>sw_auth := setPendingLoginVerification p (sw_auth w)\<rparr>)"
| refresh: "session_step w (Refresh locks) (refreshAuthentication locks w)"
| resolve: "resolveAuthentication now locks w = (res, w') \<Longrightarrow> session_step w (Resolve now locks) w'"
| bootstrap: "bootstrapAuthentication now cookies locks w = (res, w') \<Longrightarrow> session_step w (Bootstrap now cookies locks) w'"
| fresh: "getFreshAuthHeaders now locks w = (h, w') \<Longrightarrow> session_step w (FreshHeaders now locks) w'"
| message: "deliver src now v = Some event \<Longrightarrow> session_step w (Message src now v) (handle_sync_event event w)"
| message_ignored: "deliver src now v = None \<Longrightarrow> session_step w (Message src now v) w"
| lock_granted: "sw_refresh w = Some r \<Longrightarrow> run_phase r = AwaitingLock \<Longrightarrow> session_step w LockGranted (run_attempt 0 True r w)"
| lock_refused: "sw_refresh w = Some r \<Longrightarrow> run_phase r = AwaitingLock \<Longrightarrow> session_step w (LockRefused e) (settle (Rejected e) r w)"
| response: "sw_refresh w = Some r \<Longrightarrow> run_phase r = AwaitingResponse k m \<Longrightarrow>
    session_step w (Response answer) (handle_response (requestRefresh answer) k m r w)"
| delay_over: "sw_refresh w = Some r \<Longrightarrow> run_phase r = AwaitingDelay k m \<Longrightarrow> session_step w DelayOver (run_attempt k m r w)"
| forgotten: "sw_refresh w = Some r \<Longrightarrow> run_phase r = Settled s \<Longrightarrow> session_step w Forgotten (w\<lparr>sw_refresh := None\<rparr>)"

inductive session_steps :: "session_world \<Rightarrow> session_action list \<Rightarrow> session_world \<Rightarrow> bool" where
  none: "session_steps w [] w"
| step: "session_step w a w' \<Longrightarrow> session_steps w' as w'' \<Longrightarrow> session_steps w (a # as) w''"

definition reachable_world :: "session_world \<Rightarrow> bool" where
  "reachable_world w \<longleftrightarrow> (\<exists>as. session_steps initial_world as w)"

end
