(* ===== verification/Auth_Session_Correct.thy ===== *)
theory Auth_Session_Correct
  imports Auth_Session
begin

section \<open>Safety and progress of the session\<close>

text \<open>
  Invariants of the store over all interleavings; that a refresh which a sign-in, a rotation or a
  sign-out has overtaken cannot be seen in the store; and that a refresh comes to its end.
\<close>

lemmas store_defs = setBundle_def setUser_def setPendingLoginVerification_def setBootstrapState_def reset_auth_def

lemmas change_defs = applyAuthBundle_def clearAuthentication_def publishAuthSessionEvent_def handle_sync_event_def

lemmas run_defs = run_attempt_def handle_response_def finish_def settle_def performRefreshWithBrowserLock_def
  refreshAuthentication_def resolveAuthentication_def bootstrapAuthentication_def getFreshAuthHeaders_def

inductive_cases session_stepsE: "session_steps w (a # as) w''"
inductive_cases forgottenE: "session_step w Forgotten w'"

lemma session_steps_invariant:
  assumes "session_steps w as w'" and "I w" and "\<And>w a w'. session_step w a w' \<Longrightarrow> I w \<Longrightarrow> I w'"
  shows "I w'"
  using assms(1,2) by (induction rule: session_steps.induct) (auto intro: assms(3))

lemma reachable_invariant:
  assumes "reachable_world w" and "I initial_world" and "\<And>w a w'. session_step w a w' \<Longrightarrow> I w \<Longrightarrow> I w'"
  shows "I w"
  using assms session_steps_invariant by (metis reachable_world_def)

lemma rotation_cases:
  assumes "applyAuthRotation v w = Inr w'"
  obtains user session where "as_user (sw_auth w) = Some user" "as_session (sw_auth w) = Some session"
    "session_sid (property v ''session'') = session_sid session" "isAuthTokenRotation v" "w' = applyAuthBundle (bundle_of v user) False w"
  using assms by (auto simp: applyAuthRotation_def split: if_splits option.splits)

subsection \<open>Effects on the run\<close>

lemma change_run [simp]:
  "sw_refresh (applyAuthBundle b s w) = sw_refresh w" "sw_refresh (clearAuthentication s st w) = sw_refresh w"
  "sw_refresh (handle_sync_event ev w) = sw_refresh w"
  by (simp_all add: change_defs Let_def split: option.split)

lemma change_epoch [simp]:
  "sw_epoch (applyAuthBundle b s w) = sw_epoch w + 1" "sw_epoch (clearAuthentication s st w) = sw_epoch w + 1"
  "sw_epoch w \<le> sw_epoch (handle_sync_event ev w)"
  by (simp_all add: change_defs Let_def split: option.split)

lemma change_swap:
  "applyAuthBundle b s (w\<lparr>sw_refresh := x\<rparr>) = (applyAuthBundle b s w)\<lparr>sw_refresh := x\<rparr>"
  "clearAuthentication s st (w\<lparr>sw_refresh := x\<rparr>) = (clearAuthentication s st w)\<lparr>sw_refresh := x\<rparr>"
  "handle_sync_event ev (w\<lparr>sw_refresh := x\<rparr>) = (handle_sync_event ev w)\<lparr>sw_refresh := x\<rparr>"
  by (simp_all add: change_defs Let_def split: option.split)

lemma auth_swap: "w\<lparr>sw_refresh := x, sw_auth := y\<rparr> = w\<lparr>sw_auth := y, sw_refresh := x\<rparr>" for w :: session_world
  by (cases w) simp

lemma rotation_swap:
  "applyAuthRotation v (w\<lparr>sw_refresh := x\<rparr>) = map_sum id (\<lambda>w'. w'\<lparr>sw_refresh := x\<rparr>) (applyAuthRotation v w)"
  by (simp add: applyAuthRotation_def change_swap split: option.split)

lemma refresh_joins: "sw_refresh w = Some r \<Longrightarrow> refreshAuthentication locks w = w"
  by (simp add: refreshAuthentication_def)

lemma resolve_swap:
  assumes "sw_refresh w = Some r"
  shows "resolveAuthentication now locks (w\<lparr>sw_refresh := Some x\<rparr>) = apsnd (\<lambda>w'. w'\<lparr>sw_refresh := Some x\<rparr>) (resolveAuthentication now locks w)"
    and "sw_refresh (snd (resolveAuthentication now locks w)) = Some r" "sw_epoch (snd (resolveAuthentication now locks w)) = sw_epoch w"
  using assms by (auto simp: resolveAuthentication_def Let_def refresh_joins auth_swap split: option.split)

lemma bootstrap_swap:
  assumes "sw_refresh w = Some r"
  shows "bootstrapAuthentication now cookies locks (w\<lparr>sw_refresh := Some x\<rparr>) =
      apsnd (\<lambda>w'. w'\<lparr>sw_refresh := Some x\<rparr>) (bootstrapAuthentication now cookies locks w)"
    and "sw_refresh (snd (bootstrapAuthentication now cookies locks w)) = Some r"
    and "sw_epoch (snd (bootstrapAuthentication now cookies locks w)) = sw_epoch w"
  using assms resolve_swap [OF assms, of now locks] by (simp_all add: bootstrapAuthentication_def)

lemma fresh_swap:
  assumes "sw_refresh w = Some r"
  shows "getFreshAuthHeaders now locks (w\<lparr>sw_refresh := Some x\<rparr>) = apsnd (\<lambda>w'. w'\<lparr>sw_refresh := Some x\<rparr>) (getFreshAuthHeaders now locks w)"
    and "sw_refresh (snd (getFreshAuthHeaders now locks w)) = Some r" "sw_epoch (snd (getFreshAuthHeaders now locks w)) = sw_epoch w"
  using assms by (simp_all add: getFreshAuthHeaders_def refresh_joins)

text \<open>While a run is under way, the rest of the program neither sees nor changes it.\<close>

lemma program_step:
  assumes "session_step w a w'" and "\<not> is_run_action a" and "a \<noteq> Forgotten" and "sw_refresh w = Some r"
  shows "sw_refresh w' = Some r \<and> sw_epoch w \<le> sw_epoch w' \<and> session_step (w\<lparr>sw_refresh := Some x\<rparr>) a (w'\<lparr>sw_refresh := Some x\<rparr>)"
  using assms
proof (cases rule: session_step.cases)
  case (rotate v)
  obtain user session where "w' = applyAuthBundle (bundle_of v user) False w" using rotate(2) by (rule rotation_cases)
  moreover have "applyAuthRotation v (w\<lparr>sw_refresh := Some x\<rparr>) = Inr (w'\<lparr>sw_refresh := Some x\<rparr>)"
    using rotate(2) rotation_swap [of v "Some x" w] by simp
  ultimately show ?thesis using rotate(1) assms(4) session_step.rotate by simp
next
  case (rotate_refused v e)
  then have "applyAuthRotation v (w\<lparr>sw_refresh := Some x\<rparr>) = Inl e" using rotation_swap [of v "Some x" w] by simp
  then show ?thesis using rotate_refused(1,2) assms(4) session_step.rotate_refused by simp
next
  case (resolve now locks res)
  note swap = resolve_swap(1) [OF assms(4), of now locks x] resolve_swap(2,3) [OF assms(4), of now locks]
  show ?thesis using resolve(1) swap [unfolded resolve(2)] session_step.resolve [OF swap(1) [unfolded resolve(2) apsnd_conv]] by simp
next
  case (bootstrap now cookies locks res)
  note swap = bootstrap_swap(1) [OF assms(4), of now cookies locks x] bootstrap_swap(2,3) [OF assms(4), of now cookies locks]
  show ?thesis using bootstrap(1) swap [unfolded bootstrap(2)] session_step.bootstrap [OF swap(1) [unfolded bootstrap(2) apsnd_conv]] by simp
next
  case (fresh now locks h)
  note swap = fresh_swap(1) [OF assms(4), of now locks x] fresh_swap(2,3) [OF assms(4), of now locks]
  show ?thesis using fresh(1) swap [unfolded fresh(2)] session_step.fresh [OF swap(1) [unfolded fresh(2) apsnd_conv]] by simp
next
  case (refresh locks)
  then show ?thesis using assms(4) session_step.refresh [of "w\<lparr>sw_refresh := Some x\<rparr>" locks] by (simp add: run_defs)
next
  case (message src now v event)
  then show ?thesis using assms(4) session_step.message [of src now v event "w\<lparr>sw_refresh := Some x\<rparr>"] by (simp add: change_swap)
next
  case (user_changed u)
  then show ?thesis using assms(4) session_step.user_changed [of "w\<lparr>sw_refresh := Some x\<rparr>" u] by (simp add: auth_swap)
next
  case (pending_changed p)
  then show ?thesis using assms(4) session_step.pending_changed [of "w\<lparr>sw_refresh := Some x\<rparr>" p] by (simp add: auth_swap)
next
  case (sign_in b s)
  then show ?thesis using assms(4) session_step.sign_in [of "w\<lparr>sw_refresh := Some x\<rparr>" b s] by (simp add: change_swap)
next
  case (sign_out s st)
  then show ?thesis using assms(4) session_step.sign_out [of "w\<lparr>sw_refresh := Some x\<rparr>" s st] by (simp add: change_swap)
qed (auto intro: session_step.message_ignored)


subsection \<open>Overtaken runs\<close>

text \<open>A run that is overtaken leaves nothing but its own end, an error that says so or the refusal of the lock.\<close>

fun overtaken_phase :: "refresh_phase \<Rightarrow> bool" where
  "overtaken_phase (Settled (Fulfilled outcome)) = (outcome = TransientError Superseded)"
| "overtaken_phase _ = True"

definition overtaken :: "session_world \<Rightarrow> bool" where
  "overtaken w \<longleftrightarrow> (\<exists>r. sw_refresh w = Some r \<and> run_epoch r < sw_epoch w \<and> overtaken_phase (run_phase r))"

lemma overtaken_run_step:
  assumes "session_step w a w'" and "is_run_action a" and "overtaken w"
  shows "overtaken w' \<and> w'\<lparr>sw_refresh := x\<rparr> = w\<lparr>sw_refresh := x\<rparr>"
  using assms by (cases rule: session_step.cases) (auto simp: overtaken_def run_defs)

lemma overtaken_program_step:
  assumes "session_step w a w'" and "\<not> is_run_action a" and "a \<noteq> Forgotten" and "overtaken w"
  shows "overtaken w'"
  using assms program_step [OF assms(1-3)] by (fastforce simp: overtaken_def)

text \<open>Without the steps of an overtaken run, the program reaches the same world up to the run.\<close>

theorem overtaken_invisible:
  assumes "session_steps w as w'" and "overtaken w" and "Forgotten \<notin> set as"
  shows "overtaken w' \<and> session_steps (w\<lparr>sw_refresh := Some x\<rparr>) (filter (\<lambda>a. \<not> is_run_action a) as) (w'\<lparr>sw_refresh := Some x\<rparr>)"
  using assms
proof (induction rule: session_steps.induct)
  case (none w)
  then show ?case using session_steps.none by auto
next
  case (step w a w' as w'')
  then have a: "a \<noteq> Forgotten" "Forgotten \<notin> set as" by auto
  show ?case
  proof (cases "is_run_action a")
    case True
    from overtaken_run_step [OF step.hyps(1) True step.prems(1)] have "overtaken w'" "w'\<lparr>sw_refresh := Some x\<rparr> = w\<lparr>sw_refresh := Some x\<rparr>"
      by blast+
    then show ?thesis using step.IH a True by simp
  next
    case False
    from step.prems(1) obtain r where "sw_refresh w = Some r" by (auto simp: overtaken_def)
    from program_step [OF step.hyps(1) False a(1) this]
    have "session_step (w\<lparr>sw_refresh := Some x\<rparr>) a (w'\<lparr>sw_refresh := Some x\<rparr>)" by blast
    then show ?thesis
      using step.IH [OF overtaken_program_step [OF step.hyps(1) False a(1) step.prems(1)] a(2)] False
      by (auto intro: session_steps.step)
  qed
qed

subsection \<open>Progress\<close>

fun steps_left :: "refresh_phase \<Rightarrow> nat" where
  "steps_left AwaitingLock = 15"
| "steps_left (AwaitingResponse k m) = 1 + 2 * (3 - k) + (if m then 7 else 0)"
| "steps_left (AwaitingDelay k m) = 2 + 2 * (3 - k) + (if m then 7 else 0)"
| "steps_left (Settled _) = 0"

text \<open>Where a run is after a response: settled, waiting for its next attempt, or in its one retry without a session.\<close>

definition next_run :: "nat \<Rightarrow> bool \<Rightarrow> refresh_run \<Rightarrow> session_world \<Rightarrow> bool" where
  "next_run k m r w \<longleftrightarrow>
     (\<exists>r'. sw_refresh w = Some r' \<and> run_epoch r' = run_epoch r \<and>
        ((\<exists>s. run_phase r' = Settled s) \<and> run_requests r' = run_requests r \<or>
         k < 3 \<and> run_phase r' = AwaitingDelay (k + 1) m \<and> run_requests r' = run_requests r \<or>
         m \<and> run_phase r' = AwaitingResponse 0 False \<and> length (run_requests r') = Suc (length (run_requests r))))"

lemma if_both: "(P \<Longrightarrow> Q a) \<Longrightarrow> (\<not> P \<Longrightarrow> Q b) \<Longrightarrow> Q (if P then a else b)"
  by simp

lemma handle_response_next: "next_run k m r (handle_response response k m r w)"
proof -
  have fin: "next_run k m r (finish outcome r v)" for outcome v by (simp add: next_run_def finish_def settle_def)
  have delay: "next_run k m r (w\<lparr>sw_refresh := Some (r\<lparr>run_phase := AwaitingDelay (k + 1) m\<rparr>)\<rparr>)" if "k < length refreshRaceDelays"
    using that by (simp add: next_run_def refreshRaceDelays_def)
  have retry: "next_run k m r (run_attempt 0 False r v)" if m for v
    using that by (simp add: next_run_def run_attempt_def finish_def settle_def)
  show ?thesis
    unfolding handle_response_def Let_def
    by (cases "response_bundle response"; simp only: option.case; intro if_both [where Q = "next_run k m r"] fin delay retry; assumption)
qed

lemma run_step_decreases:
  assumes "session_step w a w'" and "is_run_action a"
  shows "\<exists>r r'. sw_refresh w = Some r \<and> sw_refresh w' = Some r' \<and> steps_left (run_phase r') < steps_left (run_phase r)"
  using assms
proof (cases rule: session_step.cases)
  case (response r k m answer)
  with handle_response_next [of k m r "requestRefresh answer" w] show ?thesis by (auto simp: next_run_def)
qed (auto simp: run_attempt_def finish_def settle_def)

lemma run_steps_bounded:
  assumes "session_steps w as w'" and "sw_refresh w = Some r" and "Forgotten \<notin> set as"
  shows "length (filter is_run_action as) \<le> steps_left (run_phase r)"
  using assms
proof (induction arbitrary: r rule: session_steps.induct)
  case (step w a w' as w'')
  then have a: "a \<noteq> Forgotten" "Forgotten \<notin> set as" by auto
  show ?case
  proof (cases "is_run_action a")
    case True
    from run_step_decreases [OF step.hyps(1) True] step.prems(1) obtain r' where
      "sw_refresh w' = Some r'" "steps_left (run_phase r') < steps_left (run_phase r)" by auto
    with step.IH [OF this(1) a(2)] True show ?thesis by simp
  next
    case False
    from program_step [OF step.hyps(1) False a(1) step.prems(1)] have "sw_refresh w' = Some r" by blast
    with step.IH [OF this a(2)] False show ?thesis by simp
  qed
qed simp

lemma run_enabled:
  assumes "sw_refresh w = Some r" and "\<nexists>s. run_phase r = Settled s"
  shows "\<exists>a w'. is_run_action a \<and> session_step w a w'"
proof (cases "run_phase r")
  case AwaitingLock
  then show ?thesis using assms session_step.lock_granted by (intro exI [of _ LockGranted]) auto
next
  case (AwaitingResponse k m)
  then have "session_step w (Response (HttpThrow VNull)) (handle_response (requestRefresh (HttpThrow VNull)) k m r w)"
    using assms by (intro session_step.response)
  then show ?thesis by (metis is_run_action.simps(3))
next
  case (AwaitingDelay k m)
  then have "session_step w DelayOver (run_attempt k m r w)" using assms by (intro session_step.delay_over)
  then show ?thesis by (metis is_run_action.simps(4))
qed (use assms in auto)


subsection \<open>Invariants of reachable worlds\<close>

definition coherent :: "auth_state \<Rightarrow> bool" where
  "coherent auth \<longleftrightarrow>
     (as_accessToken auth = None \<longleftrightarrow> as_session auth = None) \<and> (as_accessExpiresAt auth = None \<longleftrightarrow> as_session auth = None)"

definition credentials :: "auth_state \<Rightarrow> js_string option \<times> js_num option \<times> js_value option" where
  "credentials auth = (as_accessToken auth, as_accessExpiresAt auth, as_session auth)"

lemma coherent_stores [simp]:
  "coherent (setBundle b auth)" "coherent (reset_auth s auth)" "coherent (setUser u auth) = coherent auth"
  "coherent (setPendingLoginVerification p auth) = coherent auth" "coherent (setBootstrapState s auth) = coherent auth"
  by (simp_all add: coherent_def store_defs)

lemma credentials_stores [simp]:
  "credentials (setBundle b auth) = (Some (ab_access_token b), Some (ab_access_expires_at b), Some (ab_session b))"
  "credentials (reset_auth s auth) = (None, None, None)" "credentials (setUser u auth) = credentials auth"
  "credentials (setPendingLoginVerification p auth) = credentials auth" "credentials (setBootstrapState s auth) = credentials auth"
  by (simp_all add: credentials_def store_defs)

lemma change_auth [simp]:
  "sw_auth (applyAuthBundle b s w) = setBundle b (sw_auth w)" "sw_auth (clearAuthentication s st w) = reset_auth st (sw_auth w)"
  by (simp_all add: change_defs Let_def split: option.split)

lemma sync_auth: "sw_auth (handle_sync_event ev w) \<in> {sw_auth w, reset_auth BS_complete (sw_auth w)}"
  by (auto simp: change_defs Let_def split: option.split)

text \<open>How a run that starts looks.\<close>

definition new_run :: "nat \<Rightarrow> refresh_run \<Rightarrow> bool" where
  "new_run e r \<longleftrightarrow> run_epoch r = e \<and>
     (run_phase r = AwaitingLock \<and> run_requests r = [] \<or>
      run_phase r = AwaitingResponse 0 True \<and> length (run_requests r) = 1 \<or>
      (\<exists>err. run_phase r = Settled (Fulfilled (TransientError err))) \<and> run_requests r = [])"

definition started :: "session_world \<Rightarrow> session_world \<Rightarrow> bool" where
  "started w w' \<longleftrightarrow> sw_refresh w' = sw_refresh w \<or> sw_refresh w = None \<and> (\<exists>r. sw_refresh w' = Some r \<and> new_run (sw_epoch w') r)"

lemma refresh_started:
  "started w (refreshAuthentication locks w)" "sw_epoch (refreshAuthentication locks w) = sw_epoch w"
  "credentials (sw_auth (refreshAuthentication locks w)) = credentials (sw_auth w)"
  by (cases locks; auto simp: started_def new_run_def refreshAuthentication_def performRefreshWithBrowserLock_def run_attempt_def
      finish_def settle_def Let_def)+

lemma started_cong: "started (w\<lparr>sw_auth := a\<rparr>) w' = started w w'"
  by (simp add: started_def)

lemma resolve_started:
  "started w (snd (resolveAuthentication now locks w))" "sw_epoch (snd (resolveAuthentication now locks w)) = sw_epoch w"
  "credentials (sw_auth (snd (resolveAuthentication now locks w))) = credentials (sw_auth w)"
  using refresh_started [where w = "w\<lparr>sw_auth := setBootstrapState BS_checking (sw_auth w)\<rparr>" and locks = locks]
  by (auto simp: resolveAuthentication_def Let_def started_cong split: option.split) (simp_all add: started_def)

text \<open>A step of the program either changes the epoch or keeps the credentials.\<close>

lemma program_effect:
  assumes "session_step w a w'" and "\<not> is_run_action a" and "a \<noteq> Forgotten"
  shows "started w w' \<and> (sw_epoch w < sw_epoch w' \<or> sw_epoch w' = sw_epoch w \<and> credentials (sw_auth w') = credentials (sw_auth w))"
  using assms
proof (cases rule: session_step.cases)
  case (rotate v)
  obtain user session where "w' = applyAuthBundle (bundle_of v user) False w" using rotate(2) by (rule rotation_cases)
  then show ?thesis by (simp add: started_def)
next
  case (message src now v event)
  have "sw_epoch (handle_sync_event event w) = sw_epoch w + 1 \<or>
      sw_epoch (handle_sync_event event w) = sw_epoch w \<and> sw_auth (handle_sync_event event w) = sw_auth w"
    by (auto simp: change_defs Let_def split: option.split)
  with message show ?thesis by (auto simp: started_def)
next
  case (resolve now locks res)
  with resolve_started [where w = w and now = now and locks = locks] show ?thesis by simp
next
  case (bootstrap now cookies locks res)
  with resolve_started [where w = w and now = now and locks = locks] show ?thesis
    by (auto simp: bootstrapAuthentication_def started_def split: if_splits)
next
  case (fresh now locks h)
  with refresh_started [where w = w and locks = locks] show ?thesis by (auto simp: getFreshAuthHeaders_def started_def split: if_splits)
qed (auto simp: refresh_started, auto simp: started_def)

fun requests_left :: "refresh_phase \<Rightarrow> nat" where
  "requests_left AwaitingLock = 8"
| "requests_left (AwaitingResponse k m) = (3 - k) + (if m then 4 else 0)"
| "requests_left (AwaitingDelay k m) = (4 - k) + (if m then 4 else 0)"
| "requests_left (Settled _) = 0"

fun attempts_ok :: "refresh_phase \<Rightarrow> bool" where
  "attempts_ok (AwaitingResponse k m) = (k \<le> 3)"
| "attempts_ok (AwaitingDelay k m) = (1 \<le> k \<and> k \<le> 3)"
| "attempts_ok _ = True"

definition bounded_run :: "session_world \<Rightarrow> bool" where
  "bounded_run w \<longleftrightarrow>
     (\<forall>r. sw_refresh w = Some r \<longrightarrow>
        run_epoch r \<le> sw_epoch w \<and> attempts_ok (run_phase r) \<and> length (run_requests r) + requests_left (run_phase r) \<le> 8)"

lemma bounded_cong: "bounded_run w \<Longrightarrow> sw_refresh w' = sw_refresh w \<Longrightarrow> sw_epoch w \<le> sw_epoch w' \<Longrightarrow> bounded_run w'"
  by (fastforce simp: bounded_run_def)

lemma run_epoch_le:
  assumes "session_step w a w'"
  shows "sw_epoch w \<le> sw_epoch w'"
proof -
  have "sw_epoch w \<le> sw_epoch (run_attempt k m r v)" if "sw_epoch v = sw_epoch w" for k m r v
    using that by (simp add: run_attempt_def finish_def settle_def)
  moreover have "sw_epoch w \<le> sw_epoch (finish outcome r v)" if "sw_epoch w \<le> sw_epoch v" for outcome r v
    using that by (simp add: finish_def settle_def)
  ultimately have "sw_epoch w \<le> sw_epoch (handle_response response k m r w)" for response k m r
    unfolding handle_response_def Let_def
    by (cases "response_bundle response") (simp_all only: option.case, (rule if_both [where Q = "\<lambda>v. sw_epoch w \<le> sw_epoch v"] | simp)+)
  with assms show ?thesis
    using program_effect [OF assms] by (cases rule: session_step.cases) (auto simp: run_attempt_def finish_def settle_def)
qed

lemma bounded_step:
  assumes "session_step w a w'" and "bounded_run w"
  shows "bounded_run w'"
proof (cases "is_run_action a")
  case True
  from assms(1) True show ?thesis
  proof (cases rule: session_step.cases)
    case (response r k m answer)
    with handle_response_next [of k m r "requestRefresh answer" w] run_epoch_le [OF assms(1)] assms(2) show ?thesis
      by (auto simp: bounded_run_def next_run_def split: if_splits)
  qed (use assms(2) in \<open>auto simp: bounded_run_def run_attempt_def finish_def settle_def\<close>)
next
  case False
  show ?thesis
  proof (cases "a = Forgotten")
    case True
    with assms(1) show ?thesis by (auto simp: bounded_run_def elim: forgottenE)
  next
    case other: False
    from program_effect [OF assms(1) False other] bounded_cong [OF assms(2), of w'] run_epoch_le [OF assms(1)] show ?thesis
      by (auto simp: started_def bounded_run_def new_run_def)
  qed
qed

theorem reachable_bounded: "reachable_world w \<Longrightarrow> bounded_run w"
  by (erule reachable_invariant [where I = bounded_run]) (simp add: bounded_run_def initial_world_def, rule bounded_step)

fun matches :: "refresh_outcome \<Rightarrow> auth_state \<Rightarrow> bool" where
  "matches (Authenticated b) auth = (credentials auth = (Some (ab_access_token b), Some (ab_access_expires_at b), Some (ab_session b)))"
| "matches Anonymous auth = (credentials auth = (None, None, None))"
| "matches (OutOfSync _) auth = (credentials auth = (None, None, None))"
| "matches (TransientError _) auth = True"

definition kept_session :: "session_world \<Rightarrow> bool" where
  "kept_session w \<longleftrightarrow>
     (\<forall>r outcome. sw_refresh w = Some r \<longrightarrow> run_phase r = Settled (Fulfilled outcome) \<longrightarrow>
        (\<exists>e. outcome = TransientError e) \<or>
        run_epoch r < sw_epoch w \<and> (sw_epoch w = Suc (run_epoch r) \<longrightarrow> matches outcome (sw_auth w)))"

lemma attempt_stored: "kept_session (run_attempt k m r w)"
  by (simp add: kept_session_def run_attempt_def finish_def settle_def)

lemma response_stored: "kept_session (handle_response response k m r w)"
proof -
  have transient: "kept_session (finish (TransientError e) r v)" for e v by (simp add: kept_session_def finish_def settle_def)
  have clear: "kept_session (finish Anonymous r (clearAuthentication s st w))" "kept_session (finish (OutOfSync c) r (clearAuthentication s st w))"
    if "\<not> sw_epoch w \<noteq> run_epoch r" for s st c
    using that by (simp_all add: kept_session_def finish_def settle_def)
  have accept: "kept_session (finish (Authenticated b) r (applyAuthBundle b False w))" if "\<not> sw_epoch w \<noteq> run_epoch r" for b
    using that by (simp add: kept_session_def finish_def settle_def)
  have delay: "kept_session (w\<lparr>sw_refresh := Some (r\<lparr>run_phase := AwaitingDelay j m\<rparr>)\<rparr>)" for j by (simp add: kept_session_def)
  show ?thesis
    unfolding handle_response_def Let_def
    by (cases "response_bundle response"; simp only: option.case;
        intro if_both [where Q = kept_session] transient clear accept delay attempt_stored; assumption)
qed

lemma stored_step:
  assumes "session_step w a w'" and "kept_session w"
  shows "kept_session w'"
proof (cases "is_run_action a")
  case True
  with assms show ?thesis
    by (cases rule: session_step.cases) (auto simp: attempt_stored response_stored, simp add: kept_session_def settle_def)
next
  case False
  show ?thesis
  proof (cases "a = Forgotten")
    case True
    with assms(1) show ?thesis by (auto simp: kept_session_def elim: forgottenE)
  next
    case other: False
    have "matches outcome (sw_auth w')" if "matches outcome (sw_auth w)" "credentials (sw_auth w') = credentials (sw_auth w)" for outcome
      using that by (cases outcome) auto
    with program_effect [OF assms(1) False other] assms(2) show ?thesis
      by (fastforce simp: started_def kept_session_def new_run_def)
  qed
qed

theorem reachable_stored: "reachable_world w \<Longrightarrow> kept_session w"
  by (erule reachable_invariant [where I = kept_session]) (simp add: kept_session_def initial_world_def, rule stored_step)

text \<open>The access token, its expiry and the session are set and removed together.\<close>

definition whole :: "js_string option \<times> js_num option \<times> js_value option \<Rightarrow> bool" where
  "whole c = (case c of (token, expires, session) \<Rightarrow> (token = None \<longleftrightarrow> session = None) \<and> (expires = None \<longleftrightarrow> session = None))"

lemma coherent_credentials: "coherent auth \<longleftrightarrow> whole (credentials auth)"
  by (simp add: coherent_def whole_def credentials_def)

lemma attempt_coherent: "coherent (sw_auth w) \<Longrightarrow> coherent (sw_auth (run_attempt k m r w))"
  by (simp add: run_attempt_def finish_def settle_def)

lemma response_coherent:
  assumes "coherent (sw_auth w)"
  shows "coherent (sw_auth (handle_response response k m r w))"
proof -
  have fin: "coherent (sw_auth (finish outcome r v))" if "coherent (sw_auth v)" for outcome v
    using that by (simp add: finish_def settle_def)
  show ?thesis
    unfolding handle_response_def Let_def
    by (cases "response_bundle response"; simp only: option.case;
        intro if_both [where Q = "\<lambda>v. coherent (sw_auth v)"] fin attempt_coherent; simp add: assms)
qed

lemma coherent_step:
  assumes "session_step w a w'" and "coherent (sw_auth w)"
  shows "coherent (sw_auth w')"
  using assms(1)
proof (cases rule: session_step.cases)
  case (rotate v)
  obtain user session where "w' = applyAuthBundle (bundle_of v user) False w" using rotate(2) by (rule rotation_cases)
  then show ?thesis by simp
next
  case (message src now v event)
  with sync_auth [of event w] assms(2) show ?thesis by auto
next
  case (refresh locks)
  with refresh_started(3) [of locks w] assms(2) show ?thesis by (simp add: coherent_credentials)
next
  case (resolve now locks res)
  with resolve_started(3) [of now locks w] assms(2) show ?thesis by (simp add: coherent_credentials)
next
  case (bootstrap now cookies locks res)
  with resolve_started(3) [of now locks w] assms(2) show ?thesis
    by (auto simp: bootstrapAuthentication_def coherent_credentials split: if_splits)
next
  case (fresh now locks h)
  with refresh_started(3) [of locks w] assms(2) show ?thesis
    by (auto simp: getFreshAuthHeaders_def coherent_credentials split: if_splits)
qed (use assms(2) in \<open>simp_all add: attempt_coherent response_coherent settle_def\<close>)

theorem reachable_coherent: "reachable_world w \<Longrightarrow> coherent (sw_auth w)"
  by (erule reachable_invariant [where I = "\<lambda>w. coherent (sw_auth w)"])
    (simp add: coherent_def initial_world_def initial_auth_def, rule coherent_step)

subsection \<open>The results\<close>

theorem refresh_ends:
  assumes "reachable_world w" and "sw_refresh w = Some r"
  shows "length (run_requests r) \<le> 8"
    and "(\<exists>s. run_phase r = Settled s) \<or> (\<exists>a w'. is_run_action a \<and> session_step w a w')"
    and "session_steps w as w' \<Longrightarrow> Forgotten \<notin> set as \<Longrightarrow> length (filter is_run_action as) \<le> 15"
proof -
  have b: "attempts_ok (run_phase r)" "length (run_requests r) + requests_left (run_phase r) \<le> 8"
    using reachable_bounded [OF assms(1)] assms(2) by (simp_all add: bounded_run_def)
  then show "length (run_requests r) \<le> 8" by simp
  show "(\<exists>s. run_phase r = Settled s) \<or> (\<exists>a w'. is_run_action a \<and> session_step w a w')"
    using run_enabled [OF assms(2)] by blast
  have "steps_left (run_phase r) \<le> 15" using b(1) by (cases "run_phase r") auto
  then show "length (filter is_run_action as) \<le> 15" if "session_steps w as w'" "Forgotten \<notin> set as"
    using run_steps_bounded [OF that(1) assms(2) that(2)] by simp
qed

theorem overtaken_refresh:
  assumes "reachable_world w" and "sw_refresh w = Some r" and "\<nexists>s. run_phase r = Settled s" and "run_epoch r \<noteq> sw_epoch w"
    and "session_steps w as w'" and "Forgotten \<notin> set as"
  shows "session_steps w (filter (\<lambda>a. \<not> is_run_action a) as) (w'\<lparr>sw_refresh := Some r\<rparr>)"
    and "\<exists>r'. sw_refresh w' = Some r' \<and> overtaken_phase (run_phase r')"
proof -
  have "overtaken_phase (run_phase r)" using assms(3) by (cases "run_phase r") auto
  then have "overtaken w"
    using reachable_bounded [OF assms(1)] assms(2,4) by (auto simp: overtaken_def bounded_run_def)
  note over = overtaken_invisible [OF assms(5) this assms(6), of r]
  have "w\<lparr>sw_refresh := Some r\<rparr> = w" using assms(2) by (cases w) simp
  with over show "session_steps w (filter (\<lambda>a. \<not> is_run_action a) as) (w'\<lparr>sw_refresh := Some r\<rparr>)" by simp
  from over show "\<exists>r'. sw_refresh w' = Some r' \<and> overtaken_phase (run_phase r')" by (auto simp: overtaken_def)
qed

theorem rotation_keeps_session:
  assumes "applyAuthRotation v w = Inr w'"
  shows "current_sid (sw_auth w') = current_sid (sw_auth w) \<and> as_user (sw_auth w') = as_user (sw_auth w) \<and>
    as_accessToken (sw_auth w') = Some (text_of (property v ''access_token'')) \<and>
    sw_epoch w' = sw_epoch w + 1 \<and> sw_published w' = sw_published w"
proof -
  from assms obtain user session where s: "as_user (sw_auth w) = Some user" "as_session (sw_auth w) = Some session"
    "session_sid (property v ''session'') = session_sid session" "w' = applyAuthBundle (bundle_of v user) False w"
    by (rule rotation_cases)
  then have "sw_published w' = sw_published w" by (simp add: applyAuthBundle_def Let_def)
  with s show ?thesis by (simp add: setBundle_def bundle_of_def current_sid_def)
qed

end
