(* ===== verification/Session_Samples.thy ===== *)
theory Session_Samples
  imports Auth_Session_Correct
begin

section \<open>Sample sessions\<close>

definition sample_session :: js_value where
  "sample_session = VObj [(js ''sid'', VStr (js ''s1''))]"

definition sample_bundle :: auth_bundle where
  "sample_bundle = \<lparr>ab_access_token = js ''token'', ab_token_type = js ''Bearer'', ab_access_expires_at = Fin 1000, ab_user = VObj [], ab_session = sample_session\<rparr>"

definition refused :: session_action where
  "refused = Response (HttpError (Some (Fin 401, VNull)) VNull)"

text \<open>A refresh has sent its first request, and then the user signs in.\<close>

definition waiting_run :: refresh_run where
  "waiting_run = \<lparr>run_epoch = 0, run_phase = AwaitingResponse 0 True, run_requests = [None]\<rparr>"

definition waiting_world :: session_world where
  "waiting_world = initial_world\<lparr>sw_refresh := Some waiting_run\<rparr>"

definition signed_in_world :: session_world where
  "signed_in_world = applyAuthBundle sample_bundle False waiting_world"

definition refused_world :: session_world where
  "refused_world = handle_response (requestRefresh (HttpError (Some (Fin 401, VNull)) VNull)) 0 True waiting_run waiting_world"

definition overtaken_world :: session_world where
  "overtaken_world = finish (TransientError Superseded) waiting_run signed_in_world"

lemma waiting_step: "session_step initial_world (Refresh NoLocks) waiting_world"
proof -
  have "refreshAuthentication NoLocks initial_world = waiting_world"
    by (simp add: refreshAuthentication_def performRefreshWithBrowserLock_def run_attempt_def waiting_world_def waiting_run_def
        initial_world_def initial_auth_def current_sid_def)
  then show ?thesis using session_step.refresh [of initial_world NoLocks] by simp
qed

lemma waiting_reachable: "reachable_world waiting_world"
  using session_steps.step [OF waiting_step session_steps.none] by (auto simp: reachable_world_def)

lemma waiting_refresh: "sw_refresh waiting_world = Some waiting_run" "sw_refresh signed_in_world = Some waiting_run"
  by (simp_all add: waiting_world_def signed_in_world_def)

lemma signed_in_reachable: "reachable_world signed_in_world"
  using session_steps.step [OF waiting_step session_steps.step [OF session_step.sign_in session_steps.none]]
  unfolding signed_in_world_def reachable_world_def by blast

lemma waiting_not_settled: "\<nexists>s. run_phase waiting_run = Settled s"
  by (simp add: waiting_run_def)

lemma signed_in_overtakes: "run_epoch waiting_run \<noteq> sw_epoch signed_in_world"
  by (simp add: waiting_run_def signed_in_world_def waiting_world_def initial_world_def)

lemma refused_step: "session_step signed_in_world refused overtaken_world"
proof -
  have "handle_response response 0 True waiting_run signed_in_world = overtaken_world" for response
    using signed_in_overtakes by (simp add: handle_response_def overtaken_world_def)
  then show ?thesis
    using session_step.response [OF waiting_refresh(2), of 0 True] by (simp add: refused_def waiting_run_def)
qed

lemma refused_reachable: "reachable_world refused_world"
proof -
  have "session_step waiting_world refused refused_world"
    unfolding refused_def refused_world_def by (rule session_step.response) (simp_all add: waiting_refresh waiting_run_def)
  from session_steps.step [OF waiting_step session_steps.step [OF this session_steps.none]] show ?thesis
    unfolding reachable_world_def by blast
qed

lemma refused_settled:
  "sw_refresh refused_world = Some (waiting_run\<lparr>run_phase := Settled (Fulfilled Anonymous)\<rparr>)" "sw_epoch refused_world = Suc (run_epoch waiting_run)"
  by (simp_all add: refused_world_def handle_response_def response_bundle_def response_code_def property_def waiting_run_def waiting_world_def
      initial_world_def finish_def settle_def)

end
