(* ===== verification/Js_Object.thy ===== *)
theory Js_Object
  imports Js_Json
begin

section \<open>Properties of JSON values\<close>

text \<open>
  Reading, deleting and defining the own properties of a parsed JSON value of any kind, as the
  language does it in strict code, the members that every value inherits, and when a value counts
  as true.
\<close>

text \<open>An array index is the canonical decimal text of a number below \<open>2 ^ 32 - 1\<close>.\<close>

definition array_index :: "js_string \<Rightarrow> nat option" where
  "array_index s =
     (if s \<noteq> [] \<and> list_all is_digit s \<and> (s = [48] \<or> hd s \<noteq> 48) \<and> digits_value s < 2 ^ 32 - 1
      then Some (nat (digits_value s)) else None)"

definition index_below :: "js_string \<Rightarrow> nat \<Rightarrow> bool" where
  "index_below name n \<longleftrightarrow> (case array_index name of Some i \<Rightarrow> i < n | None \<Rightarrow> False)"

text \<open>\<^verbatim>\<open>Object.keys\<close>, and reading a property of a value that is not null.\<close>

fun own_keys :: "js_value \<Rightarrow> js_exception + js_string list" where
  "own_keys (VObj es) = Inr (map fst es)"
| "own_keys (VArr vs) = Inr (map digits_of [0..<length vs])"
| "own_keys (VStr s) = Inr (map digits_of [0..<length s])"
| "own_keys VNull = Inl TypeError"
| "own_keys VUndefined = Inl TypeError"
| "own_keys _ = Inr []"

fun get_member :: "js_value \<Rightarrow> js_string \<Rightarrow> js_value" where
  "get_member (VObj es) name = (case map_of es name of Some v \<Rightarrow> v | None \<Rightarrow> VUndefined)"
| "get_member (VArr vs) name =
     (case array_index name of
        Some i \<Rightarrow> if i < length vs then vs ! i else VUndefined
      | None \<Rightarrow> if name = js ''length'' then VNum (num_of_nat (length vs)) else VUndefined)"
| "get_member (VStr s) name =
     (case array_index name of
        Some i \<Rightarrow> if i < length s then VStr [s ! i] else VUndefined
      | None \<Rightarrow> if name = js ''length'' then VNum (num_of_nat (length s)) else VUndefined)"
| "get_member _ name = VUndefined"

text \<open>
  A name that is no own property is looked up in the prototypes. Every value inherits the members of
  \<^verbatim>\<open>Object.prototype\<close>: functions, and under \<^verbatim>\<open>__proto__\<close> the prototype of the value. Of a member only
  its text is used. The text of a built-in function is written as V8 writes it; the language leaves
  the spaces in it to the engine. Members that only arrays, texts, numbers and booleans inherit are left out.
\<close>

definition OBJECT_PROTOTYPE :: "js_string list" where
  "OBJECT_PROTOTYPE = map js
     [''constructor'', ''__defineGetter__'', ''__defineSetter__'', ''hasOwnProperty'', ''__lookupGetter__'',
      ''__lookupSetter__'', ''isPrototypeOf'', ''propertyIsEnumerable'', ''toString'', ''valueOf'', ''__proto__'',
      ''toLocaleString'']"

fun has_own :: "js_value \<Rightarrow> js_string \<Rightarrow> bool" where
  "has_own (VObj es) name \<longleftrightarrow> name \<in> fst ` set es"
| "has_own (VArr vs) name \<longleftrightarrow> name = js ''length'' \<or> index_below name (length vs)"
| "has_own (VStr s) name \<longleftrightarrow> name = js ''length'' \<or> index_below name (length s)"
| "has_own _ name \<longleftrightarrow> False"

fun constructor_name :: "js_value \<Rightarrow> js_string" where
  "constructor_name (VArr _) = js ''Array''"
| "constructor_name (VStr _) = js ''String''"
| "constructor_name (VNum _) = js ''Number''"
| "constructor_name (VBool _) = js ''Boolean''"
| "constructor_name _ = js ''Object''"

fun prototype_text :: "js_value \<Rightarrow> js_string" where
  "prototype_text (VArr _) = []"
| "prototype_text (VStr _) = []"
| "prototype_text (VNum _) = js ''0''"
| "prototype_text (VBool _) = js ''false''"
| "prototype_text _ = js ''[object Object]''"

definition inherits :: "js_value \<Rightarrow> js_string \<Rightarrow> bool" where
  "inherits v name \<longleftrightarrow> \<not> has_own v name \<and> name \<in> set OBJECT_PROTOTYPE"

definition inherited_text :: "js_value \<Rightarrow> js_string \<Rightarrow> js_string" where
  "inherited_text v name =
     (if name = js ''__proto__'' then prototype_text v
      else js ''function '' @ (if name = js ''constructor'' then constructor_name v else name) @ js ''() { [native code] }'')"

text \<open>\<^verbatim>\<open>delete v[name]\<close> in strict code; a hole of an array is the undefined value.\<close>

fun delete_member :: "js_string \<Rightarrow> js_value \<Rightarrow> js_exception + js_value" where
  "delete_member name (VObj es) = Inr (VObj (filter (\<lambda>e. fst e \<noteq> name) es))"
| "delete_member name (VArr vs) =
     (if name = js ''length'' then Inl TypeError
      else case array_index name of
        Some i \<Rightarrow> Inr (VArr (vs[i := VUndefined]))
      | None \<Rightarrow> Inr (VArr vs))"
| "delete_member name (VStr s) =
     (if name = js ''length'' \<or> index_below name (length s) then Inl TypeError else Inr (VStr s))"
| "delete_member name VNull = Inl TypeError"
| "delete_member name VUndefined = Inl TypeError"
| "delete_member name v = Inr v"

text \<open>
  \<^verbatim>\<open>Object.defineProperty\<close> with a writable, enumerable and configurable value. A property of an
  array that is not an index is not part of its JSON text and is left out.
\<close>

fun define_member :: "js_string \<Rightarrow> js_value \<Rightarrow> js_value \<Rightarrow> js_exception + js_value" where
  "define_member name x (VObj es) = Inr (VObj (set_own name x es))"
| "define_member name x (VArr vs) =
     (if name = js ''length'' then Inl TypeError
      else case array_index name of
        Some i \<Rightarrow> Inr (VArr (if i < length vs then vs[i := x] else vs @ replicate (i - length vs) VUndefined @ [x]))
      | None \<Rightarrow> Inr (VArr vs))"
| "define_member name x v = Inl TypeError"

definition js_truthy :: "js_value \<Rightarrow> bool" where
  "js_truthy v =
     (case v of
        VUndefined \<Rightarrow> False | VNull \<Rightarrow> False | VBool b \<Rightarrow> b | VStr s \<Rightarrow> s \<noteq> []
      | VNum x \<Rightarrow> x \<noteq> NaN \<and> \<not> is_zero x | _ \<Rightarrow> True)"

end
