(* ===== verification/Js_Stringify.thy ===== *)
theory Js_Stringify
  imports Js_Json Expr_Writing
begin

section \<open>JSON.stringify\<close>

text \<open>
  The text of a value; \<open>None\<close> stands for the \<^verbatim>\<open>undefined\<close> that the function returns for undefined.
  The text of an object of numbers and strings reads again as that object.
\<close>

fun json_stringify :: "js_value \<Rightarrow> js_string option" where
  "json_stringify VUndefined = None"
| "json_stringify VNull = Some (js ''null'')"
| "json_stringify (VBool b) = Some (if b then js ''true'' else js ''false'')"
| "json_stringify (VNum x) = Some (if is_finite x then string_of_number x else js ''null'')"
| "json_stringify (VStr s) = Some (json_string s)"
| "json_stringify (VArr vs) =
     Some (91 # join [44] (map (\<lambda>v. case json_stringify v of Some s \<Rightarrow> s | None \<Rightarrow> js ''null'') vs) @ [93])"
| "json_stringify (VObj es) =
     Some (123 # join [44] (concat (map (\<lambda>(k, v). case json_stringify v of Some s \<Rightarrow> [json_string k @ 58 # s] | None \<Rightarrow> []) es)) @ [125])"

subsection \<open>Numbers\<close>

lemma json_digits_text:
  assumes "list_all is_digit ds" and "ds \<noteq> []" and "rest = [] \<or> \<not> is_digit (hd rest)"
  shows "json_digits (ds @ rest) = Some (ds, rest)"
proof -
  have "takeWhile is_digit rest = []" "dropWhile is_digit rest = rest" using assms(3) by (cases rest; simp)+
  then show ?thesis
    using assms(1,2) by (simp add: json_digits_def takeWhile_append dropWhile_append list_all_iff Let_def)
qed

lemma json_integer_text:
  assumes "list_all is_digit ds" and "ds \<noteq> []" and "hd ds \<noteq> 48" and "rest = [] \<or> \<not> is_digit (hd rest)"
  shows "json_integer (ds @ rest) = Some (ds, rest)"
  using json_digits_text [OF assms(1,2,4)] assms(2,3) by (cases ds) (auto simp: json_integer_def)

lemma json_integer_zero: "json_integer (48 # rest) = Some ([48], rest)"
  by (simp add: json_integer_def)

lemma json_exponent_text:
  assumes "ends_number post"
  shows "json_exponent (exponent_suffix e @ post) = Some (exponent_suffix e, post)" "json_exponent post = Some ([], post)"
proof -
  have "post = [] \<or> \<not> is_digit (hd post)" using assms by (auto simp: ends_number_def)
  note d = json_digits_text [OF digits_of_digits digits_of_nonempty this, of "nat \<bar>e\<bar>"]
  then show "json_exponent (exponent_suffix e @ post) = Some (exponent_suffix e, post)"
    by (simp add: json_exponent_def exponent_suffix_def)
  show "json_exponent post = Some ([], post)"
    using assms by (cases post) (auto simp: json_exponent_def ends_number_def)
qed

lemma json_fraction_text:
  assumes "list_all is_digit f" and "f \<noteq> []" and "rest = [] \<or> \<not> is_digit (hd rest)"
  shows "json_fraction (46 # f @ rest) = Some (46 # f, rest)"
  using json_digits_text [OF assms] by (simp add: json_fraction_def)

lemma json_fraction_none: "rest = [] \<or> hd rest \<noteq> 46 \<Longrightarrow> json_fraction rest = Some ([], rest)"
  by (cases rest) (auto simp: json_fraction_def)

lemma json_number_parts:
  assumes g: "g = [] \<or> g = [45]" and i: "i = [48] \<or> list_all is_digit i \<and> i \<noteq> [] \<and> hd i \<noteq> 48" and f: "f = [] \<or> (\<exists>g. f = 46 # g \<and> list_all is_digit g \<and> g \<noteq> [])"
    and e: "e = [] \<or> (\<exists>n. e = exponent_suffix n)" and post: "ends_number post"
  shows "json_number (g @ i @ f @ e @ post) = Some (VNum (number_of_string (g @ i @ f @ e)), post)"
proof -
  let ?r2 = "e @ post" and ?r1 = "f @ e @ post"
  have r2: "?r2 = [] \<or> \<not> is_digit (hd ?r2)" "?r2 = [] \<or> hd ?r2 \<noteq> 46"
    using e post by (auto simp: exponent_suffix_def ends_number_def is_digit_def)
  have r1: "?r1 = [] \<or> \<not> is_digit (hd ?r1)" using f r2(1) by (auto simp: is_digit_def)
  have int: "json_integer (i @ ?r1) = Some (i, ?r1)"
    using i json_integer_text [OF _ _ _ r1] json_integer_zero by (elim disjE) simp_all
  have frac: "json_fraction ?r1 = Some (f, ?r2)"
    using f json_fraction_text [OF _ _ r2(1)] json_fraction_none [OF r2(2)] by auto
  have ex: "json_exponent ?r2 = Some (e, post)" using e json_exponent_text [OF post] by auto
  have "is_digit (hd i)" "i \<noteq> []" using i by (auto simp: is_digit_def list_all_iff)
  then have "\<not> starts_with (i @ ?r1) [45]" by (cases i) (auto simp: is_digit_def)
  then show ?thesis using g by (auto simp: json_number_def int frac ex)
qed

lemma format_decimal_parts:
  assumes "list_all is_digit ds" and "ds \<noteq> []" and "hd ds \<noteq> 48"
  obtains i f e where "format_decimal ds n = i @ f @ e" "i = [48] \<or> list_all is_digit i \<and> i \<noteq> [] \<and> hd i \<noteq> 48"
    "f = [] \<or> (\<exists>g. f = 46 # g \<and> list_all is_digit g \<and> g \<noteq> [])" "e = [] \<or> (\<exists>n. e = exponent_suffix n)"
proof -
  have part: "list_all is_digit (take j ds)" "list_all is_digit (drop j ds)" for j
    using assms(1) by (metis append_take_drop_id list_all_append)+
  have zeros: "list_all is_digit (replicate j 48)" for j by (simp add: list_all_iff is_digit_def)
  let ?k = "int (length ds)"
  have hd_take: "take j ds \<noteq> [] \<and> hd (take j ds) \<noteq> 48" if "0 < j" for j
    using assms(2,3) that by (cases ds; cases j) auto
  consider (a) "?k \<le> n \<and> n \<le> 21" | (b) "\<not> (?k \<le> n \<and> n \<le> 21)" "0 < n \<and> n \<le> 21"
    | (c) "\<not> (?k \<le> n \<and> n \<le> 21)" "\<not> (0 < n \<and> n \<le> 21)" "- 6 < n \<and> n \<le> 0"
    | (d) "\<not> (?k \<le> n \<and> n \<le> 21)" "\<not> (0 < n \<and> n \<le> 21)" "\<not> (- 6 < n \<and> n \<le> 0)" by blast
  then show ?thesis
  proof cases
    case a
    then show ?thesis using assms zeros by (intro that [of "ds @ replicate (nat (n - ?k)) 48" "[]" "[]"]) (auto simp: format_decimal_def)
  next
    case b
    then have "drop (nat n) ds \<noteq> []" "0 < nat n" by auto
    with b show ?thesis using part hd_take [of "nat n"]
      by (intro that [of "take (nat n) ds" "46 # drop (nat n) ds" "[]"]) (auto simp: format_decimal_def)
  next
    case c
    then show ?thesis using assms zeros
      by (intro that [of "[48]" "46 # replicate (nat (- n)) 48 @ ds" "[]"]) (auto simp: format_decimal_def)
  next
    case d
    show ?thesis
    proof (cases "?k = 1")
      case True
      with d show ?thesis using assms by (intro that [of ds "[]" "exponent_suffix (n - 1)"]) (auto simp: format_decimal_def)
    next
      case False
      then have "drop 1 ds \<noteq> []" using assms(2) by (cases ds) auto
      with d False show ?thesis using part hd_take [of 1]
        by (intro that [of "take 1 ds" "46 # drop 1 ds" "exponent_suffix (n - 1)"]) (auto simp: format_decimal_def)
    qed
  qed
qed

lemma digits_of_head: "0 < n \<Longrightarrow> hd (digits_of n) \<noteq> 48"
proof (induction n rule: digits_of.induct)
  case (1 n)
  show ?case
  proof (cases "n < 10")
    case True
    with 1 show ?thesis by (simp add: digits_of.simps [of n])
  next
    case False
    then have "0 < n div 10" by (simp add: div_greater_zero_iff)
    with 1 False show ?thesis using digits_of_nonempty [of "n div 10"] by (simp add: digits_of.simps [of n])
  qed
qed

lemma json_number_positive:
  assumes "to_double q = Fin q" and "0 < q" and "ends_number post" and g: "g = [] \<or> g = [45]"
  shows "json_number (g @ string_of_positive q @ post) = Some (VNum (number_of_string (g @ string_of_positive q)), post)"
proof -
  obtain m k n where sd: "shortest_digits q = (m, k, n)" by (cases "shortest_digits q")
  have m: "0 < m" using shortest_digits_ok [OF assms(1,2) sd] by (meson less_le_trans zero_less_numeral zero_less_power)
  have s: "string_of_positive q = format_decimal (digits_of (nat m)) n" using sd by (simp add: string_of_positive_def)
  have h: "hd (digits_of (nat m)) \<noteq> 48" using m by (intro digits_of_head) simp
  obtain i f e where p: "format_decimal (digits_of (nat m)) n = i @ f @ e" "i = [48] \<or> list_all is_digit i \<and> i \<noteq> [] \<and> hd i \<noteq> 48"
    "f = [] \<or> (\<exists>g. f = 46 # g \<and> list_all is_digit g \<and> g \<noteq> [])" "e = [] \<or> (\<exists>n. e = exponent_suffix n)"
    by (rule format_decimal_parts [OF digits_of_digits digits_of_nonempty h])
  show ?thesis using json_number_parts [OF g p(2-4) assms(3)] unfolding s p(1) by simp
qed

text \<open>Rounding is symmetric, so a negative double reads back as well.\<close>

lemma to_double_minus: "to_double q = Fin q \<Longrightarrow> to_double (- q) = Fin (- q)"
proof -
  assume q: "to_double q = Fin q"
  show ?thesis
  proof (cases "q = 0")
    case False
    have "round_mantissa (- q) = - round_mantissa q"
      by (simp add: round_mantissa_def Let_def double_exponent_def round_even_minus flip: minus_divide_left)
    with to_double_fixed [OF q] False show ?thesis by (simp add: to_double_def Let_def)
  qed simp
qed

lemma number_of_negative:
  assumes "to_double q = Fin q" and "q < 0"
  shows "number_of_string (45 # string_of_positive (- q)) = Fin q"
proof -
  let ?s = "string_of_positive (- q)"
  obtain v where v: "decimal_value ?s = Some v" "to_double v = Fin (- q)"
    using string_of_positive_value [OF to_double_minus [OF assms(1)]] assms(2) by auto
  have s: "?s \<noteq> []" "is_digit (hd ?s)" "is_digit (last ?s)" using string_of_positive_text by simp_all
  then have "trim (45 # ?s) = 45 # ?s" using digit_not_space by (intro trim_id) (auto simp: is_space_def)
  moreover have "?s \<noteq> js ''Infinity''" using s(2) by (auto simp: is_digit_def js_def)
  ultimately show ?thesis using v assms(2) by (simp add: number_of_string_def signed_decimal_def)
qed

text \<open>The number that the text of a number reads as: the text of negative zero has no sign.\<close>

fun settled :: "js_num \<Rightarrow> js_num" where
  "settled NegZero = Fin 0"
| "settled x = x"

theorem json_number_of_double:
  assumes "is_double x" and "is_finite x" and "ends_number post"
  shows "json_number (string_of_number x @ post) = Some (VNum (settled x), post)"
proof -
  have zero: "json_number ([48] @ post) = Some (VNum (Fin 0), post)"
    using json_number_parts [of "[]" "[48]" "[]" "[]" post] assms(3) number_of_string_of_number [of "Fin 0"] by simp
  show ?thesis
  proof (cases x)
    case (Fin q)
    then have q: "to_double q = Fin q" using assms(1) by simp
    consider "q = 0" | "0 < q" | "q < 0" by linarith
    then show ?thesis
    proof cases
      case 2
      with Fin q assms number_of_string_of_number [of x] json_number_positive [of q post "[]"] show ?thesis by simp
    next
      case 3
      with Fin assms(3) number_of_negative [OF q] json_number_positive [OF to_double_minus [OF q], of post "[45]"]
      show ?thesis by simp
    qed (use zero Fin in simp)
  qed (use zero assms in simp_all)
qed

lemma string_of_number_head:
  assumes "is_finite x"
  shows "\<exists>c r. string_of_number x = c # r \<and> (is_digit c \<or> c = 45)"
proof (cases x)
  case (Fin q)
  have "\<exists>c r. string_of_positive p = c # r \<and> is_digit c" for p
    using string_of_positive_text [of p] by (cases "string_of_positive p") auto
  from this [of q] this [of "- q"] Fin show ?thesis by (auto simp: is_digit_def)
qed (use assms in \<open>simp_all add: is_digit_def\<close>)

subsection \<open>Objects of numbers and strings\<close>

fun plain_value :: "js_value \<Rightarrow> bool" where
  "plain_value (VNum x) = (is_double x \<and> is_finite x)"
| "plain_value (VStr s) = code_units s"
| "plain_value _ = False"

definition plain_record :: "(js_string, js_value) entries \<Rightarrow> bool" where
  "plain_record es \<longleftrightarrow> distinct (map fst es) \<and> list_all (\<lambda>(k, v). code_units k \<and> plain_value v) es"

fun plain_json :: "js_value \<Rightarrow> js_string" where
  "plain_json (VNum x) = string_of_number x"
| "plain_json (VStr s) = json_string s"
| "plain_json _ = []"

fun settled_value :: "js_value \<Rightarrow> js_value" where
  "settled_value (VNum x) = VNum (settled x)"
| "settled_value v = v"

abbreviation settled_entries :: "('k, js_value) entries \<Rightarrow> ('k, js_value) entries" where
  "settled_entries es \<equiv> map (\<lambda>(k, v). (k, settled_value v)) es"

lemma stringify_plain: "plain_value v \<Longrightarrow> json_stringify v = Some (plain_json v)"
  by (cases v) simp_all

lemma plain_json_nonempty [simp]: "plain_value v \<Longrightarrow> plain_json v \<noteq> []"
  using string_of_number_head by (cases v) (fastforce simp: json_string_def)+

lemma json_value_plain:
  assumes "plain_value v" and "ends_number post"
  shows "json_value (plain_json v @ post) = Some (settled_value v, post)"
proof (cases v)
  case (VStr s)
  with assms json_chars_quote_units [of s post "[]"] show ?thesis
    by (simp add: json_value.simps json_string_def skip_json_def is_json_space_def)
next
  case (VNum x)
  let ?s = "string_of_number x"
  have x: "is_double x" "is_finite x" using assms(1) VNum by simp_all
  obtain c r where cr: "?s = c # r" "is_digit c \<or> c = 45"
    using string_of_number_head [OF x(2)] by blast
  then have "\<not> is_json_space c" "c \<noteq> 34" "c \<noteq> 91" "c \<noteq> 123" by (auto simp: is_json_space_def is_digit_def)
  moreover have "json_word (?s @ post) = Some (VNum (settled x), post)"
    using json_number_of_double [OF x assms(2)] cr by (auto simp: json_word_def is_digit_def js_def)
  ultimately show ?thesis using cr VNum by (simp add: json_value.simps skip_json_def)
qed (use assms in simp_all)

lemma set_own_new: "k \<notin> fst ` set es \<Longrightarrow> set_own k v es = es @ [(k, v)]"
  by (induction es) auto

lemma ends_number_marks [simp]: "ends_number (44 # s)" "ends_number (125 # s)"
  by (simp_all add: ends_number_def is_digit_def)

lemma after_mark_here: "\<not> is_json_space m \<Longrightarrow> after_mark m (m # s) = Some s" "\<not> is_json_space m \<Longrightarrow> m \<noteq> c \<Longrightarrow> after_mark c (m # s) = None"
  by (simp_all add: after_mark_def skip_json_def)

definition member_text :: "js_string \<times> js_value \<Rightarrow> js_string" where
  "member_text kv = json_string (fst kv) @ 58 # plain_json (snd kv)"

lemma json_member_step:
  assumes k: "code_units k" and v: "plain_value v"
  shows "json_members (member_text (k, v) @ 44 # rest) acc = json_members rest (set_own k (settled_value v) acc)"
    and "json_members (member_text (k, v) @ 125 # rest) acc = Some (VObj (set_own k (settled_value v) acc), rest)"
proof -
  have chars: "json_chars (quote_units k @ 34 # s) [] = Some (k, s)" for s
    using json_chars_quote_units [OF k, of s "[]"] by simp
  show "json_members (member_text (k, v) @ 44 # rest) acc = json_members rest (set_own k (settled_value v) acc)"
    by (subst json_members.simps) (simp add: member_text_def json_string_def after_mark_here is_json_space_def chars json_value_plain [OF v] v)
  show "json_members (member_text (k, v) @ 125 # rest) acc = Some (VObj (set_own k (settled_value v) acc), rest)"
    by (subst json_members.simps) (simp add: member_text_def json_string_def after_mark_here is_json_space_def chars json_value_plain [OF v] v)
qed

lemma json_members_plain:
  assumes "es \<noteq> []" and "list_all (\<lambda>(k, v). code_units k \<and> plain_value v) es" and "distinct (map fst (acc @ es))"
  shows "json_members (join [44] (map member_text es) @ 125 # post) acc = Some (VObj (acc @ settled_entries es), post)"
  using assms
proof (induction es arbitrary: acc rule: induct_list012)
  case (2 e)
  then show ?case by (cases e) (simp add: json_member_step set_own_new)
next
  case (3 e e' es)
  obtain k v where e: "e = (k, v)" by fastforce
  have "json_members (join [44] (map member_text (e' # es)) @ 125 # post) (acc @ [(k, settled_value v)]) =
      Some (VObj ((acc @ [(k, settled_value v)]) @ settled_entries (e' # es)), post)"
    using "3.prems" e by (intro "3.IH"(2)) auto
  with "3.prems" e show ?case by (simp add: json_member_step set_own_new)
qed simp

theorem json_record_roundtrip:
  assumes "plain_record es"
  shows "\<exists>s. json_stringify (VObj es) = Some s \<and> json_parse s = Some (VObj (settled_entries es))"
proof -
  have es: "list_all (\<lambda>(k, v). code_units k \<and> plain_value v) es" "distinct (map fst es)" using assms by (simp_all add: plain_record_def)
  have "concat (map (\<lambda>(k, v). case json_stringify v of Some s \<Rightarrow> [json_string k @ 58 # s] | None \<Rightarrow> []) es) = map member_text es"
    using es(1) by (induction es) (auto simp: member_text_def stringify_plain)
  then have s: "json_stringify (VObj es) = Some (123 # join [44] (map member_text es) @ [125])" by simp
  have "json_value (123 # join [44] (map member_text es) @ [125]) = Some (VObj (settled_entries es), [])"
  proof (cases es)
    case Nil
    then show ?thesis by (simp add: json_value.simps skip_json_def is_json_space_def after_mark_def)
  next
    case (Cons e rest)
    then have "hd (join [44] (map member_text es) @ [125]) = 34" "join [44] (map member_text es) \<noteq> []"
      by (cases rest; simp add: member_text_def json_string_def)+
    then have "after_mark 125 (join [44] (map member_text es) @ [125]) = None"
      by (cases "join [44] (map member_text es)") (auto simp: after_mark_def skip_json_def is_json_space_def)
    with json_members_plain [OF _ es(1), of "[]" "[]"] es(2) Cons show ?thesis
      by (simp add: json_value.simps skip_json_def is_json_space_def)
  qed
  with s show ?thesis by (simp add: json_parse_def skip_json_def)
qed

end
