(* ===== verification/Pricing_Options.thy ===== *)
theory Pricing_Options
  imports Js_Object Js_Stringify Model_Price
begin

section \<open>Configured prices of models (model-pricing/pricing.ts, model-pricing/api.ts, model-pricing-snapshots.ts)\<close>

text \<open>
  An administrator configures the prices of all models in ten options, each the JSON text of an
  object from model names to a number or a text. The editor reads the options as one row per
  model, turns the draft of a row into values, writes the values of a draft or of an imported
  price into the texts, and sends the models whose values differ. A text that is not an object is
  followed through the operations of the language on arrays and primitive values.
\<close>

subsection \<open>Options\<close>

datatype pricing_key =
    ModelPrice | ModelRatio | CompletionRatio | CacheRatio | CreateCacheRatio | ImageRatio | AudioRatio
  | AudioCompletionRatio | BillingModeKey | BillingExprKey

definition PRICING_KEYS :: "pricing_key list" where
  "PRICING_KEYS =
     [ModelPrice, ModelRatio, CompletionRatio, CacheRatio, CreateCacheRatio, ImageRatio, AudioRatio,
      AudioCompletionRatio, BillingModeKey, BillingExprKey]"

fun pricing_key_text :: "pricing_key \<Rightarrow> js_string" where
  "pricing_key_text ModelPrice = js ''ModelPrice''"
| "pricing_key_text ModelRatio = js ''ModelRatio''"
| "pricing_key_text CompletionRatio = js ''CompletionRatio''"
| "pricing_key_text CacheRatio = js ''CacheRatio''"
| "pricing_key_text CreateCacheRatio = js ''CreateCacheRatio''"
| "pricing_key_text ImageRatio = js ''ImageRatio''"
| "pricing_key_text AudioRatio = js ''AudioRatio''"
| "pricing_key_text AudioCompletionRatio = js ''AudioCompletionRatio''"
| "pricing_key_text BillingModeKey = js ''billing_setting.billing_mode''"
| "pricing_key_text BillingExprKey = js ''billing_setting.billing_expr''"

type_synonym pricing_values = "pricing_key \<rightharpoonup> js_value"
type_synonym pricing_options = "pricing_key \<Rightarrow> js_string"

datatype pricing_error = Raised js_exception | PriceNotFinite | NotAnObject | InvalidPricingValue

definition catching :: "js_exception + 'a \<Rightarrow> pricing_error + 'a" where
  "catching r = map_sum Raised id r"

text \<open>The object with one text for each key, from a computation of the texts in the order of the keys.\<close>

definition options_of :: "(pricing_key \<Rightarrow> 'e + js_string) \<Rightarrow> 'e + pricing_options" where
  "options_of f =
     bind_result (map_result (\<lambda>key. map_sum id (Pair key) (f key)) PRICING_KEYS) (\<lambda>es.
       Inr (\<lambda>key. case map_of es key of Some s \<Rightarrow> s | None \<Rightarrow> []))"

definition pricingOptions :: "(js_string, js_value) entries \<Rightarrow> pricing_options" where
  "pricingOptions values key =
     (let own = map_of values (pricing_key_text key);
          or_old = (\<lambda>old. if own = None \<or> own = Some VUndefined \<or> own = Some VNull then map_of values old else own);
          value = (if key = BillingModeKey then or_old (js ''BillingMode'')
                   else if key = BillingExprKey then or_old (js ''BillingExpr'') else own) in
      case value of Some (VStr s) \<Rightarrow> s | _ \<Rightarrow> js ''{}'')"

record model_pricing_entry =
  me_model_name :: js_string
  me_version :: js_string
  me_configured :: pricing_values
  me_effective :: pricing_values
  me_usage_schema :: "usage_schema option"

text \<open>\<^verbatim>\<open>Number\<close> of a configured value, which is a number or a text.\<close>

fun number_of_price :: "js_value \<Rightarrow> js_num" where
  "number_of_price (VNum x) = x"
| "number_of_price (VStr s) = number_of_string s"
| "number_of_price _ = NaN"

definition text_value :: "js_value option \<Rightarrow> js_string option" where
  "text_value v = (case v of Some (VStr s) \<Rightarrow> Some s | _ \<Rightarrow> None)"

definition modelPricingDisplay :: "model_pricing_entry \<Rightarrow> pricing_model" where
  "modelPricingDisplay entry =
     (let values = me_effective entry; num = (\<lambda>key. map_option number_of_price (values key)) in
      \<lparr>pm_model_name = me_model_name entry, pm_description = None, pm_vendor_name = None,
       pm_quota_type = (if values ModelPrice \<noteq> None \<and> values BillingModeKey \<noteq> Some (VStr (js ''tiered_expr'')) then Fin 1 else Fin 0),
       pm_model_ratio = (case num ModelRatio of Some x \<Rightarrow> x | None \<Rightarrow> NaN),
       pm_completion_ratio = (case num CompletionRatio of Some x \<Rightarrow> x | None \<Rightarrow> NaN),
       pm_model_price = num ModelPrice, pm_cache_ratio = num CacheRatio, pm_create_cache_ratio = num CreateCacheRatio,
       pm_image_ratio = num ImageRatio, pm_audio_ratio = num AudioRatio,
       pm_audio_completion_ratio = num AudioCompletionRatio,
       pm_enable_groups = Some [], pm_tags = None, pm_supported_endpoint_types = None, pm_group_ratio = None,
       pm_billing_mode = text_value (values BillingModeKey), pm_billing_expr = text_value (values BillingExprKey),
       pm_billing_usage_schema = me_usage_schema entry, pm_billing_usage_examples = None\<rparr>)"

subsection \<open>Rows of the editor\<close>

definition safeJsonParse :: "js_string \<Rightarrow> js_value \<Rightarrow> js_value" where
  "safeJsonParse value fallback =
     (if trim value = [] then fallback
      else case json_parse (trim value) of Some v \<Rightarrow> v | None \<Rightarrow> fallback)"

record model_pricing_snapshot =
  sn_name :: js_string
  sn_price :: "js_string option"
  sn_ratio :: "js_string option"
  sn_cacheRatio :: "js_string option"
  sn_createCacheRatio :: "js_string option"
  sn_completionRatio :: "js_string option"
  sn_imageRatio :: "js_string option"
  sn_audioRatio :: "js_string option"
  sn_audioCompletionRatio :: "js_string option"
  sn_billingMode :: "js_string option"
  sn_billingExpr :: "js_string option"
  sn_requestRuleExpr :: "js_string option"
  sn_hasConflict :: bool

text \<open>
  \<^verbatim>\<open>m[name]?.toString() || ''\<close>, and \<^verbatim>\<open>m[name] || ''\<close> as a string whose method is called. Both read
  an inherited member when the name is no own property.
\<close>

definition member_string :: "js_value \<Rightarrow> js_string \<Rightarrow> js_exception + js_string" where
  "member_string m name =
     (if inherits m name then Inr (inherited_text m name)
      else let v = get_member m name in if is_nullish v then Inr [] else string_of_value v)"

definition string_or_empty :: "js_value \<Rightarrow> js_exception + js_string" where
  "string_or_empty v = (case v of VStr s \<Rightarrow> Inr s | _ \<Rightarrow> if js_truthy v then Inl TypeError else Inr [])"

definition member_or_empty :: "js_value \<Rightarrow> js_string \<Rightarrow> js_exception + js_string" where
  "member_or_empty m name = (if inherits m name then Inl TypeError else string_or_empty (get_member m name))"

definition snapshot_row :: "(pricing_key \<Rightarrow> js_value) \<Rightarrow> js_string \<Rightarrow> js_exception + model_pricing_snapshot" where
  "snapshot_row maps name =
     bind_result (member_string (maps ModelPrice) name) (\<lambda>price.
     bind_result (member_string (maps ModelRatio) name) (\<lambda>ratio.
     bind_result (member_string (maps CacheRatio) name) (\<lambda>cache.
     bind_result (member_string (maps CreateCacheRatio) name) (\<lambda>createCache.
     bind_result (member_string (maps CompletionRatio) name) (\<lambda>completion.
     bind_result (member_string (maps ImageRatio) name) (\<lambda>image.
     bind_result (member_string (maps AudioRatio) name) (\<lambda>audio.
     bind_result (member_string (maps AudioCompletionRatio) name) (\<lambda>audioCompletion.
       let row = \<lparr>sn_name = name, sn_price = Some price, sn_ratio = Some ratio, sn_cacheRatio = Some cache,
                  sn_createCacheRatio = Some createCache, sn_completionRatio = Some completion,
                  sn_imageRatio = Some image, sn_audioRatio = Some audio,
                  sn_audioCompletionRatio = Some audioCompletion,
                  sn_billingMode = Some (if price \<noteq> [] then js ''per-request'' else js ''per-token''),
                  sn_billingExpr = None, sn_requestRuleExpr = None,
                  sn_hasConflict =
                    (price \<noteq> [] \<and> (ratio \<noteq> [] \<or> completion \<noteq> [] \<or> cache \<noteq> [] \<or> createCache \<noteq> [] \<or>
                       image \<noteq> [] \<or> audio \<noteq> [] \<or> audioCompletion \<noteq> []))\<rparr> in
       if get_member (maps BillingModeKey) name = VStr (js ''tiered_expr'')
       then bind_result (member_or_empty (maps BillingExprKey) name) (\<lambda>fullExpr.
              map_sum id (\<lambda>p. row\<lparr>sn_billingMode := Some (js ''tiered_expr''), sn_billingExpr := Some (billingExpr p),
                                  sn_requestRuleExpr := Some (requestRuleExpr p), sn_hasConflict := False\<rparr>)
                (splitBillingExprAndRequestRules fullExpr))
       else Inr row))))))))"

text \<open>The order in which the names are collected; a set keeps the first of equal names.\<close>

definition SNAPSHOT_KEYS :: "pricing_key list" where
  "SNAPSHOT_KEYS =
     [ModelPrice, ModelRatio, CacheRatio, CreateCacheRatio, CompletionRatio, ImageRatio, AudioRatio,
      AudioCompletionRatio, BillingModeKey, BillingExprKey]"

definition js_set :: "'a list \<Rightarrow> 'a list" where
  "js_set xs = rev (remdups (rev xs))"

definition buildModelSnapshots :: "pricing_options \<Rightarrow> js_exception + model_pricing_snapshot list" where
  "buildModelSnapshots options =
     (let maps = (\<lambda>key. safeJsonParse (options key) (VObj [])) in
      bind_result (map_result (\<lambda>key. own_keys (maps key)) SNAPSHOT_KEYS) (\<lambda>keys.
        map_result (snapshot_row maps) (js_set (concat keys))))"

definition pricingRows :: "pricing_options \<Rightarrow> js_exception + model_pricing_snapshot list" where
  "pricingRows options = buildModelSnapshots options"

subsection \<open>Drafts\<close>

datatype pricing_mode = Per_Token | Per_Request | Tiered_Expr

record model_ratio_data =
  mr_name :: js_string
  mr_price :: "js_string option"
  mr_ratio :: "js_string option"
  mr_cacheRatio :: "js_string option"
  mr_createCacheRatio :: "js_string option"
  mr_completionRatio :: "js_string option"
  mr_imageRatio :: "js_string option"
  mr_audioRatio :: "js_string option"
  mr_audioCompletionRatio :: "js_string option"
  mr_billingMode :: "pricing_mode option"
  mr_billingExpr :: "js_string option"
  mr_requestRuleExpr :: "js_string option"

definition single_option :: "js_string \<Rightarrow> js_value option \<Rightarrow> js_string" where
  "single_option name v =
     (case json_stringify (VObj (case v of Some x \<Rightarrow> [(name, x)] | None \<Rightarrow> [])) of Some s \<Rightarrow> s | None \<Rightarrow> [])"

definition pricingRow :: "js_string \<Rightarrow> pricing_values \<Rightarrow> js_exception + model_ratio_data" where
  "pricingRow name values =
     bind_result (pricingRows (\<lambda>key. single_option name (values key))) (\<lambda>rows.
       Inr (case rows of
              [] \<Rightarrow> \<lparr>mr_name = name, mr_price = None, mr_ratio = None, mr_cacheRatio = None, mr_createCacheRatio = None,
                     mr_completionRatio = None, mr_imageRatio = None, mr_audioRatio = None,
                     mr_audioCompletionRatio = None, mr_billingMode = Some Per_Token, mr_billingExpr = None,
                     mr_requestRuleExpr = None\<rparr>
            | row # _ \<Rightarrow>
                \<lparr>mr_name = name, mr_price = sn_price row, mr_ratio = sn_ratio row, mr_cacheRatio = sn_cacheRatio row,
                 mr_createCacheRatio = sn_createCacheRatio row, mr_completionRatio = sn_completionRatio row,
                 mr_imageRatio = sn_imageRatio row, mr_audioRatio = sn_audioRatio row,
                 mr_audioCompletionRatio = sn_audioCompletionRatio row,
                 mr_billingMode =
                   Some (if sn_billingMode row = Some (js ''tiered_expr'') then Tiered_Expr
                         else if sn_price row \<noteq> None \<and> sn_price row \<noteq> Some [] then Per_Request else Per_Token),
                 mr_billingExpr = sn_billingExpr row, mr_requestRuleExpr = sn_requestRuleExpr row\<rparr>))"

definition pricingFieldMap :: "((model_ratio_data \<Rightarrow> js_string option) \<times> pricing_key) list" where
  "pricingFieldMap =
     [(mr_price, ModelPrice), (mr_ratio, ModelRatio), (mr_completionRatio, CompletionRatio),
      (mr_cacheRatio, CacheRatio), (mr_createCacheRatio, CreateCacheRatio), (mr_imageRatio, ImageRatio),
      (mr_audioRatio, AudioRatio), (mr_audioCompletionRatio, AudioCompletionRatio)]"

definition keeps_field :: "model_ratio_data \<Rightarrow> pricing_key \<Rightarrow> bool" where
  "keeps_field data key \<longleftrightarrow>
     mr_billingMode data = Some Tiered_Expr \<or>
     (if mr_billingMode data = Some Per_Request then key = ModelPrice else key \<noteq> ModelPrice)"

definition draft_field ::
  "model_ratio_data \<Rightarrow> (model_ratio_data \<Rightarrow> js_string option) \<times> pricing_key \<Rightarrow> pricing_values \<Rightarrow> pricing_error + pricing_values" where
  "draft_field data fk values =
     (case fst fk data of
        None \<Rightarrow> Inr values
      | Some value \<Rightarrow>
          if value = [] then Inr values
          else let x = number_of_string value in
               if \<not> is_finite x \<or> num_lt x (Fin 0) then Inl PriceNotFinite
               else Inr (if keeps_field data (snd fk) then values(snd fk \<mapsto> VNum x) else values))"

definition text_or_blank :: "js_string option \<Rightarrow> js_string" where
  "text_or_blank s = (case s of Some t \<Rightarrow> t | None \<Rightarrow> [])"

definition pricingFromDraft :: "model_ratio_data \<Rightarrow> pricing_error + pricing_values" where
  "pricingFromDraft data =
     (let tiered = (mr_billingMode data = Some Tiered_Expr);
          values = [BillingModeKey \<mapsto> VStr (if tiered then js ''tiered_expr'' else js ''ratio'')] in
      bind_result (fold_result (draft_field data) pricingFieldMap values) (\<lambda>values.
        Inr (if tiered
             then values(BillingExprKey \<mapsto>
                    VStr (combineBillingExpr (text_or_blank (mr_billingExpr data)) (text_or_blank (mr_requestRuleExpr data))))
             else values)))"

subsection \<open>Writing values into the options\<close>

definition put_value :: "js_value option \<Rightarrow> js_string \<Rightarrow> js_value \<Rightarrow> js_exception + js_value" where
  "put_value v name m =
     bind_result (delete_member name m) (\<lambda>m. case v of Some x \<Rightarrow> define_member name x m | None \<Rightarrow> Inr m)"

definition write_option :: "js_string \<Rightarrow> js_value option \<Rightarrow> js_string list \<Rightarrow> js_exception + js_string" where
  "write_option txt v names =
     (case json_parse txt of
        None \<Rightarrow> Inl SyntaxError
      | Some m \<Rightarrow>
          map_sum id (\<lambda>m. case json_stringify m of Some s \<Rightarrow> s | None \<Rightarrow> [])
            (fold_result (put_value v) names m))"

definition applyPricingValues ::
  "pricing_options \<Rightarrow> pricing_values \<Rightarrow> js_string list \<Rightarrow> js_exception + pricing_options" where
  "applyPricingValues options values names = options_of (\<lambda>key. write_option (options key) (values key) names)"

definition applyPricingDraft ::
  "pricing_options \<Rightarrow> model_ratio_data \<Rightarrow> js_string list option \<Rightarrow> pricing_error + pricing_options" where
  "applyPricingDraft options data names =
     bind_result (pricingFromDraft data) (\<lambda>values.
       catching (applyPricingValues options values (case names of Some ns \<Rightarrow> ns | None \<Rightarrow> [mr_name data])))"

definition add_value ::
  "pricing_key \<Rightarrow> js_string \<times> js_value \<Rightarrow> (js_string, pricing_values) entries \<Rightarrow> pricing_error + (js_string, pricing_values) entries" where
  "add_value key e models =
     (case snd e of
        VNum x \<Rightarrow> Inr (set_own (fst e) ((case map_of models (fst e) of Some m \<Rightarrow> m | None \<Rightarrow> Map.empty)(key \<mapsto> VNum x)) models)
      | VStr s \<Rightarrow> Inr (set_own (fst e) ((case map_of models (fst e) of Some m \<Rightarrow> m | None \<Rightarrow> Map.empty)(key \<mapsto> VStr s)) models)
      | _ \<Rightarrow> Inl InvalidPricingValue)"

definition add_option ::
  "pricing_options \<Rightarrow> pricing_key \<Rightarrow> (js_string, pricing_values) entries \<Rightarrow> pricing_error + (js_string, pricing_values) entries" where
  "add_option options key models =
     (case json_parse (options key) of
        None \<Rightarrow> Inl (Raised SyntaxError)
      | Some (VObj es) \<Rightarrow> fold_result (add_value key) es models
      | Some _ \<Rightarrow> Inl NotAnObject)"

definition pricingValuesByModel :: "pricing_options \<Rightarrow> pricing_error + (js_string, pricing_values) entries" where
  "pricingValuesByModel options = fold_result (add_option options) PRICING_KEYS []"

subsection \<open>Imported prices\<close>

text \<open>\<^verbatim>\<open>toUpperCase\<close> is computed on ASCII text and a parameter on any other, as for lower case.\<close>

definition ascii_upper :: "code_unit \<Rightarrow> code_unit" where
  "ascii_upper c = (if 97 \<le> c \<and> c \<le> 122 then c - 32 else c)"

definition to_upper_case :: "(js_string \<Rightarrow> js_string) \<Rightarrow> js_string \<Rightarrow> js_string" where
  "to_upper_case unicode s = (if list_all (\<lambda>c. c < 128) s then map ascii_upper s else unicode s)"

text \<open>\<^verbatim>\<open>split\<close> at a character.\<close>

fun split_at :: "code_unit \<Rightarrow> js_string \<Rightarrow> js_string list" where
  "split_at m [] = [[]]"
| "split_at m (c # s) = (if c = m then [] # split_at m s else case split_at m s of p # ps \<Rightarrow> (c # p) # ps | [] \<Rightarrow> [[c]])"

definition field_key :: "(js_string \<Rightarrow> js_string) \<Rightarrow> js_string \<Rightarrow> pricing_key option" where
  "field_key upper fld =
     (let key = concat (map (\<lambda>part. to_upper_case upper (take 1 part) @ drop 1 part) (split_at 95 fld)) in
      List.find (\<lambda>k. pricing_key_text k = key) PRICING_KEYS)"

definition sync_field ::
  "(js_string \<Rightarrow> js_string) \<Rightarrow> bool \<Rightarrow> js_string \<times> js_value \<Rightarrow> pricing_values \<Rightarrow> pricing_values" where
  "sync_field upper fixed e vals =
     (if fst e = js ''billing_mode'' \<or> fst e = js ''billing_expr'' then vals
      else if fixed \<and> fst e \<noteq> js ''model_price'' then vals
      else case field_key upper (fst e) of Some key \<Rightarrow> vals(key \<mapsto> snd e) | None \<Rightarrow> vals)"

definition sync_expression :: "(js_string, js_value) entries \<Rightarrow> js_string option" where
  "sync_expression flds =
     (case map_of flds (js ''billing_expr'') of
        Some (VStr s) \<Rightarrow> if trim s \<noteq> [] then Some s else None
      | _ \<Rightarrow> None)"

definition sync_values :: "(js_string \<Rightarrow> js_string) \<Rightarrow> (js_string, js_value) entries \<Rightarrow> pricing_values" where
  "sync_values upper flds =
     (case sync_expression flds of
        Some s \<Rightarrow> [BillingModeKey \<mapsto> VStr (js ''tiered_expr''), BillingExprKey \<mapsto> VStr s]
      | None \<Rightarrow>
          fold (sync_field upper (map_of flds (js ''model_price'') \<noteq> None)) flds
            [BillingModeKey \<mapsto> VStr (js ''ratio'')])"

definition sync_model ::
  "(js_string \<Rightarrow> js_string) \<Rightarrow> js_string \<times> (js_string, js_value) entries \<Rightarrow> pricing_options \<Rightarrow> pricing_error + pricing_options" where
  "sync_model upper sel result =
     (let name = fst sel; flds = snd sel in
      bind_result (catching (pricingRow name (sync_values upper flds))) (\<lambda>row.
      bind_result (pricingFromDraft row) (\<lambda>validated.
        let validated = (case sync_expression flds of Some s \<Rightarrow> validated(BillingExprKey \<mapsto> VStr s) | None \<Rightarrow> validated) in
        catching (applyPricingValues result validated [name]))))"

definition applyPriceSyncSelections ::
  "(js_string \<Rightarrow> js_string) \<Rightarrow> pricing_options \<Rightarrow> (js_string, (js_string, js_value) entries) entries \<Rightarrow> pricing_error + pricing_options" where
  "applyPriceSyncSelections upper options selections = fold_result (sync_model upper) selections options"

subsection \<open>Changes to send\<close>

record model_pricing_config =
  mc_entries :: "model_pricing_entry list"
  mc_options :: pricing_options
  mc_empty_version :: js_string

record model_pricing_change =
  ch_model_name :: js_string
  ch_expected_version :: js_string
  ch_pricing :: pricing_values

definition values_or_empty :: "(js_string, pricing_values) entries \<Rightarrow> js_string \<Rightarrow> pricing_values" where
  "values_or_empty models name = (case map_of models name of Some m \<Rightarrow> m | None \<Rightarrow> Map.empty)"

definition same_value :: "js_value option \<Rightarrow> js_value option \<Rightarrow> bool" where
  "same_value a b =
     (case (a, b) of (None, None) \<Rightarrow> True | (Some x, Some y) \<Rightarrow> strict_eq x y | _ \<Rightarrow> False)"

definition dirty_keys :: "pricing_values \<Rightarrow> pricing_values \<Rightarrow> pricing_key list" where
  "dirty_keys oldValues newValues = filter (\<lambda>key. \<not> same_value (oldValues key) (newValues key)) PRICING_KEYS"

definition changed_pricing :: "pricing_values \<Rightarrow> pricing_values \<Rightarrow> pricing_key list \<Rightarrow> pricing_values" where
  "changed_pricing configured newValues dirty =
     (let pricing = fold (\<lambda>key p. p(key := newValues key)) dirty configured in
      if newValues BillingModeKey = Some (VStr (js ''tiered_expr''))
      then pricing(BillingModeKey \<mapsto> VStr (js ''tiered_expr''), BillingExprKey := newValues BillingExprKey)
      else pricing)"

text \<open>The map of the entries by name has the last of several entries with the same name.\<close>

definition buildPricingChanges ::
  "model_pricing_config \<Rightarrow> pricing_options \<Rightarrow> pricing_options \<Rightarrow> pricing_error + model_pricing_change list" where
  "buildPricingChanges snapshot old new =
     bind_result (pricingValuesByModel old) (\<lambda>previous.
     bind_result (pricingValuesByModel new) (\<lambda>nexts.
       let entry_of = map_of (rev (map (\<lambda>e. (me_model_name e, e)) (mc_entries snapshot))) in
       Inr (concat (map (\<lambda>name.
              let oldValues = values_or_empty previous name; newValues = values_or_empty nexts name;
                  dirty = dirty_keys oldValues newValues; entry = entry_of name in
              if dirty = [] then []
              else [\<lparr>ch_model_name = name,
                     ch_expected_version = (case entry of Some e \<Rightarrow> me_version e | None \<Rightarrow> mc_empty_version snapshot),
                     ch_pricing = changed_pricing (case entry of Some e \<Rightarrow> me_configured e | None \<Rightarrow> Map.empty) newValues dirty\<rparr>])
            (js_set (map fst previous @ map fst nexts))))))"

end
