(* ===== verification/Pricing_Correct.thy ===== *)
theory Pricing_Correct
  imports Pricing_Options Rules_Correct
begin

section \<open>Configured prices: what saving and importing does\<close>

text \<open>
  The options are abstracted to a table from model names to values. Writing values into the
  options updates the table at the named models and nowhere else, reading them by model gives
  the table, and the changes that are sent are the differences of two tables.
\<close>

subsection \<open>The table of the options\<close>

definition option_entries :: "js_string \<Rightarrow> (js_string, js_value) entries" where
  "option_entries s = (case json_parse s of Some (VObj es) \<Rightarrow> es | _ \<Rightarrow> [])"

definition plain_option :: "js_string \<Rightarrow> bool" where
  "plain_option s \<longleftrightarrow> (case json_parse s of Some (VObj es) \<Rightarrow> plain_record es | _ \<Rightarrow> False)"

definition priced_options :: "pricing_options \<Rightarrow> bool" where
  "priced_options options \<longleftrightarrow> list_all (\<lambda>key. plain_option (options key)) PRICING_KEYS"

definition price_table :: "pricing_options \<Rightarrow> js_string \<Rightarrow> pricing_values" where
  "price_table options name key = map_of (option_entries (options key)) name"

abbreviation settled_values :: "pricing_values \<Rightarrow> pricing_values" where
  "settled_values values \<equiv> (\<lambda>key. map_option settled_value (values key))"

lemma PRICING_KEYS_all [simp]: "key \<in> set PRICING_KEYS"
  by (cases key) (simp_all add: PRICING_KEYS_def)

lemma PRICING_KEYS_distinct: "distinct PRICING_KEYS"
  by (simp add: PRICING_KEYS_def)

lemma priced_optionsD: "priced_options options \<Longrightarrow> plain_option (options key)"
  by (simp add: priced_options_def list_all_iff)

lemma plain_optionE:
  assumes "plain_option s"
  obtains es where "json_parse s = Some (VObj es)" "plain_record es" "option_entries s = es"
  using assms by (auto simp: plain_option_def option_entries_def split: option.splits js_value.splits)

subsection \<open>Writing one option\<close>

lemma settled_idem [simp]: "settled (settled x) = settled x"
  by (cases x) simp_all

lemma settled_value_idem [simp]: "settled_value (settled_value v) = settled_value v"
  by (cases v) simp_all

lemma settled_plain: "plain_value v \<Longrightarrow> plain_value (settled_value v)"
proof (cases v)
  case (VNum x)
  then show "plain_value v \<Longrightarrow> plain_value (settled_value v)" by (cases x) simp_all
qed simp_all

lemma map_of_filter_key: "map_of (filter (\<lambda>e. fst e \<noteq> k) es) = (map_of es)(k := None)"
  by (induction es) (auto simp: fun_eq_iff)

lemma map_of_settled: "map_of (settled_entries es) k = map_option settled_value (map_of es k)"
  by (induction es) auto

lemma set_own_plain:
  assumes "plain_record es" and "code_units k" and "plain_value v"
  shows "plain_record (set_own k v es)"
proof -
  have "list_all (\<lambda>(k, v). code_units k \<and> plain_value v) (set_own k v es)"
    using assms unfolding plain_record_def by (induction es) auto
  then show ?thesis using assms(1) by (simp add: plain_record_def distinct_set_own)
qed

lemma filter_plain: "plain_record es \<Longrightarrow> plain_record (filter P es)"
  by (auto simp: plain_record_def list_all_iff distinct_map_filter)

lemma settled_plain_record: "plain_record es \<Longrightarrow> plain_record (settled_entries es)"
  by (auto simp: plain_record_def list_all_iff settled_plain split_def o_def)

abbreviation plain_or_absent :: "js_value option \<Rightarrow> bool" where
  "plain_or_absent v \<equiv> (case v of Some x \<Rightarrow> plain_value x | None \<Rightarrow> True)"

lemma put_value_plain:
  assumes "plain_record es" and "code_units n" and "plain_or_absent v"
  shows "\<exists>es'. put_value v n (VObj es) = Inr (VObj es') \<and> plain_record es' \<and> map_of es' = (map_of es)(n := v)"
  using assms filter_plain [OF assms(1), of "\<lambda>e. fst e \<noteq> n"] set_own_plain [OF filter_plain [OF assms(1)] assms(2)]
  by (cases v) (auto simp: put_value_def map_of_filter_key)

lemma put_values_plain:
  assumes "plain_record es" and "list_all code_units names" and "plain_or_absent v"
  shows "\<exists>es'. fold_result (put_value v) names (VObj es) = Inr (VObj es') \<and> plain_record es' \<and>
    (\<forall>n. map_of es' n = (if n \<in> set names then v else map_of es n))"
  using assms
proof (induction names arbitrary: es)
  case (Cons n names)
  obtain es1 where 1: "put_value v n (VObj es) = Inr (VObj es1)" "plain_record es1" "map_of es1 = (map_of es)(n := v)"
    using put_value_plain [OF Cons.prems(1) _ Cons.prems(3)] Cons.prems(2) by auto
  from Cons.IH [OF 1(2)] Cons.prems 1 show ?case by auto
qed simp

lemma write_option_plain:
  assumes "plain_option s" and "list_all code_units names" and "plain_or_absent v"
  shows "\<exists>s'. write_option s v names = Inr s' \<and> plain_option s' \<and>
    (\<forall>n. map_of (option_entries s') n =
       map_option settled_value (if n \<in> set names then v else map_of (option_entries s) n))"
proof -
  from assms(1) obtain es where es: "json_parse s = Some (VObj es)" "plain_record es" "option_entries s = es"
    by (rule plain_optionE)
  from put_values_plain [OF es(2) assms(2,3)] obtain es' where
    put: "fold_result (put_value v) names (VObj es) = Inr (VObj es')" "plain_record es'"
      "\<forall>n. map_of es' n = (if n \<in> set names then v else map_of es n)" by blast
  obtain s' where s': "json_stringify (VObj es') = Some s'" "json_parse s' = Some (VObj (settled_entries es'))"
    using json_record_roundtrip [OF put(2)] by blast
  have "plain_option s'" "option_entries s' = settled_entries es'"
    using s'(2) settled_plain_record [OF put(2)] by (simp_all add: plain_option_def option_entries_def)
  with es put s' show ?thesis by (auto simp: write_option_def map_of_settled simp del: json_stringify.simps)
qed

subsection \<open>Writing all of them\<close>

lemma map_result_each: "(\<And>x. x \<in> set xs \<Longrightarrow> f x = Inr (g x)) \<Longrightarrow> map_result f xs = Inr (map g xs)"
  by (induction xs) simp_all

lemma options_of_Inr:
  assumes "\<And>key. f key = Inr (g key)"
  shows "options_of f = Inr g"
proof -
  have "map_of (map (\<lambda>key. (key, g key)) PRICING_KEYS) key = Some (g key)" for key
    by (simp add: map_of_map_restrict restrict_map_def)
  then show ?thesis using map_result_each [of PRICING_KEYS "\<lambda>key. map_sum id (Pair key) (f key)" "\<lambda>key. (key, g key)"]
    by (simp add: options_of_def assms)
qed

theorem apply_values_updates_table:
  assumes "priced_options options" and "list_all code_units names" and "\<And>key. plain_or_absent (values key)"
  shows "\<exists>options'. applyPricingValues options values names = Inr options' \<and> priced_options options' \<and>
    (\<forall>n. price_table options' n = settled_values (if n \<in> set names then values else price_table options n))"
proof -
  have "\<forall>key. \<exists>s'. write_option (options key) (values key) names = Inr s' \<and> plain_option s' \<and>
      (\<forall>n. map_of (option_entries s') n =
         map_option settled_value (if n \<in> set names then values key else map_of (option_entries (options key)) n))"
    using write_option_plain [OF priced_optionsD [OF assms(1)] assms(2,3)] by blast
  then obtain g where g: "\<And>key. write_option (options key) (values key) names = Inr (g key)" "\<And>key. plain_option (g key)"
    "\<And>key n. map_of (option_entries (g key)) n =
         map_option settled_value (if n \<in> set names then values key else map_of (option_entries (options key)) n)"
    by metis
  have "applyPricingValues options values names = Inr g"
    unfolding applyPricingValues_def by (rule options_of_Inr) (rule g(1))
  moreover have "priced_options g" using g(2) by (simp add: priced_options_def list_all_iff)
  ultimately show ?thesis using g(3) by (auto simp: price_table_def fun_eq_iff)
qed

subsection \<open>Reading the options by model\<close>

lemma add_values_plain:
  assumes "plain_record es" and "distinct (map fst models)"
  shows "\<exists>models'. fold_result (add_value key) es models = Inr models' \<and> distinct (map fst models') \<and>
    fst ` set models' = fst ` set models \<union> fst ` set es \<and>
    (\<forall>n. values_or_empty models' n =
       (case map_of es n of Some v \<Rightarrow> (values_or_empty models n)(key \<mapsto> v) | None \<Rightarrow> values_or_empty models n))"
  using assms
proof (induction es arbitrary: models)
  case (Cons e es)
  obtain k v where e: "e = (k, v)" by fastforce
  let ?m = "set_own k ((values_or_empty models k)(key \<mapsto> v)) models"
  have step: "add_value key e models = Inr ?m"
    using Cons.prems(1) e by (cases v) (simp_all add: add_value_def plain_record_def values_or_empty_def)
  have es: "plain_record es" "k \<notin> fst ` set es" using Cons.prems(1) e by (auto simp: plain_record_def)
  obtain models' where IH: "fold_result (add_value key) es ?m = Inr models'" "distinct (map fst models')"
    "fst ` set models' = fst ` set ?m \<union> fst ` set es"
    "\<forall>n. values_or_empty models' n =
       (case map_of es n of Some v \<Rightarrow> (values_or_empty ?m n)(key \<mapsto> v) | None \<Rightarrow> values_or_empty ?m n)"
    using Cons.IH [OF es(1) distinct_set_own [OF Cons.prems(2)]] by blast
  have "map_of es k = None" using es(2) by (simp add: map_of_eq_None_iff)
  with step IH e show ?case by (auto simp: fst_set_own values_or_empty_def split: option.splits)
qed auto

lemma add_options_plain:
  assumes "priced_options options" and "distinct (map fst models)" and "distinct keys"
    and "\<And>n key. key \<in> set keys \<Longrightarrow> values_or_empty models n key = None"
  shows "\<exists>models'. fold_result (add_option options) keys models = Inr models' \<and> distinct (map fst models') \<and>
    (\<forall>n. n \<in> fst ` set models' \<longleftrightarrow> n \<in> fst ` set models \<or> (\<exists>key\<in>set keys. price_table options n key \<noteq> None)) \<and>
    (\<forall>n key. values_or_empty models' n key = (if key \<in> set keys then price_table options n key else values_or_empty models n key))"
  using assms
proof (induction keys arbitrary: models)
  case (Cons key keys)
  obtain es where es: "json_parse (options key) = Some (VObj es)" "plain_record es" "option_entries (options key) = es"
    using priced_optionsD [OF Cons.prems(1)] by (rule plain_optionE)
  then have table: "price_table options n key = map_of es n" for n by (simp add: price_table_def)
  obtain m1 where m1: "add_option options key models = Inr m1" "distinct (map fst m1)" "fst ` set m1 = fst ` set models \<union> fst ` set es"
    "\<And>n. values_or_empty m1 n =
       (case map_of es n of Some v \<Rightarrow> (values_or_empty models n)(key \<mapsto> v) | None \<Rightarrow> values_or_empty models n)"
    using add_values_plain [OF es(2) Cons.prems(2), of key] es(1) by (auto simp: add_option_def)
  have here: "values_or_empty m1 n k = (if k = key then price_table options n key else values_or_empty models n k)" for n k
    using m1(4) [of n] Cons.prems(4) [of key n] table by (auto split: option.splits)
  have "values_or_empty m1 n k = None" if "k \<in> set keys" for n k
    using that Cons.prems(3,4) here by auto
  then obtain m2 where m2: "fold_result (add_option options) keys m1 = Inr m2" "distinct (map fst m2)"
    "\<forall>n. n \<in> fst ` set m2 \<longleftrightarrow> n \<in> fst ` set m1 \<or> (\<exists>key\<in>set keys. price_table options n key \<noteq> None)"
    "\<forall>n k. values_or_empty m2 n k = (if k \<in> set keys then price_table options n k else values_or_empty m1 n k)"
    using Cons.IH [OF Cons.prems(1) m1(2)] Cons.prems(3) by auto
  have "n \<in> fst ` set es \<longleftrightarrow> price_table options n key \<noteq> None" for n
    by (simp add: table map_of_eq_None_iff)
  with m1 m2 here show ?case by auto
qed simp

theorem values_by_model_is_table:
  assumes "priced_options options"
  obtains models where "pricingValuesByModel options = Inr models" "distinct (map fst models)"
    "\<And>n. values_or_empty models n = price_table options n"
    "\<And>n. n \<in> fst ` set models \<longleftrightarrow> price_table options n \<noteq> Map.empty"
proof -
  obtain models where m: "fold_result (add_option options) PRICING_KEYS [] = Inr models" "distinct (map fst models)"
    "\<forall>n. n \<in> fst ` set models \<longleftrightarrow> (\<exists>key\<in>set PRICING_KEYS. price_table options n key \<noteq> None)"
    "\<forall>n key. values_or_empty models n key = (if key \<in> set PRICING_KEYS then price_table options n key else None)"
    using add_options_plain [OF assms, of "[]" PRICING_KEYS] PRICING_KEYS_distinct by (auto simp: values_or_empty_def)
  show ?thesis
    by (rule that [OF m(1) [folded pricingValuesByModel_def] m(2)]) (use m(3,4) in \<open>auto simp: fun_eq_iff\<close>)
qed

subsection \<open>Drafts\<close>

text \<open>The text of a draft for a key, and when it is refused.\<close>

fun draft_text :: "model_ratio_data \<Rightarrow> pricing_key \<Rightarrow> js_string option" where
  "draft_text data ModelPrice = mr_price data"
| "draft_text data ModelRatio = mr_ratio data"
| "draft_text data CompletionRatio = mr_completionRatio data"
| "draft_text data CacheRatio = mr_cacheRatio data"
| "draft_text data CreateCacheRatio = mr_createCacheRatio data"
| "draft_text data ImageRatio = mr_imageRatio data"
| "draft_text data AudioRatio = mr_audioRatio data"
| "draft_text data AudioCompletionRatio = mr_audioCompletionRatio data"
| "draft_text data _ = None"

definition filled :: "model_ratio_data \<Rightarrow> pricing_key \<Rightarrow> js_string option" where
  "filled data key = (case draft_text data key of Some s \<Rightarrow> if s = [] then None else Some s | None \<Rightarrow> None)"

definition bad_price :: "js_string \<Rightarrow> bool" where
  "bad_price s \<longleftrightarrow> \<not> is_finite (number_of_string s) \<or> num_lt (number_of_string s) (Fin 0)"

definition draft_price :: "model_ratio_data \<Rightarrow> pricing_key \<Rightarrow> js_value option" where
  "draft_price data key = (if keeps_field data key then map_option (VNum \<circ> number_of_string) (filled data key) else None)"

definition draft_values :: "model_ratio_data \<Rightarrow> pricing_values" where
  "draft_values data key =
     (if key = BillingModeKey
      then Some (VStr (if mr_billingMode data = Some Tiered_Expr then js ''tiered_expr'' else js ''ratio''))
      else if key = BillingExprKey
      then if mr_billingMode data = Some Tiered_Expr
           then Some (VStr (combineBillingExpr (text_or_blank (mr_billingExpr data)) (text_or_blank (mr_requestRuleExpr data))))
           else None
      else draft_price data key)"

lemma draft_field_spec:
  assumes "f data = draft_text data key"
  shows "draft_field data (f, key) values =
    (case filled data key of
       Some s \<Rightarrow> if bad_price s then Inl PriceNotFinite
                else Inr (case draft_price data key of Some v \<Rightarrow> values(key \<mapsto> v) | None \<Rightarrow> values)
     | None \<Rightarrow> Inr values)"
  using assms by (auto simp: draft_field_def filled_def bad_price_def draft_price_def Let_def split: option.splits)

lemma draft_fields_spec:
  assumes "\<forall>(f, key)\<in>set fm. f data = draft_text data key"
  shows "fold_result (draft_field data) fm vals =
    (if \<exists>key\<in>snd ` set fm. \<exists>s. filled data key = Some s \<and> bad_price s then Inl PriceNotFinite
     else Inr (\<lambda>k. if k \<in> snd ` set fm \<and> draft_price data k \<noteq> None then draft_price data k else vals k))"
  using assms
proof (induction fm arbitrary: vals)
  case (Cons fk fm)
  obtain f key where fk: "fk = (f, key)" by fastforce
  note step = draft_field_spec [of f data key vals]
  have "draft_price data key = None" if "filled data key = None" using that by (simp add: draft_price_def)
  with Cons fk step show ?case
    by (cases "filled data key"; cases "draft_price data key") (auto simp: fun_eq_iff split: if_splits)
qed simp

lemma pricingFieldMap_keys:
  "\<forall>(f, key)\<in>set pricingFieldMap. f data = draft_text data key"
  "snd ` set pricingFieldMap = UNIV - {BillingModeKey, BillingExprKey}"
proof -
  show "\<forall>(f, key)\<in>set pricingFieldMap. f data = draft_text data key" by (auto simp: pricingFieldMap_def)
  have "key \<in> snd ` set pricingFieldMap \<longleftrightarrow> key \<noteq> BillingModeKey \<and> key \<noteq> BillingExprKey" for key
    by (cases key) (simp_all add: pricingFieldMap_def)
  then show "snd ` set pricingFieldMap = UNIV - {BillingModeKey, BillingExprKey}" by blast
qed

theorem pricing_from_draft_spec:
  "pricingFromDraft data =
     (if \<exists>key s. filled data key = Some s \<and> bad_price s then Inl PriceNotFinite else Inr (draft_values data))"
proof -
  have none: "filled data BillingModeKey = None" "filled data BillingExprKey = None" by (simp_all add: filled_def)
  then have bad: "(\<exists>key\<in>snd ` set pricingFieldMap. \<exists>s. filled data key = Some s \<and> bad_price s) \<longleftrightarrow>
      (\<exists>key s. filled data key = Some s \<and> bad_price s)"
    unfolding pricingFieldMap_keys(2) by (metis DiffI UNIV_I insertE option.distinct(1) singletonD)
  let ?start = "[BillingModeKey \<mapsto> VStr (if mr_billingMode data = Some Tiered_Expr then js ''tiered_expr'' else js ''ratio'')]"
  note fields = draft_fields_spec [of pricingFieldMap data ?start, OF pricingFieldMap_keys(1), unfolded bad pricingFieldMap_keys(2)]
  show ?thesis
    unfolding pricingFromDraft_def Let_def fields
    by (auto simp: draft_values_def draft_price_def none fun_eq_iff)
qed

lemma code_units_js: "code_units (js s)"
proof -
  have "0 \<le> (of_char c :: int)" "of_char c < (256 :: int)" for c :: char
    by (metis of_char_mod_256 pos_mod_sign zero_less_numeral, metis of_char_mod_256 pos_mod_bound zero_less_numeral)
  then show ?thesis by (force simp: js_def list_all_iff intro: less_trans [of _ 256])
qed

lemma code_units_trim: "code_units s \<Longrightarrow> code_units (trim s)"
  by (auto simp: trim_def trim_start_def list_all_iff dest!: set_dropWhileD)

lemma code_units_combine: "code_units e \<Longrightarrow> code_units r \<Longrightarrow> code_units (combineBillingExpr e r)"
  using code_units_js by (simp add: combineBillingExpr_def Let_def code_units_trim)

abbreviation draft_units :: "model_ratio_data \<Rightarrow> bool" where
  "draft_units data \<equiv> code_units (text_or_blank (mr_billingExpr data)) \<and> code_units (text_or_blank (mr_requestRuleExpr data))"

lemma draft_values_plain:
  assumes "pricingFromDraft data = Inr values" and "draft_units data"
  shows "plain_or_absent (values key)"
proof -
  have ok: "\<not> bad_price s" if "filled data key = Some s" for s
    using assms(1) that by (auto simp: pricing_from_draft_spec split: if_splits)
  have "values = draft_values data" using assms(1) by (auto simp: pricing_from_draft_spec split: if_splits)
  with ok assms(2) show ?thesis
    using code_units_js by (auto simp: draft_values_def draft_price_def bad_price_def code_units_combine split: option.splits)
qed

text \<open>
  What a saved draft leaves in the table of a model, key by key: a draft per request leaves only its
  price, a draft per token everything but the price, and a tiered one all its texts and its expression.
\<close>

definition entered :: "js_string option \<Rightarrow> js_value option" where
  "entered t = (case t of Some s \<Rightarrow> if s = [] then None else Some (VNum (settled (number_of_string s))) | None \<Rightarrow> None)"

definition refused_text :: "js_string option \<Rightarrow> bool" where
  "refused_text t \<longleftrightarrow> (case t of
     Some s \<Rightarrow> s \<noteq> [] \<and> (\<not> is_finite (number_of_string s) \<or> num_lt (number_of_string s) (Fin 0)) | None \<Rightarrow> False)"

lemma refused_text_iff: "refused_text (draft_text data key) \<longleftrightarrow> (\<exists>s. filled data key = Some s \<and> bad_price s)"
  by (auto simp: refused_text_def filled_def bad_price_def split: option.splits)

lemma refused_text_some: "(\<exists>key. refused_text (draft_text data key)) \<longleftrightarrow>
    list_ex refused_text [mr_price data, mr_ratio data, mr_completionRatio data, mr_cacheRatio data,
      mr_createCacheRatio data, mr_imageRatio data, mr_audioRatio data, mr_audioCompletionRatio data]"
proof
  assume "\<exists>key. refused_text (draft_text data key)"
  then obtain key where "refused_text (draft_text data key)" ..
  then show "list_ex refused_text [mr_price data, mr_ratio data, mr_completionRatio data, mr_cacheRatio data,
      mr_createCacheRatio data, mr_imageRatio data, mr_audioRatio data, mr_audioCompletionRatio data]"
    by (cases key) (simp_all add: refused_text_def)
next
  assume "list_ex refused_text [mr_price data, mr_ratio data, mr_completionRatio data, mr_cacheRatio data,
      mr_createCacheRatio data, mr_imageRatio data, mr_audioRatio data, mr_audioCompletionRatio data]"
  then show "\<exists>key. refused_text (draft_text data key)" by (auto intro: exI [where x = ModelPrice] exI [where x = ModelRatio]
      exI [where x = CompletionRatio] exI [where x = CacheRatio] exI [where x = CreateCacheRatio] exI [where x = ImageRatio]
      exI [where x = AudioRatio] exI [where x = AudioCompletionRatio])
qed

lemma entered_filled: "entered (draft_text data key) = map_option (settled_value \<circ> VNum \<circ> number_of_string) (filled data key)"
  by (auto simp: entered_def filled_def split: option.split)

theorem saved_draft_table:
  assumes "priced_options options" and "list_all code_units names" and "draft_units data"
  shows "if \<exists>key. refused_text (draft_text data key)
    then applyPricingDraft options data (Some names) = Inl PriceNotFinite
    else \<exists>options'. applyPricingDraft options data (Some names) = Inr options' \<and>
      (\<forall>n\<in>set names. price_table options' n = settled_values (draft_values data))"
proof (cases "\<exists>key. refused_text (draft_text data key)")
  case True
  then show ?thesis by (simp add: refused_text_iff applyPricingDraft_def pricing_from_draft_spec)
next
  case False
  then have d: "pricingFromDraft data = Inr (draft_values data)"
    by (auto simp: refused_text_iff pricing_from_draft_spec)
  obtain options' where "applyPricingValues options (draft_values data) names = Inr options'"
    "\<forall>n. price_table options' n = settled_values (if n \<in> set names then draft_values data else price_table options n)"
    using apply_values_updates_table [of options names "draft_values data", OF assms(1,2) draft_values_plain [OF d assms(3)]] by blast
  with False d show ?thesis by (auto simp: applyPricingDraft_def catching_def)
qed

lemma saved_price:
  assumes "key \<noteq> BillingModeKey" and "key \<noteq> BillingExprKey"
  shows "map_option settled_value (draft_values data key) =
    (if mr_billingMode data = Some Tiered_Expr \<or> (mr_billingMode data = Some Per_Request \<longleftrightarrow> key = ModelPrice)
     then entered (draft_text data key) else None)"
  using assms by (auto simp: draft_values_def draft_price_def keeps_field_def entered_filled option.map_comp o_def)

lemma saved_keys:
  fixes data :: model_ratio_data
  defines "saved \<equiv> \<lambda>key. map_option settled_value (draft_values data key)"
  shows "mr_billingMode data = Some Per_Request \<Longrightarrow>
      saved = [BillingModeKey \<mapsto> VStr (js ''ratio'')](ModelPrice := entered (mr_price data))"
    and "mr_billingMode data \<noteq> Some Per_Request \<Longrightarrow>
      saved ModelRatio = entered (mr_ratio data) \<and> saved CompletionRatio = entered (mr_completionRatio data) \<and>
      saved CacheRatio = entered (mr_cacheRatio data) \<and> saved CreateCacheRatio = entered (mr_createCacheRatio data) \<and>
      saved ImageRatio = entered (mr_imageRatio data) \<and> saved AudioRatio = entered (mr_audioRatio data) \<and>
      saved AudioCompletionRatio = entered (mr_audioCompletionRatio data)"
    and "mr_billingMode data \<noteq> Some Per_Request \<Longrightarrow> mr_billingMode data \<noteq> Some Tiered_Expr \<Longrightarrow>
      saved ModelPrice = None \<and> saved BillingModeKey = Some (VStr (js ''ratio'')) \<and> saved BillingExprKey = None"
    and "mr_billingMode data = Some Tiered_Expr \<Longrightarrow>
      saved ModelPrice = entered (mr_price data) \<and> saved BillingModeKey = Some (VStr (js ''tiered_expr'')) \<and>
      saved BillingExprKey = Some (VStr (combineBillingExpr (text_or_blank (mr_billingExpr data)) (text_or_blank (mr_requestRuleExpr data))))"
proof -
  note keys = saved_price [of _ data]
  have "saved key = ([BillingModeKey \<mapsto> VStr (js ''ratio'')](ModelPrice := entered (mr_price data))) key"
    if "mr_billingMode data = Some Per_Request" for key
    using that by (cases key; simp add: saved_def keys; simp add: draft_values_def)
  then show "mr_billingMode data = Some Per_Request \<Longrightarrow> saved = [BillingModeKey \<mapsto> VStr (js ''ratio'')](ModelPrice := entered (mr_price data))"
    by (rule ext)
  show "mr_billingMode data \<noteq> Some Per_Request \<Longrightarrow>
      saved ModelRatio = entered (mr_ratio data) \<and> saved CompletionRatio = entered (mr_completionRatio data) \<and>
      saved CacheRatio = entered (mr_cacheRatio data) \<and> saved CreateCacheRatio = entered (mr_createCacheRatio data) \<and>
      saved ImageRatio = entered (mr_imageRatio data) \<and> saved AudioRatio = entered (mr_audioRatio data) \<and>
      saved AudioCompletionRatio = entered (mr_audioCompletionRatio data)"
    by (simp add: saved_def keys)
  show "mr_billingMode data \<noteq> Some Per_Request \<Longrightarrow> mr_billingMode data \<noteq> Some Tiered_Expr \<Longrightarrow>
      saved ModelPrice = None \<and> saved BillingModeKey = Some (VStr (js ''ratio'')) \<and> saved BillingExprKey = None"
    by (simp add: saved_def keys) (simp add: draft_values_def)
  show "mr_billingMode data = Some Tiered_Expr \<Longrightarrow>
      saved ModelPrice = entered (mr_price data) \<and> saved BillingModeKey = Some (VStr (js ''tiered_expr'')) \<and>
      saved BillingExprKey = Some (VStr (combineBillingExpr (text_or_blank (mr_billingExpr data)) (text_or_blank (mr_requestRuleExpr data))))"
    by (simp add: saved_def keys) (simp add: draft_values_def)
qed

subsection \<open>Rows\<close>

fun shown_text :: "js_value option \<Rightarrow> js_string" where
  "shown_text (Some (VNum x)) = string_of_number x"
| "shown_text (Some (VStr s)) = s"
| "shown_text _ = []"

lemma string_of_settled [simp]: "string_of_number (settled x) = string_of_number x"
  by (cases x) simp_all

lemma trim_object: "trim (123 # s @ [125]) = 123 # s @ [125]"
  by (rule trim_id) (simp_all add: is_space_def)

lemma single_option_parses:
  assumes "code_units name" and "plain_or_absent v"
  shows "safeJsonParse (single_option name v) (VObj []) =
    VObj (case v of Some x \<Rightarrow> [(name, settled_value x)] | None \<Rightarrow> [])"
proof -
  let ?es = "case v of Some x \<Rightarrow> [(name, x)] | None \<Rightarrow> []"
  have "plain_record ?es" using assms by (simp add: plain_record_def split: option.splits)
  then obtain s where s: "json_stringify (VObj ?es) = Some s" "json_parse s = Some (VObj (settled_entries ?es))"
    using json_record_roundtrip by blast
  moreover from s(1) obtain r where "s = 123 # r @ [125]" by auto
  ultimately show ?thesis
    by (auto simp: safeJsonParse_def single_option_def trim_object split: option.splits simp del: json_stringify.simps)
qed

lemma js_set_replicate: "js_set (replicate n x) = (if n = 0 then [] else [x])"
proof -
  have "remdups (replicate n x) = (if n = 0 then [] else [x])" by (induction n) auto
  then show ?thesis by (simp add: js_set_def)
qed

text \<open>The row of one model: its texts are the texts of its values.\<close>

definition plain_row :: "js_string \<Rightarrow> pricing_values \<Rightarrow> split_billing option \<Rightarrow> model_ratio_data" where
  "plain_row name values split =
     \<lparr>mr_name = name, mr_price = Some (shown_text (values ModelPrice)), mr_ratio = Some (shown_text (values ModelRatio)),
      mr_cacheRatio = Some (shown_text (values CacheRatio)), mr_createCacheRatio = Some (shown_text (values CreateCacheRatio)),
      mr_completionRatio = Some (shown_text (values CompletionRatio)), mr_imageRatio = Some (shown_text (values ImageRatio)),
      mr_audioRatio = Some (shown_text (values AudioRatio)),
      mr_audioCompletionRatio = Some (shown_text (values AudioCompletionRatio)),
      mr_billingMode = Some (if split \<noteq> None then Tiered_Expr
                             else if shown_text (values ModelPrice) \<noteq> [] then Per_Request else Per_Token),
      mr_billingExpr = map_option billingExpr split, mr_requestRuleExpr = map_option requestRuleExpr split\<rparr>"

text \<open>
  The name of a model that is also a member of \<^verbatim>\<open>Object.prototype\<close> shows the inherited member in
  place of a value that is absent. A row is covered when that does not happen.
\<close>

abbreviation ordinary :: "js_string \<Rightarrow> bool" where
  "ordinary name \<equiv> name \<notin> set OBJECT_PROTOTYPE"

abbreviation price_key :: "pricing_key \<Rightarrow> bool" where
  "price_key key \<equiv> key \<noteq> BillingModeKey \<and> key \<noteq> BillingExprKey"

definition covered :: "js_string \<Rightarrow> pricing_values \<Rightarrow> bool" where
  "covered name values \<longleftrightarrow> ordinary name \<or> (\<forall>key. price_key key \<longrightarrow> values key \<noteq> None)"

definition inherited_or_blank :: "js_string \<Rightarrow> js_string" where
  "inherited_or_blank name = (if ordinary name then [] else inherited_text (VObj []) name)"

definition text_shown :: "js_string \<Rightarrow> js_value option \<Rightarrow> js_string" where
  "text_shown name v = (if v = None then inherited_or_blank name else shown_text v)"

definition full_row :: "js_string \<Rightarrow> pricing_values \<Rightarrow> split_billing option \<Rightarrow> model_ratio_data" where
  "full_row name values split =
     \<lparr>mr_name = name, mr_price = Some (text_shown name (values ModelPrice)), mr_ratio = Some (text_shown name (values ModelRatio)),
      mr_cacheRatio = Some (text_shown name (values CacheRatio)), mr_createCacheRatio = Some (text_shown name (values CreateCacheRatio)),
      mr_completionRatio = Some (text_shown name (values CompletionRatio)), mr_imageRatio = Some (text_shown name (values ImageRatio)),
      mr_audioRatio = Some (text_shown name (values AudioRatio)),
      mr_audioCompletionRatio = Some (text_shown name (values AudioCompletionRatio)),
      mr_billingMode = Some (if split \<noteq> None then Tiered_Expr
                             else if text_shown name (values ModelPrice) \<noteq> [] then Per_Request else Per_Token),
      mr_billingExpr = map_option billingExpr split, mr_requestRuleExpr = map_option requestRuleExpr split\<rparr>"

lemma full_row_covered:
  assumes "covered name values"
  shows "full_row name values split = plain_row name values split"
proof -
  have "text_shown name (values key) = shown_text (values key)" if "price_key key" for key
    using assms that by (auto simp: covered_def text_shown_def inherited_or_blank_def)
  then show ?thesis by (simp add: full_row_def plain_row_def)
qed

lemma member_string_single:
  assumes "plain_or_absent v"
  shows "member_string (VObj (case v of Some x \<Rightarrow> [(name, settled_value x)] | None \<Rightarrow> [])) name = Inr (text_shown name v)"
proof (cases v)
  case (Some x)
  with assms show ?thesis by (cases x) (simp_all add: member_string_def inherits_def text_shown_def)
qed (simp add: member_string_def inherits_def text_shown_def inherited_or_blank_def)

lemma member_or_empty_single:
  "member_or_empty (VObj (case v of Some x \<Rightarrow> [(name, settled_value x)] | None \<Rightarrow> [])) name =
    (if v = None \<and> \<not> ordinary name then Inl TypeError
     else string_or_empty (case v of Some x \<Rightarrow> settled_value x | None \<Rightarrow> VUndefined))"
  by (cases v) (simp_all add: member_or_empty_def inherits_def)

theorem pricing_row_full:
  assumes name: "code_units name" and plain: "\<And>key. plain_or_absent (values key)" and mode: "values BillingModeKey \<noteq> None"
  shows "pricingRow name values =
    (if values BillingModeKey = Some (VStr (js ''tiered_expr''))
     then bind_result
            (if values BillingExprKey = None \<and> \<not> ordinary name then Inl TypeError
             else string_or_empty (case values BillingExprKey of Some v \<Rightarrow> settled_value v | None \<Rightarrow> VUndefined)) (\<lambda>s.
            map_sum id (\<lambda>p. full_row name values (Some p)) (splitBillingExprAndRequestRules s))
     else Inr (full_row name values None))"
proof -
  let ?m = "\<lambda>key. VObj (case values key of Some x \<Rightarrow> [(name, settled_value x)] | None \<Rightarrow> [])"
  have maps: "safeJsonParse (single_option name (values key)) (VObj []) = ?m key" for key
    by (rule single_option_parses [OF name plain])
  have "\<exists>n. concat (map (\<lambda>key. map fst (case values key of Some x \<Rightarrow> [(name, settled_value x)] | None \<Rightarrow> [])) ks) = replicate n name \<and>
      (BillingModeKey \<in> set ks \<longrightarrow> 0 < n)" for ks
  proof (induction ks)
    case (Cons k ks)
    then obtain n where n: "concat (map (\<lambda>key. map fst (case values key of Some x \<Rightarrow> [(name, settled_value x)] | None \<Rightarrow> [])) ks) = replicate n name"
      "BillingModeKey \<in> set ks \<longrightarrow> 0 < n" by blast
    with mode show ?case
      by (cases "values k") (auto intro: exI [of _ n] exI [of _ "Suc n"])
  qed simp
  then obtain n where n: "concat (map (\<lambda>key. map fst (case values key of Some x \<Rightarrow> [(name, settled_value x)] | None \<Rightarrow> [])) SNAPSHOT_KEYS) = replicate n name"
      "0 < n" by (metis SNAPSHOT_KEYS_def list.set_intros(1) list.set_intros(2))
  have keys: "map_result (\<lambda>key. own_keys (?m key)) SNAPSHOT_KEYS =
      Inr (map (\<lambda>key. map fst (case values key of Some x \<Rightarrow> [(name, settled_value x)] | None \<Rightarrow> [])) SNAPSHOT_KEYS)"
    by (rule map_result_each) simp
  have rows: "pricingRows (\<lambda>key. single_option name (values key)) = map_sum id (\<lambda>r. [r]) (snapshot_row ?m name)"
    unfolding pricingRows_def buildModelSnapshots_def Let_def maps keys
    using n by (cases "snapshot_row ?m name") (simp_all add: js_set_replicate)
  have get: "get_member (?m key) name = (case values key of Some v \<Rightarrow> settled_value v | None \<Rightarrow> VUndefined)" for key
    by (simp split: option.split)
  have tiered: "(case values BillingModeKey of Some v \<Rightarrow> settled_value v | None \<Rightarrow> VUndefined) = VStr (js ''tiered_expr'') \<longleftrightarrow>
      values BillingModeKey = Some (VStr (js ''tiered_expr''))"
    using mode by (auto elim: settled_value.elims)
  note row = snapshot_row_def [of ?m name, unfolded member_string_single [OF plain] member_or_empty_single get tiered bind_result_simps Let_def]
  show ?thesis
  proof (cases "values BillingModeKey = Some (VStr (js ''tiered_expr''))")
    case True
    let ?e = "if values BillingExprKey = None \<and> \<not> ordinary name then Inl TypeError
        else string_or_empty (case values BillingExprKey of Some v \<Rightarrow> settled_value v | None \<Rightarrow> VUndefined)"
    show ?thesis
    proof (cases ?e)
      case (Inr s)
      with True show ?thesis
        by (cases "splitBillingExprAndRequestRules s") (simp_all add: pricingRow_def rows row full_row_def)
    qed (simp add: True pricingRow_def rows row)
  next
    case False
    then show ?thesis by (simp add: pricingRow_def rows row full_row_def)
  qed
qed

theorem pricing_row_plain:
  assumes "code_units name" and "\<And>key. plain_or_absent (values key)" and "values BillingModeKey \<noteq> None"
    and "covered name values"
    and "values BillingModeKey = Some (VStr (js ''tiered_expr'')) \<longrightarrow> ordinary name \<or> values BillingExprKey \<noteq> None"
  shows "pricingRow name values =
    (if values BillingModeKey = Some (VStr (js ''tiered_expr''))
     then bind_result (string_or_empty (case values BillingExprKey of Some v \<Rightarrow> settled_value v | None \<Rightarrow> VUndefined)) (\<lambda>s.
            map_sum id (\<lambda>p. plain_row name values (Some p)) (splitBillingExprAndRequestRules s))
     else Inr (plain_row name values None))"
  using pricing_row_full [of name "values", OF assms(1-3)] assms(5) by (auto simp: full_row_covered [OF assms(4)])

text \<open>A row that shows an inherited member is refused.\<close>

lemma inherited_text_bad:
  assumes "\<not> ordinary name"
  shows "inherited_or_blank name \<noteq> []" and "bad_price (inherited_or_blank name)"
proof -
  have "list_all (\<lambda>name. inherited_text (VObj []) name \<noteq> [] \<and> number_of_string (inherited_text (VObj []) name) = NaN) OBJECT_PROTOTYPE"
    by code_simp
  then show "inherited_or_blank name \<noteq> []" and "bad_price (inherited_or_blank name)"
    using assms by (auto simp: list_all_iff inherited_or_blank_def bad_price_def)
qed

lemma full_row_text: "price_key key \<Longrightarrow> draft_text (full_row name values split) key = Some (text_shown name (values key))"
  by (cases key) (simp_all add: full_row_def)

lemma map_sum_id_Inr: "map_sum id f m = Inr x \<longleftrightarrow> (\<exists>y. m = Inr y \<and> x = f y)"
  by (cases m) auto

lemma uncovered_refused:
  assumes "\<not> covered name values"
  shows "pricingFromDraft (full_row name values split) = Inl PriceNotFinite"
proof -
  from assms obtain key where key: "price_key key" "values key = None" "\<not> ordinary name" by (auto simp: covered_def)
  then have "filled (full_row name values split) key = Some (inherited_or_blank name)"
    using inherited_text_bad(1) by (simp add: filled_def full_row_text text_shown_def)
  with inherited_text_bad(2) [OF key(3)] show ?thesis by (auto simp: pricing_from_draft_spec)
qed

subsection \<open>A saved draft opens again\<close>

lemma draft_values_of:
  "pricingFromDraft data = Inr values \<Longrightarrow> values = draft_values data \<and> (\<forall>key s. filled data key = Some s \<longrightarrow> \<not> bad_price s)"
  by (auto simp: pricing_from_draft_spec split: if_splits)

lemma draft_price_cases:
  assumes "pricingFromDraft data = Inr values" and "price_key key"
  obtains "values key = None"
  | x where "values key = Some (VNum x)" "is_double x" "is_finite x" "\<not> num_lt x (Fin 0)" "keeps_field data key"
proof (cases "values key")
  case (Some v)
  note d = draft_values_of [OF assms(1)]
  have "draft_price data key = Some v" using d Some assms(2) by (simp add: draft_values_def)
  then obtain s where s: "filled data key = Some s" "v = VNum (number_of_string s)" "keeps_field data key"
    by (auto simp: draft_price_def split: if_splits)
  moreover have "\<not> bad_price s" using d s(1) by simp
  ultimately show ?thesis using that(2) [of "number_of_string s"] Some by (simp add: bad_price_def)
qed (use that in simp)

lemma number_of_shown:
  assumes "is_double x" and "is_finite x" and "\<not> num_lt x (Fin 0)"
  shows "number_of_string (string_of_number x) = settled x" "is_finite (settled x)" "\<not> num_lt (settled x) (Fin 0)"
proof -
  have "is_double (settled x)" "is_unsigned (settled x)" using assms by (cases x; simp)+
  from number_of_string_of_number [OF this] show "number_of_string (string_of_number x) = settled x" by simp
  show "is_finite (settled x)" "\<not> num_lt (settled x) (Fin 0)" using assms by (cases x; simp)+
qed

lemma row_text: "price_key key \<Longrightarrow> draft_text (plain_row name values split) key = Some (shown_text (values key))"
  by (cases key) (simp_all add: plain_row_def)

lemma row_filled:
  assumes "pricingFromDraft data = Inr values" and "price_key key"
  shows "filled (plain_row name values split) key = (case values key of Some (VNum x) \<Rightarrow> Some (string_of_number x) | _ \<Rightarrow> None)"
  using assms
proof (cases rule: draft_price_cases)
  case (2 x)
  then have "string_of_number x \<noteq> []" using string_of_number_head [of x] by auto
  with 2 assms show ?thesis by (simp add: filled_def row_text)
qed (use assms in \<open>simp add: filled_def row_text\<close>)

lemma row_keeps:
  assumes d: "pricingFromDraft data = Inr values" and "price_key key" and "values key \<noteq> None"
    and split: "split \<noteq> None \<longleftrightarrow> mr_billingMode data = Some Tiered_Expr"
  shows "keeps_field (plain_row name values split) key"
proof -
  let ?row = "plain_row name values split"
  have keeps: "keeps_field data key" using d assms(2,3) by (cases rule: draft_price_cases) simp_all
  have shown: "shown_text (values ModelPrice) \<noteq> [] \<longleftrightarrow> values ModelPrice \<noteq> None"
  proof -
    from d have "price_key ModelPrice \<Longrightarrow> ?thesis"
      by (cases rule: draft_price_cases [where key = ModelPrice]) (use string_of_number_head in fastforce)+
    then show ?thesis by simp
  qed
  have price: "values ModelPrice = None" if "mr_billingMode data \<noteq> Some Tiered_Expr" "mr_billingMode data \<noteq> Some Per_Request"
    using draft_values_of [OF d] that by (simp add: draft_values_def draft_price_def keeps_field_def)
  show ?thesis
    using keeps shown price split assms(3) by (auto simp: keeps_field_def plain_row_def split: if_splits)
qed

lemma row_draft_price:
  assumes d: "pricingFromDraft data = Inr values" and key: "price_key key"
    and split: "split \<noteq> None \<longleftrightarrow> mr_billingMode data = Some Tiered_Expr"
  shows "draft_price (plain_row name values split) key = map_option settled_value (values key)"
    and "filled (plain_row name values split) key = Some s \<Longrightarrow> \<not> bad_price s"
proof -
  note filled = row_filled [OF d key, of name split]
  from d key show "draft_price (plain_row name values split) key = map_option settled_value (values key)"
  proof (cases rule: draft_price_cases)
    case (2 x)
    with row_keeps [OF d key _ split] number_of_shown filled show ?thesis by (simp add: draft_price_def)
  qed (simp add: draft_price_def filled)
  from d key show "filled (plain_row name values split) key = Some s \<Longrightarrow> \<not> bad_price s"
  proof (cases rule: draft_price_cases)
    case (2 x)
    then show "filled (plain_row name values split) key = Some s \<Longrightarrow> \<not> bad_price s"
      using number_of_shown filled by (auto simp: bad_price_def)
  qed (simp add: filled)
qed

theorem draft_reopens:
  assumes d: "pricingFromDraft data = Inr values" and "draft_units data" and "code_units name"
    and tiered: "mr_billingMode data = Some Tiered_Expr \<Longrightarrow>
      splitBillingExprAndRequestRules (combineBillingExpr (text_or_blank (mr_billingExpr data)) (text_or_blank (mr_requestRuleExpr data))) = Inr p \<and>
      combineBillingExpr (billingExpr p) (requestRuleExpr p) = combineBillingExpr (text_or_blank (mr_billingExpr data)) (text_or_blank (mr_requestRuleExpr data))"
  shows "\<exists>row. pricingRow name values = Inr row \<and> mr_name row = name \<and>
    pricingFromDraft row = (if covered name values then Inr (settled_values values) else Inl PriceNotFinite)"
proof -
  let ?split = "if mr_billingMode data = Some Tiered_Expr then Some p else None"
  let ?row = "plain_row name values ?split"
  note v = draft_values_of [OF d]
  have mode: "values BillingModeKey = Some (VStr (if mr_billingMode data = Some Tiered_Expr then js ''tiered_expr'' else js ''ratio''))"
    using v by (simp add: draft_values_def)
  have row: "pricingRow name values = Inr (full_row name values ?split)"
    using pricing_row_full [of name "values", OF assms(3) draft_values_plain [OF d assms(2)]] mode v tiered
    by (auto simp: draft_values_def string_or_empty_def)
  have key: "draft_price ?row key = map_option settled_value (values key)" if "price_key key" for key
    using row_draft_price(1) [OF d that] by simp
  have ok: "\<not> bad_price s" if "filled ?row key = Some s" for key s
  proof (cases "price_key key")
    case True
    then show ?thesis using row_draft_price(2) [OF d True, of ?split name s] that by auto
  qed (use that in \<open>auto simp: filled_def\<close>)
  have tier: "mr_billingMode ?row = Some Tiered_Expr \<longleftrightarrow> mr_billingMode data = Some Tiered_Expr"
    by (simp add: plain_row_def)
  have "draft_values ?row key = map_option settled_value (values key)" for key
  proof (cases "price_key key")
    case True
    then show ?thesis using key by (simp add: draft_values_def)
  next
    case False
    then show ?thesis
      using tier v tiered by (auto simp: draft_values_def plain_row_def text_or_blank_def)
  qed
  then have "pricingFromDraft ?row = Inr (settled_values values)"
    using ok by (auto simp: pricing_from_draft_spec fun_eq_iff)
  with row full_row_covered [of name "values" ?split] uncovered_refused [of name "values" ?split] show ?thesis
    by (simp add: full_row_def)
qed

text \<open>
  When the expression of a tiered draft comes apart again: it has no request rules and none of its
  top-level factors reads as one, or its rules are those of the rule editor, one condition without a
  guard each, and its base is a trimmed, balanced text that is no rule and not in parentheses.
\<close>

definition rule_free :: "js_string \<Rightarrow> bool" where
  "rule_free base \<longleftrightarrow> list_all (\<lambda>part. is_rule_part part = Inr False) (splitTopLevelMultiply (trim base))"

definition separable :: "js_string \<Rightarrow> request_rule_group list \<Rightarrow> bool" where
  "separable base gs \<longleftrightarrow>
     list_all readable_group gs \<and> gs \<noteq> [] \<and> base \<noteq> [] \<and> trim base = base \<and> unwrapExpressionParens base = base \<and>
     inert 42 base 1 None = Some (1, None) \<and> is_wrapped (js ''('' @ base @ js '')'') \<and>
     is_rule_part (js ''('' @ base @ js '')'') = Inr False"

definition reopens :: "model_ratio_data \<Rightarrow> bool" where
  "reopens data \<longleftrightarrow>
     mr_billingMode data \<noteq> Some Tiered_Expr \<or>
     trim (text_or_blank (mr_requestRuleExpr data)) = [] \<and> rule_free (text_or_blank (mr_billingExpr data)) \<or>
     (\<exists>base gs. mr_billingExpr data = Some base \<and> mr_requestRuleExpr data = Some (buildRequestRuleExpr gs) \<and> separable base gs)"

lemma sort_base_parts:
  "list_all (\<lambda>p. is_rule_part p = Inr False) ps \<Longrightarrow> fold_result sort_part ps (rs, bs) = Inr (rs, bs @ ps)"
  by (induction ps arbitrary: bs) (simp_all add: sort_part_def)

lemma rule_free_splits:
  assumes "rule_free base"
  shows "splitBillingExprAndRequestRules (trim base) = Inr \<lparr>billingExpr = trim base, requestRuleExpr = []\<rparr>"
  using assms sort_base_parts [of "splitTopLevelMultiply (trim base)" "[]" "[]"]
  by (simp add: splitBillingExprAndRequestRules_def rule_free_def Let_def)

theorem saved_draft_reopens:
  assumes "pricingFromDraft data = Inr vals" and "draft_units data" and "code_units name" and "reopens data"
  shows "\<exists>row. pricingRow name vals = Inr row \<and> mr_name row = name \<and>
    pricingFromDraft row = (if covered name vals then Inr (settled_values vals) else Inl PriceNotFinite)"
proof -
  let ?base = "text_or_blank (mr_billingExpr data)" and ?rules = "text_or_blank (mr_requestRuleExpr data)"
  have blank: "splitBillingExprAndRequestRules (combineBillingExpr ?base ?rules) = Inr \<lparr>billingExpr = trim ?base, requestRuleExpr = []\<rparr>"
    "combineBillingExpr (trim ?base) [] = combineBillingExpr ?base ?rules" if "trim ?rules = []" "rule_free ?base"
  proof -
    have "combineBillingExpr ?base ?rules = trim ?base" "combineBillingExpr (trim ?base) [] = trim ?base"
      using that(1) by (simp_all add: combineBillingExpr_def Let_def)
    with rule_free_splits [OF that(2)] show "splitBillingExprAndRequestRules (combineBillingExpr ?base ?rules) =
        Inr \<lparr>billingExpr = trim ?base, requestRuleExpr = []\<rparr>"
      and "combineBillingExpr (trim ?base) [] = combineBillingExpr ?base ?rules" by simp_all
  qed
  from assms(4) consider "mr_billingMode data \<noteq> Some Tiered_Expr" | "trim ?rules = []" "rule_free ?base"
    | base gs where "mr_billingExpr data = Some base" "mr_requestRuleExpr data = Some (buildRequestRuleExpr gs)" "separable base gs"
    unfolding reopens_def by blast
  then show ?thesis
  proof cases
    case 1
    then show ?thesis by (intro draft_reopens [OF assms(1-3)]) simp
  next
    case 2
    from blank [OF 2] show ?thesis by (intro draft_reopens [OF assms(1-3), of "\<lparr>billingExpr = trim ?base, requestRuleExpr = []\<rparr>"]) simp
  next
    case (3 base gs)
    then have "splitBillingExprAndRequestRules (combineBillingExpr base (buildRequestRuleExpr gs)) =
        Inr \<lparr>billingExpr = base, requestRuleExpr = buildRequestRuleExpr gs\<rparr>"
      using combined_splits [of gs base] by (simp add: separable_def)
    with 3 show ?thesis
      by (intro draft_reopens [OF assms(1-3), of "\<lparr>billingExpr = base, requestRuleExpr = buildRequestRuleExpr gs\<rparr>"])
        (simp add: text_or_blank_def)
  qed
qed

subsection \<open>Stores of prices\<close>

text \<open>
  What the import relies on: a store has a table, and saving a value under some names changes the
  table at these names only. A sequence of saves then leaves at each name the last value.
\<close>

locale price_store =
  fixes valid :: "'o \<Rightarrow> bool" and table :: "'o \<Rightarrow> 'n \<Rightarrow> 'v" and save :: "'o \<Rightarrow> 'v \<Rightarrow> 'n list \<Rightarrow> 'e + 'o"
    and nameable :: "'n \<Rightarrow> bool" and storable :: "'v \<Rightarrow> bool" and kept :: "'v \<Rightarrow> 'v"
  assumes save_updates: "valid s \<Longrightarrow> list_all nameable ns \<Longrightarrow> storable v \<Longrightarrow>
      \<exists>s'. save s v ns = Inr s' \<and> valid s' \<and> (\<forall>n. table s' n = kept (if n \<in> set ns then v else table s n))"
    and kept_kept: "kept (kept v) = kept v"
begin

lemma save_one:
  assumes "valid s" and "nameable n" and "storable v" and "save s v [n] = Inr s'"
  shows "valid s'" and "table s' n = kept v" and "m \<noteq> n \<Longrightarrow> table s' m = kept (table s m)"
  using save_updates [OF assms(1) _ assms(3), of "[n]"] assms(2,4) by auto

lemma saves_in_turn:
  assumes "fold_result (\<lambda>x s. bind_result (f x) (\<lambda>v. save s v [name x])) xs s = Inr s'" and "valid s"
    and "\<forall>x\<in>set xs. nameable (name x) \<and> (\<forall>v. f x = Inr v \<longrightarrow> storable v)"
  shows "valid s' \<and> (\<forall>n. n \<notin> name ` set xs \<longrightarrow> kept (table s' n) = kept (table s n)) \<and>
    (distinct (map name xs) \<longrightarrow> (\<forall>x\<in>set xs. \<exists>v. f x = Inr v \<and> kept (table s' (name x)) = kept v))"
  using assms
proof (induction xs arbitrary: s)
  case (Cons x xs)
  obtain v s1 where v: "f x = Inr v" "save s v [name x] = Inr s1"
    "fold_result (\<lambda>x s. bind_result (f x) (\<lambda>v. save s v [name x])) xs s1 = Inr s'"
    using Cons.prems(1) by (auto simp: bind_result_Inr_iff)
  have x: "nameable (name x)" "storable v" using Cons.prems(3) v(1) by auto
  note s1 = save_one [OF Cons.prems(2) x v(2)]
  note IH = Cons.IH [OF v(3) s1(1)]
  from IH Cons.prems(3) have rest: "valid s'" "\<And>n. n \<notin> name ` set xs \<Longrightarrow> kept (table s' n) = kept (table s1 n)"
    "distinct (map name xs) \<Longrightarrow> \<forall>x\<in>set xs. \<exists>v. f x = Inr v \<and> kept (table s' (name x)) = kept v" by auto
  have other: "kept (table s' n) = kept (table s n)" if "n \<notin> name ` set (x # xs)" for n
    using that rest(2) [of n] s1(3) [of n] by (simp add: kept_kept)
  have here: "kept (table s' (name x)) = kept v" if "name x \<notin> name ` set xs"
    using that rest(2) [of "name x"] s1(2) by (simp add: kept_kept)
  show ?case using rest other here v(1) by auto
qed simp

end

interpretation pricing: price_store priced_options price_table applyPricingValues code_units
  "\<lambda>vals :: pricing_values. \<forall>key. plain_or_absent (vals key)" settled_values
proof
  fix s ns and v :: pricing_values
  assume "priced_options s" "list_all code_units ns" "\<forall>key. plain_or_absent (v key)"
  then show "\<exists>s'. applyPricingValues s v ns = Inr s' \<and> priced_options s' \<and>
      (\<forall>n. price_table s' n = settled_values (if n \<in> set ns then v else price_table s n))"
    by (intro apply_values_updates_table) auto
next
  show "settled_values (settled_values v) = settled_values v" for v :: pricing_values
    by (auto simp: fun_eq_iff option.map_comp o_def)
qed

subsection \<open>Imported prices\<close>

definition sync_validated ::
  "(js_string \<Rightarrow> js_string) \<Rightarrow> js_string \<times> (js_string, js_value) entries \<Rightarrow> pricing_error + pricing_values" where
  "sync_validated upper sel =
     bind_result (catching (pricingRow (fst sel) (sync_values upper (snd sel)))) (\<lambda>row.
     bind_result (pricingFromDraft row) (\<lambda>validated.
       Inr (case sync_expression (snd sel) of Some s \<Rightarrow> validated(BillingExprKey \<mapsto> VStr s) | None \<Rightarrow> validated)))"

lemma catching_Inr_iff: "catching r = Inr x \<longleftrightarrow> r = Inr x"
  by (cases r) (simp_all add: catching_def)

lemma sync_model_saves:
  "sync_model upper sel s = bind_result (sync_validated upper sel) (\<lambda>v. catching (applyPricingValues s v [fst sel]))"
  by (simp add: sync_model_def sync_validated_def Let_def bind_result_assoc)

lemma sync_sequence:
  "fold_result (sync_model upper) sels s = Inr s' \<Longrightarrow>
   fold_result (\<lambda>x s. bind_result (case sync_validated upper x of Inr v \<Rightarrow> Inr v | Inl _ \<Rightarrow> Inl TypeError)
     (\<lambda>v. applyPricingValues s v [fst x])) sels s = Inr s'"
proof (induction sels arbitrary: s)
  case (Cons x sels)
  then show ?case by (auto simp: sync_model_saves bind_result_Inr_iff catching_Inr_iff)
qed simp

lemma split_at_free: "p \<in> set (split_at m s) \<Longrightarrow> m \<notin> set p"
proof (induction s arbitrary: p)
  case (Cons c s)
  then show ?case by (cases "split_at m s") (auto split: if_splits)
qed simp

lemma field_key_price:
  assumes "\<forall>c\<ge>128. 95 \<notin> set (upper [c])" and "field_key upper fld = Some key"
  shows "price_key key"
proof -
  let ?up = "\<lambda>part. to_upper_case upper (take 1 part) @ drop 1 part"
  have "95 \<notin> set (?up part)" if "95 \<notin> set part" for part
  proof (cases part)
    case (Cons c r)
    then show ?thesis using that assms(1) by (auto simp: to_upper_case_def ascii_upper_def split: if_splits)
  qed (simp add: to_upper_case_def)
  then have "95 \<notin> set (concat (map ?up (split_at 95 fld)))" using split_at_free by fastforce
  moreover have "pricing_key_text key = concat (map ?up (split_at 95 fld))"
    using assms(2) by (auto simp: field_key_def Let_def find_Some_iff)
  ultimately have "95 \<notin> set (pricing_key_text key)" by simp
  then show ?thesis by (cases key) (auto simp: js_def)
qed

lemma sync_fields_values:
  assumes "\<forall>c\<ge>128. 95 \<notin> set (upper [c])" and "list_all (\<lambda>e. plain_value (snd e)) flds"
  shows "(\<forall>key. \<not> price_key key \<longrightarrow> fold (sync_field upper fixed) flds vals key = vals key) \<and>
    ((\<forall>key. plain_or_absent (vals key)) \<longrightarrow> (\<forall>key. plain_or_absent (fold (sync_field upper fixed) flds vals key)))"
  using assms(2)
proof (induction flds arbitrary: vals)
  case (Cons e flds)
  let ?v = "sync_field upper fixed e vals"
  have keep: "?v key = vals key" if "\<not> price_key key" for key
    using that field_key_price [OF assms(1), of "fst e"] by (auto simp: sync_field_def split: option.splits)
  have plain: "plain_or_absent (?v key)" if "\<forall>key. plain_or_absent (vals key)" for key
    using that Cons.prems by (auto simp: sync_field_def split: option.splits)
  from Cons.IH [of ?v] Cons.prems keep plain show ?case by auto
qed simp

lemma sync_values_plain:
  assumes "\<forall>c\<ge>128. 95 \<notin> set (upper [c])" and "list_all (\<lambda>e. plain_value (snd e)) flds"
  shows "plain_or_absent (sync_values upper flds key)"
    and "sync_expression flds = None \<Longrightarrow> sync_values upper flds BillingModeKey = Some (VStr (js ''ratio''))"
proof -
  have expr: "code_units s" if "sync_expression flds = Some s" for s
  proof -
    have "map_of flds (js ''billing_expr'') = Some (VStr s)"
      using that by (auto simp: sync_expression_def split: option.splits js_value.splits if_splits)
    with assms(2) show ?thesis by (fastforce simp: list_all_iff dest: map_of_SomeD)
  qed
  then show "plain_or_absent (sync_values upper flds key)"
    using sync_fields_values [OF assms, of "map_of flds (js ''model_price'') \<noteq> None" "[BillingModeKey \<mapsto> VStr (js ''ratio'')]"] code_units_js
    by (auto simp: sync_values_def split: option.splits)
  show "sync_expression flds = None \<Longrightarrow> sync_values upper flds BillingModeKey = Some (VStr (js ''ratio''))"
    using sync_fields_values [OF assms, of "map_of flds (js ''model_price'') \<noteq> None" "[BillingModeKey \<mapsto> VStr (js ''ratio'')]"]
    by (simp add: sync_values_def)
qed

text \<open>An imported expression is kept literally, without any other price; otherwise the prices are numbers.\<close>

definition imported_values :: "(js_string, js_value) entries \<Rightarrow> pricing_values \<Rightarrow> bool" where
  "imported_values flds vals \<longleftrightarrow>
     (case sync_expression flds of
        Some s \<Rightarrow> vals = [BillingModeKey \<mapsto> VStr (js ''tiered_expr''), BillingExprKey \<mapsto> VStr s]
      | None \<Rightarrow> vals BillingModeKey = Some (VStr (js ''ratio'')) \<and> vals BillingExprKey = None \<and>
          (\<forall>key v. price_key key \<longrightarrow> vals key = Some v \<longrightarrow> (\<exists>x. v = VNum x \<and> is_finite x \<and> \<not> num_lt x (Fin 0))))"

lemma sync_validated_values:
  assumes upper: "\<forall>c\<ge>128. 95 \<notin> set (upper [c])" and flds: "list_all (\<lambda>e. plain_value (snd e)) flds"
    and name: "code_units name" and v: "sync_validated upper (name, flds) = Inr v"
  shows "imported_values flds v" and "\<forall>key. plain_or_absent (v key)"
proof -
  let ?vals = "sync_values upper flds"
  note plain = sync_values_plain [OF upper flds]
  from v obtain row vs where row: "pricingRow name ?vals = Inr row" and vs: "pricingFromDraft row = Inr vs"
    and v': "v = (case sync_expression flds of Some s \<Rightarrow> vs(BillingExprKey \<mapsto> VStr s) | None \<Rightarrow> vs)"
    by (auto simp: sync_validated_def bind_result_Inr_iff catching_Inr_iff)
  have "?vals BillingModeKey \<noteq> None" using plain(2) by (cases "sync_expression flds") (simp_all add: sync_values_def)
  then obtain split where "row = full_row name ?vals split"
    using row pricing_row_full [of name ?vals, OF name plain(1)] by (auto simp: bind_result_Inr_iff map_sum_id_Inr split: if_splits)
  then have covered: "covered name ?vals" using uncovered_refused [of name ?vals split] vs by auto
  have "imported_values flds v \<and> (\<forall>key. plain_or_absent (v key))"
  proof (cases "sync_expression flds")
    case None
    then have mode: "?vals BillingModeKey = Some (VStr (js ''ratio''))" using plain(2) by simp
    have r: "row = plain_row name ?vals None"
      using row pricing_row_plain [of name ?vals, OF name plain(1) _ covered] mode by simp
    have vs': "vs = draft_values row" and "plain_or_absent (vs key)" for key
      using draft_values_of [OF vs] draft_values_plain [OF vs] r by (simp_all add: plain_row_def text_or_blank_def)
    moreover have "\<exists>x. w = VNum x \<and> is_finite x \<and> \<not> num_lt x (Fin 0)" if "price_key key" "vs key = Some w" for key w
      using vs that(1) by (cases rule: draft_price_cases) (use that(2) in auto)
    ultimately show ?thesis using None v' r by (simp add: imported_values_def draft_values_def plain_row_def)
  next
    case (Some s)
    then have vals: "?vals = [BillingModeKey \<mapsto> VStr (js ''tiered_expr''), BillingExprKey \<mapsto> VStr s]" by (simp add: sync_values_def)
    obtain p where r: "row = plain_row name ?vals (Some p)"
      using row pricing_row_plain [of name ?vals, OF name plain(1) _ covered] vals
      by (auto simp: string_or_empty_def map_sum_def split: sum.splits)
    have none: "filled row key = None" for key by (cases key) (simp_all add: filled_def r plain_row_def vals)
    then have "draft_price row key = None" for key by (simp add: draft_price_def)
    then have "v = ?vals" using draft_values_of [OF vs] Some v' vals r by (auto simp: draft_values_def plain_row_def fun_eq_iff)
    then show ?thesis using plain(1) Some vals by (simp add: imported_values_def)
  qed
  then show "imported_values flds v" and "\<forall>key. plain_or_absent (v key)" by simp_all
qed

lemma imported_settled:
  assumes "settled_values t = settled_values v" and "imported_values flds v"
  shows "imported_values flds t"
proof -
  have key: "map_option settled_value (t key) = map_option settled_value (v key)" for key
    using fun_cong [OF assms(1), of key] .
  have str: "t key = Some (VStr s)" if "v key = Some (VStr s)" for key s
    using key [of key] that by (auto elim: settled_value.elims)
  have none: "t key = None" if "v key = None" for key using key [of key] that by simp
  have num: "\<exists>y. w = VNum y \<and> is_finite y \<and> \<not> num_lt y (Fin 0)"
    if "v key = Some (VNum x)" "is_finite x" "\<not> num_lt x (Fin 0)" "t key = Some w" for key x w
  proof -
    have "settled_value w = VNum (settled x)" using key [of key] that by simp
    then obtain y where "w = VNum y" "settled y = settled x" by (cases w) auto
    with that show ?thesis by (cases x; cases y) auto
  qed
  show ?thesis
  proof (cases "sync_expression flds")
    case None
    with assms(2) have v: "v BillingModeKey = Some (VStr (js ''ratio''))" "v BillingExprKey = None"
      "\<And>key u. price_key key \<Longrightarrow> v key = Some u \<Longrightarrow> \<exists>x. u = VNum x \<and> is_finite x \<and> \<not> num_lt x (Fin 0)"
      by (simp_all add: imported_values_def)
    have "\<exists>x. w = VNum x \<and> is_finite x \<and> \<not> num_lt x (Fin 0)" if k: "price_key key" and w: "t key = Some w" for key w
    proof -
      obtain u where "v key = Some u" using key [of key] w by (cases "v key") simp_all
      with v(3) k w num show ?thesis by blast
    qed
    with v str none None show ?thesis by (simp add: imported_values_def)
  next
    case (Some s)
    with assms(2) have v: "v = [BillingModeKey \<mapsto> VStr (js ''tiered_expr''), BillingExprKey \<mapsto> VStr s]"
      by (simp add: imported_values_def)
    have "t key = v key" for key using str none unfolding v by (auto split: if_splits)
    with Some v show ?thesis by (simp add: imported_values_def fun_eq_iff)
  qed
qed

theorem imports_replace_prices:
  assumes "applyPriceSyncSelections upper options sels = Inr options'" and "priced_options options"
    and "\<forall>c\<ge>128. 95 \<notin> set (upper [c])"
    and "list_all (\<lambda>(name, flds). code_units name \<and> list_all (\<lambda>e. plain_value (snd e)) flds) sels"
    and "distinct (map fst sels)"
  shows "priced_options options' \<and>
    (\<forall>name. name \<notin> fst ` set sels \<longrightarrow> settled_values (price_table options' name) = settled_values (price_table options name)) \<and>
    (\<forall>(name, flds)\<in>set sels. imported_values flds (price_table options' name))"
proof -
  let ?f = "\<lambda>x. case sync_validated upper x of Inr v \<Rightarrow> Inr v | Inl _ \<Rightarrow> Inl TypeError"
  have ok: "imported_values (snd x) v" "\<forall>key. plain_or_absent (v key)" "code_units (fst x)" if "x \<in> set sels" "?f x = Inr v" for x v
    using that assms(4) sync_validated_values [OF assms(3), of "snd x" "fst x" v] by (auto simp: list_all_iff split: sum.splits)
  have names: "\<forall>x\<in>set sels. code_units (fst x) \<and> (\<forall>v. ?f x = Inr v \<longrightarrow> (\<forall>key. plain_or_absent (v key)))"
    using ok(2) assms(4) by (auto simp: list_all_iff)
  have r: "priced_options options'"
    "\<And>n. n \<notin> fst ` set sels \<Longrightarrow> settled_values (price_table options' n) = settled_values (price_table options n)"
    "\<And>x. x \<in> set sels \<Longrightarrow> \<exists>v. ?f x = Inr v \<and> settled_values (price_table options' (fst x)) = settled_values v"
    using pricing.saves_in_turn [OF sync_sequence [OF assms(1) [unfolded applyPriceSyncSelections_def]] assms(2) names] assms(5) by auto
  have "imported_values (snd x) (price_table options' (fst x))" if x: "x \<in> set sels" for x
  proof -
    obtain v where v: "?f x = Inr v" "settled_values (price_table options' (fst x)) = settled_values v" using r(3) [OF x] by blast
    show ?thesis by (rule imported_settled [OF v(2) ok(1) [OF x v(1)]])
  qed
  with r(1,2) show ?thesis by auto
qed

subsection \<open>Changes\<close>

lemma same_settled:
  assumes "plain_or_absent a"
  shows "same_value a (map_option settled_value a)"
proof (cases a)
  case (Some v)
  with assms show ?thesis
  proof (cases v)
    case (VNum x)
    with Some assms show ?thesis by (cases x) (simp_all add: same_value_def)
  qed (simp_all add: same_value_def)
qed (simp add: same_value_def)

lemma table_plain: "priced_options options \<Longrightarrow> plain_or_absent (price_table options n key)"
proof -
  assume p: "priced_options options"
  obtain es where "plain_record es" "option_entries (options key) = es" using priced_optionsD [OF p] by (rule plain_optionE)
  then show ?thesis by (fastforce simp: price_table_def plain_record_def list_all_iff dest: map_of_SomeD split: option.splits)
qed

lemma changed_fold: "fold (\<lambda>key p. p(key := new key)) ks p key = (if key \<in> set ks then new key else p key)"
  by (induction ks arbitrary: p) auto

lemma distinct_concat_optional:
  assumes "distinct xs" and "\<And>x. f x = [] \<or> (\<exists>y. f x = [y] \<and> g y = x)"
  shows "distinct (map g (concat (map f xs))) \<and> set (map g (concat (map f xs))) = {x \<in> set xs. f x \<noteq> []}"
  using assms(1)
proof (induction xs)
  case (Cons x xs)
  then show ?case using assms(2) [of x] by auto
qed simp

lemma js_set_props [simp]: "distinct (js_set xs)" "set (js_set xs) = set xs"
  by (simp_all add: js_set_def)

abbreviation entry_for :: "model_pricing_config \<Rightarrow> js_string \<Rightarrow> model_pricing_entry option" where
  "entry_for snapshot \<equiv> map_of (rev (map (\<lambda>e. (me_model_name e, e)) (mc_entries snapshot)))"

theorem changes_are_differences:
  assumes "priced_options old" and "priced_options new"
  shows "\<exists>changes. buildPricingChanges snapshot old new = Inr changes \<and> distinct (map ch_model_name changes) \<and>
    ch_model_name ` set changes = {name. dirty_keys (price_table old name) (price_table new name) \<noteq> []} \<and>
    (\<forall>c\<in>set changes.
       ch_expected_version c = (case entry_for snapshot (ch_model_name c) of Some e \<Rightarrow> me_version e | None \<Rightarrow> mc_empty_version snapshot) \<and>
       ch_pricing c = changed_pricing (case entry_for snapshot (ch_model_name c) of Some e \<Rightarrow> me_configured e | None \<Rightarrow> Map.empty)
         (price_table new (ch_model_name c)) (dirty_keys (price_table old (ch_model_name c)) (price_table new (ch_model_name c))))"
proof -
  obtain prev where prev: "pricingValuesByModel old = Inr prev" "\<And>n. values_or_empty prev n = price_table old n"
    "\<And>n. n \<in> fst ` set prev \<longleftrightarrow> price_table old n \<noteq> Map.empty"
    by (rule values_by_model_is_table [OF assms(1)]) blast
  obtain nexts where nexts: "pricingValuesByModel new = Inr nexts" "\<And>n. values_or_empty nexts n = price_table new n"
    "\<And>n. n \<in> fst ` set nexts \<longleftrightarrow> price_table new n \<noteq> Map.empty"
    by (rule values_by_model_is_table [OF assms(2)]) blast
  let ?dirty = "\<lambda>name. dirty_keys (price_table old name) (price_table new name)"
  define f where "f = (\<lambda>name. if ?dirty name = [] then []
      else [\<lparr>ch_model_name = name,
             ch_expected_version = (case entry_for snapshot name of Some e \<Rightarrow> me_version e | None \<Rightarrow> mc_empty_version snapshot),
             ch_pricing = changed_pricing (case entry_for snapshot name of Some e \<Rightarrow> me_configured e | None \<Rightarrow> Map.empty)
               (price_table new name) (?dirty name)\<rparr>])"
  let ?names = "js_set (map fst prev @ map fst nexts)"
  have "values_or_empty prev = price_table old" "values_or_empty nexts = price_table new" using prev(2) nexts(2) by auto
  then have changes: "buildPricingChanges snapshot old new = Inr (concat (map f ?names))"
    by (simp add: buildPricingChanges_def prev(1) nexts(1) Let_def f_def cong: if_cong)
  have "name \<in> set ?names" if "?dirty name \<noteq> []" for name
  proof (rule ccontr)
    assume "name \<notin> set ?names"
    then have "price_table old name = Map.empty" "price_table new name = Map.empty" using prev(3) nexts(3) by auto
    with that show False by (simp add: dirty_keys_def same_value_def)
  qed
  then have "{x \<in> set ?names. f x \<noteq> []} = {name. ?dirty name \<noteq> []}" by (auto simp: f_def)
  moreover have "f x = [] \<or> (\<exists>y. f x = [y] \<and> ch_model_name y = x)" for x by (simp add: f_def)
  ultimately have "distinct (map ch_model_name (concat (map f ?names))) \<and>
      ch_model_name ` set (concat (map f ?names)) = {name. ?dirty name \<noteq> []}"
    using distinct_concat_optional [of ?names f ch_model_name] by simp
  moreover have "\<forall>c\<in>set (concat (map f ?names)). c \<in> set (f (ch_model_name c))" by (auto simp: f_def split: if_splits)
  ultimately show ?thesis unfolding changes by (auto simp: f_def split: if_splits)
qed

theorem edit_sends_edited_models:
  assumes "priced_options options" and "pricingFromDraft data = Inr vals" and "draft_units data" and "list_all code_units names"
    and "applyPricingDraft options data (Some names) = Inr options'"
  shows "\<exists>changes. buildPricingChanges snapshot options options' = Inr changes \<and> distinct (map ch_model_name changes) \<and>
    ch_model_name ` set changes = {name \<in> set names. dirty_keys (price_table options name) (settled_values vals) \<noteq> []} \<and>
    (\<forall>c\<in>set changes. ch_pricing c =
       changed_pricing (case entry_for snapshot (ch_model_name c) of Some e \<Rightarrow> me_configured e | None \<Rightarrow> Map.empty)
         (settled_values vals) (dirty_keys (price_table options (ch_model_name c)) (settled_values vals)))"
proof -
  have plain: "plain_or_absent (vals key)" for key by (rule draft_values_plain [OF assms(2,3)])
  obtain o2 where "applyPricingValues options vals names = Inr o2" "priced_options o2"
    "\<forall>n. price_table o2 n = settled_values (if n \<in> set names then vals else price_table options n)"
    using apply_values_updates_table [of options names vals, OF assms(1,4) plain] by blast
  with assms(2,5) have o': "priced_options options'"
    "\<And>n. price_table options' n = (if n \<in> set names then settled_values vals else settled_values (price_table options n))"
    by (auto simp: applyPricingDraft_def catching_def)
  have clean: "dirty_keys (price_table options n) (price_table options' n) = []" if "n \<notin> set names" for n
    using that same_settled [OF table_plain [OF assms(1)]] o'(2) by (simp add: dirty_keys_def)
  have names: "{n. dirty_keys (price_table options n) (price_table options' n) \<noteq> []} =
      {n \<in> set names. dirty_keys (price_table options n) (settled_values vals) \<noteq> []}"
    using clean o'(2) by auto
  obtain changes where c: "buildPricingChanges snapshot options options' = Inr changes" "distinct (map ch_model_name changes)"
    "ch_model_name ` set changes = {n \<in> set names. dirty_keys (price_table options n) (settled_values vals) \<noteq> []}"
    "\<forall>c\<in>set changes. ch_pricing c =
       changed_pricing (case entry_for snapshot (ch_model_name c) of Some e \<Rightarrow> me_configured e | None \<Rightarrow> Map.empty)
         (price_table options' (ch_model_name c)) (dirty_keys (price_table options (ch_model_name c)) (price_table options' (ch_model_name c)))"
    using changes_are_differences [OF assms(1) o'(1), of snapshot] unfolding names by blast
  have "ch_model_name c \<in> set names" if "c \<in> set changes" for c using that c(3) by blast
  with c o'(2) show ?thesis by auto
qed

lemma dirty_iff: "key \<in> set (dirty_keys a b) \<longleftrightarrow> \<not> same_value (a key) (b key)"
  "dirty_keys a b \<noteq> [] \<longleftrightarrow> (\<exists>key. \<not> same_value (a key) (b key))"
  by (auto simp: dirty_keys_def filter_empty_conv)

lemma changed_pricing_key:
  "changed_pricing configured new dirty key =
     (if key \<in> set dirty \<or> new BillingModeKey = Some (VStr (js ''tiered_expr'')) \<and> \<not> price_key key then new key else configured key)"
  by (auto simp: changed_pricing_def Let_def changed_fold)

lemma settled_string_iff: "settled_value v = VStr s \<longleftrightarrow> v = VStr s"
  by (cases v) simp_all

theorem edit_sends_differences:
  assumes "priced_options options" and "pricingFromDraft data = Inr vals" and "draft_units data" and "list_all code_units names"
    and "applyPricingDraft options data (Some names) = Inr options'"
  shows "\<exists>changes. buildPricingChanges snapshot options options' = Inr changes \<and> distinct (map ch_model_name changes) \<and>
    ch_model_name ` set changes =
      {name \<in> set names. \<exists>key. \<not> same_value (price_table options name key) (map_option settled_value (vals key))} \<and>
    (\<forall>c\<in>set changes. \<forall>key. ch_pricing c key =
       (if \<not> same_value (price_table options (ch_model_name c) key) (map_option settled_value (vals key)) \<or>
           vals BillingModeKey = Some (VStr (js ''tiered_expr'')) \<and> \<not> price_key key
        then map_option settled_value (vals key)
        else case entry_for snapshot (ch_model_name c) of Some e \<Rightarrow> me_configured e key | None \<Rightarrow> None))"
proof -
  have conf: "(case x of Some e \<Rightarrow> me_configured e | None \<Rightarrow> Map.empty) key = (case x of Some e \<Rightarrow> me_configured e key | None \<Rightarrow> None)"
    for x key by (cases x) simp_all
  show ?thesis
    using edit_sends_edited_models [OF assms, of snapshot]
    by (auto simp: dirty_iff changed_pricing_key settled_string_iff conf)
qed

end
