(* ===== verification/Pricing_Format.thy ===== *)
theory Pricing_Format
  imports Pricing_Options Pricing_Correct
begin

section \<open>Showing configured prices (pricing-format.ts, model-pricing-core.ts, model-pricing-snapshots.ts, currency.ts)\<close>

text \<open>
  Prices of the editor as texts: numbers without the drift of their arithmetic, the price of each
  lane derived from its ratio, the rows of the preview, the summary of a row of the table and the
  signature that tells whether a row has changed. The translation of a text is the parameter \<open>t\<close>.
\<close>

subsection \<open>Numbers\<close>

text \<open>\<^verbatim>\<open>Math.round\<close>\<close>

fun num_round :: "js_num \<Rightarrow> js_num" where
  "num_round (Fin q) = (let r = \<lfloor>q + 1 / 2\<rfloor> in if r = 0 \<and> q < 0 then NegZero else Fin (of_int r))"
| "num_round x = x"

definition DISPLAY_DECIMALS :: nat where "DISPLAY_DECIMALS = 12"

definition SNAP_DECIMALS :: nat where "SNAP_DECIMALS = 8"

definition SNAP_EPSILON :: js_num where "SNAP_EPSILON = to_double (1 / 10 ^ 12)"

definition number_epsilon :: js_num where "number_epsilon = Fin (1 / 2 ^ 52)"

definition roundToDecimals :: "js_num \<Rightarrow> nat \<Rightarrow> js_num" where
  "roundToDecimals value decimals =
     (let factor = Fin (10 ^ decimals) in num_div (num_round (num_mul value factor)) factor)"

definition snapFloatDrift :: "js_num \<Rightarrow> js_num" where
  "snapFloatDrift value =
     (let tolerance = num_max SNAP_EPSILON (num_mul (num_mul (num_abs value) number_epsilon) (Fin 8)) in
      case List.find (\<lambda>d. num_le (num_abs (num_sub value (roundToDecimals value d))) tolerance) [0..<Suc SNAP_DECIMALS] of
        Some d \<Rightarrow> roundToDecimals value d
      | None \<Rightarrow> value)"

text \<open>The callers pass a number; it is shown when it is finite.\<close>

definition formatPricingNumber :: "js_num \<Rightarrow> js_string" where
  "formatPricingNumber value =
     (if \<not> is_finite value then []
      else string_of_number (parse_float (to_fixed DISPLAY_DECIMALS (snapFloatDrift value))))"

subsection \<open>Currency of the editor\<close>

record pricing_currency =
  pc_label :: js_string
  pc_symbol :: js_string
  pc_exchangeRate :: js_num

definition USD_PRICING_CURRENCY :: pricing_currency where
  "USD_PRICING_CURRENCY = \<lparr>pc_label = js ''USD'', pc_symbol = js ''$'', pc_exchangeRate = Fin 1\<rparr>"

definition getSitePricingCurrency :: "currency_config \<Rightarrow> pricing_currency option" where
  "getSitePricingCurrency config =
     (if quotaDisplayType config = DT_CNY
      then Some \<lparr>pc_label = js ''CNY'', pc_symbol = [165], pc_exchangeRate = usdExchangeRate config\<rparr>
      else if quotaDisplayType config = DT_CUSTOM
      then let sym = (if trim (customCurrencySymbol config) = [] then [164] else trim (customCurrencySymbol config)) in
           Some \<lparr>pc_label = sym, pc_symbol = sym, pc_exchangeRate = customCurrencyExchangeRate config\<rparr>
      else None)"

definition isValidPricingCurrency :: "pricing_currency option \<Rightarrow> bool" where
  "isValidPricingCurrency currency \<longleftrightarrow>
     (case currency of None \<Rightarrow> False | Some c \<Rightarrow> is_finite (pc_exchangeRate c) \<and> num_lt (Fin 0) (pc_exchangeRate c))"

definition formatPricingAmount :: "js_string \<Rightarrow> pricing_currency \<Rightarrow> js_string" where
  "formatPricingAmount value currency =
     (if value = [] then []
      else let amount = num_mul (number_of_string value) (pc_exchangeRate currency) in
           if \<not> is_finite amount then [8212] else pc_symbol currency @ formatPricingNumber amount)"

subsection \<open>Lanes\<close>

datatype lane_key = L_completion | L_cache | L_createCache | L_image | L_audioInput | L_audioOutput

definition EMPTY_LANE_PRICES :: "lane_key \<Rightarrow> js_string" where "EMPTY_LANE_PRICES lane = []"

definition EMPTY_LANE_ENABLED :: "lane_key \<Rightarrow> bool" where "EMPTY_LANE_ENABLED lane = False"

fun ratioFieldByLane :: "lane_key \<Rightarrow> model_ratio_data \<Rightarrow> js_string option" where
  "ratioFieldByLane L_completion = mr_completionRatio"
| "ratioFieldByLane L_cache = mr_cacheRatio"
| "ratioFieldByLane L_createCache = mr_createCacheRatio"
| "ratioFieldByLane L_image = mr_imageRatio"
| "ratioFieldByLane L_audioInput = mr_audioRatio"
| "ratioFieldByLane L_audioOutput = mr_audioCompletionRatio"

record lane_config =
  lc_key :: lane_key
  lc_titleKey :: js_string
  lc_descriptionKey :: js_string
  lc_placeholder :: js_string

definition laneConfigs :: "lane_config list" where
  "laneConfigs =
     [\<lparr>lc_key = L_completion, lc_titleKey = js ''Completion price'',
       lc_descriptionKey = js ''Output token price for generated tokens.'', lc_placeholder = js ''15''\<rparr>,
      \<lparr>lc_key = L_cache, lc_titleKey = js ''Cache read price'',
       lc_descriptionKey = js ''Token price for cache reads.'', lc_placeholder = js ''0.3''\<rparr>,
      \<lparr>lc_key = L_createCache, lc_titleKey = js ''Cache write price'',
       lc_descriptionKey = js ''Token price for creating cache entries.'', lc_placeholder = js ''3.75''\<rparr>,
      \<lparr>lc_key = L_image, lc_titleKey = js ''Image input price'',
       lc_descriptionKey = js ''Token price for image input.'', lc_placeholder = js ''2.5''\<rparr>,
      \<lparr>lc_key = L_audioInput, lc_titleKey = js ''Audio input price'',
       lc_descriptionKey = js ''Token price for audio input.'', lc_placeholder = js ''3.81''\<rparr>,
      \<lparr>lc_key = L_audioOutput, lc_titleKey = js ''Audio output price'',
       lc_descriptionKey = js ''Token price for audio output.'', lc_placeholder = js ''15.11''\<rparr>]"

text \<open>The values are texts that may be absent.\<close>

definition hasValue :: "js_string option \<Rightarrow> bool" where
  "hasValue value \<longleftrightarrow> value \<noteq> None \<and> value \<noteq> Some []"

definition toNumberOrNull :: "js_string option \<Rightarrow> js_num option" where
  "toNumberOrNull value =
     (if \<not> hasValue value then None
      else let x = number_of_string (the value) in if is_finite x then Some x else None)"

definition ratioToBasePrice :: "js_string option \<Rightarrow> js_string" where
  "ratioToBasePrice ratio = (case toNumberOrNull ratio of None \<Rightarrow> [] | Some x \<Rightarrow> formatPricingNumber (num_mul x (Fin 2)))"

definition deriveLanePrice :: "js_string option \<Rightarrow> js_string \<Rightarrow> js_string" where
  "deriveLanePrice ratio denominator =
     (case (toNumberOrNull ratio, toNumberOrNull (Some denominator)) of
        (Some r, Some d) \<Rightarrow> formatPricingNumber (num_mul r d)
      | _ \<Rightarrow> [])"

record lane_state =
  ls_promptPrice :: js_string
  ls_prices :: "lane_key \<Rightarrow> js_string"
  ls_enabled :: "lane_key \<Rightarrow> bool"

definition createInitialLaneState :: "model_ratio_data option \<Rightarrow> lane_state" where
  "createInitialLaneState data =
     (case data of
        None \<Rightarrow> \<lparr>ls_promptPrice = [], ls_prices = EMPTY_LANE_PRICES, ls_enabled = EMPTY_LANE_ENABLED\<rparr>
      | Some d \<Rightarrow>
          let promptPrice = ratioToBasePrice (mr_ratio d); audioInputPrice = deriveLanePrice (mr_audioRatio d) promptPrice in
          \<lparr>ls_promptPrice = promptPrice,
           ls_prices = (\<lambda>lane. case lane of
               L_completion \<Rightarrow> deriveLanePrice (mr_completionRatio d) promptPrice
             | L_cache \<Rightarrow> deriveLanePrice (mr_cacheRatio d) promptPrice
             | L_createCache \<Rightarrow> deriveLanePrice (mr_createCacheRatio d) promptPrice
             | L_image \<Rightarrow> deriveLanePrice (mr_imageRatio d) promptPrice
             | L_audioInput \<Rightarrow> audioInputPrice
             | L_audioOutput \<Rightarrow> deriveLanePrice (mr_audioCompletionRatio d) audioInputPrice),
           ls_enabled = (\<lambda>lane. hasValue (ratioFieldByLane lane d))\<rparr>)"

record preview_row =
  pr_key :: js_string
  pr_label :: js_string
  pr_value :: js_string
  pr_multiline :: bool

definition amount_or_empty :: "(js_string \<Rightarrow> js_string) \<Rightarrow> bool \<Rightarrow> js_string \<Rightarrow> pricing_currency \<Rightarrow> js_string" where
  "amount_or_empty t shown price currency =
     (if shown \<and> price \<noteq> [] then formatPricingAmount price currency else t (js ''Empty''))"

definition preview_lanes :: "(js_string \<times> js_string \<times> lane_key) list" where
  "preview_lanes =
     [(js ''completion'', js ''Completion price'', L_completion), (js ''cache'', js ''Cache read price'', L_cache),
      (js ''createCache'', js ''Cache write price'', L_createCache), (js ''image'', js ''Image input price'', L_image),
      (js ''audio'', js ''Audio input price'', L_audioInput), (js ''audioCompletion'', js ''Audio output price'', L_audioOutput)]"

definition buildPreviewRows ::
  "js_string option \<Rightarrow> pricing_mode \<Rightarrow> js_string \<Rightarrow> js_string \<Rightarrow> js_string \<Rightarrow> (lane_key \<Rightarrow> js_string) \<Rightarrow> (lane_key \<Rightarrow> bool) \<Rightarrow>
   (js_string \<Rightarrow> js_string) \<Rightarrow> pricing_currency \<Rightarrow> preview_row list" where
  "buildPreviewRows price mode expr rules promptPrice lanePrices laneEnabled t currency =
     (case mode of
        Tiered_Expr \<Rightarrow>
          (let effectiveExpr = combineBillingExpr expr rules in
           [\<lparr>pr_key = js ''mode'', pr_label = t (js ''Pricing''), pr_value = t (js ''Expression''), pr_multiline = False\<rparr>,
            \<lparr>pr_key = js ''expr'', pr_label = t (js ''Expression'') @ js '' (USD)'',
             pr_value = (if effectiveExpr = [] then t (js ''Empty'') else effectiveExpr), pr_multiline = True\<rparr>])
      | Per_Request \<Rightarrow>
          [\<lparr>pr_key = js ''price'', pr_label = t (js ''Fixed price''),
            pr_value = amount_or_empty t True (text_or_blank price) currency, pr_multiline = False\<rparr>]
      | Per_Token \<Rightarrow>
          \<lparr>pr_key = js ''inputPrice'', pr_label = t (js ''Input price''),
           pr_value = amount_or_empty t True promptPrice currency, pr_multiline = False\<rparr> #
          map (\<lambda>(key, label, lane).
            \<lparr>pr_key = key, pr_label = t label,
             pr_value = amount_or_empty t (laneEnabled lane) (lanePrices lane) currency, pr_multiline = False\<rparr>) preview_lanes)"

subsection \<open>Rows of the table\<close>

definition hasPricingValue :: "js_string option \<Rightarrow> bool" where
  "hasPricingValue value \<longleftrightarrow> value \<noteq> None \<and> value \<noteq> Some []"

definition isBasePricingUnset :: "model_pricing_snapshot option \<Rightarrow> bool" where
  "isBasePricingUnset snapshot \<longleftrightarrow>
     (case snapshot of
        None \<Rightarrow> True
      | Some s \<Rightarrow> sn_billingMode s \<noteq> Some (js ''tiered_expr'') \<and> \<not> hasPricingValue (sn_price s) \<and> \<not> hasPricingValue (sn_ratio s))"

text \<open>The local \<^verbatim>\<open>toNumberOrNull\<close> of this file is the one above on texts.\<close>

definition ratioToPrice :: "js_string option \<Rightarrow> js_string option \<Rightarrow> js_string" where
  "ratioToPrice ratio denominator =
     (case (toNumberOrNull ratio, if hasPricingValue denominator then toNumberOrNull denominator else Some (Fin 2)) of
        (Some r, Some d) \<Rightarrow> formatPricingNumber (num_mul r d)
      | _ \<Rightarrow> [])"

definition getModeLabel :: "js_string option \<Rightarrow> js_string" where
  "getModeLabel mode =
     (if mode = Some (js ''per-request'') then js ''Per-request''
      else if mode = Some (js ''tiered_expr'') then js ''Expression'' else js ''Per-token'')"

definition getModeVariant :: "js_string option \<Rightarrow> js_string" where
  "getModeVariant mode =
     (if mode = Some (js ''per-request'') then js ''warning''
      else if mode = Some (js ''tiered_expr'') then js ''info'' else js ''success'')"

definition getExpressionSummary :: "model_pricing_snapshot \<Rightarrow> (js_string \<Rightarrow> js_string) \<Rightarrow> js_string" where
  "getExpressionSummary row t =
     (let tierCount = length (all_matches (rx_text (js ''tier('')) (text_or_blank (sn_billingExpr row))) in
      if 0 < tierCount then t (js ''Tiered pricing'') @ [32, 183, 32] @ digits_of tierCount @ [32] @ t (js ''tiers'')
      else t (js ''Expression pricing''))"

definition getPriceSummary :: "model_pricing_snapshot \<Rightarrow> (js_string \<Rightarrow> js_string) \<Rightarrow> js_string" where
  "getPriceSummary row t =
     (if sn_billingMode row = Some (js ''tiered_expr'') then getExpressionSummary row t
      else if sn_billingMode row = Some (js ''per-request'')
      then if hasPricingValue (sn_price row) then js ''$'' @ the (sn_price row) @ js '' / '' @ t (js ''request'')
           else t (js ''Unset price'')
      else let inputPrice = ratioToPrice (sn_ratio row) None in
           if inputPrice = [] then t (js ''Unset price'') else t (js ''Input'') @ js '' $'' @ inputPrice)"

definition price_details :: "model_pricing_snapshot \<Rightarrow> (js_string \<Rightarrow> js_string) \<Rightarrow> js_string \<Rightarrow> js_string list" where
  "price_details row t inputPrice =
     concat (map (\<lambda>(ratio, label).
         if hasPricingValue ratio then [t label @ js '' $'' @ ratioToPrice ratio (Some inputPrice)] else [])
       [(sn_completionRatio row, js ''Output''), (sn_cacheRatio row, js ''Cache''),
        (sn_createCacheRatio row, js ''Cache write'')])"

definition getPriceDetail :: "model_pricing_snapshot \<Rightarrow> (js_string \<Rightarrow> js_string) \<Rightarrow> js_string" where
  "getPriceDetail row t =
     (if sn_billingMode row = Some (js ''tiered_expr'')
      then if hasPricingValue (sn_requestRuleExpr row) then t (js ''Includes request rules'') else t (js ''Expression based'')
      else if sn_billingMode row = Some (js ''per-request'') then t (js ''Fixed request price'')
      else let inputPrice = ratioToPrice (sn_ratio row) None in
           if inputPrice = [] then t (js ''No base input price'')
           else let details = take 2 (price_details row t inputPrice) in
                if details \<noteq> [] then join [32, 183, 32] details else t (js ''Base input price only''))"

definition or_text :: "js_string option \<Rightarrow> js_string \<Rightarrow> js_value" where
  "or_text s d = VStr (if hasPricingValue s then the s else d)"

definition signature_record :: "model_pricing_snapshot \<Rightarrow> (js_string, js_value) entries" where
  "signature_record s =
     [(js ''price'', or_text (sn_price s) []), (js ''ratio'', or_text (sn_ratio s) []),
      (js ''cacheRatio'', or_text (sn_cacheRatio s) []), (js ''createCacheRatio'', or_text (sn_createCacheRatio s) []),
      (js ''completionRatio'', or_text (sn_completionRatio s) []), (js ''imageRatio'', or_text (sn_imageRatio s) []),
      (js ''audioRatio'', or_text (sn_audioRatio s) []),
      (js ''audioCompletionRatio'', or_text (sn_audioCompletionRatio s) []),
      (js ''billingMode'', or_text (sn_billingMode s) (js ''per-token'')),
      (js ''billingExpr'', or_text (sn_billingExpr s) []), (js ''requestRuleExpr'', or_text (sn_requestRuleExpr s) [])]"

definition getSnapshotSignature :: "model_pricing_snapshot option \<Rightarrow> js_string" where
  "getSnapshotSignature snapshot =
     (case snapshot of
        None \<Rightarrow> []
      | Some s \<Rightarrow> (case json_stringify (VObj (signature_record s)) of Some txt \<Rightarrow> txt | None \<Rightarrow> []))"

subsection \<open>Signatures tell rows apart\<close>

definition snapshot_units :: "model_pricing_snapshot \<Rightarrow> bool" where
  "snapshot_units s \<longleftrightarrow>
     list_all (\<lambda>x. case x of Some u \<Rightarrow> code_units u | None \<Rightarrow> True)
       [sn_price s, sn_ratio s, sn_cacheRatio s, sn_createCacheRatio s, sn_completionRatio s, sn_imageRatio s,
        sn_audioRatio s, sn_audioCompletionRatio s, sn_billingMode s, sn_billingExpr s, sn_requestRuleExpr s]"

lemma or_text_plain: "(case x of Some u \<Rightarrow> code_units u | None \<Rightarrow> True) \<Longrightarrow> code_units d \<Longrightarrow> plain_value (or_text x d)"
  by (auto simp: or_text_def hasPricingValue_def split: option.splits)

lemma signature_plain: "snapshot_units s \<Longrightarrow> plain_record (signature_record s)"
  by (auto simp: plain_record_def signature_record_def snapshot_units_def code_units_js intro!: or_text_plain)

lemma signature_settled: "settled_entries (signature_record s) = signature_record s"
  by (simp add: signature_record_def or_text_def)

theorem signature_injective:
  assumes "snapshot_units s" and "snapshot_units s'"
  shows "getSnapshotSignature (Some s) = getSnapshotSignature (Some s') \<longleftrightarrow> signature_record s = signature_record s'"
proof
  assume eq: "getSnapshotSignature (Some s) = getSnapshotSignature (Some s')"
  obtain u where u: "json_stringify (VObj (signature_record s)) = Some u" "json_parse u = Some (VObj (signature_record s))"
    using json_record_roundtrip [OF signature_plain [OF assms(1)]] unfolding signature_settled by blast
  obtain u' where u': "json_stringify (VObj (signature_record s')) = Some u'" "json_parse u' = Some (VObj (signature_record s'))"
    using json_record_roundtrip [OF signature_plain [OF assms(2)]] unfolding signature_settled by blast
  from eq u(1) u'(1) have "u = u'" by (simp add: getSnapshotSignature_def del: json_stringify.simps)
  with u(2) u'(2) show "signature_record s = signature_record s'" by simp
qed (simp add: getSnapshotSignature_def)

end
