(* ===== verification/Pricing_Samples.thy ===== *)
theory Pricing_Samples
  imports Pricing_Format Rule_Samples
begin

section \<open>Sample prices of models\<close>

definition sample_options :: pricing_options where
  "sample_options key = (if key = ModelRatio then js ''{\"a\":1.5,\"b\":2}'' else js ''{}'')"

definition sample_draft :: model_ratio_data where
  "sample_draft =
     \<lparr>mr_name = js ''a'', mr_price = None, mr_ratio = Some (js ''3''), mr_cacheRatio = None, mr_createCacheRatio = None,
      mr_completionRatio = Some (js ''4''), mr_imageRatio = None, mr_audioRatio = None, mr_audioCompletionRatio = None,
      mr_billingMode = Some Per_Token, mr_billingExpr = None, mr_requestRuleExpr = None\<rparr>"

definition sample_tiered_draft :: model_ratio_data where
  "sample_tiered_draft =
     sample_draft\<lparr>mr_billingMode := Some Tiered_Expr, mr_billingExpr := Some (js ''p * 2''),
       mr_requestRuleExpr := Some (buildRequestRuleExpr sample_groups)\<rparr>"

definition sample_plain_draft :: model_ratio_data where
  "sample_plain_draft =
     sample_draft\<lparr>mr_billingMode := Some Tiered_Expr, mr_billingExpr := Some (js ''tier(\"base\", p * 2 + c * 8)'')\<rparr>"

definition sample_config :: model_pricing_config where
  "sample_config = \<lparr>mc_entries = [], mc_options = sample_options, mc_empty_version = js ''v0''\<rparr>"

definition sample_selections :: "(js_string, (js_string, js_value) entries) entries" where
  "sample_selections = [(js ''a'', [(js ''billing_expr'', VStr (js ''p * 2''))]), (js ''c'', [(js ''model_ratio'', VNum (Fin 2))])]"

lemma sample_options_priced: "priced_options sample_options"
  by code_simp

lemma sample_numbers: "number_of_string (js ''3'') = Fin 3" "number_of_string (js ''4'') = Fin 4"
  by code_simp+

lemma sample_draft_accepted:
  "pricingFromDraft sample_draft = Inr (draft_values sample_draft)"
  "pricingFromDraft sample_tiered_draft = Inr (draft_values sample_tiered_draft)"
  "pricingFromDraft sample_plain_draft = Inr (draft_values sample_plain_draft)"
proof -
  have "\<not> bad_price s" if "filled sample_draft key = Some s" for key s
    using that by (cases key) (auto simp: sample_draft_def filled_def bad_price_def sample_numbers)
  then show "pricingFromDraft sample_draft = Inr (draft_values sample_draft)" by (auto simp: pricing_from_draft_spec)
  have "\<not> bad_price s" if "filled sample_tiered_draft key = Some s" for key s
    using that by (cases key) (auto simp: sample_tiered_draft_def sample_draft_def filled_def bad_price_def sample_numbers)
  then show "pricingFromDraft sample_tiered_draft = Inr (draft_values sample_tiered_draft)" by (auto simp: pricing_from_draft_spec)
  have "\<not> bad_price s" if "filled sample_plain_draft key = Some s" for key s
    using that by (cases key) (auto simp: sample_plain_draft_def sample_draft_def filled_def bad_price_def sample_numbers)
  then show "pricingFromDraft sample_plain_draft = Inr (draft_values sample_plain_draft)" by (auto simp: pricing_from_draft_spec)
qed

lemma sample_drafts_reopen: "reopens sample_tiered_draft" "reopens sample_plain_draft"
proof -
  have "trim (js ''p * 2'') = js ''p * 2''" "unwrapExpressionParens (js ''p * 2'') = js ''p * 2''"
      "inert 42 (js ''p * 2'') 1 None = Some (1, None)" "is_wrapped (js ''('' @ js ''p * 2'' @ js '')'')"
      "is_rule_part (js ''('' @ js ''p * 2'' @ js '')'') = Inr False" by code_simp+
  then have "separable (js ''p * 2'') sample_groups"
    using sample_groups_readable by (simp add: separable_def sample_groups_def)
  then show "reopens sample_tiered_draft" by (auto simp: reopens_def sample_tiered_draft_def)
  have "trim (text_or_blank (mr_requestRuleExpr sample_plain_draft)) = []"
    "rule_free (text_or_blank (mr_billingExpr sample_plain_draft))" by code_simp+
  then show "reopens sample_plain_draft" by (simp add: reopens_def)
qed

end
