(* ===== verification/Spec2Isabelle.thy ===== *)
theory Spec2Isabelle
  imports Expr_Structure Fixed_Price Js_Json Page_Samples Session_Samples Pricing_Samples
begin

text \<open>
  Verification of the billing expressions, the configured prices and the sessions of the web client of
  NexusTok.

  \<^bold>\<open>The program.\<close> NexusTok is a gateway to model providers. Its prices are expressions such as
  \<^verbatim>\<open>p < 5 ? tier("a", p * 2) : tier("b", fixed(3))\<close>. The web client parses, checks, evaluates, shows
  and edits them in \<^verbatim>\<open>src/web/src/features/pricing/lib\<close>, and this is the core of the development.
  A source is lexed and parsed, its types and its fixed prices are checked and the result is
  kept in a cache (\<^verbatim>\<open>billing-expression/parser.ts\<close>, \<^verbatim>\<open>types.ts\<close>); the runtime evaluates a compiled
  expression for token counts, a request, usage facts and an instant (\<^verbatim>\<open>runtime.ts\<close>); the
  display reads tiers from the tree (\<^verbatim>\<open>display.ts\<close>, \<^verbatim>\<open>billing-expr.ts\<close>); the visual editor reads a
  document from the tree and writes its edits back into the source (\<^verbatim>\<open>visual.ts\<close>); request rules
  are multiplied onto a base price as text (\<^verbatim>\<open>structure.ts\<close>, \<^verbatim>\<open>billing-expr.ts\<close>); and tasks have
  prices by usage facts, kept as tiers or as a matrix (\<^verbatim>\<open>task-expr.ts\<close>). The tier editor writes a
  list of tiers as an expression and estimates its cost (\<^verbatim>\<open>tier-expr.ts\<close>). The pricing page filters
  and sorts the models (\<^verbatim>\<open>filters.ts\<close>, \<^verbatim>\<open>model-helpers.ts\<close>), shows the prices of each of them
  (\<^verbatim>\<open>price.ts\<close>, \<^verbatim>\<open>dynamic-price.ts\<close>, \<^verbatim>\<open>task-matrix-display.ts\<close>) in the currency of the store
  (\<^verbatim>\<open>lib/currency.ts\<close>, \<^verbatim>\<open>stores/system-config-store.ts\<close>) and describes conditions in words
  (\<^verbatim>\<open>billing-expression/condition-display.ts\<close>). An administrator configures
  the prices of all models in JSON texts, edits them as rows, imports them from upstreams and sends the
  models that changed (\<^verbatim>\<open>features/model-pricing\<close>, \<^verbatim>\<open>features/system-settings/models\<close>). Around the
  pages, the client keeps the session of the
  user (\<^verbatim>\<open>stores/auth-store.ts\<close>), refreshes its access token with one request at a time, also across
  tabs, and ignores an answer that a later sign-in or sign-out has overtaken
  (\<^verbatim>\<open>lib/auth-session.ts\<close>, \<^verbatim>\<open>auth-session-sync.ts\<close>, \<^verbatim>\<open>session-hint.ts\<close>).

  \<^bold>\<open>Layers.\<close>
  \<^item> The language: \<open>Prelude\<close> (results, slices, objects as entry lists), \<open>Js_String\<close> (strings as
    lists of UTF-16 code units, \<^verbatim>\<open>trim\<close>, \<^verbatim>\<open>JSON.stringify\<close>), \<open>Js_Number\<close> with \<open>Number_Facts\<close> and
    \<open>Number_Roundtrip\<close> (doubles as exact rationals with correct rounding, \<^verbatim>\<open>Number\<close> and \<^verbatim>\<open>String\<close>,
    which invert each other on finite doubles), \<open>Js_Value\<close>, \<open>Js_Json\<close> (\<^verbatim>\<open>JSON.parse\<close>),
    \<open>Js_Regex\<close> (the matching of regular expressions by backtracking).
  \<^item> Expressions: \<open>Expr_Types\<close> (\<^verbatim>\<open>types.ts\<close>), \<open>Expr_Lexer\<close>, \<open>Expr_Parser\<close> (\<^verbatim>\<open>BillingParser\<close> with its
    fields as state), \<open>Type_Check\<close>, \<open>Expr_Compile\<close> (\<^verbatim>\<open>compileBillingExpression\<close>, over the locale of
    memo tables in \<open>Memo\<close>), \<open>Runtime_Values\<close> and \<open>Expr_Runtime\<close>, \<open>Expr_Display\<close>, \<open>Expr_Visual\<close>,
    \<open>Expr_Structure\<close>. Each has the operations of one source file in its order.
  \<^item> Prices around them: \<open>Request_Rules\<close> and \<open>Pricing_Tiers\<close> (\<^verbatim>\<open>billing-expr.ts\<close>,
    \<^verbatim>\<open>breakdown-tier-match.ts\<close>), \<open>Task_Pricing\<close> (\<^verbatim>\<open>task-expr.ts\<close>), \<open>Tier_Editor\<close>
    (\<^verbatim>\<open>tier-expr.ts\<close>).
  \<^item> The pricing page: \<open>Currency\<close> (configuration and formatting of amounts), \<open>Model_List\<close> (models,
    groups, filters and the sort of the language), \<open>Model_Price\<close> (prices by ratio, entries and
    summaries of expression prices), \<open>Task_Display\<close> (rows of task prices), \<open>Condition_Display\<close>
    (descriptions of conditions).
  \<^item> Configured prices: \<open>Js_Object\<close> (own and inherited properties of JSON values), \<open>Js_Stringify\<close> (\<^verbatim>\<open>JSON.stringify\<close>, and that objects of finite numbers and strings
    read back), \<open>Pricing_Options\<close> (options, rows, drafts, imports, changes), \<open>Pricing_Format\<close> (texts of
    prices, lanes, previews, signatures), \<open>Pricing_Correct\<close> (the options as a table, over a locale of
    stores in which a save changes the named entries only).
  \<^item> The session: \<open>Auth_Store\<close> (the store, the hint, the messages between tabs and the checks of
    an answer), \<open>Auth_Session\<close> (the refresh with its epochs, locks and retries, and the steps of
    a tab as a labelled transition relation), \<open>Auth_Session_Correct\<close> (its invariant, that every
    refresh ends, and that an overtaken one leaves no trace).
  \<^item> Proofs: \<open>Parser_Correct\<close>, \<open>Expr_Grammar\<close> (the grammar of the language as an inductive
    relation, and that the parser accepts only what it derives), \<open>Grammar_Complete\<close> (that it
    accepts all of it), \<open>Runtime_Correct\<close>, \<open>Fixed_Price\<close> (the amounts and the cost of fixed prices), \<open>Display_Correct\<close>, \<open>Visual_Correct\<close>,
    \<open>Rules_Correct\<close>, \<open>Task_Correct\<close>, \<open>Expr_Writing\<close> (a calculus of texts that the parser reads as a
    given tree), \<open>Task_Text\<close> and \<open>Tier_Text\<close> (the expressions of task prices and of the tier
    editor through that calculus), \<open>Estimator\<close> (progress of the evaluator on tiers, and the
    answers of the estimator), \<open>Model_List_Correct\<close> (the locale of comparisons for which the sort
    orders a list, interpreted on the comparisons by price), \<open>Price_Correct\<close> (entries, ranges and
    summaries), \<open>Condition_Correct\<close> (time ranges against the runtime); \<open>Samples\<close>, \<open>Rule_Samples\<close>,
    \<open>Text_Samples\<close>, \<open>Tier_Samples\<close>, \<open>Page_Samples\<close>, \<open>Session_Samples\<close> and \<open>Pricing_Samples\<close> hold the concrete inputs of the witnesses.

  \<^bold>\<open>Conventions.\<close> A thrown exception is the \<open>Inl\<close> of a result, a missing value is \<open>None\<close>, an object is
  the list of its entries in insertion order. (The language lists properties whose names are
  integers first; names of variables, fields and headers are words, and a name such as
  \<^verbatim>\<open>"1"\<close> in a usage schema would come earlier than here. Members that an object inherits from
  \<^verbatim>\<open>Object.prototype\<close> are modelled where configured prices are read by the name of a model,
  \<^verbatim>\<open>inherits\<close> in \<open>Js_Object\<close>; in other objects, such as schemas, usage facts and groups, a name
  that is no own property reads as absent.) The cache is state that is passed along. Nodes of a
  tree are compared by structure where the program compares object identity; the spans make
  the nodes of a parsed tree distinct, which \<open>parsed_tree_well_formed\<close> states, so the two agree.
  What the host provides is a parameter: time zones, Unicode case folding and the clock in
  \<open>js_host\<close>, the order of \<^verbatim>\<open>localeCompare\<close> as \<open>collate\<close>, \<^verbatim>\<open>Intl.NumberFormat\<close> as \<open>intl\<close>, translations and
  names of weekdays in \<open>text_host\<close>. Two theorems assume documented behaviour of them, and their
  witnesses show that it can hold: \<open>shown_time_range_is_evaluated\<close> that the fields of a time lie in
  their ranges, and \<open>imported_prices_are_literal\<close> that the upper case of a character outside ASCII
  has no underscore; no other theorem assumes anything of them. \<^verbatim>\<open>Math.pow(10, -n)\<close> is the
  double nearest to the power. An \<^verbatim>\<open>await\<close> ends a step: what the program does between two of them is one
  transition, and the events of the tab (answers, locks, timers, messages, sign-in, sign-out)
  interleave in any order.

  \<^bold>\<open>Fuel.\<close> The recursion of the parser carries fuel, three times the length of the source plus
  three: every call of a method consumes a lexeme or is one of at most three calls between two
  lexemes, and \<open>parsing_terminates\<close> proves that it is enough for every source. The evaluator
  descends through levels, 256 of them as in the program, where running out is the error of
  the program itself. All other loops are structural or have a measure.

  \<^bold>\<open>What is shown.\<close> Parsing ends with a well-formed tree or a diagnostic; the parser accepts exactly
  the sources that the grammar derives, with the tree that it derives, and quoted strings read
  back. The stack machine of the tree walk is the postorder; the type checker decides a typing
  relation; compiling through the cache is compiling without it. A successful evaluation has a
  finite cost that is not negative, does not depend on the order of evaluation, and respects
  the static types. A fixed price is a literal amount of the expression that is not negative, and the
  cost is that amount times the multipliers of matched rules only (\<open>Fixed_Price\<close>). The tier that the
  display shows is the tier that is charged. A document
  that is not edited is saved as its own source, and edits are woven into the source. Request
  rules read back, with the exceptions that are stated as theorems; for those that do, combining and
  splitting are inverse. The matrix of task prices is the product of its fields, its tiers charge by its
  rows, and reading them gives the matrix; a matrix that is saved as an expression and
  reopened, through the splitter, lexer, parser, type checker, compiler and reader, is the
  same matrix. The expression of the tier editor is displayed as the tiers it was written
  from, and the estimator charges the first of them whose conditions hold, without an error
  unless the cost overflows. On the pricing page, the list consists of the models that the
  filters select, in the order of their prices; a model has the least ratio of its groups;
  the entries are the unit prices of the tier, ranges and named fallbacks are exact, and a
  time range in words is where the runtime evaluates the condition to true; amounts in tokens
  are rounded to the digits that are shown; a summary never ends in a diagnostic and shows every
  entry once, with exact price ranges. Configured prices
  that are saved read back and leave other models alone, a draft is refused exactly for a text that is
  not a price and otherwise its mode decides what is saved, a saved row opens as it was unless the name
  of the model is a member of \<^verbatim>\<open>Object.prototype\<close>, only edited models are sent, and imported expressions are
  kept literally. In every reachable state
  of the session, the token, its expiry and the session are there together or not at all, a refresh that has been
  overtaken changes nothing that a page can see, and a refresh always comes to an end.

  \<^bold>\<open>Not modelled.\<close> Rendering (React components, routes and hooks), the localised labels of usage
  fields (\<^verbatim>\<open>task-price-display.ts\<close>), generated sample statistics (\<^verbatim>\<open>mock-stats.ts\<close>, \<^verbatim>\<open>seed.ts\<close>), the
  server, which is written in Go, its plugins, the desktop shell, and everything that only talks
  to the network.
\<close>

section \<open>Parsing\<close>

text \<open>
  C1. Parsing always ends, with a tree or with a diagnostic: the fuel of the parser model,
  three times the length of the source plus three, is enough for every source.
\<close>

theorem parsing_terminates: "\<exists>r. parse src = Some r"
  by (rule parse_total)

text \<open>
  C2. The parser returns a tree exactly when the source is within its limits (65536
  characters, fewer than 10000 lexemes, version prefix absent or v1) and the lexemes of
  the source derive that tree, with nesting at most 127, in the grammar with a right-
  associative conditional, six levels of left-associative operators by precedence, unary
  operators, parentheses, calls with the arity of their function, literals and variables.
\<close>

theorem parser_decides_grammar:
  "parse src = Some (Inr n) \<longleftrightarrow>
     length src \<le> 65536 \<and> version_ok src \<and> (\<exists>ts. tokens src ts \<and> length ts < 10000 \<and> derives 127 0 ts n)"
  by (rule parse_iff_grammar)

text \<open>
  C3. A tree the parser returns is well formed: the span of every node is not empty and
  lies in the source, the spans of the children of a node lie inside its span one after
  the other, every call has as many arguments as its function takes, every number literal
  is a finite double without a sign, and no two nodes of the tree are equal.
\<close>

theorem parsed_tree_well_formed:
  assumes "parse src = Some (Inr n)"
  shows "wf_tree n \<and> node_end n \<le> length src \<and> distinct (postorder n)"
  using parse_wf [OF assms] distinct_postorder by blast

theorem parsed_tree_well_formed_witness:
  "parse chain_source = Some (Inr chain_tree) \<and> wf_tree chain_tree \<and> distinct (postorder chain_tree)"
  using chain_parses parsed_tree_well_formed [OF chain_parses] by blast

section \<open>Compiling\<close>

text \<open>
  C4. The stack machine of visitExpression calls the visitor on the nodes of a tree of at
  most 256 levels in postorder, each once, stopping at the first error.
\<close>

theorem visiting_is_postorder:
  assumes "height n \<le> 256"
  shows "visitExpression n v s = fold_result v (postorder n) s"
  using assms by (rule visitExpression_postorder)

theorem visiting_is_postorder_witness:
  "height chain_tree \<le> 256 \<and>
   visitExpression chain_tree (\<lambda>n k. Inr (Suc k) :: nat result) 0 =
     fold_result (\<lambda>n k. Inr (Suc k)) (postorder chain_tree) 0"
proof -
  have h: "height chain_tree \<le> 256" by (simp add: chain_tree_def height_nodes)
  from h visiting_is_postorder [OF h, of "\<lambda>n k. Inr (Suc k)" 0] show ?thesis by blast
qed

text \<open>
  C5. The type checker, which fills a map from nodes to types while visiting the tree,
  accepts a well-formed tree of at most 256 levels exactly when the tree has a type in the
  declarative typing relation.
\<close>

theorem type_check_is_typing:
  assumes "wf_tree n" and "height n \<le> 256"
  shows "checkExpressionTypes n = Inr () \<longleftrightarrow> (\<exists>t. typed n t)"
  using assms by (rule check_iff_typed)

theorem type_check_is_typing_witness:
  "wf_tree chain_tree \<and> height chain_tree \<le> 256 \<and> (\<exists>t. typed chain_tree t)"
proof -
  have wf: "wf_tree chain_tree" by code_simp
  have h: "height chain_tree \<le> 256" by (simp add: chain_tree_def height_nodes)
  have "checkExpressionTypes chain_tree = Inr ()" by code_simp
  with wf h type_check_is_typing [OF wf h] show ?thesis by blast
qed

text \<open>
  C6. A source that compiles has been parsed into a well-formed, typed tree of at most 256
  levels; the compiled record holds exactly its variables, its functions and, in
  postorder, its request rules; and a tree that uses fixed has the pricing shape the
  compiler demands.
\<close>

theorem compiled_is_checked:
  assumes "compile_uncached source = Inr c"
  shows "parse source = Some (Inr (comp_ast c)) \<and> wf_tree (comp_ast c) \<and> height (comp_ast c) \<le> 256 \<and>
     (\<exists>t. typed (comp_ast c) t) \<and> comp_source c = source \<and>
     comp_variables c = variables_of (comp_ast c) \<and> comp_functions c = functions_of (comp_ast c) \<and>
     comp_rules c = concat (map (rules_at source) (postorder (comp_ast c))) \<and>
     (F_fixed \<in> comp_functions c \<longrightarrow> pricing_tree (comp_rules c) (comp_ast c))"
  using compile_ready [OF assms] compiled_fixed_tree [OF assms] by blast

theorem compiled_is_checked_witness:
  "compile_uncached chain_source = Inr chain_compiled \<and> wf_tree (comp_ast chain_compiled) \<and>
   pricing_tree (comp_rules chain_compiled) (comp_ast chain_compiled)"
  using chain_compiles compiled_is_checked [OF chain_compiles] by (simp add: chain_compiled_def)

text \<open>
  C7. Whatever sequence of sources is compiled from an empty cache, each compilation
  returns what compiling without a cache returns, and the cache never holds more than 128
  results.
\<close>

theorem compiling_is_cached_faithfully:
  "fst (compile_all ss []) = map compile_uncached ss \<and> length (snd (compile_all ss [])) \<le> 128"
  by (rule compile_all_results)

text \<open>
  C8. What the check of fixed prices in the compiler is for. In a source that compiles,
  every call of fixed has one literal amount, a finite number that is not negative and
  stays finite times a million. When an evaluation reports a fixed price, that price is
  the literal amount of a tier of the expression, the reported tier is the one with that
  label where the label is literal, and the cost is the amount times a million, multiplied
  only by factors that are one or the multiplier of a request rule that the reported trace
  marks as matched.
\<close>

theorem fixed_price_is_charged:
  assumes "compile_uncached source = Inr c" and "evaluate_steps host c ctx = Inr r"
  shows "(\<forall>args a b. Call F_fixed args a b \<in> set (postorder (comp_ast c)) \<longrightarrow>
      (\<exists>x i p q. args = [Literal (LNum x) i p q] \<and> is_finite x \<and> 0 \<le> num_value x \<and> is_finite (num_mul x (Fin 1000000)))) \<and>
    (\<forall>x. fixedPrice r = Some x \<longrightarrow>
      (\<exists>label i p q a b d e fs.
         Call F_tier [label, Call F_fixed [Literal (LNum x) i p q] a b] d e \<in> set (postorder (comp_ast c)) \<and>
         (\<forall>t j g h. label = Literal (LStr t) j g h \<longrightarrow> matchedTier r = t) \<and>
         cost r = foldr num_mul fs (num_mul x (Fin 1000000)) \<and>
         (\<forall>f\<in>set fs. f = Fin 1 \<or> (\<exists>t\<in>set (requestRules r). brr_matched t \<and> brr_multiplier t = f))))"
  using compiled_fixed_args [OF assms(1)] compiled_fixed_charged [OF assms]
  unfolding fixed_args_ok_def chargeable_def by blast

theorem fixed_price_is_charged_witness:
  "compile_uncached chain_source = Inr chain_compiled \<and>
   evaluate_steps sample_host chain_compiled sample_context = Inr chain_result \<and> fixedPrice chain_result = Some (Fin 3) \<and>
   (\<exists>label i p q a b d e. Call F_tier [label, Call F_fixed [Literal (LNum (Fin 3)) i p q] a b] d e \<in> set (postorder chain_tree))"
proof -
  have "fixedPrice chain_result = Some (Fin 3)" "comp_ast chain_compiled = chain_tree"
    by (simp_all add: chain_result_def chain_compiled_def)
  with fixed_price_is_charged [OF chain_compiles chain_evaluates] chain_compiles chain_evaluates show ?thesis
    by auto metis
qed

section \<open>Evaluating\<close>

text \<open>
  C9. When evaluating a source through a faithful cache succeeds, the cost is a finite
  number that is not negative, the unit is the request exactly when a fixed price is
  reported, that price is finite, and the trace lists the request rules of the compiled
  expression in order.
\<close>

theorem evaluation_result_bounds:
  assumes "cache_agrees cache" and "fst (evaluateBillingExpression host (Inl source) ctx cache) = Inr r"
  shows "is_finite (cost r) \<and> \<not> num_lt (cost r) (Fin 0) \<and>
     (billingUnit r = UnitRequest \<longleftrightarrow> fixedPrice r \<noteq> None) \<and> (\<forall>a. fixedPrice r = Some a \<longrightarrow> is_finite a) \<and>
     (\<exists>c. compile_uncached source = Inr c \<and> list_all2 rule_for (comp_rules c) (requestRules r))"
proof -
  have "fst (evaluateBillingExpression host (Inl source) ctx cache) = evaluate_compiled host (compile_uncached source) ctx"
    using compile_step(1) [OF assms(1), of source] by (auto simp: evaluateBillingExpression_def split: prod.split)
  with assms(2) obtain c where c: "compile_uncached source = Inr c" and r: "evaluate_steps host c ctx = Inr r"
    by (cases "compile_uncached source") (auto simp: evaluate_compiled_def result_simps)
  from evaluate_steps_success [OF r] c show ?thesis by blast
qed

theorem evaluation_result_bounds_witness:
  "fst (evaluateBillingExpression sample_host (Inl chain_source) sample_context []) = Inr chain_result \<and>
   is_finite (cost chain_result) \<and> \<not> num_lt (cost chain_result) (Fin 0)"
proof -
  have e: "fst (evaluateBillingExpression sample_host (Inl chain_source) sample_context []) = Inr chain_result"
    by (simp add: evaluateBillingExpression_def compileBillingExpression_def chain_compiles evaluate_compiled_def
        chain_evaluates Let_def)
  from e evaluation_result_bounds [OF cache.agrees_new e] show ?thesis by blast
qed

text \<open>
  C10. The evaluation depth limit changes nothing for a tree of less than 256 levels: any
  larger budget of levels gives the same result, so no such expression fails by depth.
\<close>

theorem depth_limit_never_cuts:
  assumes "wf_tree n" and "height n < 256" and "256 \<le> k"
  shows "evaluate env n s = evaluate_at k env n s"
  unfolding evaluate_def by (rule evaluate_at_level) (use assms in auto)

theorem depth_limit_never_cuts_witness:
  "wf_tree chain_tree \<and> height chain_tree < 256 \<and>
   (\<forall>env s. evaluate env chain_tree s = evaluate_at 300 env chain_tree s)"
proof -
  have wf: "wf_tree chain_tree" by code_simp
  have h: "height chain_tree < 256" by (simp add: chain_tree_def height_nodes)
  from wf h depth_limit_never_cuts [OF wf h, of 300] show ?thesis by simp
qed

text \<open>
  C11. After any node has been evaluated, every node still evaluates to the same value or
  the same error as in the fresh runtime: the recorded tier, price, rule marks and cached
  times never influence a value.
\<close>

theorem evaluation_order_is_irrelevant:
  assumes "new_runtime host compiled ctx = Inr (env, st)" and "evaluate env m st = Inr (v, st')"
  shows "map_sum id fst (evaluate env n st') = map_sum id fst (evaluate env n st)"
proof -
  have "times_agree env st" using new_runtime_state [OF assms(1)] by blast
  moreover from this assms(2) have "times_agree env st'"
    using times.evaluate_rel [of m 256 env st v st'] by (simp add: evaluate_def times.allowed_def)
  ultimately show ?thesis unfolding evaluate_def by (intro value_independent)
qed

theorem evaluation_order_is_irrelevant_witness:
  "\<exists>env st v st'. new_runtime sample_host chain_compiled sample_context = Inr (env, st) \<and>
     evaluate env chain_tree st = Inr (v, st') \<and>
     map_sum id fst (evaluate env chain_tree st') = map_sum id fst (evaluate env chain_tree st)"
proof -
  obtain env st v st' where r: "new_runtime sample_host chain_compiled sample_context = Inr (env, st)"
      "evaluate env chain_tree st = Inr (v, st')"
    by (rule evaluate_steps_cases [OF chain_evaluates]) (simp add: chain_compiled_def evaluate_def)
  from r evaluation_order_is_irrelevant [OF r] show ?thesis by blast
qed

text \<open>
  C12. A well-formed tree of static type t, in which no sum has two operands of dynamic
  type, evaluates to a value of type t whenever it evaluates. (A sum of two dynamic
  operands has static type number but concatenates two strings.)
\<close>

theorem typed_evaluation:
  assumes "typed n t" and "wf_tree n" and "sums_typed n" and "evaluate env n s = Inr (v, s')"
  shows "has_type (rv_value v) t"
  using typed_value [OF assms(1-3)] assms(4) unfolding evaluate_def by blast

theorem typed_evaluation_witness:
  "\<exists>env st v st'. new_runtime sample_host chain_compiled sample_context = Inr (env, st) \<and>
     evaluate env (Literal (LNum (Fin 5)) True 2 3) st = Inr (v, st') \<and> has_type (rv_value v) Ty_number"
proof -
  let ?n = "Literal (LNum (Fin 5)) True 2 3"
  obtain env st where r: "new_runtime sample_host chain_compiled sample_context = Inr (env, st)"
    by (rule evaluate_steps_cases [OF chain_evaluates]) simp
  have t: "typed ?n Ty_number" using t_literal [of "LNum (Fin 5)"] by simp
  have wf: "wf_tree ?n" by code_simp
  have sums: "sums_typed ?n" by (simp add: sums_typed_def postorder.simps)
  have e: "evaluate env ?n st = Inr (\<lparr>rv_value = VNum (Fin 5), rv_integer = True\<rparr>, st)"
    using evaluate_number_literal [OF wf, of 255 env st] by (simp add: evaluate_def)
  from r e typed_evaluation [OF t wf sums e] show ?thesis by blast
qed

section \<open>Displaying\<close>

text \<open>
  C13. For an expression of less than 256 levels that is shown as a chain of token tiers,
  evaluation with known token counts charges the first shown tier whose conditions hold
  for the counts: the reported label, unit and fixed price are those of that tier, and the
  cost of a fixed tier is its price times a million. The cost of a token tier is the sum
  of its shown unit prices times the counts, added from the left in the order shown, when
  the body of the tier is a sum nested to the left, as it is written without parentheses
  (a sum nested to the right is shown in the same way but rounds in another order, and the
  cost is left open for it).
\<close>

theorem displayed_tier_is_charged:
  assumes "compile_uncached source = Inr c" and "readTokenTierChain (comp_ast c) = Some ts"
    and "height (comp_ast c) < 256" and "counts_known ctx" and "evaluate_steps host c ctx = Inr r"
  shows "\<exists>i<length ts. find_index (\<lambda>t. list_all (holds ctx) (tt_conditions t)) ts = Some i \<and>
     matchedTier r = tt_label (ts ! i) \<and> billingUnit r = tt_unit (ts ! i) \<and> fixedPrice r = tt_fixed (ts ! i) \<and>
     (case tt_fixed (ts ! i) of
        Some x \<Rightarrow> cost r = num_mul x (Fin 1000000)
      | None \<Rightarrow> left_nested (children (leaf_nodes (comp_ast c) ! i) ! 1) \<longrightarrow>
                  cost r = linear_cost ctx (tt_prices (ts ! i)))"
  using assms by (rule displayed_chain)

theorem displayed_tier_is_charged_witness:
  "\<exists>ts. readTokenTierChain chain_tree = Some ts \<and>
     (\<exists>i<length ts. find_index (\<lambda>t. list_all (holds sample_context) (tt_conditions t)) ts = Some i \<and>
        matchedTier chain_result = tt_label (ts ! i))"
proof -
  have a: "comp_ast chain_compiled = chain_tree" by (simp add: chain_compiled_def)
  have "readTokenTierChain chain_tree \<noteq> None" by code_simp
  then obtain ts where ts: "readTokenTierChain (comp_ast chain_compiled) = Some ts" unfolding a by blast
  have h: "height (comp_ast chain_compiled) < 256" unfolding a by (simp add: chain_tree_def height_nodes)
  have "token_value sample_context v \<noteq> None" if "v \<in> {TV_p, TV_c, TV_len}" for v
    using that by (auto simp: token_value_def sample_context_def)
  then have k: "counts_known sample_context" unfolding counts_known_def by blast
  from ts displayed_tier_is_charged [OF chain_compiles ts h k chain_evaluates] show ?thesis
    unfolding a by blast
qed

text \<open>
  C14. At an instant where every time condition at the top of an expression evaluates, the
  tiers shown as current are exactly the tiers of the one branch those answers choose.
\<close>

theorem current_tiers_are_one_branch:
  assumes "timeTierBranches src n [] = Inr (Some ts)"
    and "\<And>c. c \<in> set (time_conditions n) \<Longrightarrow> evaluateBillingCondition host compiled c now = Some (d c)"
  shows "filter (tier_is_current host compiled now) ts =
     map (time_tier src (fst (time_branch d n))) (the (readTokenTierChain (snd (time_branch d n)))) \<and>
   readTokenTierChain (snd (time_branch d n)) \<noteq> None"
proof -
  have "\<forall>c\<in>set (time_conditions n). evaluateBillingCondition host compiled c now = Some (d c)"
    using assms(2) by blast
  from current_tiers_branch [OF assms(1) this] show ?thesis by (simp add: path_current_def)
qed

theorem current_tiers_are_one_branch_witness:
  "\<exists>ts. timeTierBranches time_source time_tree [] = Inr (Some ts) \<and>
     filter (tier_is_current sample_host time_compiled (Some 0)) ts =
       map (time_tier time_source (fst (time_branch (\<lambda>_. True) time_tree)))
         (the (readTokenTierChain (snd (time_branch (\<lambda>_. True) time_tree))))"
proof -
  have "case timeTierBranches time_source time_tree [] of Inr (Some ts) \<Rightarrow> True | _ \<Rightarrow> False" by code_simp
  then obtain ts where ts: "timeTierBranches time_source time_tree [] = Inr (Some ts)"
    by (auto split: sum.splits option.splits)
  have "time_conditions time_tree = [time_call]" by code_simp
  then have "evaluateBillingCondition sample_host time_compiled c (Some 0) = Some True"
    if "c \<in> set (time_conditions time_tree)" for c
    using that time_condition_at_epoch by simp
  from ts current_tiers_are_one_branch [OF ts this] show ?thesis by blast
qed

section \<open>Editing\<close>

text \<open>
  C15. A source that the visual editor accepts and that is not edited is saved as the very
  same text, whatever the state of the compile cache.
\<close>

theorem unedited_document_roundtrip:
  assumes "parseVisualBillingDocument host source cache = (Some doc, cache1)"
    and "cache_agrees cache" and "cache_agrees cache'"
  shows "doc_source doc = source \<and> fst (serializeVisualBillingDocument host doc cache') = Inr source"
  using serialize_unedited [OF assms] by blast

theorem unedited_document_roundtrip_witness:
  "\<exists>doc cache1. parseVisualBillingDocument sample_host chain_source [] = (Some doc, cache1) \<and>
     fst (serializeVisualBillingDocument sample_host doc []) = Inr chain_source"
proof -
  have "fst (parseVisualBillingDocument sample_host chain_source []) \<noteq> None" by code_simp
  then obtain doc cache1 where p: "parseVisualBillingDocument sample_host chain_source [] = (Some doc, cache1)"
    by (cases "parseVisualBillingDocument sample_host chain_source []") auto
  from p unedited_document_roundtrip [OF p cache.agrees_new cache.agrees_new] show ?thesis by blast
qed

text \<open>
  C16. patchSource, which sorts the patches by descending start and cuts the text once per
  patch, equals weaving their texts into the untouched text between them, for patches in
  source order inside the origin.
\<close>

theorem patching_weaves:
  assumes "spans_in (node_start origin) (map patch_node ps) (node_end origin)"
    and "list_all real_span (map patch_node ps)" and "real_span origin" and "node_end origin \<le> length src"
  shows "patchSource src origin ps = weave src (node_start origin) ps (node_end origin)"
  using assms by (rule patchSource_weave)

theorem patching_weaves_witness:
  "patchSource (js ''p*2'') (Binary MulOp (Variable TV_p 0 1) (Literal (LNum (Fin 2)) True 2 3) 0 3)
     [patch (Variable TV_p 0 1) (js ''c''), patch (Literal (LNum (Fin 2)) True 2 3) (js ''10'')] = js ''c*10''"
  by (subst patching_weaves) (simp_all add: slice_def js_def)

section \<open>Request rules\<close>

text \<open>
  C17. The text written for groups of one condition each, about the time or about the
  request, reads back as exactly these groups: existence and equality of a header or a
  parameter, containment in a header, and the comparisons and ranges of the time
  functions, with paths and zones that need no escapes and values that are trimmed.
\<close>

theorem request_rules_read_back:
  assumes "list_all readable_group gs"
  shows "tryParseRequestRuleExpr (buildRequestRuleExpr gs) = Inr (Some gs)"
  using assms by (rule rules_roundtrip)

theorem request_rules_read_back_witness:
  "list_all readable_group sample_groups \<and>
   tryParseRequestRuleExpr (buildRequestRuleExpr sample_groups) = Inr (Some sample_groups)"
  using sample_groups_readable request_rules_read_back [OF sample_groups_readable] by blast

text \<open>
  C18. A rule whose condition compares a parameter or tests what it contains is written as
  a text that the reader refuses: it cuts the guard of the condition from its test at the
  conjunction before it matches a condition, so the guarded forms that it knows never
  match.
\<close>

theorem guarded_rules_never_read_back:
  assumes "plain_text path" and "trim path = path" and "guarded_mode mode v" and "NUMERIC_LITERAL_REGEX m"
  shows "buildRequestRuleExpr [rule_group [ParamHeaderCondition SOURCE_PARAM path mode v] m] \<noteq> [] \<and>
    tryParseRequestRuleExpr (buildRequestRuleExpr [rule_group [ParamHeaderCondition SOURCE_PARAM path mode v] m]) = Inr None"
  using assms by (rule guarded_rule_unreadable)

theorem guarded_rules_never_read_back_witness:
  "tryParseRequestRuleExpr (buildRequestRuleExpr
     [rule_group [ParamHeaderCondition SOURCE_PARAM (js ''size'') MATCH_GT (js ''10'')] (js ''2'')]) = Inr None"
proof -
  have "plain_text (js ''size'')" "trim (js ''size'') = js ''size''" "guarded_mode MATCH_GT (js ''10'')"
      "NUMERIC_LITERAL_REGEX (js ''2'')"
    by code_simp+
  from guarded_rules_never_read_back [OF this] show ?thesis by blast
qed

text \<open>
  C19. Splitting the combination of a base expression with written request rules gives the
  base expression, without parentheses around it, and the rules again. The rules are a
  non-empty list of groups that read back, each with one condition that is written without
  a guard and a numeric multiplier; the base is trimmed and balanced and is not itself a
  rule. (Rules with a guarded condition are not recognised, as the claim before says, and
  are not split off.)
\<close>

theorem combined_expression_splits:
  assumes "list_all readable_group gs" and "gs \<noteq> []"
    and "base \<noteq> []" and "trim base = base" and "inert 42 base 1 None = Some (1, None)"
    and "is_wrapped (js ''('' @ base @ js '')'')" and "is_rule_part (js ''('' @ base @ js '')'') = Inr False"
  shows "splitBillingExprAndRequestRules (combineBillingExpr base (buildRequestRuleExpr gs)) =
    Inr \<lparr>billingExpr = unwrapExpressionParens base, requestRuleExpr = buildRequestRuleExpr gs\<rparr>"
  using assms by (rule combined_splits)

theorem combined_expression_splits_witness:
  "splitBillingExprAndRequestRules (combineBillingExpr (js ''p * 2'') (buildRequestRuleExpr sample_groups)) =
    Inr \<lparr>billingExpr = js ''p * 2'', requestRuleExpr = buildRequestRuleExpr sample_groups\<rparr>"
proof -
  have "js ''p * 2'' \<noteq> []" "trim (js ''p * 2'') = js ''p * 2''" "inert 42 (js ''p * 2'') 1 None = Some (1, None)"
      "is_wrapped (js ''('' @ js ''p * 2'' @ js '')'')" "is_rule_part (js ''('' @ js ''p * 2'' @ js '')'') = Inr False"
    by code_simp+
  moreover have "unwrapExpressionParens (js ''p * 2'') = js ''p * 2''" by code_simp
  ultimately show ?thesis
    using combined_expression_splits [OF sample_groups_readable, of "js ''p * 2''"] by (simp add: sample_groups_def)
qed

text \<open>
  C20. Reading a condition throws only a SyntaxError, when the quoted argument of a
  containment test is not JSON, or a TypeError, when the literal of an equality is JSON
  that String cannot turn into text; every other text that is no condition is refused
  without an exception.
\<close>

theorem reading_throws_only_on_bad_literals:
  assumes "tryParseRequestCondition s = Inl e"
  shows "e = SyntaxError \<and> (\<exists>path token. json_parse token = None \<and>
      (has_call SOURCE_HEADER s = Some (path, token) \<or> guarded_contains s = Some (path, token))) \<or>
    e = TypeError \<and> (\<exists>src path raw v. equals_match s = Some (src, path, raw) \<and> parseExprLiteral raw = Some v \<and>
      string_of_value v = Inl TypeError)"
  using assms by (rule condition_throws)

theorem reading_throws_only_on_bad_literals_witness:
  "tryParseRequestCondition (js ''has(header(\"a\"), '' @ [34, 92, 113, 34] @ js '')'') = Inl SyntaxError \<and>
   (\<exists>path token. json_parse token = None \<and>
     (has_call SOURCE_HEADER (js ''has(header(\"a\"), '' @ [34, 92, 113, 34] @ js '')'') = Some (path, token) \<or>
      guarded_contains (js ''has(header(\"a\"), '' @ [34, 92, 113, 34] @ js '')'') = Some (path, token)))"
proof -
  have e: "tryParseRequestCondition (js ''has(header(\"a\"), '' @ [34, 92, 113, 34] @ js '')'') = Inl SyntaxError"
    by code_simp
  from e reading_throws_only_on_bad_literals [OF e] show ?thesis by blast
qed

section \<open>Task prices\<close>

text \<open>
  C21. The combinations of a schema are the assignments of one enumerated value to every
  enumerated field, in the order of the fields: all of them, each once.
\<close>

theorem task_combinations_are_the_product:
  assumes "schema_ok schema"
  shows "distinct (getTaskEnumCombinations collate (Some schema)) \<and>
    (c \<in> set (getTaskEnumCombinations collate (Some schema)) \<longleftrightarrow>
       map fst c = map fst (getTaskEnumFields collate (Some schema)) \<and>
       list_all2 (\<lambda>v f. v \<in> set (enum_values (snd f))) (map snd c) (getTaskEnumFields collate (Some schema)))"
  using schema_okD(2) [OF assms] in_combinations [OF schema_okD(1) [OF assms]] by blast

theorem task_combinations_are_the_product_witness:
  "schema_ok sample_schema \<and> distinct (getTaskEnumCombinations sample_collation (Some sample_schema))"
  using sample_schema_ok task_combinations_are_the_product [OF sample_schema_ok] by blast

text \<open>
  C22. The tiers made from a price matrix implement the matrix: for every usage that shows
  the combination of a row, the tier that the preview selects has the constant and the
  unit prices of that row.
\<close>

theorem matrix_tiers_charge_by_row:
  assumes "schema_ok schema" and "fits_schema collate schema config" and "row \<in> set (mc_rows config)"
    and "shows_combination sample (mr_combination row)"
    and "getTaskNumberFields collate (Some schema) \<noteq> []"
  shows "same_number (tk_constant (matched_tier (taskMatrixToTiers collate config schema) sample)) (mr_constant row) \<and>
    (\<forall>field\<in>fst ` set (getTaskNumberFields collate (Some schema)).
       same_number (or_zero (map_of (tk_unit_prices (matched_tier (taskMatrixToTiers collate config schema) sample)) field))
         (or_zero (map_of (mr_unitPrices row) field)))"
  using assms by (rule matrix_charges_row)

theorem matrix_tiers_charge_by_row_witness:
  "same_number (tk_constant (matched_tier (taskMatrixToTiers sample_collation sample_matrix sample_schema) pro_sample)) (Fin 3)"
  using matrix_tiers_charge_by_row [OF sample_schema_ok sample_matrix_fits sample_rows(2) pro_sample_shows sample_number_fields_exist]
  by (simp add: pro_row_def)

text \<open>
  C23. A price matrix that the task editor saves is the matrix it reopens: the tiers of
  the matrix are written as an expression, and splitting off the request rules, lexing,
  parsing, type checking, compiling through the cache and reading that text as a matrix
  gives the same matrix. It holds for every collation of the host, for a schema with
  distinct names and distinct, non-empty enumeration values whose enumerated fields are
  not boolean, a matrix with one row per combination whose prices are finite, not negative
  and, when written as integers, safe integers, and a text of fewer than 10000 characters
  with at most 100 tiers, fields and conditions per tier.
\<close>

theorem saved_matrix_reopens:
  assumes "editable_schema schema" and "fits_schema collate schema config"
    and "getTaskNumberFields collate (Some schema) \<noteq> []" and "mc_rows config \<noteq> []"
    and "\<forall>row\<in>set (mc_rows config). row_writable (getTaskNumberFields collate (Some schema)) row"
    and "within_limits (getTaskNumberFields collate (Some schema)) (taskMatrixToTiers collate config schema)"
    and "cache_agrees cache"
  shows "fst (tryParseTaskMatrixConfig collate
      (Some (generateTaskExprFromConfig collate (Some \<lparr>tvc_tiers = taskMatrixToTiers collate config schema\<rparr>) schema)) schema cache) =
    Inr (Some config)"
  using assms by (rule matrix_text_roundtrip)

theorem saved_matrix_reopens_witness:
  "fst (tryParseTaskMatrixConfig sample_collation
      (Some (js ''u(\"mode\") == \"std\" ? tier(\"std\", 1 + u(\"secs\") * 2) : tier(\"pro\", 3 + u(\"secs\") * 4)''))
      sample_schema []) = Inr (Some sample_matrix)"
  using saved_matrix_reopens [OF sample_schema_editable sample_matrix_fits sample_number_fields_exist sample_rows(1)
      sample_rows_writable sample_within_limits empty_cache_agrees]
  by (simp only: sample_text)

text \<open>
  C24. A list of named task tiers that the editor saves reopens as the same list, except
  that the last tier, which is the fallback, loses its conditions. The tiers have writable
  prices for exactly the number fields of the schema and conditions on its enumerated
  fields, every tier but the last has a condition, and the sizes are those of a saved
  matrix: a text of fewer than 10000 characters with at most 100 tiers, fields and
  conditions per tier.
\<close>

theorem saved_tiers_reopen:
  assumes "storable collate schema tiers" and "cache_agrees cache"
  shows "fst (tryParseTaskVisualConfig collate
      (Some (generateTaskExprFromConfig collate (Some \<lparr>tvc_tiers = tiers\<rparr>) schema)) schema cache) =
    Inr (Some \<lparr>tvc_tiers = clear_last tiers\<rparr>)"
  using assms by (rule config_text_roundtrip)

theorem saved_tiers_reopen_witness:
  "fst (tryParseTaskVisualConfig sample_collation
      (Some (js ''u(\"mode\") == \"std\" ? tier(\"std\", 1 + u(\"secs\") * 2) : tier(\"pro\", 3 + u(\"secs\") * 4)''))
      sample_schema []) =
    Inr (Some \<lparr>tvc_tiers = clear_last (taskMatrixToTiers sample_collation sample_matrix sample_schema)\<rparr>)"
  using saved_tiers_reopen [OF sample_tiers_storable empty_cache_agrees] by (simp only: sample_text)

section \<open>Tier editor\<close>

text \<open>
  C25. The expression that the tier editor writes for its tiers compiles, and the display
  reads it back as the same tiers: for each tier its label (or the generated one), its
  conditions (none for the last tier), its unit and its fixed price or the unit price of
  every variable with a price. The tiers have printable prices and bounds, labels without
  quotes, backslashes and line breaks, conditions on all tiers but the last, and a text
  below the limits of the parser.
\<close>

theorem generated_tiers_are_displayed:
  assumes "editable_tiers tiers"
  shows "\<exists>c. compile_uncached (generateExprFromVisualConfig (Some \<lparr>vc_tiers = tiers\<rparr>)) = Inr c \<and>
    readTokenTierChain (comp_ast c) = Some (config_tiers tiers)"
  using generated_tiers_compile [OF assms] by blast

theorem generated_tiers_are_displayed_witness:
  "\<exists>c. compile_uncached (js ''len <= 3 ? tier(\"short\", p * 1 + c * 2 + cr * 3) : tier(\"long\", p * 2 + c * 4)'') = Inr c \<and>
     readTokenTierChain (comp_ast c) = Some (config_tiers sample_tiers)"
  using generated_tiers_are_displayed [OF sample_tiers_editable] by (simp only: sample_tiers_text)

text \<open>
  C26. The estimator always answers for the tiers of the editor: with finite token counts
  that are not negative there is a first tier whose conditions hold (the last tier needs
  none), the estimate is free of error exactly when the cost of that tier is finite, and
  then it reports its label, its unit and its cost, a million times the fixed price or the
  sum of counts times unit prices.
\<close>

theorem estimator_charges_first_tier:
  assumes "editable_tiers tiers" and "cache_agrees cache" and "estimator_counts p c extras"
  shows "\<exists>i<length tiers.
     (i = length tiers - 1 \<or> tier_applies (estimator_context p c extras None) (tiers ! i)) \<and>
     (\<forall>j<i. \<not> tier_applies (estimator_context p c extras None) (tiers ! j)) \<and>
     (let result = fst (evalExprLocally host (generateExprFromVisualConfig (Some \<lparr>vc_tiers = tiers\<rparr>)) p c extras None cache) in
      (er_error result = None \<longleftrightarrow> is_finite (tier_cost (estimator_context p c extras None) (tiers ! i))) \<and>
      (er_error result = None \<longrightarrow>
         result = \<lparr>er_cost = tier_cost (estimator_context p c extras None) (tiers ! i),
           er_matchedTier = config_label (length tiers) i (tiers ! i), er_error = None,
           er_billingUnit = (if vt_billing_unit (tiers ! i) = Some UnitRequest then Some UnitRequest else None)\<rparr>))"
  using assms by (rule estimator_answers)

theorem estimator_charges_first_tier_witness:
  "er_error (fst (evalExprLocally sample_host (generateExprFromVisualConfig (Some \<lparr>vc_tiers = sample_tiers\<rparr>)) (Fin 2) (Fin 1) no_extras None [])) = None"
proof -
  let ?ctx = "estimator_context (Fin 2) (Fin 1) no_extras None"
  let ?result = "fst (evalExprLocally sample_host (generateExprFromVisualConfig (Some \<lparr>vc_tiers = sample_tiers\<rparr>)) (Fin 2) (Fin 1) no_extras None [])"
  note all = estimator_charges_first_tier [OF sample_tiers_editable empty_cache_agrees sample_counts, of sample_host, unfolded Let_def]
  obtain i where i: "i < length sample_tiers" "\<forall>j<i. \<not> tier_applies ?ctx (sample_tiers ! j)"
      "er_error ?result = None \<longleftrightarrow> is_finite (tier_cost ?ctx (sample_tiers ! i))"
    using all by (elim exE conjE)
  have "i = 0" using i(2) sample_tier_applies by (cases i) auto
  with i(3) sample_tier_cost show ?thesis by simp
qed

section \<open>Pricing page\<close>

text \<open>
  C27. The summary of an expression price never ends in the exception of the tree walk,
  whatever text the server sends as the expression, when the cache is faithful. A summary
  that is shown lists every entry once, as primary or as secondary: for task prices the
  prices by usage are primary and the additional charge per request is secondary, for
  token prices the input, output and per-request prices are primary and all others
  secondary. An entry has a price range exactly when it belongs to a number field of a
  task for which two tiers have different shown prices, and the range goes from the least
  to the greatest of them. Without time pricing the summary describes the first tier, or
  the last one of a task, and is shown as mixed exactly when the token tiers of a model
  have both units.
\<close>

theorem summary_shows_every_price:
  assumes "cache_agrees cache"
  shows "(\<forall>d. fst (getDynamicPricingSummary intl stored host collate model opts cache) \<noteq> Inl (Diagnosed d)) \<and>
    (\<forall>s. fst (getDynamicPricingSummary intl stored host collate model opts cache) = Inr (Some s) \<longrightarrow>
       mset (ds_entries s) = mset (ds_primaryEntries s) + mset (ds_secondaryEntries s) \<and>
       (\<forall>e\<in>set (ds_primaryEntries s).
          if ds_isTaskUsage s then pe_unit e \<noteq> RequestPrice
          else pe_unit e = RequestPrice \<or> pe_field e \<in> {js ''inputPrice'', js ''outputPrice''}) \<and>
       (\<forall>e\<in>set (ds_secondaryEntries s).
          if ds_isTaskUsage s then pe_unit e = RequestPrice
          else pe_unit e \<noteq> RequestPrice \<and> pe_field e \<notin> {js ''inputPrice'', js ''outputPrice''}) \<and>
       (\<forall>e\<in>set (ds_entries s).
          if ds_isTaskUsage s \<and> pe_field e \<in> set (map fst (getTaskNumberFields collate (pm_billing_usage_schema model)))
          then shows_range intl stored opts (shown_prices (ds_tiers s) (pe_field e)) (pe_formattedRange e)
          else pe_formattedRange e = None) \<and>
       (\<not> ds_isTimePricing s \<longrightarrow>
          ds_tier s = (if ds_tiers s = [] then None else Some (if ds_isTaskUsage s then last (ds_tiers s) else hd (ds_tiers s))) \<and>
          (ds_isMixedBilling s \<longleftrightarrow> \<not> ds_isTaskUsage s \<and>
             (\<exists>t. TokenPricing t \<in> set (ds_tiers s) \<and> pt_billingUnit t \<noteq> Some UnitRequest) \<and>
             (\<exists>t. TokenPricing t \<in> set (ds_tiers s) \<and> pt_billingUnit t = Some UnitRequest))))"
proof (intro conjI allI impI ballI)
  show "fst (getDynamicPricingSummary intl stored host collate model opts cache) \<noteq> Inl (Diagnosed d)" for d
    using summary_undiagnosed [OF assms] unfolding undiagnosed_def by blast
qed (fact summary_divides summary_ranges summary_tier)+

theorem summary_shows_every_price_witness:
  "\<forall>intl stored collate opts. \<exists>s.
     fst (getDynamicPricingSummary intl stored sample_host collate mixed_model opts []) = Inr (Some s) \<and>
     ds_isMixedBilling s \<and> ds_tier s = Some (hd mixed_tiers) \<and>
     mset (ds_entries s) = mset (ds_primaryEntries s) + mset (ds_secondaryEntries s)"
proof (intro allI)
  fix intl stored collate opts
  obtain s where s: "fst (getDynamicPricingSummary intl stored sample_host collate mixed_model opts []) = Inr (Some s)"
    "\<not> ds_isTimePricing s" "\<not> ds_isTaskUsage s" "ds_tiers s = mixed_tiers"
    by (rule mixed_summary)
  have "mixed_tiers \<noteq> []" using mixed_tiers_units by force
  with summary_shows_every_price [OF empty_cache_agrees, THEN conjunct2, rule_format, OF s(1)] s mixed_tiers_units
  show "\<exists>s. fst (getDynamicPricingSummary intl stored sample_host collate mixed_model opts []) = Inr (Some s) \<and>
     ds_isMixedBilling s \<and> ds_tier s = Some (hd mixed_tiers) \<and>
     mset (ds_entries s) = mset (ds_primaryEntries s) + mset (ds_secondaryEntries s)"
    by (intro exI [of _ s]) simp
qed

text \<open>
  C28. The price entries of a token tier are exactly its unit prices: a variable has a
  price in the tier if and only if an entry has its key and that price, formatted with the
  options, and the entries for input and output come first.
\<close>

theorem price_entries_show_the_tier:
  assumes "distinct (map fst (tt_prices t))" and "TV_len \<notin> fst ` set (tt_prices t)" and "tt_unit t = UnitToken"
    and "\<forall>(v, x)\<in>set (tt_prices t). is_finite x \<and> \<not> num_lt x (Fin 0)"
  shows "((v, x) \<in> set (tt_prices t) \<longleftrightarrow>
      (\<exists>e\<in>set (getDynamicPriceEntries intl stored collate (Some (TokenPricing (mapTokenTier t condText))) opts).
         pe_key e = variable_text v \<and> pe_value e = x \<and> pe_formatted e = formatDynamicUnitPrice intl stored x opts)) \<and>
    sorted_wrt (\<lambda>a b. is_primary b \<longrightarrow> is_primary a)
      (getDynamicPriceEntries intl stored collate (Some (TokenPricing (mapTokenTier t condText))) opts)"
  using entries_show_prices [OF assms] by blast

theorem price_entries_show_the_tier_witness:
  "\<forall>intl stored collate opts.
     \<exists>e\<in>set (getDynamicPriceEntries intl stored collate (Some (TokenPricing (mapTokenTier
         \<lparr>tt_unit = UnitToken, tt_fixed = None, tt_label = js ''a'', tt_conditions = [],
          tt_prices = [(TV_p, Fin 2), (TV_c, Fin 4)]\<rparr> None))) opts).
       pe_key e = variable_text TV_c \<and> pe_value e = Fin 4 \<and> pe_formatted e = formatDynamicUnitPrice intl stored (Fin 4) opts"
proof (intro allI)
  fix intl stored collate opts
  let ?t = "\<lparr>tt_unit = UnitToken, tt_fixed = None, tt_label = js ''a'', tt_conditions = [], tt_prices = [(TV_p, Fin 2), (TV_c, Fin 4)]\<rparr> :: token_tier"
  have "(TV_c, Fin 4) \<in> set (tt_prices ?t)" by simp
  then show "\<exists>e\<in>set (getDynamicPriceEntries intl stored collate (Some (TokenPricing (mapTokenTier ?t None))) opts).
       pe_key e = variable_text TV_c \<and> pe_value e = Fin 4 \<and> pe_formatted e = formatDynamicUnitPrice intl stored (Fin 4) opts"
    by (subst (asm) price_entries_show_the_tier [THEN conjunct1]) simp_all
qed

text \<open>
  C29. When the display names the fallback tier by conditions, the other tiers stay as
  they are, and for a usage that takes listed values in the fields of the conditions the
  displayed conditions hold exactly when none of the other tiers applies.
\<close>

theorem displayed_fallback_is_exact:
  assumes "display_tiers schema tiers \<noteq> tiers" and "in_domain schema (butlast tiers) sample"
  shows "butlast (display_tiers schema tiers) = butlast tiers \<and>
    (list_all (condition_matches sample) (tk_conditions (last (display_tiers schema tiers))) \<longleftrightarrow>
      \<not> list_ex (\<lambda>t. list_all (condition_matches sample) (tk_conditions t)) (butlast tiers))"
  using displayed_fallback [OF assms] by blast

theorem displayed_fallback_is_exact_witness:
  "list_all (condition_matches pro_sample) (tk_conditions (last (display_tiers sample_schema sample_fallback))) \<longleftrightarrow>
     \<not> list_ex (\<lambda>t. list_all (condition_matches pro_sample) (tk_conditions t)) (butlast sample_fallback)"
  using displayed_fallback_is_exact [OF sample_fallback_changed sample_in_domain] by blast

text \<open>
  C30. The time range that is shown for a conjunction of comparisons with one time
  function is where the runtime evaluates the conjunction to true: at any instant the
  condition holds exactly when the hour, minute, weekday, month or day lies from the start
  of the range to before its end.
\<close>

theorem shown_time_range_is_evaluated:
  assumes "map_option_list timeComparison (flattenBinary n AndOp) = Some cs"
    and "list_all (\<lambda>c. cmp_name c = f \<and> cmp_timezone c = zone) cs" and "list_all (\<lambda>c. is_safe_integer (cmp_value c)) cs"
    and "wf_tree n" and "height n < 256"
    and "timeInBillingZone host now zone = Inr tv" and "integer (time_value f tv) v" and "in_bounds (time_value f tv) (DOMAINS f)"
  shows "evaluateBillingCondition host compiled n now = Some (in_bounds (time_value f tv) (time_range cs))"
  using assms by (rule shown_range_is_evaluated)

theorem shown_time_range_is_evaluated_witness:
  "\<forall>compiled. evaluateBillingCondition sample_host compiled working_hours (Some 0) = Some (in_bounds (Fin 0) (time_range working_range))"
proof -
  have same: "list_all (\<lambda>c. cmp_name c = T_hour \<and> cmp_timezone c = js ''UTC'') working_range"
    "list_all (\<lambda>c. is_safe_integer (cmp_value c)) working_range" by code_simp+
  have v: "integer (time_value T_hour (utc_values 0)) 0" "in_bounds (time_value T_hour (utc_values 0)) (DOMAINS T_hour)"
    by (simp_all add: midnight integer_def in_bounds_def num_le_def)
  show ?thesis
    using shown_time_range_is_evaluated [OF working_hours_comparisons same working_hours_wf working_hours_shallow midnight(1) v]
    by (simp add: midnight(2))
qed

text \<open>
  C31. The list of models consists of the models that all the filters select, each as
  often as it is given; sorted by price it is ascending or descending, and models of equal
  price keep their order. (Prices are doubles and not NaN; the comparison by subtraction
  is exact because a difference of distinct doubles does not round to zero.)
\<close>

theorem model_list_is_selected_and_ordered:
  assumes "\<forall>m\<in>set models. has_price m"
  shows "mset (filterAndSortModels unicode collate models f) = filter_mset (selected unicode f) (mset models) \<and>
    (mf_sortBy f = js ''price-low'' \<longrightarrow>
       sorted_wrt (\<lambda>a b. \<not> num_lt (getModelPrice b) (getModelPrice a)) (filterAndSortModels unicode collate models f)) \<and>
    (mf_sortBy f = js ''price-high'' \<longrightarrow>
       sorted_wrt (\<lambda>a b. \<not> num_lt (getModelPrice a) (getModelPrice b)) (filterAndSortModels unicode collate models f)) \<and>
    (mf_sortBy f \<in> {js ''price-low'', js ''price-high''} \<longrightarrow>
       (\<forall>a\<in>set models. filter (equal_price a) (filterAndSortModels unicode collate models f) =
          filter (equal_price a) (filter (selected unicode f) models)))"
  using model_list_correct model_list_ordered [OF assms] model_list_stable [OF assms] by blast

theorem model_list_is_selected_and_ordered_witness:
  "sorted_wrt (\<lambda>a b. \<not> num_lt (getModelPrice b) (getModelPrice a)) [cheap_model, dear_model] \<and>
   mset [cheap_model, dear_model] = filter_mset (selected id cheapest_filters) (mset [dear_model, cheap_model])"
proof -
  have "mf_sortBy cheapest_filters = js ''price-low''" by (simp add: cheapest_filters_def)
  with model_list_is_selected_and_ordered [OF sample_models_priced, of id sample_collation cheapest_filters] show ?thesis
    unfolding sample_models_listed by blast
qed

text \<open>
  C32. An amount shown in tokens without compact notation is the amount rounded to the
  digits that are shown, half a unit of the last digit away at most; from a thousand on
  and abbreviated, which is the default, it is the number of thousands rounded to tenths,
  up to the rounding of the division, followed by the letter k. (The comment on
  formatCurrencyFromUSD gives all digits with group separators for this case; the code
  abbreviates.)
\<close>

theorem token_amounts_are_rounded:
  assumes "quotaDisplayType (getConfig stored) = DT_TOKENS" and "\<not> compact (mergeOptions options)"
    and "num_mul amount (quotaPerUnit (getConfig stored)) = Fin q" and "0 \<le> q" and "q < 10 ^ 21"
  shows "if abbreviate (mergeOptions options) \<and> 1000 \<le> q
    then \<exists>s. formatCurrencyFromUSD intl stored (Some amount) options = s @ js ''k'' \<and> rounds_number s (q / 1000) (1 / 20 + q / 2 ^ 53 / 1000)
    else rounds_number (formatCurrencyFromUSD intl stored (Some amount) options) q
           (1 / (2 * 10 ^ (if 1 \<le> q then 0 else digitsSmall (mergeOptions options))))"
  using assms by (rule token_text_accurate)

theorem token_amounts_are_rounded_witness:
  "\<forall>intl. \<exists>s. formatCurrencyFromUSD intl (Some token_store) (Some (Fin 2)) None = s @ js ''k'' \<and>
     rounds_number s (1000000 / 1000) (1 / 20 + 1000000 / 2 ^ 53 / 1000)"
proof
  fix intl
  show "\<exists>s. formatCurrencyFromUSD intl (Some token_store) (Some (Fin 2)) None = s @ js ''k'' \<and>
     rounds_number s (1000000 / 1000) (1 / 20 + 1000000 / 2 ^ 53 / 1000)"
    using token_amounts_are_rounded [OF token_store_config(1,3,2), of intl] token_store_config(4) by simp
qed

section \<open>Sessions\<close>

text \<open>
  C33. A refresh that a sign-in, a sign-out or a rotation has overtaken cannot be seen:
  whatever the server answers and however the steps interleave, until the refresh is
  forgotten the program reaches the same store, events and page effects as without the
  steps of the refresh, and the refresh ends as superseded (or with the refusal of the
  lock).
\<close>

theorem overtaken_refresh_is_invisible:
  assumes "reachable_world w" and "sw_refresh w = Some r" and "\<nexists>s. run_phase r = Settled s" and "run_epoch r \<noteq> sw_epoch w"
    and "session_steps w as w'" and "Forgotten \<notin> set as"
  shows "session_steps w (filter (\<lambda>a. \<not> is_run_action a) as) (w'\<lparr>sw_refresh := Some r\<rparr>) \<and>
    (\<exists>r'. sw_refresh w' = Some r' \<and> overtaken_phase (run_phase r'))"
  using overtaken_refresh [OF assms] by blast

theorem overtaken_refresh_is_invisible_witness:
  "session_steps signed_in_world [refused] overtaken_world \<and>
   session_steps signed_in_world [] (overtaken_world\<lparr>sw_refresh := Some waiting_run\<rparr>)"
proof -
  have steps: "session_steps signed_in_world [refused] overtaken_world"
    by (rule session_steps.step [OF refused_step session_steps.none])
  have "Forgotten \<notin> set [refused]" by (simp add: refused_def)
  from overtaken_refresh_is_invisible [OF signed_in_reachable waiting_refresh(2) waiting_not_settled signed_in_overtakes steps this] steps
  show ?thesis by (simp add: refused_def)
qed

text \<open>
  C34. A refresh never hangs and never floods the server: in every reachable state a
  refresh that is under way has made at most eight requests, it can take a step unless it
  is settled, and it takes at most fifteen steps whatever the server answers.
\<close>

theorem refresh_comes_to_an_end:
  assumes "reachable_world w" and "sw_refresh w = Some r"
  shows "length (run_requests r) \<le> 8 \<and>
    ((\<exists>s. run_phase r = Settled s) \<or> (\<exists>a w'. is_run_action a \<and> session_step w a w')) \<and>
    (\<forall>as w'. session_steps w as w' \<longrightarrow> Forgotten \<notin> set as \<longrightarrow> length (filter is_run_action as) \<le> 15)"
  using refresh_ends [OF assms] by blast

theorem refresh_comes_to_an_end_witness:
  "\<exists>a w'. is_run_action a \<and> session_step waiting_world a w'"
  using refresh_comes_to_an_end [OF waiting_reachable waiting_refresh(1)] waiting_not_settled by blast

text \<open>
  C35. In every reachable state the access token, its expiry and the session are present
  together or absent together; and when a refresh is settled as authenticated, anonymous
  or out of sync and the session has not changed since, the store holds the credentials of
  that bundle, or none.
\<close>

theorem session_store_invariant:
  assumes "reachable_world w"
  shows "coherent (sw_auth w) \<and>
    (\<forall>r outcome. sw_refresh w = Some r \<longrightarrow> run_phase r = Settled (Fulfilled outcome) \<longrightarrow>
       (\<exists>e. outcome = TransientError e) \<or>
       run_epoch r < sw_epoch w \<and> (sw_epoch w = Suc (run_epoch r) \<longrightarrow> matches outcome (sw_auth w)))"
  using reachable_coherent [OF assms] reachable_stored [OF assms] unfolding kept_session_def by blast

theorem session_store_invariant_witness:
  "coherent (sw_auth refused_world) \<and> matches Anonymous (sw_auth refused_world)"
  using session_store_invariant [OF refused_reachable] refused_settled by auto

section \<open>Configured prices\<close>

text \<open>
  C36. Saving a draft that is accepted writes options that are valid again; reading them
  by model gives the values of the draft for every model that was named and the values
  that were there before for every other model (negative zero reads as zero, as its JSON
  text has no sign).
\<close>

theorem saved_prices_read_back:
  assumes "priced_options options" and "list_all code_units names" and "draft_units data" and "pricingFromDraft data = Inr vals"
  shows "\<exists>options' models models'. applyPricingDraft options data (Some names) = Inr options' \<and> priced_options options' \<and>
    pricingValuesByModel options = Inr models \<and> pricingValuesByModel options' = Inr models' \<and>
    (\<forall>name. values_or_empty models' name = settled_values (if name \<in> set names then vals else values_or_empty models name))"
proof -
  obtain options' where o': "applyPricingValues options vals names = Inr options'" "priced_options options'"
    "\<And>n. price_table options' n = settled_values (if n \<in> set names then vals else price_table options n)"
    using pricing.save_updates [OF assms(1,2)] draft_values_plain [OF assms(4,3)] by blast
  obtain models where m: "pricingValuesByModel options = Inr models" "\<And>n. values_or_empty models n = price_table options n"
    by (rule values_by_model_is_table [OF assms(1)]) blast
  obtain models' where m': "pricingValuesByModel options' = Inr models'" "\<And>n. values_or_empty models' n = price_table options' n"
    by (rule values_by_model_is_table [OF o'(2)]) blast
  have "applyPricingDraft options data (Some names) = Inr options'"
    by (simp add: applyPricingDraft_def assms(4) o'(1) catching_def)
  with o' m m' show ?thesis by auto
qed

theorem saved_prices_read_back_witness:
  "\<exists>options' models'. applyPricingDraft sample_options sample_draft (Some [js ''a'', js ''c'']) = Inr options' \<and>
    pricingValuesByModel options' = Inr models' \<and>
    values_or_empty models' (js ''c'') ModelRatio = Some (VNum (Fin 3)) \<and>
    values_or_empty models' (js ''b'') ModelRatio = Some (VNum (Fin 2))"
proof -
  have "list_all code_units [js ''a'', js ''c'']" "draft_units sample_draft"
    by (simp_all add: code_units_js sample_draft_def text_or_blank_def)
  from saved_prices_read_back [OF sample_options_priced this sample_draft_accepted(1)]
  obtain options' models models' where r: "applyPricingDraft sample_options sample_draft (Some [js ''a'', js ''c'']) = Inr options'"
    "pricingValuesByModel sample_options = Inr models" "pricingValuesByModel options' = Inr models'"
    "\<forall>name. values_or_empty models' name =
       settled_values (if name \<in> set [js ''a'', js ''c''] then draft_values sample_draft else values_or_empty models name)" by blast
  have v: "draft_values sample_draft ModelRatio = Some (VNum (Fin 3))"
    by (simp add: draft_values_def draft_price_def keeps_field_def filled_def sample_draft_def sample_numbers)
  have "(case pricingValuesByModel sample_options of Inr m \<Rightarrow> values_or_empty m (js ''b'') ModelRatio | Inl _ \<Rightarrow> None) = Some (VNum (Fin 2))"
    by code_simp
  with r v show ?thesis by auto
qed



text \<open>
  C38. The row that opens for the values of a saved draft has the name of the model and
  gives the same values when it is saved again (negative zero as zero). For a tiered draft
  this is shown in two cases: it has no request rules and no top-level factor of its
  expression reads as a rule; or its rules are a non-empty list of groups that read back,
  with one condition without a guard each, and its base is a trimmed and balanced
  expression, not in parentheses, that is no rule. The exception is a model whose name is
  a member of Object.prototype, such as constructor: where one of the eight prices is
  absent, the row shows the inherited member in its place and the draft is refused.
\<close>

theorem saved_draft_opens_again:
  assumes "pricingFromDraft data = Inr vals" and "draft_units data" and "code_units name" and "reopens data"
  shows "\<exists>row. pricingRow name vals = Inr row \<and> mr_name row = name \<and>
    pricingFromDraft row =
      (if name \<in> set OBJECT_PROTOTYPE \<and> (\<exists>key. price_key key \<and> vals key = None) then Inl PriceNotFinite
       else Inr (settled_values vals))"
proof -
  have "(if name \<in> set OBJECT_PROTOTYPE \<and> (\<exists>key. price_key key \<and> vals key = None) then Inl PriceNotFinite else Inr (settled_values vals)) =
      (if covered name vals then Inr (settled_values vals) else Inl PriceNotFinite)"
    by (auto simp: covered_def)
  then show ?thesis using saved_draft_reopens [OF assms] by (simp only:)
qed

theorem saved_draft_opens_again_witness:
  "(\<exists>row. pricingRow (js ''a'') (draft_values sample_tiered_draft) = Inr row \<and> mr_name row = js ''a'' \<and>
     pricingFromDraft row = Inr (settled_values (draft_values sample_tiered_draft))) \<and>
   (\<exists>row. pricingRow (js ''a'') (draft_values sample_plain_draft) = Inr row \<and> mr_name row = js ''a'' \<and>
     pricingFromDraft row = Inr (settled_values (draft_values sample_plain_draft)))"
proof -
  have name: "js ''a'' \<notin> set OBJECT_PROTOTYPE" by code_simp
  have units: "draft_units sample_tiered_draft" "draft_units sample_plain_draft" by code_simp+
  show ?thesis
    using saved_draft_opens_again [OF sample_draft_accepted(2) units(1) code_units_js sample_drafts_reopen(1), of "''a''"]
      saved_draft_opens_again [OF sample_draft_accepted(3) units(2) code_units_js sample_drafts_reopen(2), of "''a''"] name
    by simp
qed

text \<open>
  C39. Importing prices from an upstream replaces the values of the selected models and of
  no other; an imported expression is stored as the very text of the upstream with no
  other price beside it, and otherwise the stored prices are finite numbers that are not
  negative.
\<close>

theorem imported_prices_are_literal:
  assumes "applyPriceSyncSelections upper options sels = Inr options'" and "priced_options options"
    and "\<forall>c\<ge>128. 95 \<notin> set (upper [c])"
    and "list_all (\<lambda>(name, flds). code_units name \<and> list_all (\<lambda>e. plain_value (snd e)) flds) sels"
    and "distinct (map fst sels)"
  shows "priced_options options' \<and>
    (\<forall>name. name \<notin> fst ` set sels \<longrightarrow> settled_values (price_table options' name) = settled_values (price_table options name)) \<and>
    (\<forall>(name, flds)\<in>set sels. imported_values flds (price_table options' name))"
  using assms by (rule imports_replace_prices)

theorem imported_prices_are_literal_witness:
  "\<exists>options'. applyPriceSyncSelections (\<lambda>s. s) sample_options sample_selections = Inr options' \<and>
    price_table options' (js ''a'') = [BillingModeKey \<mapsto> VStr (js ''tiered_expr''), BillingExprKey \<mapsto> VStr (js ''p * 2'')]"
proof -
  have "is_ok (applyPriceSyncSelections (\<lambda>s. s) sample_options sample_selections)" by code_simp
  then obtain options' where o': "applyPriceSyncSelections (\<lambda>s. s) sample_options sample_selections = Inr options'"
    by (auto simp: is_ok_iff)
  have "list_all (\<lambda>(name, flds). code_units name \<and> list_all (\<lambda>e. plain_value (snd e)) flds) sample_selections"
    "distinct (map fst sample_selections)" by code_simp+
  from imported_prices_are_literal [OF o' sample_options_priced _ this]
  have "imported_values [(js ''billing_expr'', VStr (js ''p * 2''))] (price_table options' (js ''a''))"
    by (auto simp: sample_selections_def)
  moreover have "sync_expression [(js ''billing_expr'', VStr (js ''p * 2''))] = Some (js ''p * 2'')" by code_simp
  ultimately show ?thesis using o' by (simp add: imported_values_def)
qed

text \<open>
  C40. After a draft is applied, the changes that are sent name each of the edited models
  with a value that differs once and no other model; each sends the values of the draft
  for the keys that differ, and for the mode and expression when the draft is tiered, and
  the configured values for all other keys.
\<close>

theorem only_edited_models_are_sent:
  assumes "priced_options options" and "pricingFromDraft data = Inr vals" and "draft_units data" and "list_all code_units names"
    and "applyPricingDraft options data (Some names) = Inr options'"
  shows "\<exists>changes. buildPricingChanges snapshot options options' = Inr changes \<and> distinct (map ch_model_name changes) \<and>
    ch_model_name ` set changes =
      {name \<in> set names. \<exists>key. \<not> same_value (price_table options name key) (map_option settled_value (vals key))} \<and>
    (\<forall>c\<in>set changes. \<forall>key. ch_pricing c key =
       (if \<not> same_value (price_table options (ch_model_name c) key) (map_option settled_value (vals key)) \<or>
           vals BillingModeKey = Some (VStr (js ''tiered_expr'')) \<and> \<not> price_key key
        then map_option settled_value (vals key)
        else case entry_for snapshot (ch_model_name c) of Some e \<Rightarrow> me_configured e key | None \<Rightarrow> None))"
  using assms by (rule edit_sends_differences)

theorem only_edited_models_are_sent_witness:
  "\<exists>options' changes. applyPricingDraft sample_options sample_draft (Some [js ''a'']) = Inr options' \<and>
    buildPricingChanges sample_config sample_options options' = Inr changes \<and>
    ch_model_name ` set changes = {js ''a''}"
proof -
  have units: "list_all code_units [js ''a'']" "draft_units sample_draft"
    by (simp_all add: code_units_js sample_draft_def text_or_blank_def)
  obtain options' where o': "applyPricingDraft sample_options sample_draft (Some [js ''a'']) = Inr options'"
    using pricing.save_updates [OF sample_options_priced units(1), of "draft_values sample_draft"]
      draft_values_plain [OF sample_draft_accepted(1) units(2)]
    by (auto simp: applyPricingDraft_def catching_def sample_draft_accepted(1))
  from only_edited_models_are_sent [OF sample_options_priced sample_draft_accepted(1) units(2,1) o', of sample_config]
  obtain changes where c: "buildPricingChanges sample_config sample_options options' = Inr changes"
    "ch_model_name ` set changes = {name \<in> set [js ''a'']. \<exists>key.
       \<not> same_value (price_table sample_options name key) (map_option settled_value (draft_values sample_draft key))}"
    by blast
  have "draft_values sample_draft ModelRatio = Some (VNum (Fin 3))"
    by (simp add: draft_values_def draft_price_def keeps_field_def filled_def sample_draft_def sample_numbers)
  moreover have "price_table sample_options (js ''a'') ModelRatio = Some (VNum (Fin (3 / 2)))" by code_simp
  ultimately have "\<not> same_value (price_table sample_options (js ''a'') ModelRatio) (map_option settled_value (draft_values sample_draft ModelRatio))"
    by (simp add: same_value_def)
  then have "\<exists>key. \<not> same_value (price_table sample_options (js ''a'') key) (map_option settled_value (draft_values sample_draft key))" by blast
  with o' c show ?thesis by auto
qed

end
